(* ===== verification/Prelude.thy ===== *)
theory Prelude
  imports Main "HOL-Library.Word"
begin

text \<open>
  What every component of the development shares: the result codes the COM interfaces
  return, the GUIDs the media types carry, the machine integer types of the Windows headers
  and the named collections the component proofs draw on.

  The Windows SDK headers are not part of the repository, so a result code is a constructor
  named as the source spells it, and two further constructors stand for every other success
  or failure code an external interface may return.
\<close>

section \<open>Machine integers\<close>

type_synonym u8 = "8 word"
type_synonym u16 = "16 word"
type_synonym u32 = "32 word"
type_synonym u64 = "64 word"

text \<open>A \<open>BYTE *\<close> or \<open>void *\<close> region: the byte at each offset from the pointer.\<close>

type_synonym mem = "nat \<Rightarrow> u8"

text \<open>C's signed division truncates towards zero.\<close>

definition quot_toward_zero :: "int \<Rightarrow> int \<Rightarrow> int" where
  "quot_toward_zero n d =
     (if (n < 0) = (d < 0) then abs n div abs d else - (abs n div abs d))"

lemma quot_toward_zero_nonneg [simp]: "0 \<le> n \<Longrightarrow> 0 < d \<Longrightarrow> quot_toward_zero n d = n div d"
  by (simp add: quot_toward_zero_def)

text \<open>The two readings of a word, signed and unsigned.\<close>

lemma sint_range: "- (2 ^ 63) \<le> sint (x :: u64)" "sint x < 2 ^ 63" "- (2 ^ 31) \<le> sint (y :: u32)" "sint y < 2 ^ 31"
  using sint_ge [of x] sint_lt [of x] sint_ge [of y] sint_lt [of y] by simp_all

lemma uint_range: "0 \<le> uint (x :: u64)" "uint x < 2 ^ 64" "0 \<le> uint (y :: u32)" "uint y < 2 ^ 32"
  using uint_bounded [of x] uint_bounded [of y] by simp_all

lemma two_complement: "- m \<le> k \<Longrightarrow> k < m \<Longrightarrow> k mod (2 * m) = (if k < 0 then k + 2 * m else k)" for k m :: int
  using mod_pos_pos_trivial [of "k + 2 * m" "2 * m"] by (simp add: mod_pos_pos_trivial)

lemma uint_sint64: "uint (x :: u64) = (if sint x < 0 then sint x + 2 ^ 64 else sint x)"
  using two_complement [of "2 ^ 63" "sint x"] sint_range(1,2) [of x] by (simp add: uint_sint take_bit_eq_mod)

lemma uint_sint32: "uint (x :: u32) = (if sint x < 0 then sint x + 2 ^ 32 else sint x)"
  using two_complement [of "2 ^ 31" "sint x"] sint_range(3,4) [of x] by (simp add: uint_sint take_bit_eq_mod)

section \<open>Result codes\<close>

datatype hresult =
    S_OK | S_FALSE | VFW_S_NO_MORE_ITEMS | VFW_S_NO_STOP_TIME | Other_success nat
  | E_FAIL | E_POINTER | E_OUTOFMEMORY | E_INVALIDARG | E_UNEXPECTED | E_NOTIMPL
  | E_NOINTERFACE | E_PROP_ID_UNSUPPORTED | E_PROP_SET_UNSUPPORTED
  | VFW_E_NOT_FOUND | VFW_E_NOT_CONNECTED | VFW_E_ALREADY_CONNECTED | VFW_E_NOT_STOPPED
  | VFW_E_INVALID_DIRECTION | VFW_E_TYPE_NOT_ACCEPTED | VFW_E_NO_ACCEPTABLE_TYPES | VFW_E_NO_TRANSPORT
  | VFW_E_NO_ALLOCATOR | VFW_E_RUNTIME_ERROR | VFW_E_WRONG_STATE | VFW_E_NO_CLOCK
  | VFW_E_SAMPLE_TIME_NOT_SET | VFW_E_MEDIA_TIME_NOT_SET | VFW_E_BUFFER_OVERFLOW | VFW_E_BADALIGN
  | VFW_E_ALREADY_COMMITTED | VFW_E_BUFFERS_OUTSTANDING | VFW_E_NOT_COMMITTED | VFW_E_TIMEOUT
  | VFW_E_SIZENOTSET | VFW_E_ENUM_OUT_OF_SYNC | VFW_E_INVALIDMEDIATYPE
  | MF_E_SHUTDOWN | MF_E_NOT_INITIALIZED | MF_E_INVALID_STATE_TRANSITION
  | MF_E_UNSUPPORTED_TIME_FORMAT | MF_E_INVALIDREQUEST | MF_E_INVALIDSTREAMNUMBER
  | VFW_E_NEED_OWNER | VFW_E_PIN_ALREADY_BLOCKED | VFW_E_PIN_ALREADY_BLOCKED_ON_THIS_THREAD | VFW_E_STATE_CHANGED
  | MF_E_UNSUPPORTED_SERVICE | CLASS_E_NOAGGREGATION | CLASS_E_CLASSNOTAVAILABLE
  | Other_failure nat

text \<open>The \<open>SUCCEEDED\<close> and \<open>FAILED\<close> macros: the sign bit of the code.\<close>

fun succeeded :: "hresult \<Rightarrow> bool" where
  "succeeded S_OK = True"
| "succeeded S_FALSE = True"
| "succeeded VFW_S_NO_MORE_ITEMS = True"
| "succeeded VFW_S_NO_STOP_TIME = True"
| "succeeded (Other_success _) = True"
| "succeeded _ = False"

abbreviation failed :: "hresult \<Rightarrow> bool" where
  "failed hr \<equiv> \<not> succeeded hr"

section \<open>Results of a wait on a kernel object\<close>

text \<open>The values \<open>WaitForSingleObject\<close> is documented to return.\<close>

datatype wait_result = WAIT_OBJECT_0 | WAIT_ABANDONED | WAIT_TIMEOUT | WAIT_FAILED

section \<open>Collections\<close>

named_theorems frame_simps \<open>what an operation leaves unchanged\<close>
named_theorems inv_intros \<open>preservation of a component's invariant by its operations\<close>

section \<open>Lists\<close>

lemma length_filter_update:
  assumes "i < length xs"
  shows "length (filter P (xs[i := y])) + (if P (xs ! i) then 1 else 0)
       = length (filter P xs) + (if P y then 1 else 0)"
  using assms
proof (induction xs arbitrary: i)
  case Nil
  then show ?case by simp
next
  case (Cons x xs)
  then show ?case by (cases i) auto
qed

section \<open>Runs that may fault\<close>

text \<open>
  An operation on raw memory is a partial function of the state, undefined where the program
  would touch memory it does not own. What such a component promises is the same everywhere:
  an operation used as it is meant to be neither faults nor breaks the invariant.
\<close>

primrec opt_run :: "('op \<Rightarrow> 's \<Rightarrow> 's option) \<Rightarrow> 'op list \<Rightarrow> 's \<Rightarrow> 's option" where
  "opt_run step [] s = Some s"
| "opt_run step (op # ops) s = Option.bind (step op s) (opt_run step ops)"

locale fault_free =
  fixes step :: "'op \<Rightarrow> 's \<Rightarrow> 's option"
    and proper :: "'op \<Rightarrow> bool"
    and inv :: "'s \<Rightarrow> bool"
  assumes step_total: "proper op \<Longrightarrow> inv s \<Longrightarrow> \<exists>s'. step op s = Some s' \<and> inv s'"
begin

lemma run_total: "list_all proper ops \<Longrightarrow> inv s \<Longrightarrow> \<exists>s'. opt_run step ops s = Some s' \<and> inv s'"
proof (induction ops arbitrary: s)
  case Nil
  then show ?case by simp
next
  case (Cons op ops)
  then obtain s1 where "step op s = Some s1" "inv s1" using step_total by fastforce
  then show ?case using Cons by auto
qed

lemma run_inv: "list_all proper ops \<Longrightarrow> inv s \<Longrightarrow> opt_run step ops s = Some s' \<Longrightarrow> inv s'"
  using run_total by fastforce

end

section \<open>Runs against a specification\<close>

text \<open>
  A component whose operations return results implements a specification when the results it
  returns are among those the specification allows, and the states stay related. The
  specification is deterministic once the result is known.
\<close>

primrec io_run :: "('op \<Rightarrow> 's \<Rightarrow> ('r \<times> 's) option) \<Rightarrow> 'op list \<Rightarrow> 's \<Rightarrow> ('r list \<times> 's) option" where
  "io_run step [] s = Some ([], s)"
| "io_run step (op # ops) s = Option.bind (step op s) (\<lambda>(r, s1).
     map_option (\<lambda>(rs, s2). (r # rs, s2)) (io_run step ops s1))"

fun spec_run :: "('op \<Rightarrow> 'r \<Rightarrow> 'a \<Rightarrow> 'a option) \<Rightarrow> 'op list \<Rightarrow> 'r list \<Rightarrow> 'a \<Rightarrow> 'a option" where
  "spec_run spec [] [] a = Some a"
| "spec_run spec (op # ops) (r # rs) a = Option.bind (spec op r a) (spec_run spec ops rs)"
| "spec_run spec _ _ a = None"

locale implements =
  fixes step :: "'op \<Rightarrow> 's \<Rightarrow> ('r \<times> 's) option"
    and spec :: "'op \<Rightarrow> 'r \<Rightarrow> 'a \<Rightarrow> 'a option"
    and related :: "'a \<Rightarrow> 's \<Rightarrow> bool"
  assumes step_related: "related a s \<Longrightarrow>
    \<exists>r s' a'. step op s = Some (r, s') \<and> spec op r a = Some a' \<and> related a' s'"
begin

lemma run_related: "related a s \<Longrightarrow>
    \<exists>rs s' a'. io_run step ops s = Some (rs, s') \<and> spec_run spec ops rs a = Some a' \<and> related a' s'"
proof (induction ops arbitrary: a s)
  case Nil
  then have "io_run step [] s = Some ([], s) \<and> spec_run spec [] [] a = Some a \<and> related a s" by simp
  then show ?case by blast
next
  case (Cons op ops)
  obtain r s1 a1 where 1: "step op s = Some (r, s1)" "spec op r a = Some a1" "related a1 s1"
    using step_related [OF Cons.prems] by blast
  obtain rs s2 a2 where 2: "io_run step ops s1 = Some (rs, s2)" "spec_run spec ops rs a1 = Some a2" "related a2 s2"
    using Cons.IH [OF 1(3)] by blast
  have "io_run step (op # ops) s = Some (r # rs, s2)" "spec_run spec (op # ops) (r # rs) a = Some a2"
    using 1 2 by simp_all
  then show ?case using 2(3) by blast
qed

end

end
