(* ===== verification/Bytes.thy ===== *)
theory Bytes
  imports Prelude
begin

text \<open>
  Raw memory and C struct layouts. A packed struct is a family of fields, each with an
  offset and a width in bytes, stored little-endian in a byte region; \<open>memcpy\<close> and
  \<open>ZeroMemory\<close> work on the same region. The locale \<open>struct_layout\<close> states what a layout
  promises (fields lie inside the struct and do not overlap) and proves the load/store laws
  once; the frame header of the shared memory and the video format block interpret it.
\<close>

section \<open>Little-endian loads and stores\<close>

fun le_get :: "mem \<Rightarrow> nat \<Rightarrow> nat \<Rightarrow> nat" where
  "le_get m off 0 = 0"
| "le_get m off (Suc k) = unat (m off) + 256 * le_get m (Suc off) k"

fun le_put :: "mem \<Rightarrow> nat \<Rightarrow> nat \<Rightarrow> nat \<Rightarrow> mem" where
  "le_put m off 0 v = m"
| "le_put m off (Suc k) v = (le_put m (Suc off) k (v div 256))(off := of_nat (v mod 256))"

definition memcpy :: "mem \<Rightarrow> nat \<Rightarrow> mem \<Rightarrow> nat \<Rightarrow> nat \<Rightarrow> mem" where
  "memcpy dst doff src soff n =
     (\<lambda>i. if doff \<le> i \<and> i < doff + n then src (soff + (i - doff)) else dst i)"

definition ZeroMemory :: "mem \<Rightarrow> nat \<Rightarrow> nat \<Rightarrow> mem" where
  "ZeroMemory m off n = (\<lambda>i. if off \<le> i \<and> i < off + n then 0 else m i)"

lemma le_get_cong: "(\<And>i. off \<le> i \<Longrightarrow> i < off + k \<Longrightarrow> m i = m' i) \<Longrightarrow> le_get m off k = le_get m' off k"
  by (induction k arbitrary: off) auto

lemma le_put_outside: "i < off \<or> off + k \<le> i \<Longrightarrow> le_put m off k v i = m i"
  by (induction k arbitrary: off v) auto

lemma le_get_below: "le_get m off k < 256 ^ k"
proof (induction k arbitrary: off)
  case 0
  then show ?case by simp
next
  case (Suc k)
  have "unat (m off) < 256" using unsigned_less [of "m off"] by simp
  moreover have "le_get m (Suc off) k < 256 ^ k" by (rule Suc.IH)
  ultimately show ?case by simp
qed

lemma le_get_put_same: "le_get (le_put m off k v) off k = v mod 256 ^ k"
proof (induction k arbitrary: off v)
  case 0
  then show ?case by simp
next
  case (Suc k)
  have "le_get ((le_put m (Suc off) k (v div 256))(off := of_nat (v mod 256))) (Suc off) k
      = le_get (le_put m (Suc off) k (v div 256)) (Suc off) k"
    by (rule le_get_cong) auto
  then show ?case
    by (simp add: Suc.IH fun_upd_def unat_of_nat mod_mult2_eq mult.commute add.commute)
qed

lemma le_get_put_disjoint:
  "off + k \<le> off' \<or> off' + k' \<le> off \<Longrightarrow> le_get (le_put m off' k' v) off k = le_get m off k"
  by (rule le_get_cong) (auto intro: le_put_outside)

lemma le_get_memcpy_disjoint:
  "off + k \<le> doff \<or> doff + n \<le> off \<Longrightarrow> le_get (memcpy m doff src soff n) off k = le_get m off k"
  by (rule le_get_cong) (auto simp: memcpy_def)

lemma memcpy_memcpy_back:
  "k \<le> n \<Longrightarrow> memcpy dest 0 (memcpy m off src 0 n) off k = (\<lambda>i. if i < k then src i else dest i)"
  by (auto simp: memcpy_def fun_eq_iff)

lemma le_get_zero:
  assumes "z \<le> off" and "off + k \<le> z + n"
  shows "le_get (ZeroMemory m z n) off k = 0"
  using assms by (induction k arbitrary: off) (auto simp: ZeroMemory_def)

section \<open>Struct layouts\<close>

definition field_get :: "('f \<Rightarrow> nat) \<Rightarrow> ('f \<Rightarrow> nat) \<Rightarrow> mem \<Rightarrow> 'f \<Rightarrow> nat" where
  "field_get foff fwd m f = le_get m (foff f) (fwd f)"

definition field_put :: "('f \<Rightarrow> nat) \<Rightarrow> ('f \<Rightarrow> nat) \<Rightarrow> 'f \<Rightarrow> nat \<Rightarrow> mem \<Rightarrow> mem" where
  "field_put foff fwd f v m = le_put m (foff f) (fwd f) v"

locale struct_layout =
  fixes foff :: "'f \<Rightarrow> nat" and fwd :: "'f \<Rightarrow> nat" and ssize :: nat
  assumes disjoint: "f \<noteq> g \<Longrightarrow> foff f + fwd f \<le> foff g \<or> foff g + fwd g \<le> foff f"
    and inside: "foff f + fwd f \<le> ssize"
begin

lemma get_put:
  "field_get foff fwd (field_put foff fwd g v m) f
     = (if f = g then v mod 256 ^ fwd g else field_get foff fwd m f)"
  using disjoint [of f g]
  by (auto simp: field_get_def field_put_def le_get_put_same intro: le_get_put_disjoint)

lemma get_memcpy:
  "ssize \<le> doff \<Longrightarrow> field_get foff fwd (memcpy m doff src soff n) f = field_get foff fwd m f"
  unfolding field_get_def using inside [of f] by (intro le_get_memcpy_disjoint) linarith

lemma get_zero: "field_get foff fwd (ZeroMemory m 0 ssize) f = 0"
  unfolding field_get_def using inside [of f] by (intro le_get_zero) auto

lemma put_outside: "ssize \<le> i \<Longrightarrow> field_put foff fwd f v m i = m i"
  unfolding field_put_def using inside [of f] by (intro le_put_outside) linarith

lemma get_below: "field_get foff fwd m f < 256 ^ fwd f"
  unfolding field_get_def by (rule le_get_below)

end

end
