(* ===== verification/SharedMemory.thy ===== *)
theory SharedMemory
  imports Bytes
begin

text \<open>
  The shared-memory channel of MediaFoundationSource/PS3EyeSharedMemory.h and .cpp: one
  writer (\<open>PS3EyeSharedMemoryServer\<close>) and any number of readers
  (\<open>PS3EyeSharedMemoryClient\<close>) over one named section that starts with a packed
  \<open>PS3EyeFrameHeader\<close>.

  The section's bytes are a \<open>mem\<close>, the header fields are loads and stores at their packed
  offsets. A handle member is a \<open>bool\<close> (not null). What the operating system answers is an
  argument of each operation (which of the calls succeed, what a wait returns), and what
  the operation asks of it is returned as the list of its calls, in order.
\<close>

section \<open>Frame format constants and the header layout\<close>

definition PS3EYE_WIDTH :: nat where "PS3EYE_WIDTH = 640"
definition PS3EYE_HEIGHT :: nat where "PS3EYE_HEIGHT = 480"
definition PS3EYE_FPS :: nat where "PS3EYE_FPS = 30"
definition PS3EYE_BYTES_PER_PIXEL :: nat where "PS3EYE_BYTES_PER_PIXEL = 3"
definition PS3EYE_FRAME_SIZE :: nat where
  "PS3EYE_FRAME_SIZE = PS3EYE_WIDTH * PS3EYE_HEIGHT * PS3EYE_BYTES_PER_PIXEL"

datatype hdr_field =
    H_magic | H_version | H_width | H_height | H_stride | H_format | H_frameNumber
  | H_timestamp | H_dataOffset | H_dataSize | H_serverPID | H_clientCount
  | H_reserved0 | H_reserved1 | H_reserved2 | H_reserved3

fun hdr_off :: "hdr_field \<Rightarrow> nat" where
  "hdr_off H_magic = 0"
| "hdr_off H_version = 4"
| "hdr_off H_width = 8"
| "hdr_off H_height = 12"
| "hdr_off H_stride = 16"
| "hdr_off H_format = 20"
| "hdr_off H_frameNumber = 24"
| "hdr_off H_timestamp = 32"
| "hdr_off H_dataOffset = 40"
| "hdr_off H_dataSize = 44"
| "hdr_off H_serverPID = 48"
| "hdr_off H_clientCount = 52"
| "hdr_off H_reserved0 = 56"
| "hdr_off H_reserved1 = 60"
| "hdr_off H_reserved2 = 64"
| "hdr_off H_reserved3 = 68"

fun hdr_wd :: "hdr_field \<Rightarrow> nat" where
  "hdr_wd H_frameNumber = 8"
| "hdr_wd H_timestamp = 8"
| "hdr_wd _ = 4"

text \<open>\<open>sizeof(PS3EyeFrameHeader)\<close> under \<open>#pragma pack(1)\<close>.\<close>

definition sizeof_PS3EyeFrameHeader :: nat where "sizeof_PS3EyeFrameHeader = 72"
definition PS3EYE_MAGIC :: nat where "PS3EYE_MAGIC = 0x45335350"
definition PS3EYE_PROTOCOL_VERSION :: nat where "PS3EYE_PROTOCOL_VERSION = 1"
definition PS3EYE_SHARED_MEMORY_SIZE :: nat where
  "PS3EYE_SHARED_MEMORY_SIZE = sizeof_PS3EyeFrameHeader + PS3EYE_FRAME_SIZE"

lemmas ps3eye_consts =
  PS3EYE_WIDTH_def PS3EYE_HEIGHT_def PS3EYE_FPS_def PS3EYE_BYTES_PER_PIXEL_def
  PS3EYE_FRAME_SIZE_def sizeof_PS3EyeFrameHeader_def PS3EYE_MAGIC_def
  PS3EYE_PROTOCOL_VERSION_def PS3EYE_SHARED_MEMORY_SIZE_def

definition hdr :: "mem \<Rightarrow> hdr_field \<Rightarrow> nat" where
  "hdr = field_get hdr_off hdr_wd"

definition set_hdr :: "hdr_field \<Rightarrow> nat \<Rightarrow> mem \<Rightarrow> mem" where
  "set_hdr = field_put hdr_off hdr_wd"

interpretation header: struct_layout hdr_off hdr_wd sizeof_PS3EyeFrameHeader
proof unfold_locales
  fix f g :: hdr_field
  assume "f \<noteq> g"
  then show "hdr_off f + hdr_wd f \<le> hdr_off g \<or> hdr_off g + hdr_wd g \<le> hdr_off f"
    by (cases f; cases g) auto
next
  fix f
  show "hdr_off f + hdr_wd f \<le> sizeof_PS3EyeFrameHeader"
    by (cases f) (auto simp: sizeof_PS3EyeFrameHeader_def)
qed

lemma hdr_set [simp]:
  "hdr (set_hdr g v m) f = (if f = g then v mod 256 ^ hdr_wd g else hdr m f)"
  unfolding hdr_def set_hdr_def by (rule header.get_put)

lemma hdr_memcpy [simp]:
  "sizeof_PS3EyeFrameHeader \<le> doff \<Longrightarrow> hdr (memcpy m doff src soff n) f = hdr m f"
  unfolding hdr_def by (rule header.get_memcpy)

lemma hdr_zero [simp]: "hdr (ZeroMemory m 0 sizeof_PS3EyeFrameHeader) f = 0"
  unfolding hdr_def by (rule header.get_zero)

lemma set_hdr_data [simp]: "sizeof_PS3EyeFrameHeader \<le> i \<Longrightarrow> set_hdr f v m i = m i"
  unfolding set_hdr_def by (rule header.put_outside)

lemma memcpy_from_set_hdr [simp]:
  "sizeof_PS3EyeFrameHeader \<le> off \<Longrightarrow> memcpy d x (set_hdr f v m) off k = memcpy d x m off k"
  unfolding memcpy_def by (rule ext) auto

lemma hdr_less: "hdr m f < 256 ^ hdr_wd f"
  unfolding hdr_def by (rule header.get_below)

lemma unat_u32_below: "unat (w :: u32) < 2 ^ 32"
  using unsigned_less [of w] by simp

lemma unat_u32_mod [simp]: "unat (w :: u32) mod 4294967296 = unat w"
  using unat_u32_below [of w] by simp

lemma unat_u64_below: "unat (w :: u64) < 2 ^ 64"
  using unsigned_less [of w] by simp

lemma unat_u64_mod [simp]: "unat (w :: u64) mod 18446744073709551616 = unat w"
  using unat_u64_below [of w] by simp

section \<open>Kernel objects and calls\<close>

datatype kobj = Mutex | NewFrameEvent | ClientEvent | FileMapping | View

datatype kcall =
    Opened kobj        \<comment> \<open>a create, open or map call that returned a handle\<close>
  | Closed kobj        \<comment> \<open>CloseHandle, UnmapViewOfFile\<close>
  | Signalled kobj     \<comment> \<open>SetEvent\<close>
  | Waited kobj wait_result
  | Released kobj      \<comment> \<open>ReleaseMutex\<close>

text \<open>Handles of a kind that a list of calls opens, less those it closes.\<close>

fun balance :: "kobj \<Rightarrow> kcall list \<Rightarrow> int" where
  "balance k [] = 0"
| "balance k (Opened j # cs) = (if j = k then 1 else 0) + balance k cs"
| "balance k (Closed j # cs) = (if j = k then - 1 else 0) + balance k cs"
| "balance k (_ # cs) = balance k cs"

lemma balance_append [simp]: "balance k (xs @ ys) = balance k xs + balance k ys"
  by (induction k xs rule: balance.induct) auto

section \<open>The endpoint: members shared by server and client\<close>

text \<open>
  The handle members, which server and client both have: a pointer or handle is null or not.
\<close>

record endpoint =
  m_fileMapping :: bool
  m_mutex :: bool
  m_newFrameEvent :: bool
  m_clientEvent :: bool
  m_sharedMemory :: bool

fun holds :: "('a endpoint_scheme) \<Rightarrow> kobj \<Rightarrow> bool" where
  "holds e Mutex = m_mutex e"
| "holds e NewFrameEvent = m_newFrameEvent e"
| "holds e ClientEvent = m_clientEvent e"
| "holds e FileMapping = m_fileMapping e"
| "holds e View = m_sharedMemory e"

definition held :: "('a endpoint_scheme) \<Rightarrow> kobj \<Rightarrow> int" where
  "held e k = (if holds e k then 1 else 0)"

record server = endpoint +
  m_frameNumber :: u64

record client = endpoint +
  m_lastFrameNumber :: u64

definition new_server :: server where
  "new_server = \<lparr>m_fileMapping = False, m_mutex = False, m_newFrameEvent = False,
     m_clientEvent = False, m_sharedMemory = False, m_frameNumber = 0\<rparr>"

definition new_client :: client where
  "new_client = \<lparr>m_fileMapping = False, m_mutex = False, m_newFrameEvent = False,
     m_clientEvent = False, m_sharedMemory = False, m_lastFrameNumber = 0\<rparr>"

definition IsCreated :: "server \<Rightarrow> bool" where "IsCreated s = m_sharedMemory s"
definition IsConnected :: "client \<Rightarrow> bool" where "IsConnected c = m_sharedMemory c"

text \<open>Which of the create, open and map calls return a handle, and the process id.\<close>

record os_answers =
  os_mutex :: bool
  os_newFrameEvent :: bool
  os_clientEvent :: bool
  os_fileMapping :: bool
  os_view :: bool
  os_pid :: u32

section \<open>Server\<close>

text \<open>The header initialisation at the end of \<open>Create\<close>.\<close>

definition init_header :: "u32 \<Rightarrow> mem \<Rightarrow> mem" where
  "init_header pid m =
     set_hdr H_clientCount 0
      (set_hdr H_serverPID (unat pid)
       (set_hdr H_dataSize PS3EYE_FRAME_SIZE
        (set_hdr H_dataOffset sizeof_PS3EyeFrameHeader
         (set_hdr H_timestamp 0
          (set_hdr H_frameNumber 0
           (set_hdr H_format 0
            (set_hdr H_stride (PS3EYE_WIDTH * PS3EYE_BYTES_PER_PIXEL)
             (set_hdr H_height PS3EYE_HEIGHT
              (set_hdr H_width PS3EYE_WIDTH
               (set_hdr H_version PS3EYE_PROTOCOL_VERSION
                (set_hdr H_magic PS3EYE_MAGIC
                 (ZeroMemory m 0 sizeof_PS3EyeFrameHeader))))))))))))"

definition Server_Create ::
  "os_answers \<Rightarrow> server \<Rightarrow> mem \<Rightarrow> bool \<times> server \<times> mem \<times> kcall list" where
  "Server_Create os s m =
    (if \<not> os_mutex os then (False, s\<lparr>m_mutex := False\<rparr>, m, [])
     else if \<not> os_newFrameEvent os then
       (False, s\<lparr>m_mutex := False, m_newFrameEvent := False\<rparr>, m, [Opened Mutex, Closed Mutex])
     else if \<not> os_clientEvent os then
       (False, s\<lparr>m_mutex := False, m_newFrameEvent := False, m_clientEvent := False\<rparr>, m,
        [Opened Mutex, Opened NewFrameEvent, Closed NewFrameEvent, Closed Mutex])
     else if \<not> os_fileMapping os then
       (False, s\<lparr>m_mutex := False, m_newFrameEvent := False, m_clientEvent := False,
                 m_fileMapping := False\<rparr>, m,
        [Opened Mutex, Opened NewFrameEvent, Opened ClientEvent,
         Closed ClientEvent, Closed NewFrameEvent, Closed Mutex])
     else if \<not> os_view os then
       (False, s\<lparr>m_mutex := False, m_newFrameEvent := False, m_clientEvent := False,
                 m_fileMapping := False, m_sharedMemory := False\<rparr>, m,
        [Opened Mutex, Opened NewFrameEvent, Opened ClientEvent, Opened FileMapping,
         Closed FileMapping, Closed ClientEvent, Closed NewFrameEvent, Closed Mutex])
     else
       (True, s\<lparr>m_mutex := True, m_newFrameEvent := True, m_clientEvent := True,
                m_fileMapping := True, m_sharedMemory := True, m_frameNumber := 0\<rparr>,
        init_header (os_pid os) m,
        [Opened Mutex, Opened NewFrameEvent, Opened ClientEvent, Opened FileMapping,
         Opened View]))"

definition Server_Close :: "server \<Rightarrow> mem \<Rightarrow> server \<times> mem \<times> kcall list" where
  "Server_Close s m =
    (s\<lparr>m_sharedMemory := False, m_fileMapping := False, m_newFrameEvent := False,
       m_clientEvent := False, m_mutex := False\<rparr>,
     (if m_sharedMemory s then set_hdr H_serverPID 0 m else m),
     (if m_sharedMemory s then [Closed View] else []) @
     (if m_fileMapping s then [Closed FileMapping] else []) @
     (if m_newFrameEvent s then [Closed NewFrameEvent] else []) @
     (if m_clientEvent s then [Closed ClientEvent] else []) @
     (if m_mutex s then [Closed Mutex] else []))"

text \<open>\<open>LONG\<close>: the count is read back as a signed 32-bit value.\<close>

definition client_count :: "mem \<Rightarrow> int" where
  "client_count m = sint (of_nat (hdr m H_clientCount) :: u32)"

definition Server_GetClientCount :: "server \<Rightarrow> mem \<Rightarrow> int" where
  "Server_GetClientCount s m = (if \<not> m_sharedMemory s then 0 else client_count m)"

text \<open>
  \<open>WaitForClients\<close> reads the count before and after the wait: \<open>m\<close> is the section when it
  is called and \<open>m'\<close> when the wait has ended.
\<close>

definition Server_WaitForClients ::
  "wait_result \<Rightarrow> server \<Rightarrow> mem \<Rightarrow> mem \<Rightarrow> bool \<times> kcall list" where
  "Server_WaitForClients w s m m' =
    (if \<not> m_clientEvent s then (False, [])
     else if Server_GetClientCount s m > 0 then (True, [])
     else (w = WAIT_OBJECT_0 \<or> Server_GetClientCount s m' > 0, [Waited ClientEvent w]))"

text \<open>\<open>frameData\<close> is \<open>None\<close> for a null pointer; \<open>w\<close> answers the 100 ms wait for the mutex.\<close>

definition Server_WriteFrame ::
  "wait_result \<Rightarrow> mem option \<Rightarrow> u32 \<Rightarrow> u64 \<Rightarrow> server \<Rightarrow> mem
     \<Rightarrow> bool \<times> server \<times> mem \<times> kcall list" where
  "Server_WriteFrame w frameData frameSize timestamp s m =
    (case frameData of
       None \<Rightarrow> (False, s, m, [])
     | Some src \<Rightarrow>
        if \<not> m_sharedMemory s then (False, s, m, [])
        else if unat frameSize > PS3EYE_FRAME_SIZE then (False, s, m, [])
        else if w \<noteq> WAIT_OBJECT_0 then (False, s, m, [Waited Mutex w])
        else
          (let m1 = memcpy m (hdr m H_dataOffset) src 0 (unat frameSize);
               s1 = s\<lparr>m_frameNumber := m_frameNumber s + 1\<rparr>;
               m2 = set_hdr H_frameNumber (unat (m_frameNumber s1)) m1;
               m3 = set_hdr H_timestamp (unat timestamp) m2;
               m4 = set_hdr H_dataSize (unat frameSize) m3
           in (True, s1, m4, [Waited Mutex w, Signalled NewFrameEvent, Released Mutex])))"

definition Server_GetFrameNumber :: "server \<Rightarrow> u64" where
  "Server_GetFrameNumber s = m_frameNumber s"

section \<open>Client\<close>

text \<open>\<open>InterlockedIncrement\<close> and \<open>InterlockedDecrement\<close> on the 32-bit count.\<close>

definition interlocked_add :: "u32 \<Rightarrow> mem \<Rightarrow> mem" where
  "interlocked_add d m = set_hdr H_clientCount (unat (of_nat (hdr m H_clientCount) + d)) m"

definition Client_Disconnect :: "client \<Rightarrow> mem \<Rightarrow> client \<times> mem \<times> kcall list" where
  "Client_Disconnect c m =
    (c\<lparr>m_sharedMemory := False, m_fileMapping := False, m_newFrameEvent := False,
       m_clientEvent := False, m_mutex := False\<rparr>,
     (if m_sharedMemory c then interlocked_add (- 1) m else m),
     (if m_sharedMemory c
      then (if m_clientEvent c then [Signalled ClientEvent] else []) @ [Closed View] else []) @
     (if m_fileMapping c then [Closed FileMapping] else []) @
     (if m_newFrameEvent c then [Closed NewFrameEvent] else []) @
     (if m_clientEvent c then [Closed ClientEvent] else []) @
     (if m_mutex c then [Closed Mutex] else []))"

definition Client_Connect ::
  "os_answers \<Rightarrow> client \<Rightarrow> mem \<Rightarrow> bool \<times> client \<times> mem \<times> kcall list" where
  "Client_Connect os c m =
    (if \<not> os_mutex os then (False, c\<lparr>m_mutex := False\<rparr>, m, [])
     else if \<not> os_newFrameEvent os then
       (False, c\<lparr>m_mutex := False, m_newFrameEvent := False\<rparr>, m, [Opened Mutex, Closed Mutex])
     else if \<not> os_fileMapping os then
       (False, c\<lparr>m_mutex := False, m_newFrameEvent := False, m_fileMapping := False\<rparr>, m,
        [Opened Mutex, Opened NewFrameEvent, Closed NewFrameEvent, Closed Mutex])
     else if \<not> os_view os then
       (False, c\<lparr>m_mutex := False, m_newFrameEvent := False, m_fileMapping := False,
                 m_sharedMemory := False\<rparr>, m,
        [Opened Mutex, Opened NewFrameEvent, Opened FileMapping,
         Closed FileMapping, Closed NewFrameEvent, Closed Mutex])
     else
       (let c1 = c\<lparr>m_mutex := True, m_newFrameEvent := True, m_fileMapping := True,
                   m_sharedMemory := True\<rparr>;
            opens = [Opened Mutex, Opened NewFrameEvent, Opened FileMapping, Opened View]
        in if hdr m H_magic \<noteq> PS3EYE_MAGIC \<or> hdr m H_version \<noteq> PS3EYE_PROTOCOL_VERSION then
             (case Client_Disconnect c1 m of (c2, m2, calls) \<Rightarrow> (False, c2, m2, opens @ calls))
           else
             (True, c1\<lparr>m_clientEvent := os_clientEvent os, m_lastFrameNumber := 0\<rparr>,
              interlocked_add 1 m,
              opens @ (if os_clientEvent os then [Opened ClientEvent, Signalled ClientEvent]
                       else []))))"

definition Client_WaitForFrame :: "wait_result \<Rightarrow> client \<Rightarrow> bool \<times> kcall list" where
  "Client_WaitForFrame w c =
    (if \<not> m_newFrameEvent c then (False, [])
     else (w = WAIT_OBJECT_0, [Waited NewFrameEvent w]))"

text \<open>
  \<open>ReadFrame\<close>: the destination is \<open>None\<close> for a null pointer; the frame number and time
  stamp out-parameters are written when their pointers are not null (\<open>wantFn\<close>, \<open>wantTs\<close>),
  and their value is \<open>None\<close> when they are left as they were.
\<close>

record read_result =
  rr_ok :: bool
  rr_dest :: "mem option"
  rr_frameNumber :: "u64 option"
  rr_timestamp :: "u64 option"

definition no_read :: "mem option \<Rightarrow> read_result" where
  "no_read d = \<lparr>rr_ok = False, rr_dest = d, rr_frameNumber = None, rr_timestamp = None\<rparr>"

definition Client_ReadFrame ::
  "wait_result \<Rightarrow> mem option \<Rightarrow> u32 \<Rightarrow> bool \<Rightarrow> bool \<Rightarrow> client \<Rightarrow> mem
     \<Rightarrow> read_result \<times> client \<times> kcall list" where
  "Client_ReadFrame w destBuffer destSize wantFn wantTs c m =
    (case destBuffer of
       None \<Rightarrow> (no_read destBuffer, c, [])
     | Some dest \<Rightarrow>
        if \<not> m_sharedMemory c then (no_read destBuffer, c, [])
        else if w \<noteq> WAIT_OBJECT_0 then (no_read destBuffer, c, [Waited Mutex w])
        else if hdr m H_serverPID = 0 then
          (no_read destBuffer, c, [Waited Mutex w, Released Mutex])
        else if of_nat (hdr m H_frameNumber) = m_lastFrameNumber c then
          (no_read destBuffer, c, [Waited Mutex w, Released Mutex])
        else
          (let copySize = min (unat destSize) (hdr m H_dataSize);
               fn = of_nat (hdr m H_frameNumber)
           in (\<lparr>rr_ok = True,
                rr_dest = Some (memcpy dest 0 m (hdr m H_dataOffset) copySize),
                rr_frameNumber = (if wantFn then Some fn else None),
                rr_timestamp = (if wantTs then Some (of_nat (hdr m H_timestamp)) else None)\<rparr>,
               c\<lparr>m_lastFrameNumber := fn\<rparr>,
               [Waited Mutex w, Released Mutex])))"

definition Client_GetFrameInfo :: "client \<Rightarrow> mem \<Rightarrow> (nat \<times> nat \<times> nat \<times> nat) option" where
  "Client_GetFrameInfo c m =
    (if \<not> m_sharedMemory c then None
     else Some (hdr m H_width, hdr m H_height, hdr m H_format, hdr m H_frameNumber))"


section \<open>Handle ownership\<close>

text \<open>
  What an owner of kernel handles promises: acquiring from an idle endpoint accounts for
  every handle it opened, on every failure path too, and releasing gives all of them back.
  The clients' connect-on-demand sequences are then free of leaks.
\<close>

fun on_demand ::
  "('o \<Rightarrow> 'e \<Rightarrow> mem \<Rightarrow> bool \<times> 'e \<times> mem \<times> kcall list) \<Rightarrow> ('e \<Rightarrow> mem \<Rightarrow> 'e \<times> mem \<times> kcall list)
     \<Rightarrow> ('e \<Rightarrow> bool) \<Rightarrow> 'o option list \<Rightarrow> 'e \<Rightarrow> mem \<Rightarrow> 'e \<times> mem \<times> kcall list" where
  "on_demand acquire release up [] e m = (e, m, [])"
| "on_demand acquire release up (Some os # ops) e m =
     (if up e then on_demand acquire release up ops e m
      else case acquire os e m of (_, e1, m1, calls) \<Rightarrow>
           (case on_demand acquire release up ops e1 m1 of (e2, m2, calls2) \<Rightarrow>
             (e2, m2, calls @ calls2)))"
| "on_demand acquire release up (None # ops) e m =
     (case release e m of (e1, m1, calls) \<Rightarrow>
       (case on_demand acquire release up ops e1 m1 of (e2, m2, calls2) \<Rightarrow>
         (e2, m2, calls @ calls2)))"

locale handle_owner =
  fixes acquire :: "'o \<Rightarrow> 'e \<Rightarrow> mem \<Rightarrow> bool \<times> 'e \<times> mem \<times> kcall list"
    and release :: "'e \<Rightarrow> mem \<Rightarrow> 'e \<times> mem \<times> kcall list"
    and up :: "'e \<Rightarrow> bool"
    and hold :: "'e \<Rightarrow> kobj \<Rightarrow> int"
  assumes acquire_balance:
      "(\<And>k. hold e k = 0) \<Longrightarrow> acquire os e m = (b, e', m', calls) \<Longrightarrow> balance k calls = hold e' k"
    and acquire_up: "\<not> up e \<Longrightarrow> acquire os e m = (b, e', m', calls) \<Longrightarrow> up e' = b"
    and acquire_failed:
      "(\<And>k. hold e k = 0) \<Longrightarrow> acquire os e m = (False, e', m', calls) \<Longrightarrow> hold e' k = 0"
    and release_balance: "release e m = (e', m', calls) \<Longrightarrow> balance k calls = - hold e k"
    and release_idle: "release e m = (e', m', calls) \<Longrightarrow> hold e' k = 0"
    and release_down: "release e m = (e', m', calls) \<Longrightarrow> \<not> up e'"
begin

definition tidy :: "'e \<Rightarrow> bool" where
  "tidy e \<longleftrightarrow> (\<not> up e \<longrightarrow> (\<forall>k. hold e k = 0))"

lemma acquire_tidy:
  "tidy e \<Longrightarrow> \<not> up e \<Longrightarrow> acquire os e m = (b, e', m', calls) \<Longrightarrow> tidy e'"
  using acquire_up [of e os m b e' m' calls] acquire_failed [of e os m e' m' calls]
  by (cases b) (auto simp: tidy_def)

lemma on_demand_balance:
  assumes "tidy e" and "on_demand acquire release up ops e m = (e', m', calls)"
  shows "balance k calls = hold e' k - hold e k \<and> tidy e'"
  using assms
proof (induction ops arbitrary: e m calls)
  case Nil
  then show ?case by simp
next
  case (Cons op ops)
  show ?case
  proof (cases op)
    case None
    obtain e1 m1 c1 where r: "release e m = (e1, m1, c1)" by (cases "release e m") auto
    obtain c2 where c2: "on_demand acquire release up ops e1 m1 = (e', m', c2)" "calls = c1 @ c2"
      using Cons.prems(2) None r by (auto split: prod.splits)
    have "tidy e1" using release_idle [OF r] by (simp add: tidy_def)
    from Cons.IH [OF this c2(1)] c2(2) release_balance [OF r, of k] release_idle [OF r, of k]
    show ?thesis by simp
  next
    case (Some os)
    show ?thesis
    proof (cases "up e")
      case True
      with Cons Some show ?thesis by simp
    next
      case False
      obtain b e1 m1 c1 where r: "acquire os e m = (b, e1, m1, c1)"
        by (cases "acquire os e m") auto
      obtain c2 where c2: "on_demand acquire release up ops e1 m1 = (e', m', c2)" "calls = c1 @ c2"
        using Cons.prems(2) Some False r by (auto split: prod.splits)
      have idle: "\<And>k. hold e k = 0" using Cons.prems(1) False by (simp add: tidy_def)
      have "tidy e1" using Cons.prems(1) False r by (rule acquire_tidy)
      from Cons.IH [OF this c2(1)] c2(2) acquire_balance [OF idle r, of k] idle [of k]
      show ?thesis by simp
    qed
  qed
qed

lemma on_demand_ends_released:
  "on_demand acquire release up (ops @ [None]) e m = (e', m', calls)
     \<Longrightarrow> \<exists>e1 m1 c. release e1 m1 = (e', m', c)"
proof (induction ops arbitrary: e m calls)
  case Nil
  then show ?case by (auto split: prod.splits)
next
  case (Cons op ops)
  then show ?case by (cases op) (auto split: prod.splits if_splits)
qed

lemma on_demand_no_leak:
  assumes "\<And>k. hold e k = 0"
    and run: "on_demand acquire release up (ops @ [None]) e m = (e', m', calls)"
  shows "balance k calls = 0 \<and> hold e' k = 0"
proof -
  have "tidy e" using assms(1) by (simp add: tidy_def)
  from on_demand_balance [OF this run] have "balance k calls = hold e' k - hold e k" by simp
  moreover have "hold e' k = 0"
    using on_demand_ends_released [OF run] release_idle by blast
  ultimately show ?thesis using assms(1) by simp
qed

end

lemma held_eq_0 [simp]: "held e k = 0 \<longleftrightarrow> \<not> holds e k"
  by (simp add: held_def)

lemma idle_handles:
  assumes "\<And>k. held e k = 0"
  shows "\<not> m_mutex e" "\<not> m_newFrameEvent e" "\<not> m_clientEvent e" "\<not> m_fileMapping e"
    "\<not> m_sharedMemory e"
  using assms [of Mutex] assms [of NewFrameEvent] assms [of ClientEvent] assms [of FileMapping]
    assms [of View] by simp_all

interpretation server_handles: handle_owner Server_Create Server_Close IsCreated held
proof unfold_locales
  fix e e' :: server and os m m' b calls k
  assume idle: "\<And>k. held e k = 0" and r: "Server_Create os e m = (b, e', m', calls)"
  from idle_handles [OF idle] r show "balance k calls = held e' k"
    by (cases k) (auto simp: Server_Create_def held_def split: if_splits)
next
  fix e e' :: server and os m m' calls k
  assume idle: "\<And>k. held e k = 0" and r: "Server_Create os e m = (False, e', m', calls)"
  from idle_handles [OF idle] r show "held e' k = 0"
    by (cases k) (auto simp: Server_Create_def split: if_splits)
next
  fix e e' :: server and m m' calls k
  assume r: "Server_Close e m = (e', m', calls)"
  then show "balance k calls = - held e k"
    by (cases k) (auto simp: Server_Close_def held_def)
  from r show "held e' k = 0" by (cases k) (auto simp: Server_Close_def)
qed (auto simp: Server_Create_def Server_Close_def IsCreated_def split: if_splits)

lemma Disconnect_balance:
  "Client_Disconnect c m = (c', m', calls) \<Longrightarrow> balance k calls = - held c k"
  by (cases k) (auto simp: Client_Disconnect_def held_def)

lemma Disconnect_idle: "Client_Disconnect c m = (c', m', calls) \<Longrightarrow> held c' k = 0"
  by (cases k) (auto simp: Client_Disconnect_def)

lemma Connect_balance:
  assumes idle: "\<And>k. held e k = 0" and r: "Client_Connect os e m = (b, e', m', calls)"
  shows "balance k calls = held e' k"
  using idle_handles [OF idle] r
  by (cases k) (auto simp: Client_Connect_def Client_Disconnect_def Let_def held_def split: if_splits)

interpretation client_handles: handle_owner Client_Connect Client_Disconnect IsConnected held
proof unfold_locales
  fix e e' :: client and os m m' b calls k
  assume "\<And>k. held e k = 0" and "Client_Connect os e m = (b, e', m', calls)"
  then show "balance k calls = held e' k" by (rule Connect_balance)
next
  fix e e' :: client and os m m' calls k
  assume idle: "\<And>k. held e k = 0" and r: "Client_Connect os e m = (False, e', m', calls)"
  from idle_handles [OF idle] r show "held e' k = 0"
    by (cases k) (auto simp: Client_Connect_def Client_Disconnect_def Let_def split: if_splits)
next
  fix e e' :: client and m m' calls k
  assume r: "Client_Disconnect e m = (e', m', calls)"
  from r show "balance k calls = - held e k" by (rule Disconnect_balance)
  from r show "held e' k = 0" by (rule Disconnect_idle)
qed (auto simp: Client_Connect_def Client_Disconnect_def Let_def IsConnected_def split: if_splits)

section \<open>The header invariant\<close>

text \<open>What \<open>Create\<close> establishes and no later operation disturbs.\<close>

definition header_ok :: "mem \<Rightarrow> bool" where
  "header_ok m \<longleftrightarrow>
     hdr m H_magic = PS3EYE_MAGIC \<and> hdr m H_version = PS3EYE_PROTOCOL_VERSION \<and>
     hdr m H_width = PS3EYE_WIDTH \<and> hdr m H_height = PS3EYE_HEIGHT \<and>
     hdr m H_stride = PS3EYE_WIDTH * PS3EYE_BYTES_PER_PIXEL \<and> hdr m H_format = 0 \<and>
     hdr m H_dataOffset = sizeof_PS3EyeFrameHeader \<and> hdr m H_dataSize \<le> PS3EYE_FRAME_SIZE"

lemma init_header_ok [inv_intros]: "header_ok (init_header pid m)"
  by (simp add: header_ok_def init_header_def ps3eye_consts)

lemma Create_header_ok [inv_intros]:
  "Server_Create os s m = (True, s', m', calls) \<Longrightarrow> header_ok m'"
  by (auto simp: Server_Create_def split: if_splits intro: init_header_ok)

lemma Close_header_ok [inv_intros]:
  "header_ok m \<Longrightarrow> Server_Close s m = (s', m', calls) \<Longrightarrow> header_ok m'"
  by (auto simp: Server_Close_def header_ok_def)

lemma WriteFrame_header_ok [inv_intros]:
  "header_ok m \<Longrightarrow> Server_WriteFrame w d n t s m = (b, s', m', calls) \<Longrightarrow> header_ok m'"
  by (auto simp: Server_WriteFrame_def header_ok_def Let_def split: option.splits if_splits)

lemma interlocked_header_ok [inv_intros]: "header_ok m \<Longrightarrow> header_ok (interlocked_add d m)"
  by (auto simp: interlocked_add_def header_ok_def)

lemma Disconnect_header_ok [inv_intros]:
  "header_ok m \<Longrightarrow> Client_Disconnect c m = (c', m', calls) \<Longrightarrow> header_ok m'"
  by (auto simp: Client_Disconnect_def intro: interlocked_header_ok split: if_splits)

lemma Connect_header_ok [inv_intros]:
  "header_ok m \<Longrightarrow> Client_Connect os c m = (b, c', m', calls) \<Longrightarrow> header_ok m'"
  by (auto simp: Client_Connect_def Client_Disconnect_def Let_def
      intro: interlocked_header_ok split: if_splits)


lemma interlocked_other [simp]: "f \<noteq> H_clientCount \<Longrightarrow> hdr (interlocked_add d m) f = hdr m f"
  by (simp add: interlocked_add_def)

lemma Connect_cases:
  assumes "header_ok m" and "\<not> IsConnected c" and "Client_Connect os c m = (b, c', m', calls)"
  shows "(b \<and> IsConnected c' \<and> m' = interlocked_add 1 m) \<or> (\<not> b \<and> \<not> IsConnected c' \<and> m' = m)"
  using assms
  by (auto simp: Client_Connect_def Client_Disconnect_def Let_def header_ok_def IsConnected_def
      split: if_splits)

lemma interlocked_undo [simp]:
  "hdr (interlocked_add (- 1) (interlocked_add 1 m)) f = hdr m f"
  using hdr_less [of m H_clientCount] by (simp add: interlocked_add_def unat_of_nat)

section \<open>Properties\<close>

lemma new_client_idle: "held new_client k = 0"
  by (cases k) (auto simp: new_client_def)

lemma new_server_idle: "held new_server k = 0"
  by (cases k) (auto simp: new_server_def)

text \<open>A client that connects on demand and disconnects, in any order and any number of
  times, whatever the operating system answers, has closed every handle and view it opened
  once it has disconnected.\<close>

theorem client_sessions_leak_nothing:
  "balance k (snd (snd (on_demand Client_Connect Client_Disconnect IsConnected
      (answers @ [None]) new_client m))) = 0"
  by (cases "on_demand Client_Connect Client_Disconnect IsConnected
      (answers @ [None]) new_client m")
    (auto dest: client_handles.on_demand_no_leak [OF new_client_idle])

text \<open>The same for the server: every failure path of \<open>Create\<close> closes what it opened, and
  \<open>Close\<close> closes the rest.\<close>

theorem server_sessions_leak_nothing:
  "balance k (snd (snd (on_demand Server_Create Server_Close IsCreated
      (answers @ [None]) new_server m))) = 0"
  by (cases "on_demand Server_Create Server_Close IsCreated (answers @ [None]) new_server m")
    (auto dest: server_handles.on_demand_no_leak [OF new_server_idle])

lemma WriteFrame_success:
  assumes "Server_WriteFrame w d n t s m = (True, s', m', calls)"
  obtains src where "d = Some src" "w = WAIT_OBJECT_0" "unat n \<le> PS3EYE_FRAME_SIZE"
    "m_sharedMemory s" "s' = s\<lparr>m_frameNumber := m_frameNumber s + 1\<rparr>"
    "m' = set_hdr H_dataSize (unat n) (set_hdr H_timestamp (unat t)
            (set_hdr H_frameNumber (unat (m_frameNumber s + 1))
              (memcpy m (hdr m H_dataOffset) src 0 (unat n))))"
  using assms
  by (auto simp: Server_WriteFrame_def Let_def split: option.splits if_splits)

lemma write_then_read:
  assumes ok: "header_ok m"
    and w: "Server_WriteFrame w (Some src) n t s m = (True, s', m', calls)"
    and up: "hdr m H_serverPID \<noteq> 0" "m_sharedMemory c"
    and new: "m_lastFrameNumber c \<noteq> m_frameNumber s'"
  shows "Client_ReadFrame WAIT_OBJECT_0 (Some dest) dsz True True c m'
       = (\<lparr>rr_ok = True,
           rr_dest = Some (\<lambda>i. if i < min (unat dsz) (unat n) then src i else dest i),
           rr_frameNumber = Some (m_frameNumber s'), rr_timestamp = Some t\<rparr>,
          c\<lparr>m_lastFrameNumber := m_frameNumber s'\<rparr>,
          [Waited Mutex WAIT_OBJECT_0, Released Mutex])"
proof -
  have off: "hdr m H_dataOffset = sizeof_PS3EyeFrameHeader"
    using ok by (simp add: header_ok_def)
  show ?thesis
    using w up new
    by (auto elim!: WriteFrame_success simp: Client_ReadFrame_def Let_def off memcpy_memcpy_back min.commute)
qed

text \<open>C2: frame delivery is lossless. A frame written under the mutex is read back byte for
  byte by a connected client that has not seen that frame number, cut to the size of its
  buffer and with the rest of the buffer untouched, together with its number and time stamp.\<close>

theorem read_after_write:
  assumes "header_ok m"
    and "Server_WriteFrame w (Some src) n t s m = (True, s', m', calls)"
    and "hdr m H_serverPID \<noteq> 0"
    and "m_sharedMemory c" and "m_lastFrameNumber c \<noteq> m_frameNumber s'"
  shows "Client_ReadFrame WAIT_OBJECT_0 (Some dest) dsz True True c m'
       = (\<lparr>rr_ok = True,
           rr_dest = Some (\<lambda>i. if i < min (unat dsz) (unat n) then src i else dest i),
           rr_frameNumber = Some (m_frameNumber s'), rr_timestamp = Some t\<rparr>,
          c\<lparr>m_lastFrameNumber := m_frameNumber s'\<rparr>,
          [Waited Mutex WAIT_OBJECT_0, Released Mutex])"
  using assms by (rule write_then_read)

text \<open>A server, a client and a section on which the theorems are exercised.\<close>

definition demo_section :: mem where
  "demo_section = init_header 7 (\<lambda>_. 0)"

definition demo_server :: server where
  "demo_server = \<lparr>m_fileMapping = True, m_mutex = True, m_newFrameEvent = True,
     m_clientEvent = True, m_sharedMemory = True, m_frameNumber = 0\<rparr>"

definition demo_client :: client where
  "demo_client = \<lparr>m_fileMapping = True, m_mutex = True, m_newFrameEvent = True,
     m_clientEvent = True, m_sharedMemory = True, m_lastFrameNumber = 0\<rparr>"

definition all_granted :: os_answers where
  "all_granted = \<lparr>os_mutex = True, os_newFrameEvent = True, os_clientEvent = True,
     os_fileMapping = True, os_view = True, os_pid = 7\<rparr>"

lemma demo_section_ok: "header_ok demo_section" "hdr demo_section H_serverPID = 7"
  "hdr demo_section H_clientCount = 0"
  by (simp_all add: demo_section_def init_header_ok) (simp_all add: init_header_def)

lemma demo_connect:
  "Client_Connect all_granted new_client demo_section
     = (True, demo_client, interlocked_add 1 demo_section,
        [Opened Mutex, Opened NewFrameEvent, Opened FileMapping, Opened View,
         Opened ClientEvent, Signalled ClientEvent])"
  using demo_section_ok(1)
  by (simp add: Client_Connect_def all_granted_def new_client_def demo_client_def header_ok_def Let_def)

lemma demo_write:
  "\<exists>m'. Server_WriteFrame WAIT_OBJECT_0 (Some (\<lambda>i. of_nat i)) 16 99 demo_server demo_section
     = (True, demo_server\<lparr>m_frameNumber := 1\<rparr>, m',
        [Waited Mutex WAIT_OBJECT_0, Signalled NewFrameEvent, Released Mutex])"
  by (simp add: Server_WriteFrame_def demo_server_def Let_def ps3eye_consts)

theorem read_after_write_witness:
  "\<exists>m' c'. Client_ReadFrame WAIT_OBJECT_0 (Some (\<lambda>_. 0)) 4 True True demo_client m'
       = (\<lparr>rr_ok = True, rr_dest = Some (\<lambda>i. if i < 4 then of_nat i else 0),
           rr_frameNumber = Some 1, rr_timestamp = Some 99\<rparr>,
          c', [Waited Mutex WAIT_OBJECT_0, Released Mutex])"
proof -
  obtain m' where w: "Server_WriteFrame WAIT_OBJECT_0 (Some (\<lambda>i. of_nat i)) 16 99 demo_server
      demo_section = (True, demo_server\<lparr>m_frameNumber := 1\<rparr>, m',
        [Waited Mutex WAIT_OBJECT_0, Signalled NewFrameEvent, Released Mutex])"
    using demo_write by blast
  show ?thesis
    using read_after_write [OF demo_section_ok(1) w, of demo_client "\<lambda>_. 0" 4]
    by (intro exI [of _ m']) (simp add: demo_section_ok demo_client_def)
qed

text \<open>C8: neither side leaves the section. A write changes no byte at or beyond
  \<open>PS3EYE_SHARED_MEMORY_SIZE\<close>, and what a read returns depends on the bytes below it only.\<close>

theorem accesses_within_section:
  assumes "header_ok m"
  shows "(let m' = fst (snd (snd (Server_WriteFrame w d n t s m)))
          in header_ok m' \<and> (\<forall>i. m' (PS3EYE_SHARED_MEMORY_SIZE + i) = m (PS3EYE_SHARED_MEMORY_SIZE + i)))
       \<and> Client_ReadFrame w d2 n2 a b c (\<lambda>i. if i < PS3EYE_SHARED_MEMORY_SIZE then m i else x i)
         = Client_ReadFrame w d2 n2 a b c m"
proof -
  let ?m = "\<lambda>i. if i < PS3EYE_SHARED_MEMORY_SIZE then m i else x i"
  have hdr_eq: "hdr ?m f = hdr m f" for f
    unfolding hdr_def field_get_def
    by (rule le_get_cong) (use header.inside [of f] in \<open>auto simp: PS3EYE_SHARED_MEMORY_SIZE_def\<close>)
  have mem_eq: "k \<le> PS3EYE_FRAME_SIZE \<Longrightarrow>
      memcpy dd 0 ?m sizeof_PS3EyeFrameHeader k = memcpy dd 0 m sizeof_PS3EyeFrameHeader k" for dd k
    by (auto simp: memcpy_def PS3EYE_SHARED_MEMORY_SIZE_def fun_eq_iff)
  have "Client_ReadFrame w d2 n2 a b c ?m = Client_ReadFrame w d2 n2 a b c m"
    using assms by (auto simp: Client_ReadFrame_def hdr_eq mem_eq header_ok_def Let_def split: option.splits)
  moreover obtain ok s' m' calls where wr: "Server_WriteFrame w d n t s m = (ok, s', m', calls)"
    by (cases "Server_WriteFrame w d n t s m") auto
  have "m' (PS3EYE_SHARED_MEMORY_SIZE + i) = m (PS3EYE_SHARED_MEMORY_SIZE + i)" for i
    using wr assms
    by (auto simp: Server_WriteFrame_def header_ok_def Let_def memcpy_def PS3EYE_SHARED_MEMORY_SIZE_def
        split: option.splits if_splits)
  ultimately show ?thesis using wr WriteFrame_header_ok [OF assms wr] by simp
qed

theorem accesses_within_section_witness:
  "header_ok (fst (snd (snd (Server_WriteFrame WAIT_OBJECT_0 (Some (\<lambda>i. of_nat i)) 16 99
      demo_server demo_section))))"
  using accesses_within_section [OF demo_section_ok(1), of WAIT_OBJECT_0 "Some (\<lambda>i. of_nat i)" 16 99
      demo_server] by (simp add: Let_def)

end
