(* ===== verification/SharedChannel.thy ===== *)
theory SharedChannel
  imports SharedMemory
begin

text \<open>
  The shared-memory channel as a whole: one server and any number of clients stepping over
  one section. The operations of \<open>SharedMemory\<close> are the steps (the bodies that touch frame
  data run under the mutex, the count is changed by interlocked operations). The invariant
  ties the count in the header to the clients that are connected; the last section shows
  the runs the code does not protect that count from.
\<close>

section \<open>Steps\<close>

record channel =
  smem :: mem
  srv :: server
  clis :: "client list"

text \<open>
  Callers connect only when not connected (\<open>if (!IsConnected()) Connect()\<close> in
  \<open>PS3EyeMediaSource::Start\<close>, \<open>CaptureThreadProc\<close> and \<open>PS3EyeVirtualPin::FillBuffer\<close>).
\<close>

inductive channel_step :: "channel \<Rightarrow> channel \<Rightarrow> bool" where
  frame_write: "Server_WriteFrame w d n t (srv s) (smem s) = (b, sv, m, calls) \<Longrightarrow>
     channel_step s (s\<lparr>smem := m, srv := sv\<rparr>)"
| server_close: "Server_Close (srv s) (smem s) = (sv, m, calls) \<Longrightarrow>
     channel_step s (s\<lparr>smem := m, srv := sv\<rparr>)"
| client_connect: "i < length (clis s) \<Longrightarrow> \<not> IsConnected (clis s ! i) \<Longrightarrow>
     Client_Connect os (clis s ! i) (smem s) = (b, c, m, calls) \<Longrightarrow>
     channel_step s (s\<lparr>smem := m, clis := (clis s)[i := c]\<rparr>)"
| client_disconnect: "i < length (clis s) \<Longrightarrow>
     Client_Disconnect (clis s ! i) (smem s) = (c, m, calls) \<Longrightarrow>
     channel_step s (s\<lparr>smem := m, clis := (clis s)[i := c]\<rparr>)"
| client_read: "i < length (clis s) \<Longrightarrow>
     Client_ReadFrame w d n a b' (clis s ! i) (smem s) = (r, c, calls) \<Longrightarrow>
     channel_step s (s\<lparr>clis := (clis s)[i := c]\<rparr>)"

inductive_cases channel_stepE: "channel_step s t"

text \<open>Runs start when \<open>Create\<close> has succeeded on the section and no client is connected yet.\<close>

inductive channel_reachable :: "channel \<Rightarrow> bool" where
  start: "Server_Create os sv m0 = (True, sv', m, calls) \<Longrightarrow> \<forall>c \<in> set cs. \<not> IsConnected c \<Longrightarrow>
     length cs < 2 ^ 31 \<Longrightarrow> channel_reachable \<lparr>smem = m, srv = sv', clis = cs\<rparr>"
| step: "channel_reachable s \<Longrightarrow> channel_step s t \<Longrightarrow> channel_reachable t"

section \<open>Invariant\<close>

definition connected_clients :: "client list \<Rightarrow> nat" where
  "connected_clients cs = length (filter IsConnected cs)"

definition channel_inv :: "channel \<Rightarrow> bool" where
  "channel_inv s \<longleftrightarrow> header_ok (smem s) \<and> length (clis s) < 2 ^ 31
     \<and> hdr (smem s) H_clientCount = connected_clients (clis s)
     \<and> (m_sharedMemory (srv s) \<longrightarrow> hdr (smem s) H_frameNumber = unat (m_frameNumber (srv s)))"

lemma connected_le: "connected_clients cs \<le> length cs"
  by (simp add: connected_clients_def)

lemma connected_update:
  assumes "i < length cs"
  shows "connected_clients (cs[i := c]) + (if IsConnected (cs ! i) then 1 else 0)
       = connected_clients cs + (if IsConnected c then 1 else 0)"
  using length_filter_update [OF assms, of IsConnected c] by (simp add: connected_clients_def)

lemma interlocked_count:
  "n < 2 ^ 31 \<Longrightarrow> hdr m H_clientCount = n \<Longrightarrow> hdr (interlocked_add 1 m) H_clientCount = Suc n"
  by (simp add: interlocked_add_def unat_word_ariths unat_of_nat)

lemma interlocked_count_down:
  assumes "n < 2 ^ 31" and "hdr m H_clientCount = Suc n"
  shows "hdr (interlocked_add (- 1) m) H_clientCount = n"
proof -
  have "(of_nat (Suc n) + (- 1) :: u32) = of_nat n" by simp
  moreover have "unat (of_nat n :: u32) = n" using assms(1) by (simp add: unat_of_nat)
  ultimately show ?thesis using assms by (simp add: interlocked_add_def del: of_nat_Suc)
qed

lemma WriteFrame_frame [frame_simps]:
  "Server_WriteFrame w d n t s m = (b, s', m', calls) \<Longrightarrow> header_ok m \<Longrightarrow>
     hdr m' H_clientCount = hdr m H_clientCount \<and> hdr m' H_serverPID = hdr m H_serverPID
     \<and> m_sharedMemory s' = m_sharedMemory s"
  by (auto simp: Server_WriteFrame_def Let_def header_ok_def split: option.splits if_splits)

lemma WriteFrame_number:
  "Server_WriteFrame w d n t s m = (b, s', m', calls) \<Longrightarrow>
     hdr m H_frameNumber = unat (m_frameNumber s) \<Longrightarrow> hdr m' H_frameNumber = unat (m_frameNumber s')"
  by (auto simp: Server_WriteFrame_def Let_def split: option.splits if_splits)

lemma ReadFrame_connected:
  "Client_ReadFrame w d n a b c m = (r, c', calls) \<Longrightarrow> IsConnected c' = IsConnected c"
  by (auto simp: Client_ReadFrame_def Let_def IsConnected_def split: option.splits if_splits)

lemma Create_establishes:
  assumes "Server_Create os sv m0 = (True, sv', m, calls)" and "\<forall>c \<in> set cs. \<not> IsConnected c"
    and "length cs < 2 ^ 31"
  shows "channel_inv \<lparr>smem = m, srv = sv', clis = cs\<rparr>"
proof -
  have "filter IsConnected cs = []" using assms(2) by (simp add: filter_empty_conv)
  then show ?thesis
    using assms(1,3) Create_header_ok [OF assms(1)]
    by (auto simp: channel_inv_def connected_clients_def Server_Create_def init_header_def split: if_splits)
qed

lemma channel_step_inv:
  assumes "channel_step s t" and inv: "channel_inv s"
  shows "channel_inv t"
  using assms(1)
proof (cases rule: channel_step.cases)
  case (frame_write w d n ts b sv m calls)
  then show ?thesis
    using inv WriteFrame_header_ok [OF _ frame_write(2)] WriteFrame_frame [OF frame_write(2)]
      WriteFrame_number [OF frame_write(2)]
    by (auto simp: channel_inv_def connected_clients_def)
next
  case (server_close sv m calls)
  then show ?thesis
    using inv Close_header_ok [OF _ server_close(2)]
    by (auto simp: channel_inv_def connected_clients_def Server_Close_def)
next
  case (client_connect i os b c m calls)
  then show ?thesis
    using inv Connect_cases [OF _ client_connect(3,4)] connected_update [OF client_connect(2), of c]
      connected_le [of "clis s"]
    by (auto simp: channel_inv_def interlocked_count interlocked_header_ok)
next
  case (client_disconnect i c m calls)
  have c: "\<not> IsConnected c" and m: "m = (if IsConnected (clis s ! i) then interlocked_add (- 1) (smem s)
      else smem s)"
    using client_disconnect(3) by (auto simp: Client_Disconnect_def IsConnected_def)
  show ?thesis
    using client_disconnect inv connected_update [OF client_disconnect(2), of c] connected_le [of "clis s"] c m
    by (auto simp: channel_inv_def interlocked_count_down interlocked_header_ok split: if_splits)
next
  case (client_read i w d n a b' r c calls)
  then show ?thesis
    using inv connected_update [OF client_read(2), of c] ReadFrame_connected [OF client_read(3)]
    by (auto simp: channel_inv_def split: if_splits)
qed

lemma reachable_channel_inv: "channel_reachable s \<Longrightarrow> channel_inv s"
  by (induction rule: channel_reachable.induct) (auto intro: Create_establishes channel_step_inv)

section \<open>One connection of a client\<close>

text \<open>
  What happens between a successful \<open>Connect\<close> of client \<open>i\<close> and its \<open>Disconnect\<close>: the server
  writes frames and may close, every other client connects, reads and disconnects as it likes,
  and client \<open>i\<close> reads. Recorded are the numbers of the frames written and of the frames that
  client \<open>i\<close> was handed. The one thing excluded is a frame number that passes \<open>2 ^ 64\<close>.
\<close>

datatype frame_event = Wrote u64 | Got u64

inductive connection :: "nat \<Rightarrow> frame_event list \<Rightarrow> channel \<Rightarrow> bool" for i where
  opened: "channel_reachable s \<Longrightarrow> i < length (clis s) \<Longrightarrow> \<not> IsConnected (clis s ! i) \<Longrightarrow>
     Client_Connect os (clis s ! i) (smem s) = (True, c, m, calls) \<Longrightarrow>
     connection i [] (s\<lparr>smem := m, clis := (clis s)[i := c]\<rparr>)"
| wrote: "connection i es s \<Longrightarrow> m_frameNumber (srv s) \<noteq> - 1 \<Longrightarrow>
     Server_WriteFrame w d n t (srv s) (smem s) = (b, sv, m, calls) \<Longrightarrow>
     connection i (if b then es @ [Wrote (m_frameNumber sv)] else es) (s\<lparr>smem := m, srv := sv\<rparr>)"
| got: "connection i es s \<Longrightarrow>
     Client_ReadFrame w d n a b' (clis s ! i) (smem s) = (r, c, calls) \<Longrightarrow>
     connection i (if rr_ok r then es @ [Got (of_nat (hdr (smem s) H_frameNumber))] else es)
       (s\<lparr>clis := (clis s)[i := c]\<rparr>)"
| closed: "connection i es s \<Longrightarrow> Server_Close (srv s) (smem s) = (sv, m, calls) \<Longrightarrow>
     connection i es (s\<lparr>smem := m, srv := sv\<rparr>)"
| others: "connection i es s \<Longrightarrow> channel_step s t \<Longrightarrow> srv t = srv s \<Longrightarrow> clis t ! i = clis s ! i \<Longrightarrow>
     connection i es t"

fun handed_over :: "frame_event list \<Rightarrow> u64 list" where
  "handed_over [] = []"
| "handed_over (Got n # es) = n # handed_over es"
| "handed_over (Wrote n # es) = handed_over es"

fun written :: "frame_event list \<Rightarrow> u64 list" where
  "written [] = []"
| "written (Got n # es) = written es"
| "written (Wrote n # es) = n # written es"

lemma handed_over_append [simp]: "handed_over (es @ fs) = handed_over es @ handed_over fs"
  by (induction es rule: handed_over.induct) auto

lemma written_append [simp]: "written (es @ fs) = written es @ written fs"
  by (induction es rule: written.induct) auto

text \<open>The frame number in the section is only ever changed by a write.\<close>

definition section_number :: "channel \<Rightarrow> u64" where
  "section_number s = of_nat (hdr (smem s) H_frameNumber)"

lemma server_number:
  "channel_inv s \<Longrightarrow> m_sharedMemory (srv s) \<Longrightarrow> section_number s = m_frameNumber (srv s)"
  by (simp add: channel_inv_def section_number_def)

lemma WriteFrame_cases:
  assumes "Server_WriteFrame w d n t s m = (b, s', m', calls)"
  shows "if b then m_sharedMemory s \<and> m_frameNumber s' = m_frameNumber s + 1
                 \<and> of_nat (hdr m' H_frameNumber) = m_frameNumber s + 1
         else s' = s \<and> m' = m"
  using assms by (auto simp: Server_WriteFrame_def Let_def split: option.splits if_splits)

lemma ReadFrame_cases:
  assumes "Client_ReadFrame w d n a b' c m = (r, c', calls)"
  shows "if rr_ok r then of_nat (hdr m H_frameNumber) \<noteq> m_lastFrameNumber c
                      \<and> m_lastFrameNumber c' = of_nat (hdr m H_frameNumber)
         else c' = c"
  using assms by (auto simp: Client_ReadFrame_def no_read_def Let_def split: option.splits if_splits)

lemma others_keep_number:
  assumes "channel_step s t" and "srv t = srv s" and inv: "channel_inv s"
  shows "section_number t = section_number s"
  using assms(1)
proof (cases rule: channel_step.cases)
  case (frame_write w d n ts b sv m calls)
  then have "sv = srv s" using assms(2) by simp
  then have "\<not> b" using WriteFrame_cases [OF frame_write(2)] by (cases b) auto
  then show ?thesis using WriteFrame_cases [OF frame_write(2)] frame_write(1) by (simp add: section_number_def)
next
  case (server_close sv m calls)
  then show ?thesis by (auto simp: section_number_def Server_Close_def split: if_splits)
next
  case (client_connect i os b c m calls)
  then show ?thesis
    using inv Connect_cases [OF _ client_connect(3,4)]
    by (auto simp: channel_inv_def section_number_def interlocked_add_def)
next
  case (client_disconnect i c m calls)
  then show ?thesis by (auto simp: section_number_def Client_Disconnect_def interlocked_add_def split: if_splits)
next
  case (client_read i w d n a b' r c calls)
  then show ?thesis by (simp add: section_number_def)
qed

text \<open>What holds all along: the client has been handed nothing newer than the section holds, in
  strictly increasing order, and each time what was written last.\<close>

definition newest_each_time :: "frame_event list \<Rightarrow> bool" where
  "newest_each_time es \<longleftrightarrow>
     (\<forall>ps n qs. es = ps @ Got n # qs \<longrightarrow> written ps \<noteq> [] \<longrightarrow> n = last (written ps))"

definition connection_inv :: "nat \<Rightarrow> frame_event list \<Rightarrow> channel \<Rightarrow> bool" where
  "connection_inv i es s \<longleftrightarrow> channel_inv s \<and> i < length (clis s)
     \<and> last (0 # handed_over es) = m_lastFrameNumber (clis s ! i)
     \<and> m_lastFrameNumber (clis s ! i) \<le> section_number s
     \<and> sorted_wrt (<) (0 # handed_over es) \<and> sorted_wrt (<) (written es)
     \<and> (written es \<noteq> [] \<longrightarrow> last (written es) = section_number s)
     \<and> newest_each_time es"

lemma sorted_wrt_snoc:
  fixes xs :: "u64 list"
  shows "sorted_wrt (<) (xs @ [x]) \<longleftrightarrow> sorted_wrt (<) xs \<and> (xs \<noteq> [] \<longrightarrow> last xs < x)"
proof -
  have "\<forall>y \<in> set xs. y < x" if "sorted_wrt (<) xs" "last xs < x"
  proof
    fix y assume "y \<in> set xs"
    then have "y \<le> last xs"
      using that(1) by (cases xs rule: rev_cases) (auto simp: sorted_wrt_append)
    then show "y < x" using that(2) by simp
  qed
  then show ?thesis by (cases "xs = []") (auto simp: sorted_wrt_append)
qed

lemma newest_snoc:
  assumes "newest_each_time es" and "\<And>n. e = Got n \<Longrightarrow> written es \<noteq> [] \<Longrightarrow> n = last (written es)"
  shows "newest_each_time (es @ [e])"
  unfolding newest_each_time_def
proof (intro allI impI)
  fix ps n qs
  assume es: "es @ [e] = ps @ Got n # qs" and w: "written ps \<noteq> []"
  show "n = last (written ps)"
  proof (cases qs rule: rev_cases)
    case Nil
    then show ?thesis using es w assms(2) by simp
  next
    case (snoc rs x)
    then have "es = ps @ Got n # rs" using es by simp
    then show ?thesis using assms(1) w by (auto simp: newest_each_time_def)
  qed
qed

lemma connection_opened:
  assumes "channel_inv s" and "i < length (clis s)" and "\<not> IsConnected (clis s ! i)"
    and c: "Client_Connect os (clis s ! i) (smem s) = (True, c, m, calls)"
  shows "connection_inv i [] (s\<lparr>smem := m, clis := (clis s)[i := c]\<rparr>)"
proof -
  have "m_lastFrameNumber c = 0"
    using c by (auto simp: Client_Connect_def Let_def split: if_splits prod.splits)
  then show ?thesis
    using assms channel_step_inv [OF channel_step.client_connect [OF assms(2-4)] assms(1)]
    by (simp add: connection_inv_def newest_each_time_def)
qed

lemma connection_wrote:
  assumes inv: "connection_inv i es s" and "m_frameNumber (srv s) \<noteq> - 1"
    and wr: "Server_WriteFrame w d n t (srv s) (smem s) = (b, sv, m, calls)"
  shows "connection_inv i (if b then es @ [Wrote (m_frameNumber sv)] else es) (s\<lparr>smem := m, srv := sv\<rparr>)"
proof (cases b)
  case False
  then show ?thesis using WriteFrame_cases [OF wr] inv by simp
next
  case True
  let ?t = "s\<lparr>smem := m, srv := sv\<rparr>"
  have ch: "channel_inv s" "channel_inv ?t"
    using inv channel_step_inv [OF channel_step.frame_write [OF wr]] by (simp_all add: connection_inv_def)
  have num: "section_number ?t = section_number s + 1" "m_frameNumber sv = section_number s + 1"
    "section_number s = m_frameNumber (srv s)"
    using True WriteFrame_cases [OF wr] server_number [OF ch(1)] by (simp_all add: section_number_def)
  have "1 + section_number s \<noteq> 0" using assms(2) num(3) by (metis add.commute eq_neg_iff_add_eq_0)
  then have less: "section_number s < section_number s + 1"
    using unatSuc [of "section_number s"] by (simp add: word_less_nat_alt add.commute)
  show ?thesis
    using inv True ch(2) num(1,2) less
    by (auto simp: connection_inv_def sorted_wrt_snoc intro: newest_snoc)
qed

lemma connection_got:
  assumes inv: "connection_inv i es s"
    and rd: "Client_ReadFrame w d n a b' (clis s ! i) (smem s) = (r, c, calls)"
  shows "connection_inv i (if rr_ok r then es @ [Got (of_nat (hdr (smem s) H_frameNumber))] else es)
    (s\<lparr>clis := (clis s)[i := c]\<rparr>)"
proof (cases "rr_ok r")
  case False
  then show ?thesis using ReadFrame_cases [OF rd] inv by simp
next
  case True
  let ?t = "s\<lparr>clis := (clis s)[i := c]\<rparr>"
  have i: "i < length (clis s)" using inv by (simp add: connection_inv_def)
  have ch: "channel_inv ?t"
    using inv channel_step_inv [OF channel_step.client_read [OF i rd]] by (simp add: connection_inv_def)
  have c: "section_number s \<noteq> m_lastFrameNumber (clis s ! i)" "m_lastFrameNumber c = section_number s"
    using True ReadFrame_cases [OF rd] by (simp_all add: section_number_def)
  have less: "last (0 # handed_over es) < section_number s"
    using inv c(1) unfolding connection_inv_def by (metis order_le_imp_less_or_eq)
  have "sorted_wrt (<) ((0 # handed_over es) @ [section_number s])"
    using inv less unfolding sorted_wrt_snoc connection_inv_def by simp
  moreover have "newest_each_time (es @ [Got (section_number s)])"
    using inv by (intro newest_snoc) (auto simp: connection_inv_def)
  ultimately show ?thesis
    using inv True ch c(2) i
    by (auto simp: connection_inv_def section_number_def)
qed

lemma connection_closed:
  assumes inv: "connection_inv i es s" and cl: "Server_Close (srv s) (smem s) = (sv, m, calls)"
  shows "connection_inv i es (s\<lparr>smem := m, srv := sv\<rparr>)"
proof -
  have "section_number (s\<lparr>smem := m, srv := sv\<rparr>) = section_number s"
    using cl by (auto simp: section_number_def Server_Close_def split: if_splits)
  then show ?thesis
    using inv channel_step_inv [OF channel_step.server_close [OF cl]] by (simp add: connection_inv_def)
qed

lemma step_keeps_clients: "channel_step s t \<Longrightarrow> length (clis t) = length (clis s)"
  by (auto elim!: channel_stepE)

lemma connection_others:
  assumes inv: "connection_inv i es s" and "channel_step s t" "srv t = srv s" "clis t ! i = clis s ! i"
  shows "connection_inv i es t"
  using inv assms(4) others_keep_number [OF assms(2,3)] channel_step_inv [OF assms(2)]
    step_keeps_clients [OF assms(2)]
  by (simp add: connection_inv_def)

lemma connection_holds: "connection i es s \<Longrightarrow> connection_inv i es s"
proof (induction rule: connection.induct)
  case (opened s os c m calls)
  show ?case using connection_opened [OF reachable_channel_inv [OF opened(1)] opened(2-4)] .
qed (blast intro: connection_wrote connection_got connection_closed connection_others)+

section \<open>Properties\<close>

lemma client_count_sint:
  assumes "hdr m H_clientCount < 2 ^ 31"
  shows "client_count m = int (hdr m H_clientCount)"
  using assms by (simp add: client_count_def signed_of_nat signed_take_bit_int_eq_self)

text \<open>C3: in every run of one server and any number of clients, connecting, reading and
  disconnecting in any order with any operating-system outcomes, the header stays valid, the
  client count the server reads is exactly the number of connected clients, and the frame
  number in the header is the server's own.\<close>

theorem client_count_is_connected_clients:
  assumes "channel_reachable s"
  shows "header_ok (smem s) \<and> client_count (smem s) = int (connected_clients (clis s))
     \<and> (m_sharedMemory (srv s) \<longrightarrow>
         Server_GetClientCount (srv s) (smem s) = int (connected_clients (clis s))
         \<and> of_nat (hdr (smem s) H_frameNumber) = Server_GetFrameNumber (srv s))"
proof -
  have inv: "channel_inv s" using assms by (rule reachable_channel_inv)
  then have "hdr (smem s) H_clientCount < 2 ^ 31"
    using connected_le [of "clis s"] by (simp add: channel_inv_def)
  from client_count_sint [OF this] inv show ?thesis
    by (auto simp: channel_inv_def Server_GetClientCount_def Server_GetFrameNumber_def)
qed

lemma demo_create:
  "Server_Create all_granted new_server (\<lambda>_. 0) = (True, demo_server, demo_section,
     [Opened Mutex, Opened NewFrameEvent, Opened ClientEvent, Opened FileMapping, Opened View])"
  by (simp add: Server_Create_def all_granted_def new_server_def demo_server_def demo_section_def)

lemma demo_start: "channel_reachable \<lparr>smem = demo_section, srv = demo_server, clis = [new_client]\<rparr>"
  using channel_reachable.start [OF demo_create, of "[new_client]"]
  by (simp add: new_client_def IsConnected_def)

theorem client_count_is_connected_clients_witness:
  "\<exists>s. channel_reachable s \<and> connected_clients (clis s) = 1 \<and> client_count (smem s) = 1"
proof -
  let ?s = "\<lparr>smem = demo_section, srv = demo_server, clis = [new_client]\<rparr>"
  let ?t = "\<lparr>smem = interlocked_add 1 demo_section, srv = demo_server, clis = [demo_client]\<rparr>"
  have "channel_step ?s ?t"
    using channel_step.client_connect [of 0 ?s all_granted True demo_client "interlocked_add 1 demo_section"]
      demo_connect by (simp add: new_client_def IsConnected_def)
  with demo_start have t: "channel_reachable ?t" by (rule channel_reachable.step)
  have "connected_clients (clis ?t) = 1"
    by (simp add: connected_clients_def demo_client_def IsConnected_def)
  with t client_count_is_connected_clients [OF t] show ?thesis
    by (intro exI [of _ ?t]) simp
qed

text \<open>C7: within one connection of a client to one run of the server, whatever the server and the
  other clients do meanwhile, no frame is delivered to the client twice: the numbers of the
  frames it is handed are strictly increasing and never 0, and each is the number of the
  frame written last. A client that disconnects and connects again starts afresh.\<close>

theorem no_double_delivery:
  assumes "connection i es s"
  shows "sorted_wrt (<) (handed_over es) \<and> distinct (handed_over es) \<and> 0 \<notin> set (handed_over es)
    \<and> sorted_wrt (<) (written es)
    \<and> (\<forall>ps n qs. es = ps @ Got n # qs \<longrightarrow> written ps \<noteq> [] \<longrightarrow> n = last (written ps))"
proof -
  have inv: "sorted_wrt (<) (0 # handed_over es)" "sorted_wrt (<) (written es)" "newest_each_time es"
    using connection_holds [OF assms] by (simp_all add: connection_inv_def)
  have "distinct (handed_over es)"
    using inv(1) by (simp add: strict_sorted_iff)
  then show ?thesis using inv by (auto simp: newest_each_time_def)
qed

theorem no_double_delivery_witness:
  "\<exists>s. connection 0 [Wrote 1, Got 1] s \<and> distinct (handed_over [Wrote 1, Got 1])"
proof -
  let ?s = "\<lparr>smem = demo_section, srv = demo_server, clis = [new_client]\<rparr>"
  have 0: "connection 0 [] (?s\<lparr>smem := interlocked_add 1 demo_section, clis := [demo_client]\<rparr>)"
    using connection.opened [OF demo_start, of 0 all_granted demo_client] demo_connect
    by (simp add: new_client_def IsConnected_def)
  let ?m = "interlocked_add 1 demo_section"
  obtain sv m calls where wr:
    "Server_WriteFrame WAIT_OBJECT_0 (Some (\<lambda>_. 7)) 4 9 demo_server ?m = (True, sv, m, calls)"
    and sv: "m_frameNumber sv = 1"
    by (simp add: Server_WriteFrame_def demo_server_def Let_def PS3EYE_FRAME_SIZE_def ps3eye_consts)
  have hdr: "hdr m H_frameNumber = 1" "hdr m H_serverPID \<noteq> 0"
    using wr WriteFrame_frame [OF wr] interlocked_header_ok [OF demo_section_ok(1), of 1] demo_section_ok(2)
    by (auto simp: Server_WriteFrame_def demo_server_def Let_def interlocked_add_def split: if_splits)
  have 1: "connection 0 [Wrote 1] \<lparr>smem = m, srv = sv, clis = [demo_client]\<rparr>"
    using connection.wrote [OF 0, of WAIT_OBJECT_0 "Some (\<lambda>_. 7)" 4 9 True sv m calls] wr sv
    by (simp add: demo_server_def)
  obtain r c calls' where rd:
    "Client_ReadFrame WAIT_OBJECT_0 (Some (\<lambda>_. 0)) 4 True True demo_client m = (r, c, calls')" "rr_ok r"
    using hdr by (auto simp: Client_ReadFrame_def demo_client_def Let_def)
  have "connection 0 [Wrote 1, Got 1] \<lparr>smem = m, srv = sv, clis = [c]\<rparr>"
    using connection.got [OF 1, of WAIT_OBJECT_0 "Some (\<lambda>_. 0)" 4 True True r c calls'] rd hdr(1)
    by simp
  with no_double_delivery [OF this] show ?thesis by blast
qed

text \<open>A client that connects and disconnects again leaves every header field as it found
  it, the client count included, whatever the operating system answers.\<close>

theorem connect_disconnect_restores_header:
  assumes "header_ok m" and "\<not> IsConnected c"
    and "Client_Connect os c m = (b, c1, m1, calls1)"
    and "Client_Disconnect c1 m1 = (c2, m2, calls2)"
  shows "hdr m2 f = hdr m f \<and> \<not> IsConnected c2"
  using assms(4) Connect_cases [OF assms(1-3)]
  by (auto simp: Client_Disconnect_def IsConnected_def interlocked_undo)

theorem connect_disconnect_restores_header_witness:
  "hdr (fst (snd (Client_Disconnect demo_client (interlocked_add 1 demo_section)))) H_clientCount = 0"
  using connect_disconnect_restores_header [OF demo_section_ok(1) _ demo_connect, of _ _ _ H_clientCount]
  by (cases "Client_Disconnect demo_client (interlocked_add 1 demo_section)")
    (simp add: demo_section_ok new_client_def IsConnected_def)

text \<open>
  A wait on the mutex grants ownership when it is signalled, and also when its previous
  owner ended without releasing it (\<open>WAIT_ABANDONED\<close>).
\<close>

fun grants :: "kcall \<Rightarrow> bool" where
  "grants (Waited Mutex WAIT_OBJECT_0) = True"
| "grants (Waited Mutex WAIT_ABANDONED) = True"
| "grants _ = False"

definition unreleased :: "kcall list \<Rightarrow> int" where
  "unreleased calls = int (length (filter grants calls)) - int (count_list calls (Released Mutex))"

text \<open>Writer and reader release the mutex on every path that owns it, except one: when the
  wait answers that the mutex was abandoned they return without releasing it, and the mutex
  stays owned by that thread.\<close>

theorem mutex_released_unless_abandoned:
  "unreleased (snd (snd (snd (Server_WriteFrame w d n t s m))))
     = (if w = WAIT_ABANDONED \<and> d \<noteq> None \<and> m_sharedMemory s \<and> unat n \<le> PS3EYE_FRAME_SIZE then 1 else 0)
   \<and> unreleased (snd (snd (Client_ReadFrame w d n a b c m)))
     = (if w = WAIT_ABANDONED \<and> d \<noteq> None \<and> m_sharedMemory c then 1 else 0)"
  by (cases w) (auto simp: unreleased_def Server_WriteFrame_def Client_ReadFrame_def Let_def
      split: option.splits)

text \<open>A client that finds a section it does not recognise backs out through \<open>Disconnect\<close>,
  which takes one from the client count although \<open>Connect\<close> had not added one.\<close>

theorem rejected_connect_loses_a_count:
  assumes "os_mutex os" "os_newFrameEvent os" "os_fileMapping os" "os_view os"
    and "hdr m H_magic \<noteq> PS3EYE_MAGIC \<or> hdr m H_version \<noteq> PS3EYE_PROTOCOL_VERSION"
  shows "\<exists>c' m' calls. Client_Connect os c m = (False, c', m', calls)
       \<and> (of_nat (hdr m' H_clientCount) :: u32) = of_nat (hdr m H_clientCount) - 1"
  using assms by (auto simp: Client_Connect_def Client_Disconnect_def Let_def interlocked_add_def)

theorem rejected_connect_loses_a_count_witness:
  "\<exists>m'. (of_nat (hdr m' H_clientCount) :: u32) = - 1"
  using rejected_connect_loses_a_count [of all_granted "ZeroMemory (\<lambda>_. 0) 0 sizeof_PS3EyeFrameHeader"]
  by (auto simp: all_granted_def PS3EYE_MAGIC_def)

text \<open>\<open>Create\<close> does not look at a section that is already there: a server started again while a
  client is connected returns success and resets the count to zero, so the connected client
  is not counted any more, and when it disconnects the count is below zero.\<close>

theorem restart_forgets_clients:
  assumes "m_sharedMemory c" and "Server_Create os sv m = (True, sv', m', calls)"
    and "Client_Disconnect c m' = (c', m'', calls')"
  shows "Server_GetClientCount sv' m' = 0 \<and> Server_GetClientCount sv' m'' = - 1"
  using assms
  by (auto simp: Server_GetClientCount_def client_count_def Server_Create_def init_header_def
      Client_Disconnect_def interlocked_add_def split: if_splits)

theorem restart_forgets_clients_witness:
  "\<exists>sv m' m''. Server_Create all_granted new_server (interlocked_add 1 demo_section)
      = (True, sv, m', [Opened Mutex, Opened NewFrameEvent, Opened ClientEvent, Opened FileMapping,
         Opened View])
    \<and> Server_GetClientCount sv m' = 0 \<and> Server_GetClientCount sv m'' = - 1"
proof -
  obtain sv m' where c: "Server_Create all_granted new_server (interlocked_add 1 demo_section)
      = (True, sv, m', [Opened Mutex, Opened NewFrameEvent, Opened ClientEvent, Opened FileMapping,
         Opened View])"
    by (auto simp: Server_Create_def all_granted_def)
  obtain c' m'' k where d: "Client_Disconnect demo_client m' = (c', m'', k)"
    by (cases "Client_Disconnect demo_client m'") auto
  from restart_forgets_clients [OF _ c d] c show ?thesis by (auto simp: demo_client_def)
qed

end
