(* ===== verification/CaptureService.thy ===== *)
theory CaptureService
  imports SharedMemory
begin

text \<open>
  MediaFoundationSource/PS3EyeCaptureService.cpp: the Windows service that runs the camera
  on demand and writes its frames to the shared memory.

  The camera driver (\<open>ps3eye::PS3EYECam\<close>) is a git submodule that is not in the repository:
  what it answers (the devices found, whether \<open>init\<close> succeeds, whether it is streaming, the
  bytes of a frame) is input of the model, and what the service asks of it is returned as
  the list of its calls. One iteration of the capture loop is one function; a run is a list
  of iterations, so nothing is assumed about how long the service runs.
\<close>

section \<open>Service status\<close>

datatype svc_state = SERVICE_STOPPED | SERVICE_START_PENDING | SERVICE_STOP_PENDING | SERVICE_RUNNING

record service =
  dwCurrentState :: svc_state
  dwWin32ExitCode :: u32
  dwWaitHint :: u32
  acceptStop :: bool          \<comment> \<open>\<open>dwControlsAccepted\<close> is \<open>SERVICE_ACCEPT_STOP\<close> or 0\<close>
  dwCheckPoint :: u32
  checkPoint :: u32           \<comment> \<open>the static local, starts at 1\<close>
  g_running :: bool

definition ReportServiceStatus :: "svc_state \<Rightarrow> u32 \<Rightarrow> u32 \<Rightarrow> service \<Rightarrow> service" where
  "ReportServiceStatus st exitCode waitHint g =
     (let g1 = g\<lparr>dwCurrentState := st, dwWin32ExitCode := exitCode, dwWaitHint := waitHint,
                acceptStop := (st \<noteq> SERVICE_START_PENDING)\<rparr>
      in if st = SERVICE_RUNNING \<or> st = SERVICE_STOPPED then g1\<lparr>dwCheckPoint := 0\<rparr>
         else g1\<lparr>dwCheckPoint := checkPoint g1, checkPoint := checkPoint g1 + 1\<rparr>)"

datatype control = SERVICE_CONTROL_STOP | Other_control

definition ServiceCtrlHandler :: "control \<Rightarrow> service \<Rightarrow> service" where
  "ServiceCtrlHandler ctrl g =
     (if ctrl = SERVICE_CONTROL_STOP
      then (ReportServiceStatus SERVICE_STOP_PENDING 0 0 g)\<lparr>g_running := False\<rparr> else g)"

section \<open>The camera as the service uses it\<close>

datatype cam_call =
    CamInit nat nat nat nat bool   \<comment> \<open>device, width, height, rate (format RGB), and its answer\<close>
  | CamAutogain nat | CamAutoWhiteBalance nat | CamFlip nat | CamStart nat | CamStop nat
  | CamIsStreaming nat bool        \<comment> \<open>device and its answer\<close>
  | CamGetFrame nat
  | CamRelease nat                 \<comment> \<open>\<open>camera.reset()\<close>: the loop's reference is dropped\<close>

section \<open>The capture loop\<close>

record loop_state =
  camera :: "nat option"      \<comment> \<open>the \<open>PS3EYERef\<close>: null, or the device it points to\<close>
  cameraActive :: bool
  noClientFrames :: int
  server :: server

text \<open>What one iteration sees of the world.\<close>

record iteration =
  i_wait :: wait_result            \<comment> \<open>answer of the wait for the client event\<close>
  i_meanwhile :: "mem \<Rightarrow> mem"      \<comment> \<open>what clients do to the section during that wait\<close>
  i_devices :: "nat list"          \<comment> \<open>\<open>getDevices(true)\<close>\<close>
  i_init :: bool                   \<comment> \<open>\<open>init\<close> succeeds\<close>
  i_streaming :: bool              \<comment> \<open>\<open>isStreaming\<close> at the head of the loop\<close>
  i_frame :: mem                   \<comment> \<open>the bytes \<open>getFrame\<close> stores\<close>
  i_counter :: u64                 \<comment> \<open>\<open>QueryPerformanceCounter\<close>\<close>
  i_mutex :: wait_result           \<comment> \<open>answer of the wait for the mutex in \<open>WriteFrame\<close>\<close>
  i_then :: "mem \<Rightarrow> mem"           \<comment> \<open>what clients do to the section after the write\<close>
  i_streaming_at_stop :: bool      \<comment> \<open>\<open>isStreaming\<close> inside \<open>stopCamera\<close>\<close>

definition initCamera :: "nat list \<Rightarrow> bool \<Rightarrow> loop_state \<Rightarrow> bool \<times> loop_state \<times> cam_call list" where
  "initCamera devices initOk st =
     (if cameraActive st then (True, st, [])
      else case devices of
        [] \<Rightarrow> (False, st, [])
      | d # _ \<Rightarrow>
          let st1 = st\<lparr>camera := Some d\<rparr>;
              call = CamInit d PS3EYE_WIDTH PS3EYE_HEIGHT PS3EYE_FPS initOk
          in if \<not> initOk then (False, st1, [call])
             else (True, st1\<lparr>cameraActive := True\<rparr>,
                   [call, CamAutogain d, CamAutoWhiteBalance d, CamFlip d, CamStart d]))"

definition stopCamera :: "bool \<Rightarrow> loop_state \<Rightarrow> loop_state \<times> cam_call list" where
  "stopCamera streaming st =
     (if \<not> cameraActive st then (st, [])
      else (st\<lparr>camera := None, cameraActive := False\<rparr>,
            (case camera st of
               Some d \<Rightarrow> CamIsStreaming d streaming # (if streaming then [CamStop d] else []) @ [CamRelease d]
             | None \<Rightarrow> [])))"

text \<open>
  The time stamp: \<open>LONGLONG\<close> arithmetic, so the product is kept at 64 bits before the signed
  division. The start time and the frequency are those read before the loop.
\<close>

definition frame_timestamp :: "u64 \<Rightarrow> u64 \<Rightarrow> u64 \<Rightarrow> u64" where
  "frame_timestamp startTime perfFreq currentTime =
     of_int (quot_toward_zero (sint ((currentTime - startTime) * 10000000)) (sint perfFreq))"

definition loop_iteration ::
  "u64 \<Rightarrow> u64 \<Rightarrow> iteration \<Rightarrow> loop_state \<Rightarrow> mem \<Rightarrow> loop_state \<times> mem \<times> cam_call list" where
  "loop_iteration startTime perfFreq i st m =
    (if \<not> cameraActive st then
       (let m1 = i_meanwhile i m
        in if fst (Server_WaitForClients (i_wait i) (server st) m m1)
           then (case initCamera (i_devices i) (i_init i) st of (_, st1, calls) \<Rightarrow> (st1, m1, calls))
           else (st, m1, []))
     else case camera st of
       None \<Rightarrow> (st, i_meanwhile i m, [])
     | Some d \<Rightarrow>
        if \<not> i_streaming i then (st, i_meanwhile i m, [CamIsStreaming d False])
        else
          (case Server_WriteFrame (i_mutex i) (Some (i_frame i)) (of_nat PS3EYE_FRAME_SIZE)
                  (frame_timestamp startTime perfFreq (i_counter i)) (server st) m of
            (_, sv, m1, _) \<Rightarrow>
             let st1 = st\<lparr>server := sv\<rparr>; m2 = i_then i m1
             in if Server_GetClientCount sv m2 \<le> 0 then
                  (let n = noClientFrames st1 + 1; st2 = st1\<lparr>noClientFrames := n\<rparr>
                   in if n > 30 then
                        (case stopCamera (i_streaming_at_stop i) st2 of (st3, calls) \<Rightarrow>
                          (st3\<lparr>noClientFrames := 0\<rparr>, m2, CamIsStreaming d True # CamGetFrame d # calls))
                      else (st2, m2, [CamIsStreaming d True, CamGetFrame d]))
                else (st1\<lparr>noClientFrames := 0\<rparr>, m2, [CamIsStreaming d True, CamGetFrame d])))"

text \<open>\<open>while (g_running)\<close>: the iterations that run before the stop request is seen.\<close>

fun loop_run ::
  "u64 \<Rightarrow> u64 \<Rightarrow> iteration list \<Rightarrow> loop_state \<Rightarrow> mem \<Rightarrow> loop_state \<times> mem \<times> cam_call list" where
  "loop_run t0 freq [] st m = (st, m, [])"
| "loop_run t0 freq (i # is) st m =
     (case loop_iteration t0 freq i st m of (st1, m1, calls) \<Rightarrow>
       (case loop_run t0 freq is st1 m1 of (st2, m2, calls2) \<Rightarrow> (st2, m2, calls @ calls2)))"

definition CaptureLoop ::
  "os_answers \<Rightarrow> u64 \<Rightarrow> u64 \<Rightarrow> iteration list \<Rightarrow> bool \<Rightarrow> mem \<Rightarrow> mem \<times> cam_call list \<times> kcall list" where
  "CaptureLoop os t0 freq is streaming m =
    (case Server_Create os new_server m of (created, sv, m1, kcalls) \<Rightarrow>
      if \<not> created then
        (case Server_Close sv m1 of (_, m2, kcalls2) \<Rightarrow> (m2, [], kcalls @ kcalls2))
      else
        (case loop_run t0 freq is \<lparr>camera = None, cameraActive = False, noClientFrames = 0, server = sv\<rparr> m1
          of (st, m2, calls) \<Rightarrow>
          (case stopCamera streaming st of (st', calls2) \<Rightarrow>
            (case Server_Close (server st') m2 of (sv', m3, kcalls2) \<Rightarrow>
              (m3, calls @ calls2, kcalls @ kcalls2)))))"

text \<open>\<open>ServiceMain\<close>: the status reports around the loop; \<open>registered\<close> is the handle check.\<close>

definition ServiceMain ::
  "bool \<Rightarrow> (service \<Rightarrow> service) \<Rightarrow> service \<Rightarrow> service list \<times> service" where
  "ServiceMain registered captureLoop g =
     (if \<not> registered then ([], g)
      else let g1 = ReportServiceStatus SERVICE_START_PENDING 0 0 g;
               g2 = ReportServiceStatus SERVICE_RUNNING 0 0 g1;
               g3 = captureLoop g2;
               g4 = ReportServiceStatus SERVICE_STOPPED 0 0 g3
           in ([g1, g2, g4], g4))"

section \<open>Installation\<close>

datatype scm_call =
    OpenSCManager bool | CreateService bool | OpenService bool | StartService | ControlStop
  | DeleteService | CloseService | CloseManager

definition InstallService :: "bool \<Rightarrow> bool \<Rightarrow> bool \<times> scm_call list" where
  "InstallService scm svc =
     (if \<not> scm then (False, [OpenSCManager False])
      else if \<not> svc then (False, [OpenSCManager True, CreateService False, CloseManager])
      else (True, [OpenSCManager True, CreateService True, StartService, CloseService, CloseManager]))"

definition UninstallService :: "bool \<Rightarrow> bool \<Rightarrow> bool \<times> scm_call list" where
  "UninstallService scm svc =
     (if \<not> scm then (False, [OpenSCManager False])
      else if \<not> svc then (False, [OpenSCManager True, OpenService False, CloseManager])
      else (True, [OpenSCManager True, OpenService True, ControlStop, DeleteService, CloseService,
                   CloseManager]))"

datatype main_action = Installing "bool \<times> scm_call list" | Uninstalling "bool \<times> scm_call list"
  | Running_as_service | Running_directly

definition wmain :: "string list \<Rightarrow> bool \<Rightarrow> bool \<Rightarrow> bool \<Rightarrow> main_action \<times> nat" where
  "wmain argv scm svc dispatched =
     (let rest = (if dispatched then (Running_as_service, 0) else (Running_directly, 0))
      in case argv of
           _ # a # _ \<Rightarrow>
             if a = ''--install'' \<or> a = ''-i'' then
               (Installing (InstallService scm svc), if fst (InstallService scm svc) then 0 else 1)
             else if a = ''--uninstall'' \<or> a = ''-u'' then
               (Uninstalling (UninstallService scm svc), if fst (UninstallService scm svc) then 0 else 1)
             else rest
         | _ \<Rightarrow> rest)"

section \<open>The loop invariant\<close>

definition loop_inv :: "loop_state \<Rightarrow> bool" where
  "loop_inv st \<longleftrightarrow> (cameraActive st \<longrightarrow> camera st \<noteq> None)
     \<and> 0 \<le> noClientFrames st \<and> noClientFrames st \<le> 30
     \<and> (\<not> cameraActive st \<longrightarrow> noClientFrames st = 0)"

lemmas loop_defs =
  loop_iteration_def initCamera_def stopCamera_def Let_def

lemma loop_iteration_inv [inv_intros]:
  "loop_inv st \<Longrightarrow> loop_iteration t0 freq i st m = (st', m', calls) \<Longrightarrow> loop_inv st'"
  by (auto simp: loop_inv_def loop_defs split: if_splits prod.splits option.splits list.splits)

lemma loop_run_inv:
  "loop_inv st \<Longrightarrow> loop_run t0 freq is st m = (st', m', calls) \<Longrightarrow> loop_inv st'"
proof (induction "is" arbitrary: st m calls)
  case Nil
  then show ?case by simp
next
  case (Cons i "is")
  then show ?case by (auto split: prod.splits dest: loop_iteration_inv)
qed

lemma loop_run_append:
  "loop_run t0 freq (is @ js) st m =
     (case loop_run t0 freq is st m of (st1, m1, c1) \<Rightarrow>
       (case loop_run t0 freq js st1 m1 of (st2, m2, c2) \<Rightarrow> (st2, m2, c1 @ c2)))"
  by (induction "is" arbitrary: st m) (auto split: prod.splits)

lemma loop_iteration_held:
  "loop_iteration t0 freq i st m = (st', m', calls) \<Longrightarrow> held (server st') k = held (server st) k"
  by (cases k)
    (auto simp: loop_defs held_def Server_WriteFrame_def split: if_splits prod.splits option.splits list.splits)

lemma loop_run_held:
  "loop_run t0 freq is st m = (st', m', calls) \<Longrightarrow> held (server st') k = held (server st) k"
  by (induction "is" arbitrary: st m calls) (auto split: prod.splits dest: loop_iteration_held [where k = k])

definition initial_loop :: "server \<Rightarrow> loop_state" where
  "initial_loop sv = \<lparr>camera = None, cameraActive = False, noClientFrames = 0, server = sv\<rparr>"

lemma initial_loop_inv: "loop_inv (initial_loop sv)"
  by (simp add: loop_inv_def initial_loop_def)

section \<open>Driver protocol\<close>

text \<open>
  The driver's side of the calls. A device is set up by an \<open>init\<close> that succeeds, configured and
  started only then, asked whether it is streaming before every frame and before the stop, and
  given up only when it is not streaming. Every other call, or a call for another device, is
  refused (\<open>None\<close>): a start without a successful \<open>init\<close>, an \<open>init\<close> with other dimensions or
  while a device is held, a frame or a stop that was not preceded by a positive answer.
\<close>

datatype device =
    No_device            \<comment> \<open>no device held: nothing opened yet, \<open>init\<close> failed, or released\<close>
  | Ready nat         \<comment> \<open>\<open>init\<close> succeeded\<close>
  | Started nat       \<comment> \<open>started; whether it still streams has to be asked\<close>
  | Confirmed nat     \<comment> \<open>it has just said that it streams\<close>
  | Halted nat        \<comment> \<open>stopped, or it has just said that it does not stream\<close>

fun driver_step :: "cam_call \<Rightarrow> device \<Rightarrow> device option" where
  "driver_step (CamInit d w h fps ok) s =
     (if s = No_device \<and> (w, h, fps) = (640, 480, 30) then Some (if ok then Ready d else No_device) else None)"
| "driver_step (CamAutogain d) s = (if s = Ready d then Some s else None)"
| "driver_step (CamAutoWhiteBalance d) s = (if s = Ready d then Some s else None)"
| "driver_step (CamFlip d) s = (if s = Ready d then Some s else None)"
| "driver_step (CamStart d) s = (if s = Ready d then Some (Started d) else None)"
| "driver_step (CamIsStreaming d b) s =
     (if s \<in> {Started d, Confirmed d, Halted d} then Some (if b then Confirmed d else Halted d) else None)"
| "driver_step (CamGetFrame d) s = (if s = Confirmed d then Some (Started d) else None)"
| "driver_step (CamStop d) s = (if s = Confirmed d then Some (Halted d) else None)"
| "driver_step (CamRelease d) s = (if s = Halted d then Some No_device else None)"

fun driver :: "device \<Rightarrow> cam_call list \<Rightarrow> device option" where
  "driver s [] = Some s"
| "driver s (c # cs) = (case driver_step c s of None \<Rightarrow> None | Some s' \<Rightarrow> driver s' cs)"

lemma driver_append:
  "driver s (xs @ ys) = (case driver s xs of None \<Rightarrow> None | Some r \<Rightarrow> driver r ys)"
  by (induction xs arbitrary: s) (auto split: option.splits)

definition agrees :: "device \<Rightarrow> loop_state \<Rightarrow> bool" where
  "agrees s st \<longleftrightarrow> (if cameraActive st
     then \<exists>d. camera st = Some d \<and> s \<in> {Started d, Halted d} else s = No_device)"

lemma agrees_initial: "agrees No_device (initial_loop sv)"
  by (simp add: agrees_def initial_loop_def)

lemma stopCamera_driver:
  "agrees s st \<Longrightarrow> stopCamera streaming st = (st', calls) \<Longrightarrow>
     driver s calls = Some No_device \<and> \<not> cameraActive st' \<and> server st' = server st"
  by (auto simp: agrees_def stopCamera_def split: if_splits)

lemma initCamera_driver:
  "\<not> cameraActive st \<Longrightarrow> initCamera devices ok st = (b, st', calls) \<Longrightarrow>
     \<exists>s. driver No_device calls = Some s \<and> agrees s st'"
  by (auto simp: agrees_def initCamera_def Let_def ps3eye_consts split: if_splits list.splits)

lemma agrees_count [simp]:
  "agrees s (st\<lparr>noClientFrames := n\<rparr>) = agrees s st" "agrees s (st\<lparr>server := sv\<rparr>) = agrees s st"
  by (simp_all add: agrees_def)

lemma loop_iteration_driver:
  assumes "agrees s st" and "loop_iteration t0 freq i st m = (st', m', calls)"
  shows "\<exists>s'. driver s calls = Some s' \<and> agrees s' st'"
proof (cases "cameraActive st")
  case False
  then have "s = No_device" using assms(1) by (simp add: agrees_def)
  then show ?thesis
    using assms False initCamera_driver [OF False, of "i_devices i" "i_init i"]
    by (auto simp: loop_iteration_def Let_def split: if_splits prod.splits)
next
  case True
  then obtain d where d: "camera st = Some d" "s \<in> {Started d, Halted d}"
    using assms(1) by (auto simp: agrees_def)
  have ask: "driver s (CamIsStreaming d True # CamGetFrame d # cs) = driver (Started d) cs" for cs
    using d(2) by auto
  have ag: "agrees (Started d) st" using True d(1) by (simp add: agrees_def)
  show ?thesis
    using assms(2) True d ag
    by (auto simp: loop_iteration_def Let_def ask agrees_def dest: stopCamera_driver [of "Started d", rotated]
        split: if_splits prod.splits)
qed

lemma loop_run_driver:
  "agrees s st \<Longrightarrow> loop_run t0 freq is st m = (st', m', calls) \<Longrightarrow>
     \<exists>s'. driver s calls = Some s' \<and> agrees s' st'"
proof (induction "is" arbitrary: s st m calls)
  case Nil
  then show ?case by simp
next
  case (Cons i "is")
  obtain st1 m1 c1 where it: "loop_iteration t0 freq i st m = (st1, m1, c1)"
    by (cases "loop_iteration t0 freq i st m") auto
  obtain c2 where c2: "loop_run t0 freq is st1 m1 = (st', m', c2)" "calls = c1 @ c2"
    using Cons.prems(2) it by (auto split: prod.splits)
  obtain s1 where "driver s c1 = Some s1" "agrees s1 st1"
    using loop_iteration_driver [OF Cons.prems(1) it] by blast
  with Cons.IH [OF this(2) c2(1)] c2(2) show ?case by (simp add: driver_append)
qed

section \<open>Properties\<close>

text \<open>C6: the driver is used as it must be, in every run of the capture loop: a camera is set up
  for 640 by 480 at 30 frames only while none is held, it is configured and started only when
  that setup succeeded, frames are fetched from it, and stop is sent to it, only after it said
  that it is streaming, and a camera that is given up is not streaming. When the loop returns
  no camera is held, and every kernel handle the loop opened is closed.\<close>

theorem capture_loop_protocol:
  "driver No_device (fst (snd (CaptureLoop os t0 freq is streaming m))) = Some No_device
   \<and> balance k (snd (snd (CaptureLoop os t0 freq is streaming m))) = 0"
proof -
  obtain b sv m1 kc where c: "Server_Create os new_server m = (b, sv, m1, kc)"
    by (cases "Server_Create os new_server m") auto
  obtain st m2 calls where r: "loop_run t0 freq is (initial_loop sv) m1 = (st, m2, calls)"
    by (cases "loop_run t0 freq is (initial_loop sv) m1") auto
  have kc: "balance k kc = held sv k"
    using server_handles.acquire_balance [OF new_server_idle c] .
  have close: "balance k (snd (snd (Server_Close e m'))) = - held e k" for e m'
    using server_handles.release_balance [of e m'] by (cases "Server_Close e m'") auto
  have srv: "held (server st) k = held sv k"
    using loop_run_held [OF r] by (simp add: initial_loop_def)
  obtain s where d: "driver No_device calls = Some s" "agrees s st"
    using loop_run_driver [OF agrees_initial r] by blast
  obtain st3 calls2 where stop: "stopCamera streaming st = (st3, calls2)"
    by (cases "stopCamera streaming st") auto
  note e = stopCamera_driver [OF d(2) stop]
  show ?thesis
    using c r kc srv d(1) e stop close [of sv m1] close [of "server st" m2]
    by (auto simp: CaptureLoop_def initial_loop_def [symmetric] driver_append split: prod.splits)
qed

text \<open>After any run of the loop the camera is active only with a device, the idle counter is
  between 0 and 30, and it is zero while the camera is off.\<close>

theorem capture_loop_invariant:
  "loop_inv (fst (loop_run t0 freq is \<lparr>camera = None, cameraActive = False, noClientFrames = 0,
      server = sv\<rparr> m))"
  using loop_run_inv [OF initial_loop_inv [of sv], of t0 freq "is" m]
  by (cases "loop_run t0 freq is (initial_loop sv) m") (auto simp: initial_loop_def)

lemma idle_iteration:
  assumes "cameraActive st" "camera st = Some d" "i_streaming i"
    and "\<forall>m'. client_count (i_then i m') \<le> 0"
  shows "\<exists>st' m' calls. loop_iteration t0 freq i st m = (st', m', CamIsStreaming d True # CamGetFrame d # calls)
    \<and> (if noClientFrames st < 30
       then cameraActive st' \<and> camera st' = Some d \<and> noClientFrames st' = noClientFrames st + 1 \<and> calls = []
       else \<not> cameraActive st' \<and> camera st' = None \<and> noClientFrames st' = 0
            \<and> calls = CamIsStreaming d (i_streaming_at_stop i)
                # (if i_streaming_at_stop i then [CamStop d] else []) @ [CamRelease d])"
  using assms
  by (cases "noClientFrames st < 30") (auto simp: loop_defs Server_GetClientCount_def split: prod.splits)

text \<open>The calls of \<open>n\<close> passes that each fetch a frame.\<close>

definition frames :: "nat \<Rightarrow> nat \<Rightarrow> cam_call list" where
  "frames n d = concat (replicate n [CamIsStreaming d True, CamGetFrame d])"

lemma frames_simps [simp]:
  "frames 0 d = []" "frames (Suc n) d = CamIsStreaming d True # CamGetFrame d # frames n d"
  by (simp_all add: frames_def)

lemma frames_add: "frames (m + n) d = frames m d @ frames n d"
  by (simp add: frames_def replicate_add)

lemma idle_run:
  assumes "cameraActive st" "camera st = Some d"
    and "\<forall>i \<in> set is. i_streaming i \<and> (\<forall>m'. client_count (i_then i m') \<le> 0)"
    and "noClientFrames st + int (length is) \<le> 30"
  shows "\<exists>st' m'. loop_run t0 freq is st m = (st', m', frames (length is) d)
    \<and> cameraActive st' \<and> camera st' = Some d
    \<and> noClientFrames st' = noClientFrames st + int (length is)"
  using assms
proof (induction "is" arbitrary: st m)
  case Nil
  then show ?case by simp
next
  case (Cons i "is")
  then obtain st1 m1 where it: "loop_iteration t0 freq i st m = (st1, m1, [CamIsStreaming d True, CamGetFrame d])"
    "cameraActive st1" "camera st1 = Some d" "noClientFrames st1 = noClientFrames st + 1"
    using idle_iteration [of st d i t0 freq m] by auto
  with Cons.IH [of st1 m1] Cons.prems show ?case by auto
qed

text \<open>The camera is released on demand: with the camera streaming and no client counted, the
  loop fetches exactly 31 more frames, then stops the camera and drops the device.\<close>

theorem camera_stops_after_31_idle_frames:
  assumes "cameraActive st" "camera st = Some d" "noClientFrames st = 0"
    and "\<forall>i \<in> set is. i_streaming i \<and> (\<forall>m'. client_count (i_then i m') \<le> 0)"
    and "length is = 31" and "i_streaming_at_stop (last is)"
  shows "\<exists>st' m'. loop_run t0 freq is st m = (st', m', frames 31 d @ [CamIsStreaming d True, CamStop d, CamRelease d])
    \<and> \<not> cameraActive st' \<and> camera st' = None \<and> noClientFrames st' = 0"
proof -
  obtain js j where js: "is = js @ [j]" "length js = 30"
    using assms(5) by (cases "is" rule: rev_cases) auto
  obtain st1 m1 where r: "loop_run t0 freq js st m = (st1, m1, frames 30 d)"
    "cameraActive st1" "camera st1 = Some d" "noClientFrames st1 = 30"
    using idle_run [of st d js t0 freq m] assms(1-4) js by auto
  obtain st2 m2 where "loop_iteration t0 freq j st1 m1 = (st2, m2, frames 1 d @ [CamIsStreaming d True, CamStop d, CamRelease d])"
    "\<not> cameraActive st2 \<and> camera st2 = None \<and> noClientFrames st2 = 0"
    using idle_iteration [of st1 d j t0 freq m1] r assms(4,6) js(1) by auto
  moreover have "frames 31 d = frames 30 d @ frames 1 d"
    using frames_add [of 30 1 d] by simp
  ultimately show ?thesis using r js(1) by (simp add: loop_run_append)
qed

definition idle_frame :: iteration where
  "idle_frame = \<lparr>i_wait = WAIT_TIMEOUT, i_meanwhile = (\<lambda>m. m), i_devices = [4], i_init = True,
     i_streaming = True, i_frame = (\<lambda>_. 0), i_counter = 0, i_mutex = WAIT_OBJECT_0,
     i_then = (\<lambda>_. demo_section), i_streaming_at_stop = True\<rparr>"

theorem camera_stops_after_31_idle_frames_witness:
  "\<exists>st' m'. loop_run 0 1 (replicate 31 idle_frame)
      \<lparr>camera = Some 4, cameraActive = True, noClientFrames = 0, server = demo_server\<rparr> demo_section
      = (st', m', frames 31 4 @ [CamIsStreaming 4 True, CamStop 4, CamRelease 4]) \<and> camera st' = None"
  using camera_stops_after_31_idle_frames
    [of "\<lparr>camera = Some 4, cameraActive = True, noClientFrames = 0, server = demo_server\<rparr>" 4
      "replicate 31 idle_frame" 0 1 demo_section]
  by (auto simp: idle_frame_def client_count_def demo_section_ok)

text \<open>A camera that is active but no longer streaming (unplugged, or stopped by its driver) is
  never given up: whatever the clients do, the loop sleeps and leaves its state as it is, so
  it neither releases the device nor initialises one again.\<close>

theorem stalled_camera_is_never_released:
  assumes "cameraActive st" and "camera st = Some d" and "\<forall>i \<in> set is. \<not> i_streaming i"
  shows "fst (loop_run t0 freq is st m) = st
    \<and> snd (snd (loop_run t0 freq is st m)) = replicate (length is) (CamIsStreaming d False)"
  using assms
proof (induction "is" arbitrary: m)
  case Nil
  then show ?case by simp
next
  case (Cons i "is")
  then have "loop_iteration t0 freq i st m = (st, i_meanwhile i m, [CamIsStreaming d False])"
    by (auto simp: loop_defs split: option.splits)
  with Cons.IH [of "i_meanwhile i m"] Cons.prems show ?case
    by (cases "loop_run t0 freq is st (i_meanwhile i m)") auto
qed

theorem stalled_camera_is_never_released_witness:
  "cameraActive (fst (loop_run 0 1 (replicate 1000 (idle_frame\<lparr>i_streaming := False\<rparr>))
      \<lparr>camera = Some 4, cameraActive = True, noClientFrames = 0, server = demo_server\<rparr> demo_section))"
  using stalled_camera_is_never_released
    [of "\<lparr>camera = Some 4, cameraActive = True, noClientFrames = 0, server = demo_server\<rparr>" 4
      "replicate 1000 (idle_frame\<lparr>i_streaming := False\<rparr>)" 0 1 demo_section]
  by simp

lemma sint_of_small:
  fixes w :: u64
  assumes "sint w = e" "0 \<le> e" "e * 10000000 < 2 ^ 63"
  shows "sint (w * 10000000) = e * 10000000"
proof -
  have "sint (of_int (e * 10000000) :: u64) = e * 10000000"
    using assms(2,3) by (simp only: signed_of_int) (simp add: signed_take_bit_int_eq_self)
  moreover have "w * 10000000 = of_int (e * 10000000)" using assms(1) by auto
  ultimately show ?thesis by simp
qed

text \<open>The time stamp of a frame is the elapsed time in 100 ns units, rounded down, as long as
  the elapsed counter ticks times ten million stay below \<open>2 ^ 63\<close>.\<close>

theorem frame_timestamp_exact:
  assumes "sint (cur - start) = e" "0 \<le> e" "e * 10000000 < 2 ^ 63" "sint freq = f" "0 < f"
  shows "uint (frame_timestamp start freq cur) = e * 10000000 div f"
proof -
  have "e * 10000000 div f \<le> e * 10000000 div 1"
    using assms(2,5) by (intro zdiv_mono2) auto
  then have "e * 10000000 div f \<le> e * 10000000" by simp
  moreover have "0 \<le> e * 10000000 div f" using assms(2,5) by (simp add: pos_imp_zdiv_nonneg_iff)
  ultimately show ?thesis
    using sint_of_small [OF assms(1-3)] assms(2-5)
    by (simp add: frame_timestamp_def unsigned_of_int take_bit_int_eq_self)
qed

theorem frame_timestamp_exact_witness:
  "uint (frame_timestamp 500 10000000 10000000500) = 10000000000"
  using frame_timestamp_exact [of 10000000500 500 10000000000 10000000 10000000] by simp

text \<open>With the 10 MHz performance counter of current Windows the bound is reached after
  25 hours and 37 minutes of service: one frame later the product wraps and the time stamp
  jumps to a value that reads as a negative time.\<close>

theorem frame_timestamp_wraps_after_a_day:
  "frame_timestamp 0 10000000 922337203685 = 922337203685
   \<and> sint (frame_timestamp 0 10000000 922337203686) = - 922337203684
   \<and> (922337203686 :: nat) div 10000000 div 60 = 1537"
  by (simp add: frame_timestamp_def quot_toward_zero_def)

text \<open>The camera is started on demand: an idle loop that finds a client counted, or is woken by
  the client event, initialises the first device for 640 by 480 at 30 frames, sets it up and
  starts it, and from then on is active.\<close>

theorem camera_starts_on_demand:
  assumes "\<not> cameraActive st" and "m_clientEvent (server st)" and "m_sharedMemory (server st)"
    and "client_count m > 0 \<or> i_wait i = WAIT_OBJECT_0 \<or> client_count (i_meanwhile i m) > 0"
    and "i_devices i = d # ds" and "i_init i"
  shows "loop_iteration t0 freq i st m =
    (st\<lparr>camera := Some d, cameraActive := True\<rparr>, i_meanwhile i m,
     [CamInit d 640 480 30 True, CamAutogain d, CamAutoWhiteBalance d, CamFlip d, CamStart d])"
  using assms
  by (auto simp: loop_defs Server_WaitForClients_def Server_GetClientCount_def ps3eye_consts)

theorem camera_starts_on_demand_witness:
  "cameraActive (fst (loop_iteration 0 1 (idle_frame\<lparr>i_wait := WAIT_OBJECT_0\<rparr>)
     (initial_loop demo_server) demo_section))"
  using camera_starts_on_demand [of "initial_loop demo_server" demo_section
      "idle_frame\<lparr>i_wait := WAIT_OBJECT_0\<rparr>" 4 "[]" 0 1]
  by (simp add: initial_loop_def demo_server_def idle_frame_def)

section \<open>Service control\<close>

text \<open>A sequence of status reports and the check points the service manager sees.\<close>

fun reports :: "(svc_state \<times> u32 \<times> u32) list \<Rightarrow> service \<Rightarrow> service" where
  "reports [] g = g"
| "reports ((st, e, w) # rs) g = reports rs (ReportServiceStatus st e w g)"

fun pending :: "svc_state \<Rightarrow> bool" where
  "pending SERVICE_START_PENDING = True"
| "pending SERVICE_STOP_PENDING = True"
| "pending _ = False"

lemma reports_checkPoint:
  "checkPoint (reports rs g) = checkPoint g + of_nat (length (filter (\<lambda>(st, _). pending st) rs))"
proof (induction rs arbitrary: g)
  case Nil
  then show ?case by simp
next
  case (Cons r rs)
  obtain st e w where r: "r = (st, e, w)" by (cases r)
  show ?case by (cases st) (auto simp: r Cons.IH ReportServiceStatus_def Let_def)
qed

text \<open>The service manager's protocol: after any sequence of reports a pending state carries a
  check point one above the previous pending one, a settled state carries zero, and a stop is
  accepted in every state but the starting one.\<close>

theorem service_reports_progress:
  "reports (rs @ [(st, e, w)]) g =
    (reports rs g)\<lparr>dwCurrentState := st, dwWin32ExitCode := e, dwWaitHint := w,
      acceptStop := (st \<noteq> SERVICE_START_PENDING),
      dwCheckPoint := (if pending st
        then checkPoint g + of_nat (length (filter (\<lambda>(st, _). pending st) rs)) else 0),
      checkPoint := checkPoint g + of_nat (length (filter (\<lambda>(st, _). pending st) rs))
        + (if pending st then 1 else 0)\<rparr>"
proof -
  have app: "reports (rs @ [(st, e, w)]) g = ReportServiceStatus st e w (reports rs g)"
    by (induction rs arbitrary: g) auto
  show ?thesis
    unfolding app using reports_checkPoint [of rs g]
    by (cases st; cases "reports rs g") (auto simp: ReportServiceStatus_def Let_def)
qed

text \<open>Manager and service handles a call list leaves open.\<close>

fun scm_open :: "scm_call list \<Rightarrow> int" where
  "scm_open [] = 0"
| "scm_open (OpenSCManager b # cs) = (if b then 1 else 0) + scm_open cs"
| "scm_open (CreateService b # cs) = (if b then 1 else 0) + scm_open cs"
| "scm_open (OpenService b # cs) = (if b then 1 else 0) + scm_open cs"
| "scm_open (CloseService # cs) = scm_open cs - 1"
| "scm_open (CloseManager # cs) = scm_open cs - 1"
| "scm_open (_ # cs) = scm_open cs"

text \<open>The command line: \<open>--install\<close>/\<open>-i\<close> and \<open>--uninstall\<close>/\<open>-u\<close> close every service manager
  handle on every path and exit 0 exactly when they succeeded; anything else runs the
  service, directly when there is no dispatcher, and exits 0.\<close>

theorem wmain_result:
  "case wmain argv scm svc dispatched of
     (Installing (ok, calls), code) \<Rightarrow> (ok \<longleftrightarrow> scm \<and> svc) \<and> (code = 0 \<longleftrightarrow> ok) \<and> scm_open calls = 0
       \<and> (StartService \<in> set calls \<longleftrightarrow> ok)
   | (Uninstalling (ok, calls), code) \<Rightarrow> (ok \<longleftrightarrow> scm \<and> svc) \<and> (code = 0 \<longleftrightarrow> ok) \<and> scm_open calls = 0
       \<and> (DeleteService \<in> set calls \<longleftrightarrow> ok)
   | (Running_as_service, code) \<Rightarrow> dispatched \<and> code = 0
   | (Running_directly, code) \<Rightarrow> \<not> dispatched \<and> code = 0"
  by (auto simp: wmain_def InstallService_def UninstallService_def Let_def split: list.splits)

end
