(* ===== verification/ComObject.thy ===== *)
theory ComObject
  imports Prelude
begin

text \<open>
  The \<open>IUnknown\<close> contract. Every COM class of the repository implements the same three
  methods over an atomic reference count; the locale states what they promise one another
  and proves, once, that the count is the number of references handed out and that the
  object is deleted exactly when the last one is given back. \<open>PS3EyeMediaSource\<close>,
  \<open>PS3EyeMediaStream\<close> and \<open>PS3EyeActivate\<close> interpret it.
\<close>

datatype iid =
    IID_IUnknown | IID_IMFMediaEventGenerator | IID_IMFMediaSource | IID_IMFMediaSourceEx
  | IID_IMFGetService | IID_IMFMediaStream | IID_IMFAttributes | IID_IMFActivate
  | IID_IClassFactory | Other_iid nat

text \<open>The classes of the three COM servers of the repository.\<close>

datatype clsid = CLSID_PS3EyeMediaSource | CLSID_PS3EyeSource | CLSID_PS3EyeVirtualCam | Other_clsid nat

text \<open>What a client of an object does with its references; a null out-pointer is \<open>Query None\<close>.\<close>

datatype ref_op = Add | Query "iid option" | Rel

text \<open>
  A client's run: \<open>None\<close> once the object is deleted, and a later use of the deleted object
  leaves it so. The number is the references the client holds.
\<close>

fun ref_run ::
  "('o \<Rightarrow> u32 \<times> 'o) \<Rightarrow> ('o \<Rightarrow> u32 \<times> 'o option) \<Rightarrow> (iid option \<Rightarrow> 'o \<Rightarrow> hresult \<times> iid option \<times> 'o)
     \<Rightarrow> ref_op list \<Rightarrow> 'o option \<times> nat \<Rightarrow> 'o option \<times> nat" where
  "ref_run add rel qi [] s = s"
| "ref_run add rel qi (r # ops) (None, n) = (None, n)"
| "ref_run add rel qi (Add # ops) (Some x, n) = ref_run add rel qi ops (Some (snd (add x)), Suc n)"
| "ref_run add rel qi (Query i # ops) (Some x, n) =
     (case qi i x of (hr, _, x') \<Rightarrow>
        ref_run add rel qi ops (Some x', if hr = S_OK then Suc n else n))"
| "ref_run add rel qi (Rel # ops) (Some x, n) = ref_run add rel qi ops (snd (rel x), n - 1)"

locale com_object =
  fixes rc :: "'o \<Rightarrow> u32"
    and add :: "'o \<Rightarrow> u32 \<times> 'o"
    and rel :: "'o \<Rightarrow> u32 \<times> 'o option"
    and qi :: "iid option \<Rightarrow> 'o \<Rightarrow> hresult \<times> iid option \<times> 'o"
    and supports :: "iid \<Rightarrow> bool"
  assumes add_rc: "add x = (c, x') \<Longrightarrow> c = rc x + 1 \<and> rc x' = rc x + 1"
    and rel_rc: "rel x = (c, y) \<Longrightarrow> c = rc x - 1 \<and>
        (if rc x = 1 then y = None else \<exists>x'. y = Some x' \<and> rc x' = rc x - 1)"
    and qi_null: "qi None x = (E_POINTER, None, x)"
    and qi_supported: "supports i \<Longrightarrow> qi (Some i) x = (S_OK, Some i, snd (add x))"
    and qi_other: "\<not> supports i \<Longrightarrow> qi (Some i) x = (E_NOINTERFACE, None, x)"
begin

text \<open>The object lives with as many references as its count says, and dies with none.\<close>

definition sound :: "'o option \<times> nat \<Rightarrow> bool" where
  "sound s \<longleftrightarrow> (case s of (None, n) \<Rightarrow> n = 0 | (Some x, n) \<Rightarrow> 0 < n \<and> unat (rc x) = n)"

lemma rc_add: "rc (snd (add x)) = rc x + 1"
  using add_rc [of x "fst (add x)" "snd (add x)"] by simp

lemma unat_up: "unat (c :: u32) = n \<Longrightarrow> Suc n < 2 ^ 32 \<Longrightarrow> unat (c + 1) = Suc n"
  by (simp add: unat_word_ariths)

lemma unat_down:
  assumes "unat (c :: u32) = Suc n"
  shows "unat (c - 1) = n"
proof -
  have "c \<noteq> 0" using assms by auto
  then have "unat (c - 1) = unat c - 1" by (rule unat_minus_one)
  with assms show ?thesis by simp
qed

lemma ref_run_sound:
  assumes "sound s" and "snd s + length ops < 2 ^ 32"
  shows "sound (ref_run add rel qi ops s)"
  using assms
proof (induction ops arbitrary: s)
  case Nil
  then show ?case by simp
next
  case (Cons r ops)
  obtain y n where s: "s = (y, n)" by (cases s)
  show ?case
  proof (cases y)
    case None
    with Cons.prems s show ?thesis by simp
  next
    case (Some x)
    with Cons.prems s have n: "0 < n" "unat (rc x) = n" by (auto simp: sound_def)
    have up: "sound (Some (snd (add x)), Suc n)"
      using n Cons.prems(2) s by (auto simp: sound_def rc_add intro: unat_up)
    have same: "sound (Some x, n)" using n by (simp add: sound_def)
    show ?thesis
    proof (cases r)
      case Add
      with up Cons s Some show ?thesis by auto
    next
      case (Query i)
      have "qi i x = (S_OK, i, snd (add x)) \<or> (\<exists>hr. hr \<noteq> S_OK \<and> qi i x = (hr, None, x))"
      proof (cases i)
        case None
        then show ?thesis using qi_null [of x] by auto
      next
        case (Some j)
        then show ?thesis using qi_supported [of j x] qi_other [of j x] by auto
      qed
      with Query up same Cons s Some show ?thesis by auto
    next
      case Rel
      obtain c z where z: "rel x = (c, z)" by (cases "rel x")
      have one: "rc x = 1 \<longleftrightarrow> n = 1" using n(2) by (metis unat_1 unsigned_word_eqI)
      have "sound (z, n - 1)"
      proof (cases "n = 1")
        case True
        then show ?thesis using rel_rc [OF z] one by (simp add: sound_def)
      next
        case False
        then obtain k where k: "n = Suc k" "0 < k" using n(1) by (cases n) auto
        obtain x' where "z = Some x'" "rc x' = rc x - 1" using rel_rc [OF z] one False by auto
        with k n(2) unat_down [of "rc x" k] show ?thesis by (simp add: sound_def)
      qed
      with Rel z Cons s Some show ?thesis by auto
    qed
  qed
qed

lemma ref_run_from_new:
  assumes "rc x = 1" and "Suc (length ops) < 2 ^ 32"
    and "ref_run add rel qi ops (Some x, 1) = (y, n)"
  shows "(y = None \<longleftrightarrow> n = 0) \<and> (\<forall>x'. y = Some x' \<longrightarrow> unat (rc x') = n)"
proof -
  have "sound (ref_run add rel qi ops (Some x, 1))"
    using assms by (intro ref_run_sound) (auto simp: sound_def)
  with assms(3) show ?thesis by (auto simp: sound_def split: option.splits)
qed

end

end
