(* ===== verification/MediaSource.thy ===== *)
theory MediaSource
  imports ComObject SharedMemory
begin

text \<open>
  MediaFoundationSource/PS3EyeMediaSource.h and .cpp: the Media Foundation source, its one
  stream, and the capture thread that turns shared-memory frames into samples.

  Every method locks its object's mutex for its whole body, so a method is one step; the
  capture thread takes the stream's mutex only. Media Foundation's own objects (event queue,
  attributes, media types, samples) are outside the repository: the result of each call on
  them is an argument, and the events the code queues are returned in order.
\<close>

section \<open>Stream\<close>

record sample =
  s_data :: "mem option"   \<comment> \<open>the bytes copied into the buffer, if it could be locked\<close>
  s_length :: nat          \<comment> \<open>\<open>SetCurrentLength\<close>\<close>
  s_time :: int
  s_duration :: int

datatype mf_event =
    MEStreamStarted | MEStreamStopped | MEStreamPaused | MEMediaSample sample
  | MESourceStarted | MESourceStopped | MESourcePaused | Other_event nat

record stream =
  st_refCount :: u32
  m_isActive :: bool
  m_isShutdown :: bool

definition new_stream :: stream where
  "new_stream = \<lparr>st_refCount = 1, m_isActive = False, m_isShutdown = False\<rparr>"

definition Stream_AddRef :: "stream \<Rightarrow> u32 \<times> stream" where
  "Stream_AddRef x = (st_refCount x + 1, x\<lparr>st_refCount := st_refCount x + 1\<rparr>)"

definition Stream_Release :: "stream \<Rightarrow> u32 \<times> stream option" where
  "Stream_Release x =
     (let count = st_refCount x - 1; x' = x\<lparr>st_refCount := count\<rparr>
      in (count, if count = 0 then None else Some x'))"

fun stream_iids :: "iid \<Rightarrow> bool" where
  "stream_iids IID_IUnknown = True"
| "stream_iids IID_IMFMediaEventGenerator = True"
| "stream_iids IID_IMFMediaStream = True"
| "stream_iids _ = False"

definition Stream_QueryInterface :: "iid option \<Rightarrow> stream \<Rightarrow> hresult \<times> iid option \<times> stream" where
  "Stream_QueryInterface ppv x =
     (case ppv of
        None \<Rightarrow> (E_POINTER, None, x)
      | Some riid \<Rightarrow>
          if riid = IID_IUnknown then (S_OK, Some riid, snd (Stream_AddRef x))
          else if riid = IID_IMFMediaEventGenerator then (S_OK, Some riid, snd (Stream_AddRef x))
          else if riid = IID_IMFMediaStream then (S_OK, Some riid, snd (Stream_AddRef x))
          else (E_NOINTERFACE, None, x))"

interpretation stream_object:
  com_object st_refCount Stream_AddRef Stream_Release Stream_QueryInterface stream_iids
proof unfold_locales
  fix i x
  show "stream_iids i \<Longrightarrow> Stream_QueryInterface (Some i) x = (S_OK, Some i, snd (Stream_AddRef x))"
    by (cases i) (auto simp: Stream_QueryInterface_def)
  show "\<not> stream_iids i \<Longrightarrow> Stream_QueryInterface (Some i) x = (E_NOINTERFACE, None, x)"
    by (cases i) (auto simp: Stream_QueryInterface_def)
qed (auto simp: Stream_AddRef_def Stream_Release_def Stream_QueryInterface_def Let_def)

text \<open>The event generator methods delegate to the queue, whose answer is \<open>q\<close>.\<close>

definition Stream_events :: "hresult \<Rightarrow> stream \<Rightarrow> hresult" where
  "Stream_events q x = (if m_isShutdown x then MF_E_SHUTDOWN else q)"

definition Stream_GetStreamDescriptor :: "bool \<Rightarrow> stream \<Rightarrow> hresult" where
  "Stream_GetStreamDescriptor nonnull x =
     (if \<not> nonnull then E_POINTER else if m_isShutdown x then MF_E_SHUTDOWN else S_OK)"

definition Stream_RequestSample :: "stream \<Rightarrow> hresult" where
  "Stream_RequestSample x =
     (if m_isShutdown x then MF_E_SHUTDOWN else if \<not> m_isActive x then MF_E_INVALIDREQUEST else S_OK)"

definition Stream_Start :: "hresult \<Rightarrow> stream \<Rightarrow> hresult \<times> stream \<times> mf_event list" where
  "Stream_Start q x = (q, x\<lparr>m_isActive := True\<rparr>, [MEStreamStarted])"

definition Stream_Stop :: "hresult \<Rightarrow> stream \<Rightarrow> hresult \<times> stream \<times> mf_event list" where
  "Stream_Stop q x = (q, x\<lparr>m_isActive := False\<rparr>, [MEStreamStopped])"

definition Stream_Pause :: "hresult \<Rightarrow> stream \<Rightarrow> hresult \<times> stream \<times> mf_event list" where
  "Stream_Pause q x = (q, x\<lparr>m_isActive := False\<rparr>, [MEStreamPaused])"

definition Stream_Shutdown :: "stream \<Rightarrow> hresult \<times> stream" where
  "Stream_Shutdown x =
     (if m_isShutdown x then (S_OK, x) else (S_OK, x\<lparr>m_isShutdown := True, m_isActive := False\<rparr>))"

definition Stream_DeliverSample :: "hresult \<Rightarrow> sample \<Rightarrow> stream \<Rightarrow> hresult \<times> mf_event list" where
  "Stream_DeliverSample q smp x =
     (if m_isShutdown x then (MF_E_SHUTDOWN, [])
      else if \<not> m_isActive x then (S_OK, [])
      else (q, [MEMediaSample smp]))"

section \<open>Source\<close>

datatype SourceState = Invalid | Stopped | Started | Paused | Shutdown

text \<open>
  The stream object and the \<open>ComPtr\<close> that points to it are kept apart, because the object
  outlives the pointer while its count is not zero.
\<close>

record source =
  src_refCount :: u32
  m_state :: SourceState
  m_sharedMemClient :: client
  m_stream :: bool                    \<comment> \<open>the \<open>ComPtr\<close> is set\<close>
  stream_object :: "stream option"    \<comment> \<open>the object, until it is deleted\<close>
  m_captureThreadRunning :: bool
  captureThread :: bool               \<comment> \<open>\<open>m_captureThread\<close> is joinable\<close>
  m_eventQueue :: bool
  m_presentationDescriptor :: bool
  m_width :: nat
  m_height :: nat
  m_frameRate :: nat

definition new_source :: source where
  "new_source = \<lparr>src_refCount = 1, m_state = Invalid, m_sharedMemClient = new_client,
     m_stream = False, stream_object = None, m_captureThreadRunning = False, captureThread = False,
     m_eventQueue = False, m_presentationDescriptor = False,
     m_width = 640, m_height = 480, m_frameRate = 30\<rparr>"

text \<open>A call on the stream through the pointer, when it is set.\<close>

definition on_stream :: "(stream \<Rightarrow> stream \<times> mf_event list) \<Rightarrow> source \<Rightarrow> source \<times> mf_event list" where
  "on_stream f s =
     (case stream_object s of
        Some x \<Rightarrow> if m_stream s then (case f x of (x', evs) \<Rightarrow> (s\<lparr>stream_object := Some x'\<rparr>, evs))
                  else (s, [])
      | None \<Rightarrow> (s, []))"

text \<open>\<open>ComPtr::Reset\<close>: give the pointer's reference back.\<close>

definition reset_stream :: "source \<Rightarrow> source" where
  "reset_stream s =
     (case stream_object s of
        Some x \<Rightarrow> if m_stream s then s\<lparr>m_stream := False, stream_object := snd (Stream_Release x)\<rparr> else s
      | None \<Rightarrow> s\<lparr>m_stream := False\<rparr>)"

subsection \<open>Initialisation\<close>

datatype mt_value = Video | RGB24 | Pair nat nat | Num nat | Progressive

datatype mt_key =
    MF_MT_MAJOR_TYPE | MF_MT_SUBTYPE | MF_MT_FRAME_SIZE | MF_MT_FRAME_RATE
  | MF_MT_PIXEL_ASPECT_RATIO | MF_MT_INTERLACE_MODE | MF_MT_DEFAULT_STRIDE | MF_MT_SAMPLE_SIZE
  | MF_MT_FIXED_SIZE_SAMPLES | MF_MT_ALL_SAMPLES_INDEPENDENT

text \<open>The attributes \<open>CreateStream\<close> sets, in order; the sizes are 32-bit products.\<close>

definition stream_attributes :: "source \<Rightarrow> (mt_key \<times> mt_value) list" where
  "stream_attributes s =
     (let stride = (of_nat (m_width s) * 3 :: u32); imageSize = stride * of_nat (m_height s)
      in [(MF_MT_MAJOR_TYPE, Video), (MF_MT_SUBTYPE, RGB24),
          (MF_MT_FRAME_SIZE, Pair (m_width s) (m_height s)),
          (MF_MT_FRAME_RATE, Pair (m_frameRate s) 1), (MF_MT_PIXEL_ASPECT_RATIO, Pair 1 1),
          (MF_MT_INTERLACE_MODE, Progressive), (MF_MT_DEFAULT_STRIDE, Num (unat stride)),
          (MF_MT_SAMPLE_SIZE, Num (unat imageSize)), (MF_MT_FIXED_SIZE_SAMPLES, Num 1),
          (MF_MT_ALL_SAMPLES_INDEPENDENT, Num 1)])"

text \<open>Each setter's answer is checked and the first failure is returned.\<close>

fun set_all :: "(mt_key \<times> mt_value) list \<Rightarrow> (mt_key \<Rightarrow> hresult) \<Rightarrow> (mt_key \<rightharpoonup> mt_value)
    \<Rightarrow> hresult \<times> (mt_key \<rightharpoonup> mt_value)" where
  "set_all [] answer acc = (S_OK, acc)"
| "set_all ((k, v) # kvs) answer acc =
     (if failed (answer k) then (answer k, acc) else set_all kvs answer (acc(k \<mapsto> v)))"

text \<open>
  \<open>answer\<close> gives the setters' results, \<open>mt\<close> and \<open>sd\<close> those of creating the media type and
  the stream descriptor. The new stream starts with one reference and the assignment to the
  \<open>ComPtr\<close> takes another.
\<close>

definition CreateStream ::
  "hresult \<Rightarrow> (mt_key \<Rightarrow> hresult) \<Rightarrow> hresult \<Rightarrow> source \<Rightarrow> hresult \<times> source \<times> (mt_key \<rightharpoonup> mt_value)" where
  "CreateStream mt answer sd s =
     (if failed mt then (mt, s, Map.empty)
      else case set_all (stream_attributes s) answer Map.empty of (hr, attrs) \<Rightarrow>
        if failed hr then (hr, s, attrs)
        else if failed sd then (sd, s, attrs)
        else (S_OK, s\<lparr>m_stream := True, stream_object := Some (snd (Stream_AddRef new_stream))\<rparr>, attrs))"

definition CreatePresentationDescriptorInternal ::
  "hresult \<Rightarrow> hresult \<Rightarrow> source \<Rightarrow> hresult \<times> source" where
  "CreatePresentationDescriptorInternal pd select s =
     (case stream_object s of
        None \<Rightarrow> (E_POINTER, s)
      | Some x \<Rightarrow>
        let hr = Stream_GetStreamDescriptor True x
        in if failed hr then (hr, s)
           else if failed pd then (pd, s)
           else (select, s\<lparr>m_presentationDescriptor := True\<rparr>))"

record init_answers =
  a_queue :: hresult
  a_attributes :: hresult
  a_shared :: hresult
  a_sourceType :: hresult
  a_os :: os_answers
  a_mediaType :: hresult
  a_setters :: "mt_key \<Rightarrow> hresult"
  a_streamDescriptor :: hresult
  a_presentationDescriptor :: hresult
  a_select :: hresult

definition Source_Initialize :: "init_answers \<Rightarrow> source \<Rightarrow> mem \<Rightarrow> hresult \<times> source \<times> mem" where
  "Source_Initialize a s m =
     (if failed (a_queue a) then (a_queue a, s, m)
      else let s1 = s\<lparr>m_eventQueue := True\<rparr> in
      if failed (a_attributes a) then (a_attributes a, s1, m)
      else if failed (a_shared a) then (a_shared a, s1, m)
      else if failed (a_sourceType a) then (a_sourceType a, s1, m)
      else case Client_Connect (a_os a) (m_sharedMemClient s1) m of (ok, c, m1, _) \<Rightarrow>
        let s2 = s1\<lparr>m_sharedMemClient := c\<rparr> in
        if \<not> ok then (E_FAIL, s2, m1)
        else case CreateStream (a_mediaType a) (a_setters a) (a_streamDescriptor a) s2 of (hr, s3, _) \<Rightarrow>
          if failed hr then (hr, s3, m1)
          else case CreatePresentationDescriptorInternal (a_presentationDescriptor a) (a_select a) s3
            of (hr2, s4) \<Rightarrow>
              if failed hr2 then (hr2, s4, m1)
              else (S_OK, s4\<lparr>m_state := Stopped\<rparr>, m1))"

subsection \<open>Threads and transport control\<close>

definition StartCaptureThread :: "source \<Rightarrow> source" where
  "StartCaptureThread s =
     (if m_captureThreadRunning s then s
      else s\<lparr>m_captureThreadRunning := True, captureThread := True\<rparr>)"

definition StopCaptureThread :: "source \<Rightarrow> source" where
  "StopCaptureThread s =
     (let s1 = s\<lparr>m_captureThreadRunning := False\<rparr>
      in if captureThread s1 then s1\<lparr>captureThread := False\<rparr> else s1)"

datatype time_format = No_format | Guid_null | Other_format

definition Source_Start ::
  "time_format \<Rightarrow> os_answers \<Rightarrow> hresult \<Rightarrow> source \<Rightarrow> mem \<Rightarrow> hresult \<times> source \<times> mem \<times> mf_event list" where
  "Source_Start tf os q s m =
     (if m_state s = Shutdown then (MF_E_SHUTDOWN, s, m, [])
      else if tf = Other_format then (MF_E_UNSUPPORTED_TIME_FORMAT, s, m, [])
      else case (if IsConnected (m_sharedMemClient s) then (True, m_sharedMemClient s, m, [])
                 else Client_Connect os (m_sharedMemClient s) m) of (ok, c, m1, _) \<Rightarrow>
        let s1 = s\<lparr>m_sharedMemClient := c\<rparr> in
        if \<not> ok then (E_FAIL, s1, m1, [])
        else case on_stream (\<lambda>x. snd (Stream_Start q x)) s1 of (s2, evs) \<Rightarrow>
          (S_OK, (StartCaptureThread s2)\<lparr>m_state := Started\<rparr>, m1, evs @ [MESourceStarted]))"

definition disconnect_client :: "source \<Rightarrow> mem \<Rightarrow> source \<times> mem" where
  "disconnect_client s m =
     (case Client_Disconnect (m_sharedMemClient s) m of (c, m', _) \<Rightarrow> (s\<lparr>m_sharedMemClient := c\<rparr>, m'))"

definition Source_Stop :: "hresult \<Rightarrow> source \<Rightarrow> mem \<Rightarrow> hresult \<times> source \<times> mem \<times> mf_event list" where
  "Source_Stop q s m =
     (if m_state s = Shutdown then (MF_E_SHUTDOWN, s, m, [])
      else case disconnect_client (StopCaptureThread s) m of (s1, m1) \<Rightarrow>
        (case on_stream (\<lambda>x. snd (Stream_Stop q x)) s1 of (s2, evs) \<Rightarrow>
          (q, s2\<lparr>m_state := Stopped\<rparr>, m1, evs @ [MESourceStopped])))"

definition Source_Pause :: "hresult \<Rightarrow> source \<Rightarrow> hresult \<times> source \<times> mf_event list" where
  "Source_Pause q s =
     (if m_state s = Shutdown then (MF_E_SHUTDOWN, s, [])
      else if m_state s \<noteq> Started then (MF_E_INVALID_STATE_TRANSITION, s, [])
      else case on_stream (\<lambda>x. snd (Stream_Pause q x)) s of (s1, evs) \<Rightarrow>
        (q, s1\<lparr>m_state := Paused\<rparr>, evs @ [MESourcePaused]))"

definition Source_Shutdown :: "source \<Rightarrow> mem \<Rightarrow> hresult \<times> source \<times> mem" where
  "Source_Shutdown s m =
     (if m_state s = Shutdown then (S_OK, s, m)
      else case disconnect_client (StopCaptureThread s) m of (s1, m1) \<Rightarrow>
        (case on_stream (\<lambda>x. (snd (Stream_Shutdown x), [])) s1 of (s2, _) \<Rightarrow>
          (S_OK, (reset_stream s2)\<lparr>m_state := Shutdown\<rparr>, m1)))"

text \<open>The remaining methods answer by state only; \<open>q\<close> is what the delegated call returns.\<close>

definition Source_events :: "hresult \<Rightarrow> source \<Rightarrow> hresult" where
  "Source_events q s = (if m_state s = Shutdown then MF_E_SHUTDOWN else q)"

definition Source_GetCharacteristics :: "bool \<Rightarrow> source \<Rightarrow> hresult" where
  "Source_GetCharacteristics nonnull s =
     (if \<not> nonnull then E_POINTER else if m_state s = Shutdown then MF_E_SHUTDOWN else S_OK)"

definition Source_CreatePresentationDescriptor :: "bool \<Rightarrow> hresult \<Rightarrow> source \<Rightarrow> hresult" where
  "Source_CreatePresentationDescriptor nonnull clone s =
     (if \<not> nonnull then E_POINTER
      else if m_state s = Shutdown then MF_E_SHUTDOWN
      else if \<not> m_presentationDescriptor s then MF_E_NOT_INITIALIZED
      else clone)"

definition Source_GetSourceAttributes :: "bool \<Rightarrow> source \<Rightarrow> hresult" where
  "Source_GetSourceAttributes nonnull s =
     (if \<not> nonnull then E_POINTER else if m_state s = Shutdown then MF_E_SHUTDOWN else S_OK)"

definition Source_GetStreamAttributes :: "bool \<Rightarrow> nat \<Rightarrow> hresult \<Rightarrow> hresult \<Rightarrow> source \<Rightarrow> hresult" where
  "Source_GetStreamAttributes nonnull streamId create set_shared s =
     (if \<not> nonnull then E_POINTER
      else if streamId \<noteq> 0 then MF_E_INVALIDSTREAMNUMBER
      else if m_state s = Shutdown then MF_E_SHUTDOWN
      else if failed create then create
      else if failed set_shared then set_shared
      else S_OK)"

definition Source_GetService :: "bool \<Rightarrow> hresult" where
  "Source_GetService nonnull = (if \<not> nonnull then E_POINTER else MF_E_UNSUPPORTED_SERVICE)"

subsection \<open>References and creation\<close>

definition Source_AddRef :: "source \<Rightarrow> u32 \<times> source" where
  "Source_AddRef x = (src_refCount x + 1, x\<lparr>src_refCount := src_refCount x + 1\<rparr>)"

text \<open>At zero the object is deleted; its destructor is \<open>Source_Shutdown\<close>.\<close>

definition Source_Release :: "source \<Rightarrow> u32 \<times> source option" where
  "Source_Release x =
     (let count = src_refCount x - 1; x' = x\<lparr>src_refCount := count\<rparr>
      in (count, if count = 0 then None else Some x'))"

fun source_iids :: "iid \<Rightarrow> bool" where
  "source_iids IID_IUnknown = True"
| "source_iids IID_IMFMediaEventGenerator = True"
| "source_iids IID_IMFMediaSource = True"
| "source_iids IID_IMFMediaSourceEx = True"
| "source_iids IID_IMFGetService = True"
| "source_iids _ = False"

definition Source_QueryInterface :: "iid option \<Rightarrow> source \<Rightarrow> hresult \<times> iid option \<times> source" where
  "Source_QueryInterface ppv x =
     (case ppv of
        None \<Rightarrow> (E_POINTER, None, x)
      | Some riid \<Rightarrow>
          if riid = IID_IUnknown then (S_OK, Some riid, snd (Source_AddRef x))
          else if riid = IID_IMFMediaEventGenerator then (S_OK, Some riid, snd (Source_AddRef x))
          else if riid = IID_IMFMediaSource then (S_OK, Some riid, snd (Source_AddRef x))
          else if riid = IID_IMFMediaSourceEx then (S_OK, Some riid, snd (Source_AddRef x))
          else if riid = IID_IMFGetService then (S_OK, Some riid, snd (Source_AddRef x))
          else (E_NOINTERFACE, None, x))"

interpretation source_object:
  com_object src_refCount Source_AddRef Source_Release Source_QueryInterface source_iids
proof unfold_locales
  fix i x
  show "source_iids i \<Longrightarrow> Source_QueryInterface (Some i) x = (S_OK, Some i, snd (Source_AddRef x))"
    by (cases i) (auto simp: Source_QueryInterface_def)
  show "\<not> source_iids i \<Longrightarrow> Source_QueryInterface (Some i) x = (E_NOINTERFACE, None, x)"
    by (cases i) (auto simp: Source_QueryInterface_def)
qed (auto simp: Source_AddRef_def Source_Release_def Source_QueryInterface_def Let_def)

text \<open>
  \<open>CreateInstance\<close>: the object left behind, if any, and the section. \<open>memory\<close> tells whether
  \<open>new (std::nothrow)\<close> succeeded. The last value is the source the destructor saw, with its
  members after \<open>Shutdown\<close>.
\<close>

definition Source_CreateInstance ::
  "bool \<Rightarrow> bool \<Rightarrow> init_answers \<Rightarrow> mem \<Rightarrow> hresult \<times> source option \<times> mem \<times> source option" where
  "Source_CreateInstance nonnull memory a m =
     (if \<not> nonnull then (E_POINTER, None, m, None)
      else if \<not> memory then (E_OUTOFMEMORY, None, m, None)
      else case Source_Initialize a new_source m of (hr, s1, m1) \<Rightarrow>
        (case (if succeeded hr then Source_QueryInterface (Some IID_IMFMediaSource) s1
               else (hr, None, s1)) of (hr2, _, s2) \<Rightarrow>
          (case snd (Source_Release s2) of
             Some s3 \<Rightarrow> (hr2, Some s3, m1, None)
           | None \<Rightarrow> (case Source_Shutdown s2 m1 of (_, s3, m2) \<Rightarrow> (hr2, None, m2, Some s3)))))"

subsection \<open>Capture thread\<close>

record capture_local =
  frameBuffer :: mem
  timestamp :: int

record capture_answers =
  k_os :: os_answers
  k_event :: wait_result
  k_mutex :: wait_result
  k_sample :: hresult
  k_buffer :: hresult
  k_lock :: hresult
  k_add :: hresult
  k_queue :: hresult

definition frameSize :: "source \<Rightarrow> nat" where
  "frameSize s = unat (of_nat (m_width s) * of_nat (m_height s) * 3 :: u32)"

definition frameDuration :: "source \<Rightarrow> int" where
  "frameDuration s = 10000000 div int (m_frameRate s)"

text \<open>One pass of the loop of \<open>CaptureThreadProc\<close>; every early return is a \<open>continue\<close>.\<close>

definition capture_iteration ::
  "capture_answers \<Rightarrow> capture_local \<Rightarrow> source \<Rightarrow> mem \<Rightarrow> capture_local \<times> source \<times> mem \<times> mf_event list" where
  "capture_iteration a l s m =
    (case (if IsConnected (m_sharedMemClient s) then (True, m_sharedMemClient s, m, [])
           else Client_Connect (k_os a) (m_sharedMemClient s) m) of (ok, c, m1, _) \<Rightarrow>
      let s1 = s\<lparr>m_sharedMemClient := c\<rparr> in
      if \<not> ok then (l, s1, m1, [])
      else if \<not> fst (Client_WaitForFrame (k_event a) c) then (l, s1, m1, [])
      else case Client_ReadFrame (k_mutex a) (Some (frameBuffer l)) (of_nat (frameSize s)) True True c m1
        of (r, c2, _) \<Rightarrow>
          let s2 = s1\<lparr>m_sharedMemClient := c2\<rparr> in
          if \<not> rr_ok r then (l, s2, m1, [])
          else let l1 = l\<lparr>frameBuffer := the (rr_dest r)\<rparr> in
          if failed (k_sample a) then (l1, s2, m1, [])
          else if failed (k_buffer a) then (l1, s2, m1, [])
          else if failed (k_add a) then (l1, s2, m1, [])
          else
            let smp = \<lparr>s_data = (if succeeded (k_lock a)
                                 then Some (memcpy (\<lambda>_. 0) 0 (frameBuffer l1) 0 (frameSize s)) else None),
                       s_length = (if succeeded (k_lock a) then frameSize s else 0),
                       s_time = timestamp l1, s_duration = frameDuration s\<rparr>;
                l2 = l1\<lparr>timestamp := timestamp l1 + frameDuration s\<rparr>
            in case on_stream (\<lambda>x. (x, snd (Stream_DeliverSample (k_queue a) smp x))) s2 of (s3, evs) \<Rightarrow>
                 (l2, s3, m1, evs))"

section \<open>Runs\<close>

text \<open>
  The source as its clients, its capture thread and the other processes move it. A started
  thread begins with a fresh buffer and time stamp zero; other processes may change the
  section at any time.
\<close>

record running =
  src :: source
  loc :: capture_local
  shmem :: mem

definition fresh_local :: "capture_local \<Rightarrow> bool" where
  "fresh_local l \<longleftrightarrow> timestamp l = 0"

inductive source_step :: "running \<Rightarrow> mf_event list \<Rightarrow> running \<Rightarrow> bool" where
  start: "Source_Start tf os q (src r) (shmem r) = (hr, s, m, evs) \<Longrightarrow> fresh_local l \<Longrightarrow>
     source_step r evs \<lparr>src = s, loc = (if m_captureThreadRunning (src r) then loc r else l),
                        shmem = m\<rparr>"
| stop: "Source_Stop q (src r) (shmem r) = (hr, s, m, evs) \<Longrightarrow>
     source_step r evs (r\<lparr>src := s, shmem := m\<rparr>)"
| pause: "Source_Pause q (src r) = (hr, s, evs) \<Longrightarrow> source_step r evs (r\<lparr>src := s\<rparr>)"
| shutdown: "Source_Shutdown (src r) (shmem r) = (hr, s, m) \<Longrightarrow>
     source_step r [] (r\<lparr>src := s, shmem := m\<rparr>)"
| capture: "m_captureThreadRunning (src r) \<Longrightarrow>
     capture_iteration a (loc r) (src r) (shmem r) = (l, s, m, evs) \<Longrightarrow>
     source_step r evs \<lparr>src = s, loc = l, shmem = m\<rparr>"
| others: "source_step r [] (r\<lparr>shmem := m\<rparr>)"

inductive source_reachable :: "running \<Rightarrow> bool" where
  created: "Source_Initialize a new_source m = (S_OK, s, m') \<Longrightarrow>
     source_reachable \<lparr>src = s, loc = l, shmem = m'\<rparr>"
| moved: "source_reachable r \<Longrightarrow> source_step r evs r' \<Longrightarrow> source_reachable r'"

definition source_inv :: "source \<Rightarrow> bool" where
  "source_inv s \<longleftrightarrow> m_state s \<noteq> Invalid
     \<and> (m_captureThreadRunning s \<longleftrightarrow> m_state s = Started \<or> m_state s = Paused)
     \<and> (captureThread s \<longleftrightarrow> m_captureThreadRunning s)
     \<and> (\<exists>x. stream_object s = Some x
          \<and> (if m_state s = Shutdown
             then \<not> m_stream s \<and> m_isShutdown x \<and> \<not> m_isActive x \<and> st_refCount x = 1
                  \<and> \<not> IsConnected (m_sharedMemClient s)
             else m_stream s \<and> \<not> m_isShutdown x \<and> (m_isActive x \<longleftrightarrow> m_state s = Started)
                  \<and> st_refCount x = 2))"

lemma Initialize_inv:
  "Source_Initialize a new_source m = (S_OK, s, m') \<Longrightarrow> source_inv s \<and> m_state s = Stopped"
  by (auto simp: Source_Initialize_def CreateStream_def CreatePresentationDescriptorInternal_def
      Let_def new_source_def new_stream_def Stream_AddRef_def source_inv_def
      split: if_splits prod.splits option.splits)

lemma Disconnect_down: "Client_Disconnect c m = (c', m', calls) \<Longrightarrow> \<not> IsConnected c'"
  by (rule client_handles.release_down)

lemma on_stream_present:
  "stream_object s = Some x \<Longrightarrow> m_stream s \<Longrightarrow>
     on_stream f s = (s\<lparr>stream_object := Some (fst (f x))\<rparr>, snd (f x))"
  by (simp add: on_stream_def split: prod.splits)

lemmas transport_defs =
  StartCaptureThread_def StopCaptureThread_def disconnect_client_def on_stream_def reset_stream_def
  Stream_Start_def Stream_Stop_def Stream_Pause_def Stream_Shutdown_def Stream_Release_def Let_def

lemma Source_Start_inv [inv_intros]:
  "source_inv s \<Longrightarrow> Source_Start tf os q s m = (hr, s', m', evs) \<Longrightarrow> source_inv s'"
  by (auto simp: Source_Start_def source_inv_def transport_defs split: if_splits prod.splits)

lemma Source_Stop_inv [inv_intros]:
  "source_inv s \<Longrightarrow> Source_Stop q s m = (hr, s', m', evs) \<Longrightarrow> source_inv s'"
  by (auto simp: Source_Stop_def source_inv_def transport_defs split: if_splits prod.splits)

lemma Source_Pause_inv [inv_intros]:
  "source_inv s \<Longrightarrow> Source_Pause q s = (hr, s', evs) \<Longrightarrow> source_inv s'"
  by (auto simp: Source_Pause_def source_inv_def transport_defs split: if_splits prod.splits)

lemma Source_Shutdown_inv [inv_intros]:
  "source_inv s \<Longrightarrow> Source_Shutdown s m = (hr, s', m') \<Longrightarrow> source_inv s' \<and> m_state s' = Shutdown"
  by (auto simp: Source_Shutdown_def source_inv_def transport_defs split: if_splits prod.splits
      dest: Disconnect_down)

text \<open>What one pass of the capture thread can do to the source and which events it queues.\<close>

lemma capture_iteration_frame [frame_simps]:
  assumes "capture_iteration a l s m = (l', s', m', evs)"
  shows "m_state s' = m_state s \<and> m_captureThreadRunning s' = m_captureThreadRunning s
     \<and> captureThread s' = captureThread s \<and> m_stream s' = m_stream s
     \<and> stream_object s' = stream_object s \<and> m_frameRate s' = m_frameRate s
     \<and> m_width s' = m_width s \<and> m_height s' = m_height s"
  using assms
  by (auto simp: capture_iteration_def on_stream_def Let_def split: if_splits prod.splits option.splits)

lemma capture_iteration_events:
  assumes "capture_iteration a l s m = (l', s', m', evs)"
  shows "(timestamp l' = timestamp l \<and> evs = []) \<or>
     (timestamp l' = timestamp l + frameDuration s \<and>
       (evs = [] \<or> (\<exists>smp x. evs = [MEMediaSample smp] \<and> s_time smp = timestamp l
          \<and> s_duration smp = frameDuration s \<and> stream_object s = Some x \<and> m_stream s
          \<and> m_isActive x \<and> \<not> m_isShutdown x)))"
  using assms
  by (auto simp: capture_iteration_def on_stream_def Let_def Stream_DeliverSample_def
      split: if_splits prod.splits option.splits)

lemma capture_iteration_inv [inv_intros]:
  "source_inv s \<Longrightarrow> m_captureThreadRunning s \<Longrightarrow> capture_iteration a l s m = (l', s', m', evs) \<Longrightarrow>
     source_inv s'"
  using capture_iteration_frame [of a l s m l' s' m' evs]
  by (auto simp: source_inv_def split: if_splits)

lemma source_step_inv: "source_step r evs r' \<Longrightarrow> source_inv (src r) \<Longrightarrow> source_inv (src r')"
  by (cases rule: source_step.cases) (auto intro: inv_intros dest: Source_Shutdown_inv)

lemma source_reachable_inv: "source_reachable r \<Longrightarrow> source_inv (src r)"
proof (induction rule: source_reachable.induct)
  case (created a m s m' l)
  then show ?case using Initialize_inv by auto
next
  case (moved r evs r')
  then show ?case by (blast intro: source_step_inv)
qed

section \<open>Properties\<close>

text \<open>C4: in every state a source can reach, by any interleaving of transport calls, capture
  passes and other processes' writes, the capture thread runs exactly while the source is
  started or paused, the stream is active exactly while it is started, and after shutdown
  the stream is shut down, the stream pointer is cleared and the shared memory is released.\<close>

theorem source_states_consistent:
  assumes "source_reachable r"
  shows "source_inv (src r)"
  using assms by (rule source_reachable_inv)

definition granted_init :: init_answers where
  "granted_init = \<lparr>a_queue = S_OK, a_attributes = S_OK, a_shared = S_OK, a_sourceType = S_OK,
     a_os = all_granted, a_mediaType = S_OK, a_setters = (\<lambda>_. S_OK), a_streamDescriptor = S_OK,
     a_presentationDescriptor = S_OK, a_select = S_OK\<rparr>"

lemma set_all_granted: "set_all kvs (\<lambda>_. S_OK) acc = (S_OK, acc ++ map_of (rev kvs))"
  by (induction kvs arbitrary: acc rule: list.induct) (auto simp: map_add_assoc [symmetric] split: prod.splits)

definition idle_source :: source where
  "idle_source = new_source\<lparr>m_state := Stopped, m_sharedMemClient := demo_client, m_stream := True,
     stream_object := Some \<lparr>st_refCount = 2, m_isActive = False, m_isShutdown = False\<rparr>,
     m_eventQueue := True, m_presentationDescriptor := True\<rparr>"

lemma granted_initialize:
  "Source_Initialize granted_init new_source demo_section
     = (S_OK, idle_source, interlocked_add 1 demo_section)"
  using demo_connect
  by (simp add: Source_Initialize_def granted_init_def new_source_def CreateStream_def idle_source_def
      set_all_granted CreatePresentationDescriptorInternal_def Stream_GetStreamDescriptor_def
      new_stream_def Stream_AddRef_def Let_def)

lemma demo_reachable:
  "source_reachable \<lparr>src = idle_source, loc = l, shmem = interlocked_add 1 demo_section\<rparr>"
  using granted_initialize by (rule source_reachable.created)

theorem source_states_consistent_witness:
  "source_inv idle_source"
  using source_states_consistent [OF demo_reachable] by simp

lemma transport_events:
  "Source_Start tf os q s m = (hr, s', m', evs) \<Longrightarrow> MEMediaSample smp \<notin> set evs"
  "Source_Stop q s m = (hr, s', m', evs) \<Longrightarrow> MEMediaSample smp \<notin> set evs"
  "Source_Pause q s = (hr, s', evs) \<Longrightarrow> MEMediaSample smp \<notin> set evs"
  by (auto simp: Source_Start_def Source_Stop_def Source_Pause_def transport_defs
      split: if_splits prod.splits option.splits)


text \<open>A started source, and answers that let every call succeed.\<close>

definition demo_source :: source where
  "demo_source = idle_source\<lparr>m_state := Started, m_captureThreadRunning := True, captureThread := True,
     stream_object := Some \<lparr>st_refCount = 2, m_isActive = True, m_isShutdown = False\<rparr>\<rparr>"

definition answered :: capture_answers where
  "answered = \<lparr>k_os = all_granted, k_event = WAIT_OBJECT_0, k_mutex = WAIT_OBJECT_0, k_sample = S_OK,
     k_buffer = S_OK, k_lock = S_OK, k_add = S_OK, k_queue = S_OK\<rparr>"

lemma demo_started:
  "source_reachable \<lparr>src = demo_source, loc = \<lparr>frameBuffer = b, timestamp = 0\<rparr>, shmem = m\<rparr>"
proof -
  let ?l = "\<lparr>frameBuffer = b, timestamp = 0\<rparr>"
  let ?r = "\<lparr>src = idle_source, loc = ?l, shmem = interlocked_add 1 demo_section\<rparr>"
  have "Source_Start No_format all_granted S_OK (src ?r) (shmem ?r)
      = (S_OK, demo_source, shmem ?r, [MEStreamStarted, MESourceStarted])"
    by (simp add: Source_Start_def idle_source_def demo_source_def new_source_def transport_defs
        demo_client_def IsConnected_def)
  from source_step.start [OF this, of ?l]
  have "source_reachable \<lparr>src = demo_source, loc = ?l, shmem = shmem ?r\<rparr>"
    using source_reachable.moved [OF demo_reachable] by (simp add: fresh_local_def idle_source_def new_source_def)
  from source_reachable.moved [OF this source_step.others, of m] show ?thesis by simp
qed

text \<open>A pass that reads a frame and whose calls all succeed.\<close>

lemma capture_delivers:
  assumes "Client_ReadFrame (k_mutex a) (Some (frameBuffer l)) (of_nat (frameSize s)) True True
        (m_sharedMemClient s) m = (r, c, calls)" and "rr_ok r"
    and "IsConnected (m_sharedMemClient s)" and "m_newFrameEvent (m_sharedMemClient s)"
    and "k_event a = WAIT_OBJECT_0" and "succeeded (k_sample a)" and "succeeded (k_buffer a)"
    and "succeeded (k_lock a)" and "succeeded (k_add a)"
    and "stream_object s = Some x" and "m_stream s" and "m_isActive x" and "\<not> m_isShutdown x"
  shows "capture_iteration a l s m =
    (\<lparr>frameBuffer = the (rr_dest r), timestamp = timestamp l + frameDuration s\<rparr>,
     s\<lparr>m_sharedMemClient := c\<rparr>, m,
     [MEMediaSample \<lparr>s_data = Some (memcpy (\<lambda>_. 0) 0 (the (rr_dest r)) 0 (frameSize s)),
        s_length = frameSize s, s_time = timestamp l, s_duration = frameDuration s\<rparr>])"
  using assms
  by (simp add: capture_iteration_def Client_WaitForFrame_def on_stream_def Stream_DeliverSample_def
      Let_def)


text \<open>Passes of the capture thread over the sections it sees.\<close>

fun capture_run ::
  "(capture_answers \<times> mem) list \<Rightarrow> capture_local \<Rightarrow> source \<Rightarrow> capture_local \<times> source \<times> mf_event list" where
  "capture_run [] l s = (l, s, [])"
| "capture_run ((a, m) # as) l s =
     (case capture_iteration a l s m of (l1, s1, _, evs) \<Rightarrow>
       (case capture_run as l1 s1 of (l2, s2, evs2) \<Rightarrow> (l2, s2, evs @ evs2)))"

fun sample_times :: "mf_event list \<Rightarrow> int list" where
  "sample_times [] = []"
| "sample_times (MEMediaSample smp # es) = s_time smp # sample_times es"
| "sample_times (_ # es) = sample_times es"

lemma sample_times_append: "sample_times (xs @ ys) = sample_times xs @ sample_times ys"
  by (induction xs rule: sample_times.induct) auto

lemma capture_run_times:
  assumes "capture_run as l s = (l', s', evs)" and "0 < frameDuration s"
  shows "sorted_wrt (<) (sample_times evs) \<and> timestamp l \<le> timestamp l'
     \<and> (\<forall>t \<in> set (sample_times evs). timestamp l \<le> t \<and> t < timestamp l'
          \<and> frameDuration s dvd t - timestamp l)
     \<and> frameDuration s dvd timestamp l' - timestamp l"
  using assms
proof (induction "as" arbitrary: l s evs)
  case Nil
  then show ?case by simp
next
  case (Cons am "as")
  obtain a m where am: "am = (a, m)" by (cases am)
  obtain l1 s1 m1 e1 where it: "capture_iteration a l s m = (l1, s1, m1, e1)"
    by (cases "capture_iteration a l s m") auto
  obtain e2 where e2: "capture_run as l1 s1 = (l', s', e2)" "evs = e1 @ e2"
    using Cons.prems(1) it am by (auto split: prod.splits)
  have d: "frameDuration s1 = frameDuration s"
    using capture_iteration_frame [OF it] by (simp add: frameDuration_def)
  let ?d = "frameDuration s"
  have IH: "sorted_wrt (<) (sample_times e2) \<and> timestamp l1 \<le> timestamp l'
     \<and> (\<forall>t \<in> set (sample_times e2). timestamp l1 \<le> t \<and> t < timestamp l' \<and> ?d dvd t - timestamp l1)
     \<and> ?d dvd timestamp l' - timestamp l1"
    using Cons.IH [OF e2(1)] Cons.prems(2) d by simp
  consider "timestamp l1 = timestamp l" "sample_times e1 = []"
    | "timestamp l1 = timestamp l + ?d" "sample_times e1 = []"
    | "timestamp l1 = timestamp l + ?d" "sample_times e1 = [timestamp l]"
    using capture_iteration_events [OF it] by auto
  moreover have shift: "?d dvd t - timestamp l" if "?d dvd t - (timestamp l + ?d)" for t
    using that by (metis add_diff_cancel_left' diff_diff_eq dvd_add_right_iff diff_add_cancel dvd_refl)
  ultimately show ?case
    using IH Cons.prems(2) by cases (fastforce simp: e2(2) sample_times_append)+
qed

text \<open>The times of the samples a capture thread delivers are strictly increasing multiples of
  the frame duration, 333333 units at 30 frames a second, whatever frames are missed.\<close>

theorem sample_times_increase:
  assumes "capture_run as \<lparr>frameBuffer = b, timestamp = 0\<rparr> s = (l', s', evs)" and "m_frameRate s = 30"
  shows "sorted_wrt (<) (sample_times evs) \<and> (\<forall>t \<in> set (sample_times evs). 0 \<le> t \<and> 333333 dvd t)"
  using capture_run_times [OF assms(1)] assms(2) by (auto simp: frameDuration_def)

theorem sample_times_increase_witness:
  "sorted_wrt (<) (sample_times (snd (snd (capture_run (replicate 3 (answered, set_hdr H_frameNumber 1 demo_section))
      \<lparr>frameBuffer = (\<lambda>_. 0), timestamp = 0\<rparr> demo_source))))"
  using sample_times_increase [of "replicate 3 (answered, set_hdr H_frameNumber 1 demo_section)" "\<lambda>_. 0"
      demo_source]
  by (cases "capture_run (replicate 3 (answered, set_hdr H_frameNumber 1 demo_section))
      \<lparr>frameBuffer = (\<lambda>_. 0), timestamp = 0\<rparr> demo_source")
    (simp add: demo_source_def idle_source_def new_source_def)

text \<open>Shutdown is final. In a source that is shut down every call is refused with
  \<open>MF_E_SHUTDOWN\<close> and changes nothing, a further \<open>Shutdown\<close> is a success without effect, and
  no step of the source ever leaves the state.\<close>

theorem shutdown_is_final:
  assumes "source_reachable r" and "m_state (src r) = Shutdown"
  shows "Source_Start tf os q (src r) m = (MF_E_SHUTDOWN, src r, m, [])
    \<and> Source_Stop q (src r) m = (MF_E_SHUTDOWN, src r, m, [])
    \<and> Source_Pause q (src r) = (MF_E_SHUTDOWN, src r, [])
    \<and> Source_Shutdown (src r) m = (S_OK, src r, m)
    \<and> Source_events q (src r) = MF_E_SHUTDOWN
    \<and> Source_GetCharacteristics True (src r) = MF_E_SHUTDOWN
    \<and> Source_CreatePresentationDescriptor True q (src r) = MF_E_SHUTDOWN
    \<and> Source_GetSourceAttributes True (src r) = MF_E_SHUTDOWN
    \<and> Source_GetStreamAttributes True 0 q q2 (src r) = MF_E_SHUTDOWN
    \<and> (source_step r evs r' \<longrightarrow> src r' = src r \<and> evs = [])"
proof -
  have "\<not> m_captureThreadRunning (src r)"
    using source_reachable_inv [OF assms(1)] assms(2) by (simp add: source_inv_def)
  then have "source_step r evs r' \<longrightarrow> src r' = src r \<and> evs = []"
    using assms(2)
    by (auto elim!: source_step.cases simp: Source_Start_def Source_Stop_def Source_Pause_def
        Source_Shutdown_def)
  then show ?thesis
    using assms(2)
    by (simp add: Source_Start_def Source_Stop_def Source_Pause_def Source_Shutdown_def Source_events_def
        Source_GetCharacteristics_def Source_CreatePresentationDescriptor_def
        Source_GetSourceAttributes_def Source_GetStreamAttributes_def)
qed

lemma demo_shut_down:
  "\<exists>s m'. Source_Shutdown demo_source m = (S_OK, s, m') \<and> m_state s = Shutdown
     \<and> source_reachable \<lparr>src = s, loc = \<lparr>frameBuffer = b, timestamp = 0\<rparr>, shmem = m'\<rparr>"
proof -
  obtain hr s m' where sd: "Source_Shutdown demo_source m = (hr, s, m')"
    by (cases "Source_Shutdown demo_source m") auto
  let ?r = "\<lparr>src = demo_source, loc = \<lparr>frameBuffer = b, timestamp = 0\<rparr>, shmem = m\<rparr>"
  have "source_reachable (?r\<lparr>src := s, shmem := m'\<rparr>)"
    using source_reachable.moved [OF demo_started source_step.shutdown [of ?r hr s m']] sd by simp
  moreover have "m_state s = Shutdown" "hr = S_OK"
    using sd by (auto simp: Source_Shutdown_def demo_source_def
        idle_source_def new_source_def split: prod.splits if_splits)
  ultimately show ?thesis using sd by auto
qed

theorem shutdown_is_final_witness:
  "\<exists>s. m_state s = Shutdown \<and> Source_Start No_format all_granted S_OK s demo_section
      = (MF_E_SHUTDOWN, s, demo_section, [])"
proof -
  obtain s m' where "m_state s = Shutdown"
    "source_reachable \<lparr>src = s, loc = \<lparr>frameBuffer = (\<lambda>_. 0), timestamp = 0\<rparr>, shmem = m'\<rparr>"
    using demo_shut_down by blast
  with shutdown_is_final [OF this(2), of No_format all_granted S_OK demo_section] show ?thesis by auto
qed

text \<open>The stream object is never deleted. It is created with one reference and the smart pointer
  adds one, but shutting the source down, from any reachable state, gives back only the
  pointer's: the object is left with one reference that nobody holds.\<close>

theorem stream_survives_shutdown:
  assumes "source_reachable r" and "Source_Shutdown (src r) (shmem r) = (hr, s, m)"
  shows "\<not> m_stream s \<and> (\<exists>x. stream_object s = Some x \<and> st_refCount x = 1 \<and> m_isShutdown x)"
  using Source_Shutdown_inv [OF source_reachable_inv [OF assms(1)] assms(2)]
  by (auto simp: source_inv_def)

theorem stream_survives_shutdown_witness:
  "\<exists>s m x. Source_Shutdown idle_source (interlocked_add 1 demo_section) = (S_OK, s, m)
     \<and> stream_object s = Some x \<and> st_refCount x = 1"
proof -
  obtain hr s m where sd: "Source_Shutdown idle_source (interlocked_add 1 demo_section) = (hr, s, m)"
    by (cases "Source_Shutdown idle_source (interlocked_add 1 demo_section)") auto
  moreover have "hr = S_OK"
    using sd by (auto simp: Source_Shutdown_def split: if_splits prod.splits)
  ultimately show ?thesis
    using stream_survives_shutdown [OF demo_reachable] by fastforce
qed

text \<open>The stream advertises what the shared memory holds: every attribute of the media type is
  set from the members, the stride is 1920 bytes, and the sample size is the frame size of the
  shared memory and of the capture thread's buffer; the first failing setter ends the
  creation with its code and no stream.\<close>

theorem stream_format_matches_section:
  "(succeeded (fst (CreateStream mt answer sd new_source)) \<longleftrightarrow>
      succeeded mt \<and> list_all (\<lambda>k. succeeded (answer k)) (map fst (stream_attributes new_source))
      \<and> succeeded sd)
   \<and> (snd (snd (CreateStream S_OK (\<lambda>_. S_OK) S_OK new_source)))
     = [MF_MT_MAJOR_TYPE \<mapsto> Video, MF_MT_SUBTYPE \<mapsto> RGB24, MF_MT_FRAME_SIZE \<mapsto> Pair PS3EYE_WIDTH PS3EYE_HEIGHT,
        MF_MT_FRAME_RATE \<mapsto> Pair PS3EYE_FPS 1, MF_MT_PIXEL_ASPECT_RATIO \<mapsto> Pair 1 1,
        MF_MT_INTERLACE_MODE \<mapsto> Progressive,
        MF_MT_DEFAULT_STRIDE \<mapsto> Num (hdr (init_header pid m0) H_stride),
        MF_MT_SAMPLE_SIZE \<mapsto> Num (hdr (init_header pid m0) H_dataSize),
        MF_MT_FIXED_SIZE_SAMPLES \<mapsto> Num 1, MF_MT_ALL_SAMPLES_INDEPENDENT \<mapsto> Num 1]
   \<and> frameSize new_source = PS3EYE_FRAME_SIZE"
proof -
  have ok: "succeeded (fst (set_all kvs answer acc)) \<longleftrightarrow> list_all (\<lambda>k. succeeded (answer k)) (map fst kvs)"
    for kvs acc
  proof (induction kvs arbitrary: acc)
    case Nil
    then show ?case by simp
  next
    case (Cons kv kvs)
    then show ?case by (cases kv) simp
  qed
  show ?thesis
    using ok [of "stream_attributes new_source" Map.empty]
    by (auto simp: CreateStream_def set_all_granted stream_attributes_def new_source_def Let_def
        ps3eye_consts init_header_def frameSize_def fun_eq_iff split: prod.splits)
qed

lemma CreateStream_fails:
  "CreateStream mt answer sd s = (hr, s', attrs) \<Longrightarrow> failed hr \<Longrightarrow> s' = s"
  by (auto simp: CreateStream_def split: if_splits prod.splits)

lemma CreateStream_keeps:
  "CreateStream mt answer sd s = (hr, s', attrs) \<Longrightarrow>
     src_refCount s' = src_refCount s \<and> m_state s' = m_state s \<and> m_sharedMemClient s' = m_sharedMemClient s"
  by (auto simp: CreateStream_def split: if_splits prod.splits)

lemma Descriptor_keeps:
  "CreatePresentationDescriptorInternal pd sel s = (hr, s') \<Longrightarrow>
     src_refCount s' = src_refCount s \<and> m_state s' = m_state s \<and> m_sharedMemClient s' = m_sharedMemClient s"
  by (auto simp: CreatePresentationDescriptorInternal_def Let_def split: if_splits option.splits)

lemma Initialize_outcome:
  assumes "header_ok m" and "Source_Initialize a new_source m = (hr, s, m1)"
  shows "src_refCount s = 1 \<and> (hr = S_OK \<or> failed hr) \<and> (failed hr \<longrightarrow> m_state s = Invalid)
    \<and> (if IsConnected (m_sharedMemClient s) then m1 = interlocked_add 1 m else m1 = m)"
proof -
  obtain ok c m2 calls where c: "Client_Connect (a_os a) new_client m = (ok, c, m2, calls)"
    by (cases "Client_Connect (a_os a) new_client m") auto
  have nc: "\<not> IsConnected new_client" by (simp add: new_client_def IsConnected_def)
  show ?thesis
    using assms(2) c Connect_cases [OF assms(1) nc c] nc
    by (auto simp: Source_Initialize_def Let_def new_source_def
        dest!: CreateStream_keeps Descriptor_keeps split: if_splits prod.splits)
qed

lemma CreateInstance_outcome:
  assumes "header_ok m"
  shows "case Source_CreateInstance nonnull memory a m of
      (hr, Some s, m', _) \<Rightarrow> hr = S_OK \<and> src_refCount s = 1 \<and> m_state s = Stopped \<and> source_inv s
    | (hr, None, m', dead) \<Rightarrow> failed hr \<and> hdr m' f = hdr m f
        \<and> (\<forall>s. dead = Some s \<longrightarrow> \<not> IsConnected (m_sharedMemClient s))"
proof -
  obtain hr s1 m1 where i: "Source_Initialize a new_source m = (hr, s1, m1)"
    by (cases "Source_Initialize a new_source m") auto
  note out = Initialize_outcome [OF assms i]
  show ?thesis
  proof (cases "succeeded hr")
    case True
    with out have "hr = S_OK" by auto
    with i have "source_inv s1 \<and> m_state s1 = Stopped" using Initialize_inv by blast
    then show ?thesis
      using i out True \<open>hr = S_OK\<close>
      by (auto simp: Source_CreateInstance_def Source_QueryInterface_def Source_AddRef_def
          Source_Release_def Let_def source_inv_def)
  next
    case False
    obtain hr2 s3 m2 where sd: "Source_Shutdown s1 m1 = (hr2, s3, m2)"
      by (cases "Source_Shutdown s1 m1") auto
    have "hdr m2 f = hdr m f \<and> \<not> IsConnected (m_sharedMemClient s3)"
      using sd out False
      by (auto simp: Source_Shutdown_def transport_defs Client_Disconnect_def IsConnected_def
          split: if_splits prod.splits option.splits)
    then show ?thesis
      using i out False sd by (auto simp: Source_CreateInstance_def Source_Release_def Let_def)
  qed
qed

text \<open>Creation either hands out one initialised source with one reference, or fails and leaves
  nothing behind: no object, and no shared-memory connection or client count.\<close>

theorem create_instance_all_or_nothing:
  assumes "header_ok m"
  shows "case Source_CreateInstance nonnull memory a m of
      (hr, Some s, m', _) \<Rightarrow> hr = S_OK \<and> src_refCount s = 1 \<and> m_state s = Stopped \<and> source_inv s
    | (hr, None, m', dead) \<Rightarrow> failed hr \<and> hdr m' f = hdr m f
        \<and> (\<forall>s. dead = Some s \<longrightarrow> \<not> IsConnected (m_sharedMemClient s))"
  using assms by (rule CreateInstance_outcome)

theorem create_instance_all_or_nothing_witness:
  "\<exists>m' d. Source_CreateInstance True True (granted_init\<lparr>a_select := E_FAIL\<rparr>) demo_section
      = (E_FAIL, None, m', d) \<and> hdr m' H_clientCount = 0"
proof -
  let ?a = "granted_init\<lparr>a_select := E_FAIL\<rparr>"
  have "fst (Source_Initialize ?a new_source demo_section) = E_FAIL
      \<and> src_refCount (fst (snd (Source_Initialize ?a new_source demo_section))) = 1"
    using demo_connect
    by (simp add: Source_Initialize_def granted_init_def new_source_def CreateStream_def
        set_all_granted CreatePresentationDescriptorInternal_def Stream_GetStreamDescriptor_def
        new_stream_def Stream_AddRef_def Let_def)
  then have "fst (Source_CreateInstance True True ?a demo_section) = E_FAIL
      \<and> fst (snd (Source_CreateInstance True True ?a demo_section)) = None"
    by (auto simp: Source_CreateInstance_def Source_Release_def Let_def split: prod.splits)
  then show ?thesis
    using create_instance_all_or_nothing [OF demo_section_ok(1), where f = H_clientCount and nonnull = True
        and memory = True and a = ?a]
    by (auto simp: demo_section_ok split: prod.splits)
qed

text \<open>Reference counting of the source: a client that starts with the one reference of a new
  source and adds, queries and releases in any order finds the object deleted exactly when it
  holds no reference, and until then the count is the number it holds.\<close>

theorem source_reference_counting:
  assumes "Suc (length ops) < 2 ^ 32"
    and "ref_run Source_AddRef Source_Release Source_QueryInterface ops (Some new_source, 1) = (y, n)"
  shows "(y = None \<longleftrightarrow> n = 0) \<and> (\<forall>s. y = Some s \<longrightarrow> unat (src_refCount s) = n)"
  using assms by (intro source_object.ref_run_from_new) (auto simp: new_source_def)

theorem source_reference_counting_witness:
  "fst (ref_run Source_AddRef Source_Release Source_QueryInterface
      [Query (Some IID_IMFMediaSource), Query (Some IID_IMFActivate), Rel, Rel] (Some new_source, 1)) = None"
  using source_reference_counting
    [of "[Query (Some IID_IMFMediaSource), Query (Some IID_IMFActivate), Rel, Rel]" _ 0]
  by (simp add: Source_QueryInterface_def Source_AddRef_def Source_Release_def new_source_def Let_def)

end
