(* ===== verification/DeviceSource.thy ===== *)
theory DeviceSource
  imports MediaSource
begin

text \<open>
  MediaFoundationSource/PS3EyeDeviceSource.cpp: the activation object that creates the media
  source on demand, and the class factory of the DLL. The attribute methods of the
  activation object hand every call to a Media Foundation attribute store, which is outside
  the repository and a parameter here. Registration is in another theory.
\<close>

section \<open>Activation object\<close>

record activate =
  act_refCount :: u32
  m_source :: "source option"   \<comment> \<open>the source the \<open>ComPtr\<close> points to\<close>

definition new_activate :: activate where
  "new_activate = \<lparr>act_refCount = 1, m_source = None\<rparr>"

definition Activate_AddRef :: "activate \<Rightarrow> u32 \<times> activate" where
  "Activate_AddRef x = (act_refCount x + 1, x\<lparr>act_refCount := act_refCount x + 1\<rparr>)"

text \<open>At zero the object is deleted; its destructor is \<open>Activate_ShutdownObject\<close>.\<close>

definition Activate_Release :: "activate \<Rightarrow> u32 \<times> activate option" where
  "Activate_Release x =
     (let count = act_refCount x - 1; x' = x\<lparr>act_refCount := count\<rparr>
      in (count, if count = 0 then None else Some x'))"

fun activate_iids :: "iid \<Rightarrow> bool" where
  "activate_iids IID_IUnknown = True"
| "activate_iids IID_IMFAttributes = True"
| "activate_iids IID_IMFActivate = True"
| "activate_iids _ = False"

definition Activate_QueryInterface :: "iid option \<Rightarrow> activate \<Rightarrow> hresult \<times> iid option \<times> activate" where
  "Activate_QueryInterface ppv x =
     (case ppv of
        None \<Rightarrow> (E_POINTER, None, x)
      | Some riid \<Rightarrow>
          if riid = IID_IUnknown then (S_OK, Some riid, snd (Activate_AddRef x))
          else if riid = IID_IMFAttributes then (S_OK, Some riid, snd (Activate_AddRef x))
          else if riid = IID_IMFActivate then (S_OK, Some riid, snd (Activate_AddRef x))
          else (E_NOINTERFACE, None, x))"

interpretation activate_object:
  com_object act_refCount Activate_AddRef Activate_Release Activate_QueryInterface activate_iids
proof unfold_locales
  fix i x
  show "activate_iids i \<Longrightarrow> Activate_QueryInterface (Some i) x = (S_OK, Some i, snd (Activate_AddRef x))"
    by (cases i) (auto simp: Activate_QueryInterface_def)
  show "\<not> activate_iids i \<Longrightarrow> Activate_QueryInterface (Some i) x = (E_NOINTERFACE, None, x)"
    by (cases i) (auto simp: Activate_QueryInterface_def)
qed (auto simp: Activate_AddRef_def Activate_Release_def Activate_QueryInterface_def Let_def)

text \<open>
  \<open>ActivateObject\<close>: \<open>memory\<close> and \<open>a\<close> are the answers \<open>PS3EyeMediaSource::CreateInstance\<close>
  gets if it is called. The out-pointer is \<open>None\<close> when it is null.
\<close>

definition Activate_ActivateObject ::
  "iid option \<Rightarrow> bool \<Rightarrow> init_answers \<Rightarrow> activate \<Rightarrow> mem \<Rightarrow> hresult \<times> activate \<times> mem" where
  "Activate_ActivateObject ppv memory a x m =
     (if ppv = None then (E_POINTER, x, m)
      else case m_source x of
        Some s \<Rightarrow> (case Source_QueryInterface ppv s of (hr, _, s') \<Rightarrow> (hr, x\<lparr>m_source := Some s'\<rparr>, m))
      | None \<Rightarrow>
        (case Source_CreateInstance True memory a m of
           (hr, Some s, m1, _) \<Rightarrow>
             if failed hr then (hr, x, m1)
             else (case Source_QueryInterface ppv s of (hr2, _, s') \<Rightarrow> (hr2, x\<lparr>m_source := Some s'\<rparr>, m1))
         | (hr, None, m1, _) \<Rightarrow> (hr, x, m1)))"

text \<open>
  Releasing the pointer's reference: the object that stays alive for its other holders, or
  none; deleting it runs its destructor on the section.
\<close>

definition release_source :: "source \<Rightarrow> mem \<Rightarrow> source option \<times> mem" where
  "release_source s m =
     (case snd (Source_Release s) of
        Some s' \<Rightarrow> (Some s', m)
      | None \<Rightarrow> (None, snd (snd (Source_Shutdown s m))))"

definition Activate_ShutdownObject :: "activate \<Rightarrow> mem \<Rightarrow> hresult \<times> activate \<times> mem \<times> source option" where
  "Activate_ShutdownObject x m =
     (case m_source x of
        None \<Rightarrow> (S_OK, x, m, None)
      | Some s \<Rightarrow>
        (case Source_Shutdown s m of (_, s1, m1) \<Rightarrow>
          (case release_source s1 m1 of (left, m2) \<Rightarrow> (S_OK, x\<lparr>m_source := None\<rparr>, m2, left))))"

definition Activate_DetachObject :: "activate \<Rightarrow> mem \<Rightarrow> hresult \<times> activate \<times> mem \<times> source option" where
  "Activate_DetachObject x m =
     (case m_source x of
        None \<Rightarrow> (S_OK, x, m, None)
      | Some s \<Rightarrow> (case release_source s m of (left, m1) \<Rightarrow> (S_OK, x\<lparr>m_source := None\<rparr>, m1, left)))"

definition Activate_CreateInstance :: "bool \<Rightarrow> bool \<Rightarrow> hresult \<times> activate option" where
  "Activate_CreateInstance nonnull memory =
     (if \<not> nonnull then (E_POINTER, None)
      else if \<not> memory then (E_OUTOFMEMORY, None)
      else (S_OK, Some new_activate))"

section \<open>Attributes\<close>

text \<open>
  The methods of \<open>IMFAttributes\<close> with their arguments; \<open>'k\<close> are the keys and \<open>'v\<close> the values. The store is a
  state of type \<open>'st\<close> that answers a call with a result of type \<open>'r\<close>.
\<close>

datatype ('k, 'v) attribute_call =
    GetItem 'k | GetItemType 'k | CompareItem 'k 'v | Compare nat nat
  | GetUINT32 'k | GetUINT64 'k | GetDouble 'k | GetGUID 'k
  | GetStringLength 'k | GetString 'k u32 | GetAllocatedString 'k
  | GetBlobSize 'k | GetBlob 'k u32 | GetAllocatedBlob 'k | GetUnknown 'k iid
  | SetItem 'k 'v | DeleteItem 'k | DeleteAllItems
  | SetUINT32 'k u32 | SetUINT64 'k u64 | SetDouble 'k 'v | SetGUID 'k 'k | SetString 'k string | SetBlob 'k "u8 list" | SetUnknown 'k nat
  | LockStore | UnlockStore | GetCount | GetItemByIndex u32 | CopyAllItems nat

datatype device_key =
    MF_DEVSOURCE_ATTRIBUTE_FRIENDLY_NAME | MF_DEVSOURCE_ATTRIBUTE_SOURCE_TYPE
  | MF_DEVSOURCE_ATTRIBUTE_SOURCE_TYPE_VIDCAP_GUID | MF_DEVSOURCE_ATTRIBUTE_SOURCE_TYPE_VIDCAP_SYMBOLIC_LINK | Other_key nat

text \<open>A method of the activation object: the same call to its store. Without one it follows a null pointer.\<close>

definition Activate_attribute_call ::
  "((device_key, 'v) attribute_call \<Rightarrow> 'st \<Rightarrow> 'r \<times> 'st) \<Rightarrow> (device_key, 'v) attribute_call \<Rightarrow> 'st option \<Rightarrow> ('r \<times> 'st) option" where
  "Activate_attribute_call call k m_attributes = (case m_attributes of None \<Rightarrow> None | Some st \<Rightarrow> Some (call k st))"

text \<open>The constructor fills the store that \<open>MFCreateAttributes\<close> makes, and does not look whether it has made one.\<close>

definition construct_attributes ::
  "((device_key, 'v) attribute_call \<Rightarrow> 'st \<Rightarrow> 'r \<times> 'st) \<Rightarrow> 'st option \<Rightarrow> 'st option" where
  "construct_attributes call created =
     (case created of
        None \<Rightarrow> None
      | Some st0 \<Rightarrow>
          (let (_, st1) = call (SetString MF_DEVSOURCE_ATTRIBUTE_FRIENDLY_NAME ''PS3 Eye Camera (Shared)'') st0;
               (_, st2) = call (SetGUID MF_DEVSOURCE_ATTRIBUTE_SOURCE_TYPE MF_DEVSOURCE_ATTRIBUTE_SOURCE_TYPE_VIDCAP_GUID) st1;
               (_, st3) = call (SetString MF_DEVSOURCE_ATTRIBUTE_SOURCE_TYPE_VIDCAP_SYMBOLIC_LINK ([CHR 0x5C, CHR 0x5C, CHR 0x3F, CHR 0x5C] @ ''USB#VID_1415&PID_2000#PS3EYE_MF'')) st2
           in Some st3))"

section \<open>Class factory\<close>

definition Factory_QueryInterface :: "iid option \<Rightarrow> hresult \<times> iid option" where
  "Factory_QueryInterface ppv =
     (case ppv of
        None \<Rightarrow> (E_POINTER, None)
      | Some riid \<Rightarrow> if riid = IID_IUnknown \<or> riid = IID_IClassFactory then (S_OK, Some riid)
                     else (E_NOINTERFACE, None))"

text \<open>The local \<open>ComPtr\<close> gives its reference back when \<open>CreateInstance\<close> returns.\<close>

definition Factory_CreateInstance :: "bool \<Rightarrow> bool \<Rightarrow> iid option \<Rightarrow> hresult \<times> activate option" where
  "Factory_CreateInstance outer memory ppv =
     (if outer then (CLASS_E_NOAGGREGATION, None)
      else case Activate_CreateInstance True memory of
        (hr, None) \<Rightarrow> (hr, None)
      | (hr, Some x) \<Rightarrow>
        (case Activate_QueryInterface ppv x of (hr2, _, x') \<Rightarrow> (hr2, snd (Activate_Release x'))))"

definition DllGetClassObject :: "clsid \<Rightarrow> iid option \<Rightarrow> hresult \<times> iid option" where
  "DllGetClassObject rclsid ppv =
     (if rclsid = CLSID_PS3EyeMediaSource then Factory_QueryInterface ppv
      else (CLASS_E_CLASSNOTAVAILABLE, None))"

section \<open>Properties\<close>

lemma query_source:
  "Source_QueryInterface (Some k) t
     = (if source_iids k then (S_OK, Some k, t\<lparr>src_refCount := src_refCount t + 1\<rparr>)
        else (E_NOINTERFACE, None, t))"
  using source_object.qi_supported [of k t] source_object.qi_other [of k t]
  by (simp add: Source_AddRef_def)

lemma source_inv_refCount [simp]: "source_inv (s\<lparr>src_refCount := n\<rparr>) = source_inv s"
  by (simp add: source_inv_def)

lemma release_source_eq:
  "release_source s m = (if src_refCount s = 1 then (None, snd (snd (Source_Shutdown s m)))
     else (Some (s\<lparr>src_refCount := src_refCount s - 1\<rparr>), m))"
  by (simp add: release_source_def Source_Release_def Let_def)

lemma Shutdown_twice: "m_state s = Shutdown \<Longrightarrow> Source_Shutdown s m = (S_OK, s, m)"
  by (simp add: Source_Shutdown_def)

text \<open>Activation creates at most one source: the first activation makes it, and every further
  one until it is shut down or detached hands out a reference to the same object without
  touching the section.\<close>

theorem activation_reuses_source:
  assumes "header_ok m"
    and "Activate_ActivateObject (Some i) memory a new_activate m = (S_OK, x, m')"
    and "source_iids j"
  shows "\<exists>s s'. m_source x = Some s \<and> source_inv s \<and> m_state s = Stopped \<and> src_refCount s = 2
     \<and> Activate_ActivateObject (Some j) memory2 a2 x m' = (S_OK, x\<lparr>m_source := Some s'\<rparr>, m')
     \<and> s' = s\<lparr>src_refCount := 3\<rparr>"
  using assms(2,3) CreateInstance_outcome [OF assms(1), where nonnull = True and memory = memory and a = a]
  by (auto simp: Activate_ActivateObject_def new_activate_def query_source
      split: prod.splits option.splits if_splits)

lemma granted_create:
  "Source_CreateInstance True True granted_init demo_section
     = (S_OK, Some idle_source, interlocked_add 1 demo_section, None)"
proof -
  have "src_refCount idle_source = 1" by (simp add: idle_source_def new_source_def)
  then show ?thesis
    by (simp add: Source_CreateInstance_def granted_initialize query_source Source_Release_def Let_def)
qed

lemma granted_activation:
  "Activate_ActivateObject (Some IID_IMFMediaSource) True granted_init new_activate demo_section
     = (S_OK, new_activate\<lparr>m_source := Some (idle_source\<lparr>src_refCount := 2\<rparr>)\<rparr>, interlocked_add 1 demo_section)"
proof -
  have "src_refCount idle_source = 1" by (simp add: idle_source_def new_source_def)
  moreover have "m_source new_activate = None" by (simp add: new_activate_def)
  ultimately show ?thesis by (simp add: Activate_ActivateObject_def granted_create query_source)
qed

theorem activation_reuses_source_witness:
  "\<exists>s'. Activate_ActivateObject (Some IID_IMFGetService) True granted_init
      (new_activate\<lparr>m_source := Some (idle_source\<lparr>src_refCount := 2\<rparr>)\<rparr>) (interlocked_add 1 demo_section)
      = (S_OK, new_activate\<lparr>m_source := Some s'\<rparr>, interlocked_add 1 demo_section) \<and> src_refCount s' = 3"
  using activation_reuses_source [OF demo_section_ok(1) granted_activation, of IID_IMFGetService]
  by fastforce

text \<open>Shutting the activation object down shuts its source down and forgets it. When the client
  has released its own references the source is deleted; otherwise the client is left with a
  source that is shut down. Either way the shared memory counts one client less, and the
  next activation creates a new source.\<close>

theorem shutdown_object_releases_source:
  assumes "m_source x = Some s" and "source_inv s" and "IsConnected (m_sharedMemClient s)"
    and "src_refCount s \<noteq> 0" and "m_state s \<noteq> Shutdown"
    and "Activate_ShutdownObject x m = (hr, x', m', left)"
  shows "hr = S_OK \<and> m_source x' = None
    \<and> (of_nat (hdr m' H_clientCount) :: u32) = of_nat (hdr m H_clientCount) - 1
    \<and> (left = None \<longleftrightarrow> src_refCount s = 1)
    \<and> (\<forall>t. left = Some t \<longrightarrow> m_state t = Shutdown \<and> src_refCount t = src_refCount s - 1)"
proof -
  obtain hr1 s1 m1 where sd: "Source_Shutdown s m = (hr1, s1, m1)" by (cases "Source_Shutdown s m") auto
  have s1: "m_state s1 = Shutdown" using Source_Shutdown_inv [OF assms(2) sd] by simp
  have rc: "src_refCount s1 = src_refCount s \<and> m1 = interlocked_add (- 1) m"
    using sd assms(3,5)
    by (auto simp: Source_Shutdown_def transport_defs Client_Disconnect_def IsConnected_def
        split: if_splits prod.splits option.splits)
  have "(hr, x', m', left) = (S_OK, x\<lparr>m_source := None\<rparr>, m1,
      if src_refCount s = 1 then None else Some (s1\<lparr>src_refCount := src_refCount s - 1\<rparr>))"
    using assms(1,6) sd s1 rc
    by (simp add: Activate_ShutdownObject_def release_source_eq Shutdown_twice split: if_splits)
  then show ?thesis using s1 rc by (simp add: interlocked_add_def)
qed

theorem shutdown_object_releases_source_witness:
  "\<exists>x' m'. Activate_ShutdownObject (new_activate\<lparr>m_source := Some idle_source\<rparr>) (interlocked_add 1 demo_section)
      = (S_OK, x', m', None) \<and> m_source x' = None \<and> (of_nat (hdr m' H_clientCount) :: u32) = 0"
proof -
  obtain hr x' m' left where sd: "Activate_ShutdownObject (new_activate\<lparr>m_source := Some idle_source\<rparr>)
      (interlocked_add 1 demo_section) = (hr, x', m', left)"
    by (cases "Activate_ShutdownObject (new_activate\<lparr>m_source := Some idle_source\<rparr>)
      (interlocked_add 1 demo_section)") auto
  have inv: "source_inv idle_source" using source_reachable_inv [OF demo_reachable] by simp
  show ?thesis
    using sd shutdown_object_releases_source [OF _ inv _ _ _ sd]
    by (simp add: idle_source_def new_source_def demo_client_def IsConnected_def interlocked_add_def
        demo_section_ok)
qed

text \<open>The class factory hands out a new activation object with one reference exactly when the
  client asks for an interface it has; on every other path the object it made is deleted.\<close>

theorem factory_create_instance:
  "Factory_CreateInstance outer memory ppv =
    (case ppv of
       Some i \<Rightarrow> if \<not> outer \<and> memory \<and> activate_iids i then (S_OK, Some new_activate)
                else (if outer then CLASS_E_NOAGGREGATION else if \<not> memory then E_OUTOFMEMORY
                      else E_NOINTERFACE, None)
     | None \<Rightarrow> (if outer then CLASS_E_NOAGGREGATION else if \<not> memory then E_OUTOFMEMORY
               else E_POINTER, None))"
  using activate_object.qi_supported activate_object.qi_other
  by (auto simp: Factory_CreateInstance_def Activate_CreateInstance_def new_activate_def
      activate_object.qi_null Activate_AddRef_def Activate_Release_def Let_def split: option.splits)

end
