(* ===== verification/MediaType.thy ===== *)
theory MediaType
  imports Bytes "HOL-Library.Monad_Syntax"
begin

text \<open>
  The media type class of the DirectShow base classes (baseclasses/mtype.cpp, mtype.h): the
  struct AM_MEDIA_TYPE, whose format block lives on the task allocator's heap, and the
  operations that copy, assign, resize and free it.

  The heap maps an address to an allocated block; \<open>CoTaskMemAlloc\<close> belongs to the operating
  system, so its answer is an argument: refused, or granted with arbitrary contents. A read
  or a write outside a live block and a free of a dead one are faults, the value \<open>None\<close>.
  Debug assertions are not modelled; what they demand is a hypothesis where it is needed.
\<close>

section \<open>GUIDs\<close>

text \<open>
  A GUID is named as the SDK headers name it; \<open>FOURCCMap\<close> is the family of fourcc.h, and every
  other one is a number. The source only compares them for equality.
\<close>

datatype guid =
    GUID_NULL | MEDIATYPE_Video | MEDIATYPE_Audio | FORMAT_VideoInfo | FORMAT_WaveFormatEx
  | MEDIASUBTYPE_RGB1 | MEDIASUBTYPE_RGB4 | MEDIASUBTYPE_RGB8 | MEDIASUBTYPE_RGB555
  | MEDIASUBTYPE_RGB565 | MEDIASUBTYPE_RGB24 | MEDIASUBTYPE_RGB32 | MEDIASUBTYPE_ARGB32
  | MEDIASUBTYPE_Overlay
  | AMPROPSETID_Pin | PIN_CATEGORY_CAPTURE | FOURCCMap u32 | Other_guid nat

section \<open>The heap\<close>

type_synonym addr = nat

record am_media_type =
  majortype :: guid
  subtype :: guid
  bFixedSizeSamples :: bool
  bTemporalCompression :: bool
  lSampleSize :: u32
  formattype :: guid
  pUnk :: "nat option"
  cbFormat :: u32
  pbFormat :: "addr option"

text \<open>
  \<open>hblk\<close> holds the byte blocks with their sizes, \<open>hmt\<close> the structs allocated by
  \<open>CreateMediaType\<close>, \<open>hunk\<close> the reference counts of the objects a \<open>pUnk\<close> may point to.
\<close>

record heap =
  hblk :: "addr \<Rightarrow> (nat \<times> mem) option"
  hmt :: "addr \<Rightarrow> am_media_type option"
  hunk :: "nat \<Rightarrow> int"
  hnext :: addr

definition CoTaskMemAlloc :: "mem option \<Rightarrow> nat \<Rightarrow> heap \<Rightarrow> addr option \<times> heap" where
  "CoTaskMemAlloc answer n h =
    (case answer of
       None \<Rightarrow> (None, h)
     | Some contents \<Rightarrow>
         (Some (hnext h), h\<lparr>hblk := (hblk h)(hnext h \<mapsto> (n, contents)), hnext := Suc (hnext h)\<rparr>))"

definition CoTaskMemFree :: "addr option \<Rightarrow> heap \<Rightarrow> heap option" where
  "CoTaskMemFree p h =
    (case p of
       None \<Rightarrow> Some h
     | Some a \<Rightarrow>
        if hblk h a \<noteq> None then Some (h\<lparr>hblk := (hblk h)(a := None)\<rparr>)
        else if hmt h a \<noteq> None then Some (h\<lparr>hmt := (hmt h)(a := None)\<rparr>)
        else None)"

text \<open>\<open>CopyMemory\<close> between two blocks, from their starts.\<close>

definition CopyMemory :: "addr option \<Rightarrow> addr option \<Rightarrow> nat \<Rightarrow> heap \<Rightarrow> heap option" where
  "CopyMemory dst source n h =
    (case (Option.bind dst (hblk h), Option.bind source (hblk h)) of
       (Some (dn, db), Some (sn, sb)) \<Rightarrow>
         if n \<le> dn \<and> n \<le> sn
         then Some (h\<lparr>hblk := (hblk h)(the dst \<mapsto> (dn, memcpy db 0 sb 0 n))\<rparr>) else None
     | _ \<Rightarrow> None)"

text \<open>The first \<open>n\<close> bytes of a block, as \<open>memcmp\<close> sees them.\<close>

definition bytes :: "heap \<Rightarrow> addr option \<Rightarrow> nat \<Rightarrow> u8 list option" where
  "bytes h p n = do { a \<leftarrow> p; (sz, b) \<leftarrow> hblk h a; if n \<le> sz then Some (map b [0..<n]) else None }"

definition unk_add :: "nat option \<Rightarrow> int \<Rightarrow> heap \<Rightarrow> heap" where
  "unk_add u d h = (case u of None \<Rightarrow> h | Some i \<Rightarrow> h\<lparr>hunk := (hunk h)(i := hunk h i + d)\<rparr>)"

section \<open>Copy and free\<close>

definition InitMediaType :: am_media_type where
  "InitMediaType = \<lparr>majortype = GUID_NULL, subtype = GUID_NULL, bFixedSizeSamples = True,
     bTemporalCompression = False, lSampleSize = 1, formattype = GUID_NULL, pUnk = None,
     cbFormat = 0, pbFormat = None\<rparr>"

text \<open>\<open>*pmtTarget = *pmtSource\<close> copies every member, the pointers included.\<close>

definition CopyMediaType ::
  "mem option \<Rightarrow> am_media_type \<Rightarrow> heap \<Rightarrow> (hresult \<times> am_media_type \<times> heap) option" where
  "CopyMediaType answer pmtSource h =
    (if cbFormat pmtSource \<noteq> 0 then
       (case CoTaskMemAlloc answer (unat (cbFormat pmtSource)) h of
          (None, h1) \<Rightarrow> Some (E_OUTOFMEMORY, pmtSource\<lparr>pbFormat := None, cbFormat := 0\<rparr>, h1)
        | (p, h1) \<Rightarrow> do {
            h2 \<leftarrow> CopyMemory p (pbFormat pmtSource) (unat (cbFormat pmtSource)) h1;
            Some (S_OK, pmtSource\<lparr>pbFormat := p\<rparr>, unk_add (pUnk pmtSource) 1 h2) })
     else Some (S_OK, pmtSource, unk_add (pUnk pmtSource) 1 h))"

definition FreeMediaType :: "am_media_type \<Rightarrow> heap \<Rightarrow> (am_media_type \<times> heap) option" where
  "FreeMediaType mt h = do {
     (mt1, h1) \<leftarrow> (if cbFormat mt \<noteq> 0
                 then do { h1 \<leftarrow> CoTaskMemFree (pbFormat mt) h;
                           Some (mt\<lparr>cbFormat := 0, pbFormat := None\<rparr>, h1) }
                 else Some (mt, h));
     Some (mt1\<lparr>pUnk := None\<rparr>, unk_add (pUnk mt1) (- 1) h1) }"

definition CreateMediaType ::
  "mem option \<Rightarrow> mem option \<Rightarrow> am_media_type \<Rightarrow> heap \<Rightarrow> (addr option \<times> heap) option" where
  "CreateMediaType a_struct a_format pSrc h =
    (case a_struct of
       None \<Rightarrow> Some (None, h)
     | Some _ \<Rightarrow>
        (let p = hnext h; h1 = h\<lparr>hmt := (hmt h)(p \<mapsto> InitMediaType), hnext := Suc p\<rparr>
         in do {
           (hr, mt, h2) \<leftarrow> CopyMediaType a_format pSrc h1;
           if failed hr then do { h3 \<leftarrow> CoTaskMemFree (Some p) h2; Some (None, h3) }
           else Some (Some p, h2\<lparr>hmt := (hmt h2)(p \<mapsto> mt)\<rparr>) }))"

definition DeleteMediaType :: "addr option \<Rightarrow> heap \<Rightarrow> heap option" where
  "DeleteMediaType pmt h =
    (case pmt of
       None \<Rightarrow> Some h
     | Some p \<Rightarrow> do {
         mt \<leftarrow> hmt h p;
         (mt1, h1) \<leftarrow> FreeMediaType mt h;
         CoTaskMemFree (Some p) (h1\<lparr>hmt := (hmt h1)(p \<mapsto> mt1)\<rparr>) })"

section \<open>CMediaType\<close>

text \<open>The constructors store a result code only when the copy failed and the caller wants one.\<close>

definition new_copy ::
  "mem option \<Rightarrow> am_media_type \<Rightarrow> hresult option \<Rightarrow> heap
     \<Rightarrow> (hresult option \<times> am_media_type \<times> heap) option" where
  "new_copy answer rt phr h = do {
     (hr, mt, h1) \<leftarrow> CopyMediaType answer rt h;
     Some (if failed hr \<and> phr \<noteq> None then Some hr else phr, mt, h1) }"

text \<open>\<open>Set\<close>, with \<open>same\<close> when both are one object. The assignment operators drop its result.\<close>

definition Set ::
  "mem option \<Rightarrow> bool \<Rightarrow> am_media_type \<Rightarrow> am_media_type \<Rightarrow> heap
     \<Rightarrow> (hresult \<times> am_media_type \<times> heap) option" where
  "Set answer same mt rt h =
    (if \<not> same then do {
       (_, h1) \<leftarrow> FreeMediaType mt h;
       (hr, mt1, h2) \<leftarrow> CopyMediaType answer rt h1;
       if failed hr then Some (E_OUTOFMEMORY, mt1, h2) else Some (S_OK, mt1, h2) }
     else Some (S_OK, mt, h))"

definition assign ::
  "mem option \<Rightarrow> bool \<Rightarrow> am_media_type \<Rightarrow> am_media_type \<Rightarrow> heap \<Rightarrow> (am_media_type \<times> heap) option" where
  "assign answer same mt rt h = do { (_, mt1, h1) \<leftarrow> Set answer same mt rt h; Some (mt1, h1) }"

definition mt_eq :: "heap \<Rightarrow> am_media_type \<Rightarrow> am_media_type \<Rightarrow> bool option" where
  "mt_eq h mt rt =
    (if majortype mt = majortype rt \<and> subtype mt = subtype rt \<and> formattype mt = formattype rt
        \<and> cbFormat mt = cbFormat rt
     then (if cbFormat mt = 0 then Some True
           else if pbFormat mt \<noteq> None \<and> pbFormat rt \<noteq> None then do {
             xs \<leftarrow> bytes h (pbFormat mt) (unat (cbFormat mt));
             ys \<leftarrow> bytes h (pbFormat rt) (unat (cbFormat mt));
             Some (xs = ys) }
           else Some False)
     else Some False)"

definition IsValid :: "am_media_type \<Rightarrow> bool" where
  "IsValid mt \<longleftrightarrow> majortype mt \<noteq> GUID_NULL"

definition IsPartiallySpecified :: "am_media_type \<Rightarrow> bool" where
  "IsPartiallySpecified mt \<longleftrightarrow> majortype mt = GUID_NULL \<or> formattype mt = GUID_NULL"

definition MatchesPartial :: "heap \<Rightarrow> am_media_type \<Rightarrow> am_media_type \<Rightarrow> bool option" where
  "MatchesPartial h mt part =
    (if majortype part \<noteq> GUID_NULL \<and> majortype mt \<noteq> majortype part then Some False
     else if subtype part \<noteq> GUID_NULL \<and> subtype mt \<noteq> subtype part then Some False
     else if formattype part \<noteq> GUID_NULL then
       (if formattype mt \<noteq> formattype part then Some False
        else if cbFormat mt \<noteq> cbFormat part then Some False
        else if cbFormat mt \<noteq> 0 then do {
          xs \<leftarrow> bytes h (pbFormat mt) (unat (cbFormat mt));
          ys \<leftarrow> bytes h (pbFormat part) (unat (cbFormat mt));
          Some (xs = ys) }
        else Some True)
     else Some True)"

definition SetType :: "guid \<Rightarrow> am_media_type \<Rightarrow> am_media_type" where
  "SetType g mt = mt\<lparr>majortype := g\<rparr>"

definition SetSubtype :: "guid \<Rightarrow> am_media_type \<Rightarrow> am_media_type" where
  "SetSubtype g mt = mt\<lparr>subtype := g\<rparr>"

definition SetFormatType :: "guid \<Rightarrow> am_media_type \<Rightarrow> am_media_type" where
  "SetFormatType g mt = mt\<lparr>formattype := g\<rparr>"

definition SetTemporalCompression :: "bool \<Rightarrow> am_media_type \<Rightarrow> am_media_type" where
  "SetTemporalCompression b mt = mt\<lparr>bTemporalCompression := b\<rparr>"

definition SetVariableSize :: "am_media_type \<Rightarrow> am_media_type" where
  "SetVariableSize mt = mt\<lparr>bFixedSizeSamples := False\<rparr>"

definition SetSampleSize :: "u32 \<Rightarrow> am_media_type \<Rightarrow> am_media_type" where
  "SetSampleSize sz mt =
    (if sz = 0 then SetVariableSize mt else mt\<lparr>bFixedSizeSamples := True, lSampleSize := sz\<rparr>)"

definition GetSampleSize :: "am_media_type \<Rightarrow> u32" where
  "GetSampleSize mt = (if bFixedSizeSamples mt then lSampleSize mt else 0)"

definition ResetFormatBuffer :: "am_media_type \<Rightarrow> heap \<Rightarrow> (am_media_type \<times> heap) option" where
  "ResetFormatBuffer mt h = do {
     h1 \<leftarrow> (if cbFormat mt \<noteq> 0 then CoTaskMemFree (pbFormat mt) h else Some h);
     Some (mt\<lparr>cbFormat := 0, pbFormat := None\<rparr>, h1) }"

text \<open>The returned pointer is the first component.\<close>

definition AllocFormatBuffer ::
  "mem option \<Rightarrow> u32 \<Rightarrow> am_media_type \<Rightarrow> heap \<Rightarrow> (addr option \<times> am_media_type \<times> heap) option" where
  "AllocFormatBuffer answer len mt h =
    (if cbFormat mt = len then Some (pbFormat mt, mt, h)
     else case CoTaskMemAlloc answer (unat len) h of
       (None, h1) \<Rightarrow> Some (if len \<le> cbFormat mt then pbFormat mt else None, mt, h1)
     | (p, h1) \<Rightarrow> do {
         h2 \<leftarrow> (if cbFormat mt \<noteq> 0 then CoTaskMemFree (pbFormat mt) h1 else Some h1);
         Some (p, mt\<lparr>cbFormat := len, pbFormat := p\<rparr>, h2) })"

definition ReallocFormatBuffer ::
  "mem option \<Rightarrow> u32 \<Rightarrow> am_media_type \<Rightarrow> heap \<Rightarrow> (addr option \<times> am_media_type \<times> heap) option" where
  "ReallocFormatBuffer answer len mt h =
    (if cbFormat mt = len then Some (pbFormat mt, mt, h)
     else case CoTaskMemAlloc answer (unat len) h of
       (None, h1) \<Rightarrow> Some (if len \<le> cbFormat mt then pbFormat mt else None, mt, h1)
     | (p, h1) \<Rightarrow> do {
         h2 \<leftarrow> (if cbFormat mt \<noteq> 0
               then do { h2 \<leftarrow> CopyMemory p (pbFormat mt) (min (unat len) (unat (cbFormat mt))) h1;
                         CoTaskMemFree (pbFormat mt) h2 }
               else Some h1);
         Some (p, mt\<lparr>cbFormat := len, pbFormat := p\<rparr>, h2) })"

text \<open>The caller's bytes need not be on the heap.\<close>

definition write_block :: "addr option \<Rightarrow> mem \<Rightarrow> nat \<Rightarrow> heap \<Rightarrow> heap option" where
  "write_block dst source n h =
    (case Option.bind dst (hblk h) of
       Some (dn, db) \<Rightarrow>
         if n \<le> dn then Some (h\<lparr>hblk := (hblk h)(the dst \<mapsto> (dn, memcpy db 0 source 0 n))\<rparr>) else None
     | None \<Rightarrow> None)"

definition SetFormat ::
  "mem option \<Rightarrow> mem \<Rightarrow> u32 \<Rightarrow> am_media_type \<Rightarrow> heap \<Rightarrow> (bool \<times> am_media_type \<times> heap) option" where
  "SetFormat answer pformat cb mt h = do {
     (p, mt1, h1) \<leftarrow> AllocFormatBuffer answer cb mt h;
     if p = None then Some (False, mt1, h1)
     else do { h2 \<leftarrow> write_block (pbFormat mt1) pformat (unat cb) h1; Some (True, mt1, h2) } }"

section \<open>Ownership of the format block\<close>

text \<open>Addresses are handed out once, and a live address is one block or one struct.\<close>

definition heap_ok :: "heap \<Rightarrow> bool" where
  "heap_ok h \<longleftrightarrow> (\<forall>p \<ge> hnext h. hblk h p = None \<and> hmt h p = None)
     \<and> (\<forall>p. hblk h p = None \<or> hmt h p = None)"

text \<open>A media type whose format block is live and has the size it claims.\<close>

definition mt_ok :: "heap \<Rightarrow> am_media_type \<Rightarrow> bool" where
  "mt_ok h mt \<longleftrightarrow> cbFormat mt = 0 \<or>
     (\<exists>p b. pbFormat mt = Some p \<and> hblk h p = Some (unat (cbFormat mt), b))"

text \<open>
  A media type that owns its block in the heap \<open>h\<close>: besides the blocks of \<open>h0\<close>, which are
  other people's, the heap holds this block and nothing else.
\<close>

definition owned :: "heap \<Rightarrow> am_media_type \<Rightarrow> heap \<Rightarrow> bool" where
  "owned h0 mt h \<longleftrightarrow> heap_ok h \<and> hmt h = hmt h0 \<and>
     (if cbFormat mt = 0 then hblk h = hblk h0
      else \<exists>p b. pbFormat mt = Some p \<and> hblk h0 p = None \<and> hmt h0 p = None \<and>
             hblk h = (hblk h0)(p \<mapsto> (unat (cbFormat mt), b)))"

lemmas heap_defs = CoTaskMemAlloc_def CoTaskMemFree_def CopyMemory_def write_block_def unk_add_def

lemma unat_eq_0 [simp]: "unat (x :: u32) = 0 \<longleftrightarrow> x = 0"
  by (simp add: unat_eq_0)

lemma heap_ok_unk [simp]: "heap_ok (unk_add u d h) = heap_ok h"
  "hblk (unk_add u d h) = hblk h" "hmt (unk_add u d h) = hmt h"
  "hnext (unk_add u d h) = hnext h"
  by (auto simp: unk_add_def heap_ok_def split: option.splits)

lemma owned_unk [simp]: "owned h0 mt (unk_add u d h) = owned h0 mt h"
  by (simp add: owned_def)

lemma owned_pUnk [simp]: "owned h0 (mt\<lparr>pUnk := u\<rparr>) h = owned h0 mt h"
  by (simp add: owned_def)

lemma heap_fresh: "heap_ok h \<Longrightarrow> hblk h (hnext h) = None \<and> hmt h (hnext h) = None"
  by (simp add: heap_ok_def)

lemma heap_ok_free [intro]: "heap_ok h \<Longrightarrow> heap_ok (h\<lparr>hblk := (hblk h)(p := None)\<rparr>)"
  by (simp add: heap_ok_def)

lemma heap_ok_live: "heap_ok h \<Longrightarrow> hblk h p = Some y \<Longrightarrow> p < hnext h \<and> hmt h p = None"
  by (metis heap_ok_def not_less option.distinct(1))

lemma heap_ok_put [intro]:
  "heap_ok h \<Longrightarrow> hblk h p = Some y \<Longrightarrow> heap_ok (h\<lparr>hblk := (hblk h)(p \<mapsto> x)\<rparr>)"
  using heap_ok_live [of h p y] by (simp add: heap_ok_def)

lemma heap_ok_new [intro]:
  "heap_ok h \<Longrightarrow> heap_ok (h\<lparr>hblk := (hblk h)(hnext h \<mapsto> x), hnext := Suc (hnext h)\<rparr>)"
  by (auto simp: heap_ok_def)

lemma owned_init: "heap_ok h \<Longrightarrow> owned h InitMediaType h"
  by (simp add: owned_def InitMediaType_def)

lemma owned_mt_ok: "owned h0 mt h \<Longrightarrow> mt_ok h mt"
  by (auto simp: owned_def mt_ok_def split: if_splits)

lemma mt_ok_kept: "mt_ok h0 rt \<Longrightarrow> owned h0 mt h \<Longrightarrow> mt_ok h rt"
  by (fastforce simp: mt_ok_def owned_def split: if_splits)

lemma free_owned:
  assumes "owned h0 mt h" and "cbFormat mt \<noteq> 0"
  shows "\<exists>h1. CoTaskMemFree (pbFormat mt) h = Some h1 \<and> hblk h1 = hblk h0 \<and> hmt h1 = hmt h0
     \<and> heap_ok h1 \<and> hnext h1 = hnext h"
proof -
  obtain p b where pb: "heap_ok h" "hmt h = hmt h0" "pbFormat mt = Some p" "hblk h0 p = None"
    "hblk h = (hblk h0)(p \<mapsto> (unat (cbFormat mt), b))"
    using assms by (auto simp: owned_def)
  then have "(hblk h)(p := None) = hblk h0" by (simp add: fun_upd_idem)
  moreover have "heap_ok (h\<lparr>hblk := (hblk h)(p := None)\<rparr>)" using pb(1) by (rule heap_ok_free)
  ultimately show ?thesis using pb by (simp add: CoTaskMemFree_def)
qed

lemma FreeMediaType_owned:
  assumes "owned h0 mt h"
  shows "\<exists>mt1 h1. FreeMediaType mt h = Some (mt1, h1) \<and> hblk h1 = hblk h0 \<and> hmt h1 = hmt h0
     \<and> heap_ok h1 \<and> hnext h1 = hnext h \<and> cbFormat mt1 = 0"
proof (cases "cbFormat mt = 0")
  case True
  then show ?thesis using assms by (auto simp: FreeMediaType_def owned_def)
next
  case False
  then show ?thesis using free_owned [OF assms False] by (auto simp: FreeMediaType_def)
qed

text \<open>A new block on top of the others' heap.\<close>

lemma alloc_owned:
  assumes "heap_ok h" and "hblk h = hblk h0" and "hmt h = hmt h0" and "n = unat (cbFormat mt)"
    and "cbFormat mt \<noteq> 0" and "CoTaskMemAlloc (Some c) n h = (p, h1)"
  shows "owned h0 (mt\<lparr>pbFormat := p\<rparr>) h1 \<and> p = Some (hnext h) \<and> hblk h1 (hnext h) = Some (n, c)
     \<and> hunk h1 = hunk h"
  using assms heap_fresh [OF assms(1)] heap_ok_new [OF assms(1), of "(n, c)"]
  by (auto simp: owned_def CoTaskMemAlloc_def)

lemma put_owned:
  assumes "owned h0 mt h" and "cbFormat mt \<noteq> 0" and "pbFormat mt = Some p"
  shows "\<exists>b. hblk h p = Some (unat (cbFormat mt), b)"
    and "owned h0 mt (h\<lparr>hblk := (hblk h)(p \<mapsto> (unat (cbFormat mt), b'))\<rparr>)"
  using assms heap_ok_put [of h p "(unat (cbFormat mt), the (map_option snd (hblk h p)))"]
  by (auto simp: owned_def)

lemma CopyMediaType_owned:
  assumes "heap_ok h" and "mt_ok h rt" and "hblk h = hblk h0" and "hmt h = hmt h0"
  shows "\<exists>hr mt h1. CopyMediaType a rt h = Some (hr, mt, h1) \<and> owned h0 mt h1"
proof (cases "cbFormat rt = 0")
  case True
  then show ?thesis using assms by (simp add: CopyMediaType_def) (simp add: owned_def)
next
  case size: False
  show ?thesis
  proof (cases a)
    case None
    have "owned h0 (rt\<lparr>pbFormat := None, cbFormat := 0\<rparr>) h" using assms by (simp add: owned_def)
    then show ?thesis using None size by (simp add: CopyMediaType_def CoTaskMemAlloc_def)
  next
  case (Some c)
  then obtain q b where c: "a = Some c" "cbFormat rt \<noteq> 0" "pbFormat rt = Some q"
    "hblk h q = Some (unat (cbFormat rt), b)" using assms(2) size by (auto simp: mt_ok_def)
  obtain p h1 where al: "CoTaskMemAlloc (Some c) (unat (cbFormat rt)) h = (p, h1)"
    by (cases "CoTaskMemAlloc (Some c) (unat (cbFormat rt)) h") auto
  have o: "owned h0 (rt\<lparr>pbFormat := p\<rparr>) h1" "p = Some (hnext h)"
    "hblk h1 (hnext h) = Some (unat (cbFormat rt), c)"
    using alloc_owned [OF assms(1,3,4) refl c(2) al] by auto
  have "q \<noteq> hnext h" using heap_fresh [OF assms(1)] c(4) by auto
  then have "hblk h1 q = Some (unat (cbFormat rt), b)"
    using al c(4) by (auto simp: CoTaskMemAlloc_def)
  then show ?thesis
    using put_owned(2) [OF o(1), of "hnext h"] o(2,3) c al
    by (simp add: CopyMediaType_def CopyMemory_def)
  qed
qed

lemma Set_owned:
  assumes "owned h0 mt h" and "mt_ok h0 rt"
  shows "\<exists>hr mt1 h1. Set a same mt rt h = Some (hr, mt1, h1) \<and> owned h0 mt1 h1"
proof (cases same)
  case True
  then show ?thesis using assms(1) by (simp add: Set_def)
next
  case False
  obtain mt1 h1 where f: "FreeMediaType mt h = Some (mt1, h1)" "hblk h1 = hblk h0" "hmt h1 = hmt h0"
    "heap_ok h1" using FreeMediaType_owned [OF assms(1)] by blast
  moreover have "mt_ok h1 rt" using assms(2) f(2) by (simp add: mt_ok_def)
  ultimately obtain hr mt2 h2 where "CopyMediaType a rt h1 = Some (hr, mt2, h2)" "owned h0 mt2 h2"
    using CopyMediaType_owned by blast
  then show ?thesis using f(1) False by (simp add: Set_def)
qed

text \<open>
  A replacement block: allocated while the old one lives, which is then given back. Both ways of
  resizing do this; \<open>moved\<close> is what the old contents become in the new block.
\<close>

lemma replace_owned:
  assumes "owned h0 mt h" and "len \<noteq> 0"
    and "h2 = h1\<lparr>hblk := (hblk h1)(hnext h \<mapsto> (unat len, moved))\<rparr>"
    and "CoTaskMemAlloc (Some c) (unat len) h = (p, h1)"
  shows "\<exists>h3. (if cbFormat mt \<noteq> 0 then CoTaskMemFree (pbFormat mt) h2 else Some h2) = Some h3
     \<and> owned h0 (mt\<lparr>cbFormat := len, pbFormat := p\<rparr>) h3 \<and> p = Some (hnext h)
     \<and> hblk h3 (hnext h) = Some (unat len, moved)"
proof -
  have ok: "heap_ok h" using assms(1) by (simp add: owned_def)
  have h2: "h2 = h\<lparr>hblk := (hblk h)(hnext h \<mapsto> (unat len, moved)), hnext := Suc (hnext h)\<rparr>"
    "p = Some (hnext h)" using assms(3,4) by (auto simp: CoTaskMemAlloc_def)
  then have ok2: "heap_ok h2" using heap_ok_new [OF ok, of "(unat len, moved)"] by simp
  show ?thesis
  proof (cases "cbFormat mt = 0")
    case True
    then show ?thesis
      using assms(1,2) h2 ok2 heap_fresh [OF ok] by (auto simp: owned_def)
  next
    case False
    then obtain q b where q: "pbFormat mt = Some q" "hblk h0 q = None" "hmt h0 q = None"
      "hblk h = (hblk h0)(q \<mapsto> (unat (cbFormat mt), b))" "hmt h = hmt h0"
      using assms(1) by (auto simp: owned_def)
    then have ne: "q \<noteq> hnext h" using heap_fresh [OF ok] by auto
    let ?h3 = "h2\<lparr>hblk := (hblk h2)(q := None)\<rparr>"
    have "CoTaskMemFree (Some q) h2 = Some ?h3" using h2 q ne by (simp add: CoTaskMemFree_def)
    moreover have "heap_ok ?h3" using ok2 by (rule heap_ok_free)
    moreover have "hblk ?h3 = (hblk h0)(hnext h \<mapsto> (unat len, moved))"
      using h2 q ne by (auto simp: fun_eq_iff)
    ultimately show ?thesis
      using False q h2 ne assms(2) heap_fresh [OF ok] by (auto simp: owned_def)
  qed
qed

lemma AllocFormatBuffer_owned:
  assumes "owned h0 mt h" and "len \<noteq> 0"
  shows "\<exists>p mt1 h1. AllocFormatBuffer a len mt h = Some (p, mt1, h1) \<and> owned h0 mt1 h1
     \<and> (p = None \<or> p = pbFormat mt1 \<and> len \<le> cbFormat mt1)"
proof (cases "cbFormat mt = len \<or> a = None")
  case True
  then show ?thesis using assms by (auto simp: AllocFormatBuffer_def CoTaskMemAlloc_def)
next
  case False
  then obtain c where c: "a = Some c" by auto
  obtain p h1 where al: "CoTaskMemAlloc (Some c) (unat len) h = (p, h1)"
    by (cases "CoTaskMemAlloc (Some c) (unat len) h") auto
  have "h1 = h1\<lparr>hblk := (hblk h1)(hnext h \<mapsto> (unat len, c))\<rparr>"
    using al by (auto simp: CoTaskMemAlloc_def)
  from replace_owned [OF assms this al] show ?thesis
    using c al False by (auto simp: AllocFormatBuffer_def)
qed

lemma ReallocFormatBuffer_owned:
  assumes "owned h0 mt h" and "len \<noteq> 0"
  shows "\<exists>p mt1 h1. ReallocFormatBuffer a len mt h = Some (p, mt1, h1) \<and> owned h0 mt1 h1"
proof (cases "cbFormat mt = len \<or> a = None")
  case True
  then show ?thesis using assms by (auto simp: ReallocFormatBuffer_def CoTaskMemAlloc_def)
next
  case False
  then obtain c where c: "a = Some c" by auto
  obtain p h1 where al: "CoTaskMemAlloc (Some c) (unat len) h = (p, h1)"
    by (cases "CoTaskMemAlloc (Some c) (unat len) h") auto
  then have h1: "p = Some (hnext h)" "hblk h1 = (hblk h)(hnext h \<mapsto> (unat len, c))"
    by (auto simp: CoTaskMemAlloc_def)
  let ?k = "min (unat len) (unat (cbFormat mt))"
  show ?thesis
  proof (cases "cbFormat mt = 0")
    case True
    have "h1 = h1\<lparr>hblk := (hblk h1)(hnext h \<mapsto> (unat len, c))\<rparr>" using h1 by auto
    from replace_owned [OF assms this al] True show ?thesis
      using c al False by (auto simp: ReallocFormatBuffer_def)
  next
    case size: False
    then obtain q b where q: "pbFormat mt = Some q" "hblk h q = Some (unat (cbFormat mt), b)" "heap_ok h"
      using assms(1) by (auto simp: owned_def)
    then have "q \<noteq> hnext h" using heap_fresh [OF q(3)] by auto
    then have "CopyMemory p (pbFormat mt) ?k h1
        = Some (h1\<lparr>hblk := (hblk h1)(hnext h \<mapsto> (unat len, memcpy c 0 b 0 ?k))\<rparr>)"
      using h1 q by (simp add: CopyMemory_def)
    with replace_owned [OF assms refl al, of "memcpy c 0 b 0 ?k"] show ?thesis
      using c al False size by (auto simp: ReallocFormatBuffer_def)
  qed
qed

lemma SetFormat_owned:
  assumes "owned h0 mt h" and "cb \<noteq> 0"
  shows "\<exists>b mt1 h1. SetFormat a d cb mt h = Some (b, mt1, h1) \<and> owned h0 mt1 h1"
proof -
  obtain p mt1 h1 where al: "AllocFormatBuffer a cb mt h = Some (p, mt1, h1)" "owned h0 mt1 h1"
    "p = None \<or> p = pbFormat mt1 \<and> cb \<le> cbFormat mt1" using AllocFormatBuffer_owned [OF assms] by blast
  show ?thesis
  proof (cases p)
    case None
    then show ?thesis using al by (auto simp: SetFormat_def)
  next
    case (Some q)
    then have q: "pbFormat mt1 = Some q" "cb \<le> cbFormat mt1" using al(3) by auto
    then have nz: "cbFormat mt1 \<noteq> 0" using assms(2) by auto
    obtain b where "hblk h1 q = Some (unat (cbFormat mt1), b)"
      using put_owned(1) [OF al(2) nz q(1)] by blast
    then show ?thesis
      using put_owned(2) [OF al(2) nz q(1)] al(1) Some q(1) q(2)
      by (auto simp: SetFormat_def write_block_def word_le_nat_alt)
  qed
qed

lemma ResetFormatBuffer_owned:
  assumes "owned h0 mt h"
  shows "\<exists>mt1 h1. ResetFormatBuffer mt h = Some (mt1, h1) \<and> owned h0 mt1 h1"
proof (cases "cbFormat mt = 0")
  case True
  then show ?thesis using assms by (simp add: ResetFormatBuffer_def owned_def)
next
  case False
  obtain h1 where "CoTaskMemFree (pbFormat mt) h = Some h1" "hblk h1 = hblk h0" "hmt h1 = hmt h0"
    "heap_ok h1" using free_owned [OF assms False] by blast
  then show ?thesis using False by (simp add: ResetFormatBuffer_def) (simp add: owned_def)
qed

section \<open>A media type in use\<close>

text \<open>
  Everything a user of a \<open>CMediaType\<close> can do to it; the answers to the allocations and the
  other media types are arguments of the operations.
\<close>

datatype mt_op =
    Op_fields guid guid guid bool u32
  | Op_SetFormat "mem option" mem u32
  | Op_Alloc "mem option" u32
  | Op_Realloc "mem option" u32
  | Op_Reset
  | Op_Set "mem option" bool am_media_type

fun mt_step :: "mt_op \<Rightarrow> am_media_type \<times> heap \<Rightarrow> (am_media_type \<times> heap) option" where
  "mt_step (Op_fields t st ft tc sz) (mt, h) =
     Some (SetSampleSize sz (SetTemporalCompression tc
            (SetFormatType ft (SetSubtype st (SetType t mt)))), h)"
| "mt_step (Op_SetFormat a d cb) (mt, h) = do { (_, mt1, h1) \<leftarrow> SetFormat a d cb mt h; Some (mt1, h1) }"
| "mt_step (Op_Alloc a n) (mt, h) = do { (_, mt1, h1) \<leftarrow> AllocFormatBuffer a n mt h; Some (mt1, h1) }"
| "mt_step (Op_Realloc a n) (mt, h) = do { (_, mt1, h1) \<leftarrow> ReallocFormatBuffer a n mt h; Some (mt1, h1) }"
| "mt_step Op_Reset (mt, h) = ResetFormatBuffer mt h"
| "mt_step (Op_Set a same rt) (mt, h) = assign a same mt rt h"

text \<open>
  Proper use: sizes are not zero, as the assertions demand, and the media types assigned
  from are other live ones.
\<close>

fun mt_proper :: "heap \<Rightarrow> mt_op \<Rightarrow> bool" where
  "mt_proper h0 (Op_SetFormat a d cb) = (cb \<noteq> 0)"
| "mt_proper h0 (Op_Alloc a n) = (n \<noteq> 0)"
| "mt_proper h0 (Op_Realloc a n) = (n \<noteq> 0)"
| "mt_proper h0 (Op_Set a same rt) = mt_ok h0 rt"
| "mt_proper h0 _ = True"

lemma mt_step_total:
  assumes "mt_proper h0 op" and o: "owned h0 mt h"
  shows "\<exists>mt1 h1. mt_step op (mt, h) = Some (mt1, h1) \<and> owned h0 mt1 h1"
proof (cases op)
  case (Op_fields t st ft tc sz)
  then show ?thesis
    using o
    by (auto simp: SetSampleSize_def SetVariableSize_def SetTemporalCompression_def SetFormatType_def
        SetSubtype_def SetType_def owned_def)
next
  case (Op_SetFormat a d cb)
  then show ?thesis using assms(1) SetFormat_owned [OF o, of cb a d] by auto
next
  case (Op_Alloc a n)
  then show ?thesis using assms(1) AllocFormatBuffer_owned [OF o, of n a] by auto
next
  case (Op_Realloc a n)
  then show ?thesis using assms(1) ReallocFormatBuffer_owned [OF o, of n a] by auto
next
  case Op_Reset
  then show ?thesis using ResetFormatBuffer_owned [OF o] by simp
next
  case (Op_Set a same rt)
  then show ?thesis using assms(1) Set_owned [OF o, of rt a same] by (auto simp: assign_def)
qed

interpretation media_type: fault_free mt_step "mt_proper h0" "\<lambda>s. owned h0 (fst s) (snd s)" for h0
proof
  fix op and s :: "am_media_type \<times> heap"
  assume "mt_proper h0 op" and "owned h0 (fst s) (snd s)"
  then show "\<exists>s'. mt_step op s = Some s' \<and> owned h0 (fst s') (snd s')"
    using mt_step_total [of h0 op "fst s" "snd s"] by auto
qed

section \<open>Properties\<close>

text \<open>C16: A media type object frees exactly what it allocated: however it is filled, resized,
  assigned and reset, and whichever allocations are refused, no operation touches memory it
  does not own, and its destructor leaves the heap's blocks as they were before it was built.\<close>

theorem media_type_owns_its_format_block:
  assumes "heap_ok h" and "list_all (mt_proper h) ops"
  shows "\<exists>mt1 h1 mt2 h2. opt_run mt_step ops (InitMediaType, h) = Some (mt1, h1)
     \<and> mt_ok h1 mt1 \<and> FreeMediaType mt1 h1 = Some (mt2, h2) \<and> hblk h2 = hblk h \<and> hmt h2 = hmt h"
proof -
  obtain mt1 h1 where r: "opt_run mt_step ops (InitMediaType, h) = Some (mt1, h1)" "owned h mt1 h1"
    using media_type.run_total [of h ops "(InitMediaType, h)"] assms owned_init [OF assms(1)] by auto
  then show ?thesis using FreeMediaType_owned [OF r(2)] owned_mt_ok [OF r(2)] by blast
qed

definition empty_heap :: heap where
  "empty_heap = \<lparr>hblk = (\<lambda>_. None), hmt = (\<lambda>_. None), hunk = (\<lambda>_. 0), hnext = 0\<rparr>"

lemma heap_ok_empty: "heap_ok empty_heap"
  by (simp add: heap_ok_def empty_heap_def)

theorem media_type_owns_its_format_block_witness:
  "\<exists>mt1 h1. opt_run mt_step [Op_Alloc (Some (\<lambda>_. 0)) 88, Op_Realloc None 100, Op_SetFormat (Some (\<lambda>_. 0)) of_nat 4]
       (InitMediaType, empty_heap) = Some (mt1, h1) \<and> mt_ok h1 mt1"
  using media_type_owns_its_format_block [OF heap_ok_empty, of
      "[Op_Alloc (Some (\<lambda>_. 0)) 88, Op_Realloc None 100, Op_SetFormat (Some (\<lambda>_. 0)) of_nat 4]"]
  by fastforce

lemma CopyMediaType_success:
  assumes ok: "heap_ok h" and src: "mt_ok h rt" and "cbFormat rt \<noteq> 0"
  shows "\<exists>q b p h1. pbFormat rt = Some q \<and> hblk h q = Some (unat (cbFormat rt), b)
     \<and> hblk h p = None \<and> hmt h p = None \<and> q \<noteq> p
     \<and> CopyMediaType (Some c) rt h = Some (S_OK, rt\<lparr>pbFormat := Some p\<rparr>, unk_add (pUnk rt) 1 h1)
     \<and> hblk h1 = (hblk h)(p \<mapsto> (unat (cbFormat rt), memcpy c 0 b 0 (unat (cbFormat rt))))
     \<and> hmt h1 = hmt h \<and> hunk h1 = hunk h"
proof -
  obtain q b where q: "pbFormat rt = Some q" "hblk h q = Some (unat (cbFormat rt), b)"
    using src assms(3) by (auto simp: mt_ok_def)
  have "q \<noteq> hnext h" using heap_fresh [OF ok] q(2) by auto
  then show ?thesis
    using q assms(3) heap_fresh [OF ok]
    by (intro exI [of _ q] exI [of _ b] exI [of _ "hnext h"])
      (auto simp: CopyMediaType_def CoTaskMemAlloc_def CopyMemory_def)
qed

lemma bytes_block: "hblk h p = Some (n, b) \<Longrightarrow> k \<le> n \<Longrightarrow> bytes h (Some p) k = Some (map b [0..<k])"
  by (simp add: bytes_def)

lemma heap_ok_struct:
  "heap_ok h \<Longrightarrow> heap_ok (h\<lparr>hmt := (hmt h)(hnext h \<mapsto> m), hnext := Suc (hnext h)\<rparr>)"
  by (simp add: heap_ok_def)

lemma CreateMediaType_exact:
  assumes ok: "heap_ok h" and "mt_ok h mt" and "cbFormat mt \<noteq> 0"
  shows "\<exists>p r x h1. CreateMediaType (Some s) (Some c) mt h = Some (Some p, h1)
     \<and> hblk h p = None \<and> hmt h p = None \<and> hblk h r = None \<and> hmt h r = None \<and> p \<noteq> r
     \<and> hblk h1 = (hblk h)(r \<mapsto> x) \<and> hmt h1 = (hmt h)(p \<mapsto> mt\<lparr>pbFormat := Some r\<rparr>)"
proof -
  let ?p = "hnext h"
  let ?h = "h\<lparr>hmt := (hmt h)(?p \<mapsto> InitMediaType), hnext := Suc ?p\<rparr>"
  have "heap_ok ?h" using ok by (rule heap_ok_struct)
  moreover have "mt_ok ?h mt" using assms(2) by (simp add: mt_ok_def)
  ultimately obtain b r h1 where c: "hblk ?h r = None" "hmt ?h r = None"
    "CopyMediaType (Some c) mt ?h = Some (S_OK, mt\<lparr>pbFormat := Some r\<rparr>, unk_add (pUnk mt) 1 h1)"
    "hblk h1 = (hblk ?h)(r \<mapsto> (unat (cbFormat mt), memcpy c 0 b 0 (unat (cbFormat mt))))"
    "hmt h1 = hmt ?h"
    using CopyMediaType_success [of ?h mt c] assms(3) by blast
  have "r \<noteq> ?p" using c(2) by auto
  then show ?thesis
    using c heap_fresh [OF ok] by (auto simp: CreateMediaType_def Let_def)
qed

lemma DeleteMediaType_exact:
  assumes "hmt h p = Some mt" and "pbFormat mt = Some r" and "cbFormat mt \<noteq> 0"
    and "hblk h r = Some x" and "hblk h p = None"
  shows "\<exists>h2. DeleteMediaType (Some p) h = Some h2 \<and> hblk h2 = (hblk h)(r := None)
     \<and> hmt h2 = (hmt h)(p := None)"
  using assms by (auto simp: DeleteMediaType_def FreeMediaType_def CoTaskMemFree_def)

lemma assign_exact:
  assumes "owned h0 mt h" and "mt_ok h0 rt" and "cbFormat rt \<noteq> 0"
  shows "\<exists>p q b h2. assign (Some c) False mt rt h = Some (rt\<lparr>pbFormat := Some p\<rparr>, h2) \<and> hblk h0 p = None
     \<and> hmt h2 = hmt h0 \<and> pbFormat rt = Some q \<and> hblk h0 q = Some (unat (cbFormat rt), b)
     \<and> hblk h2 = (hblk h0)(p \<mapsto> (unat (cbFormat rt), memcpy c 0 b 0 (unat (cbFormat rt))))"
proof -
  obtain mt1 h1 where f: "FreeMediaType mt h = Some (mt1, h1)" "hblk h1 = hblk h0" "hmt h1 = hmt h0" "heap_ok h1"
    using FreeMediaType_owned [OF assms(1)] by blast
  have "mt_ok h1 rt" using assms(2) f(2) by (simp add: mt_ok_def)
  from CopyMediaType_success [OF f(4) this assms(3), of c] show ?thesis
    using f by (fastforce simp: assign_def Set_def)
qed

lemma owned_weaken:
  assumes "owned h0 mt h" and "hblk h p = None" and "hmt h1 = hmt h" and "hblk h1 = (hblk h)(p \<mapsto> x)"
    and "heap_ok h1"
  shows "owned (h0\<lparr>hblk := (hblk h0)(p \<mapsto> x)\<rparr>) mt h1"
proof (cases "cbFormat mt = 0")
  case True
  then show ?thesis using assms by (simp add: owned_def)
next
  case False
  then obtain r b where "pbFormat mt = Some r" "hblk h0 r = None" "hmt h0 r = None" "hmt h = hmt h0"
    "hblk h = (hblk h0)(r \<mapsto> (unat (cbFormat mt), b))"
    using assms(1) by (auto simp: owned_def)
  moreover from this have "p \<noteq> r" using assms(2) by auto
  ultimately show ?thesis using assms(3-5) False by (simp add: owned_def) (metis fun_upd_twist)
qed

lemma CopyMediaType_granted: "CopyMediaType (Some c) rt h = Some (hr, mt, h1) \<Longrightarrow> hr = S_OK"
  by (auto simp: CopyMediaType_def CoTaskMemAlloc_def split: if_splits Option.bind_splits)

text \<open>A copy is deep and equal. It has its own format block, the operator that compares
  media types finds it equal to the original, whose block is untouched, and freeing the copy
  restores the heap's blocks and every reference count.\<close>

theorem copy_is_equal_and_free_undoes_it:
  assumes "heap_ok h" and "mt_ok h rt"
  shows "\<exists>mt h1 mt2 h2. CopyMediaType (Some c) rt h = Some (S_OK, mt, h1)
     \<and> mt_eq h1 mt rt = Some True \<and> MatchesPartial h1 mt rt = Some True
     \<and> (cbFormat rt = 0 \<or> (pbFormat mt \<noteq> pbFormat rt
         \<and> bytes h1 (pbFormat rt) (unat (cbFormat rt)) = bytes h (pbFormat rt) (unat (cbFormat rt))))
     \<and> FreeMediaType mt h1 = Some (mt2, h2) \<and> hblk h2 = hblk h \<and> hunk h2 = hunk h"
proof (cases "cbFormat rt = 0")
  case True
  then show ?thesis
    by (simp add: CopyMediaType_def mt_eq_def MatchesPartial_def FreeMediaType_def unk_add_def
        fun_upd_idem split: option.splits)
next
  case False
  obtain q b p h1 where c: "pbFormat rt = Some q" "hblk h q = Some (unat (cbFormat rt), b)"
    "hblk h p = None" "q \<noteq> p"
    "CopyMediaType (Some c) rt h = Some (S_OK, rt\<lparr>pbFormat := Some p\<rparr>, unk_add (pUnk rt) 1 h1)"
    "hblk h1 = (hblk h)(p \<mapsto> (unat (cbFormat rt), memcpy c 0 b 0 (unat (cbFormat rt))))"
    "hmt h1 = hmt h" "hunk h1 = hunk h"
    using CopyMediaType_success [OF assms False, of c] by blast
  let ?n = "unat (cbFormat rt)" and ?h = "unk_add (pUnk rt) 1 h1"
  have same: "map (memcpy c 0 b 0 ?n) [0..<?n] = map b [0..<?n]"
    by (simp add: memcpy_def)
  have bs: "bytes ?h (Some q) ?n = Some (map b [0..<?n])" "bytes ?h (Some p) ?n = Some (map b [0..<?n])"
    "bytes h (Some q) ?n = Some (map b [0..<?n])"
    using c(2,4,6) same by (simp_all add: bytes_block)
  have "hblk h = (hblk h1)(p := None)" using c(3,6) by (auto simp: fun_eq_iff)
  then have "\<exists>mt2 h2. FreeMediaType (rt\<lparr>pbFormat := Some p\<rparr>) ?h = Some (mt2, h2)
      \<and> hblk h2 = hblk h \<and> hunk h2 = hunk h"
    using False c(6,8) by (cases "pUnk rt") (auto simp: FreeMediaType_def CoTaskMemFree_def unk_add_def)
  then show ?thesis
    using c(1,4,5) bs by (auto simp: mt_eq_def MatchesPartial_def)
qed

text \<open>A media type with a format block and an object, on a heap of its own.\<close>

definition demo_heap :: heap where
  "demo_heap = \<lparr>hblk = (\<lambda>p. if p = 0 then Some (88, of_nat) else None), hmt = (\<lambda>_. None),
     hunk = (\<lambda>_. 1), hnext = 1\<rparr>"

definition demo_mt :: am_media_type where
  "demo_mt = InitMediaType\<lparr>majortype := MEDIATYPE_Video, formattype := FORMAT_VideoInfo,
     cbFormat := 88, pbFormat := Some 0, pUnk := Some 5\<rparr>"

lemma demo_mt_ok: "heap_ok demo_heap" "mt_ok demo_heap demo_mt"
  by (simp_all add: heap_ok_def demo_heap_def mt_ok_def demo_mt_def)

theorem copy_is_equal_and_free_undoes_it_witness:
  "\<exists>mt h1 mt2 h2. CopyMediaType (Some (\<lambda>_. 0)) demo_mt demo_heap = Some (S_OK, mt, h1)
     \<and> mt_eq h1 mt demo_mt = Some True \<and> FreeMediaType mt h1 = Some (mt2, h2)
     \<and> hblk h2 = hblk demo_heap"
  using copy_is_equal_and_free_undoes_it [OF demo_mt_ok, of "\<lambda>_. 0"] by blast

text \<open>A copy that runs out of memory is not neutral: it reports \<open>E_OUTOFMEMORY\<close> and an empty
  format block, but it has copied the \<open>pUnk\<close> pointer without a reference, so the destructor of
  the failed copy takes away a reference that somebody else holds. Assignment goes the same
  way and reports nothing.\<close>

theorem failed_copy_steals_a_reference:
  assumes "cbFormat rt \<noteq> 0" and "pUnk rt = Some u"
  shows "\<exists>mt mt2 h2. CopyMediaType None rt h = Some (E_OUTOFMEMORY, mt, h) \<and> cbFormat mt = 0
     \<and> FreeMediaType mt h = Some (mt2, h2) \<and> hunk h2 u = hunk h u - 1
     \<and> assign None False InitMediaType rt h = Some (mt, h)"
  using assms
  by (simp add: CopyMediaType_def CoTaskMemAlloc_def FreeMediaType_def unk_add_def assign_def Set_def
      InitMediaType_def)

theorem failed_copy_steals_a_reference_witness:
  "\<exists>mt mt2 h2. CopyMediaType None demo_mt demo_heap = Some (E_OUTOFMEMORY, mt, demo_heap)
     \<and> FreeMediaType mt demo_heap = Some (mt2, h2) \<and> hunk demo_heap 5 = 1 \<and> hunk h2 5 = 0"
  using failed_copy_steals_a_reference [of demo_mt 5 demo_heap]
  by (force simp: demo_mt_def demo_heap_def)

end
