(* ===== verification/VideoFormat.thy ===== *)
theory VideoFormat
  imports MediaType
begin

text \<open>
  The video format block and the bitmap helpers of the base classes: the layout of
  VIDEOINFOHEADER with its embedded BITMAPINFOHEADER, the size and subtype functions of
  baseclasses/amvideo.cpp, the overflow checks of baseclasses/checkbmi.h. What the SDK headers
  define as macros (the byte size of a bitmap, the size of the prefix and of the bit masks)
  is not in the repository and is an argument.
\<close>

unbundle bit_operations_syntax

section \<open>Layout\<close>

datatype vih_field =
    rcSource | rcTarget | dwBitRate | dwBitErrorRate | V_AvgTimePerFrame
  | V_biSize | V_biWidth | V_biHeight | V_biPlanes | V_biBitCount | V_biCompression
  | V_biSizeImage | V_biXPelsPerMeter | V_biYPelsPerMeter | V_biClrUsed | V_biClrImportant

fun vih_off :: "vih_field \<Rightarrow> nat" where
  "vih_off rcSource = 0" | "vih_off rcTarget = 16" | "vih_off dwBitRate = 32"
| "vih_off dwBitErrorRate = 36" | "vih_off V_AvgTimePerFrame = 40" | "vih_off V_biSize = 48"
| "vih_off V_biWidth = 52" | "vih_off V_biHeight = 56" | "vih_off V_biPlanes = 60"
| "vih_off V_biBitCount = 62" | "vih_off V_biCompression = 64" | "vih_off V_biSizeImage = 68"
| "vih_off V_biXPelsPerMeter = 72" | "vih_off V_biYPelsPerMeter = 76" | "vih_off V_biClrUsed = 80"
| "vih_off V_biClrImportant = 84"

fun vih_wd :: "vih_field \<Rightarrow> nat" where
  "vih_wd rcSource = 16" | "vih_wd rcTarget = 16" | "vih_wd V_AvgTimePerFrame = 8"
| "vih_wd V_biPlanes = 2" | "vih_wd V_biBitCount = 2" | "vih_wd _ = 4"

definition sizeof_VIDEOINFOHEADER :: nat where "sizeof_VIDEOINFOHEADER = 88"
definition sizeof_BITMAPINFOHEADER :: nat where "sizeof_BITMAPINFOHEADER = 40"

interpretation vih: struct_layout vih_off vih_wd sizeof_VIDEOINFOHEADER
proof
  fix f g :: vih_field
  show "f \<noteq> g \<Longrightarrow> vih_off f + vih_wd f \<le> vih_off g \<or> vih_off g + vih_wd g \<le> vih_off f"
    by (cases f; cases g) simp_all
  show "vih_off f + vih_wd f \<le> sizeof_VIDEOINFOHEADER"
    by (cases f) (simp_all add: sizeof_VIDEOINFOHEADER_def)
qed

definition vget :: "mem \<Rightarrow> vih_field \<Rightarrow> nat" where "vget = field_get vih_off vih_wd"
definition vput :: "vih_field \<Rightarrow> nat \<Rightarrow> mem \<Rightarrow> mem" where "vput = field_put vih_off vih_wd"

lemma vget_vput [simp]: "vget (vput g v m) f = (if f = g then v mod 256 ^ vih_wd g else vget m f)"
  by (simp add: vget_def vput_def vih.get_put)

lemma vget_zero [simp]: "vget (ZeroMemory m 0 sizeof_VIDEOINFOHEADER) f = 0"
  by (simp add: vget_def vih.get_zero)

lemma vget_cong: "(\<And>i. i < sizeof_VIDEOINFOHEADER \<Longrightarrow> m i = m' i) \<Longrightarrow> vget m f = vget m' f"
  unfolding vget_def field_get_def by (rule le_get_cong) (use vih.inside [of f] in auto)

text \<open>Signed members, read at their width.\<close>

definition AvgTimePerFrame :: "mem \<Rightarrow> int" where
  "AvgTimePerFrame m = sint (of_nat (vget m V_AvgTimePerFrame) :: u64)"

record bitmapinfoheader =
  biSize :: u32
  biWidth :: u32
  biHeight :: u32
  biPlanes :: u16
  biBitCount :: u16
  biCompression :: u32
  biSizeImage :: u32
  biClrUsed :: u32

definition bmiHeader :: "mem \<Rightarrow> bitmapinfoheader" where
  "bmiHeader m = \<lparr>biSize = of_nat (vget m V_biSize), biWidth = of_nat (vget m V_biWidth),
     biHeight = of_nat (vget m V_biHeight), biPlanes = of_nat (vget m V_biPlanes),
     biBitCount = of_nat (vget m V_biBitCount), biCompression = of_nat (vget m V_biCompression),
     biSizeImage = of_nat (vget m V_biSizeImage), biClrUsed = of_nat (vget m V_biClrUsed)\<rparr>"

text \<open>The documented values of the SDK's compression constants.\<close>

abbreviation BI_RGB :: u32 where "BI_RGB \<equiv> 0"
abbreviation BI_BITFIELDS :: u32 where "BI_BITFIELDS \<equiv> 3"

section \<open>Format blocks on the heap\<close>

text \<open>A member of the format block: a fault when the block ends before it.\<close>

definition peek :: "heap \<Rightarrow> am_media_type \<Rightarrow> vih_field \<Rightarrow> nat option" where
  "peek h mt f = do {
     p \<leftarrow> pbFormat mt; (sz, b) \<leftarrow> hblk h p;
     if vih_off f + vih_wd f \<le> sz then Some (vget b f) else None }"

definition update_block :: "addr option \<Rightarrow> nat \<Rightarrow> (mem \<Rightarrow> mem) \<Rightarrow> heap \<Rightarrow> heap option" where
  "update_block p n f h = do {
     a \<leftarrow> p; (sz, b) \<leftarrow> hblk h a;
     if n \<le> sz then Some (h\<lparr>hblk := (hblk h)(a \<mapsto> (sz, f b))\<rparr>) else None }"

lemma peek_block: "pbFormat mt = Some p \<Longrightarrow> hblk h p = Some (sz, b) \<Longrightarrow> sizeof_VIDEOINFOHEADER \<le> sz \<Longrightarrow>
    peek h mt f = Some (vget b f)"
  using vih.inside [of f] by (auto simp: peek_def)

section \<open>Samples and their allocator\<close>

record allocator_properties =
  cBuffers :: int
  cbBuffer :: int
  cbAlign :: int
  cbPrefix :: int

text \<open>A sample of the allocator: its buffer, and what \<open>SetTime\<close> and \<open>SetSyncPoint\<close> store.\<close>

record media_sample =
  smp_data :: mem
  smp_size :: int
  smp_time :: "(u64 \<times> u64) option"
  smp_sync :: bool

section \<open>Subtypes and bit counts\<close>

definition bits555 :: "u32 list" where "bits555 = [0x007C00, 0x0003E0, 0x00001F]"
definition bits565 :: "u32 list" where "bits565 = [0x00F800, 0x0007E0, 0x00001F]"

text \<open>\<open>pMask\<close> is the array of colour masks that follows the header.\<close>

definition GetTrueColorType :: "(nat \<Rightarrow> u32) \<Rightarrow> bitmapinfoheader \<Rightarrow> guid" where
  "GetTrueColorType pMask b =
    (if biCompression b = BI_RGB then MEDIASUBTYPE_RGB555
     else if pMask 0 = bits555 ! 0 \<and> pMask 1 = bits555 ! 1 \<and> pMask 2 = bits555 ! 2 then MEDIASUBTYPE_RGB555
     else if pMask 0 = bits565 ! 0 \<and> pMask 1 = bits565 ! 1 \<and> pMask 2 = bits565 ! 2 then MEDIASUBTYPE_RGB565
     else GUID_NULL)"

definition GetBitmapSubtype :: "(nat \<Rightarrow> u32) \<Rightarrow> bitmapinfoheader \<Rightarrow> guid" where
  "GetBitmapSubtype pMask b =
    (if biCompression b \<noteq> BI_RGB \<and> biCompression b \<noteq> BI_BITFIELDS then FOURCCMap (biCompression b)
     else if biBitCount b = 1 then MEDIASUBTYPE_RGB1
     else if biBitCount b = 4 then MEDIASUBTYPE_RGB4
     else if biBitCount b = 8 then MEDIASUBTYPE_RGB8
     else if biBitCount b = 16 then GetTrueColorType pMask b
     else if biBitCount b = 24 then MEDIASUBTYPE_RGB24
     else if biBitCount b = 32 then MEDIASUBTYPE_RGB32
     else GUID_NULL)"

definition BitCountMap :: "(guid \<times> u16 \<times> string) list" where
  "BitCountMap =
    [(MEDIASUBTYPE_RGB1, 1, ''RGB Monochrome''), (MEDIASUBTYPE_RGB4, 4, ''RGB VGA''),
     (MEDIASUBTYPE_RGB8, 8, ''RGB 8''), (MEDIASUBTYPE_RGB565, 16, ''RGB 565 (16 bit)''),
     (MEDIASUBTYPE_RGB555, 16, ''RGB 555 (16 bit)''), (MEDIASUBTYPE_RGB24, 24, ''RGB 24''),
     (MEDIASUBTYPE_RGB32, 32, ''RGB 32''), (MEDIASUBTYPE_ARGB32, 32, ''ARGB 32''),
     (MEDIASUBTYPE_Overlay, 0, ''Overlay''), (GUID_NULL, 0, ''UNKNOWN'')]"

text \<open>
  The two scans differ in the order of their tests: \<open>GetBitCount\<close> looks for the terminator
  first. A scan that runs off the table would be \<open>None\<close>.
\<close>

fun bit_count_scan :: "guid \<Rightarrow> (guid \<times> u16 \<times> string) list \<Rightarrow> u16 option" where
  "bit_count_scan g [] = None"
| "bit_count_scan g ((sub, n, _) # rest) =
     (if sub = GUID_NULL then Some 0xFFFF else if sub = g then Some n else bit_count_scan g rest)"

definition GetBitCount :: "guid \<Rightarrow> u16 option" where
  "GetBitCount g = bit_count_scan g BitCountMap"

fun locate_scan :: "guid \<Rightarrow> nat \<Rightarrow> (guid \<times> u16 \<times> string) list \<Rightarrow> nat option" where
  "locate_scan g i [] = None"
| "locate_scan g i ((sub, _) # rest) = (if sub = g \<or> sub = GUID_NULL then Some i else locate_scan g (Suc i) rest)"

definition LocateSubtype :: "guid \<Rightarrow> nat option" where
  "LocateSubtype g = locate_scan g 0 BitCountMap"

definition GetSubtypeName :: "guid \<Rightarrow> string option" where
  "GetSubtypeName g = map_option (\<lambda>i. snd (snd (BitCountMap ! i))) (LocateSubtype g)"

text \<open>
  \<open>LONG\<close> arithmetic at 32 bits. \<open>preheader\<close> and \<open>masks\<close> are the SDK's SIZE_PREHEADER and
  SIZE_MASKS, \<open>palette_bits\<close> its iPALETTE.
\<close>

definition GetBitmapFormatSize :: "u32 \<Rightarrow> u32 \<Rightarrow> u16 \<Rightarrow> bitmapinfoheader \<Rightarrow> u32" where
  "GetBitmapFormatSize preheader masks palette_bits b =
    (let size0 = preheader + biSize b;
         size1 = (if biBitCount b \<le> palette_bits \<or> biClrUsed b \<noteq> 0
                  then size0 + (if biClrUsed b \<noteq> 0 then biClrUsed b
                                else push_bit (unat (biBitCount b)) 1) * 4
                  else size0)
     in if biCompression b = BI_BITFIELDS then size1 + masks else size1)"

definition ContainsPalette :: "u16 \<Rightarrow> bitmapinfoheader \<Rightarrow> bool" where
  "ContainsPalette palette_bits b =
    (if \<not> biBitCount b \<le> palette_bits then (if biClrUsed b = 0 then False else True) else True)"

section \<open>Overflow checks\<close>

definition MultiplyCheckOverflow :: "u32 \<Rightarrow> u32 \<Rightarrow> bool \<times> u32" where
  "MultiplyCheckOverflow a b =
    (let ab = a * b in (if a = 0 \<or> ab div a = b then (True, ab) else (False, ab)))"

text \<open>\<open>(DWORD)abs(x)\<close>: the least integer is its own absolute value.\<close>

definition dword_abs :: "u32 \<Rightarrow> u32" where
  "dword_abs x = (if sint x < 0 then - x else x)"

text \<open>The sum of the structure's parts is computed in \<open>size_t\<close>, 64 bits wide.\<close>

definition ValidateBitmapInfoHeader :: "bitmapinfoheader \<Rightarrow> u32 \<Rightarrow> bool" where
  "ValidateBitmapInfoHeader b cbSize =
    (if unat cbSize < sizeof_BITMAPINFOHEADER \<or> unat (biSize b) < sizeof_BITMAPINFOHEADER \<or> biSize b > 4096
     then False
     else if biWidth b = 0 \<or> biHeight b = 0 then False
     else
      let dwBpp = 200 :: u32 in
      if ucast (biBitCount b) > dwBpp then False
      else
       let dwHeight = dword_abs (biHeight b);
           (fits1, dwWidthInBits) = MultiplyCheckOverflow dwBpp (biWidth b) in
       if \<not> fits1 then False
       else
        let dwWidthInBytes = (dwWidthInBits div 8 + 3) AND NOT 3;
            (fits2, dwSizeImage) = MultiplyCheckOverflow dwWidthInBytes dwHeight in
        if \<not> fits2 then False
        else if dwSizeImage > 0x40000000 \<or> biSizeImage b > 0x40000000 then False
        else if biClrUsed b > 256 then False
        else
         let dwClrUsed = (if biClrUsed b = 0 \<and> biBitCount b \<le> 8 \<and> biBitCount b > 0
                          then push_bit (unat (biBitCount b)) 1 else biClrUsed b) in
         if (ucast cbSize :: u64) < ucast (biSize b) + ucast dwClrUsed * 4
              + (if biCompression b = BI_BITFIELDS then 3 * 4 else 0) then False
         else if (biCompression b = BI_RGB \<or> biCompression b = BI_BITFIELDS) \<and> biSizeImage b \<noteq> 0 then
          let dwBits = biWidth b * ucast (biBitCount b);
              widthInBytes = ((dwBits + 31) AND NOT 31) div 8;
              dwTotalSize = dword_abs (biHeight b) * widthInBytes
          in \<not> dwTotalSize > biSizeImage b
         else True)"

lemma MultiplyCheckOverflow_exact:
  "MultiplyCheckOverflow a b = (unat a * unat b < 2 ^ 32, a * b)"
proof (cases "a = 0")
  case True
  then show ?thesis by (simp add: MultiplyCheckOverflow_def)
next
  case False
  then have pos: "0 < unat a" by (simp add: unat_gt_0)
  have "unat (a * b div a) = unat (a * b) div unat a" by (rule unat_div_distrib)
  then have iff: "a * b div a = b \<longleftrightarrow> unat (a * b) div unat a = unat b" by (metis word_unat_eq_iff)
  have "unat (a * b) div unat a = unat b \<longleftrightarrow> unat a * unat b < 2 ^ 32"
  proof
    assume "unat a * unat b < 2 ^ 32"
    then have "unat (a * b) = unat a * unat b" by (simp add: unat_word_ariths)
    then show "unat (a * b) div unat a = unat b" using pos by simp
  next
    assume "unat (a * b) div unat a = unat b"
    then have "unat a * unat b \<le> unat (a * b)" by (metis div_times_less_eq_dividend mult.commute)
    then show "unat a * unat b < 2 ^ 32" using unsigned_less [of "a * b", where ?'a = nat] by simp
  qed
  then show ?thesis using False iff by (simp add: MultiplyCheckOverflow_def Let_def)
qed

lemma align_down: "(x :: 32 word) AND NOT (mask n) = push_bit n (drop_bit n x)"
    by (auto intro!: bit_word_eqI simp: bit_simps)

lemma align_4: "unat ((x :: 32 word) AND NOT 3) = unat x div 4 * 4"
proof -
  have "(x :: 32 word) AND NOT 3 = x div 4 * 4"
    using align_down [of x 2] by (simp add: mask_numeral push_bit_eq_mult drop_bit_eq_div)
  moreover have "unat x div 4 * 4 < 2 ^ 32" using unsigned_less [of x, where ?'a = nat] by simp
  ultimately show ?thesis by (simp add: unat_word_ariths unat_div_distrib)
qed

lemma align_32: "unat ((x :: 32 word) AND NOT 31) = unat x div 32 * 32"
proof -
  have "(x :: 32 word) AND NOT 31 = x div 32 * 32"
    using align_down [of x 5] by (simp add: mask_numeral push_bit_eq_mult drop_bit_eq_div)
  moreover have "unat x div 32 * 32 < 2 ^ 32" using unsigned_less [of x, where ?'a = nat] by simp
  ultimately show ?thesis by (simp add: unat_word_ariths unat_div_distrib)
qed

lemma unat_abs: "unat (dword_abs x) = nat \<bar>sint x\<bar>"
proof -
  have r: "- (2^31) \<le> sint x" "sint x < 2^31" using sint_greater_eq [of x] sint_lt [of x] by simp_all
  have u: "uint x = sint x mod 2 ^ 32" using uint_sint [of x] by (simp add: take_bit_eq_mod)
  show ?thesis
  proof (cases "sint x < 0")
    case True
    then have "uint x = sint x + 2 ^ 32" 
      using u r mod_add_self2 [of "sint x" "2 ^ 32"] mod_pos_pos_trivial [of "sint x + 2 ^ 32" "2 ^ 32"] by simp
    then have "uint (- x) = - sint x" using r True by (simp add: uint_word_ariths)
    then show ?thesis using True by (simp only: dword_abs_def unat_eq_nat_uint if_True abs_of_neg)
  next
    case False
    then show ?thesis using u r by (simp add: dword_abs_def unat_eq_nat_uint)
  qed
qed

text \<open>The real sizes of a bitmap, in unbounded arithmetic.\<close>

definition image_bytes :: "bitmapinfoheader \<Rightarrow> nat" where
  "image_bytes b = nat \<bar>sint (biHeight b)\<bar> * ((unat (biWidth b) * unat (biBitCount b) + 31) div 32 * 4)"

definition palette_entries :: "bitmapinfoheader \<Rightarrow> nat" where
  "palette_entries b = (if biClrUsed b = 0 \<and> biBitCount b \<le> 8 \<and> biBitCount b > 0
     then 2 ^ unat (biBitCount b) else unat (biClrUsed b))"

lemma unat_ucast16 [simp]: "unat (ucast (x :: u16) :: u32) = unat x"
proof -
  have "unat x < 2 ^ 32" using unsigned_less [of x, where ?'a = nat] by simp
  then show ?thesis by (simp add: unsigned_ucast_eq take_bit_nat_eq_self)
qed

lemma unat_ucast32 [simp]: "unat (ucast (x :: u32) :: u64) = unat x"
proof -
  have "unat x < 2 ^ 64" using unsigned_less [of x, where ?'a = nat] by simp
  then show ?thesis by (simp add: unsigned_ucast_eq take_bit_nat_eq_self)
qed

lemma Validate_facts:
  assumes "ValidateBitmapInfoHeader b cb"
  shows "\<not> unat (biSize b) < 40" "biWidth b \<noteq> 0" "biHeight b \<noteq> 0" "\<not> (200 :: u32) < ucast (biBitCount b)"
    "25 * unat (biWidth b) < 2 ^ 29" "\<not> 4096 < biSize b" "\<not> 256 < biClrUsed b"
    "unat ((200 * biWidth b div 8 + 3) AND NOT 3) * unat (dword_abs (biHeight b)) < 2 ^ 32"
    "\<not> 0x40000000 < ((200 * biWidth b div 8 + 3) AND NOT 3) * dword_abs (biHeight b)"
    "\<not> (ucast cb :: u64) < ucast (biSize b) + ucast (if biClrUsed b = 0 \<and> biBitCount b \<le> 8 \<and> biBitCount b > 0
        then push_bit (unat (biBitCount b)) 1 else biClrUsed b) * 4
        + (if biCompression b = BI_BITFIELDS then 12 else 0)"
    "(biCompression b = BI_RGB \<or> biCompression b = BI_BITFIELDS) \<and> biSizeImage b \<noteq> 0 \<longrightarrow>
       \<not> biSizeImage b < dword_abs (biHeight b) * (((biWidth b * ucast (biBitCount b) + 31) AND NOT 31) div 8)"
  using assms
  by (auto simp: ValidateBitmapInfoHeader_def Let_def MultiplyCheckOverflow_exact sizeof_BITMAPINFOHEADER_def
      split: if_splits)

lemma image_bytes_bound:
  assumes "ValidateBitmapInfoHeader b cb"
  shows "image_bytes b \<le> nat \<bar>sint (biHeight b)\<bar> * ((25 * unat (biWidth b) + 3) div 4 * 4)"
    and "nat \<bar>sint (biHeight b)\<bar> * ((25 * unat (biWidth b) + 3) div 4 * 4) \<le> 2 ^ 30"
proof -
  note v = Validate_facts [OF assms]
  have bc: "unat (biBitCount b) \<le> 200" using v(4) by (simp add: not_less word_le_nat_alt)
  have "unat (biWidth b) * unat (biBitCount b) \<le> unat (biWidth b) * 200" using bc by simp
  then have "(unat (biWidth b) * unat (biBitCount b) + 31) div 32 \<le> (unat (biWidth b) * 200 + 31) div 32"
    by (intro div_le_mono) simp
  also have "\<dots> = (unat (biWidth b) * 200 + 31) div 8 div 4" by (simp add: div_mult2_eq [symmetric])
  also have "(unat (biWidth b) * 200 + 31) div 8 = 25 * unat (biWidth b) + 3" by simp
  finally show "image_bytes b \<le> nat \<bar>sint (biHeight b)\<bar> * ((25 * unat (biWidth b) + 3) div 4 * 4)"
    by (simp add: image_bytes_def)
  have "unat (200 * biWidth b div 8 + 3) = 25 * unat (biWidth b) + 3"
    using v(5) by (simp add: unat_word_ariths unat_div_distrib)
  then have wb: "unat ((200 * biWidth b div 8 + 3) AND NOT 3) = (25 * unat (biWidth b) + 3) div 4 * 4"
    by (simp only: align_4)
  let ?wb = "(200 * biWidth b div 8 + 3) AND NOT 3" and ?h = "dword_abs (biHeight b)"
  have "unat (?wb * ?h) = unat ?wb * unat ?h" using v(8) by (simp only: unat_word_ariths) simp
  moreover have "unat (?wb * ?h) \<le> 2 ^ 30" using v(9) by (simp only: not_less word_le_nat_alt) simp
  ultimately have "unat ?wb * unat ?h \<le> 2 ^ 30" by (rule ord_eq_le_trans [OF sym])
  then have "(25 * unat (biWidth b) + 3) div 4 * 4 * nat \<bar>sint (biHeight b)\<bar> \<le> 2 ^ 30"
    by (simp only: wb unat_abs)
  then show "nat \<bar>sint (biHeight b)\<bar> * ((25 * unat (biWidth b) + 3) div 4 * 4) \<le> 2 ^ 30"
    by (subst mult.commute)
qed

lemma palette_unat:
  "unat (if biClrUsed b = 0 \<and> biBitCount b \<le> 8 \<and> biBitCount b > 0
      then push_bit (unat (biBitCount b)) 1 else biClrUsed b) = palette_entries b"
proof (cases "biClrUsed b = 0 \<and> biBitCount b \<le> 8 \<and> biBitCount b > 0")
  case True
  then have "unat (biBitCount b) < 32" by (simp add: word_le_nat_alt)
  then have "(2 :: nat) ^ unat (biBitCount b) < 2 ^ 32" by (intro power_strict_increasing) simp_all
  moreover have "push_bit (unat (biBitCount b)) (1 :: u32) = of_nat (2 ^ unat (biBitCount b))"
    by (simp add: push_bit_eq_mult)
  ultimately have "unat (push_bit (unat (biBitCount b)) 1 :: u32) = 2 ^ unat (biBitCount b)"
    by (simp only: unat_of_nat) simp
  then show ?thesis using True by (simp add: palette_entries_def)
qed (auto simp: palette_entries_def)

lemma palette_fits:
  assumes "ValidateBitmapInfoHeader b cb"
  shows "unat (biSize b) + 4 * palette_entries b + (if biCompression b = BI_BITFIELDS then 12 else 0) \<le> unat cb"
    and "palette_entries b \<le> 256"
proof -
  note v = Validate_facts [OF assms]
  have "2 ^ unat (biBitCount b) \<le> (2 :: nat) ^ 8" if "biBitCount b \<le> 8"
    using that by (intro power_increasing) (simp_all add: word_le_nat_alt)
  then show p: "palette_entries b \<le> 256"
    using v(7) by (auto simp: palette_entries_def not_less word_le_nat_alt)
  have s: "unat (biSize b) \<le> 4096" using v(6) by (simp add: not_less word_le_nat_alt)
  let ?k = "if biCompression b = BI_BITFIELDS then 12 else 0 :: u64"
  obtain c :: u32 where c: "unat c = palette_entries b"
    "\<not> (ucast cb :: u64) < ucast (biSize b) + ucast c * 4 + ?k"
    using that [OF palette_unat v(10)] .
  have k: "unat ?k = (if biCompression b = BI_BITFIELDS then 12 else 0)" by simp
  have "unat (ucast (biSize b) + ucast c * 4 + ?k) = unat (biSize b) + unat c * 4 + unat ?k"
    using s p c(1) by (simp only: unat_word_ariths unat_ucast32) simp
  then have "unat (biSize b) + unat c * 4 + unat ?k \<le> unat cb"
    using c(2) by (simp only: not_less word_le_nat_alt unat_ucast32)
  then show "unat (biSize b) + 4 * palette_entries b + (if biCompression b = BI_BITFIELDS then 12 else 0) \<le> unat cb"
    by (simp only: c(1) k mult.commute)
qed

lemma rgb_size_fits:
  assumes "ValidateBitmapInfoHeader b cb"
    and "biCompression b = BI_RGB \<or> biCompression b = BI_BITFIELDS" and "biSizeImage b \<noteq> 0"
  shows "image_bytes b \<le> unat (biSizeImage b)"
proof -
  note v = Validate_facts [OF assms(1)]
  let ?w = "unat (biWidth b)" and ?n = "unat (biBitCount b)"
  have "?n \<le> 200" using v(4) by (simp add: not_less word_le_nat_alt)
  then have "?w * ?n \<le> ?w * 200" by simp
  moreover have "?w \<le> 21474836" using v(5) by simp
  moreover have "(2 :: nat) ^ 32 = 4294967296" by simp
  ultimately have small: "?w * ?n + 31 < 2 ^ 32" by linarith
  then have "unat (biWidth b * ucast (biBitCount b) + 31) = ?w * ?n + 31"
    by (simp add: unat_word_ariths)
  then have "unat (((biWidth b * ucast (biBitCount b) + 31) AND NOT 31) div 8) = (?w * ?n + 31) div 32 * 4"
    by (simp only: unat_div_distrib align_32) simp
  moreover have "image_bytes b \<le> 2 ^ 30" using image_bytes_bound [OF assms(1)] by linarith
  ultimately have "unat (dword_abs (biHeight b) * (((biWidth b * ucast (biBitCount b) + 31) AND NOT 31) div 8))
      = image_bytes b"
    by (simp only: unat_word_ariths unat_abs image_bytes_def) simp
  then show ?thesis using v(11) assms(2,3) by (simp only: not_less word_le_nat_alt) simp
qed

section \<open>Properties\<close>

text \<open>A header the check accepts cannot make size arithmetic overflow: its image has at most
  2^30 bytes in unbounded arithmetic, an uncompressed image fits the size the header states, and
  the header with its palette and masks fits the block it lies in.\<close>

theorem validated_header_cannot_overflow:
  assumes "ValidateBitmapInfoHeader b cbSize"
  shows "image_bytes b \<le> 2 ^ 30 \<and> sint (biHeight b) \<noteq> 0 \<and> 200 * unat (biWidth b) < 2 ^ 32
     \<and> sizeof_BITMAPINFOHEADER \<le> unat (biSize b)
     \<and> unat (biSize b) + 4 * palette_entries b + (if biCompression b = BI_BITFIELDS then 12 else 0) \<le> unat cbSize
     \<and> ((biCompression b = BI_RGB \<or> biCompression b = BI_BITFIELDS) \<and> biSizeImage b \<noteq> 0
        \<longrightarrow> image_bytes b \<le> unat (biSizeImage b))"
  using image_bytes_bound [OF assms] palette_fits [OF assms] rgb_size_fits [OF assms]
    Validate_facts(1,3,5) [OF assms]
  by (simp add: sizeof_BITMAPINFOHEADER_def signed_eq_0_iff)

definition vga32 :: bitmapinfoheader where
  "vga32 = \<lparr>biSize = 40, biWidth = 640, biHeight = 480, biPlanes = 1, biBitCount = 32, biCompression = 0,
     biSizeImage = 1228800, biClrUsed = 0\<rparr>"

theorem validated_header_cannot_overflow_witness:
  "ValidateBitmapInfoHeader vga32 40 \<and> image_bytes vga32 \<le> 1228800"
proof -
  have "ValidateBitmapInfoHeader vga32 40" by code_simp
  from validated_header_cannot_overflow [OF this] this show ?thesis by (simp add: vga32_def)
qed

text \<open>The subtype and the bit count agree. For an uncompressed header the bit count of the
  subtype is the header's whenever there is a subtype, a fourcc gives its own subtype, and both
  table scans end inside the table.\<close>

theorem subtype_and_bit_count_agree:
  "(if biCompression b = BI_RGB
    then GetBitmapSubtype pMask b = GUID_NULL \<and> biBitCount b \<notin> {1, 4, 8, 16, 24, 32}
         \<or> GetBitCount (GetBitmapSubtype pMask b) = Some (biBitCount b)
    else biCompression b = BI_BITFIELDS
         \<or> GetBitmapSubtype pMask b = FOURCCMap (biCompression b)
           \<and> GetBitCount (GetBitmapSubtype pMask b) = Some 0xFFFF)
   \<and> (GetBitCount g = Some 0xFFFF \<longleftrightarrow> GetSubtypeName g = Some ''UNKNOWN'')
   \<and> GetBitCount g \<noteq> None \<and> GetSubtypeName g \<noteq> None"
  by (cases g)
    (auto simp: GetBitmapSubtype_def GetTrueColorType_def GetBitCount_def BitCountMap_def
      GetSubtypeName_def LocateSubtype_def)

end
