(* ===== verification/PushPin.thy ===== *)
theory PushPin
  imports VideoFormat
begin

text \<open>
  The output pin of the DirectShow camera filter (DirectShowFilter/PS3EyePushPin.cpp): which
  media types it offers and accepts, the buffers it asks for, how it starts the camera, stamps
  its samples and answers the stream configuration and property interfaces. The media types
  live on the heap of MediaType; a read outside a format block is a fault. The camera driver,
  the allocator, the connected pin and the reference clock are other people's code, so their
  answers are arguments; the SDK's byte size of a bitmap is the function \<open>dib\<close>.
\<close>

section \<open>The pin\<close>

text \<open>\<open>m_mt\<close> is the media type of the connection, which the base class keeps.\<close>

record push_pin =
  m_mt :: am_media_type
  currentMediaType :: am_media_type
  has_device :: bool
  has_refClock :: bool
  m_startTime :: u64

text \<open>The constructor; the clock is whatever \<open>CoCreateInstance\<close> answers.\<close>

definition new_push_pin :: "hresult \<Rightarrow> bool \<Rightarrow> push_pin" where
  "new_push_pin r device = \<lparr>m_mt = InitMediaType, currentMediaType = InitMediaType,
     has_device = device, has_refClock = succeeded r, m_startTime = 0\<rparr>"

section \<open>Media types\<close>

text \<open>The conditions of \<open>CheckMediaType\<close>, each read only when the ones before it hold.\<close>

definition CheckMediaType :: "heap \<Rightarrow> am_media_type option \<Rightarrow> hresult option" where
  "CheckMediaType h pMediaType =
    (case pMediaType of
       None \<Rightarrow> Some E_POINTER
     | Some mt \<Rightarrow>
        if IsValid mt \<and> majortype mt = MEDIATYPE_Video \<and> subtype mt = MEDIASUBTYPE_RGB32
           \<and> formattype mt = FORMAT_VideoInfo \<and> pbFormat mt \<noteq> None \<and> cbFormat mt > 0
        then do {
          w \<leftarrow> peek h mt V_biWidth;
          ht \<leftarrow> (if w = 640 \<or> w = 320 then peek h mt V_biHeight else Some 0);
          if (w = 640 \<and> ht = 480) \<or> (w = 320 \<and> ht = 240) then do {
            bits \<leftarrow> peek h mt V_biBitCount;
            comp \<leftarrow> (if bits = 32 then peek h mt V_biCompression else Some 1);
            planes \<leftarrow> (if comp = 0 then peek h mt V_biPlanes else Some 0);
            if bits = 32 \<and> comp = 0 \<and> planes = 1 then do {
              t \<leftarrow> peek h mt V_AvgTimePerFrame;
              let avg = sint (of_nat t :: u64);
              if 10000000 div 70 \<le> avg \<and> avg \<le> 10000000 div 2 then Some S_OK else Some E_FAIL }
            else Some E_FAIL }
          else Some E_FAIL }
        else Some E_FAIL)"

definition offered_size :: "int \<Rightarrow> nat \<times> nat" where
  "offered_size iPosition = (if quot_toward_zero iPosition 3 = 0 then (640, 480) else (320, 240))"

definition offered_fps :: "int \<Rightarrow> int" where
  "offered_fps iPosition =
    (if quot_toward_zero iPosition 3 = 0
     then (if iPosition = 2 then 15 else 30 * (iPosition + 1))
     else (if iPosition = 5 then 15 else 30 * (iPosition - 2)))"

text \<open>The format block \<open>_GetMediaType\<close> writes, given its length and old contents.\<close>

definition offered_block :: "(bitmapinfoheader \<Rightarrow> u32) \<Rightarrow> int \<Rightarrow> nat \<Rightarrow> mem \<Rightarrow> mem" where
  "offered_block dib iPosition n b0 =
    (let (w, ht) = offered_size iPosition;
         b1 = vput V_biPlanes 1 (vput V_biSize sizeof_BITMAPINFOHEADER (vput V_biCompression 0
               (vput V_biBitCount 32
                (vput V_AvgTimePerFrame (nat (10000000 div offered_fps iPosition))
                 (vput V_biHeight ht (vput V_biWidth w (ZeroMemory b0 0 n)))))));
         b2 = vput V_biSizeImage (unat (dib (bmiHeader b1))) b1
     in vput rcTarget 0 (vput rcSource 0 (vput V_biClrImportant 0 b2)))"

definition color_masks :: "mem \<Rightarrow> nat \<Rightarrow> u32" where
  "color_masks b i = of_nat (le_get b (sizeof_VIDEOINFOHEADER + 4 * i) 4)"

definition GetMediaType_offered ::
  "(bitmapinfoheader \<Rightarrow> u32) \<Rightarrow> mem option \<Rightarrow> int \<Rightarrow> am_media_type option \<Rightarrow> heap
     \<Rightarrow> (hresult \<times> am_media_type option \<times> heap) option" where
  "GetMediaType_offered dib a iPosition pMediaType h =
    (if iPosition < 0 \<or> iPosition \<ge> 6 then Some (E_UNEXPECTED, pMediaType, h)
     else case pMediaType of
       None \<Rightarrow> Some (E_POINTER, None, h)
     | Some mt \<Rightarrow> do {
         (pvi, mt1, h1) \<leftarrow> AllocFormatBuffer a (of_nat sizeof_VIDEOINFOHEADER) mt h;
         if pvi = None then Some (E_OUTOFMEMORY, Some mt1, h1)
         else do {
           let n = unat (cbFormat mt1);
           h2 \<leftarrow> update_block pvi (max n sizeof_VIDEOINFOHEADER) (offered_block dib iPosition n) h1;
           (_, b) \<leftarrow> Option.bind pvi (hblk h2);
           Some (S_OK,
             Some (SetSampleSize (biSizeImage (bmiHeader b))
                   (SetSubtype (GetBitmapSubtype (color_masks b) (bmiHeader b))
                    (SetTemporalCompression False
                     (SetFormatType FORMAT_VideoInfo (SetType MEDIATYPE_Video mt1))))), h2) } })"

definition GetMediaType ::
  "(bitmapinfoheader \<Rightarrow> u32) \<Rightarrow> mem option \<Rightarrow> int \<Rightarrow> push_pin \<Rightarrow> am_media_type option \<Rightarrow> heap
     \<Rightarrow> (hresult \<times> am_media_type option \<times> heap) option" where
  "GetMediaType dib a iPosition pin pMediaType h =
    (if IsValid (currentMediaType pin) then
       (case pMediaType of
          None \<Rightarrow> Some (E_POINTER, None, h)
        | Some mt \<Rightarrow>
            if iPosition \<noteq> 0 then Some (E_UNEXPECTED, Some mt, h)
            else do { (mt1, h1) \<leftarrow> assign a False mt (currentMediaType pin) h; Some (S_OK, Some mt1, h1) })
     else GetMediaType_offered dib a iPosition pMediaType h)"

section \<open>Buffers\<close>

text \<open>\<open>set_props\<close> is the allocator's \<open>SetProperties\<close>: its result and the actual properties.\<close>

definition DecideBufferSize ::
  "(allocator_properties \<Rightarrow> hresult \<times> allocator_properties) option \<Rightarrow> allocator_properties option
     \<Rightarrow> push_pin \<Rightarrow> heap \<Rightarrow> (hresult \<times> allocator_properties option) option" where
  "DecideBufferSize pAlloc pRequest pin h =
    (case (pAlloc, pRequest) of
       (None, _) \<Rightarrow> Some (E_POINTER, pRequest)
     | (_, None) \<Rightarrow> Some (E_POINTER, None)
     | (Some set_props, Some req) \<Rightarrow> do {
         size \<leftarrow> peek h (m_mt pin) V_biSizeImage;
         let req1 = (if cBuffers req = 0 then req\<lparr>cBuffers := 2\<rparr> else req);
         let req2 = req1\<lparr>cbBuffer := sint (of_nat size :: u32)\<rparr>;
         let (hr, actual) = set_props req2;
         if failed hr then Some (hr, Some req2)
         else if cbBuffer actual < cbBuffer req2 then Some (E_FAIL, Some req2)
         else Some (S_OK, Some req2) })"

section \<open>Streaming\<close>

datatype camera_call =
    DevInit nat nat int bool | DevSetFlip bool bool | DevSetAutogain bool
  | DevSetAutoWhiteBalance bool | DevStart | DevStop | DevGetFrame

definition OnThreadStartPlay :: "u64 \<Rightarrow> push_pin \<Rightarrow> push_pin" where
  "OnThreadStartPlay now pin = (if has_refClock pin then pin\<lparr>m_startTime := now\<rparr> else pin)"

text \<open>
  The frame rate is computed before anything else: the frame time is cut to \<open>int\<close>, and a
  division by zero is a fault. \<open>ok\<close> is what the driver's \<open>init\<close> returns.
\<close>

definition OnThreadCreate :: "bool \<Rightarrow> push_pin \<Rightarrow> heap \<Rightarrow> (hresult \<times> camera_call list) option" where
  "OnThreadCreate ok pin h = do {
     t \<leftarrow> peek h (m_mt pin) V_AvgTimePerFrame;
     let avg = sint (of_nat t :: u32);
     if avg = 0 then None
     else if \<not> has_device pin then Some (S_OK, [])
     else do {
       w \<leftarrow> peek h (m_mt pin) V_biWidth; ht \<leftarrow> peek h (m_mt pin) V_biHeight;
       let call = DevInit w ht (quot_toward_zero 10000000 avg) ok;
       if ok then Some (S_OK, [call, DevSetFlip False True, DevSetAutogain True,
                               DevSetAutoWhiteBalance True, DevStart])
       else Some (E_FAIL, [call]) } }"

definition OnThreadDestroy :: "push_pin \<Rightarrow> hresult \<times> camera_call list" where
  "OnThreadDestroy pin = (S_OK, if has_device pin then [DevStop] else [])"

text \<open>
  \<open>frame\<close> is what the driver's \<open>getFrame\<close> writes, with its length: it is given a pointer only,
  so a frame longer than the buffer is a fault. The blank frame is written byte by byte.
\<close>

definition FillBuffer ::
  "nat \<times> mem \<Rightarrow> u64 \<Rightarrow> push_pin \<Rightarrow> media_sample option \<Rightarrow> heap
     \<Rightarrow> (hresult \<times> media_sample option) option" where
  "FillBuffer frame now pin pSample h =
    (case pSample of
       None \<Rightarrow> Some (E_POINTER, None)
     | Some smp \<Rightarrow> do {
         smp1 \<leftarrow> (if has_device pin
                then if int (fst frame) \<le> smp_size smp
                     then Some (smp\<lparr>smp_data := memcpy (smp_data smp) 0 (snd frame) 0 (fst frame)\<rparr>)
                     else None
                else Some (smp\<lparr>smp_data := ZeroMemory (smp_data smp) 0 (nat (smp_size smp))\<rparr>));
         if \<not> has_refClock pin then Some (S_OK, Some smp1)
         else do {
           t \<leftarrow> peek h (m_mt pin) V_AvgTimePerFrame;
           let avg = (of_nat t :: u64);
           let rtStart = now - m_startTime pin - avg;
           Some (S_OK, Some (smp1\<lparr>smp_time := Some (rtStart, rtStart + avg), smp_sync := True\<rparr>)) } })"

section \<open>The property set\<close>

definition AMPROPERTY_PIN_CATEGORY :: nat where "AMPROPERTY_PIN_CATEGORY = 0"

definition PropSet_Set :: "guid \<Rightarrow> hresult" where
  "PropSet_Set guidPropSet =
    (if guidPropSet = AMPROPSETID_Pin then E_PROP_ID_UNSUPPORTED else E_PROP_SET_UNSUPPORTED)"

text \<open>What is stored through \<open>pPropData\<close> is the second component; a GUID has 16 bytes.\<close>

definition PropSet_Get :: "guid \<Rightarrow> nat \<Rightarrow> nat \<Rightarrow> hresult \<times> guid option" where
  "PropSet_Get guidPropSet dwPropID cbPropData =
    (if guidPropSet = AMPROPSETID_Pin then
       if dwPropID = AMPROPERTY_PIN_CATEGORY then
         if cbPropData \<ge> 16 then (S_OK, Some PIN_CATEGORY_CAPTURE) else (E_POINTER, None)
       else (E_PROP_ID_UNSUPPORTED, None)
     else (E_PROP_SET_UNSUPPORTED, None))"

text \<open>\<open>True\<close> in the second component: \<open>KSPROPERTY_SUPPORT_GET\<close> has been stored.\<close>

definition PropSet_QuerySupported :: "guid \<Rightarrow> nat \<Rightarrow> hresult \<times> bool" where
  "PropSet_QuerySupported guidPropSet dwPropID =
    (if guidPropSet = AMPROPSETID_Pin then
       if dwPropID = AMPROPERTY_PIN_CATEGORY then (S_OK, True) else (E_PROP_ID_UNSUPPORTED, False)
     else (E_PROP_SET_UNSUPPORTED, False))"

section \<open>Stream configuration\<close>

datatype graph_call = QueryAccept hresult | Reconnect hresult | ReleasePin

text \<open>
  \<open>SetFormat\<close>: the local copy \<open>mt\<close> of the caller's type, the answers of the connected pin
  (\<open>None\<close> when there is none) and of the graph; \<open>lastMT\<close> is copied and destroyed unused. The
  copy is destroyed on every return.
\<close>

definition drop_type :: "am_media_type \<Rightarrow> 'a \<times> heap \<Rightarrow> ('a \<times> heap) option" where
  "drop_type mt r = do { (_, h) \<leftarrow> FreeMediaType mt (snd r); Some (fst r, h) }"

definition StreamConfig_SetFormat ::
  "mem option \<Rightarrow> mem option \<Rightarrow> mem option \<Rightarrow> (hresult \<times> hresult) option \<Rightarrow> am_media_type option
     \<Rightarrow> push_pin \<Rightarrow> heap \<Rightarrow> ((hresult \<times> push_pin \<times> graph_call list) \<times> heap) option" where
  "StreamConfig_SetFormat a_mt a_last a_cur peer pmt pin h =
    (case pmt of
       None \<Rightarrow> Some ((E_POINTER, pin, []), h)
     | Some rt \<Rightarrow> do {
         (hr, mt, h1) \<leftarrow> CopyMediaType a_mt rt h;
         if failed hr then drop_type mt ((hr, pin, []), h1)
         else do {
           chk \<leftarrow> CheckMediaType h1 (Some mt);
           if failed chk then drop_type mt ((E_FAIL, pin, []), h1)
           else case peer of
             Some (accept, reconnect) \<Rightarrow>
               if failed accept then drop_type mt ((E_FAIL, pin, [QueryAccept accept, ReleasePin]), h1)
               else do {
                 (_, lastMT, h2) \<leftarrow> CopyMediaType a_last (currentMediaType pin) h1;
                 (cur, h3) \<leftarrow> assign a_cur False (currentMediaType pin) mt h2;
                 (_, h4) \<leftarrow> FreeMediaType lastMT h3;
                 drop_type mt ((reconnect, pin\<lparr>currentMediaType := cur\<rparr>,
                    [QueryAccept accept, Reconnect reconnect, ReleasePin]), h4) }
           | None \<Rightarrow> do {
               (cur, h2) \<leftarrow> assign a_cur False (currentMediaType pin) mt h1;
               drop_type mt ((S_OK, pin\<lparr>currentMediaType := cur\<rparr>, []), h2) } } })"

text \<open>\<open>ppmt\<close> is \<open>False\<close> for a null pointer; the type handed out is an address on the heap.\<close>

definition StreamConfig_GetFormat ::
  "(bitmapinfoheader \<Rightarrow> u32) \<Rightarrow> mem option \<Rightarrow> mem option \<Rightarrow> mem option \<Rightarrow> bool \<Rightarrow> push_pin \<Rightarrow> heap
     \<Rightarrow> ((hresult \<times> addr option) \<times> heap) option" where
  "StreamConfig_GetFormat dib a a_struct a_format ppmt pin h =
    (if \<not> ppmt then Some ((E_POINTER, None), h)
     else if \<not> IsValid (currentMediaType pin) then do {
       (_, dmt, h1) \<leftarrow> GetMediaType_offered dib a 0 (Some InitMediaType) h;
       (p, h2) \<leftarrow> CreateMediaType a_struct a_format (the dmt) h1;
       drop_type (the dmt) ((if p = None then E_FAIL else S_OK, p), h2) }
     else do {
       (p, h1) \<leftarrow> CreateMediaType a_struct a_format (currentMediaType pin) h;
       Some ((if p = None then E_FAIL else S_OK, p), h1) })"

definition GetNumberOfCapabilities :: "bool \<Rightarrow> bool \<Rightarrow> nat \<Rightarrow> hresult \<times> (nat \<times> nat) option" where
  "GetNumberOfCapabilities piCount piSize sizeof_caps =
    (if \<not> piCount then (E_POINTER, None) else if \<not> piSize then (E_POINTER, None)
     else (S_OK, Some (6, sizeof_caps)))"

record video_stream_config_caps =
  caps_guid :: guid
  VideoStandard :: nat
  InputSize :: "nat \<times> nat"
  MinCroppingSize :: "nat \<times> nat"
  MaxCroppingSize :: "nat \<times> nat"
  CropGranularityX :: nat
  CropGranularityY :: nat
  CropAlignX :: nat
  CropAlignY :: nat
  MinOutputSize :: "nat \<times> nat"
  MaxOutputSize :: "nat \<times> nat"
  OutputGranularityX :: nat
  OutputGranularityY :: nat
  StretchTapsX :: nat
  StretchTapsY :: nat
  ShrinkTapsX :: nat
  ShrinkTapsY :: nat
  MinFrameInterval :: int
  MaxFrameInterval :: int
  MinBitsPerSecond :: int
  MaxBitsPerSecond :: int

definition GetStreamCaps ::
  "(bitmapinfoheader \<Rightarrow> u32) \<Rightarrow> mem option \<Rightarrow> mem option \<Rightarrow> mem option \<Rightarrow> int \<Rightarrow> bool \<Rightarrow> bool \<Rightarrow> heap
     \<Rightarrow> ((hresult \<times> addr option \<times> video_stream_config_caps option) \<times> heap) option" where
  "GetStreamCaps dib a a_struct a_format iIndex ppmt pSCC h =
    (if \<not> ppmt then Some ((E_POINTER, None, None), h)
     else if \<not> pSCC then Some ((E_POINTER, None, None), h)
     else do {
       (hr, mt', h1) \<leftarrow> GetMediaType_offered dib a iIndex (Some InitMediaType) h;
       let mt = the mt';
       if failed hr then drop_type mt ((hr, None, None), h1)
       else do {
         (p, h2) \<leftarrow> CreateMediaType a_struct a_format mt h1;
         w \<leftarrow> peek h2 mt V_biWidth; ht \<leftarrow> peek h2 mt V_biHeight;
         let inputSize = (w, ht);
         drop_type mt ((hr, p, Some \<lparr>caps_guid = MEDIATYPE_Video, VideoStandard = 0, InputSize = inputSize,
           MinCroppingSize = inputSize, MaxCroppingSize = inputSize, CropGranularityX = 4,
           CropGranularityY = 4, CropAlignX = 4, CropAlignY = 4, MinOutputSize = inputSize,
           MaxOutputSize = inputSize, OutputGranularityX = 4, OutputGranularityY = 4,
           StretchTapsX = 0, StretchTapsY = 0, ShrinkTapsX = 0, ShrinkTapsY = 0,
           MinFrameInterval = 10000000 div 60, MaxFrameInterval = 10000000 div 2,
           MinBitsPerSecond = 0, MaxBitsPerSecond = sint (1000000000000 :: u32)\<rparr>), h2) } })"

section \<open>The offered types\<close>

lemma six_positions: "0 \<le> i \<Longrightarrow> i < 6 \<Longrightarrow> i = 0 \<or> i = 1 \<or> i = 2 \<or> i = 3 \<or> i = 4 \<or> i = (5 :: int)"
  by presburger

lemma offered_range:
  assumes "0 \<le> i" and "i < 6"
  shows "offered_fps i = 15 \<or> offered_fps i = 30 \<or> offered_fps i = 60"
    and "offered_size i = (640, 480) \<or> offered_size i = (320, 240)"
  using six_positions [OF assms]
  by (auto simp: offered_fps_def offered_size_def)

lemma vget_offered:
  assumes "n = sizeof_VIDEOINFOHEADER" and "b' = offered_block dib i n b"
  shows "vget b' V_biWidth = fst (offered_size i)" "vget b' V_biHeight = snd (offered_size i)"
    "vget b' V_biBitCount = 32" "vget b' V_biCompression = 0" "vget b' V_biPlanes = 1"
    "vget b' V_biSize = sizeof_BITMAPINFOHEADER"
  using assms
  by (auto simp: offered_block_def offered_size_def sizeof_BITMAPINFOHEADER_def Let_def)

lemma vget_offered_time:
  assumes "0 \<le> i" and "i < 6" and "b' = offered_block dib i sizeof_VIDEOINFOHEADER b"
  shows "vget b' V_AvgTimePerFrame = nat (10000000 div offered_fps i)"
  using offered_range(1) [OF assms(1,2)] assms(3)
  by (auto simp: offered_block_def offered_size_def Let_def)

lemma vget_offered_image:
  assumes "b' = offered_block dib i sizeof_VIDEOINFOHEADER b"
  shows "\<exists>hd. vget b' V_biSizeImage = unat (dib hd) \<and> biWidth hd = of_nat (fst (offered_size i))
     \<and> biHeight hd = of_nat (snd (offered_size i)) \<and> biBitCount hd = 32 \<and> biCompression hd = BI_RGB"
proof -
  let ?w = "fst (offered_size i)" and ?ht = "snd (offered_size i)"
  let ?b = "vput V_biPlanes 1 (vput V_biSize sizeof_BITMAPINFOHEADER (vput V_biCompression 0
               (vput V_biBitCount 32
                (vput V_AvgTimePerFrame (nat (10000000 div offered_fps i))
                 (vput V_biHeight ?ht (vput V_biWidth ?w (ZeroMemory b 0 sizeof_VIDEOINFOHEADER)))))))"
  have d: "unat x mod 4294967296 = unat x" for x :: u32
    using unsigned_less [of x, where ?'a = nat] by simp
  have "vget b' V_biSizeImage = unat (dib (bmiHeader ?b))"
    by (simp add: assms offered_block_def Let_def d split: prod.splits)
  moreover have "biWidth (bmiHeader ?b) = of_nat ?w \<and> biHeight (bmiHeader ?b) = of_nat ?ht
     \<and> biBitCount (bmiHeader ?b) = 32 \<and> biCompression (bmiHeader ?b) = BI_RGB"
    by (auto simp: bmiHeader_def offered_size_def)
  ultimately show ?thesis by blast
qed

definition offered_type :: "u32 \<Rightarrow> addr \<Rightarrow> am_media_type" where
  "offered_type bytes_per_sample p = SetSampleSize bytes_per_sample (InitMediaType\<lparr>majortype := MEDIATYPE_Video,
     subtype := MEDIASUBTYPE_RGB32, formattype := FORMAT_VideoInfo, bTemporalCompression := False,
     cbFormat := of_nat sizeof_VIDEOINFOHEADER, pbFormat := Some p\<rparr>)"

lemma offered_runs:
  assumes "0 \<le> i" and "i < 6"
  shows "GetMediaType_offered dib (Some c) i (Some InitMediaType) h
     = Some (S_OK, Some (offered_type (of_nat (vget (offered_block dib i sizeof_VIDEOINFOHEADER c) V_biSizeImage)) (hnext h)),
         h\<lparr>hblk := (hblk h)(hnext h \<mapsto> (sizeof_VIDEOINFOHEADER, offered_block dib i sizeof_VIDEOINFOHEADER c)),
           hnext := Suc (hnext h)\<rparr>)"
proof -
  let ?B = "offered_block dib i sizeof_VIDEOINFOHEADER c"
  have u: "unat (of_nat sizeof_VIDEOINFOHEADER :: u32) = sizeof_VIDEOINFOHEADER"
    by (simp add: sizeof_VIDEOINFOHEADER_def)
  have a: "AllocFormatBuffer (Some c) (of_nat sizeof_VIDEOINFOHEADER) InitMediaType h
      = Some (Some (hnext h), InitMediaType\<lparr>cbFormat := of_nat sizeof_VIDEOINFOHEADER, pbFormat := Some (hnext h)\<rparr>,
          h\<lparr>hblk := (hblk h)(hnext h \<mapsto> (sizeof_VIDEOINFOHEADER, c)), hnext := Suc (hnext h)\<rparr>)"
    by (simp add: AllocFormatBuffer_def CoTaskMemAlloc_def InitMediaType_def sizeof_VIDEOINFOHEADER_def)
  have sub: "GetBitmapSubtype (color_masks ?B) (bmiHeader ?B) = MEDIASUBTYPE_RGB32"
    using vget_offered [OF refl refl, of dib i c]
    by (simp add: GetBitmapSubtype_def bmiHeader_def)
  have size: "biSizeImage (bmiHeader ?B) = of_nat (vget ?B V_biSizeImage)"
    by (simp add: bmiHeader_def)
  show ?thesis
    using assms a
    by (simp add: GetMediaType_offered_def update_block_def u sub size)
      (simp add: offered_type_def SetSampleSize_def SetSubtype_def SetTemporalCompression_def
        SetFormatType_def SetType_def SetVariableSize_def InitMediaType_def)
qed

text \<open>A pin connected with the offered type of a position.\<close>

definition connected_at :: "(bitmapinfoheader \<Rightarrow> u32) \<Rightarrow> int \<Rightarrow> push_pin \<Rightarrow> heap \<Rightarrow> bool" where
  "connected_at dib i pin h \<longleftrightarrow> (\<exists>p b. pbFormat (m_mt pin) = Some p \<and>
     hblk h p = Some (sizeof_VIDEOINFOHEADER, offered_block dib i sizeof_VIDEOINFOHEADER b))"

lemma peek_connected:
  assumes "connected_at dib i pin h" and "0 \<le> i" and "i < 6"
  shows "peek h (m_mt pin) V_biWidth = Some (fst (offered_size i))"
    and "peek h (m_mt pin) V_biHeight = Some (snd (offered_size i))"
    and "peek h (m_mt pin) V_AvgTimePerFrame = Some (nat (10000000 div offered_fps i))"
    and "\<exists>hd. peek h (m_mt pin) V_biSizeImage = Some (unat (dib hd)) \<and> biWidth hd = of_nat (fst (offered_size i))
     \<and> biHeight hd = of_nat (snd (offered_size i)) \<and> biBitCount hd = 32 \<and> biCompression hd = BI_RGB"
proof -
  obtain p b where pb: "pbFormat (m_mt pin) = Some p"
    "hblk h p = Some (sizeof_VIDEOINFOHEADER, offered_block dib i sizeof_VIDEOINFOHEADER b)"
    using assms(1) by (auto simp: connected_at_def)
  note pk = peek_block [OF pb order_refl]
  show "peek h (m_mt pin) V_biWidth = Some (fst (offered_size i))"
    "peek h (m_mt pin) V_biHeight = Some (snd (offered_size i))"
    "peek h (m_mt pin) V_AvgTimePerFrame = Some (nat (10000000 div offered_fps i))"
    by (simp_all add: pk vget_offered [OF refl refl] vget_offered_time [OF assms(2,3) refl])
  obtain hd where "vget (offered_block dib i sizeof_VIDEOINFOHEADER b) V_biSizeImage = unat (dib hd)"
    "biWidth hd = of_nat (fst (offered_size i))"
    "biHeight hd = of_nat (snd (offered_size i)) \<and> biBitCount hd = 32 \<and> biCompression hd = BI_RGB"
    using vget_offered_image [OF refl, of dib i b] by blast
  then show "\<exists>hd. peek h (m_mt pin) V_biSizeImage = Some (unat (dib hd)) \<and> biWidth hd = of_nat (fst (offered_size i))
     \<and> biHeight hd = of_nat (snd (offered_size i)) \<and> biBitCount hd = 32 \<and> biCompression hd = BI_RGB"
    by (auto simp: pk)
qed

section \<open>Properties\<close>

text \<open>C9: What the pin offers it accepts and can stream. Each of the six positions yields a media
  type that \<open>CheckMediaType\<close> passes, and a pin connected with it initialises the camera with
  exactly the advertised size and frame rate, although the rate goes through a truncated frame
  time, and then starts it; every other position is refused.\<close>

theorem offered_types_stream_as_advertised:
  assumes "0 \<le> i" and "i < 6"
  shows "\<exists>mt h1. GetMediaType_offered dib (Some c) i (Some InitMediaType) h = Some (S_OK, Some mt, h1)
     \<and> CheckMediaType h1 (Some mt) = Some S_OK
     \<and> (has_device pin \<longrightarrow>
         OnThreadCreate True (pin\<lparr>m_mt := mt\<rparr>) h1
           = Some (S_OK, [DevInit (fst (offered_size i)) (snd (offered_size i)) (offered_fps i) True,
                          DevSetFlip False True, DevSetAutogain True, DevSetAutoWhiteBalance True, DevStart]))
     \<and> GetMediaType_offered dib a (i + 6) (Some InitMediaType) h = Some (E_UNEXPECTED, Some InitMediaType, h)"
proof -
  let ?B = "offered_block dib i sizeof_VIDEOINFOHEADER c"
  let ?mt = "offered_type (of_nat (vget ?B V_biSizeImage)) (hnext h)"
  let ?h1 = "h\<lparr>hblk := (hblk h)(hnext h \<mapsto> (sizeof_VIDEOINFOHEADER, ?B)), hnext := Suc (hnext h)\<rparr>"
  have pk: "peek ?h1 ?mt f = Some (vget ?B f)" for f
    by (rule peek_block) (auto simp: offered_type_def SetSampleSize_def SetVariableSize_def)
  have fields: "majortype ?mt = MEDIATYPE_Video" "subtype ?mt = MEDIASUBTYPE_RGB32"
    "formattype ?mt = FORMAT_VideoInfo" "pbFormat ?mt = Some (hnext h)" "cbFormat ?mt = 88"
    by (simp_all add: offered_type_def SetSampleSize_def SetVariableSize_def sizeof_VIDEOINFOHEADER_def)
  note v = vget_offered [OF refl refl, of dib i c] vget_offered_time [OF assms refl, of dib c]
  have avg: "10000000 div offered_fps i \<in> {333333, 166666, 666666}"
    using offered_range(1) [OF assms] by auto
  then have s: "sint (of_nat (nat (10000000 div offered_fps i)) :: u64) = 10000000 div offered_fps i"
    "sint (of_nat (nat (10000000 div offered_fps i)) :: u32) = 10000000 div offered_fps i" by auto
  have "CheckMediaType ?h1 (Some ?mt) = Some S_OK"
    using offered_range(2) [OF assms] avg
    by (auto simp: CheckMediaType_def fields pk v s IsValid_def)
  moreover have "10000000 div (10000000 div offered_fps i) = offered_fps i"
    using offered_range(1) [OF assms] by auto
  then have "has_device pin \<Longrightarrow> OnThreadCreate True (pin\<lparr>m_mt := ?mt\<rparr>) ?h1
      = Some (S_OK, [DevInit (fst (offered_size i)) (snd (offered_size i)) (offered_fps i) True,
                     DevSetFlip False True, DevSetAutogain True, DevSetAutoWhiteBalance True, DevStart])"
    using avg by (auto simp: OnThreadCreate_def pk v s)
  ultimately show ?thesis
    using offered_runs [OF assms, of dib c h] assms
    by (intro exI [of _ ?mt] exI [of _ ?h1]) (simp add: GetMediaType_offered_def)
qed

definition demo_pin :: push_pin where
  "demo_pin = new_push_pin S_OK True"

theorem offered_types_stream_as_advertised_witness:
  "\<exists>mt h1. CheckMediaType h1 (Some mt) = Some S_OK
     \<and> OnThreadCreate True (demo_pin\<lparr>m_mt := mt\<rparr>) h1
       = Some (S_OK, [DevInit 320 240 60 True, DevSetFlip False True, DevSetAutogain True,
                      DevSetAutoWhiteBalance True, DevStart])"
  using offered_types_stream_as_advertised [of 4 "\<lambda>_. 0" "\<lambda>_. 0" empty_heap demo_pin]
  by (force simp: demo_pin_def new_push_pin_def offered_size_def offered_fps_def quot_toward_zero_def)

text \<open>On a connection with an offered type the camera cannot write past a sample. The pin asks
  for buffers of the image's size, so a sample of the size the allocator granted takes a whole
  frame of the driver; it carries the frame's bytes and a time interval of one frame that ends
  when the clock was read, counted from the start of streaming.\<close>

theorem offered_frames_fit_their_buffers:
  assumes pos: "0 \<le> i" "i < 6" and conn: "connected_at dib i pin h"
    and dib_is_image_size: "\<And>hd. biCompression hd = BI_RGB \<Longrightarrow> dib hd = of_nat (image_bytes hd)"
    and alloc: "DecideBufferSize (Some set_props) (Some req) pin h = Some (S_OK, Some req')"
    and granted: "cbBuffer (snd (set_props req')) \<le> smp_size smp"
    and driver_frame: "fst frame = 4 * fst (offered_size i) * snd (offered_size i)"
    and "has_device pin" and "has_refClock pin"
  shows "\<exists>smp'. FillBuffer frame now pin (Some smp) h = Some (S_OK, Some smp')
     \<and> (\<forall>k < fst frame. smp_data smp' k = snd frame k)
     \<and> (\<forall>k \<ge> fst frame. smp_data smp' k = smp_data smp k)
     \<and> smp_time smp' = Some (now - m_startTime pin - of_int (10000000 div offered_fps i), now - m_startTime pin)
     \<and> smp_sync smp'"
proof -
  obtain hd where hd: "peek h (m_mt pin) V_biSizeImage = Some (unat (dib hd))"
    "biWidth hd = of_nat (fst (offered_size i))" "biHeight hd = of_nat (snd (offered_size i))"
    "biBitCount hd = 32" "biCompression hd = BI_RGB"
    using peek_connected(4) [OF conn pos] by blast
  have "image_bytes hd = fst frame" "fst frame < 2 ^ 31"
    using offered_range(2) [OF pos] hd driver_frame by (auto simp: image_bytes_def)
  then have "sint (dib hd) = int (fst frame)"
    using dib_is_image_size [OF hd(5)] by (simp add: signed_of_nat signed_take_bit_int_eq_self)
  then have "int (fst frame) \<le> cbBuffer (snd (set_props req'))"
    using alloc hd(1)
    by (auto simp: DecideBufferSize_def Let_def split: prod.splits if_splits)
  then have "int (fst frame) \<le> smp_size smp" using granted by linarith
  moreover have "of_nat (nat (10000000 div offered_fps i)) = (of_int (10000000 div offered_fps i) :: u64)"
    using offered_range(1) [OF pos] by auto
  ultimately show ?thesis
    using peek_connected(3) [OF conn pos] assms(8,9)
    by (simp add: FillBuffer_def Let_def memcpy_def)
qed

definition grant :: "allocator_properties \<Rightarrow> hresult \<times> allocator_properties" where
  "grant req = (S_OK, req)"

definition no_request :: allocator_properties where
  "no_request = \<lparr>cBuffers = 0, cbBuffer = 0, cbAlign = 1, cbPrefix = 0\<rparr>"

definition image_dib :: "bitmapinfoheader \<Rightarrow> u32" where
  "image_dib b = of_nat (image_bytes b)"

definition demo_sample :: "int \<Rightarrow> media_sample" where
  "demo_sample n = \<lparr>smp_data = (\<lambda>_. 7), smp_size = n, smp_time = None, smp_sync = False\<rparr>"

definition demo_block :: "nat \<Rightarrow> mem \<Rightarrow> heap" where
  "demo_block n b = empty_heap\<lparr>hblk := [0 \<mapsto> (n, b)], hnext := 1\<rparr>"

definition demo_connected :: push_pin where
  "demo_connected = demo_pin\<lparr>m_mt := offered_type 1228800 0\<rparr>"

lemma demo_connected_at:
  "connected_at image_dib 0 demo_connected
     (demo_block sizeof_VIDEOINFOHEADER (offered_block image_dib 0 sizeof_VIDEOINFOHEADER (\<lambda>_. 0)))"
  by (auto simp: connected_at_def demo_connected_def demo_block_def empty_heap_def offered_type_def
      SetSampleSize_def SetVariableSize_def)

theorem offered_frames_fit_their_buffers_witness:
  "\<exists>h smp'. FillBuffer (1228800, of_nat) 1000000 demo_connected (Some (demo_sample 1228800)) h
       = Some (S_OK, Some smp')
     \<and> smp_time smp' = Some (1000000 - 333333, 1000000)"
proof -
  let ?h = "demo_block sizeof_VIDEOINFOHEADER (offered_block image_dib 0 sizeof_VIDEOINFOHEADER (\<lambda>_. 0))"
  obtain hd where hd: "peek ?h (m_mt demo_connected) V_biSizeImage = Some (unat (image_dib hd))"
    "biWidth hd = 640" "biHeight hd = 480" "biBitCount hd = 32"
    using peek_connected(4) [OF demo_connected_at] by (auto simp: offered_size_def)
  then have "sint (image_dib hd) = 1228800"
    by (simp add: image_dib_def image_bytes_def)
  then have "DecideBufferSize (Some grant) (Some no_request) demo_connected ?h
      = Some (S_OK, Some \<lparr>cBuffers = 2, cbBuffer = 1228800, cbAlign = 1, cbPrefix = 0\<rparr>)"
    using hd(1) by (simp add: DecideBufferSize_def no_request_def grant_def Let_def)
  from offered_frames_fit_their_buffers [OF _ _ demo_connected_at _ this,
      of "demo_sample 1228800" "(1228800, of_nat)" 1000000]
  show ?thesis
    by (force simp: image_dib_def grant_def demo_sample_def offered_size_def offered_fps_def
        demo_connected_def demo_pin_def new_push_pin_def)
qed

text \<open>Acceptance does not make a type safe. \<open>CheckMediaType\<close> never looks at the length of the
  format block, so a block that ends before the picture size makes it read beyond the block; and
  it never looks at \<open>biSizeImage\<close>, which fixes the size of the buffers the camera then writes its
  whole frame to.\<close>

theorem accepted_type_may_be_too_small:
  assumes "k < 4"
  shows "CheckMediaType (demo_block (vih_off V_biWidth + k) b)
       (Some ((offered_type 4 0)\<lparr>cbFormat := of_nat (vih_off V_biWidth + k)\<rparr>)) = None
   \<and> (\<exists>h req. CheckMediaType h (Some (m_mt demo_connected)) = Some S_OK
        \<and> DecideBufferSize (Some grant) (Some no_request) demo_connected h = Some (S_OK, Some req)
        \<and> cbBuffer req = int k
        \<and> FillBuffer (4 * 640 * 480, frame) now demo_connected (Some (demo_sample (cbBuffer req))) h = None)"
proof -
  let ?b = "vput V_biSizeImage k (offered_block image_dib 0 sizeof_VIDEOINFOHEADER (\<lambda>_. 0))"
  let ?h = "demo_block sizeof_VIDEOINFOHEADER ?b"
  have short: "k = 0 \<or> k = 1 \<or> k = 2 \<or> k = 3" using assms by auto
  then have "unat (of_nat (52 + k) :: u32) \<noteq> 0" by auto
  then have part1: "CheckMediaType (demo_block (vih_off V_biWidth + k) b)
       (Some ((offered_type 4 0)\<lparr>cbFormat := of_nat (vih_off V_biWidth + k)\<rparr>)) = None"
    using assms
    by (auto simp: CheckMediaType_def demo_block_def peek_def offered_type_def SetSampleSize_def
        IsValid_def word_gt_0 SetVariableSize_def)
  have mt: "pbFormat (m_mt demo_connected) = Some 0" "hblk ?h 0 = Some (sizeof_VIDEOINFOHEADER, ?b)"
    "IsValid (m_mt demo_connected)" "majortype (m_mt demo_connected) = MEDIATYPE_Video"
    "subtype (m_mt demo_connected) = MEDIASUBTYPE_RGB32" "cbFormat (m_mt demo_connected) = 88"
    "formattype (m_mt demo_connected) = FORMAT_VideoInfo" "has_device demo_connected"
    by (simp_all add: demo_connected_def offered_type_def SetSampleSize_def SetVariableSize_def IsValid_def
        demo_block_def sizeof_VIDEOINFOHEADER_def demo_pin_def new_push_pin_def)
  note pk = peek_block [OF mt(1,2) order_refl]
  note v = vget_offered [OF refl refl, of image_dib 0 "\<lambda>_. 0"] vget_offered_time [OF _ _ refl, of 0 image_dib "\<lambda>_. 0"]
  have "CheckMediaType ?h (Some (m_mt demo_connected)) = Some S_OK"
    by (simp add: CheckMediaType_def mt pk v offered_size_def offered_fps_def)
  moreover have "\<exists>req. DecideBufferSize (Some grant) (Some no_request) demo_connected ?h = Some (S_OK, Some req)
      \<and> cbBuffer req = int k"
    using short by (auto simp: DecideBufferSize_def no_request_def grant_def Let_def pk)
  moreover have "FillBuffer (4 * 640 * 480, frame) now demo_connected (Some (demo_sample (int k))) ?h = None"
    using assms by (simp add: FillBuffer_def mt demo_sample_def)
  ultimately show ?thesis using part1 by auto
qed

theorem accepted_type_may_be_too_small_witness:
  "CheckMediaType (demo_block 52 (\<lambda>_. 0)) (Some ((offered_type 4 0)\<lparr>cbFormat := 52\<rparr>)) = None"
  using accepted_type_may_be_too_small [of 0 "\<lambda>_. 0"] by simp

text \<open>The stream capabilities. For each of the six positions the pin hands out a media type of
  the advertised size in memory of its own: deleting it restores the heap. The interval it
  advertises as the shortest is longer than what \<open>CheckMediaType\<close> accepts, and the maximum bit
  rate is negative, since the constant does not fit its type.\<close>

theorem stream_caps_are_owned_by_the_caller:
  assumes "0 \<le> i" and "i < 6" and "heap_ok h"
  shows "\<exists>p caps h1 h2. GetStreamCaps dib (Some c) (Some s) (Some f) i True True h = Some ((S_OK, Some p, Some caps), h1)
     \<and> InputSize caps = offered_size i \<and> MinFrameInterval caps > 10000000 div 70
     \<and> MaxBitsPerSecond caps = - 727379968
     \<and> DeleteMediaType (Some p) h1 = Some h2 \<and> hblk h2 = hblk h \<and> hmt h2 = hmt h"
proof -
  let ?B = "offered_block dib i sizeof_VIDEOINFOHEADER c" and ?n = "hnext h"
  let ?mt = "offered_type (of_nat (vget ?B V_biSizeImage)) ?n"
  let ?h1 = "h\<lparr>hblk := (hblk h)(?n \<mapsto> (sizeof_VIDEOINFOHEADER, ?B)), hnext := Suc ?n\<rparr>"
  have mt: "pbFormat ?mt = Some ?n" "cbFormat ?mt = of_nat sizeof_VIDEOINFOHEADER" "cbFormat ?mt \<noteq> 0"
    "unat (cbFormat ?mt) = sizeof_VIDEOINFOHEADER" "pUnk ?mt = None"
    by (simp_all add: offered_type_def SetSampleSize_def SetVariableSize_def sizeof_VIDEOINFOHEADER_def InitMediaType_def)
  have "heap_ok ?h1" using assms(3) by (rule heap_ok_new)
  moreover have "mt_ok ?h1 ?mt" using mt by (simp add: mt_ok_def)
  ultimately obtain p r x h2 where cr: "CreateMediaType (Some s) (Some f) ?mt ?h1 = Some (Some p, h2)"
    "hblk ?h1 p = None" "hmt ?h1 p = None" "hblk ?h1 r = None" "p \<noteq> r"
    "hblk h2 = (hblk ?h1)(r \<mapsto> x)" "hmt h2 = (hmt ?h1)(p \<mapsto> ?mt\<lparr>pbFormat := Some r\<rparr>)"
    using CreateMediaType_exact [of ?h1 ?mt s f] mt(3) by blast
  have ne: "r \<noteq> ?n" "p \<noteq> ?n" using cr(2,4) by auto
  then have blk: "hblk h2 ?n = Some (sizeof_VIDEOINFOHEADER, ?B)" using cr(6) by simp
  have pk: "peek h2 ?mt fld = Some (vget ?B fld)" for fld
    using blk mt(1) by (intro peek_block) auto
  define h3 where "h3 = h2\<lparr>hblk := (hblk h2)(?n := None)\<rparr>"
  have drop: "drop_type ?mt (y, h2) = Some (y, h3)" for y :: "hresult \<times> addr option \<times> video_stream_config_caps option"
    using blk mt by (simp add: drop_type_def FreeMediaType_def CoTaskMemFree_def unk_add_def h3_def)
  have mt': "pbFormat (?mt\<lparr>pbFormat := Some r\<rparr>) = Some r" "cbFormat (?mt\<lparr>pbFormat := Some r\<rparr>) \<noteq> 0"
    using mt(3) by simp_all
  obtain h4 where h4: "DeleteMediaType (Some p) h3 = Some h4" "hblk h4 = (hblk h3)(r := None)" "hmt h4 = (hmt h3)(p := None)"
    using DeleteMediaType_exact [of h3 p "?mt\<lparr>pbFormat := Some r\<rparr>" r x] mt' cr(2,5,6,7) ne
    by (auto simp: h3_def)
  have restored: "hblk h4 = hblk h" "hmt h4 = hmt h"
    using h4 cr(2,3,4,6,7) ne heap_fresh [OF assms(3)] by (auto simp: h3_def fun_eq_iff)
  have ran: "\<exists>caps. GetStreamCaps dib (Some c) (Some s) (Some f) i True True h = Some ((S_OK, Some p, Some caps), h3)
     \<and> InputSize caps = offered_size i \<and> MinFrameInterval caps = 10000000 div 60
     \<and> MaxBitsPerSecond caps = - 727379968"
    by (simp add: GetStreamCaps_def offered_runs [OF assms(1,2)] cr(1) pk drop vget_offered [OF refl refl] Let_def)
  show ?thesis using ran h4(1) restored by fastforce
qed

theorem stream_caps_are_owned_by_the_caller_witness:
  "\<exists>p caps h1. GetStreamCaps image_dib (Some (\<lambda>_. 0)) (Some (\<lambda>_. 0)) (Some (\<lambda>_. 0)) 2 True True empty_heap
     = Some ((S_OK, Some p, Some caps), h1) \<and> InputSize caps = (640, 480)"
  using stream_caps_are_owned_by_the_caller [of 2 empty_heap image_dib "\<lambda>_. 0" "\<lambda>_. 0" "\<lambda>_. 0"] heap_ok_empty
  by (force simp: offered_size_def quot_toward_zero_def)

lemma accepted_has_format: "CheckMediaType h (Some mt) = Some S_OK \<Longrightarrow> cbFormat mt \<noteq> 0 \<and> IsValid mt"
  by (auto simp: CheckMediaType_def split: if_splits)

lemma CheckMediaType_values: "CheckMediaType h (Some mt) = Some r \<Longrightarrow> r = S_OK \<or> r = E_FAIL"
  by (auto simp: CheckMediaType_def Let_def split: if_splits Option.bind_splits)

text \<open>Once a client has set a format, that format is the only one on offer. Setting it on an
  unconnected pin stores an equal media type with a format block of the pin's own, releases the
  block of the previous one and the temporary copy, and from then on position 0 yields the stored
  type and every other position is refused.\<close>

theorem set_format_becomes_the_only_offer:
  assumes own: "owned h0 (currentMediaType pin) h" and src: "mt_ok h0 rt" "heap_ok h0"
    and run: "StreamConfig_SetFormat (Some a) l (Some c) None (Some rt) pin h = Some ((S_OK, pin', []), h')"
  shows "mt_eq h' (currentMediaType pin') rt = Some True
     \<and> (\<exists>p x. pbFormat (currentMediaType pin') = Some p \<and> hblk h0 p = None \<and> hblk h' = (hblk h0)(p \<mapsto> x))
     \<and> IsValid (currentMediaType pin')
     \<and> (i = 0 \<or> GetMediaType dib g i pin' (Some mt0) h' = Some (E_UNEXPECTED, Some mt0, h'))"
proof -
  have ok: "heap_ok h" using own by (simp add: owned_def)
  have rt: "mt_ok h rt" using mt_ok_kept [OF src(1) own] .
  obtain hr mt h1 ck where copy: "CopyMediaType (Some a) rt h = Some (hr, mt, h1)"
    and ck: "CheckMediaType h1 (Some mt) = Some ck" "succeeded ck"
    using run by (auto simp: StreamConfig_SetFormat_def drop_type_def split: Option.bind_splits if_splits)
  have chk: "CheckMediaType h1 (Some mt) = Some S_OK" "hr = S_OK"
    using CheckMediaType_values [OF ck(1)] ck CopyMediaType_granted [OF copy] by auto
  have cb: "cbFormat rt \<noteq> 0" using copy accepted_has_format [OF chk(1)]
    by (auto simp: CopyMediaType_def)
  obtain q b p h1' where c1: "pbFormat rt = Some q" "hblk h q = Some (unat (cbFormat rt), b)"
    "hblk h p = None" "hmt h p = None" "q \<noteq> p" "mt = rt\<lparr>pbFormat := Some p\<rparr>"
    "hblk h1 = (hblk h)(p \<mapsto> (unat (cbFormat rt), memcpy a 0 b 0 (unat (cbFormat rt))))" "hmt h1 = hmt h"
    using CopyMediaType_success [OF ok rt cb, of a] copy by auto
  have "heap_ok h1" using CopyMediaType_owned [OF ok rt refl refl, of "Some a"] copy by (auto simp: owned_def)
  define h0' where "h0' = h0\<lparr>hblk := (hblk h0)(p \<mapsto> (unat (cbFormat rt), memcpy a 0 b 0 (unat (cbFormat rt))))\<rparr>"
  have own': "owned h0' (currentMediaType pin) h1"
    unfolding h0'_def by (rule owned_weaken [OF own c1(3,8,7) \<open>heap_ok h1\<close>])
  have "mt_ok h0' mt" "cbFormat mt \<noteq> 0" using c1(6) cb by (simp_all add: mt_ok_def h0'_def)
  from assign_exact [OF own' this, of c] obtain p2 q2 b2 h2 where as:
    "assign (Some c) False (currentMediaType pin) mt h1 = Some (mt\<lparr>pbFormat := Some p2\<rparr>, h2)"
    "hblk h0' p2 = None" "hmt h2 = hmt h0'" "pbFormat mt = Some q2" "hblk h0' q2 = Some (unat (cbFormat mt), b2)"
    "hblk h2 = (hblk h0')(p2 \<mapsto> (unat (cbFormat mt), memcpy c 0 b2 0 (unat (cbFormat mt))))"
    by blast
  have q2: "q2 = p" "b2 = memcpy a 0 b 0 (unat (cbFormat rt))" using as(4,5) c1(6) by (auto simp: h0'_def)
  have p2: "p2 \<noteq> p" "hblk h0 p2 = None" using as(2) by (auto simp: h0'_def split: if_splits)
  have q0: "hblk h0 q = Some (unat (cbFormat rt), b)"
    using src(1) cb c1(1,2) mt_ok_kept [OF src(1) own] own by (auto simp: mt_ok_def owned_def split: if_splits)
  then have qp2: "q \<noteq> p2" using p2 by auto
  have p0: "hblk h0 p = None" using own c1(3) by (auto simp: owned_def split: if_splits)
  have fin: "pin' = pin\<lparr>currentMediaType := mt\<lparr>pbFormat := Some p2\<rparr>\<rparr>"
      "hblk h' = (hblk h0)(p2 \<mapsto> (unat (cbFormat rt), memcpy c 0 b2 0 (unat (cbFormat rt))))"
    using run copy chk as(1,6) cb c1(6) p2 p0
    by (auto simp: StreamConfig_SetFormat_def drop_type_def FreeMediaType_def CoTaskMemFree_def h0'_def
        fun_eq_iff split: if_splits)
  have "bytes h' (Some p2) (unat (cbFormat rt)) = Some (map b [0..<unat (cbFormat rt)])"
    "bytes h' (Some q) (unat (cbFormat rt)) = Some (map b [0..<unat (cbFormat rt)])"
    using fin(2) q0 qp2 by (simp_all add: bytes_def q2 memcpy_def)
  then have "mt_eq h' (currentMediaType pin') rt = Some True"
    using fin(1) c1(1,6) cb by (simp add: mt_eq_def)
  moreover have "IsValid (currentMediaType pin')" using accepted_has_format [OF chk(1)] fin(1) by (simp add: IsValid_def)
  ultimately show ?thesis using fin p2(2) by (auto simp: GetMediaType_def)
qed

lemma memcpy_self: "memcpy b 0 b 0 n = b"
  by (simp add: memcpy_def fun_eq_iff)

lemma demo_set_format:
  assumes "B = offered_block image_dib 0 sizeof_VIDEOINFOHEADER (\<lambda>_. 0)"
  shows "\<exists>h'. StreamConfig_SetFormat (Some B) None (Some B) None (Some (offered_type 4 0)) demo_pin
      (demo_block sizeof_VIDEOINFOHEADER B)
    = Some ((S_OK, demo_pin\<lparr>currentMediaType := offered_type 4 (Suc (Suc 0))\<rparr>, []), h')"
proof -
  let ?h1 = "empty_heap\<lparr>hblk := [0 \<mapsto> (sizeof_VIDEOINFOHEADER, B), Suc 0 \<mapsto> (sizeof_VIDEOINFOHEADER, B)], hnext := Suc (Suc 0)\<rparr>"
  have t: "cbFormat (offered_type 4 p) = 88" "pbFormat (offered_type 4 p) = Some p" "pUnk (offered_type 4 p) = None"
    "(offered_type 4 p)\<lparr>pbFormat := Some q\<rparr> = offered_type 4 q" "IsValid (offered_type 4 p)"
    "majortype (offered_type 4 p) = MEDIATYPE_Video" "subtype (offered_type 4 p) = MEDIASUBTYPE_RGB32"
    "formattype (offered_type 4 p) = FORMAT_VideoInfo" for p q
    by (simp_all add: offered_type_def SetSampleSize_def sizeof_VIDEOINFOHEADER_def InitMediaType_def IsValid_def)
  have c: "CopyMediaType (Some B) (offered_type 4 0) (demo_block sizeof_VIDEOINFOHEADER B)
      = Some (S_OK, offered_type 4 (Suc 0), ?h1)"
    by (simp add: CopyMediaType_def t CoTaskMemAlloc_def CopyMemory_def demo_block_def memcpy_self
        sizeof_VIDEOINFOHEADER_def empty_heap_def unk_add_def fun_eq_iff)
  have pk: "peek ?h1 (offered_type 4 (Suc 0)) f = Some (vget B f)" for f
    by (rule peek_block) (auto simp: t empty_heap_def)
  have "CheckMediaType ?h1 (Some (offered_type 4 (Suc 0))) = Some S_OK"
    using vget_offered [OF refl assms] vget_offered_time [OF _ _ assms]
    by (simp add: CheckMediaType_def t pk offered_size_def offered_fps_def)
  then show ?thesis
    using c
    by (simp add: StreamConfig_SetFormat_def demo_pin_def new_push_pin_def assign_def Set_def FreeMediaType_def
        CopyMediaType_def t CoTaskMemAlloc_def CoTaskMemFree_def CopyMemory_def memcpy_self drop_type_def
        sizeof_VIDEOINFOHEADER_def empty_heap_def unk_add_def InitMediaType_def)
qed

theorem set_format_becomes_the_only_offer_witness:
  "\<exists>h B. GetMediaType image_dib None 1 (demo_pin\<lparr>currentMediaType := offered_type 4 (Suc (Suc 0))\<rparr>) (Some InitMediaType) h
       = Some (E_UNEXPECTED, Some InitMediaType, h)
     \<and> mt_eq h (offered_type 4 (Suc (Suc 0))) (offered_type 4 0) = Some True"
proof -
  define B where "B = offered_block image_dib 0 sizeof_VIDEOINFOHEADER (\<lambda>_. 0)"
  let ?h = "demo_block sizeof_VIDEOINFOHEADER B"
  obtain h' where run: "StreamConfig_SetFormat (Some B) None (Some B) None (Some (offered_type 4 0)) demo_pin ?h
    = Some ((S_OK, demo_pin\<lparr>currentMediaType := offered_type 4 (Suc (Suc 0))\<rparr>, []), h')"
    using demo_set_format [OF B_def] by blast
  have ok: "heap_ok ?h" by (auto simp: heap_ok_def demo_block_def empty_heap_def)
  then have own: "owned ?h (currentMediaType demo_pin) ?h"
    by (simp add: owned_def demo_pin_def new_push_pin_def InitMediaType_def)
  have "mt_ok ?h (offered_type 4 0)"
    by (simp add: mt_ok_def offered_type_def SetSampleSize_def demo_block_def sizeof_VIDEOINFOHEADER_def)
  from set_format_becomes_the_only_offer [OF own this ok run, of 1 image_dib None InitMediaType]
  show ?thesis by auto
qed

end
