(* ===== verification/VirtualPin.thy ===== *)
theory VirtualPin
  imports PushPin SharedMemory
begin

text \<open>
  The virtual camera filter's output pin (MediaFoundationSource/PS3EyeVirtualFilter.cpp): a
  DirectShow source that offers one RGB24 type and fills its samples from the shared memory the
  capture service writes. The client of SharedMemory is a member of the pin; what the section
  holds at each poll, and what the kernel answers, are arguments.
\<close>

record virtual_pin =
  v_client :: client
  m_rtLastTime :: int
  v_lastFrameNumber :: u64

definition new_virtual_pin :: virtual_pin where
  "new_virtual_pin = \<lparr>v_client = new_client, m_rtLastTime = 0, v_lastFrameNumber = 0\<rparr>"

definition delete_virtual_pin :: "virtual_pin \<Rightarrow> mem \<Rightarrow> mem \<times> kcall list" where
  "delete_virtual_pin pin m = (case Client_Disconnect (v_client pin) m of (_, m1, calls) \<Rightarrow> (m1, calls))"

section \<open>Media type\<close>

definition virtual_block :: "nat \<Rightarrow> mem \<Rightarrow> mem" where
  "virtual_block n b =
     vput V_AvgTimePerFrame (10000000 div PS3EYE_FPS)
      (vput V_biSizeImage PS3EYE_FRAME_SIZE
       (vput V_biCompression 0
        (vput V_biBitCount 24
         (vput V_biPlanes 1
          (vput V_biHeight PS3EYE_HEIGHT
           (vput V_biWidth PS3EYE_WIDTH
            (vput V_biSize sizeof_BITMAPINFOHEADER (ZeroMemory b 0 n))))))))"

text \<open>\<open>sizeof_VIDEOINFO\<close>, a VIDEOINFOHEADER with room for colours, is the SDK's.\<close>

definition Virtual_GetMediaType ::
  "nat \<Rightarrow> mem option \<Rightarrow> int \<Rightarrow> am_media_type option \<Rightarrow> heap
     \<Rightarrow> (hresult \<times> am_media_type option \<times> heap) option" where
  "Virtual_GetMediaType sizeof_VIDEOINFO a iPosition pmt h =
    (case pmt of
       None \<Rightarrow> Some (E_POINTER, None, h)
     | Some mt \<Rightarrow>
        if iPosition < 0 then Some (E_INVALIDARG, pmt, h)
        else if iPosition > 0 then Some (VFW_S_NO_MORE_ITEMS, pmt, h)
        else do {
          (pvi, mt1, h1) \<leftarrow> AllocFormatBuffer a (of_nat sizeof_VIDEOINFO) mt h;
          if pvi = None then Some (E_OUTOFMEMORY, Some mt1, h1)
          else do {
            h2 \<leftarrow> update_block pvi sizeof_VIDEOINFO (virtual_block sizeof_VIDEOINFO) h1;
            Some (S_OK,
              Some (SetSampleSize (of_nat PS3EYE_FRAME_SIZE)
                    (SetSubtype MEDIASUBTYPE_RGB24
                     (SetTemporalCompression False
                      (SetFormatType FORMAT_VideoInfo (SetType MEDIATYPE_Video mt1))))), h2) } })"

text \<open>\<open>abs\<close> of the signed height, compared as an unsigned number.\<close>

definition Virtual_CheckMediaType :: "heap \<Rightarrow> am_media_type option \<Rightarrow> hresult option" where
  "Virtual_CheckMediaType h pMediaType =
    (case pMediaType of
       None \<Rightarrow> Some E_POINTER
     | Some mt \<Rightarrow>
        if majortype mt \<noteq> MEDIATYPE_Video then Some E_INVALIDARG
        else if subtype mt \<noteq> MEDIASUBTYPE_RGB24 then Some E_INVALIDARG
        else if formattype mt \<noteq> FORMAT_VideoInfo then Some E_INVALIDARG
        else if pbFormat mt = None then Some E_INVALIDARG
        else do {
          w \<leftarrow> peek h mt V_biWidth;
          if w \<noteq> PS3EYE_WIDTH then Some E_INVALIDARG
          else do {
            ht \<leftarrow> peek h mt V_biHeight;
            if unat (dword_abs (of_nat ht)) \<noteq> PS3EYE_HEIGHT then Some E_INVALIDARG else Some S_OK } })"

definition Virtual_DecideBufferSize ::
  "(allocator_properties \<Rightarrow> hresult \<times> allocator_properties) option \<Rightarrow> allocator_properties option
     \<Rightarrow> hresult \<times> allocator_properties option" where
  "Virtual_DecideBufferSize pIMemAlloc pProperties =
    (case (pIMemAlloc, pProperties) of
       (None, _) \<Rightarrow> (E_POINTER, pProperties)
     | (_, None) \<Rightarrow> (E_POINTER, None)
     | (Some set_props, Some p) \<Rightarrow>
         let p1 = p\<lparr>cBuffers := 1, cbBuffer := int PS3EYE_FRAME_SIZE\<rparr>; (hr, actual) = set_props p1
         in if failed hr then (hr, Some p1)
            else if cbBuffer actual < cbBuffer p1 then (E_FAIL, Some p1)
            else (S_OK, Some p1))"

section \<open>Filling a sample\<close>

text \<open>
  The polling loop: \<open>env k\<close> is the answer to the wait for the mutex and the section at attempt
  \<open>k\<close>. The result is the number of attempts used up, the buffer and the client; a frame longer
  than the sample is a fault.
\<close>

function poll ::
  "(nat \<Rightarrow> wait_result \<times> mem) \<Rightarrow> nat \<Rightarrow> int \<Rightarrow> nat \<Rightarrow> mem \<Rightarrow> client \<Rightarrow> (nat \<times> mem \<times> client) option" where
  "poll env maxAttempts sz attempts pData c =
    (if attempts < maxAttempts then
       (case Client_ReadFrame (fst (env attempts)) (Some pData) (of_nat PS3EYE_FRAME_SIZE) True True c
               (snd (env attempts)) of
         (r, c1, _) \<Rightarrow>
          if rr_ok r then
            (if int (min PS3EYE_FRAME_SIZE (hdr (snd (env attempts)) H_dataSize)) \<le> sz
             then Some (attempts, the (rr_dest r), c1) else None)
          else poll env maxAttempts sz (Suc attempts) pData c1)
     else Some (attempts, pData, c))"
  by pat_completeness auto
termination by (relation "measure (\<lambda>(_, n, _, k, _). n - k)") auto

declare poll.simps [simp del]

record fill_answers =
  f_os :: os_answers
  f_pointer :: hresult
  f_env :: "nat \<Rightarrow> wait_result \<times> mem"

text \<open>The actual data length the sample is given is the last component of \<open>filled\<close>.\<close>

record filled =
  f_hr :: hresult
  f_sample :: "media_sample option"
  f_pin :: virtual_pin
  f_section :: mem
  f_length :: "nat option"

definition maxAttempts :: nat where "maxAttempts = 10"

definition Virtual_FillBuffer ::
  "fill_answers \<Rightarrow> virtual_pin \<Rightarrow> media_sample option \<Rightarrow> mem \<Rightarrow> filled option" where
  "Virtual_FillBuffer a pin pSample m =
    (case pSample of
       None \<Rightarrow> Some \<lparr>f_hr = E_POINTER, f_sample = None, f_pin = pin, f_section = m, f_length = None\<rparr>
     | Some smp \<Rightarrow>
    (case (if IsConnected (v_client pin) then (True, v_client pin, m, [])
           else Client_Connect (f_os a) (v_client pin) m) of (ok, c, m1, _) \<Rightarrow>
      let pin1 = pin\<lparr>v_client := c\<rparr> in
      if \<not> ok then Some \<lparr>f_hr = S_OK, f_sample = Some smp, f_pin = pin1, f_section = m1, f_length = None\<rparr>
      else if failed (f_pointer a) then
        Some \<lparr>f_hr = f_pointer a, f_sample = Some smp, f_pin = pin1, f_section = m1, f_length = None\<rparr>
      else do {
        (attempts, pData, c2) \<leftarrow> poll (f_env a) maxAttempts (smp_size smp) 0 (smp_data smp) c;
        let pin2 = pin1\<lparr>v_client := c2\<rparr>;
        let smp1 = smp\<lparr>smp_data := pData\<rparr>;
        if attempts \<ge> maxAttempts then
          Some \<lparr>f_hr = S_OK, f_sample = Some smp1, f_pin = pin2, f_section = m1, f_length = None\<rparr>
        else
          let rtStart = m_rtLastTime pin2; rtStop = rtStart + 10000000 div int PS3EYE_FPS in
          Some \<lparr>f_hr = S_OK,
            f_sample = Some (smp1\<lparr>smp_time := Some (of_int rtStart, of_int rtStop), smp_sync := True\<rparr>),
            f_pin = pin2\<lparr>m_rtLastTime := rtStop\<rparr>, f_section = m1, f_length = Some PS3EYE_FRAME_SIZE\<rparr> }))"

definition Virtual_Notify :: hresult where "Virtual_Notify = E_NOTIMPL"

section \<open>The polling loop\<close>

definition poll_read :: "(nat \<Rightarrow> wait_result \<times> mem) \<Rightarrow> mem \<Rightarrow> client \<Rightarrow> nat \<Rightarrow> read_result \<times> client" where
  "poll_read env d c k =
    (case Client_ReadFrame (fst (env k)) (Some d) (of_nat PS3EYE_FRAME_SIZE) True True c (snd (env k)) of
      (r, c1, _) \<Rightarrow> (r, c1))"

lemma refused_read_keeps_client: "\<not> rr_ok (fst (poll_read env d c k)) \<Longrightarrow> snd (poll_read env d c k) = c"
  by (auto simp: poll_read_def Client_ReadFrame_def Let_def split: if_splits)

text \<open>The outcome of the loop, when no frame is longer than the sample.\<close>

lemma poll_spec:
  assumes "\<And>j. hdr (snd (env j)) H_dataSize \<le> PS3EYE_FRAME_SIZE" and "int PS3EYE_FRAME_SIZE \<le> sz" and "k \<le> n"
  shows "\<exists>k'. k \<le> k' \<and> k' \<le> n \<and> (\<forall>j. k \<le> j \<and> j < k' \<longrightarrow> \<not> rr_ok (fst (poll_read env d c j))) \<and>
     (if k' < n
      then rr_ok (fst (poll_read env d c k')) \<and>
           poll env n sz k d c = Some (k', the (rr_dest (fst (poll_read env d c k'))), snd (poll_read env d c k'))
      else poll env n sz k d c = Some (k', d, c))"
  using assms(3)
proof (induction "n - k" arbitrary: k)
  case 0
  then show ?case by (intro exI [of _ k]) (auto simp: poll.simps)
next
  case (Suc x)
  then have lt: "k < n" by simp
  obtain r c1 where rd: "poll_read env d c k = (r, c1)" by (cases "poll_read env d c k")
  obtain calls where full: "Client_ReadFrame (fst (env k)) (Some d) (of_nat PS3EYE_FRAME_SIZE) True True c
      (snd (env k)) = (r, c1, calls)" using rd by (auto simp: poll_read_def split: prod.splits)
  show ?case
  proof (cases "rr_ok r")
    case True
    have "int (min PS3EYE_FRAME_SIZE (hdr (snd (env k)) H_dataSize)) \<le> sz" using assms(2) by linarith
    then show ?thesis using lt True rd full by (intro exI [of _ k]) (auto simp: poll.simps)
  next
    case False
    have "x = n - Suc k" using Suc.hyps(2) by simp
    note ih = Suc.hyps(1) [OF this]
    have ih: "\<exists>k' \<ge> Suc k. k' \<le> n \<and> (\<forall>j. Suc k \<le> j \<and> j < k' \<longrightarrow> \<not> rr_ok (fst (poll_read env d c j))) \<and>
       (if k' < n then rr_ok (fst (poll_read env d c k')) \<and>
          poll env n sz (Suc k) d c = Some (k', the (rr_dest (fst (poll_read env d c k'))), snd (poll_read env d c k'))
        else poll env n sz (Suc k) d c = Some (k', d, c))"
      using ih lt by simp
    from False have "c1 = c" using refused_read_keeps_client [of env d c k] rd by simp
    then have "poll env n sz k d c = poll env n sz (Suc k) d c"
      using lt False full by (subst poll.simps) simp
    moreover obtain k' where "Suc k \<le> k'" "k' \<le> n" "\<forall>j. Suc k \<le> j \<and> j < k' \<longrightarrow> \<not> rr_ok (fst (poll_read env d c j))"
      "if k' < n then rr_ok (fst (poll_read env d c k')) \<and>
         poll env n sz (Suc k) d c = Some (k', the (rr_dest (fst (poll_read env d c k'))), snd (poll_read env d c k'))
       else poll env n sz (Suc k) d c = Some (k', d, c)"
      using ih by blast
    moreover have "\<not> rr_ok (fst (poll_read env d c k))" using False rd by simp
    moreover have "k \<le> j \<longleftrightarrow> j = k \<or> Suc k \<le> j" for j by auto
    ultimately show ?thesis by (intro exI [of _ k']) auto
  qed
qed

lemma Virtual_GetMediaType_first:
  assumes "sizeof_VIDEOINFOHEADER \<le> n" and "n < 2 ^ 32"
  shows "Virtual_GetMediaType n (Some c) 0 (Some InitMediaType) h = Some (S_OK,
     Some (SetSampleSize (of_nat PS3EYE_FRAME_SIZE) (InitMediaType\<lparr>majortype := MEDIATYPE_Video,
       subtype := MEDIASUBTYPE_RGB24, formattype := FORMAT_VideoInfo, cbFormat := of_nat n, pbFormat := Some (hnext h)\<rparr>)),
     h\<lparr>hblk := (hblk h)(hnext h \<mapsto> (n, virtual_block n c)), hnext := Suc (hnext h)\<rparr>)"
proof -
  have "unat (of_nat n :: u32) = n" "(of_nat n :: u32) \<noteq> 0"
    using assms by (simp_all add: unat_of_nat sizeof_VIDEOINFOHEADER_def) (auto simp flip: unat_eq_0 simp: unat_of_nat)
  then show ?thesis
    by (simp add: Virtual_GetMediaType_def AllocFormatBuffer_def CoTaskMemAlloc_def InitMediaType_def
        update_block_def SetSampleSize_def SetSubtype_def SetTemporalCompression_def SetFormatType_def SetType_def)
qed

section \<open>Properties\<close>

text \<open>The virtual camera advertises the shared memory's frames. Its only media type passes its
  own check, its picture size, image size and frame time are those of the section the service
  initialises, and positions beyond the first end the enumeration.\<close>

theorem virtual_type_matches_the_section:
  assumes "sizeof_VIDEOINFOHEADER \<le> n" and "n < 2 ^ 32"
  shows "\<exists>mt h1. Virtual_GetMediaType n (Some c) 0 (Some InitMediaType) h = Some (S_OK, Some mt, h1)
     \<and> Virtual_CheckMediaType h1 (Some mt) = Some S_OK
     \<and> peek h1 mt V_biWidth = Some (hdr (init_header pid m) H_width)
     \<and> peek h1 mt V_biHeight = Some (hdr (init_header pid m) H_height)
     \<and> peek h1 mt V_biSizeImage = Some (hdr (init_header pid m) H_dataSize)
     \<and> peek h1 mt V_AvgTimePerFrame = Some 333333
     \<and> unat (GetSampleSize mt) = PS3EYE_FRAME_SIZE
     \<and> Virtual_GetMediaType n (Some c) (1 + int k) (Some InitMediaType) h
         = Some (VFW_S_NO_MORE_ITEMS, Some InitMediaType, h)"
proof -
  let ?B = "virtual_block n c" and ?p = "hnext h"
  let ?mt = "SetSampleSize (of_nat PS3EYE_FRAME_SIZE) (InitMediaType\<lparr>majortype := MEDIATYPE_Video,
     subtype := MEDIASUBTYPE_RGB24, formattype := FORMAT_VideoInfo, cbFormat := of_nat n, pbFormat := Some ?p\<rparr>)"
  let ?h1 = "h\<lparr>hblk := (hblk h)(?p \<mapsto> (n, ?B)), hnext := Suc ?p\<rparr>"
  have n: "unat (of_nat n :: u32) = n" "(of_nat n :: u32) \<noteq> 0"
    using assms by (simp_all add: unat_of_nat sizeof_VIDEOINFOHEADER_def) (auto simp flip: unat_eq_0 simp: unat_of_nat)
  have pk: "peek ?h1 ?mt f = Some (vget ?B f)" for f
    by (rule peek_block) (use assms in \<open>auto simp: SetSampleSize_def ps3eye_consts\<close>)
  have v: "vget ?B V_biWidth = PS3EYE_WIDTH" "vget ?B V_biHeight = PS3EYE_HEIGHT"
    "vget ?B V_biSizeImage = PS3EYE_FRAME_SIZE" "vget ?B V_AvgTimePerFrame = 333333"
    by (simp_all add: virtual_block_def ps3eye_consts)
  note Virtual_GetMediaType_first [OF assms, of c h]
  moreover have "dword_abs (of_nat PS3EYE_HEIGHT) = 480" by (simp add: dword_abs_def ps3eye_consts)
  then have "Virtual_CheckMediaType ?h1 (Some ?mt) = Some S_OK"
    by (simp add: Virtual_CheckMediaType_def pk v) (simp add: SetSampleSize_def ps3eye_consts)
  moreover have "unat (GetSampleSize ?mt) = PS3EYE_FRAME_SIZE"
    by (simp add: ps3eye_consts GetSampleSize_def SetSampleSize_def)
  moreover have "Virtual_GetMediaType n (Some c) (1 + int k) (Some InitMediaType) h
      = Some (VFW_S_NO_MORE_ITEMS, Some InitMediaType, h)"
    by (simp add: Virtual_GetMediaType_def)
  moreover have "hdr (init_header pid m) H_width = PS3EYE_WIDTH" "hdr (init_header pid m) H_height = PS3EYE_HEIGHT"
    "hdr (init_header pid m) H_dataSize = PS3EYE_FRAME_SIZE"
    by (simp_all add: init_header_def ps3eye_consts)
  ultimately show ?thesis
    using pk v by (intro exI [of _ ?mt] exI [of _ ?h1]) simp
qed

theorem virtual_type_matches_the_section_witness:
  "\<exists>mt h1. Virtual_GetMediaType 1124 (Some (\<lambda>_. 0)) 0 (Some InitMediaType) empty_heap = Some (S_OK, Some mt, h1)
     \<and> Virtual_CheckMediaType h1 (Some mt) = Some S_OK"
  using virtual_type_matches_the_section [where n = 1124 and c = "\<lambda>_. 0" and h = empty_heap and pid = 0
      and m = "\<lambda>_. 0" and k = 0]
  unfolding sizeof_VIDEOINFOHEADER_def by auto

abbreviation fill_read :: "fill_answers \<Rightarrow> virtual_pin \<Rightarrow> media_sample \<Rightarrow> nat \<Rightarrow> read_result" where
  "fill_read a pin smp k \<equiv> fst (poll_read (f_env a) (smp_data smp) (v_client pin) k)"

text \<open>C10: Filling a sample always returns \<open>S_OK\<close> within ten polls, whatever the service does. The
  sample holds the first new frame the polls find and the next frame interval, which becomes the
  pin's last time; when no poll finds one the sample is passed on as it came, without a time
  stamp, and the pin is unchanged.\<close>

theorem virtual_fill_takes_the_first_new_frame:
  assumes up: "IsConnected (v_client pin)" and ptr: "succeeded (f_pointer a)"
    and hdrs: "\<And>j. header_ok (snd (f_env a j))" and size: "int PS3EYE_FRAME_SIZE \<le> smp_size smp"
  shows "\<exists>r. Virtual_FillBuffer a pin (Some smp) m = Some r \<and> f_hr r = S_OK \<and> f_section r = m \<and>
    ((\<exists>k < 10. (\<forall>j < k. \<not> rr_ok (fill_read a pin smp j)) \<and> rr_ok (fill_read a pin smp k)
        \<and> f_sample r = Some (smp\<lparr>smp_data := the (rr_dest (fill_read a pin smp k)),
             smp_time := Some (of_int (m_rtLastTime pin), of_int (m_rtLastTime pin + 333333)), smp_sync := True\<rparr>)
        \<and> m_rtLastTime (f_pin r) = m_rtLastTime pin + 333333 \<and> f_length r = Some PS3EYE_FRAME_SIZE)
     \<or> ((\<forall>j < 10. \<not> rr_ok (fill_read a pin smp j)) \<and> f_sample r = Some smp \<and> f_pin r = pin \<and> f_length r = None))"
proof -
  let ?env = "f_env a" and ?d = "smp_data smp" and ?c = "v_client pin"
  have "hdr (snd (?env j)) H_dataSize \<le> PS3EYE_FRAME_SIZE" for j
    using hdrs [of j] by (simp add: header_ok_def)
  from poll_spec [of ?env, OF this size, of 0 maxAttempts ?d ?c] obtain k where k:
    "k \<le> maxAttempts" "\<forall>j < k. \<not> rr_ok (fst (poll_read ?env ?d ?c j))"
    "if k < maxAttempts then rr_ok (fst (poll_read ?env ?d ?c k)) \<and>
       poll ?env maxAttempts (smp_size smp) 0 ?d ?c
         = Some (k, the (rr_dest (fst (poll_read ?env ?d ?c k))), snd (poll_read ?env ?d ?c k))
     else poll ?env maxAttempts (smp_size smp) 0 ?d ?c = Some (k, ?d, ?c)"
    by auto
  show ?thesis
  proof (cases "k < maxAttempts")
    case True
    then show ?thesis
      using k up ptr
      by (auto simp: Virtual_FillBuffer_def Let_def maxAttempts_def ps3eye_consts intro!: exI [of _ k])
  next
    case False
    then have "k = 10" using k(1) by (simp add: maxAttempts_def)
    then show ?thesis
      using k up ptr False by (simp add: Virtual_FillBuffer_def Let_def maxAttempts_def)
  qed
qed

definition demo_virtual_pin :: virtual_pin where
  "demo_virtual_pin = new_virtual_pin\<lparr>v_client := demo_client, m_rtLastTime := 666666\<rparr>"

definition demo_fill :: fill_answers where
  "demo_fill = \<lparr>f_os = all_granted, f_pointer = S_OK, f_env = (\<lambda>k. (WAIT_OBJECT_0,
     if k < 3 then demo_section else set_hdr H_frameNumber 1 demo_section))\<rparr>"

theorem virtual_fill_takes_the_first_new_frame_witness:
  "\<exists>r. Virtual_FillBuffer demo_fill demo_virtual_pin (Some (demo_sample 921600)) demo_section = Some r
     \<and> m_rtLastTime (f_pin r) = 999999 \<and> smp_time (the (f_sample r)) = Some (666666, 999999)"
proof -
  have ok: "header_ok (snd (f_env demo_fill j))" for j
    using demo_section_ok(1) by (simp add: demo_fill_def header_ok_def)
  have "rr_ok (fill_read demo_fill demo_virtual_pin (demo_sample 921600) 3)"
    by (simp add: poll_read_def Client_ReadFrame_def demo_fill_def demo_virtual_pin_def demo_client_def
        demo_section_ok Let_def)
  then show ?thesis
    using virtual_fill_takes_the_first_new_frame [of demo_virtual_pin demo_fill, OF _ _ ok,
        of "demo_sample 921600" demo_section]
    by (fastforce simp: demo_virtual_pin_def demo_client_def IsConnected_def demo_fill_def demo_sample_def
        ps3eye_consts)
qed

end
