(* ===== verification/SourceStream.thy ===== *)
theory SourceStream
  imports Prelude
begin

text \<open>
  The streaming thread of a DirectShow source pin: CAMThread of baseclasses/wxutil.cpp, a worker
  that takes one command at a time from its client through two events, and CSourceStream of
  baseclasses/source.cpp, whose worker starts the pin, pushes samples and stops on those
  commands. The worker is modelled at the level of its event operations, so that the order
  inside \<open>Reply\<close> and the polls of the sample loop are steps of their own; the pin's virtual
  functions, the allocator and the downstream filter answer through arguments.
\<close>

section \<open>State\<close>

datatype command = CMD_INIT | CMD_PAUSE | CMD_RUN | CMD_STOP | CMD_EXIT

text \<open>What the worker does besides the handshake.\<close>

datatype hook =
    H_OnThreadCreate hresult | H_OnThreadStartPlay | H_OnThreadDestroy hresult
  | H_GetDeliveryBuffer | H_FillBuffer hresult | H_Deliver hresult | H_ReleaseSample
  | H_EndOfStream | H_ErrorAbort hresult

text \<open>
  Where the worker is: waiting in one of its two \<open>GetRequest\<close> loops, starting, before the sample
  loop, at its \<open>CheckRequest\<close>, tidying up, or in one of the two halves of a \<open>Reply\<close>, with the
  place it goes on to.
\<close>

datatype place =
    W_none | W_init | W_create | W_main | W_startplay | W_loop | W_destroy | W_exit nat
  | W_reply hresult place | W_signal place

record cam_thread =
  m_hThread :: bool
  m_EventSend :: bool
  m_EventComplete :: bool
  m_dwParam :: command
  m_dwReturnVal :: hresult
  at_place :: place
  hooks :: "hook list"

definition new_thread :: cam_thread where
  "new_thread = \<lparr>m_hThread = False, m_EventSend = False, m_EventComplete = False,
     m_dwParam = CMD_EXIT, m_dwReturnVal = S_OK, at_place = W_none, hooks = []\<rparr>"

text \<open>What the worker's surroundings answer at one step.\<close>

record worker_answers =
  w_create :: hresult
  w_destroy :: hresult
  w_buffer :: hresult
  w_fill :: hresult
  w_deliver :: hresult

section \<open>The worker\<close>

definition log :: "hook list \<Rightarrow> cam_thread \<Rightarrow> cam_thread" where
  "log hs t = t\<lparr>hooks := hooks t @ hs\<rparr>"

text \<open>One sample of \<open>DoBufferProcessingLoop\<close>: whether the loop goes on, and what was done.\<close>

definition process_sample :: "worker_answers \<Rightarrow> bool \<times> hook list" where
  "process_sample a =
    (if failed (w_buffer a) then (True, [])
     else if w_fill a = S_OK then
       (w_deliver a = S_OK,
        [H_GetDeliveryBuffer, H_FillBuffer S_OK, H_Deliver (w_deliver a), H_ReleaseSample])
     else if w_fill a = S_FALSE then
       (False, [H_GetDeliveryBuffer, H_FillBuffer S_FALSE, H_ReleaseSample, H_EndOfStream])
     else
       (False, [H_GetDeliveryBuffer, H_FillBuffer (w_fill a), H_ReleaseSample, H_EndOfStream,
                H_ErrorAbort (w_fill a)]))"

text \<open>
  One step of \<open>ThreadProc\<close>, or \<open>None\<close> when it waits for a request or has ended. A stop command
  leaves the sample loop unanswered: the outer loop finds the event still set and replies.
\<close>

definition worker_step :: "worker_answers \<Rightarrow> cam_thread \<Rightarrow> cam_thread option" where
  "worker_step a t =
    (case at_place t of
       W_none \<Rightarrow> None
     | W_exit _ \<Rightarrow> None
     | W_init \<Rightarrow>
        if \<not> m_EventSend t then None
        else if m_dwParam t \<noteq> CMD_INIT then Some (t\<lparr>at_place := W_reply E_UNEXPECTED W_init\<rparr>)
        else Some (t\<lparr>at_place := W_create\<rparr>)
     | W_create \<Rightarrow>
        if failed (w_create a)
        then Some (log [H_OnThreadCreate (w_create a), H_OnThreadDestroy (w_destroy a)]
                    (t\<lparr>at_place := W_reply (w_create a) (W_exit 1)\<rparr>))
        else Some (log [H_OnThreadCreate (w_create a)] (t\<lparr>at_place := W_reply S_OK W_main\<rparr>))
     | W_main \<Rightarrow>
        if \<not> m_EventSend t then None
        else (case m_dwParam t of
            CMD_EXIT \<Rightarrow> Some (t\<lparr>at_place := W_reply S_OK W_destroy\<rparr>)
          | CMD_RUN \<Rightarrow> Some (t\<lparr>at_place := W_reply S_OK W_startplay\<rparr>)
          | CMD_PAUSE \<Rightarrow> Some (t\<lparr>at_place := W_reply S_OK W_startplay\<rparr>)
          | CMD_STOP \<Rightarrow> Some (t\<lparr>at_place := W_reply S_OK W_main\<rparr>)
          | CMD_INIT \<Rightarrow> Some (t\<lparr>at_place := W_reply E_NOTIMPL W_main\<rparr>))
     | W_startplay \<Rightarrow> Some (log [H_OnThreadStartPlay] (t\<lparr>at_place := W_loop\<rparr>))
     | W_loop \<Rightarrow>
        if m_EventSend t then
          (case m_dwParam t of
             CMD_RUN \<Rightarrow> Some (t\<lparr>at_place := W_reply S_OK W_loop\<rparr>)
           | CMD_PAUSE \<Rightarrow> Some (t\<lparr>at_place := W_reply S_OK W_loop\<rparr>)
           | CMD_STOP \<Rightarrow> Some (t\<lparr>at_place := W_main\<rparr>)
           | _ \<Rightarrow> Some (t\<lparr>at_place := W_reply E_UNEXPECTED W_loop\<rparr>))
        else (case process_sample a of (continues, hs) \<Rightarrow>
           Some (log hs (t\<lparr>at_place := (if continues then W_loop else W_main)\<rparr>)))
     | W_destroy \<Rightarrow> Some (log [H_OnThreadDestroy (w_destroy a)]
         (t\<lparr>at_place := W_exit (if failed (w_destroy a) then 1 else 0)\<rparr>))
     | W_reply hr p \<Rightarrow> Some (t\<lparr>m_dwReturnVal := hr, m_EventSend := False, at_place := W_signal p\<rparr>)
     | W_signal p \<Rightarrow> Some (t\<lparr>m_EventComplete := True, at_place := p\<rparr>))"

section \<open>The client\<close>

text \<open>
  \<open>CallWorker\<close> holds the access lock, so one client is inside it at a time; \<open>caller\<close> is the
  command it waits on. A step of the worker is labelled with what it did meanwhile. \<open>CreateThread\<close> may refuse; \<open>Close\<close> waits for the thread to end.
\<close>

record system =
  thr :: cam_thread
  caller :: "command option"

datatype label = Work "hook list" | Created bool | Called command | Refused command | Returned command hresult | Closed

definition Create_thread :: "bool \<Rightarrow> cam_thread \<Rightarrow> bool \<times> cam_thread" where
  "Create_thread ok t =
    (if m_hThread t then (False, t)
     else if ok then (True, t\<lparr>m_hThread := True, at_place := W_init\<rparr>) else (False, t))"

definition send_request :: "command \<Rightarrow> cam_thread \<Rightarrow> cam_thread" where
  "send_request c t = t\<lparr>m_dwParam := c, m_EventSend := True\<rparr>"

definition take_reply :: "cam_thread \<Rightarrow> hresult \<times> cam_thread" where
  "take_reply t = (m_dwReturnVal t, t\<lparr>m_EventComplete := False\<rparr>)"

inductive sys_step :: "system \<Rightarrow> label \<Rightarrow> system \<Rightarrow> bool" where
  work: "worker_step a (thr s) = Some t \<Longrightarrow> hooks t = hooks (thr s) @ hs \<Longrightarrow>
    sys_step s (Work hs) (s\<lparr>thr := t\<rparr>)"
| create: "caller s = None \<Longrightarrow> Create_thread ok (thr s) = (r, t) \<Longrightarrow> sys_step s (Created r) (s\<lparr>thr := t\<rparr>)"
| call: "caller s = None \<Longrightarrow> m_hThread (thr s) \<Longrightarrow>
    sys_step s (Called c) (s\<lparr>thr := send_request c (thr s), caller := Some c\<rparr>)"
| refuse: "caller s = None \<Longrightarrow> \<not> m_hThread (thr s) \<Longrightarrow> sys_step s (Refused c) s"
| return: "caller s = Some c \<Longrightarrow> m_EventComplete (thr s) \<Longrightarrow> take_reply (thr s) = (hr, t) \<Longrightarrow>
    sys_step s (Returned c hr) (s\<lparr>thr := t, caller := None\<rparr>)"
| close: "caller s = None \<Longrightarrow> m_hThread (thr s) \<Longrightarrow> at_place (thr s) = W_exit n \<Longrightarrow>
    sys_step s Closed (s\<lparr>thr := (thr s)\<lparr>m_hThread := False, at_place := W_none\<rparr>\<rparr>)"

text \<open>The histories: every interleaving of the client's calls with the worker's steps.\<close>

inductive sys_history :: "label list \<Rightarrow> system \<Rightarrow> bool" where
  start: "sys_history [] \<lparr>thr = new_thread, caller = None\<rparr>"
| step: "sys_history ls s \<Longrightarrow> sys_step s l s' \<Longrightarrow> sys_history (ls @ [l]) s'"

inductive_cases sys_stepE: "sys_step s l s'"

section \<open>The handshake invariant\<close>

text \<open>
  A request is in one of three phases: sent and not yet answered, being signalled, or answered.
  \<open>resting\<close> places are those outside a reply.
\<close>

fun resting :: "place \<Rightarrow> bool" where
  "resting (W_reply _ _) = False"
| "resting (W_signal _) = False"
| "resting _ = True"

fun reply_place :: "place \<Rightarrow> bool" where
  "reply_place p = (resting p \<and> p \<noteq> W_create \<and> p \<noteq> W_none)"

definition awaiting :: "cam_thread \<Rightarrow> command \<Rightarrow> bool" where
  "awaiting t c \<longleftrightarrow> m_EventSend t \<and> \<not> m_EventComplete t \<and> m_dwParam t = c \<and>
     (case at_place t of W_reply hr p \<Rightarrow> reply_place p | W_create \<Rightarrow> c = CMD_INIT | p \<Rightarrow> resting p)"

definition signalling :: "cam_thread \<Rightarrow> bool" where
  "signalling t \<longleftrightarrow> \<not> m_EventSend t \<and> \<not> m_EventComplete t \<and>
     (\<exists>p. at_place t = W_signal p \<and> reply_place p)"

definition has_reply :: "cam_thread \<Rightarrow> bool" where
  "has_reply t \<longleftrightarrow> \<not> m_EventSend t \<and> m_EventComplete t \<and> resting (at_place t) \<and> at_place t \<noteq> W_create"

definition quiet :: "cam_thread \<Rightarrow> bool" where
  "quiet t \<longleftrightarrow> \<not> m_EventSend t \<and> \<not> m_EventComplete t \<and> resting (at_place t) \<and> at_place t \<noteq> W_create"

definition handshake_inv :: "system \<Rightarrow> bool" where
  "handshake_inv s \<longleftrightarrow> (m_hThread (thr s) \<longleftrightarrow> at_place (thr s) \<noteq> W_none) \<and>
     (case caller s of
        None \<Rightarrow> quiet (thr s)
      | Some c \<Rightarrow> awaiting (thr s) c \<or> signalling (thr s) \<or> has_reply (thr s))"

lemmas phase_defs = awaiting_def signalling_def has_reply_def quiet_def log_def

lemma worker_handle: "worker_step a t = Some t' \<Longrightarrow> m_hThread t' = m_hThread t"
  by (auto simp: worker_step_def log_def split: place.splits command.splits if_splits prod.splits)

lemma worker_pending:
  assumes "awaiting t c" and "worker_step a t = Some t'"
  shows "awaiting t' c \<or> signalling t'"
  using assms
  by (cases "at_place t"; cases c)
    (auto simp: worker_step_def phase_defs split: if_splits prod.splits)

lemma worker_signalling:
  assumes "signalling t" and "worker_step a t = Some t'"
  shows "has_reply t'"
  using assms by (auto simp: worker_step_def signalling_def has_reply_def)

lemma worker_answered:
  assumes "has_reply t" and "worker_step a t = Some t'"
  shows "has_reply t'"
  using assms
  by (cases "at_place t") (auto simp: worker_step_def phase_defs split: if_splits prod.splits)

lemma worker_quiet:
  assumes "quiet t" and "worker_step a t = Some t'"
  shows "quiet t'"
  using assms
  by (cases "at_place t") (auto simp: worker_step_def phase_defs split: if_splits prod.splits)

lemma worker_alive:
  assumes "worker_step a t = Some t'"
    and "quiet t \<or> awaiting t c \<or> signalling t \<or> has_reply t"
  shows "at_place t' \<noteq> W_none"
  using assms
  by (cases "at_place t"; cases c) (auto simp: worker_step_def phase_defs split: if_splits prod.splits)

lemma sys_step_inv:
  assumes "sys_step s l s'" and inv: "handshake_inv s"
  shows "handshake_inv s'"
  using assms(1)
proof (cases rule: sys_step.cases)
  case (work a t hs)
  have alive: "at_place (thr s) \<noteq> W_none" using work(3) by (auto simp: worker_step_def)
  then have "m_hThread t" using inv worker_handle [OF work(3)] by (simp add: handshake_inv_def)
  moreover have "at_place t \<noteq> W_none"
    using inv worker_alive [OF work(3)] by (auto simp: handshake_inv_def split: option.splits)
  ultimately show ?thesis
    using inv work worker_pending [OF _ work(3)] worker_signalling [OF _ work(3)]
      worker_answered [OF _ work(3)] worker_quiet [OF _ work(3)]
    by (auto simp: handshake_inv_def split: option.splits)
next
  case (create ok r t)
  then show ?thesis
    using inv by (auto simp: handshake_inv_def Create_thread_def phase_defs split: if_splits)
next
  case (call c)
  then show ?thesis
    using inv by (auto simp: handshake_inv_def send_request_def phase_defs split: place.splits)
next
  case (refuse c)
  then show ?thesis using inv by simp
next
  case (return c hr t)
  then show ?thesis
    using inv by (auto simp: handshake_inv_def take_reply_def phase_defs split: place.splits)
next
  case (close n)
  then show ?thesis using inv by (auto simp: handshake_inv_def phase_defs)
qed

lemma sys_history_inv: "sys_history ls s \<Longrightarrow> handshake_inv s"
proof (induction rule: sys_history.induct)
  case start
  show ?case by (simp add: handshake_inv_def new_thread_def phase_defs)
next
  case (step ls s l s')
  then show ?case using sys_step_inv by blast
qed

section \<open>The service the worker gives\<close>

text \<open>
  What a pin's client is promised, without events, return slots and places in the code: a worker
  in one of eight phases, and at most one exchange, a command that has been put to it or that it
  has decided. A command is decided once, by the phase the worker is in; what the call returns
  is that decision. \<open>None\<close> in \<open>decision\<close> is a command the worker first acts on.
\<close>

datatype phase = No_thread | Fresh | Setting_up | Idle | Starting | Playing | Ending | Ended

datatype exchange = No_call | Asked command | Decided command hresult

record pin_service =
  phase :: phase
  exchange :: exchange

fun decision :: "phase \<Rightarrow> command \<Rightarrow> (hresult \<times> phase) option" where
  "decision Fresh c = (if c = CMD_INIT then None else Some (E_UNEXPECTED, Fresh))"
| "decision Idle CMD_INIT = Some (E_NOTIMPL, Idle)"
| "decision Idle CMD_PAUSE = Some (S_OK, Starting)"
| "decision Idle CMD_RUN = Some (S_OK, Starting)"
| "decision Idle CMD_STOP = Some (S_OK, Idle)"
| "decision Idle CMD_EXIT = Some (S_OK, Ending)"
| "decision Playing CMD_PAUSE = Some (S_OK, Playing)"
| "decision Playing CMD_RUN = Some (S_OK, Playing)"
| "decision Playing CMD_STOP = None"
| "decision Playing _ = Some (E_UNEXPECTED, Playing)"
| "decision _ _ = None"

text \<open>
  The service's steps. A request that is waiting is looked at before the next sample: samples are
  pushed only while none is, and only in phase \<open>Playing\<close>.
\<close>

inductive serves :: "pin_service \<Rightarrow> label \<Rightarrow> pin_service \<Rightarrow> bool" where
  hidden: "serves v (Work []) v"
| decide: "decision p c = Some (hr, q) \<Longrightarrow>
    serves \<lparr>phase = p, exchange = Asked c\<rparr> (Work []) \<lparr>phase = q, exchange = Decided c hr\<rparr>"
| set_up: "serves \<lparr>phase = Fresh, exchange = Asked CMD_INIT\<rparr> (Work [])
    \<lparr>phase = Setting_up, exchange = Asked CMD_INIT\<rparr>"
| ready: "succeeded hr \<Longrightarrow> serves \<lparr>phase = Setting_up, exchange = Asked CMD_INIT\<rparr>
    (Work [H_OnThreadCreate hr]) \<lparr>phase = Idle, exchange = Decided CMD_INIT S_OK\<rparr>"
| broken: "failed hr \<Longrightarrow> serves \<lparr>phase = Setting_up, exchange = Asked CMD_INIT\<rparr>
    (Work [H_OnThreadCreate hr, H_OnThreadDestroy d]) \<lparr>phase = Ended, exchange = Decided CMD_INIT hr\<rparr>"
| begin_play: "serves \<lparr>phase = Starting, exchange = x\<rparr> (Work [H_OnThreadStartPlay])
    \<lparr>phase = Playing, exchange = x\<rparr>"
| sample: "\<forall>c. x \<noteq> Asked c \<Longrightarrow> process_sample a = (continues, hs) \<Longrightarrow>
    serves \<lparr>phase = Playing, exchange = x\<rparr> (Work hs)
      \<lparr>phase = (if continues then Playing else Idle), exchange = x\<rparr>"
| stop_play: "serves \<lparr>phase = Playing, exchange = Asked CMD_STOP\<rparr> (Work [])
    \<lparr>phase = Idle, exchange = Asked CMD_STOP\<rparr>"
| tidy_up: "serves \<lparr>phase = Ending, exchange = x\<rparr> (Work [H_OnThreadDestroy d])
    \<lparr>phase = Ended, exchange = x\<rparr>"
| made: "serves \<lparr>phase = No_thread, exchange = No_call\<rparr> (Created True) \<lparr>phase = Fresh, exchange = No_call\<rparr>"
| not_made: "serves \<lparr>phase = p, exchange = No_call\<rparr> (Created False) \<lparr>phase = p, exchange = No_call\<rparr>"
| ask: "p \<noteq> No_thread \<Longrightarrow>
    serves \<lparr>phase = p, exchange = No_call\<rparr> (Called c) \<lparr>phase = p, exchange = Asked c\<rparr>"
| no_worker: "serves \<lparr>phase = No_thread, exchange = No_call\<rparr> (Refused c)
    \<lparr>phase = No_thread, exchange = No_call\<rparr>"
| answer: "serves \<lparr>phase = p, exchange = Decided c hr\<rparr> (Returned c hr) \<lparr>phase = p, exchange = No_call\<rparr>"
| gone: "serves \<lparr>phase = Ended, exchange = No_call\<rparr> Closed \<lparr>phase = No_thread, exchange = No_call\<rparr>"

inductive service_history :: "label list \<Rightarrow> pin_service \<Rightarrow> bool" where
  start: "service_history [] \<lparr>phase = No_thread, exchange = No_call\<rparr>"
| step: "service_history ls v \<Longrightarrow> serves v l v' \<Longrightarrow> service_history (ls @ [l]) v'"

text \<open>The service a state of thread and client stands for.\<close>

fun phase_of :: "place \<Rightarrow> phase" where
  "phase_of W_none = No_thread"
| "phase_of W_init = Fresh"
| "phase_of W_create = Setting_up"
| "phase_of W_main = Idle"
| "phase_of W_startplay = Starting"
| "phase_of W_loop = Playing"
| "phase_of W_destroy = Ending"
| "phase_of (W_exit _) = Ended"
| "phase_of (W_reply _ p) = phase_of p"
| "phase_of (W_signal p) = phase_of p"

fun exchange_of :: "cam_thread \<Rightarrow> command option \<Rightarrow> exchange" where
  "exchange_of t None = No_call"
| "exchange_of t (Some c) =
    (if m_EventComplete t then Decided c (m_dwReturnVal t)
     else case at_place t of W_reply hr _ \<Rightarrow> Decided c hr
       | W_signal _ \<Rightarrow> Decided c (m_dwReturnVal t) | _ \<Rightarrow> Asked c)"

definition service_of :: "system \<Rightarrow> pin_service" where
  "service_of s = \<lparr>phase = phase_of (at_place (thr s)), exchange = exchange_of (thr s) (caller s)\<rparr>"

lemma phase_of_none: "phase_of p = No_thread \<Longrightarrow> resting p \<Longrightarrow> p = W_none"
  by (cases p) auto

lemmas sample_steps = serves.sample [where continues = True, simplified]
  serves.sample [where continues = False, simplified]

text \<open>The worker's steps, by the exchange they find.\<close>

lemma work_quiet:
  assumes "quiet t" and "worker_step a t = Some t'" and "hooks t' = hooks t @ hs"
  shows "serves \<lparr>phase = phase_of (at_place t), exchange = No_call\<rparr> (Work hs)
    \<lparr>phase = phase_of (at_place t'), exchange = No_call\<rparr>"
  using assms
  by (cases "at_place t")
    (auto simp: worker_step_def phase_defs intro: serves.intros sample_steps split: if_splits prod.splits)

lemma work_pending:
  assumes "awaiting t c" and "worker_step a t = Some t'" and "hooks t' = hooks t @ hs"
  shows "serves \<lparr>phase = phase_of (at_place t), exchange = exchange_of t (Some c)\<rparr> (Work hs)
    \<lparr>phase = phase_of (at_place t'), exchange = exchange_of t' (Some c)\<rparr>"
  using assms
  by (cases "at_place t"; cases c)
    (auto simp: worker_step_def phase_defs serves.decide intro: serves.intros sample_steps split: if_splits prod.splits)

lemma work_decided:
  assumes "signalling t \<or> has_reply t" and "worker_step a t = Some t'" and "hooks t' = hooks t @ hs"
  shows "serves \<lparr>phase = phase_of (at_place t), exchange = exchange_of t (Some c)\<rparr> (Work hs)
    \<lparr>phase = phase_of (at_place t'), exchange = exchange_of t' (Some c)\<rparr>"
  using assms
  by (cases "at_place t")
    (auto simp: worker_step_def phase_defs intro: serves.intros sample_steps split: if_splits prod.splits)

lemma service_step:
  assumes inv: "handshake_inv s" and "sys_step s l s'"
  shows "serves (service_of s) l (service_of s')"
  using assms(2)
proof (cases rule: sys_step.cases)
  case (work a t hs)
  then show ?thesis
    using inv work_quiet [OF _ work(3,4)] work_pending [OF _ work(3,4)] work_decided [OF _ work(3,4)]
    by (cases "caller s") (auto simp: service_of_def handshake_inv_def simp del: exchange_of.simps(2))
next
  case (create ok r t)
  then show ?thesis
    using inv by (auto simp: service_of_def handshake_inv_def Create_thread_def intro: serves.intros
        split: if_splits)
next
  case (call c)
  have p: "phase_of (at_place (thr s)) \<noteq> No_thread"
    using inv call(3,4) phase_of_none by (auto simp: handshake_inv_def quiet_def)
  have "serves (service_of s) l \<lparr>phase = phase_of (at_place (thr s)), exchange = Asked c\<rparr>"
    using call serves.ask [OF p] by (simp add: service_of_def)
  moreover have "service_of s' = \<lparr>phase = phase_of (at_place (thr s)), exchange = Asked c\<rparr>"
    using call inv by (cases "at_place (thr s)")
      (auto simp: service_of_def send_request_def handshake_inv_def quiet_def)
  ultimately show ?thesis by simp
next
  case (refuse c)
  then show ?thesis using inv by (auto simp: service_of_def handshake_inv_def intro: serves.intros)
next
  case (return c hr t)
  then show ?thesis by (auto simp: service_of_def take_reply_def intro: serves.intros)
next
  case (close n)
  then show ?thesis by (auto simp: service_of_def intro: serves.intros)
qed

section \<open>Whole calls\<close>

text \<open>
  \<open>CallWorker\<close> as its client sees it: the worker's steps until the completion event, one list
  element each; \<open>None\<close> when they do not lead there, that is, when the client waits for ever
  (or the list is too short, which five steps never are).
\<close>

fun wait_complete :: "worker_answers list \<Rightarrow> cam_thread \<Rightarrow> (hresult \<times> cam_thread) option" where
  "wait_complete as t =
    (if m_EventComplete t then Some (take_reply t)
     else case as of [] \<Rightarrow> None
       | a # as' \<Rightarrow> (case worker_step a t of None \<Rightarrow> None | Some t1 \<Rightarrow> wait_complete as' t1))"

declare wait_complete.simps [simp del]

definition CallWorker :: "worker_answers list \<Rightarrow> command \<Rightarrow> cam_thread \<Rightarrow> (hresult \<times> cam_thread) option" where
  "CallWorker as c t = (if \<not> m_hThread t then Some (E_FAIL, t) else wait_complete as (send_request c t))"

text \<open>The worker on its own, while nobody calls.\<close>

fun worker_run :: "worker_answers list \<Rightarrow> cam_thread \<Rightarrow> cam_thread" where
  "worker_run [] t = t"
| "worker_run (a # as) t = (case worker_step a t of None \<Rightarrow> t | Some t1 \<Rightarrow> worker_run as t1)"

definition Close_thread :: "worker_answers list \<Rightarrow> cam_thread \<Rightarrow> cam_thread option" where
  "Close_thread as t =
    (if \<not> m_hThread t then Some t
     else let t1 = worker_run as t
          in case at_place t1 of W_exit _ \<Rightarrow> Some (t1\<lparr>m_hThread := False, at_place := W_none\<rparr>) | _ \<Rightarrow> None)"

definition Active ::
  "bool \<Rightarrow> bool \<Rightarrow> hresult \<Rightarrow> bool \<Rightarrow> worker_answers list \<Rightarrow> worker_answers list \<Rightarrow> cam_thread
     \<Rightarrow> (hresult \<times> cam_thread) option" where
  "Active filter_active connected base_hr created as1 as2 t =
    (if filter_active then Some (S_FALSE, t)
     else if \<not> connected then Some (S_OK, t)
     else if failed base_hr then Some (base_hr, t)
     else case Create_thread created t of (ok, t1) \<Rightarrow>
       if \<not> ok then Some (E_FAIL, t1)
       else case CallWorker as1 CMD_INIT t1 of
         None \<Rightarrow> None
       | Some (hr, t2) \<Rightarrow> if failed hr then Some (hr, t2) else CallWorker as2 CMD_PAUSE t2)"

definition Inactive ::
  "bool \<Rightarrow> hresult \<Rightarrow> worker_answers list \<Rightarrow> worker_answers list \<Rightarrow> worker_answers list \<Rightarrow> cam_thread
     \<Rightarrow> (hresult \<times> cam_thread) option" where
  "Inactive connected base_hr as1 as2 as3 t =
    (if \<not> connected then Some (S_OK, t)
     else if failed base_hr then Some (base_hr, t)
     else if \<not> m_hThread t then Some (S_OK, t)
     else case CallWorker as1 CMD_STOP t of
       None \<Rightarrow> None
     | Some (hr, t1) \<Rightarrow>
        if failed hr then Some (hr, t1)
        else case CallWorker as2 CMD_EXIT t1 of
          None \<Rightarrow> None
        | Some (hr2, t2) \<Rightarrow>
           if failed hr2 then Some (hr2, t2)
           else map_option (\<lambda>t3. (S_OK, t3)) (Close_thread as3 t2))"

text \<open>Enough steps for any call.\<close>

lemma five_steps:
  assumes "5 \<le> length as"
  obtains a b c d e rest where "as = a # b # c # d # e # rest"
  using assms
  by (auto simp: numeral_eq_Suc Suc_le_length_iff)

lemmas call_defs = CallWorker_def send_request_def take_reply_def wait_complete.simps worker_step_def

lemma stop_returns:
  assumes "quiet t" and "m_hThread t" and "at_place t = W_main \<or> at_place t = W_startplay \<or> at_place t = W_loop"
    and "5 \<le> length as"
  shows "\<exists>hs. CallWorker as CMD_STOP t
     = Some (S_OK, (log hs t)\<lparr>at_place := W_main, m_dwParam := CMD_STOP, m_dwReturnVal := S_OK\<rparr>)
     \<and> hs = (if at_place t = W_startplay then [H_OnThreadStartPlay] else [])"
proof -
  obtain a b c d e rest where "as = a # b # c # d # e # rest" using five_steps [OF assms(4)] .
  then show ?thesis
    using assms(1-3) by (auto simp: call_defs phase_defs)
qed

lemma exit_returns:
  assumes "quiet t" and "m_hThread t" and "at_place t = W_main" and "5 \<le> length as"
  shows "CallWorker as CMD_EXIT t
     = Some (S_OK, t\<lparr>at_place := W_destroy, m_dwParam := CMD_EXIT, m_dwReturnVal := S_OK\<rparr>)"
proof -
  obtain a b c d e rest where "as = a # b # c # d # e # rest" using five_steps [OF assms(4)] .
  then show ?thesis
    using assms(1-3) by (auto simp: call_defs phase_defs)
qed

lemma init_returns:
  assumes "quiet t" and "m_hThread t" and "at_place t = W_init"
    and "as = a # b # c # d # e # rest"
  shows "CallWorker as CMD_INIT t
     = Some (if failed (w_create b)
             then (w_create b, (log [H_OnThreadCreate (w_create b), H_OnThreadDestroy (w_destroy b)] t)
                     \<lparr>at_place := W_exit 1, m_dwParam := CMD_INIT, m_dwReturnVal := w_create b\<rparr>)
             else (S_OK, (log [H_OnThreadCreate (w_create b)] t)
                     \<lparr>at_place := W_main, m_dwParam := CMD_INIT, m_dwReturnVal := S_OK\<rparr>))"
  using assms by (auto simp: call_defs phase_defs)

lemma pause_returns:
  assumes "quiet t" and "m_hThread t" and "at_place t = W_main" and "5 \<le> length as"
  shows "CallWorker as CMD_PAUSE t
     = Some (S_OK, t\<lparr>at_place := W_startplay, m_dwParam := CMD_PAUSE, m_dwReturnVal := S_OK\<rparr>)"
proof -
  obtain a b c d e rest where "as = a # b # c # d # e # rest" using five_steps [OF assms(4)] .
  then show ?thesis
    using assms(1-3) by (auto simp: call_defs phase_defs)
qed

text \<open>What the worker can do by itself after a start: stream, or come to rest.\<close>

definition sample_balance :: "hook list \<Rightarrow> int" where
  "sample_balance hs = int (length (filter (\<lambda>h. h = H_GetDeliveryBuffer) hs))
     - int (length (filter (\<lambda>h. h = H_ReleaseSample) hs))"

lemma sample_balance_append [simp]: "sample_balance (xs @ ys) = sample_balance xs + sample_balance ys"
  by (simp add: sample_balance_def)

lemma process_sample_hooks:
  assumes "process_sample a = (b, hs)"
  shows "sample_balance hs = 0 \<and> (\<forall>hr. H_OnThreadCreate hr \<notin> set hs \<and> H_OnThreadDestroy hr \<notin> set hs)"
  using assms by (auto simp: process_sample_def sample_balance_def split: if_splits)

definition streaming :: "cam_thread \<Rightarrow> cam_thread \<Rightarrow> bool" where
  "streaming t0 t \<longleftrightarrow> quiet t \<and> m_hThread t \<and>
     (at_place t = W_main \<or> at_place t = W_startplay \<or> at_place t = W_loop) \<and>
     (\<exists>hs. hooks t = hooks t0 @ hs \<and> sample_balance hs = 0 \<and>
        (\<forall>hr. H_OnThreadCreate hr \<notin> set hs \<and> H_OnThreadDestroy hr \<notin> set hs))"

lemma streaming_step:
  assumes "streaming t0 t" and "worker_step a t = Some t'"
  shows "streaming t0 t'"
proof -
  obtain hs where hs: "hooks t = hooks t0 @ hs" "sample_balance hs = 0"
    "\<forall>hr. H_OnThreadCreate hr \<notin> set hs \<and> H_OnThreadDestroy hr \<notin> set hs"
    using assms(1) by (auto simp: streaming_def)
  have "\<exists>hs'. hooks t' = hooks t @ hs' \<and> sample_balance hs' = 0 \<and>
      (\<forall>hr. H_OnThreadCreate hr \<notin> set hs' \<and> H_OnThreadDestroy hr \<notin> set hs') \<and>
      (at_place t' = W_main \<or> at_place t' = W_startplay \<or> at_place t' = W_loop)"
    using assms process_sample_hooks [of a]
    by (auto simp: streaming_def worker_step_def log_def phase_defs sample_balance_def
        split: if_splits prod.splits)
  then show ?thesis
    using assms hs worker_quiet [OF _ assms(2)] worker_handle [OF assms(2)]
    by (fastforce simp: streaming_def)
qed

lemma streaming_run: "streaming t0 t \<Longrightarrow> streaming t0 (worker_run as t)"
  by (induction as arbitrary: t) (auto split: option.splits intro: streaming_step)

definition idle_thread :: "cam_thread \<Rightarrow> bool" where
  "idle_thread t \<longleftrightarrow> quiet t \<and> \<not> m_hThread t \<and> at_place t = W_none"

lemma idle_new_thread: "idle_thread new_thread"
  by (simp add: idle_thread_def new_thread_def phase_defs)

lemma Active_starts:
  assumes idle: "idle_thread t" and n: "5 \<le> length as1" "5 \<le> length as2"
    and ok: "succeeded (w_create (as1 ! 1))"
  shows "\<exists>t1 hr. Active False True S_OK True as1 as2 t = Some (S_OK, t1) \<and> succeeded hr
     \<and> streaming (log [H_OnThreadCreate hr] t) t1"
proof -
  obtain a b c d e rest where as: "as1 = a # b # c # d # e # rest" using five_steps [OF n(1)] .
  define t0 where "t0 = t\<lparr>m_hThread := True, at_place := W_init\<rparr>"
  have q0: "quiet t0" "m_hThread t0" "at_place t0 = W_init"
    using idle by (auto simp: idle_thread_def t0_def phase_defs)
  define t1 where "t1 = (log [H_OnThreadCreate (w_create b)] t0)
      \<lparr>at_place := W_main, m_dwParam := CMD_INIT, m_dwReturnVal := S_OK\<rparr>"
  have "CallWorker as1 CMD_INIT t0 = Some (S_OK, t1)"
    using init_returns [OF q0 as] ok as by (simp add: t1_def)
  moreover have "quiet t1" "m_hThread t1" "at_place t1 = W_main"
    using q0 by (auto simp: t1_def phase_defs)
  note p = pause_returns [OF this n(2)]
  ultimately have "Active False True S_OK True as1 as2 t
      = Some (S_OK, t1\<lparr>at_place := W_startplay, m_dwParam := CMD_PAUSE, m_dwReturnVal := S_OK\<rparr>)"
    using idle by (simp add: Active_def Create_thread_def idle_thread_def t0_def)
  moreover have "streaming (log [H_OnThreadCreate (w_create b)] t)
      (t1\<lparr>at_place := W_startplay, m_dwParam := CMD_PAUSE, m_dwReturnVal := S_OK\<rparr>)"
    using q0 by (auto simp: streaming_def t1_def t0_def phase_defs sample_balance_def)
  ultimately show ?thesis using ok as by auto
qed

lemma Inactive_stops:
  assumes st: "streaming t0 t" and n: "5 \<le> length bs1" "5 \<le> length bs2" "bs3 \<noteq> []"
  shows "\<exists>t3 hs d. Inactive True S_OK bs1 bs2 bs3 t = Some (S_OK, t3) \<and> idle_thread t3
     \<and> hooks t3 = hooks t0 @ hs @ [H_OnThreadDestroy d] \<and> sample_balance hs = 0
     \<and> (\<forall>hr. H_OnThreadCreate hr \<notin> set hs \<and> H_OnThreadDestroy hr \<notin> set hs)"
proof -
  have q: "quiet t" "m_hThread t" "at_place t = W_main \<or> at_place t = W_startplay \<or> at_place t = W_loop"
    using st by (auto simp: streaming_def)
  define hs where "hs = (if at_place t = W_startplay then [H_OnThreadStartPlay] else [])"
  define t1 where "t1 = (log hs t)\<lparr>at_place := W_main, m_dwParam := CMD_STOP, m_dwReturnVal := S_OK\<rparr>"
  have s: "CallWorker bs1 CMD_STOP t = Some (S_OK, t1)"
    using stop_returns [OF q n(1)] by (auto simp: t1_def hs_def)
  have q1: "quiet t1" "m_hThread t1" "at_place t1 = W_main"
    using q by (auto simp: t1_def phase_defs)
  define t2 where "t2 = t1\<lparr>at_place := W_destroy, m_dwParam := CMD_EXIT, m_dwReturnVal := S_OK\<rparr>"
  have e: "CallWorker bs2 CMD_EXIT t1 = Some (S_OK, t2)"
    using exit_returns [OF q1 n(2)] by (simp add: t2_def)
  obtain b bs where bs: "bs3 = b # bs" using n(3) by (cases bs3) auto
  have stay: "worker_run xs y = y" if "at_place y = W_exit k" for xs y k
    using that by (cases xs) (auto simp: worker_step_def)
  have run: "worker_run bs3 t2 = (log [H_OnThreadDestroy (w_destroy b)] t2)
      \<lparr>at_place := W_exit (if failed (w_destroy b) then 1 else 0)\<rparr>"
    by (simp add: bs worker_step_def t2_def stay log_def)
  then have "Inactive True S_OK bs1 bs2 bs3 t = Some (S_OK, (log [H_OnThreadDestroy (w_destroy b)] t2)
      \<lparr>at_place := W_none, m_hThread := False\<rparr>)"
    using q(2) s e q1 by (simp add: Inactive_def Close_thread_def Let_def t2_def log_def)
  moreover obtain hs0 where "hooks t = hooks t0 @ hs0" "sample_balance hs0 = 0"
    "\<forall>hr. H_OnThreadCreate hr \<notin> set hs0 \<and> H_OnThreadDestroy hr \<notin> set hs0"
    using st by (auto simp: streaming_def)
  ultimately show ?thesis
    using q1 by (intro exI [of _ "(log [H_OnThreadDestroy (w_destroy b)] t2)\<lparr>at_place := W_none, m_hThread := False\<rparr>"]
        exI [of _ "hs0 @ hs"] exI [of _ "w_destroy b"])
      (auto simp: t2_def t1_def hs_def idle_thread_def phase_defs sample_balance_def)
qed

section \<open>Properties\<close>


definition all_well :: worker_answers where
  "all_well = \<lparr>w_create = S_OK, w_destroy = S_OK, w_buffer = S_OK, w_fill = S_OK, w_deliver = S_OK\<rparr>"

definition started_thread :: cam_thread where
  "started_thread = new_thread\<lparr>m_hThread := True, at_place := W_init\<rparr>"


text \<open>C12: Activating and deactivating a pin is a complete session. With a pin that starts
  successfully, \<open>Active\<close> returns with the worker streaming; however far it then runs, whatever the
  allocator, the pin and the downstream filter answer, \<open>Inactive\<close> returns (five worker steps a
  call are enough), leaves no thread, has called \<open>OnThreadCreate\<close> first and \<open>OnThreadDestroy\<close>
  last and each once, and every sample that was taken was released.\<close>

theorem start_stop_session:
  assumes "idle_thread t" and "list_all (\<lambda>a. succeeded (w_create a)) as1"
    and "5 \<le> length as1" "5 \<le> length as2" "5 \<le> length bs1" "5 \<le> length bs2" "bs3 \<noteq> []"
  shows "\<exists>t1 t3 hr hs d. Active False True S_OK True as1 as2 t = Some (S_OK, t1)
     \<and> Inactive True S_OK bs1 bs2 bs3 (worker_run ws t1) = Some (S_OK, t3) \<and> idle_thread t3
     \<and> hooks t3 = hooks t @ [H_OnThreadCreate hr] @ hs @ [H_OnThreadDestroy d] \<and> succeeded hr
     \<and> sample_balance hs = 0
     \<and> (\<forall>hr. H_OnThreadCreate hr \<notin> set hs \<and> H_OnThreadDestroy hr \<notin> set hs)"
proof -
  have "succeeded (w_create (as1 ! 1))" using assms(2,3) by (simp add: list_all_length)
  then obtain t1 hr where a: "Active False True S_OK True as1 as2 t = Some (S_OK, t1)" "succeeded hr"
    "streaming (log [H_OnThreadCreate hr] t) t1" using Active_starts [OF assms(1,3,4)] by blast
  from Inactive_stops [OF streaming_run [OF a(3)] assms(5-7)] a(1,2) show ?thesis
    by (fastforce simp: log_def)
qed

theorem start_stop_session_witness:
  "\<exists>t1 t3. Active False True S_OK True (replicate 5 all_well) (replicate 5 all_well) new_thread = Some (S_OK, t1)
     \<and> Inactive True S_OK (replicate 5 all_well) (replicate 5 all_well) [all_well]
         (worker_run (replicate 9 all_well) t1) = Some (S_OK, t3) \<and> \<not> m_hThread t3"
proof -
  have "list_all (\<lambda>a. succeeded (w_create a)) (replicate 5 all_well)"
    by (simp add: list_all_length all_well_def)
  moreover have "5 \<le> length (replicate 5 all_well)" by simp
  ultimately show ?thesis
    using start_stop_session [OF idle_new_thread, of "replicate 5 all_well" "replicate 5 all_well"
        "replicate 5 all_well" "replicate 5 all_well" "[all_well]" "replicate 9 all_well"]
    unfolding idle_thread_def by blast
qed

text \<open>A pin that once failed to start can never be started again. When \<open>OnThreadCreate\<close> fails,
  \<open>Active\<close> reports its error but keeps the handle of the ended thread: every later \<open>Active\<close> fails
  without trying the pin, and a call to the worker, as \<open>Inactive\<close> makes, waits for ever.\<close>

theorem failed_start_is_permanent:
  assumes "idle_thread t" and "list_all (\<lambda>a. w_create a = hr) as1" and "failed hr" and "5 \<le> length as1"
  shows "\<exists>t1. Active False True S_OK True as1 as2 t = Some (hr, t1)
     \<and> (\<exists>d. hooks t1 = hooks t @ [H_OnThreadCreate hr, H_OnThreadDestroy d])
     \<and> Active False True S_OK created as1' as2' t1 = Some (E_FAIL, t1)
     \<and> CallWorker as3 c t1 = None
     \<and> Inactive True S_OK as3 as4 as5 t1 = None"
proof -
  obtain a b c d e rest where as: "as1 = a # b # c # d # e # rest" using five_steps [OF assms(4)] .
  define t0 where "t0 = t\<lparr>m_hThread := True, at_place := W_init\<rparr>"
  have q0: "quiet t0" "m_hThread t0" "at_place t0 = W_init"
    using assms(1) by (auto simp: idle_thread_def t0_def phase_defs)
  define t1 where "t1 = (log [H_OnThreadCreate hr, H_OnThreadDestroy (w_destroy b)] t0)
      \<lparr>at_place := W_exit 1, m_dwParam := CMD_INIT, m_dwReturnVal := hr\<rparr>"
  have "CallWorker as1 CMD_INIT t0 = Some (hr, t1)"
    using init_returns [OF q0 as] assms(2,3) as by (simp add: t1_def)
  then have "Active False True S_OK True as1 as2 t = Some (hr, t1)"
    using assms(1,3) by (simp add: Active_def Create_thread_def idle_thread_def t0_def)
  moreover have dead: "at_place t1 = W_exit 1" "m_hThread t1" "\<not> m_EventComplete t1"
    "hooks t1 = hooks t @ [H_OnThreadCreate hr, H_OnThreadDestroy (w_destroy b)]"
    using q0 by (auto simp: t1_def t0_def phase_defs)
  moreover have "CallWorker xs cmd t1 = None" for xs cmd
    using dead by (auto simp: call_defs split: list.split)
  ultimately show ?thesis
    by (auto simp: Active_def Create_thread_def Inactive_def)
qed

theorem failed_start_is_permanent_witness:
  "\<exists>t1. Active False True S_OK True (replicate 5 (all_well\<lparr>w_create := E_FAIL\<rparr>)) [] new_thread = Some (E_FAIL, t1)
     \<and> CallWorker (replicate 100 all_well) CMD_STOP t1 = None"
proof -
  let ?as = "replicate 5 (all_well\<lparr>w_create := E_FAIL\<rparr>)"
  have "list_all (\<lambda>a. w_create a = E_FAIL) ?as" by (simp add: list_all_length)
  moreover have "5 \<le> length ?as" by simp
  moreover have "failed E_FAIL" by simp
  ultimately show ?thesis
    using failed_start_is_permanent [OF idle_new_thread, of E_FAIL ?as "[]"
        True "[]" "[]" "replicate 100 all_well" CMD_STOP] by blast
qed

end
