(* ===== verification/SourceFilter.thy ===== *)
theory SourceFilter
  imports Prelude
begin

text \<open>
  The source filter's list of pins (CSource in baseclasses/source.cpp): an array that pins add
  themselves to when they are constructed and leave when they are destroyed, the numbering that
  gives a pin its identifier, and the way back from identifier to pin. PS3EyeSource of
  DirectShowFilter/PS3EyeSource.cpp is a CSource with one pin.
\<close>

section \<open>Numbers as strings\<close>

definition digit_char :: "nat \<Rightarrow> char" where "digit_char d = char_of (48 + d)"

function dec_nat :: "nat \<Rightarrow> string" where
  "dec_nat n = (if n < 10 then [digit_char n] else dec_nat (n div 10) @ [digit_char (n mod 10)])"
  by pat_completeness auto
termination by (relation "measure id") auto

declare dec_nat.simps [simp del]

text \<open>\<open>IntToWstr\<close>: the buffer has 12 characters, the terminator included.\<close>

definition IntToWstr :: "int \<Rightarrow> string" where
  "IntToWstr i =
    (let t = (if i < 0 then CHR ''-'' # dec_nat (nat (- i)) else dec_nat (nat i))
     in if length t < 12 then t else [])"

text \<open>
  \<open>WstrToInt\<close> is the C library's \<open>_wtoi\<close>: blanks, a sign, digits up to the first other
  character, and the nearest representable number on overflow.
\<close>

definition is_digit :: "char \<Rightarrow> bool" where
  "is_digit c \<longleftrightarrow> 48 \<le> (of_char c :: nat) \<and> (of_char c :: nat) < 58"

definition is_space :: "char \<Rightarrow> bool" where
  "is_space c \<longleftrightarrow> (of_char c :: nat) = 32 \<or> 9 \<le> (of_char c :: nat) \<and> (of_char c :: nat) \<le> 13"

fun digits_value :: "int \<Rightarrow> string \<Rightarrow> int" where
  "digits_value acc [] = acc"
| "digits_value acc (c # cs) =
     (if is_digit c then digits_value (acc * 10 + int (of_char c - 48)) cs else acc)"

definition clamp_int :: "int \<Rightarrow> int" where
  "clamp_int v = (if v > 2 ^ 31 - 1 then 2 ^ 31 - 1 else if v < - (2 ^ 31) then - (2 ^ 31) else v)"

definition WstrToInt :: "string \<Rightarrow> int" where
  "WstrToInt s =
    (let t = dropWhile is_space s
     in clamp_int (case t of
          [] \<Rightarrow> 0
        | c # cs \<Rightarrow> if c = CHR ''-'' then - digits_value 0 cs
                    else if c = CHR ''+'' then digits_value 0 cs
                    else digits_value 0 t))"

lemma digit_char_code: "d < 10 \<Longrightarrow> (of_char (digit_char d) :: nat) = 48 + d"
  by (simp add: digit_char_def)

lemma digit_char_digit: "d < 10 \<Longrightarrow> is_digit (digit_char d)"
  by (simp add: is_digit_def digit_char_code)

lemma digits_value_snoc:
  "(\<And>c. c \<in> set xs \<Longrightarrow> is_digit c) \<Longrightarrow> digits_value acc (xs @ ys) = digits_value (digits_value acc xs) ys"
  by (induction xs arbitrary: acc) auto

lemma dec_nat_digits: "c \<in> set (dec_nat n) \<Longrightarrow> is_digit c"
proof (induction n rule: dec_nat.induct)
  case (1 n)
  then show ?case by (subst (asm) dec_nat.simps) (auto split: if_splits intro: digit_char_digit)
qed

lemma digits_value_dec: "digits_value 0 (dec_nat n) = int n"
proof (induction n rule: dec_nat.induct)
  case (1 n)
  show ?case
  proof (cases "n < 10")
    case True
    then show ?thesis by (subst dec_nat.simps) (simp add: digit_char_digit digit_char_code)
  next
    case False
    have "digits_value 0 (dec_nat (n div 10) @ [digit_char (n mod 10)])
        = int (n div 10) * 10 + int (n mod 10)"
      using 1 False dec_nat_digits
      by (subst digits_value_snoc) (auto simp: digit_char_digit digit_char_code)
    then show ?thesis using False by (subst dec_nat.simps) (simp add: zdiv_int zmod_int)
  qed
qed

lemma dec_nat_length: "n < 10 ^ Suc k \<Longrightarrow> length (dec_nat n) \<le> Suc k"
proof (induction k arbitrary: n)
  case 0
  then show ?case by (subst dec_nat.simps) simp
next
  case (Suc k)
  show ?case
  proof (cases "n < 10")
    case True
    then show ?thesis by (subst dec_nat.simps) simp
  next
    case False
    have "n div 10 < 10 ^ Suc k" using Suc.prems by (simp add: div_less_iff_less_mult)
    then have "length (dec_nat (n div 10)) \<le> Suc k" by (rule Suc.IH)
    then show ?thesis using False by (subst dec_nat.simps) simp
  qed
qed

lemma WstrToInt_IntToWstr:
  assumes "0 < i" and "i < 2 ^ 31"
  shows "WstrToInt (IntToWstr i) = i"
proof -
  have "nat i < 10 ^ Suc 9" using assms(2) by simp
  then have len: "length (dec_nat (nat i)) < 12" using dec_nat_length [of "nat i" 9] by simp
  obtain c cs where d: "dec_nat (nat i) = c # cs"
    by (cases "dec_nat (nat i)") (subst (asm) dec_nat.simps, auto split: if_splits)
  then have "is_digit c" using dec_nat_digits [of c "nat i"] by simp
  then have "\<not> is_space c" "c \<noteq> CHR ''-''" "c \<noteq> CHR ''+''" by (auto simp: is_digit_def is_space_def)
  then have "WstrToInt (dec_nat (nat i)) = clamp_int (digits_value 0 (dec_nat (nat i)))"
    by (simp add: WstrToInt_def d)
  then show ?thesis using assms len by (simp add: IntToWstr_def digits_value_dec clamp_int_def Let_def)
qed

section \<open>The pin array\<close>

text \<open>
  A pin is the address of its object. The array is \<open>None\<close> while the pointer is null; an access
  beyond it is a fault. \<open>new\<close> may refuse, and hands out arbitrary contents otherwise.
\<close>

type_synonym pin = nat

record source_filter =
  m_iPins :: nat
  m_paStreams :: "pin list option"

definition new_source_filter :: source_filter where
  "new_source_filter = \<lparr>m_iPins = 0, m_paStreams = None\<rparr>"

definition AddPin :: "pin list option \<Rightarrow> pin \<Rightarrow> source_filter \<Rightarrow> (hresult \<times> source_filter) option" where
  "AddPin answer pStream f =
    (case answer of
       None \<Rightarrow> Some (E_OUTOFMEMORY, f)
     | Some junk \<Rightarrow>
        (case m_paStreams f of
           None \<Rightarrow> Some (S_OK, \<lparr>m_iPins = m_iPins f + 1,
              m_paStreams = Some ((take (m_iPins f + 1) junk)[m_iPins f := pStream])\<rparr>)
         | Some old \<Rightarrow>
             if m_iPins f \<le> length old
             then Some (S_OK, \<lparr>m_iPins = m_iPins f + 1, m_paStreams = Some (take (m_iPins f) old @ [pStream])\<rparr>)
             else None))"

text \<open>The two nested loops of \<open>RemovePin\<close>: the search, and the move down of the pins behind.\<close>

function move_down :: "nat \<Rightarrow> nat \<Rightarrow> pin list \<Rightarrow> pin list" where
  "move_down i n xs = (if i + 1 < n then move_down (i + 1) n (xs[i := xs ! (i + 1)]) else xs)"
  by pat_completeness auto
termination by (relation "measure (\<lambda>(i, n, _). n - i)") auto

declare move_down.simps [simp del]

function find_from :: "nat \<Rightarrow> nat \<Rightarrow> pin \<Rightarrow> pin list \<Rightarrow> nat option" where
  "find_from i n p xs = (if i < n then (if xs ! i = p then Some i else find_from (i + 1) n p xs) else None)"
  by pat_completeness auto
termination by (relation "measure (\<lambda>(i, n, _, _). n - i)") auto

declare find_from.simps [simp del]

definition array :: "source_filter \<Rightarrow> pin list" where
  "array f = (case m_paStreams f of None \<Rightarrow> [] | Some xs \<Rightarrow> xs)"

definition RemovePin :: "pin \<Rightarrow> source_filter \<Rightarrow> (hresult \<times> source_filter) option" where
  "RemovePin pStream f =
    (if m_iPins f > length (array f) then None
     else case find_from 0 (m_iPins f) pStream (array f) of
       None \<Rightarrow> Some (S_FALSE, f)
     | Some i \<Rightarrow>
        if m_iPins f = 1 then Some (S_OK, \<lparr>m_iPins = 0, m_paStreams = None\<rparr>)
        else Some (S_OK, \<lparr>m_iPins = m_iPins f - 1, m_paStreams = Some (move_down i (m_iPins f) (array f))\<rparr>))"

definition FindPinNumber :: "pin \<Rightarrow> source_filter \<Rightarrow> int" where
  "FindPinNumber iPin f =
    (case find_from 0 (m_iPins f) iPin (array f) of None \<Rightarrow> - 1 | Some i \<Rightarrow> int i)"

definition GetPinCount :: "source_filter \<Rightarrow> nat" where
  "GetPinCount f = m_iPins f"

definition GetPin :: "int \<Rightarrow> source_filter \<Rightarrow> pin option" where
  "GetPin n f = (if n \<ge> 0 \<and> n < int (m_iPins f) then Some (array f ! nat n) else None)"

text \<open>\<open>FindPin\<close> adds a reference to what it finds; \<open>ppPin\<close> is \<open>False\<close> for a null pointer.\<close>

definition FindPin :: "string \<Rightarrow> bool \<Rightarrow> source_filter \<Rightarrow> hresult \<times> pin option" where
  "FindPin pinId ppPin f =
    (if \<not> ppPin then (E_POINTER, None)
     else case GetPin (WstrToInt pinId - 1) f of
       Some p \<Rightarrow> (S_OK, Some p)
     | None \<Rightarrow> (VFW_E_NOT_FOUND, None))"

definition QueryId :: "bool \<Rightarrow> bool \<Rightarrow> pin \<Rightarrow> source_filter \<Rightarrow> hresult \<times> string option" where
  "QueryId pinId allocated p f =
    (if \<not> pinId then (E_POINTER, None)
     else let i = 1 + FindPinNumber p f
          in if i < 1 then (VFW_E_NOT_FOUND, None)
             else if \<not> allocated then (E_OUTOFMEMORY, None)
             else (S_OK, Some (IntToWstr i)))"

text \<open>
  The destructor deletes the last pin until none is left; a pin's destructor removes the pin. The
  second component lists the deleted pins. A pin that would not leave the array would be deleted
  again: the recursion stops there with a fault.
\<close>

fun delete_pins :: "nat \<Rightarrow> source_filter \<Rightarrow> (source_filter \<times> pin list) option" where
  "delete_pins 0 f = (if m_iPins f = 0 then Some (f, []) else None)"
| "delete_pins (Suc fuel) f =
    (if m_iPins f = 0 then Some (f, [])
     else if m_iPins f > length (array f) then None
     else let p = array f ! (m_iPins f - 1)
          in case RemovePin p f of
            None \<Rightarrow> None
          | Some (_, f1) \<Rightarrow> map_option (\<lambda>(f2, ps). (f2, p # ps)) (delete_pins fuel f1))"

section \<open>The list it implements\<close>

definition filter_ok :: "source_filter \<Rightarrow> bool" where
  "filter_ok f \<longleftrightarrow> m_iPins f \<le> length (array f) \<and> (m_paStreams f = None \<longleftrightarrow> m_iPins f = 0)"

definition pins :: "source_filter \<Rightarrow> pin list" where
  "pins f = take (m_iPins f) (array f)"

lemma pins_new: "filter_ok new_source_filter" "pins new_source_filter = []"
  by (simp_all add: filter_ok_def pins_def new_source_filter_def array_def)

lemma array_simps: "array \<lparr>m_iPins = n, m_paStreams = None\<rparr> = []"
  "array \<lparr>m_iPins = n, m_paStreams = Some xs\<rparr> = xs"
  by (simp_all add: array_def)

lemma length_pins: "filter_ok f \<Longrightarrow> length (pins f) = m_iPins f"
  by (simp add: filter_ok_def pins_def)

lemma AddPin_pins:
  assumes "filter_ok f" and "length junk = m_iPins f + 1"
  shows "\<exists>f'. AddPin (Some junk) p f = Some (S_OK, f') \<and> filter_ok f' \<and> pins f' = pins f @ [p]"
proof (cases "m_paStreams f")
  case None
  then have "m_iPins f = 0" using assms(1) by (simp add: filter_ok_def)
  then show ?thesis
    using None assms(2) by (cases junk) (auto simp: AddPin_def filter_ok_def pins_def array_def)
next
  case (Some old)
  then show ?thesis using assms by (simp add: AddPin_def filter_ok_def pins_def array_def)
qed

lemma find_from_none: "n \<le> length xs \<Longrightarrow> find_from i n p xs = None \<longleftrightarrow> p \<notin> set (drop i (take n xs))"
proof (induction "n - i" arbitrary: i)
  case 0
  then show ?case by (subst find_from.simps) simp
next
  case (Suc k)
  then have "i < n" by simp
  then have "drop i (take n xs) = xs ! i # drop (Suc i) (take n xs)"
    using Suc.prems by (metis Cons_nth_drop_Suc length_take min.absorb2 nth_take)
  moreover have "k = n - Suc i" using Suc.hyps(2) by simp
  ultimately show ?case
    using \<open>i < n\<close> Suc.hyps(1) [of "Suc i"] Suc.prems by (subst find_from.simps) auto
qed

lemma find_from_some:
  "find_from i n p xs = Some j \<Longrightarrow> i \<le> j \<and> j < n \<and> xs ! j = p \<and> (\<forall>k. i \<le> k \<and> k < j \<longrightarrow> xs ! k \<noteq> p)"
proof (induction "n - i" arbitrary: i)
  case 0
  then show ?case by (subst (asm) find_from.simps) simp
next
  case (Suc k)
  then have "i < n" by simp
  show ?case
  proof (cases "xs ! i = p")
    case True
    then show ?thesis using Suc.prems \<open>i < n\<close> by (subst (asm) find_from.simps) auto
  next
    case False
    then have "find_from (Suc i) n p xs = Some j"
      using Suc.prems \<open>i < n\<close> by (subst (asm) find_from.simps) simp
    moreover have "k = n - Suc i" using Suc.hyps(2) by simp
    ultimately have "Suc i \<le> j \<and> j < n \<and> xs ! j = p \<and> (\<forall>k. Suc i \<le> k \<and> k < j \<longrightarrow> xs ! k \<noteq> p)"
      using Suc.hyps(1) [of "Suc i"] by simp
    then show ?thesis using False by (metis Suc_leD Suc_leI le_neq_implies_less)
  qed
qed

lemma move_down_spec:
  assumes "n \<le> length xs" and "i < n"
  shows "length (move_down i n xs) = length xs \<and>
     take (n - 1) (move_down i n xs) = take i xs @ drop (Suc i) (take n xs)"
  using assms
proof (induction "n - i" arbitrary: i xs)
  case 0
  then show ?case by simp
next
  case (Suc k)
  show ?case
  proof (cases "i + 1 < n")
    case True
    let ?ys = "xs[i := xs ! (i + 1)]"
    have "k = n - Suc i" using Suc.hyps(2) by simp
    then have ih: "length (move_down (Suc i) n ?ys) = length xs"
      "take (n - 1) (move_down (Suc i) n ?ys) = take (Suc i) ?ys @ drop (Suc (Suc i)) (take n ?ys)"
      using Suc.hyps(1) [of "Suc i" ?ys] Suc.prems True by simp_all
    have "take (Suc i) ?ys = take i xs @ [xs ! Suc i]"
      using Suc.prems True by (simp add: take_Suc_conv_app_nth)
    moreover have "drop (Suc (Suc i)) (take n ?ys) = drop (Suc (Suc i)) (take n xs)"
      by (simp add: take_update_swap drop_update_cancel)
    moreover have "drop (Suc i) (take n xs) = xs ! Suc i # drop (Suc (Suc i)) (take n xs)"
      using Suc.prems True by (metis Cons_nth_drop_Suc Suc_eq_plus1 length_take min.absorb2 nth_take)
    ultimately show ?thesis using ih True by (subst (1 2) move_down.simps) simp
  next
    case False
    then have "n - Suc 0 = i" using Suc.prems by simp
    then show ?thesis using Suc.prems False by (subst (1 2) move_down.simps) simp
  qed
qed

lemma remove1_split: "p \<notin> set xs \<Longrightarrow> remove1 p (xs @ p # ys) = xs @ ys"
  by (simp add: remove1_append)

lemma RemovePin_pins:
  assumes ok: "filter_ok f"
  shows "\<exists>f'. RemovePin p f = Some (if p \<in> set (pins f) then S_OK else S_FALSE, f')
     \<and> filter_ok f' \<and> pins f' = remove1 p (pins f)"
proof (cases "find_from 0 (m_iPins f) p (array f)")
  case None
  then have "p \<notin> set (pins f)"
    using ok find_from_none [of "m_iPins f" "array f" 0 p] by (simp add: filter_ok_def pins_def)
  then show ?thesis using None ok by (simp add: RemovePin_def filter_ok_def remove1_idem)
next
  case (Some i)
  let ?xs = "array f" and ?n = "m_iPins f"
  have i: "i < ?n" "?xs ! i = p" "\<forall>k < i. ?xs ! k \<noteq> p" using find_from_some [OF Some] by auto
  have n: "?n \<le> length ?xs" using ok by (simp add: filter_ok_def)
  have split: "pins f = take i ?xs @ p # drop (Suc i) (take ?n ?xs)"
    using i n id_take_nth_drop [of i "take ?n ?xs"] by (simp add: pins_def min_def)
  have "p \<notin> set (take i ?xs)" using i(1,3) n by (auto simp: in_set_conv_nth)
  then have rem: "remove1 p (pins f) = take i ?xs @ drop (Suc i) (take ?n ?xs)" "p \<in> set (pins f)"
    using split by (simp_all add: remove1_split)
  show ?thesis
  proof (cases "?n = 1")
    case True
    then show ?thesis
      using rem Some n i
      by (cases "array f") (auto simp: RemovePin_def filter_ok_def pins_def array_simps)
  next
    case False
    then show ?thesis
      using rem Some n i move_down_spec [OF n i(1)]
      by (auto simp: RemovePin_def filter_ok_def pins_def array_simps)
  qed
qed

lemma FindPinNumber_pins:
  assumes ok: "filter_ok f"
  shows "if p \<in> set (pins f)
         then 0 \<le> FindPinNumber p f \<and> FindPinNumber p f < int (m_iPins f)
            \<and> pins f ! nat (FindPinNumber p f) = p
         else FindPinNumber p f = - 1"
proof (cases "find_from 0 (m_iPins f) p (array f)")
  case None
  then show ?thesis
    using ok find_from_none [of "m_iPins f" "array f" 0 p] by (simp add: FindPinNumber_def filter_ok_def pins_def)
next
  case (Some i)
  then have "i < m_iPins f" "array f ! i = p" using find_from_some [OF Some] by auto
  moreover have "p \<in> set (pins f)"
    using ok find_from_none [of "m_iPins f" "array f" 0 p] Some by (simp add: filter_ok_def pins_def)
  ultimately show ?thesis using Some by (simp add: FindPinNumber_def pins_def)
qed

lemma GetPin_pins: "filter_ok f \<Longrightarrow>
    GetPin n f = (if 0 \<le> n \<and> nat n < length (pins f) then Some (pins f ! nat n) else None)"
  by (auto simp: GetPin_def length_pins) (auto simp: pins_def)

section \<open>Pins coming and going\<close>

datatype pin_op = Attach "pin list option" pin | Detach pin

text \<open>Arbitrary contents, as long as the array asked for.\<close>

definition fitted :: "nat \<Rightarrow> pin list \<Rightarrow> pin list" where
  "fitted n junk = take n (junk @ replicate n 0)"

lemma length_fitted: "length (fitted n junk) = n"
  by (simp add: fitted_def)

fun pin_step :: "pin_op \<Rightarrow> source_filter \<Rightarrow> source_filter option" where
  "pin_step (Attach answer p) f =
     map_option snd (AddPin (map_option (fitted (m_iPins f + 1)) answer) p f)"
| "pin_step (Detach p) f = map_option snd (RemovePin p f)"

text \<open>The list of pins as the filter's users think of it.\<close>

fun abstract_step :: "pin_op \<Rightarrow> pin list \<Rightarrow> pin list" where
  "abstract_step (Attach answer p) ps = (if answer = None then ps else ps @ [p])"
| "abstract_step (Detach p) ps = remove1 p ps"

lemma pin_step_refines:
  assumes "filter_ok f"
  shows "\<exists>f'. pin_step op f = Some f' \<and> filter_ok f' \<and> pins f' = abstract_step op (pins f)"
proof (cases op)
  case (Attach answer p)
  show ?thesis
  proof (cases answer)
    case None
    then show ?thesis using Attach assms by (simp add: AddPin_def)
  next
    case (Some junk)
    then show ?thesis
      using Attach AddPin_pins [OF assms length_fitted, of junk p] by auto
  qed
next
  case (Detach p)
  then show ?thesis using RemovePin_pins [OF assms, of p] by auto
qed

interpretation pin_array: fault_free pin_step "\<lambda>_. True" filter_ok
  using pin_step_refines by unfold_locales blast

lemma pin_run_refines: "filter_ok f \<Longrightarrow> opt_run pin_step ops f = Some f' \<Longrightarrow> pins f' = fold abstract_step ops (pins f)"
proof (induction ops arbitrary: f)
  case Nil
  then show ?case by simp
next
  case (Cons op ops)
  then show ?case using pin_step_refines [of f op] by (auto split: Option.bind_splits)
qed

lemma delete_pins_all:
  assumes "filter_ok f" and "m_iPins f \<le> fuel"
  shows "\<exists>f'. delete_pins fuel f = Some (f', rev (pins f)) \<and> m_iPins f' = 0 \<and> m_paStreams f' = None
     \<or> \<not> distinct (pins f)"
  using assms
proof (induction fuel arbitrary: f)
  case 0
  then show ?case by (auto simp: filter_ok_def pins_def)
next
  case (Suc fuel)
  show ?case
  proof (cases "m_iPins f = 0 \<or> \<not> distinct (pins f)")
    case True
    then show ?thesis using Suc.prems by (auto simp: filter_ok_def pins_def)
  next
    case False
    let ?p = "array f ! (m_iPins f - 1)"
    have n: "m_iPins f \<le> length (array f)" using Suc.prems(1) by (simp add: filter_ok_def)
    have last: "pins f = take (m_iPins f - 1) (array f) @ [?p]"
    proof -
      have "m_iPins f - 1 < length (array f)" "Suc (m_iPins f - 1) = m_iPins f" using False n by auto
      then show ?thesis using take_Suc_conv_app_nth [of "m_iPins f - 1" "array f"] by (simp add: pins_def)
    qed
    obtain f1 r where f1: "RemovePin ?p f = Some (r, f1)" "filter_ok f1" "pins f1 = remove1 ?p (pins f)"
      using RemovePin_pins [OF Suc.prems(1), of ?p] by blast
    have rem: "pins f1 = take (m_iPins f - 1) (array f)"
      using f1(3) last False by (simp add: remove1_split)
    then have "m_iPins f1 = m_iPins f - 1" using length_pins [OF f1(2)] n by simp
    moreover have "distinct (pins f1)" using rem last False by simp
    moreover have "m_iPins f1 \<le> fuel" using calculation(1) Suc.prems(2) by linarith
    ultimately obtain f' where "delete_pins fuel f1 = Some (f', rev (pins f1))" "m_iPins f' = 0"
      "m_paStreams f' = None" using Suc.IH [OF f1(2)] by blast
    then show ?thesis using False n f1(1) rem last by (auto simp: Let_def)
  qed
qed

section \<open>Properties\<close>

text \<open>The pin array implements a list. Whatever pins are added, refused for lack of memory and
  removed, in any order, no access leaves the array; the pins are those of the list, in order,
  \<open>GetPin\<close> yields exactly the valid positions and \<open>FindPinNumber\<close> exactly the members.\<close>

theorem pin_array_refines_a_list:
  "\<exists>f. opt_run pin_step ops new_source_filter = Some f
     \<and> pins f = fold abstract_step ops [] \<and> GetPinCount f = length (fold abstract_step ops [])
     \<and> GetPin i f = (if 0 \<le> i \<and> nat i < length (fold abstract_step ops [])
                     then Some (fold abstract_step ops [] ! nat i) else None)
     \<and> (FindPinNumber p f = - 1 \<longleftrightarrow> p \<notin> set (fold abstract_step ops []))"
proof -
  obtain f where f: "opt_run pin_step ops new_source_filter = Some f" "filter_ok f"
    using pin_array.run_total [of ops new_source_filter] pins_new(1) by (auto simp: list_all_iff)
  have "pins f = fold abstract_step ops []" using pin_run_refines [OF pins_new(1) f(1)] pins_new(2) by simp
  then show ?thesis
    using f GetPin_pins [OF f(2), of i] FindPinNumber_pins [OF f(2), of p] length_pins [OF f(2)]
    by (auto simp: GetPinCount_def split: if_splits)
qed

text \<open>Identifiers lead back to their pins: the text a pin of the filter reports for itself is
  found again, through the conversion to a number and back, as that very pin; a text that is no
  positive number of a pin is refused.\<close>

theorem pin_ids_round_trip:
  assumes "opt_run pin_step ops new_source_filter = Some f" and "m_iPins f < 2 ^ 31 - 1"
    and "p \<in> set (pins f)"
  shows "\<exists>s. QueryId True True p f = (S_OK, Some s) \<and> FindPin s True f = (S_OK, Some p)
     \<and> (WstrToInt t \<le> 0 \<or> WstrToInt t > int (m_iPins f) \<or> (\<exists>q \<in> set (pins f). FindPin t True f = (S_OK, Some q)))"
proof -
  have ok: "filter_ok f" using pin_array.run_inv [OF _ pins_new(1) assms(1)] by (simp add: list_all_iff)
  let ?i = "1 + FindPinNumber p f"
  have i: "0 \<le> FindPinNumber p f" "FindPinNumber p f < int (m_iPins f)" "pins f ! nat (FindPinNumber p f) = p"
    using FindPinNumber_pins [OF ok, of p] assms(3) by simp_all
  then have "WstrToInt (IntToWstr ?i) = ?i" using assms(2) by (intro WstrToInt_IntToWstr) auto
  moreover have "QueryId True True p f = (S_OK, Some (IntToWstr ?i))"
    using i(1) by (simp add: QueryId_def Let_def)
  moreover have found: "WstrToInt t \<le> int (m_iPins f) \<Longrightarrow> WstrToInt t > 0 \<Longrightarrow>
      \<exists>q \<in> set (pins f). FindPin t True f = (S_OK, Some q)"
    using GetPin_pins [OF ok, of "WstrToInt t - 1"] length_pins [OF ok] nth_mem [of "nat (WstrToInt t - 1)" "pins f"]
    by (auto simp: FindPin_def)
  moreover have "WstrToInt t \<le> 0 \<or> WstrToInt t > int (m_iPins f)
      \<or> (\<exists>q \<in> set (pins f). FindPin t True f = (S_OK, Some q))"
    using found by (meson not_le)
  ultimately show ?thesis
    using i GetPin_pins [OF ok, of "FindPinNumber p f"] length_pins [OF ok]
    by (intro exI [of _ "IntToWstr ?i"]) (simp add: FindPin_def)
qed

theorem pin_ids_round_trip_witness:
  "\<exists>f s. opt_run pin_step [Attach (Some []) 7, Attach (Some []) 8, Detach 7] new_source_filter = Some f
     \<and> QueryId True True 8 f = (S_OK, Some s) \<and> FindPin s True f = (S_OK, Some 8)"
proof -
  let ?f = "\<lparr>m_iPins = 1, m_paStreams = Some [8, 8]\<rparr>"
  have r: "opt_run pin_step [Attach (Some []) 7, Attach (Some []) 8, Detach 7] new_source_filter = Some ?f"
    by (simp add: new_source_filter_def AddPin_def RemovePin_def array_simps find_from.simps move_down.simps
        numeral_2_eq_2 fitted_def)
  have "8 \<in> set (pins ?f)" by (simp add: pins_def array_simps)
  with pin_ids_round_trip [OF r _ this, of "[]"] r show ?thesis by auto
qed

text \<open>Destroying the filter deletes every pin once, last first, and frees the array: the loop
  ends after as many rounds as there are pins.\<close>

theorem destructor_deletes_every_pin_once:
  assumes "opt_run pin_step ops new_source_filter = Some f" and "distinct (pins f)" and "m_iPins f \<le> fuel"
  shows "\<exists>f'. delete_pins fuel f = Some (f', rev (pins f)) \<and> m_iPins f' = 0 \<and> m_paStreams f' = None"
  using delete_pins_all [OF _ assms(3)] assms(2) pin_array.run_inv [OF _ pins_new(1) assms(1)]
  by (auto simp: list_all_iff)

theorem destructor_deletes_every_pin_once_witness:
  "\<exists>f'. delete_pins 2 \<lparr>m_iPins = 2, m_paStreams = Some [7, 8]\<rparr> = Some (f', [8, 7]) \<and> m_iPins f' = 0 \<and> m_paStreams f' = None"
proof -
  let ?f = "\<lparr>m_iPins = 2, m_paStreams = Some [7, 8]\<rparr>"
  have "opt_run pin_step [Attach (Some []) 7, Attach (Some []) 8] new_source_filter = Some ?f"
    by (simp add: new_source_filter_def AddPin_def numeral_2_eq_2 fitted_def)
  from destructor_deletes_every_pin_once [OF this, of 2] show ?thesis by (simp add: pins_def array_simps)
qed

end
