(* ===== verification/BaseList.thy ===== *)
theory BaseList
  imports Prelude "HOL-Library.Monad_Syntax"
begin

text \<open>
  The generic list of the DirectShow base classes (CBaseList in baseclasses/wxlist.cpp and
  wxlist.h): a doubly linked chain of nodes with a first and a last pointer, a count and a cache
  of unused nodes. Nodes live on a heap shared by all lists; a null or dead pointer that is
  followed is a fault. The lists are shown to implement HOL lists.
\<close>

section \<open>Nodes\<close>

type_synonym position = "nat option"
type_synonym object = nat

record node =
  m_pPrev :: position
  m_pNext :: position
  m_pObject :: object

record node_heap =
  node_at :: "nat \<Rightarrow> node option"
  next_node :: nat

record base_list =
  m_pFirst :: position
  m_pLast :: position
  m_Count :: int
  m_iCacheSize :: nat
  m_iUsed :: nat
  m_pHead :: position

definition new_list :: "nat \<Rightarrow> base_list" where
  "new_list iItems = \<lparr>m_pFirst = None, m_pLast = None, m_Count = 0, m_iCacheSize = iItems,
     m_iUsed = 0, m_pHead = None\<rparr>"

definition get_node :: "position \<Rightarrow> node_heap \<Rightarrow> node option" where
  "get_node p h = Option.bind p (node_at h)"

definition put_node :: "position \<Rightarrow> (node \<Rightarrow> node) \<Rightarrow> node_heap \<Rightarrow> node_heap option" where
  "put_node p f h = do { a \<leftarrow> p; n \<leftarrow> node_at h a; Some (h\<lparr>node_at := (node_at h)(a \<mapsto> f n)\<rparr>) }"

abbreviation "SetNext p q \<equiv> put_node p (\<lambda>n. n\<lparr>m_pNext := q\<rparr>)"
abbreviation "SetPrev p q \<equiv> put_node p (\<lambda>n. n\<lparr>m_pPrev := q\<rparr>)"
abbreviation "SetData p x \<equiv> put_node p (\<lambda>n. n\<lparr>m_pObject := x\<rparr>)"

definition delete_node :: "position \<Rightarrow> node_heap \<Rightarrow> node_heap option" where
  "delete_node p h = do { a \<leftarrow> p; n \<leftarrow> node_at h a; Some (h\<lparr>node_at := (node_at h)(a := None)\<rparr>) }"

section \<open>The node cache\<close>

definition AddToCache :: "position \<Rightarrow> base_list \<Rightarrow> node_heap \<Rightarrow> (base_list \<times> node_heap) option" where
  "AddToCache pNode l h =
    (if m_iUsed l < m_iCacheSize l then do {
       h1 \<leftarrow> SetNext pNode (m_pHead l) h;
       Some (l\<lparr>m_pHead := pNode, m_iUsed := m_iUsed l + 1\<rparr>, h1) }
     else do { h1 \<leftarrow> delete_node pNode h; Some (l, h1) })"

definition RemoveFromCache :: "base_list \<Rightarrow> node_heap \<Rightarrow> (position \<times> base_list) option" where
  "RemoveFromCache l h =
    (if m_pHead l \<noteq> None then do {
       n \<leftarrow> get_node (m_pHead l) h;
       Some (m_pHead l, l\<lparr>m_pHead := m_pNext n, m_iUsed := m_iUsed l - 1\<rparr>) }
     else Some (None, l))"

text \<open>
  A node for an object: from the cache, or new, with whatever its memory held (\<open>fresh\<close>, refused
  if \<open>None\<close>).
\<close>

definition obtain_node ::
  "node option \<Rightarrow> base_list \<Rightarrow> node_heap \<Rightarrow> (position \<times> base_list \<times> node_heap) option" where
  "obtain_node fresh l h = do {
     (p, l1) \<leftarrow> RemoveFromCache l h;
     if p \<noteq> None then Some (p, l1, h)
     else case fresh of
       None \<Rightarrow> Some (None, l1, h)
     | Some junk \<Rightarrow> Some (Some (next_node h), l1,
         h\<lparr>node_at := (node_at h)(next_node h \<mapsto> junk), next_node := next_node h + 1\<rparr>) }"

section \<open>Reading\<close>

definition GetNextI :: "position \<Rightarrow> node_heap \<Rightarrow> (object option \<times> position) option" where
  "GetNextI rp h = (if rp = None then Some (None, None)
     else do { n \<leftarrow> get_node rp h; Some (Some (m_pObject n), m_pNext n) })"

definition GetI :: "position \<Rightarrow> node_heap \<Rightarrow> object option option" where
  "GetI p h = (if p = None then Some None else do { n \<leftarrow> get_node p h; Some (Some (m_pObject n)) })"

text \<open>\<open>FindI\<close> walks the chain; a walk of more steps than \<open>fuel\<close> counts as a fault.\<close>

fun find_walk :: "nat \<Rightarrow> position \<Rightarrow> object \<Rightarrow> node_heap \<Rightarrow> position option" where
  "find_walk fuel None x h = Some None"
| "find_walk 0 (Some a) x h = None"
| "find_walk (Suc fuel) (Some a) x h = do {
     n \<leftarrow> node_at h a;
     if m_pObject n = x then Some (Some a) else find_walk fuel (m_pNext n) x h }"

definition FindI :: "object \<Rightarrow> base_list \<Rightarrow> node_heap \<Rightarrow> position option" where
  "FindI x l h = find_walk (nat (m_Count l)) (m_pFirst l) x h"

section \<open>Changing\<close>

definition RemoveI :: "position \<Rightarrow> base_list \<Rightarrow> node_heap \<Rightarrow> (object option \<times> base_list \<times> node_heap) option" where
  "RemoveI pos l h =
    (if pos = None then Some (None, l, h)
     else do {
       cur \<leftarrow> get_node pos h;
       (l1, h1) \<leftarrow> (if m_pPrev cur = None then Some (l\<lparr>m_pFirst := m_pNext cur\<rparr>, h)
                   else do { h1 \<leftarrow> SetNext (m_pPrev cur) (m_pNext cur) h; Some (l, h1) });
       cur1 \<leftarrow> get_node pos h1;
       (l2, h2) \<leftarrow> (if m_pNext cur1 = None then Some (l1\<lparr>m_pLast := m_pPrev cur1\<rparr>, h1)
                   else do { h2 \<leftarrow> SetPrev (m_pNext cur1) (m_pPrev cur1) h1; Some (l1, h2) });
       cur2 \<leftarrow> get_node pos h2;
       (l3, h3) \<leftarrow> AddToCache pos l2 h2;
       Some (Some (m_pObject cur2), l3\<lparr>m_Count := m_Count l3 - 1\<rparr>, h3) })"

definition RemoveHeadI :: "base_list \<Rightarrow> node_heap \<Rightarrow> (object option \<times> base_list \<times> node_heap) option" where
  "RemoveHeadI l h = RemoveI (m_pFirst l) l h"

definition RemoveTailI :: "base_list \<Rightarrow> node_heap \<Rightarrow> (object option \<times> base_list \<times> node_heap) option" where
  "RemoveTailI l h = RemoveI (m_pLast l) l h"

definition AddTailI ::
  "node option \<Rightarrow> object \<Rightarrow> base_list \<Rightarrow> node_heap \<Rightarrow> (position \<times> base_list \<times> node_heap) option" where
  "AddTailI fresh x l h = do {
     (p, l1, h1) \<leftarrow> obtain_node fresh l h;
     if p = None then Some (None, l1, h1)
     else do {
       h2 \<leftarrow> SetData p x h1; h3 \<leftarrow> SetNext p None h2; h4 \<leftarrow> SetPrev p (m_pLast l1) h3;
       (l2, h5) \<leftarrow> (if m_pLast l1 = None then Some (l1\<lparr>m_pFirst := p\<rparr>, h4)
                   else do { h5 \<leftarrow> SetNext (m_pLast l1) p h4; Some (l1, h5) });
       Some (p, l2\<lparr>m_pLast := p, m_Count := m_Count l2 + 1\<rparr>, h5) } }"

definition AddHeadI ::
  "node option \<Rightarrow> object \<Rightarrow> base_list \<Rightarrow> node_heap \<Rightarrow> (position \<times> base_list \<times> node_heap) option" where
  "AddHeadI fresh x l h = do {
     (p, l1, h1) \<leftarrow> obtain_node fresh l h;
     if p = None then Some (None, l1, h1)
     else do {
       h2 \<leftarrow> SetData p x h1; h3 \<leftarrow> SetPrev p None h2; h4 \<leftarrow> SetNext p (m_pFirst l1) h3;
       (l2, h5) \<leftarrow> (if m_pFirst l1 = None then Some (l1\<lparr>m_pLast := p\<rparr>, h4)
                   else do { h5 \<leftarrow> SetPrev (m_pFirst l1) p h4; Some (l1, h5) });
       Some (p, l2\<lparr>m_pFirst := p, m_Count := m_Count l2 + 1\<rparr>, h5) } }"

text \<open>The middle of \<open>AddAfterI\<close> and \<open>AddBeforeI\<close>: the four pointers, set in this order.\<close>

definition chain_in :: "position \<Rightarrow> position \<Rightarrow> position \<Rightarrow> node_heap \<Rightarrow> node_heap option" where
  "chain_in pAfter pNode pBefore h = do {
     h1 \<leftarrow> SetPrev pNode pAfter h; h2 \<leftarrow> SetNext pNode pBefore h1;
     h3 \<leftarrow> SetPrev pBefore pNode h2; SetNext pAfter pNode h3 }"

definition AddAfterI ::
  "node option \<Rightarrow> position \<Rightarrow> object \<Rightarrow> base_list \<Rightarrow> node_heap \<Rightarrow> (position \<times> base_list \<times> node_heap) option" where
  "AddAfterI fresh pos x l h =
    (if pos = None then AddHeadI fresh x l h
     else if pos = m_pLast l then AddTailI fresh x l h
     else do {
       (p, l1, h1) \<leftarrow> obtain_node fresh l h;
       if p = None then Some (None, l1, h1)
       else do {
         h2 \<leftarrow> SetData p x h1;
         after \<leftarrow> get_node pos h2;
         h3 \<leftarrow> chain_in pos p (m_pNext after) h2;
         Some (p, l1\<lparr>m_Count := m_Count l1 + 1\<rparr>, h3) } })"

definition AddBeforeI ::
  "node option \<Rightarrow> position \<Rightarrow> object \<Rightarrow> base_list \<Rightarrow> node_heap \<Rightarrow> (position \<times> base_list \<times> node_heap) option" where
  "AddBeforeI fresh pos x l h =
    (if pos = None then AddTailI fresh x l h
     else if pos = m_pFirst l then AddHeadI fresh x l h
     else do {
       (p, l1, h1) \<leftarrow> obtain_node fresh l h;
       if p = None then Some (None, l1, h1)
       else do {
         h2 \<leftarrow> SetData p x h1;
         bef \<leftarrow> get_node pos h2;
         h3 \<leftarrow> chain_in (m_pPrev bef) p pos h2;
         Some (p, l1\<lparr>m_Count := m_Count l1 + 1\<rparr>, h3) } })"

text \<open>Walks along the whole chain, for as many nodes as \<open>fuel\<close> says at most.\<close>

fun delete_walk :: "nat \<Rightarrow> position \<Rightarrow> node_heap \<Rightarrow> node_heap option" where
  "delete_walk fuel None h = Some h"
| "delete_walk 0 (Some a) h = None"
| "delete_walk (Suc fuel) (Some a) h = do {
     n \<leftarrow> node_at h a; h1 \<leftarrow> delete_node (Some a) h; delete_walk fuel (m_pNext n) h1 }"

definition RemoveAll :: "base_list \<Rightarrow> node_heap \<Rightarrow> (base_list \<times> node_heap) option" where
  "RemoveAll l h = do {
     h1 \<leftarrow> delete_walk (nat (m_Count l)) (m_pFirst l) h;
     Some (l\<lparr>m_Count := 0, m_pFirst := None, m_pLast := None\<rparr>, h1) }"

fun reverse_walk :: "nat \<Rightarrow> position \<Rightarrow> node_heap \<Rightarrow> node_heap option" where
  "reverse_walk fuel None h = Some h"
| "reverse_walk 0 (Some a) h = None"
| "reverse_walk (Suc fuel) (Some a) h = do {
     n \<leftarrow> node_at h a;
     h1 \<leftarrow> SetNext (Some a) (m_pPrev n) h; h2 \<leftarrow> SetPrev (Some a) (m_pNext n) h1;
     reverse_walk fuel (m_pNext n) h2 }"

definition Reverse :: "base_list \<Rightarrow> node_heap \<Rightarrow> (base_list \<times> node_heap) option" where
  "Reverse l h = do {
     h1 \<leftarrow> reverse_walk (nat (m_Count l)) (m_pFirst l) h;
     Some (l\<lparr>m_pFirst := m_pLast l, m_pLast := m_pFirst l\<rparr>, h1) }"

fun count_back :: "nat \<Rightarrow> position \<Rightarrow> node_heap \<Rightarrow> int option" where
  "count_back fuel None h = Some 0"
| "count_back 0 (Some a) h = None"
| "count_back (Suc fuel) (Some a) h = do {
     n \<leftarrow> node_at h a; k \<leftarrow> count_back fuel (m_pPrev n) h; Some (1 + k) }"

definition MoveToTail ::
  "position \<Rightarrow> base_list \<Rightarrow> base_list \<Rightarrow> node_heap \<Rightarrow> (base_list \<times> base_list \<times> node_heap) option" where
  "MoveToTail pos l other h =
    (if pos = None then Some (l, other, h)
     else do {
       cMove \<leftarrow> count_back (nat (m_Count l)) pos h;
       h1 \<leftarrow> (if m_pLast other \<noteq> None then SetNext (m_pLast other) (m_pFirst l) h else Some h);
       h2 \<leftarrow> (if m_pFirst l \<noteq> None then SetPrev (m_pFirst l) (m_pLast other) h1 else Some h1);
       p \<leftarrow> get_node pos h2;
       let other1 = (if m_pFirst other = None then other\<lparr>m_pFirst := m_pFirst l\<rparr> else other);
       let l1 = l\<lparr>m_pFirst := m_pNext p\<rparr>;
       let l2 = (if m_pFirst l1 = None then l1\<lparr>m_pLast := None\<rparr> else l1);
       let other2 = other1\<lparr>m_pLast := pos\<rparr>;
       h3 \<leftarrow> (if m_pFirst l2 \<noteq> None then SetPrev (m_pFirst l2) None h2 else Some h2);
       h4 \<leftarrow> SetNext pos None h3;
       Some (l2\<lparr>m_Count := m_Count l2 - cMove\<rparr>, other2\<lparr>m_Count := m_Count other2 + cMove\<rparr>, h4) })"

fun count_on :: "nat \<Rightarrow> position \<Rightarrow> node_heap \<Rightarrow> int option" where
  "count_on fuel None h = Some 0"
| "count_on 0 (Some a) h = None"
| "count_on (Suc fuel) (Some a) h = do {
     n \<leftarrow> node_at h a; k \<leftarrow> count_on fuel (m_pNext n) h; Some (1 + k) }"

definition MoveToHead ::
  "position \<Rightarrow> base_list \<Rightarrow> base_list \<Rightarrow> node_heap \<Rightarrow> (base_list \<times> base_list \<times> node_heap) option" where
  "MoveToHead pos l other h =
    (if pos = None then Some (l, other, h)
     else do {
       cMove \<leftarrow> count_on (nat (m_Count l)) pos h;
       h1 \<leftarrow> (if m_pFirst other \<noteq> None then SetPrev (m_pFirst other) (m_pLast l) h else Some h);
       h2 \<leftarrow> (if m_pLast l \<noteq> None then SetNext (m_pLast l) (m_pFirst other) h1 else Some h1);
       p \<leftarrow> get_node pos h2;
       let other1 = (if m_pLast other = None then other\<lparr>m_pLast := m_pLast l\<rparr> else other);
       let l1 = l\<lparr>m_pLast := m_pPrev p\<rparr>;
       let l2 = (if m_pLast l1 = None then l1\<lparr>m_pFirst := None\<rparr> else l1);
       let other2 = other1\<lparr>m_pFirst := pos\<rparr>;
       h3 \<leftarrow> (if m_pLast l2 \<noteq> None then SetNext (m_pLast l2) None h2 else Some h2);
       h4 \<leftarrow> SetPrev pos None h3;
       Some (l2\<lparr>m_Count := m_Count l2 - cMove\<rparr>, other2\<lparr>m_Count := m_Count other2 + cMove\<rparr>, h4) })"

section \<open>Chains\<close>

text \<open>The nodes \<open>ps\<close> form a chain that enters from \<open>p\<close> and leaves to \<open>q\<close>.\<close>

definition first_or :: "nat list \<Rightarrow> position \<Rightarrow> position" where
  "first_or ps q = (case ps of [] \<Rightarrow> q | a # _ \<Rightarrow> Some a)"

definition last_or :: "nat list \<Rightarrow> position \<Rightarrow> position" where
  "last_or ps p = (if ps = [] then p else Some (last ps))"

fun chain :: "node_heap \<Rightarrow> position \<Rightarrow> nat list \<Rightarrow> position \<Rightarrow> bool" where
  "chain h p [] q = True"
| "chain h p (a # as) q =
     ((\<exists>n. node_at h a = Some n \<and> m_pPrev n = p \<and> m_pNext n = first_or as q) \<and> chain h (Some a) as q)"

fun unused_chain :: "node_heap \<Rightarrow> nat list \<Rightarrow> bool" where
  "unused_chain h [] = True"
| "unused_chain h (a # as) = ((\<exists>n. node_at h a = Some n \<and> m_pNext n = first_or as None) \<and> unused_chain h as)"

text \<open>Addresses are handed out once.\<close>

definition unborn :: "node_heap \<Rightarrow> bool" where
  "unborn h \<longleftrightarrow> (\<forall>a \<ge> next_node h. node_at h a = None)"

text \<open>A list with nodes \<open>ps\<close> and cached nodes \<open>cs\<close>.\<close>

definition rep :: "base_list \<Rightarrow> node_heap \<Rightarrow> nat list \<Rightarrow> nat list \<Rightarrow> bool" where
  "rep l h ps cs \<longleftrightarrow> chain h None ps None \<and> unused_chain h cs \<and> distinct (ps @ cs)
     \<and> m_pFirst l = first_or ps None \<and> m_pLast l = last_or ps None \<and> m_Count l = int (length ps)
     \<and> m_pHead l = first_or cs None \<and> m_iUsed l = length cs
     \<and> unborn h"

definition objects :: "node_heap \<Rightarrow> nat list \<Rightarrow> object list" where
  "objects h ps = map (\<lambda>a. m_pObject (the (node_at h a))) ps"

lemma first_or_simps [simp]: "first_or [] q = q" "first_or (a # as) q = Some a"
  "first_or (xs @ ys) q = first_or xs (first_or ys q)"
  by (cases xs; simp add: first_or_def)+

lemma last_or_simps [simp]: "last_or [] p = p" "last_or (a # as) p = last_or as (Some a)"
  "last_or (xs @ ys) p = last_or ys (last_or xs p)"
  by (simp_all add: last_or_def)

lemma last_or_Some [simp]: "last_or xs (Some a) \<noteq> None" "first_or xs (Some a) \<noteq> None"
  by (simp_all add: last_or_def first_or_def split: list.split)

lemma first_or_None: "first_or ps None = None \<longleftrightarrow> ps = []"
  by (cases ps) simp_all

lemma last_or_None: "last_or ps None = None \<longleftrightarrow> ps = []"
  by (simp add: last_or_def)

lemma chain_append: "chain h p (xs @ ys) q \<longleftrightarrow> chain h p xs (first_or ys q) \<and> chain h (last_or xs p) ys q"
  by (induction xs arbitrary: p) auto

lemma chain_cong: "(\<And>a. a \<in> set ps \<Longrightarrow> node_at h' a = node_at h a) \<Longrightarrow> chain h' p ps q = chain h p ps q"
  by (induction ps arbitrary: p) auto

lemma unused_cong: "(\<And>a. a \<in> set ps \<Longrightarrow> node_at h' a = node_at h a) \<Longrightarrow> unused_chain h' ps = unused_chain h ps"
  by (induction ps) auto

lemma objects_cong: "(\<And>a. a \<in> set ps \<Longrightarrow> node_at h' a = node_at h a) \<Longrightarrow> objects h' ps = objects h ps"
  by (simp add: objects_def)

lemma objects_simps [simp]: "objects h [] = []" "objects h (a # as) = m_pObject (the (node_at h a)) # objects h as"
  "objects h (xs @ ys) = objects h xs @ objects h ys"
  by (simp_all add: objects_def)

section \<open>Single updates\<close>

definition upd :: "position \<Rightarrow> (node \<Rightarrow> node) \<Rightarrow> node_heap \<Rightarrow> node_heap" where
  "upd p f h = (case p of None \<Rightarrow> h | Some a \<Rightarrow> h\<lparr>node_at := (node_at h)(a := map_option f (node_at h a))\<rparr>)"

lemma put_node_upd: "node_at h a = Some n \<Longrightarrow> put_node (Some a) f h = Some (upd (Some a) f h)"
  by (simp add: put_node_def upd_def)

lemma upd_other: "p \<noteq> Some b \<Longrightarrow> node_at (upd p f h) b = node_at h b"
  by (cases p) (auto simp: upd_def)

lemma upd_same: "node_at h a = Some n \<Longrightarrow> node_at (upd (Some a) f h) a = Some (f n)"
  by (simp add: upd_def)

lemma upd_live [simp]: "node_at (upd p f h) a = None \<longleftrightarrow> node_at h a = None"
  by (cases p) (auto simp: upd_def)

lemma upd_next_node [simp]: "next_node (upd p f h) = next_node h"
  by (cases p) (auto simp: upd_def)

lemma unborn_upd [simp]: "unborn (upd p f h) = unborn h"
  by (simp add: unborn_def)

lemma upd_None [simp]: "upd None f h = h"
  by (simp add: upd_def)

lemma chain_upd_other: "(\<forall>a. p = Some a \<longrightarrow> a \<notin> set ps) \<Longrightarrow> chain (upd p f h) r ps q = chain h r ps q"
  by (rule chain_cong, rule upd_other) auto

lemma unused_upd_other: "(\<forall>a. p = Some a \<longrightarrow> a \<notin> set ps) \<Longrightarrow> unused_chain (upd p f h) ps = unused_chain h ps"
  by (rule unused_cong, rule upd_other) auto

lemma objects_upd: "(\<And>n. m_pObject (f n) = m_pObject n) \<Longrightarrow> (\<forall>a \<in> set ps. node_at h a \<noteq> None) \<Longrightarrow>
    objects (upd p f h) ps = objects h ps"
  by (cases p) (auto simp: objects_def upd_def)

lemma chain_live: "chain h p ps q \<Longrightarrow> a \<in> set ps \<Longrightarrow> node_at h a \<noteq> None"
  by (induction ps arbitrary: p) auto

lemma unused_live: "unused_chain h ps \<Longrightarrow> a \<in> set ps \<Longrightarrow> node_at h a \<noteq> None"
  by (induction ps) auto

lemma last_or_in: "last_or xs None = Some a \<Longrightarrow> a \<in> set xs"
  by (auto simp: last_or_def split: if_splits)

lemma first_or_in: "first_or xs None = Some a \<Longrightarrow> a \<in> set xs"
  by (cases xs) auto

abbreviation "set_next q \<equiv> (\<lambda>n. n\<lparr>m_pNext := q\<rparr>)"
abbreviation "set_prev q \<equiv> (\<lambda>n. n\<lparr>m_pPrev := q\<rparr>)"

lemma chain_relink_end:
  assumes "chain h p xs q" and "distinct xs"
  shows "chain (upd (last_or xs None) (set_next q') h) p xs q'"
  using assms
proof (induction xs arbitrary: p)
  case Nil
  then show ?case by simp
next
  case (Cons a as)
  show ?case
  proof (cases "as = []")
    case True
    then show ?thesis using Cons.prems by (auto simp: upd_def)
  next
    case False
    then have l: "last_or (a # as) None = last_or as None" by (simp add: last_or_def)
    have "last_or as None \<noteq> Some a" using Cons.prems(2) last_or_in by auto
    moreover have "first_or as q = first_or as q'" using False by (cases as) auto
    ultimately show ?thesis
      unfolding l using Cons by (auto simp: upd_other)
  qed
qed

lemma chain_relink_start:
  assumes "chain h p xs q" and "distinct xs"
  shows "chain (upd (first_or xs None) (set_prev p') h) p' xs q"
  using assms by (cases xs) (auto simp: upd_same chain_upd_other)

section \<open>Nodes in and out\<close>

lemma rep_parts:
  assumes "rep l h ps cs"
  shows "chain h None ps None" "unused_chain h cs" "distinct ps" "distinct cs" "set ps \<inter> set cs = {}"
    "m_pFirst l = first_or ps None" "m_pLast l = last_or ps None" "m_Count l = int (length ps)"
    "m_pHead l = first_or cs None" "m_iUsed l = length cs" "unborn h"
  using assms by (auto simp: rep_def)

text \<open>A node \<open>b\<close> for a list whose cached nodes are \<open>cs\<close>: one of those, or a new one.\<close>

definition node_for :: "node_heap \<Rightarrow> nat list \<Rightarrow> nat \<Rightarrow> node_heap \<Rightarrow> nat list \<Rightarrow> bool" where
  "node_for h cs b h1 cs1 \<longleftrightarrow> (\<forall>a. a \<noteq> b \<longrightarrow> node_at h1 a = node_at h a) \<and> set cs1 \<subseteq> set cs \<and> (b \<in> set cs \<or> node_at h b = None)"

lemma obtain_node_spec:
  assumes r: "rep l h ps cs"
  shows "(cs = [] \<and> fresh = None \<and> obtain_node fresh l h = Some (None, l, h)) \<or>
    (\<exists>b l1 h1 cs1. obtain_node fresh l h = Some (Some b, l1, h1) \<and> rep l1 h1 ps cs1
       \<and> b \<notin> set ps \<and> b \<notin> set cs1 \<and> node_at h1 b \<noteq> None \<and> node_for h cs b h1 cs1
       \<and> m_iCacheSize l1 = m_iCacheSize l)"
proof (cases cs)
  case (Cons c cs1)
  note p = rep_parts [OF r]
  obtain n where n: "node_at h c = Some n" "m_pNext n = first_or cs1 None" using p(2) Cons by auto
  have "rep (l\<lparr>m_pHead := m_pNext n, m_iUsed := m_iUsed l - 1\<rparr>) h ps cs1"
    using p Cons n by (auto simp: rep_def)
  then show ?thesis
    using p Cons n by (auto simp: obtain_node_def RemoveFromCache_def get_node_def node_for_def)
next
  case Nil
  note p = rep_parts [OF r]
  show ?thesis
  proof (cases fresh)
    case None
    then show ?thesis using p Nil by (simp add: obtain_node_def RemoveFromCache_def)
  next
    case (Some junk)
    let ?b = "next_node h"
    let ?h1 = "h\<lparr>node_at := (node_at h)(?b \<mapsto> junk), next_node := ?b + 1\<rparr>"
    have b: "?b \<notin> set ps" using chain_live [OF p(1), of ?b] p(11) by (auto simp: unborn_def)
    then have "chain ?h1 None ps None" using p(1) by (subst chain_cong [where h = h]) auto
    then have "rep l ?h1 ps []" using p Nil by (simp add: rep_def unborn_def)
    then show ?thesis
      using p Nil Some b by (auto simp: obtain_node_def RemoveFromCache_def node_for_def unborn_def)
  qed
qed

lemma AddToCache_spec:
  assumes r: "rep l h ps cs" and b: "b \<notin> set ps" "b \<notin> set cs" "node_at h b = Some n"
  shows "\<exists>l1 h1 cs1. AddToCache (Some b) l h = Some (l1, h1) \<and> rep l1 h1 ps cs1
     \<and> (\<forall>a \<in> set ps. node_at h1 a = node_at h a) \<and> m_iCacheSize l1 = m_iCacheSize l
     \<and> m_Count l1 = m_Count l \<and> m_pFirst l1 = m_pFirst l \<and> m_pLast l1 = m_pLast l"
proof (cases "m_iUsed l < m_iCacheSize l")
  case True
  note p = rep_parts [OF r]
  let ?h1 = "upd (Some b) (set_next (m_pHead l)) h"
  have "rep (l\<lparr>m_pHead := Some b, m_iUsed := m_iUsed l + 1\<rparr>) ?h1 ps (b # cs)"
    using p b by (auto simp: rep_def chain_upd_other unused_upd_other upd_same)
  then show ?thesis
    using True b by (auto simp: AddToCache_def put_node_upd intro!: upd_other)
next
  case False
  note p = rep_parts [OF r]
  let ?h1 = "h\<lparr>node_at := (node_at h)(b := None)\<rparr>"
  have "chain ?h1 None ps None" using p(1) b(1) by (subst chain_cong [where h = h]) auto
  moreover have "unused_chain ?h1 cs" using p(2) b(2) by (subst unused_cong [where h = h]) auto
  ultimately have "rep l ?h1 ps cs" using p by (simp add: rep_def unborn_def)
  then show ?thesis using False b by (auto simp: AddToCache_def delete_node_def)
qed

section \<open>What each operation does to the list\<close>

text \<open>The objects of the nodes in a set are what they were.\<close>

definition same_objects :: "node_heap \<Rightarrow> node_heap \<Rightarrow> nat set \<Rightarrow> bool" where
  "same_objects h h' A \<longleftrightarrow> (\<forall>a \<in> A. map_option m_pObject (node_at h' a) = map_option m_pObject (node_at h a))"

lemma same_objects_refl [simp]: "same_objects h h A"
  by (simp add: same_objects_def)

lemma same_objects_trans: "same_objects h h1 A \<Longrightarrow> same_objects h1 h2 A \<Longrightarrow> same_objects h h2 A"
  by (simp add: same_objects_def)

lemma same_objects_eq: "(\<forall>a \<in> A. node_at h' a = node_at h a) \<Longrightarrow> same_objects h h' A"
  by (simp add: same_objects_def)

lemma same_objects_mono: "same_objects h h' A \<Longrightarrow> B \<subseteq> A \<Longrightarrow> same_objects h h' B"
  by (auto simp: same_objects_def)

lemma same_objects_upd: "(\<And>n. m_pObject (f n) = m_pObject n) \<Longrightarrow> same_objects h (upd p f h) A"
  by (cases p) (auto simp: same_objects_def upd_def option.map_comp comp_def)

lemma same_objects_objects: "same_objects h h' (set ps) \<Longrightarrow> (\<forall>a \<in> set ps. node_at h a \<noteq> None) \<Longrightarrow>
    objects h' ps = objects h ps"
  by (fastforce simp: same_objects_def objects_def)

lemma put_node_simp: "put_node (Some a) f h = (if node_at h a = None then None else Some (upd (Some a) f h))"
  by (cases "node_at h a") (auto simp: put_node_def upd_def)

lemma get_node_Some: "get_node (Some a) h = node_at h a"
  by (simp add: get_node_def)

text \<open>Storing the object and the two pointers in a node of its own.\<close>

definition node_of :: "object \<Rightarrow> position \<Rightarrow> position \<Rightarrow> node" where
  "node_of x p q = \<lparr>m_pPrev = p, m_pNext = q, m_pObject = x\<rparr>"

lemma node_of_sel [simp]: "m_pPrev (node_of x p q) = p" "m_pNext (node_of x p q) = q" "m_pObject (node_of x p q) = x"
  by (simp_all add: node_of_def)

definition write_node :: "nat \<Rightarrow> node \<Rightarrow> node_heap \<Rightarrow> node_heap" where
  "write_node b n h = h\<lparr>node_at := (node_at h)(b \<mapsto> n)\<rparr>"

lemma write_node_at: "node_at (write_node b n h) a = (if a = b then Some n else node_at h a)"
  by (simp add: write_node_def)

lemma write_node_simps [simp]: "next_node (write_node b n h) = next_node h"
  by (simp add: write_node_def)

lemma unborn_write: "unborn h \<Longrightarrow> node_at h b \<noteq> None \<Longrightarrow> unborn (write_node b n h)"
  by (auto simp: unborn_def write_node_def)

lemma chain_write_other: "b \<notin> set ps \<Longrightarrow> chain (write_node b n h) p ps q = chain h p ps q"
  by (rule chain_cong) (auto simp: write_node_at)

lemma unused_write_other: "b \<notin> set ps \<Longrightarrow> unused_chain (write_node b n h) ps = unused_chain h ps"
  by (rule unused_cong) (auto simp: write_node_at)

lemma same_objects_write: "b \<notin> A \<Longrightarrow> same_objects h (write_node b n h) A"
  by (auto simp: same_objects_def write_node_at)

lemma node_fields: "(set_prev p (set_next q (y\<lparr>m_pObject := x\<rparr>)) :: node) = node_of x p q"
  "(set_next q (set_prev p (y\<lparr>m_pObject := x\<rparr>)) :: node) = node_of x p q"
  by (cases y, simp add: node_of_def)+

lemma three_writes:
  assumes "node_at h b \<noteq> None"
  shows "upd (Some b) (set_prev p) (upd (Some b) (set_next q) (upd (Some b) (\<lambda>n. n\<lparr>m_pObject := x\<rparr>) h))
       = write_node b (node_of x p q) h"
    and "upd (Some b) (set_next q) (upd (Some b) (set_prev p) (upd (Some b) (\<lambda>n. n\<lparr>m_pObject := x\<rparr>) h))
       = write_node b (node_of x p q) h"
  using assms by (auto simp: upd_def write_node_def node_fields)

text \<open>
  \<open>inserted\<close>: node \<open>b\<close> with the object stands between the nodes \<open>xs\<close> and \<open>ys\<close>, and no node but these was touched.
  \<open>added\<close> describes an insertion that yields position \<open>r\<close>: refused when there is no node, or one
  new node with the object between the nodes \<open>xs\<close> and \<open>ys\<close>; nodes that do not belong to the list stay as they are.
\<close>

definition inserted ::
  "node_heap \<Rightarrow> nat list \<Rightarrow> nat list \<Rightarrow> nat list \<Rightarrow> object \<Rightarrow> nat \<Rightarrow> base_list \<Rightarrow> node_heap \<Rightarrow> bool" where
  "inserted h xs ys cs x b l' h' \<longleftrightarrow> same_objects h h' (set xs \<union> set ys) \<and> rep l' h' (xs @ b # ys) cs
     \<and> map_option m_pObject (node_at h' b) = Some x
     \<and> (\<forall>a. a \<noteq> b \<longrightarrow> a \<notin> set xs \<union> set ys \<longrightarrow> node_at h' a = node_at h a)"

definition added ::
  "node_heap \<Rightarrow> nat list \<Rightarrow> nat list \<Rightarrow> nat list \<Rightarrow> object \<Rightarrow> position \<Rightarrow> base_list \<Rightarrow> node_heap \<Rightarrow> bool" where
  "added h xs ys cs x r l' h' \<longleftrightarrow> same_objects h h' (set xs \<union> set ys)
     \<and> (\<forall>a. node_at h a \<noteq> None \<longrightarrow> a \<notin> set xs \<union> set ys \<union> set cs \<longrightarrow> node_at h' a = node_at h a)
     \<and> (\<exists>cs'. set cs' \<subseteq> set cs \<and> (case r of
          None \<Rightarrow> rep l' h' (xs @ ys) cs'
        | Some b \<Rightarrow> rep l' h' (xs @ b # ys) cs' \<and> map_option m_pObject (node_at h' b) = Some x
            \<and> (b \<in> set cs \<or> node_at h b = None)))"

text \<open>The heap after an insertion between \<open>xs\<close> and \<open>ys\<close>, whatever the order of the writes.\<close>

definition insert_heap :: "nat list \<Rightarrow> nat \<Rightarrow> nat list \<Rightarrow> object \<Rightarrow> node_heap \<Rightarrow> node_heap" where
  "insert_heap xs b ys x h =
     upd (last_or xs None) (set_next (Some b))
      (upd (first_or ys None) (set_prev (Some b))
        (write_node b (node_of x (last_or xs None) (first_or ys None)) h))"

lemma insert_heap_rep:
  assumes r: "rep l h (xs @ ys) cs" and b: "b \<notin> set (xs @ ys)" "b \<notin> set cs" "node_at h b \<noteq> None"
  shows "inserted h xs ys cs x b (l\<lparr>m_pFirst := first_or (xs @ b # ys) None,
       m_pLast := last_or (xs @ b # ys) None, m_Count := m_Count l + 1\<rparr>) (insert_heap xs b ys x h)"
proof -
  note p = rep_parts [OF r]
  let ?w = "write_node b (node_of x (last_or xs None) (first_or ys None)) h"
  let ?g = "upd (first_or ys None) (set_prev (Some b)) ?w"
  have ne: "\<forall>a. last_or xs None = Some a \<longrightarrow> a \<noteq> b \<and> a \<notin> set ys \<and> a \<notin> set cs"
    "\<forall>a. first_or ys None = Some a \<longrightarrow> a \<noteq> b \<and> a \<notin> set xs \<and> a \<notin> set cs"
    using last_or_in [of xs] first_or_in [of ys] b p(3,5) by auto
  have "chain ?w None xs (first_or ys None)" "chain ?w (last_or xs None) ys None"
    using p(1) b(1) by (auto simp: chain_append chain_write_other)
  moreover have d: "distinct xs" "distinct ys" using p(3) by auto
  ultimately have "chain ?g None xs (first_or ys None)" "chain ?g (Some b) ys None"
    using ne(2) by (auto simp: chain_upd_other intro: chain_relink_start)
  then have "chain (insert_heap xs b ys x h) None xs (Some b)" "chain (insert_heap xs b ys x h) (Some b) ys None"
    unfolding insert_heap_def using ne(1) d by (auto simp: chain_upd_other intro: chain_relink_end)
  moreover have nb: "node_at (insert_heap xs b ys x h) b = Some (node_of x (last_or xs None) (first_or ys None))"
    unfolding insert_heap_def using ne
    by (subst upd_other, force, subst upd_other, force) (simp add: write_node_at)
  ultimately have "chain (insert_heap xs b ys x h) None (xs @ b # ys) None"
    by (simp add: chain_append)
  moreover have "unused_chain (insert_heap xs b ys x h) cs"
    unfolding insert_heap_def using ne b(2) p(2) by (simp add: unused_upd_other unused_write_other)
  moreover have "unborn (insert_heap xs b ys x h)"
    unfolding insert_heap_def using p(11) b(3) by (simp add: unborn_write)
  moreover have "same_objects h (insert_heap xs b ys x h) (set xs \<union> set ys)"
    unfolding insert_heap_def
    by (rule same_objects_trans [OF same_objects_trans [OF same_objects_write]]; (rule same_objects_upd)?) (use b(1) in auto)
  moreover have "node_at (insert_heap xs b ys x h) a = node_at h a" if "a \<noteq> b" "a \<notin> set xs \<union> set ys" for a
  proof -
    have "last_or xs None \<noteq> Some a" "first_or ys None \<noteq> Some a" using that(2) last_or_in first_or_in by fastforce+
    then show ?thesis unfolding insert_heap_def using that(1) by (simp add: upd_other write_node_at)
  qed
  ultimately show ?thesis
    using p b nb by (auto simp: inserted_def rep_def)
qed

lemma added_weaken:
  assumes "inserted h1 xs ys cs1 x b l' h'" "node_for h cs b h1 cs1" "b \<notin> set (xs @ ys)"
  shows "added h xs ys cs x (Some b) l' h'"
proof -
  have same: "\<forall>a. a \<noteq> b \<longrightarrow> node_at h1 a = node_at h a" using assms(2) by (simp add: node_for_def)
  then have "same_objects h h1 (set xs \<union> set ys)" using assms(3) by (auto intro: same_objects_eq)
  then have "same_objects h h' (set xs \<union> set ys)" using assms(1) same_objects_trans by (auto simp: inserted_def)
  moreover have "\<forall>a. node_at h a \<noteq> None \<longrightarrow> a \<notin> set xs \<union> set ys \<union> set cs \<longrightarrow> node_at h' a = node_at h a"
    using assms(1,2) same unfolding inserted_def node_for_def by (metis UnCI)
  ultimately show ?thesis using assms(1,2) unfolding added_def inserted_def node_for_def by auto
qed

lemma no_node_added:
  "rep l h (xs @ ys) cs \<Longrightarrow> added h xs ys cs x None l h"
  by (auto simp: added_def)

lemma end_live:
  assumes "chain h p ps q"
  shows "last_or ps None = Some a \<Longrightarrow> node_at h a \<noteq> None" "first_or ps None = Some a \<Longrightarrow> node_at h a \<noteq> None"
  using chain_live [OF assms] last_or_in first_or_in by blast+

lemma AddTail_spec:
  assumes r: "rep l h ps cs"
  shows "\<exists>p l' h'. AddTailI fresh x l h = Some (p, l', h') \<and> added h ps [] cs x p l' h' \<and> (p = None \<longrightarrow> fresh = None)"
proof (cases "obtain_node fresh l h = Some (None, l, h)")
  case True
  then show ?thesis
    using r obtain_node_spec [OF r, of fresh] no_node_added [of l h ps "[]"] by (auto simp: AddTailI_def)
next
  case False
  then obtain b l1 h1 cs1 where o: "obtain_node fresh l h = Some (Some b, l1, h1)" "rep l1 h1 ps cs1"
    "b \<notin> set ps" "b \<notin> set cs1" "node_at h1 b \<noteq> None" "node_for h cs b h1 cs1"
    using obtain_node_spec [OF r, of fresh] by auto
  note p = rep_parts [OF o(2)]
  let ?l = "l1\<lparr>m_pFirst := first_or (ps @ [b]) None, m_pLast := last_or (ps @ [b]) None, m_Count := m_Count l1 + 1\<rparr>"
  have "inserted h1 ps [] cs1 x b ?l (insert_heap ps b [] x h1)"
    using insert_heap_rep [of l1 h1 ps "[]" cs1 b x] o by simp
  then have "added h ps [] cs x (Some b) ?l (insert_heap ps b [] x h1)"
    by (rule added_weaken) (use o(3,6) in simp_all)
  moreover have "AddTailI fresh x l h = Some (Some b, ?l, insert_heap ps b [] x h1)"
  proof (cases "last_or ps None")
    case None
    then have "ps = []" by (simp add: last_or_None)
    then show ?thesis
      using o p by (simp add: AddTailI_def put_node_simp three_writes insert_heap_def)
  next
    case (Some z)
    have "z \<noteq> b" "node_at h1 z \<noteq> None" using last_or_in [OF Some] o(3) chain_live [OF p(1)] by auto
    moreover have "l1\<lparr>m_pFirst := first_or ps (Some b)\<rparr> = l1" using Some p(6) by (cases ps) auto
    ultimately show ?thesis
      using o p Some
      by (simp add: AddTailI_def put_node_simp three_writes insert_heap_def write_node_at)
  qed
  ultimately show ?thesis by blast
qed

lemma AddHead_spec:
  assumes r: "rep l h ps cs"
  shows "\<exists>p l' h'. AddHeadI fresh x l h = Some (p, l', h') \<and> added h [] ps cs x p l' h' \<and> (p = None \<longrightarrow> fresh = None)"
proof (cases "obtain_node fresh l h = Some (None, l, h)")
  case True
  then show ?thesis
    using r obtain_node_spec [OF r, of fresh] no_node_added [of l h "[]" ps] by (auto simp: AddHeadI_def)
next
  case False
  then obtain b l1 h1 cs1 where o: "obtain_node fresh l h = Some (Some b, l1, h1)" "rep l1 h1 ps cs1"
    "b \<notin> set ps" "b \<notin> set cs1" "node_at h1 b \<noteq> None" "node_for h cs b h1 cs1"
    using obtain_node_spec [OF r, of fresh] by auto
  note p = rep_parts [OF o(2)]
  let ?l = "l1\<lparr>m_pFirst := first_or (b # ps) None, m_pLast := last_or (b # ps) None, m_Count := m_Count l1 + 1\<rparr>"
  have "inserted h1 [] ps cs1 x b ?l (insert_heap [] b ps x h1)"
    using insert_heap_rep [of l1 h1 "[]" ps cs1 b x] o by simp
  then have "added h [] ps cs x (Some b) ?l (insert_heap [] b ps x h1)"
    by (rule added_weaken) (use o(3,6) in simp_all)
  moreover have "AddHeadI fresh x l h = Some (Some b, ?l, insert_heap [] b ps x h1)"
  proof (cases "first_or ps None")
    case None
    then have "ps = []" by (simp add: first_or_None)
    then show ?thesis
      using o p by (simp add: AddHeadI_def put_node_simp three_writes insert_heap_def)
  next
    case (Some z)
    have "z \<noteq> b" "node_at h1 z \<noteq> None" using first_or_in [OF Some] o(3) chain_live [OF p(1)] by auto
    moreover have "last_or ps (Some b) = last_or ps None" using Some by (cases ps) (auto simp: last_or_def)
    ultimately show ?thesis
      using o p Some
      by (simp add: AddHeadI_def put_node_simp three_writes insert_heap_def write_node_at)
  qed
  ultimately show ?thesis by blast
qed

lemma chain_node:
  assumes "chain h p (xs @ a # ys) q"
  obtains n where "node_at h a = Some n" "m_pPrev n = last_or xs p" "m_pNext n = first_or ys q"
  using assms by (auto simp: chain_append)

lemma AddToCache_count:
  "AddToCache p (l\<lparr>m_Count := k\<rparr>) h = map_option (\<lambda>(l1, h1). (l1\<lparr>m_Count := k\<rparr>, h1)) (AddToCache p l h)"
  by (simp add: AddToCache_def split: Option.bind_splits)

definition unlink_heap :: "nat list \<Rightarrow> nat list \<Rightarrow> node_heap \<Rightarrow> node_heap" where
  "unlink_heap xs ys h = upd (first_or ys None) (set_prev (last_or xs None))
     (upd (last_or xs None) (set_next (first_or ys None)) h)"

lemma unlink_heap_rep:
  assumes r: "rep l h (xs @ a # ys) cs"
  shows "rep (l\<lparr>m_pFirst := first_or (xs @ ys) None, m_pLast := last_or (xs @ ys) None,
      m_Count := m_Count l - 1\<rparr>) (unlink_heap xs ys h) (xs @ ys) cs"
    and "node_at (unlink_heap xs ys h) a = node_at h a"
    and "same_objects h (unlink_heap xs ys h) A"
proof -
  note p = rep_parts [OF r]
  let ?g = "upd (last_or xs None) (set_next (first_or ys None)) h"
  have ne: "\<forall>b. last_or xs None = Some b \<longrightarrow> b \<noteq> a \<and> b \<notin> set ys \<and> b \<notin> set cs"
    "\<forall>b. first_or ys None = Some b \<longrightarrow> b \<noteq> a \<and> b \<notin> set xs \<and> b \<notin> set cs"
    using last_or_in [of xs] first_or_in [of ys] p(3,5) by auto
  have d: "distinct xs" "distinct ys" using p(3) by auto
  have "chain h None xs (Some a)" "chain h (Some a) ys None" using p(1) by (auto simp: chain_append)
  then have "chain ?g None xs (first_or ys None)" "chain ?g (Some a) ys None"
    using ne(1) d by (auto simp: chain_upd_other intro: chain_relink_end)
  then have "chain (unlink_heap xs ys h) None xs (first_or ys None)"
    "chain (unlink_heap xs ys h) (last_or xs None) ys None"
    unfolding unlink_heap_def using ne(2) d by (auto simp: chain_upd_other intro: chain_relink_start)
  then have "chain (unlink_heap xs ys h) None (xs @ ys) None" by (simp add: chain_append)
  moreover have "unused_chain (unlink_heap xs ys h) cs"
    unfolding unlink_heap_def using ne p(2) by (simp add: unused_upd_other)
  ultimately show "rep (l\<lparr>m_pFirst := first_or (xs @ ys) None, m_pLast := last_or (xs @ ys) None,
      m_Count := m_Count l - 1\<rparr>) (unlink_heap xs ys h) (xs @ ys) cs"
    using p by (auto simp: rep_def unlink_heap_def)
  show "node_at (unlink_heap xs ys h) a = node_at h a"
    unfolding unlink_heap_def using ne by (subst upd_other, force, subst upd_other, force) simp
  show "same_objects h (unlink_heap xs ys h) A"
    unfolding unlink_heap_def by (rule same_objects_trans; rule same_objects_upd) simp_all
qed

lemma Remove_spec:
  assumes r: "rep l h (xs @ a # ys) cs"
  shows "\<exists>l' h' cs'. RemoveI (Some a) l h = Some (map_option m_pObject (node_at h a), l', h') \<and>
    rep l' h' (xs @ ys) cs' \<and> same_objects h h' (set xs \<union> set ys)"
proof -
  note p = rep_parts [OF r]
  obtain n where n: "node_at h a = Some n" "m_pPrev n = last_or xs None" "m_pNext n = first_or ys None"
    using p(1) by (rule chain_node)
  let ?h2 = "unlink_heap xs ys h"
  let ?l2 = "l\<lparr>m_pFirst := first_or (xs @ ys) None, m_pLast := last_or (xs @ ys) None\<rparr>"
  let ?l3 = "?l2\<lparr>m_Count := m_Count l - 1\<rparr>"
  have a: "a \<notin> set (xs @ ys)" "a \<notin> set cs" using p(3,5) by auto
  obtain l1 h1 cs1 where c: "AddToCache (Some a) ?l3 ?h2 = Some (l1, h1)" "rep l1 h1 (xs @ ys) cs1"
    "\<forall>b \<in> set (xs @ ys). node_at h1 b = node_at ?h2 b"
    using AddToCache_spec [OF unlink_heap_rep(1) [OF r] a] n unlink_heap_rep(2) [OF r] by auto
  then obtain l4 where l4: "AddToCache (Some a) ?l2 ?h2 = Some (l4, h1)" "l1 = l4\<lparr>m_Count := m_Count l - 1\<rparr>"
    unfolding AddToCache_count by auto
  have "m_Count l4 = m_Count l"
    using l4(1) by (auto simp: AddToCache_def split: if_splits Option.bind_splits)
  moreover have "RemoveI (Some a) l h = Some (Some (m_pObject n), l4\<lparr>m_Count := m_Count l4 - 1\<rparr>, h1)"
  proof -
    let ?g = "upd (last_or xs None) (set_next (m_pNext n)) h"
    have x: "\<forall>b. last_or xs None = Some b \<longrightarrow> b \<noteq> a \<and> node_at h b \<noteq> None"
      using last_or_in [of xs] chain_live [OF p(1)] p(3) by fastforce
    have y: "\<forall>b. first_or ys None = Some b \<longrightarrow> b \<noteq> a \<and> node_at h b \<noteq> None"
      using first_or_in [of ys] chain_live [OF p(1)] p(3) by fastforce
    have g: "node_at ?g a = Some n" using x n(1) by (subst upd_other) auto
    have h2: "node_at ?h2 a = Some n" using unlink_heap_rep(2) [OF r] n(1) by simp
    have left: "(if m_pPrev n = None then Some (l\<lparr>m_pFirst := m_pNext n\<rparr>, h)
         else do { h1 \<leftarrow> SetNext (m_pPrev n) (m_pNext n) h; Some (l, h1) })
       = Some (l\<lparr>m_pFirst := first_or (xs @ ys) None\<rparr>, ?g)" 
    proof (cases "last_or xs None")
      case (Some z)
      then have "first_or xs (first_or ys None) = m_pFirst l" using p(6) by (cases xs) auto
      then show ?thesis using n(2,3) x Some by (auto simp: put_node_simp)
    qed (use n in \<open>simp add: last_or_None\<close>)
    have right: "(if m_pNext n = None then Some (l'\<lparr>m_pLast := m_pPrev n\<rparr>, ?g)
         else do { h2 \<leftarrow> SetPrev (m_pNext n) (m_pPrev n) ?g; Some (l', h2) })
       = Some (l'\<lparr>m_pLast := last_or (xs @ ys) None\<rparr>, ?h2)" if "m_pLast l' = last_or ys (Some a)" for l' :: base_list
    proof (cases "first_or ys None")
      case (Some z)
      then have "last_or ys (last_or xs None) = m_pLast l'" using that by (cases ys) auto
      then show ?thesis using n(2,3) y Some by (auto simp: put_node_simp unlink_heap_def)
    qed (use n in \<open>simp add: first_or_None unlink_heap_def\<close>)
    show ?thesis
      using p(7) unfolding RemoveI_def
      by (simp add: get_node_Some n(1) g h2 left [simplified] right [simplified] l4(1) [simplified])
  qed
  ultimately show ?thesis
    using l4(2) c n same_objects_trans [OF unlink_heap_rep(3) [OF r] same_objects_eq [OF c(3)]] by auto
qed

text \<open>The middle case of \<open>AddAfterI\<close> and \<open>AddBeforeI\<close>: the neighbours \<open>a\<close> and \<open>z\<close> both exist.\<close>

lemma chain_in_heap:
  assumes "node_at h b \<noteq> None" "node_at h a \<noteq> None" "node_at h z \<noteq> None" "z \<noteq> b" "a \<noteq> b"
    and "last_or xs None = Some a" "first_or ys None = Some z"
  shows "chain_in (Some a) (Some b) (Some z) (upd (Some b) (\<lambda>n. n\<lparr>m_pObject := x\<rparr>) h) = Some (insert_heap xs b ys x h)"
  using assms by (simp add: chain_in_def put_node_simp three_writes insert_heap_def write_node_at)

lemma insert_between:
  assumes r: "rep l h (xs @ ys) cs" and l: "last_or xs None = Some a" and f: "first_or ys None = Some z"
  shows "(obtain_node fresh l h = Some (None, l, h) \<and> fresh = None) \<or>
    (\<exists>b l1 h1 h3. obtain_node fresh l h = Some (Some b, l1, h1) \<and> node_at h1 b \<noteq> None \<and> a \<noteq> b \<and> z \<noteq> b
      \<and> chain_in (Some a) (Some b) (Some z) (upd (Some b) (\<lambda>n. n\<lparr>m_pObject := x\<rparr>) h1) = Some h3
      \<and> node_at h1 a = node_at h a \<and> node_at h1 z = node_at h z
      \<and> added h xs ys cs x (Some b) (l1\<lparr>m_Count := m_Count l1 + 1\<rparr>) h3)"
proof (cases "obtain_node fresh l h = Some (None, l, h)")
  case True
  then show ?thesis using obtain_node_spec [OF r, of fresh] by auto
next
  case False
  then obtain b l1 h1 cs1 where o: "obtain_node fresh l h = Some (Some b, l1, h1)" "rep l1 h1 (xs @ ys) cs1"
    "b \<notin> set (xs @ ys)" "b \<notin> set cs1" "node_at h1 b \<noteq> None" "node_for h cs b h1 cs1"
    using obtain_node_spec [OF r, of fresh] by auto
  note p = rep_parts [OF o(2)]
  have m: "a \<in> set (xs @ ys)" "z \<in> set (xs @ ys)" using last_or_in [OF l] first_or_in [OF f] by auto
  then have az: "a \<noteq> b" "z \<noteq> b" "node_at h1 a \<noteq> None" "node_at h1 z \<noteq> None"
    using o(3) chain_live [OF p(1)] by auto
  have "l1\<lparr>m_pFirst := first_or (xs @ b # ys) None, m_pLast := last_or (xs @ b # ys) None\<rparr> = l1"
    using p(6,7) l f by (cases xs; cases ys) auto
  then have "l1\<lparr>m_pFirst := first_or (xs @ b # ys) None, m_pLast := last_or (xs @ b # ys) None, m_Count := m_Count l1 + 1\<rparr>
      = l1\<lparr>m_Count := m_Count l1 + 1\<rparr>" by metis
  then have "added h xs ys cs x (Some b) (l1\<lparr>m_Count := m_Count l1 + 1\<rparr>) (insert_heap xs b ys x h1)"
    using added_weaken [OF insert_heap_rep [OF o(2-5), of x] o(6,3)] by simp
  moreover have "node_at h1 a = node_at h a" "node_at h1 z = node_at h z" using o(6) az(1,2) by (simp_all add: node_for_def)
  ultimately show ?thesis
    using o(1,5) az chain_in_heap [OF o(5) az(3,4,2,1) l f, of x] by blast
qed

lemma AddAfter_spec:
  assumes r: "rep l h (xs @ a # ys) cs"
  shows "\<exists>p l' h'. AddAfterI fresh (Some a) x l h = Some (p, l', h') \<and> added h (xs @ [a]) ys cs x p l' h'
      \<and> (p = None \<longrightarrow> fresh = None)"
proof (cases "first_or ys None")
  case None
  then show ?thesis
    using AddTail_spec [OF r, of fresh x] rep_parts(7) [OF r] by (simp add: AddAfterI_def first_or_None)
next
  case (Some z)
  note p = rep_parts [OF r]
  obtain n where n: "node_at h a = Some n" "m_pNext n = Some z" using p(1) Some by (metis chain_node)
  have "last_or ys (Some a) \<noteq> Some a"
    using Some p(3) by (cases ys) (auto simp: last_or_def split: if_splits)
  then have "AddAfterI fresh (Some a) x l h = do {
       (q, l1, h1) \<leftarrow> obtain_node fresh l h;
       if q = None then Some (None, l1, h1)
       else do {
         h2 \<leftarrow> SetData q x h1;
         after \<leftarrow> get_node (Some a) h2;
         h3 \<leftarrow> chain_in (Some a) q (m_pNext after) h2;
         Some (q, l1\<lparr>m_Count := m_Count l1 + 1\<rparr>, h3) } }"
    using p(7) by (simp add: AddAfterI_def)
  moreover note insert_between [of l h "xs @ [a]" ys cs a z fresh x]
  ultimately show ?thesis
    using r Some n no_node_added [of l h "xs @ [a]" ys cs]
    by (auto simp: put_node_simp get_node_Some upd_other)
qed

lemma AddBefore_spec:
  assumes r: "rep l h (xs @ a # ys) cs"
  shows "\<exists>p l' h'. AddBeforeI fresh (Some a) x l h = Some (p, l', h') \<and> added h xs (a # ys) cs x p l' h'
      \<and> (p = None \<longrightarrow> fresh = None)"
proof (cases "last_or xs None")
  case None
  then show ?thesis
    using AddHead_spec [OF r, of fresh x] rep_parts(6) [OF r] by (simp add: AddBeforeI_def last_or_None)
next
  case (Some z)
  note p = rep_parts [OF r]
  obtain n where n: "node_at h a = Some n" "m_pPrev n = Some z" using p(1) Some by (metis chain_node)
  have "first_or xs (Some a) \<noteq> Some a"
    using Some p(3) by (cases xs) auto
  then have "AddBeforeI fresh (Some a) x l h = do {
       (q, l1, h1) \<leftarrow> obtain_node fresh l h;
       if q = None then Some (None, l1, h1)
       else do {
         h2 \<leftarrow> SetData q x h1;
         bef \<leftarrow> get_node (Some a) h2;
         h3 \<leftarrow> chain_in (m_pPrev bef) q (Some a) h2;
         Some (q, l1\<lparr>m_Count := m_Count l1 + 1\<rparr>, h3) } }"
    using p(6) by (simp add: AddBeforeI_def)
  moreover note insert_between [of l h xs "a # ys" cs z a fresh x]
  ultimately show ?thesis
    using r Some n no_node_added [of l h xs "a # ys" cs]
    by (auto simp: put_node_simp get_node_Some upd_other)
qed

section \<open>Whole-list operations\<close>

lemma last_or_rev [simp]: "last_or (rev xs) p = first_or xs p" "first_or (rev xs) p = last_or xs p"
  by (induction xs arbitrary: p) simp_all

lemma reverse_walk_chain:
  assumes "chain h p ps None" "distinct ps" "length ps \<le> fuel"
  shows "\<exists>h'. reverse_walk fuel (first_or ps None) h = Some h' \<and> chain h' None (rev ps) p \<and> same_objects h h' UNIV
     \<and> (\<forall>a. a \<notin> set ps \<longrightarrow> node_at h' a = node_at h a) \<and> (unborn h \<longrightarrow> unborn h')"
  using assms
proof (induction ps arbitrary: h p fuel)
  case Nil
  then show ?case by simp
next
  case (Cons a as)
  obtain k where k: "fuel = Suc k" using Cons.prems(3) by (cases fuel) auto
  obtain n where n: "node_at h a = Some n" "m_pPrev n = p" "m_pNext n = first_or as None"
    using Cons.prems(1) by auto
  let ?h2 = "upd (Some a) (set_prev (m_pNext n)) (upd (Some a) (set_next (m_pPrev n)) h)"
  have "chain ?h2 (Some a) as None" using Cons.prems(1,2) by (simp add: chain_upd_other)
  then obtain h' where h': "reverse_walk k (first_or as None) ?h2 = Some h'" "chain h' None (rev as) (Some a)"
    "same_objects ?h2 h' UNIV" "\<forall>b. b \<notin> set as \<longrightarrow> node_at h' b = node_at ?h2 b" "unborn ?h2 \<longrightarrow> unborn h'"
    using Cons.IH [of ?h2 "Some a" k] Cons.prems k by auto
  have "node_at ?h2 a = Some (n\<lparr>m_pNext := p, m_pPrev := first_or as None\<rparr>)"
    using n by (simp add: upd_same)
  then have "chain h' None (rev (a # as)) p"
    using h'(2,4) Cons.prems(2) by (simp add: chain_append)
  moreover have "same_objects h ?h2 UNIV"
    by (rule same_objects_trans; rule same_objects_upd) simp_all
  then have "same_objects h h' UNIV" using h'(3) same_objects_trans by blast
  moreover have "\<forall>b. b \<notin> set (a # as) \<longrightarrow> node_at h' b = node_at h b"
    using h'(4) by (auto simp: upd_other)
  ultimately show ?case using h'(1,5) n k by (simp add: put_node_simp)
qed

lemma Reverse_spec:
  assumes r: "rep l h ps cs"
  shows "\<exists>l' h'. Reverse l h = Some (l', h') \<and> rep l' h' (rev ps) cs \<and> same_objects h h' UNIV"
proof -
  note p = rep_parts [OF r]
  obtain h' where h': "reverse_walk (length ps) (first_or ps None) h = Some h'" "chain h' None (rev ps) None"
    "same_objects h h' UNIV" "\<forall>a. a \<notin> set ps \<longrightarrow> node_at h' a = node_at h a" "unborn h'"
    using reverse_walk_chain [OF p(1,3) order.refl] p(11) by auto
  have "unused_chain h' cs" using p(2,5) h'(4) by (subst unused_cong [where h = h]) auto
  then have "rep (l\<lparr>m_pFirst := m_pLast l, m_pLast := m_pFirst l\<rparr>) h' (rev ps) cs"
    using p h'(2,5) by (simp add: rep_def)
  then show ?thesis using h'(1,3) p(6,8) by (simp add: Reverse_def)
qed

lemma delete_walk_chain:
  assumes "chain h p ps None" "distinct ps" "length ps \<le> fuel"
  shows "\<exists>h'. delete_walk fuel (first_or ps None) h = Some h'
     \<and> (\<forall>a. node_at h' a = (if a \<in> set ps then None else node_at h a)) \<and> (unborn h \<longrightarrow> unborn h')"
  using assms
proof (induction ps arbitrary: h p fuel)
  case Nil
  then show ?case by simp
next
  case (Cons a as)
  obtain k where k: "fuel = Suc k" using Cons.prems(3) by (cases fuel) auto
  obtain n where n: "node_at h a = Some n" "m_pNext n = first_or as None" using Cons.prems(1) by auto
  let ?h1 = "h\<lparr>node_at := (node_at h)(a := None)\<rparr>"
  have "chain ?h1 (Some a) as None" using Cons.prems(1,2) by (subst chain_cong [where h = h]) auto
  then obtain h' where "delete_walk k (first_or as None) ?h1 = Some h'"
    "\<forall>b. node_at h' b = (if b \<in> set as then None else node_at ?h1 b)" "unborn ?h1 \<longrightarrow> unborn h'"
    using Cons.IH [of ?h1 "Some a" k] Cons.prems k by auto
  then show ?case using n k by (auto simp: delete_node_def unborn_def)
qed

lemma RemoveAll_spec:
  assumes r: "rep l h ps cs"
  shows "\<exists>l' h'. RemoveAll l h = Some (l', h') \<and> rep l' h' [] cs \<and> (\<forall>a \<in> set ps. node_at h' a = None)"
proof -
  note p = rep_parts [OF r]
  obtain h' where h': "delete_walk (length ps) (first_or ps None) h = Some h'"
    "\<forall>a. node_at h' a = (if a \<in> set ps then None else node_at h a)" "unborn h'"
    using delete_walk_chain [OF p(1,3) order.refl] p(11) by auto
  have "unused_chain h' cs" using p(2,5) h'(2) by (subst unused_cong [where h = h]) auto
  then show ?thesis using p h' by (simp add: RemoveAll_def rep_def)
qed

lemma find_walk_chain:
  assumes "chain h p ps None" "length ps \<le> fuel"
  shows "find_walk fuel (first_or ps None) x h = Some (find (\<lambda>a. m_pObject (the (node_at h a)) = x) ps)"
  using assms
proof (induction ps arbitrary: p fuel)
  case (Cons a as)
  then show ?case by (cases fuel) auto
qed simp

lemma Find_spec:
  assumes r: "rep l h ps cs"
  shows "FindI x l h = Some (find (\<lambda>a. m_pObject (the (node_at h a)) = x) ps)"
  using find_walk_chain [OF rep_parts(1) [OF r] order.refl, of x] rep_parts(6,8) [OF r] by (simp add: FindI_def)

section \<open>Moving nodes from one list to another\<close>

lemma count_back_chain:
  "chain h None (xs @ [a]) q \<Longrightarrow> length xs < fuel \<Longrightarrow> count_back fuel (Some a) h = Some (int (length xs) + 1)"
proof (induction xs arbitrary: a q fuel rule: rev_induct)
  case Nil
  then show ?case by (cases fuel) auto
next
  case (snoc b xs)
  obtain k where k: "fuel = Suc k" using snoc.prems(2) by (cases fuel) auto
  have "chain h None (xs @ [b]) (Some a)" "\<exists>n. node_at h a = Some n \<and> m_pPrev n = Some b"
    using snoc.prems(1) by (auto simp: chain_append)
  moreover have "length xs < k" using snoc.prems(2) k by simp
  ultimately show ?case using snoc.IH [of b "Some a" k] k by auto
qed

lemma count_on_chain:
  "chain h p ps None \<Longrightarrow> length ps \<le> fuel \<Longrightarrow> count_on fuel (first_or ps None) h = Some (int (length ps))"
proof (induction ps arbitrary: p fuel)
  case (Cons a as)
  then show ?case by (cases fuel) auto
qed simp

lemma put_if_linked: "\<forall>a. p = Some a \<longrightarrow> node_at h a \<noteq> None \<Longrightarrow>
    (if p \<noteq> None then put_node p f h else Some h) = Some (upd p f h)"
  by (cases p) (auto simp: put_node_simp)

lemma chain_relink_at:
  "chain h p xs q \<Longrightarrow> distinct xs \<Longrightarrow> last_or xs None = r \<Longrightarrow> chain (upd r (set_next q') h) p xs q'"
  "chain h p xs q \<Longrightarrow> distinct xs \<Longrightarrow> first_or xs None = r \<Longrightarrow> chain (upd r (set_prev p') h) p' xs q"
  using chain_relink_end chain_relink_start by blast+

text \<open>Two lists on one heap that share no node.\<close>

definition rep2 ::
  "base_list \<Rightarrow> base_list \<Rightarrow> node_heap \<Rightarrow> nat list \<Rightarrow> nat list \<Rightarrow> nat list \<Rightarrow> nat list \<Rightarrow> bool" where
  "rep2 l k h ps cs qs ds \<longleftrightarrow> rep l h ps cs \<and> rep k h qs ds \<and> (set ps \<union> set cs) \<inter> (set qs \<union> set ds) = {}"

lemma rep_update:
  assumes "rep l h ps cs" "unused_chain h' cs" "unborn h'" "chain h' None ps' None" "set ps' \<inter> set cs = {}"
    "distinct ps'" "k = int (length ps')"
  shows "rep (l\<lparr>m_pFirst := first_or ps' None, m_pLast := last_or ps' None, m_Count := k\<rparr>) h' ps' cs"
  using assms by (auto simp: rep_def)

lemma upd_ends_other:
  assumes "set xs \<inter> set ys = {}"
  shows "chain (upd (last_or xs None) f h) p ys q = chain h p ys q" "chain (upd (first_or xs None) f h) p ys q = chain h p ys q"
    "unused_chain (upd (last_or xs None) f h) ys = unused_chain h ys" "unused_chain (upd (first_or xs None) f h) ys = unused_chain h ys"
  using assms last_or_in [of xs] first_or_in [of xs] by (blast intro!: chain_upd_other unused_upd_other)+

text \<open>The writes of \<open>MoveToTail\<close>: link \<open>qs\<close> to \<open>xs\<close>, cut \<open>ys\<close> off behind \<open>xs\<close>.\<close>

definition tail_heap :: "nat list \<Rightarrow> nat list \<Rightarrow> nat list \<Rightarrow> node_heap \<Rightarrow> node_heap" where
  "tail_heap qs xs ys h = upd (last_or xs None) (set_next None) (upd (first_or ys None) (set_prev None)
     (upd (first_or xs None) (set_prev (last_or qs None)) (upd (last_or qs None) (set_next (first_or xs None)) h)))"

lemma tail_heap_chains:
  assumes "chain h None qs None" "chain h None (xs @ ys) None" "distinct (xs @ ys)" "distinct qs" "set qs \<inter> set (xs @ ys) = {}"
  shows "chain (tail_heap qs xs ys h) None (qs @ xs) None" "chain (tail_heap qs xs ys h) None ys None"
proof -
  have x: "chain h None xs (first_or ys None)" "chain h (last_or xs None) ys None"
    using assms(2) by (auto simp: chain_append)
  have d: "distinct xs" "distinct ys" "set qs \<inter> set xs = {}" "set qs \<inter> set ys = {}" "set xs \<inter> set ys = {}"
    "set xs \<inter> set qs = {}" "set ys \<inter> set qs = {}" "set ys \<inter> set xs = {}"
    using assms(3,5) by auto
  note [simp] = upd_ends_other [OF d(3)] upd_ends_other [OF d(4)] upd_ends_other [OF d(5)]
    upd_ends_other [OF d(6)] upd_ends_other [OF d(7)] upd_ends_other [OF d(8)]
  have "chain (tail_heap qs xs ys h) None qs (first_or xs None)"
    unfolding tail_heap_def using chain_relink_end [OF assms(1,4)] by simp
  moreover have "chain (tail_heap qs xs ys h) (last_or qs None) xs None"
    unfolding tail_heap_def by (rule chain_relink_end [OF _ d(1)]) (simp, rule chain_relink_start [OF _ d(1)], use x(1) in simp)
  ultimately show "chain (tail_heap qs xs ys h) None (qs @ xs) None" by (simp add: chain_append)
  show "chain (tail_heap qs xs ys h) None ys None"
    unfolding tail_heap_def using chain_relink_start [OF _ d(2)] x(2) by simp
qed

lemma tail_heap_frame:
  assumes "(set qs \<union> set xs \<union> set ys) \<inter> set cs = {}"
  shows "unused_chain (tail_heap qs xs ys h) cs = unused_chain h cs" "unborn (tail_heap qs xs ys h) = unborn h"
    "same_objects h (tail_heap qs xs ys h) A"
proof -
  have d: "set qs \<inter> set cs = {}" "set xs \<inter> set cs = {}" "set ys \<inter> set cs = {}" using assms by auto
  show "unused_chain (tail_heap qs xs ys h) cs = unused_chain h cs" "unborn (tail_heap qs xs ys h) = unborn h"
    by (simp_all add: tail_heap_def upd_ends_other [OF d(1)] upd_ends_other [OF d(2)] upd_ends_other [OF d(3)])
  show "same_objects h (tail_heap qs xs ys h) A"
    unfolding tail_heap_def
    by (rule same_objects_trans [OF same_objects_trans [OF same_objects_trans]]; rule same_objects_upd) simp_all
qed

text \<open>Both lists after nodes \<open>xs\<close> have gone from the head of one to the tail of the other.\<close>

lemma tail_heap_rep2:
  assumes r: "rep2 l k h (xs @ ys) cs qs ds"
  shows "rep2 (l\<lparr>m_pFirst := first_or ys None, m_pLast := last_or ys None, m_Count := m_Count l - int (length xs)\<rparr>)
     (k\<lparr>m_pFirst := first_or (qs @ xs) None, m_pLast := last_or (qs @ xs) None, m_Count := m_Count k + int (length xs)\<rparr>)
     (tail_heap qs xs ys h) ys cs (qs @ xs) ds"
proof -
  have lk: "rep l h (xs @ ys) cs" "rep k h qs ds" and dis: "(set (xs @ ys) \<union> set cs) \<inter> (set qs \<union> set ds) = {}"
    using r by (auto simp: rep2_def)
  note p = rep_parts [OF lk(1)] and q = rep_parts [OF lk(2)]
  have "set qs \<inter> set (xs @ ys) = {}" using dis by auto
  note c = tail_heap_chains [OF q(1) p(1) p(3) q(3) this]
  have cs: "(set qs \<union> set xs \<union> set ys) \<inter> set cs = {}" "(set qs \<union> set xs \<union> set ys) \<inter> set ds = {}"
    using p(5) q(5) dis by auto
  have u: "unused_chain (tail_heap qs xs ys h) cs" "unused_chain (tail_heap qs xs ys h) ds" "unborn (tail_heap qs xs ys h)"
    using p(2,11) q(2) by (simp_all add: tail_heap_frame(1) [OF cs(1)] tail_heap_frame(1) [OF cs(2)] tail_heap_frame(2) [OF cs(1)])
  have "rep (l\<lparr>m_pFirst := first_or ys None, m_pLast := last_or ys None, m_Count := m_Count l - int (length xs)\<rparr>)
     (tail_heap qs xs ys h) ys cs"
    by (rule rep_update [OF lk(1) u(1,3) c(2)]) (use p(3,5,8) in auto)
  moreover have "rep (k\<lparr>m_pFirst := first_or (qs @ xs) None, m_pLast := last_or (qs @ xs) None,
     m_Count := m_Count k + int (length xs)\<rparr>) (tail_heap qs xs ys h) (qs @ xs) ds"
    by (rule rep_update [OF lk(2) u(2,3) c(1)]) (use p(3) q(3,5,8) dis in auto)
  moreover have "(set ys \<union> set cs) \<inter> (set (qs @ xs) \<union> set ds) = {}" using p(3,5) dis by auto
  ultimately show ?thesis unfolding rep2_def by blast
qed

lemma MoveToTail_spec:
  assumes r: "rep2 l k h (xs @ a # ys) cs qs ds"
  shows "\<exists>l' k' h'. MoveToTail (Some a) l k h = Some (l', k', h') \<and> rep2 l' k' h' ys cs (qs @ xs @ [a]) ds
     \<and> same_objects h h' UNIV"
proof -
  have r': "rep2 l k h ((xs @ [a]) @ ys) cs qs ds" using r by simp
  have lk: "rep l h ((xs @ [a]) @ ys) cs" "rep k h qs ds" and dis: "set (xs @ a # ys) \<inter> set qs = {}"
    using r' by (auto simp: rep2_def)
  note p = rep_parts [OF lk(1)] and q = rep_parts [OF lk(2)]
  let ?m = "last_or qs None" let ?y = "first_or ys None"
  obtain f where f: "first_or (xs @ [a]) None = Some f" "f \<in> set (xs @ [a])" by (cases xs) auto
  let ?h1 = "upd ?m (set_next (Some f)) h" let ?h2 = "upd (Some f) (set_prev ?m) ?h1"
  let ?h3 = "upd ?y (set_prev None) ?h2"
  have t: "tail_heap qs (xs @ [a]) ys h = upd (Some a) (set_next None) ?h3"
    using f(1) by (simp add: tail_heap_def)
  have m: "\<forall>b. ?m = Some b \<longrightarrow> b \<noteq> a \<and> node_at h b \<noteq> None" "\<forall>b. ?y = Some b \<longrightarrow> node_at h b \<noteq> None"
    "node_at h f \<noteq> None" "node_at h a \<noteq> None"
    using last_or_in [of qs] first_or_in [of ys] f(2) dis chain_live [OF p(1)] chain_live [OF q(1)] by auto
  have pf: "m_pFirst l = Some f" and qm: "m_pLast k = ?m" using p(6) q(7) f(1) by simp_all
  have e1: "(if ?m \<noteq> None then SetNext ?m (Some f) h else Some h) = Some ?h1"
    using put_if_linked [of ?m h] m(1) by (auto split: if_splits)
  have e2: "SetPrev (Some f) ?m ?h1 = Some ?h2"
    using m(3) by (simp add: put_node_simp)
  obtain n0 where n0: "node_at h a = Some n0" "m_pNext n0 = ?y" using p(1) by (auto simp: chain_append)
  then have h1a: "node_at ?h1 a = Some n0" using m(1) by (subst upd_other) auto
  obtain n where n: "node_at ?h2 a = Some n" "m_pNext n = ?y"
    using h1a n0(2) by (cases "f = a") (auto simp: upd_same upd_other)
  have e4: "SetNext (Some a) None ?h3 = Some (upd (Some a) (set_next None) ?h3)"
    using m(4) by (simp add: put_node_simp)
  have e3: "(if ?y \<noteq> None then SetPrev ?y None ?h2 else Some ?h2) = Some ?h3"
    using put_if_linked [of ?y ?h2] m(2) by (auto split: if_splits)
  have cnt: "count_back (nat (m_Count l)) (Some a) h = Some (int (length xs) + 1)"
    using count_back_chain [of h xs a ?y "nat (m_Count l)"] p(1,8) by (simp add: chain_append)
  let ?l = "l\<lparr>m_pFirst := ?y, m_pLast := last_or ys None, m_Count := m_Count l - int (length (xs @ [a]))\<rparr>"
  let ?k = "k\<lparr>m_pFirst := first_or (qs @ xs @ [a]) None, m_pLast := last_or (qs @ xs @ [a]) None,
     m_Count := m_Count k + int (length (xs @ [a]))\<rparr>"
  have "MoveToTail (Some a) l k h = Some (?l, ?k, tail_heap qs (xs @ [a]) ys h)"
  proof -
    have fst: "(if m_pFirst k = None then k\<lparr>m_pFirst := Some f\<rparr> else k) = k\<lparr>m_pFirst := first_or qs (first_or xs (Some a))\<rparr>"
      using q(6) f(1) by (cases qs) auto
    have lst: "(if ?y = None then l\<lparr>m_pFirst := None, m_pLast := None\<rparr> else l\<lparr>m_pFirst := ?y\<rparr>)
        = l\<lparr>m_pFirst := ?y, m_pLast := last_or ys None\<rparr>"
      using p(7) by (cases ys) auto
    show ?thesis
      unfolding t MoveToTail_def Let_def pf qm
      by (simp add: cnt pf qm e1 e2 e3 e4 get_node_Some n fst lst algebra_simps cong: if_cong del: not_None_eq split del: if_split)
  qed
  then show ?thesis
    using tail_heap_rep2 [OF r'] tail_heap_frame(3) [of qs "xs @ [a]" ys "[]" h UNIV] by auto
qed

text \<open>The mirror image: \<open>ys\<close> goes from the tail of a list to the head of \<open>qs\<close>.\<close>

definition head_heap :: "nat list \<Rightarrow> nat list \<Rightarrow> nat list \<Rightarrow> node_heap \<Rightarrow> node_heap" where
  "head_heap qs xs ys h = upd (first_or ys None) (set_prev None) (upd (last_or xs None) (set_next None)
     (upd (last_or ys None) (set_next (first_or qs None)) (upd (first_or qs None) (set_prev (last_or ys None)) h)))"

lemma head_heap_chains:
  assumes "chain h None qs None" "chain h None (xs @ ys) None" "distinct (xs @ ys)" "distinct qs" "set qs \<inter> set (xs @ ys) = {}"
  shows "chain (head_heap qs xs ys h) None (ys @ qs) None" "chain (head_heap qs xs ys h) None xs None"
proof -
  have x: "chain h None xs (first_or ys None)" "chain h (last_or xs None) ys None"
    using assms(2) by (auto simp: chain_append)
  have d: "distinct xs" "distinct ys" "set qs \<inter> set xs = {}" "set qs \<inter> set ys = {}" "set xs \<inter> set ys = {}"
    "set xs \<inter> set qs = {}" "set ys \<inter> set qs = {}" "set ys \<inter> set xs = {}"
    using assms(3,5) by auto
  note [simp] = upd_ends_other [OF d(3)] upd_ends_other [OF d(4)] upd_ends_other [OF d(5)]
    upd_ends_other [OF d(6)] upd_ends_other [OF d(7)] upd_ends_other [OF d(8)]
  have "chain (head_heap qs xs ys h) (last_or ys None) qs None"
    unfolding head_heap_def using chain_relink_start [OF assms(1,4)] by simp
  moreover have "chain (head_heap qs xs ys h) None ys (first_or qs None)"
    unfolding head_heap_def by (rule chain_relink_start [OF _ d(2)]) (simp, rule chain_relink_end [OF _ d(2)], use x(2) in simp)
  ultimately show "chain (head_heap qs xs ys h) None (ys @ qs) None" by (simp add: chain_append)
  show "chain (head_heap qs xs ys h) None xs None"
    unfolding head_heap_def using chain_relink_end [OF _ d(1)] x(1) by simp
qed

lemma head_heap_frame:
  assumes "(set qs \<union> set xs \<union> set ys) \<inter> set cs = {}"
  shows "unused_chain (head_heap qs xs ys h) cs = unused_chain h cs" "unborn (head_heap qs xs ys h) = unborn h"
    "same_objects h (head_heap qs xs ys h) A"
proof -
  have d: "set qs \<inter> set cs = {}" "set xs \<inter> set cs = {}" "set ys \<inter> set cs = {}" using assms by auto
  show "unused_chain (head_heap qs xs ys h) cs = unused_chain h cs" "unborn (head_heap qs xs ys h) = unborn h"
    by (simp_all add: head_heap_def upd_ends_other [OF d(1)] upd_ends_other [OF d(2)] upd_ends_other [OF d(3)])
  show "same_objects h (head_heap qs xs ys h) A"
    unfolding head_heap_def
    by (rule same_objects_trans [OF same_objects_trans [OF same_objects_trans]]; rule same_objects_upd) simp_all
qed

lemma head_heap_rep2:
  assumes r: "rep2 l k h (xs @ ys) cs qs ds"
  shows "rep2 (l\<lparr>m_pFirst := first_or xs None, m_pLast := last_or xs None, m_Count := m_Count l - int (length ys)\<rparr>)
     (k\<lparr>m_pFirst := first_or (ys @ qs) None, m_pLast := last_or (ys @ qs) None, m_Count := m_Count k + int (length ys)\<rparr>)
     (head_heap qs xs ys h) xs cs (ys @ qs) ds"
proof -
  have lk: "rep l h (xs @ ys) cs" "rep k h qs ds" and dis: "(set (xs @ ys) \<union> set cs) \<inter> (set qs \<union> set ds) = {}"
    using r by (auto simp: rep2_def)
  note p = rep_parts [OF lk(1)] and q = rep_parts [OF lk(2)]
  have "set qs \<inter> set (xs @ ys) = {}" using dis by auto
  note c = head_heap_chains [OF q(1) p(1) p(3) q(3) this]
  have cs: "(set qs \<union> set xs \<union> set ys) \<inter> set cs = {}" "(set qs \<union> set xs \<union> set ys) \<inter> set ds = {}"
    using p(5) q(5) dis by auto
  have u: "unused_chain (head_heap qs xs ys h) cs" "unused_chain (head_heap qs xs ys h) ds" "unborn (head_heap qs xs ys h)"
    using p(2,11) q(2) by (simp_all add: head_heap_frame(1) [OF cs(1)] head_heap_frame(1) [OF cs(2)] head_heap_frame(2) [OF cs(1)])
  have "rep (l\<lparr>m_pFirst := first_or xs None, m_pLast := last_or xs None, m_Count := m_Count l - int (length ys)\<rparr>)
     (head_heap qs xs ys h) xs cs"
    by (rule rep_update [OF lk(1) u(1,3) c(2)]) (use p(3,5,8) in auto)
  moreover have "rep (k\<lparr>m_pFirst := first_or (ys @ qs) None, m_pLast := last_or (ys @ qs) None,
     m_Count := m_Count k + int (length ys)\<rparr>) (head_heap qs xs ys h) (ys @ qs) ds"
    by (rule rep_update [OF lk(2) u(2,3) c(1)]) (use p(3) q(3,5,8) dis in auto)
  moreover have "(set xs \<union> set cs) \<inter> (set (ys @ qs) \<union> set ds) = {}" using p(3,5) dis by auto
  ultimately show ?thesis unfolding rep2_def by blast
qed

lemma last_first_commute: "l\<lparr>m_pLast := a, m_pFirst := b\<rparr> = l\<lparr>m_pFirst := b, m_pLast := a\<rparr>"
  by simp

lemma MoveToHead_spec:
  assumes r: "rep2 l k h (xs @ a # ys) cs qs ds"
  shows "\<exists>l' k' h'. MoveToHead (Some a) l k h = Some (l', k', h') \<and> rep2 l' k' h' xs cs (a # ys @ qs) ds
     \<and> same_objects h h' UNIV"
proof -
  have lk: "rep l h (xs @ a # ys) cs" "rep k h qs ds" and dis: "set (xs @ a # ys) \<inter> set qs = {}"
    using r by (auto simp: rep2_def)
  note p = rep_parts [OF lk(1)] and q = rep_parts [OF lk(2)]
  let ?m = "first_or qs None" let ?y = "last_or xs None"
  obtain f where f: "last_or (a # ys) None = Some f" "f \<in> set (a # ys)" using last_or_in [of "a # ys"] by (auto simp: last_or_def)
  let ?h1 = "upd ?m (set_prev (Some f)) h" let ?h2 = "upd (Some f) (set_next ?m) ?h1"
  let ?h3 = "upd ?y (set_next None) ?h2"
  have t: "head_heap qs xs (a # ys) h = upd (Some a) (set_prev None) ?h3"
    using f(1) by (simp add: head_heap_def)
  have m: "\<forall>b. ?m = Some b \<longrightarrow> b \<noteq> a \<and> node_at h b \<noteq> None" "\<forall>b. ?y = Some b \<longrightarrow> node_at h b \<noteq> None"
    "node_at h f \<noteq> None" "node_at h a \<noteq> None"
    using first_or_in [of qs] last_or_in [of xs] f(2) dis chain_live [OF p(1)] chain_live [OF q(1)] by auto
  have pf: "m_pLast l = Some f" and qm: "m_pFirst k = ?m" using p(7) q(6) f(1) by simp_all
  have e1: "(if ?m \<noteq> None then SetPrev ?m (Some f) h else Some h) = Some ?h1"
    using put_if_linked [of ?m h] m(1) by (auto split: if_splits)
  have e2: "SetNext (Some f) ?m ?h1 = Some ?h2"
    using m(3) by (simp add: put_node_simp)
  obtain n0 where n0: "node_at h a = Some n0" "m_pPrev n0 = ?y" using p(1) by (auto simp: chain_append)
  then have h1a: "node_at ?h1 a = Some n0" using m(1) by (subst upd_other) auto
  obtain n where n: "node_at ?h2 a = Some n" "m_pPrev n = ?y"
    using h1a n0(2) by (cases "f = a") (auto simp: upd_same upd_other)
  have e4: "SetPrev (Some a) None ?h3 = Some (upd (Some a) (set_prev None) ?h3)"
    using m(4) by (simp add: put_node_simp)
  have e3: "(if ?y \<noteq> None then SetNext ?y None ?h2 else Some ?h2) = Some ?h3"
    using put_if_linked [of ?y ?h2] m(2) by (auto split: if_splits)
  have cnt: "count_on (nat (m_Count l)) (Some a) h = Some (int (length ys) + 1)"
    using count_on_chain [of h ?y "a # ys" "nat (m_Count l)"] p(1,8) by (simp add: chain_append)
  let ?l = "l\<lparr>m_pFirst := first_or xs None, m_pLast := ?y, m_Count := m_Count l - int (length (a # ys))\<rparr>"
  let ?k = "k\<lparr>m_pFirst := first_or ((a # ys) @ qs) None, m_pLast := last_or ((a # ys) @ qs) None,
     m_Count := m_Count k + int (length (a # ys))\<rparr>"
  have "MoveToHead (Some a) l k h = Some (?l, ?k, head_heap qs xs (a # ys) h)"
  proof -
    have lst: "(if m_pLast k = None then k\<lparr>m_pLast := Some f\<rparr> else k) = k\<lparr>m_pLast := last_or qs (last_or ys (Some a))\<rparr>"
      using q(7) f(1) by (cases qs rule: rev_cases) auto
    have swap: "(if ?y = None then l\<lparr>m_pFirst := None, m_pLast := None\<rparr> else l\<lparr>m_pLast := ?y\<rparr>)
        = l\<lparr>m_pFirst := first_or xs None, m_pLast := ?y\<rparr>"
      using p(6) by (cases xs) (auto simp: last_or_None)
    show ?thesis
      unfolding t MoveToHead_def Let_def pf qm
      by (simp add: cnt pf qm e1 e2 e3 e4 get_node_Some n swap lst last_first_commute algebra_simps cong: if_cong del: not_None_eq split del: if_split)
  qed
  then show ?thesis
    using head_heap_rep2 [OF r] head_heap_frame(3) [of qs xs "a # ys" "[]" h UNIV] by auto
qed

section \<open>The list a client sees\<close>

text \<open>A client finds a position and the contents by stepping on from the head position.\<close>

fun nth_position :: "nat \<Rightarrow> position \<Rightarrow> node_heap \<Rightarrow> position option" where
  "nth_position 0 p h = Some p"
| "nth_position (Suc i) p h = do { (x, q) \<leftarrow> GetNextI p h; nth_position i q h }"

fun traverse_list :: "nat \<Rightarrow> position \<Rightarrow> node_heap \<Rightarrow> object list option" where
  "traverse_list fuel None h = Some []"
| "traverse_list 0 (Some a) h = None"
| "traverse_list (Suc fuel) (Some a) h = do {
     (x, q) \<leftarrow> GetNextI (Some a) h; rest \<leftarrow> traverse_list fuel q h; Some (the x # rest) }"

definition list_contents :: "base_list \<Rightarrow> node_heap \<Rightarrow> object list option" where
  "list_contents l h = traverse_list (nat (m_Count l)) (m_pFirst l) h"

lemma nth_position_chain:
  "chain h p ps None \<Longrightarrow> nth_position i (first_or ps None) h = Some (if i < length ps then Some (ps ! i) else None)"
proof (induction ps arbitrary: p i)
  case Nil
  have "nth_position i None h = Some None" by (induction i) (auto simp: GetNextI_def)
  then show ?case by simp
next
  case (Cons a as)
  then show ?case by (cases i) (auto simp: GetNextI_def get_node_def)
qed

lemma traverse_chain:
  "chain h p ps None \<Longrightarrow> length ps \<le> fuel \<Longrightarrow> traverse_list fuel (first_or ps None) h = Some (objects h ps)"
proof (induction ps arbitrary: p fuel)
  case (Cons a as)
  then show ?case by (cases fuel) (auto simp: GetNextI_def get_node_def)
qed simp

lemma contents_rep: "rep l h ps cs \<Longrightarrow> list_contents l h = Some (objects h ps)"
  using traverse_chain [of h None ps "length ps"] by (simp add: list_contents_def rep_def)

datatype list_op = AddHead "node option" object | AddTail "node option" object
  | AddAfter "node option" nat object | AddBefore "node option" nat object
  | Remove nat | RemoveHead | RemoveTail | ReverseAll | RemoveEvery | Find object

datatype list_result = Added bool | Removed "object option" | Done | Found bool

definition add_result :: "(position \<times> base_list \<times> node_heap) option \<Rightarrow> (list_result \<times> base_list \<times> node_heap) option" where
  "add_result = map_option (\<lambda>(p, s). (Added (p \<noteq> None), s))"

definition remove_result ::
  "(object option \<times> base_list \<times> node_heap) option \<Rightarrow> (list_result \<times> base_list \<times> node_heap) option" where
  "remove_result = map_option (\<lambda>(x, s). (Removed x, s))"

fun list_step :: "list_op \<Rightarrow> base_list \<times> node_heap \<Rightarrow> (list_result \<times> base_list \<times> node_heap) option" where
  "list_step (AddHead fresh x) (l, h) = add_result (AddHeadI fresh x l h)"
| "list_step (AddTail fresh x) (l, h) = add_result (AddTailI fresh x l h)"
| "list_step (AddAfter fresh i x) (l, h) = do {
     p \<leftarrow> nth_position i (m_pFirst l) h; add_result (AddAfterI fresh p x l h) }"
| "list_step (AddBefore fresh i x) (l, h) = do {
     p \<leftarrow> nth_position i (m_pFirst l) h; add_result (AddBeforeI fresh p x l h) }"
| "list_step (Remove i) (l, h) = do { p \<leftarrow> nth_position i (m_pFirst l) h; remove_result (RemoveI p l h) }"
| "list_step RemoveHead (l, h) = remove_result (RemoveHeadI l h)"
| "list_step RemoveTail (l, h) = remove_result (RemoveTailI l h)"
| "list_step ReverseAll (l, h) = map_option (Pair Done) (Reverse l h)"
| "list_step RemoveEvery (l, h) = map_option (Pair Done) (RemoveAll l h)"
| "list_step (Find x) (l, h) = map_option (\<lambda>p. (Found (p \<noteq> None), l, h)) (FindI x l h)"

text \<open>
  The specification on HOL lists: the contents after an operation that returned a result,
  undefined if the operation must not return that result. An insertion may be refused only when
  there is no memory.
\<close>

definition spec_add :: "node option \<Rightarrow> bool \<Rightarrow> object list \<Rightarrow> object list \<Rightarrow> object list option" where
  "spec_add fresh ok xs ys = (if ok then Some ys else if fresh = None then Some xs else None)"

definition spec_remove :: "nat \<Rightarrow> object option \<Rightarrow> object list \<Rightarrow> object list option" where
  "spec_remove i r xs = (if r = (if i < length xs then Some (xs ! i) else None)
     then Some (take i xs @ drop (Suc i) xs) else None)"

fun list_spec :: "list_op \<Rightarrow> list_result \<Rightarrow> object list \<Rightarrow> object list option" where
  "list_spec (AddHead fresh x) (Added ok) xs = spec_add fresh ok xs (x # xs)"
| "list_spec (AddTail fresh x) (Added ok) xs = spec_add fresh ok xs (xs @ [x])"
| "list_spec (AddAfter fresh i x) (Added ok) xs =
     spec_add fresh ok xs (if i < length xs then take (Suc i) xs @ x # drop (Suc i) xs else x # xs)"
| "list_spec (AddBefore fresh i x) (Added ok) xs = spec_add fresh ok xs (take i xs @ x # drop i xs)"
| "list_spec (Remove i) (Removed r) xs = spec_remove i r xs"
| "list_spec RemoveHead (Removed r) xs = spec_remove 0 r xs"
| "list_spec RemoveTail (Removed r) xs = spec_remove (length xs - 1) r xs"
| "list_spec ReverseAll Done xs = Some (rev xs)"
| "list_spec RemoveEvery Done xs = Some []"
| "list_spec (Find x) (Found b) xs = (if b = (x \<in> set xs) then Some xs else None)"
| "list_spec _ _ xs = None"

definition holds_objects :: "object list \<Rightarrow> base_list \<times> node_heap \<Rightarrow> bool" where
  "holds_objects xs s \<longleftrightarrow> (\<exists>ps cs. rep (fst s) (snd s) ps cs \<and> objects (snd s) ps = xs)"

lemma rep_objects:
  assumes "rep l h ps cs" "same_objects h h' A" "set qs \<subseteq> set ps" "set qs \<subseteq> A"
  shows "objects h' qs = objects h qs"
  using assms same_objects_objects [OF same_objects_mono [OF assms(2,4)]] chain_live [OF rep_parts(1) [OF assms(1)]]
  by blast

lemma added_holds:
  assumes r: "rep l h (xs @ ys) cs" and ad: "added h xs ys cs x p l' h'" and p: "p = None \<longrightarrow> fresh = None"
  shows "\<exists>zs. spec_add fresh (p \<noteq> None) (objects h (xs @ ys)) (objects h xs @ x # objects h ys) = Some zs \<and> holds_objects zs (l', h')"
proof -
  have s: "same_objects h h' (set xs \<union> set ys)" using ad by (simp add: added_def)
  have "objects h' xs = objects h xs" "objects h' ys = objects h ys" using rep_objects [OF r s] by auto
  then show ?thesis using ad p by (cases p) (auto simp: added_def holds_objects_def spec_add_def intro!: exI)
qed

lemma add_holds:
  assumes "rep l h (xs @ ys) cs"
    and "\<exists>p l' h'. f = Some (p, l', h') \<and> added h xs ys cs x p l' h' \<and> (p = None \<longrightarrow> fresh = None)"
  shows "\<exists>ok s' zs. add_result f = Some (Added ok, s')
     \<and> spec_add fresh ok (objects h (xs @ ys)) (objects h xs @ x # objects h ys) = Some zs \<and> holds_objects zs s'"
  using assms added_holds [OF assms(1)] by (fastforce simp: add_result_def)

lemma remove_holds:
  assumes r: "rep l h (xs @ a # ys) cs"
  shows "\<exists>s'. remove_result (RemoveI (Some a) l h) = Some (Removed (Some (m_pObject (the (node_at h a)))), s')
     \<and> holds_objects (objects h xs @ objects h ys) s'"
proof -
  obtain l' h' cs' where 1: "RemoveI (Some a) l h = Some (map_option m_pObject (node_at h a), l', h')"
    "rep l' h' (xs @ ys) cs'" "same_objects h h' (set xs \<union> set ys)"
    using Remove_spec [OF r] by blast
  have "objects h' xs = objects h xs" "objects h' ys = objects h ys" using rep_objects [OF r 1(3)] by auto
  moreover have "node_at h a \<noteq> None" using chain_live [OF rep_parts(1) [OF r]] by simp
  moreover have "holds_objects (objects h' (xs @ ys)) (l', h')" using 1(2) unfolding holds_objects_def by auto
  ultimately show ?thesis using 1(1) by (auto simp: remove_result_def)
qed

lemma rep_nth:
  assumes "rep l h ps cs"
  shows "nth_position i (m_pFirst l) h = Some (if i < length ps then Some (ps ! i) else None)"
  using nth_position_chain [OF rep_parts(1) [OF assms]] rep_parts(6) [OF assms] by simp

lemma rep_at:
  assumes "rep l h ps cs" "i < length ps"
  shows "rep l h (take i ps @ ps ! i # drop (Suc i) ps) cs"
    "rep l h ((take i ps @ [ps ! i]) @ drop (Suc i) ps) cs"
  using assms by (simp_all add: id_take_nth_drop [symmetric])

lemma objects_lists: "length (objects h ps) = length ps" "i < length ps \<Longrightarrow> objects h ps ! i = m_pObject (the (node_at h (ps ! i)))"
  "objects h (take i ps) = take i (objects h ps)" "objects h (drop i ps) = drop i (objects h ps)"
  "objects h (rev ps) = rev (objects h ps)"
  by (simp_all add: objects_def take_map drop_map rev_map)

lemma remove_at_holds:
  assumes r: "rep l h ps cs" and i: "p = (if i < length ps then Some (ps ! i) else None)"
  shows "\<exists>x s' zs. remove_result (RemoveI p l h) = Some (Removed x, s') \<and> spec_remove i x (objects h ps) = Some zs \<and> holds_objects zs s'"
proof (cases "i < length ps")
  case True
  then show ?thesis
    using remove_holds [OF rep_at(1) [OF r True]] i by (auto simp: spec_remove_def objects_lists)
next
  case False
  then show ?thesis using r i by (auto simp: RemoveI_def remove_result_def spec_remove_def objects_lists holds_objects_def)
qed

lemma ends_nth: "first_or ps None = (if 0 < length ps then Some (ps ! 0) else None)"
  "last_or ps None = (if length ps - 1 < length ps then Some (ps ! (length ps - 1)) else None)"
  by (cases ps; simp) (cases ps rule: rev_cases; simp add: last_or_def)

lemma list_step_holds:
  assumes "holds_objects xs s"
  shows "\<exists>r s' ys. list_step op s = Some (r, s') \<and> list_spec op r xs = Some ys \<and> holds_objects ys s'"
proof -
  obtain l h ps cs where s: "s = (l, h)" and r: "rep l h ps cs" and xs: "xs = objects h ps"
    using assms by (cases s) (auto simp: holds_objects_def)
  have nil: "rep l h ([] @ ps) cs" "rep l h (ps @ []) cs" using r by simp_all
  show ?thesis
  proof (cases op)
    case (AddHead fresh x)
    then show ?thesis using add_holds [OF nil(1) AddHead_spec [OF r, of fresh x]] s xs by auto
  next
    case (AddTail fresh x)
    then show ?thesis using add_holds [OF nil(2) AddTail_spec [OF r, of fresh x]] s xs by auto
  next
    case (AddAfter fresh i x)
    show ?thesis
    proof (cases "i < length ps")
      case True
      have "objects h (take i ps @ [ps ! i]) = take (Suc i) xs"
        using True xs by (simp add: objects_lists take_Suc_conv_app_nth)
      then show ?thesis
        using add_holds [OF rep_at(2) [OF r True] AddAfter_spec [OF rep_at(1) [OF r True], of fresh x]] True
          AddAfter rep_nth [OF r, of i] s xs
        by (auto simp: objects_lists id_take_nth_drop [symmetric])
    next
      case False
      then show ?thesis
        using add_holds [OF nil(1) AddHead_spec [OF r, of fresh x]] AddAfter rep_nth [OF r, of i] s xs
        by (auto simp: AddAfterI_def objects_lists)
    qed
  next
    case (AddBefore fresh i x)
    show ?thesis
    proof (cases "i < length ps")
      case True
      have "rep l h (take i ps @ (ps ! i # drop (Suc i) ps)) cs" "ps ! i # drop (Suc i) ps = drop i ps"
        using rep_at(1) [OF r True] True by (simp_all add: Cons_nth_drop_Suc)
      then show ?thesis
        using add_holds [OF rep_at(1) [OF r True] AddBefore_spec [OF rep_at(1) [OF r True], of fresh x]] True
          AddBefore rep_nth [OF r, of i] s xs
        by (auto simp: objects_lists)
    next
      case False
      then show ?thesis
        using add_holds [OF nil(2) AddTail_spec [OF r, of fresh x]] AddBefore rep_nth [OF r, of i] s xs
        by (auto simp: AddBeforeI_def objects_lists)
    qed
  next
    case (Remove i)
    then show ?thesis using remove_at_holds [OF r refl, of i] rep_nth [OF r, of i] s xs by auto
  next
    case RemoveHead
    then show ?thesis
      using remove_at_holds [OF r ends_nth(1)] rep_parts(6) [OF r] s xs by (auto simp: RemoveHeadI_def)
  next
    case RemoveTail
    then show ?thesis
      using remove_at_holds [OF r ends_nth(2)] rep_parts(7) [OF r] s xs by (auto simp: RemoveTailI_def objects_lists)
  next
    case ReverseAll
    obtain l' h' where "Reverse l h = Some (l', h')" "rep l' h' (rev ps) cs" "same_objects h h' UNIV"
      using Reverse_spec [OF r] by blast
    then show ?thesis
      using ReverseAll s xs rep_objects [OF r, of h' UNIV ps] by (auto simp: holds_objects_def objects_lists intro!: exI)
  next
    case RemoveEvery
    then show ?thesis using RemoveAll_spec [OF r] s xs by (fastforce simp: holds_objects_def)
  next
    case (Find x)
    have "(find (\<lambda>a. m_pObject (the (node_at h a)) = x) ps \<noteq> None) = (x \<in> set xs)"
      using xs by (auto simp: find_None_iff objects_def simp del: not_None_eq)
    then show ?thesis using Find Find_spec [OF r, of x] s assms by auto
  qed
qed

interpretation base_list: implements list_step list_spec holds_objects
  by unfold_locales (rule list_step_holds)

section \<open>Properties\<close>

lemma new_list_rep: "unborn h \<Longrightarrow> rep (new_list n) h [] []"
  by (simp add: rep_def new_list_def)

definition no_nodes :: node_heap where
  "no_nodes = \<lparr>node_at = (\<lambda>_. None), next_node = 0\<rparr>"

lemma unborn_empty [simp]: "unborn no_nodes"
  by (simp add: unborn_def no_nodes_def)

text \<open>C17: the list class implements lists. From a new list with a node cache of any size,
  any sequence of insertions at the head, at the tail, after or before any position, removals at
  any position, searches, reversals and \<open>RemoveAll\<close>, with memory refused at any point, runs
  without touching a null or freed node; every result is the one the HOL list operation gives,
  insertions fail only when memory is refused, and the traversal from the head position ends and
  yields exactly the specified contents, as many as \<open>GetCount\<close> says.\<close>

theorem base_list_implements_lists:
  assumes "unborn h"
  shows "\<exists>rs l' h' ys. io_run list_step ops (new_list n, h) = Some (rs, l', h')
    \<and> spec_run list_spec ops rs [] = Some ys \<and> list_contents l' h' = Some ys \<and> m_Count l' = int (length ys)"
proof -
  have "holds_objects [] (new_list n, h)" using new_list_rep [OF assms] by (auto simp: holds_objects_def intro!: exI [of _ "[]"])
  from base_list.run_related [OF this, of ops] obtain rs l' h' ys where
    1: "io_run list_step ops (new_list n, h) = Some (rs, l', h')" "spec_run list_spec ops rs [] = Some ys" "holds_objects ys (l', h')"
    by force
  then obtain ps cs where 2: "rep l' h' ps cs" "objects h' ps = ys" by (auto simp: holds_objects_def)
  then have "list_contents l' h' = Some ys" "m_Count l' = int (length ys)"
    using contents_rep [OF 2(1)] rep_parts(8) [OF 2(1)] by (auto simp: objects_lists)
  then show ?thesis using 1 by blast
qed

theorem base_list_implements_lists_witness:
  "\<exists>rs l' h' ys.
     io_run list_step [AddTail (Some (node_of 9 None None)) 1, AddHead (Some (node_of 9 None None)) 2, AddAfter None 0 3, Remove 1] (new_list 10, no_nodes) = Some (rs, l', h')
     \<and> spec_run list_spec [AddTail (Some (node_of 9 None None)) 1, AddHead (Some (node_of 9 None None)) 2, AddAfter None 0 3, Remove 1] rs [] = Some ys
     \<and> list_contents l' h' = Some ys \<and> m_Count l' = int (length ys)"
  by (rule base_list_implements_lists [OF unborn_empty])

text \<open>\<open>MoveToTail\<close> and \<open>MoveToHead\<close> cut a list at a position. With two lists
  on one heap that share no node, moving to the tail takes the part of the first list up to and
  including the position and appends it, in order, to the other list, and moving to the head takes
  the part from the position on and puts it before the other list; no object is lost or
  duplicated, both counts are right, and both lists remain well formed and apart.\<close>

theorem moves_split_and_join:
  assumes "rep2 l k h (xs @ a # ys) cs qs ds"
  shows "\<exists>l1 k1 h1 l2 k2 h2. MoveToTail (Some a) l k h = Some (l1, k1, h1) \<and> rep2 l1 k1 h1 ys cs (qs @ xs @ [a]) ds
      \<and> list_contents l1 h1 = Some (objects h ys) \<and> list_contents k1 h1 = Some (objects h (qs @ xs @ [a]))
      \<and> MoveToHead (Some a) l k h = Some (l2, k2, h2) \<and> rep2 l2 k2 h2 xs cs (a # ys @ qs) ds
      \<and> list_contents l2 h2 = Some (objects h xs) \<and> list_contents k2 h2 = Some (objects h (a # ys @ qs))"
proof -
  have lk: "rep l h (xs @ a # ys) cs" "rep k h qs ds" using assms by (auto simp: rep2_def)
  have obs: "objects h' zs = objects h zs" if "same_objects h h' UNIV" "set zs \<subseteq> set (xs @ a # ys) \<union> set qs" for h' zs
    using that chain_live [OF rep_parts(1) [OF lk(1)]] chain_live [OF rep_parts(1) [OF lk(2)]]
    by (intro same_objects_objects same_objects_mono [OF that(1)]) auto
  obtain l1 k1 h1 where 1: "MoveToTail (Some a) l k h = Some (l1, k1, h1)" "rep2 l1 k1 h1 ys cs (qs @ xs @ [a]) ds"
    "same_objects h h1 UNIV"
    using MoveToTail_spec [OF assms] by blast
  obtain l2 k2 h2 where 2: "MoveToHead (Some a) l k h = Some (l2, k2, h2)" "rep2 l2 k2 h2 xs cs (a # ys @ qs) ds"
    "same_objects h h2 UNIV"
    using MoveToHead_spec [OF assms] by blast
  have "list_contents l1 h1 = Some (objects h ys)" "list_contents k1 h1 = Some (objects h (qs @ xs @ [a]))"
    using 1(2) by (subst obs [OF 1(3), symmetric], force, force intro: contents_rep simp: rep2_def simp del: objects_simps)+
  moreover have "list_contents l2 h2 = Some (objects h xs)" "list_contents k2 h2 = Some (objects h (a # ys @ qs))"
    using 2(2) by (subst obs [OF 2(3), symmetric], force, force intro: contents_rep simp: rep2_def simp del: objects_simps)+
  ultimately show ?thesis using 1 2 by blast
qed

definition example_heap :: node_heap where
  "example_heap = \<lparr>node_at = [0 \<mapsto> node_of 7 None (Some 1), 1 \<mapsto> node_of 8 (Some 0) None, 2 \<mapsto> node_of 9 None None], next_node = 3\<rparr>"

definition example_list :: base_list where
  "example_list = \<lparr>m_pFirst = Some 0, m_pLast = Some 1, m_Count = 2, m_iCacheSize = 10, m_iUsed = 0, m_pHead = None\<rparr>"

definition example_other :: base_list where
  "example_other = \<lparr>m_pFirst = Some 2, m_pLast = Some 2, m_Count = 1, m_iCacheSize = 10, m_iUsed = 0, m_pHead = None\<rparr>"

lemma example_rep2: "rep2 example_list example_other example_heap ([] @ 0 # [1]) [] [2] []"
  by (auto simp: rep2_def rep_def example_heap_def example_list_def example_other_def unborn_def)

theorem moves_split_and_join_witness:
  "\<exists>l1 k1 h1 l2 k2 h2. MoveToTail (Some 0) example_list example_other example_heap = Some (l1, k1, h1)
      \<and> rep2 l1 k1 h1 [1] [] [2, 0] []
      \<and> list_contents l1 h1 = Some [8] \<and> list_contents k1 h1 = Some [9, 7]
      \<and> MoveToHead (Some 0) example_list example_other example_heap = Some (l2, k2, h2) \<and> rep2 l2 k2 h2 [] [] [0, 1, 2] []
      \<and> list_contents l2 h2 = Some [] \<and> list_contents k2 h2 = Some [7, 8, 9]"
  using moves_split_and_join [OF example_rep2] by (simp add: example_heap_def)

end
