(* ===== verification/Actions.thy ===== *)
theory Actions
  imports Main "HOL-Library.State_Monad"
begin

text \<open>
  Methods that call out to other objects: an action works on the object's own state and on an
  environment it knows nothing about, which answers each call and may change with it. Weakest
  preconditions compute what an action needs, triples state what it does.
\<close>

record ('s, 'e) situation =
  own :: 's
  env :: 'e

type_synonym ('s, 'e, 'a) action = "(('s, 'e) situation, 'a) state"

text \<open>A call to the outside, a look at one's own state, and a change to it.\<close>

definition ask :: "('e \<Rightarrow> 'a \<times> 'e) \<Rightarrow> ('s, 'e, 'a) action" where
  "ask f = State (\<lambda>w. (fst (f (env w)), w\<lparr>env := snd (f (env w))\<rparr>))"

definition look :: "('s \<Rightarrow> 'a) \<Rightarrow> ('s, 'e, 'a) action" where
  "look f = State (\<lambda>w. (f (own w), w))"

definition change :: "('s \<Rightarrow> 's) \<Rightarrow> ('s, 'e, unit) action" where
  "change f = State (\<lambda>w. ((), w\<lparr>own := f (own w)\<rparr>))"

abbreviation result :: "'a \<Rightarrow> ('s, 'e, 'a) action" where
  "result \<equiv> State_Monad.return"

lemma run_ask [simp]: "run_state (ask f) w = (fst (f (env w)), w\<lparr>env := snd (f (env w))\<rparr>)"
  by (simp add: ask_def)

lemma run_look [simp]: "run_state (look f) w = (f (own w), w)"
  by (simp add: look_def)

lemma run_change [simp]: "run_state (change f) w = ((), w\<lparr>own := f (own w)\<rparr>)"
  by (simp add: change_def)

section \<open>Weakest preconditions and triples\<close>

definition wp :: "('s, 'e, 'a) action \<Rightarrow> ('a \<Rightarrow> 's \<Rightarrow> 'e \<Rightarrow> bool) \<Rightarrow> 's \<Rightarrow> 'e \<Rightarrow> bool" where
  "wp m Q s e = (case run_state m \<lparr>own = s, env = e\<rparr> of (x, w) \<Rightarrow> Q x (own w) (env w))"

lemma wp_result [simp]: "wp (result x) Q = Q x"
  by (simp add: wp_def fun_eq_iff)

lemma wp_ask [simp]: "wp (ask f) Q = (\<lambda>s e. Q (fst (f e)) s (snd (f e)))"
  by (simp add: wp_def fun_eq_iff)

lemma wp_look [simp]: "wp (look f) Q = (\<lambda>s e. Q (f s) s e)"
  by (simp add: wp_def fun_eq_iff)

lemma wp_change [simp]: "wp (change f) Q = (\<lambda>s e. Q () (f s) e)"
  by (simp add: wp_def fun_eq_iff)

lemma wp_bind [simp]: "wp (State_Monad.bind m f) Q = wp m (\<lambda>x. wp (f x) Q)"
proof (intro ext)
  fix s e
  obtain x w where m: "run_state m \<lparr>own = s, env = e\<rparr> = (x, w)" by (cases "run_state m \<lparr>own = s, env = e\<rparr>")
  show "wp (State_Monad.bind m f) Q s e = wp m (\<lambda>x. wp (f x) Q) s e"
    by (cases w) (simp add: wp_def m)
qed

lemma wp_if [simp]: "wp (if b then m else n) Q = (\<lambda>s e. if b then wp m Q s e else wp n Q s e)"
  by (simp add: fun_eq_iff)

lemma wp_option [simp]:
  "wp (case x of None \<Rightarrow> m | Some y \<Rightarrow> f y) Q = (\<lambda>s e. case x of None \<Rightarrow> wp m Q s e | Some y \<Rightarrow> wp (f y) Q s e)"
  by (cases x) simp_all

lemma wp_pair [simp]: "wp (case x of (y, z) \<Rightarrow> f y z) Q = (\<lambda>s e. case x of (y, z) \<Rightarrow> wp (f y z) Q s e)"
  by (cases x) simp

definition triple ::
  "('s \<Rightarrow> 'e \<Rightarrow> bool) \<Rightarrow> ('s, 'e, 'a) action \<Rightarrow> ('a \<Rightarrow> 's \<Rightarrow> 'e \<Rightarrow> bool) \<Rightarrow> bool" where
  "triple P m Q \<longleftrightarrow> (\<forall>s e. P s e \<longrightarrow> wp m Q s e)"

lemma tripleI: "(\<And>s e. P s e \<Longrightarrow> wp m Q s e) \<Longrightarrow> triple P m Q"
  by (simp add: triple_def)

lemma triple_wp:
  assumes "triple P m R" "P s e" "\<And>x s' e'. R x s' e' \<Longrightarrow> Q x s' e'"
  shows "wp m Q s e"
  using assms by (fastforce simp: triple_def wp_def split: prod.splits)

lemma tripleD:
  "triple P m Q \<Longrightarrow> P s e \<Longrightarrow> run_state m \<lparr>own = s, env = e\<rparr> = (x, w) \<Longrightarrow> Q x (own w) (env w)"
  by (fastforce simp: triple_def wp_def)

lemma wp_run: "wp m Q s e \<Longrightarrow> run_state m \<lparr>own = s, env = e\<rparr> = (x, w) \<Longrightarrow> Q x (own w) (env w)"
  by (simp add: wp_def)

text \<open>An action of one object is an answer of the surroundings of another.\<close>

lemma triple_run:
  assumes "triple P m Q" "P (own w) (env w)"
  shows "Q (fst (run_state m w)) (own (snd (run_state m w))) (env (snd (run_state m w)))"
proof -
  have "w = \<lparr>own = own w, env = env w\<rparr>" by (cases w) simp
  then show ?thesis
    using assms by (cases "run_state m w") (metis (mono_tags, lifting) triple_def wp_def case_prod_conv fst_conv snd_conv)
qed

end
