(* ===== verification/PinConnect.thy ===== *)
theory PinConnect
  imports Actions MediaType VideoFormat
begin

text \<open>
  How an output pin connects (CBasePin and CBaseOutputPin in baseclasses/amfilter.cpp), the base
  of both camera pins. The other pin, the allocators, the overridden virtual methods and the
  memory for a copy are the environment; every call to it may be answered in any way and may
  change it. The pin's own state keeps count of the references it takes.
\<close>

section \<open>Media types as values\<close>

text \<open>
  What a media type says, without the addresses: its fields and the bytes of its format block.
  Their memory is the subject of the theory MediaType.
\<close>

record mtype =
  t_head :: am_media_type
  t_block :: "u8 list"

definition type_value :: "heap \<Rightarrow> am_media_type \<Rightarrow> mtype option" where
  "type_value h mt = map_option (\<lambda>b. \<lparr>t_head = mt\<lparr>pbFormat := None\<rparr>, t_block = b\<rparr>)
     (if cbFormat mt = 0 then Some [] else bytes h (pbFormat mt) (unat (cbFormat mt)))"

definition partially_specified :: "mtype \<Rightarrow> bool" where
  "partially_specified t = IsPartiallySpecified (t_head t)"

definition matches_partial :: "mtype \<Rightarrow> mtype \<Rightarrow> bool" where
  "matches_partial t part \<longleftrightarrow>
     (majortype (t_head part) \<noteq> GUID_NULL \<longrightarrow> majortype (t_head t) = majortype (t_head part))
   \<and> (subtype (t_head part) \<noteq> GUID_NULL \<longrightarrow> subtype (t_head t) = subtype (t_head part))
   \<and> (formattype (t_head part) \<noteq> GUID_NULL \<longrightarrow> formattype (t_head t) = formattype (t_head part)
        \<and> cbFormat (t_head t) = cbFormat (t_head part) \<and> t_block t = t_block part)"

lemma type_valueD:
  assumes "type_value h mt = Some t"
  shows "majortype (t_head t) = majortype mt" "subtype (t_head t) = subtype mt" "formattype (t_head t) = formattype mt"
    "cbFormat (t_head t) = cbFormat mt" "cbFormat mt = 0 \<Longrightarrow> t_block t = []"
    "cbFormat mt \<noteq> 0 \<Longrightarrow> bytes h (pbFormat mt) (unat (cbFormat mt)) = Some (t_block t)"
  using assms by (auto simp: type_value_def split: if_splits)

text \<open>The comparison on values is the one that CMediaType makes in memory.\<close>

lemma matches_partial_value:
  assumes "type_value h mt = Some t" "type_value h part = Some q"
  shows "MatchesPartial h mt part = Some (matches_partial t q)"
  using type_valueD [OF assms(1)] type_valueD [OF assms(2)]
  by (cases "cbFormat mt = 0") (auto simp: MatchesPartial_def matches_partial_def)

section \<open>The pin\<close>

datatype direction = PINDIR_INPUT | PINDIR_OUTPUT

text \<open>References to the other pin, to its IMemInputPin and to an allocator.\<close>

datatype com_ref = R_Pin nat | R_MemInput nat | R_Alloc nat

record output_pin =
  m_Connected :: "nat option"
  m_pInputPin :: "nat option"
  m_pAllocator :: "nat option"
  m_type :: mtype
  m_stopped :: bool
  m_bCanReconnectWhenActive :: bool
  m_bTryMyTypesFirst :: bool
  m_bRunTimeError :: bool
  refs :: "com_ref \<Rightarrow> int"

definition no_type :: mtype where
  "no_type = \<lparr>t_head = InitMediaType, t_block = []\<rparr>"

definition new_output_pin :: output_pin where
  "new_output_pin = \<lparr>m_Connected = None, m_pInputPin = None, m_pAllocator = None, m_type = no_type, m_stopped = True,
     m_bCanReconnectWhenActive = False, m_bTryMyTypesFirst = False, m_bRunTimeError = False, refs = (\<lambda>_. 0)\<rparr>"

text \<open>
  The calls to the outside. An enumerator is what its \<open>Reset\<close> answers and the types its \<open>Next\<close>
  yields until it answers anything but \<open>S_OK\<close>.
\<close>

record 'e surroundings =
  ext_direction :: "nat \<Rightarrow> 'e \<Rightarrow> direction \<times> 'e"
  ext_meminput :: "nat \<Rightarrow> 'e \<Rightarrow> hresult \<times> 'e"
  ext_enum :: "nat \<Rightarrow> 'e \<Rightarrow> (hresult \<times> hresult \<times> mtype list) \<times> 'e"
  ext_accept :: "nat \<Rightarrow> mtype \<Rightarrow> 'e \<Rightarrow> hresult \<times> 'e"
  ext_receive :: "nat \<Rightarrow> mtype \<Rightarrow> 'e \<Rightarrow> hresult \<times> 'e"
  ext_disconnect :: "nat \<Rightarrow> 'e \<Rightarrow> hresult \<times> 'e"
  ext_requirements :: "nat \<Rightarrow> allocator_properties \<Rightarrow> 'e \<Rightarrow> allocator_properties \<times> 'e"
  ext_allocator :: "nat \<Rightarrow> 'e \<Rightarrow> (hresult \<times> nat option) \<times> 'e"
  ext_notify :: "nat \<Rightarrow> nat option \<Rightarrow> bool \<Rightarrow> 'e \<Rightarrow> hresult \<times> 'e"
  ext_new_allocator :: "'e \<Rightarrow> (hresult \<times> nat option) \<times> 'e"
  ext_commit :: "nat \<Rightarrow> 'e \<Rightarrow> hresult \<times> 'e"
  ext_decommit :: "nat \<Rightarrow> 'e \<Rightarrow> hresult \<times> 'e"
  own_check :: "mtype \<Rightarrow> 'e \<Rightarrow> hresult \<times> 'e"
  own_enum :: "'e \<Rightarrow> (hresult \<times> hresult \<times> mtype list) \<times> 'e"
  own_decide :: "mtype \<Rightarrow> nat option \<Rightarrow> allocator_properties \<Rightarrow> 'e \<Rightarrow> (hresult \<times> allocator_properties) \<times> 'e"
  own_memory :: "'e \<Rightarrow> bool \<times> 'e"

definition bump :: "com_ref \<Rightarrow> int \<Rightarrow> output_pin \<Rightarrow> output_pin" where
  "bump r d s = s\<lparr>refs := (refs s)(r := refs s r + d)\<rparr>"

definition hold_alloc :: "nat option \<Rightarrow> output_pin \<Rightarrow> output_pin" where
  "hold_alloc a s = (case a of None \<Rightarrow> s | Some n \<Rightarrow> bump (R_Alloc n) 1 s)\<lparr>m_pAllocator := a\<rparr>"

definition drop_alloc :: "output_pin \<Rightarrow> output_pin" where
  "drop_alloc s = (case m_pAllocator s of None \<Rightarrow> s | Some n \<Rightarrow> (bump (R_Alloc n) (- 1) s)\<lparr>m_pAllocator := None\<rparr>)"

definition drop_input :: "output_pin \<Rightarrow> output_pin" where
  "drop_input s = (case m_pInputPin s of None \<Rightarrow> s | Some n \<Rightarrow> (bump (R_MemInput n) (- 1) s)\<lparr>m_pInputPin := None\<rparr>)"

definition drop_connected :: "output_pin \<Rightarrow> output_pin" where
  "drop_connected s = (case m_Connected s of None \<Rightarrow> s | Some n \<Rightarrow> (bump (R_Pin n) (- 1) s)\<lparr>m_Connected := None\<rparr>)"

section \<open>Checking and breaking\<close>

definition Base_CheckConnect :: "'e surroundings \<Rightarrow> direction \<Rightarrow> nat \<Rightarrow> ('s, 'e, hresult) action" where
  "Base_CheckConnect E m_dir p = do {
     pd \<leftarrow> ask (ext_direction E p);
     result (if pd = m_dir then VFW_E_INVALID_DIRECTION else S_OK) }"

text \<open>A \<open>QueryInterface\<close> that fails stores NULL.\<close>

definition Out_CheckConnect :: "'e surroundings \<Rightarrow> nat \<Rightarrow> (output_pin, 'e, hresult) action" where
  "Out_CheckConnect E p = do {
     hr \<leftarrow> Base_CheckConnect E PINDIR_OUTPUT p;
     if failed hr then result hr
     else do {
       hr1 \<leftarrow> ask (ext_meminput E p);
       if failed hr1 then do { change (\<lambda>s. s\<lparr>m_pInputPin := None\<rparr>); result hr1 }
       else do { change (\<lambda>s. (bump (R_MemInput p) 1 s)\<lparr>m_pInputPin := Some p\<rparr>); result S_OK } } }"

definition Out_BreakConnect :: "'e surroundings \<Rightarrow> (output_pin, 'e, hresult) action" where
  "Out_BreakConnect E = do {
     a \<leftarrow> look m_pAllocator;
     hr \<leftarrow> (case a of
        None \<Rightarrow> result S_OK
      | Some n \<Rightarrow> do {
          hr \<leftarrow> ask (ext_decommit E n);
          if failed hr then result hr else do { change drop_alloc; result S_OK } });
     if failed hr then result hr else do { change drop_input; result S_OK } }"

section \<open>Deciding on an allocator\<close>

definition agree_on ::
  "'e surroundings \<Rightarrow> nat \<Rightarrow> allocator_properties \<Rightarrow> (output_pin, 'e, hresult \<times> allocator_properties) action" where
  "agree_on E p req = do {
     a \<leftarrow> look m_pAllocator; t \<leftarrow> look m_type;
     (hr, req1) \<leftarrow> ask (own_decide E t a req);
     if failed hr then result (hr, req1)
     else do { hr1 \<leftarrow> ask (ext_notify E p a False); result (hr1, req1) } }"

definition no_props :: allocator_properties where
  "no_props = \<lparr>cBuffers = 0, cbBuffer = 0, cbAlign = 0, cbPrefix = 0\<rparr>"

text \<open>The two halves of \<open>DecideAllocator\<close>, which differ in where the allocator comes from.\<close>

definition try_allocator ::
  "'e surroundings \<Rightarrow> nat \<Rightarrow> ('e \<Rightarrow> (hresult \<times> nat option) \<times> 'e) \<Rightarrow> allocator_properties
     \<Rightarrow> (output_pin, 'e, hresult \<times> allocator_properties) action" where
  "try_allocator E p get_it req = do {
     (hr, a) \<leftarrow> ask get_it;
     change (hold_alloc a);
     (hr1, req1) \<leftarrow> (if failed hr then result (hr, req) else agree_on E p req);
     if succeeded hr1 then result (S_OK, req1)
     else do { change drop_alloc; result (hr1, req1) } }"

definition DecideAllocator :: "'e surroundings \<Rightarrow> nat \<Rightarrow> (output_pin, 'e, hresult) action" where
  "DecideAllocator E p = do {
     change (\<lambda>s. s\<lparr>m_pAllocator := None\<rparr>);
     req \<leftarrow> ask (ext_requirements E p no_props);
     (hr, req1) \<leftarrow> try_allocator E p (ext_allocator E p) (if cbAlign req = 0 then req\<lparr>cbAlign := 1\<rparr> else req);
     if succeeded hr then result S_OK
     else do {
       (hr1, _) \<leftarrow> try_allocator E p (ext_new_allocator E) req1;
       result hr1 } }"

definition Out_CompleteConnect :: "'e surroundings \<Rightarrow> nat \<Rightarrow> (output_pin, 'e, hresult) action" where
  "Out_CompleteConnect E p = do {
     i \<leftarrow> look m_pInputPin;
     DecideAllocator E (the i) }"

section \<open>Connecting\<close>

text \<open>A copy that finds no memory leaves the fields without their block.\<close>

definition blockless :: "mtype \<Rightarrow> mtype" where
  "blockless t = \<lparr>t_head = (t_head t)\<lparr>cbFormat := 0\<rparr>, t_block = []\<rparr>"

definition Pin_SetMediaType :: "'e surroundings \<Rightarrow> mtype \<Rightarrow> (output_pin, 'e, hresult) action" where
  "Pin_SetMediaType E t = do {
     ok \<leftarrow> ask (own_memory E);
     if ok \<or> t_block t = [] then do { change (\<lambda>s. s\<lparr>m_type := t\<rparr>); result S_OK }
     else do {
       change (\<lambda>s. s\<lparr>m_type := blockless t\<rparr>); result E_OUTOFMEMORY } }"

definition type_error :: "hresult \<Rightarrow> hresult" where
  "type_error hr = (if succeeded hr \<or> hr = E_FAIL \<or> hr = E_INVALIDARG then VFW_E_TYPE_NOT_ACCEPTED else hr)"

text \<open>Once the type has been set: the other pin, then the allocator.\<close>

definition offer_type :: "'e surroundings \<Rightarrow> nat \<Rightarrow> mtype \<Rightarrow> (output_pin, 'e, hresult) action" where
  "offer_type E p t = do {
     _ \<leftarrow> ask (ext_accept E p t);
     hr \<leftarrow> ask (ext_receive E p t);
     if failed hr then result hr
     else do {
       hr1 \<leftarrow> Out_CompleteConnect E p;
       if succeeded hr1 then result hr1
       else do { _ \<leftarrow> ask (ext_disconnect E p); result hr1 } } }"

definition take_type :: "'e surroundings \<Rightarrow> nat \<Rightarrow> mtype \<Rightarrow> (output_pin, 'e, hresult) action" where
  "take_type E p t = do {
     chk \<leftarrow> ask (own_check E t);
     if chk = S_OK then do {
       change (\<lambda>s. (bump (R_Pin p) 1 s)\<lparr>m_Connected := Some p\<rparr>);
       hr \<leftarrow> Pin_SetMediaType E t;
       if succeeded hr then offer_type E p t else result hr }
     else result (type_error chk) }"

definition AttemptConnection :: "'e surroundings \<Rightarrow> nat \<Rightarrow> mtype \<Rightarrow> (output_pin, 'e, hresult) action" where
  "AttemptConnection E p t = do {
     hr \<leftarrow> Out_CheckConnect E p;
     if failed hr then do { _ \<leftarrow> Out_BreakConnect E; result hr }
     else do {
       hr1 \<leftarrow> take_type E p t;
       if succeeded hr1 then result hr1
       else do { _ \<leftarrow> Out_BreakConnect E; change drop_connected; result hr1 } } }"

text \<open>An error code that says more than that this type would not do.\<close>

definition specific :: "hresult \<Rightarrow> bool" where
  "specific hr \<longleftrightarrow> hr \<noteq> E_FAIL \<and> hr \<noteq> E_INVALIDARG \<and> hr \<noteq> VFW_E_TYPE_NOT_ACCEPTED"

primrec try_types ::
  "'e surroundings \<Rightarrow> nat \<Rightarrow> mtype option \<Rightarrow> hresult \<Rightarrow> mtype list \<Rightarrow> (output_pin, 'e, hresult) action" where
  "try_types E p pmt hrFailure [] = result (if hrFailure = S_OK then VFW_E_NO_ACCEPTABLE_TYPES else hrFailure)"
| "try_types E p pmt hrFailure (t # ts) =
     (if (case pmt of None \<Rightarrow> True | Some q \<Rightarrow> matches_partial t q) then do {
        hr \<leftarrow> AttemptConnection E p t;
        if hr = S_OK then result hr
        else try_types E p pmt (if failed hr \<and> succeeded hrFailure \<and> specific hr then hr else hrFailure) ts }
      else try_types E p pmt hrFailure ts)"

definition TryMediaTypes ::
  "'e surroundings \<Rightarrow> nat \<Rightarrow> mtype option \<Rightarrow> hresult \<times> mtype list \<Rightarrow> (output_pin, 'e, hresult) action" where
  "TryMediaTypes E p pmt enum = (if failed (fst enum) then result (fst enum) else try_types E p pmt S_OK (snd enum))"

text \<open>Both enumerators, whose they are being the only difference between the passes.\<close>

primrec try_enums ::
  "'e surroundings \<Rightarrow> nat \<Rightarrow> mtype option \<Rightarrow> hresult \<Rightarrow> bool list \<Rightarrow> (output_pin, 'e, hresult) action" where
  "try_enums E p pmt hrFailure [] = result hrFailure"
| "try_enums E p pmt hrFailure (theirs # passes) = do {
     (hr, enum) \<leftarrow> ask (if theirs then ext_enum E p else own_enum E);
     if failed hr then try_enums E p pmt hrFailure passes
     else do {
       hr1 \<leftarrow> TryMediaTypes E p pmt enum;
       if succeeded hr1 then result S_OK
       else try_enums E p pmt (if specific hr1 then hr1 else hrFailure) passes } }"

definition AgreeMediaType :: "'e surroundings \<Rightarrow> nat \<Rightarrow> mtype option \<Rightarrow> (output_pin, 'e, hresult) action" where
  "AgreeMediaType E p pmt =
    (if pmt \<noteq> None \<and> \<not> partially_specified (the pmt) then AttemptConnection E p (the pmt)
     else do {
       mine \<leftarrow> look m_bTryMyTypesFirst;
       try_enums E p pmt VFW_E_NO_ACCEPTABLE_TYPES [\<not> mine, mine] })"

definition Pin_Connect :: "'e surroundings \<Rightarrow> nat option \<Rightarrow> mtype option \<Rightarrow> (output_pin, 'e, hresult) action" where
  "Pin_Connect E pReceivePin pmt =
    (case pReceivePin of
       None \<Rightarrow> result E_POINTER
     | Some p \<Rightarrow> do {
         s \<leftarrow> look id;
         if m_Connected s \<noteq> None then result VFW_E_ALREADY_CONNECTED
         else if \<not> m_stopped s \<and> \<not> m_bCanReconnectWhenActive s then result VFW_E_NOT_STOPPED
         else do {
           hr \<leftarrow> AgreeMediaType E p pmt;
           if failed hr then do { _ \<leftarrow> Out_BreakConnect E; result hr } else result S_OK } })"

section \<open>Disconnecting\<close>

definition DisconnectInternal :: "'e surroundings \<Rightarrow> (output_pin, 'e, hresult) action" where
  "DisconnectInternal E = do {
     c \<leftarrow> look m_Connected;
     if c = None then result S_FALSE
     else do {
       hr \<leftarrow> Out_BreakConnect E;
       if failed hr then result hr else do { change drop_connected; result S_OK } } }"

definition Pin_Disconnect :: "'e surroundings \<Rightarrow> (output_pin, 'e, hresult) action" where
  "Pin_Disconnect E = do {
     stopped \<leftarrow> look m_stopped;
     if \<not> stopped then result VFW_E_NOT_STOPPED else DisconnectInternal E }"

section \<open>Streaming\<close>

text \<open>CBaseOutputPin's \<open>Active\<close> and \<open>Inactive\<close>.\<close>

definition Out_Active :: "'e surroundings \<Rightarrow> (output_pin, 'e, hresult) action" where
  "Out_Active E = do {
     a \<leftarrow> look m_pAllocator;
     case a of None \<Rightarrow> result VFW_E_NO_ALLOCATOR | Some n \<Rightarrow> ask (ext_commit E n) }"

definition Out_Inactive :: "'e surroundings \<Rightarrow> (output_pin, 'e, hresult) action" where
  "Out_Inactive E = do {
     change (\<lambda>s. s\<lparr>m_bRunTimeError := False\<rparr>);
     a \<leftarrow> look m_pAllocator;
     case a of None \<Rightarrow> result VFW_E_NO_ALLOCATOR | Some n \<Rightarrow> ask (ext_decommit E n) }"

definition Pin_QueryAccept :: "'e surroundings \<Rightarrow> mtype \<Rightarrow> (output_pin, 'e, hresult) action" where
  "Pin_QueryAccept E t = do {
     hr \<leftarrow> ask (own_check E t);
     result (if failed hr then S_FALSE else hr) }"

definition ConnectedTo :: "(output_pin, 'e, hresult \<times> nat option) action" where
  "ConnectedTo = do {
     c \<leftarrow> look m_Connected;
     result (if c = None then VFW_E_NOT_CONNECTED else S_OK, c) }"

text \<open>Whether the copy succeeded is not looked at.\<close>

definition ConnectionMediaType :: "'e surroundings \<Rightarrow> (output_pin, 'e, hresult \<times> mtype) action" where
  "ConnectionMediaType E = do {
     s \<leftarrow> look id;
     if m_Connected s = None then result (VFW_E_NOT_CONNECTED, no_type)
     else do {
       ok \<leftarrow> ask (own_memory E);
       result (S_OK, if ok then m_type s else blockless (m_type s)) } }"

section \<open>References\<close>

text \<open>The references taken are those to what the pin's pointers point to.\<close>

definition wired :: "output_pin \<Rightarrow> bool" where
  "wired s \<longleftrightarrow> refs s = (\<lambda>r. case r of
     R_Pin n \<Rightarrow> of_bool (m_Connected s = Some n)
   | R_MemInput n \<Rightarrow> of_bool (m_pInputPin s = Some n)
   | R_Alloc n \<Rightarrow> of_bool (m_pAllocator s = Some n))"

lemma wired_new: "wired new_output_pin"
  by (auto simp: wired_def new_output_pin_def split: com_ref.split)

lemma wired_changes:
  "wired s \<Longrightarrow> m_pAllocator s = None \<Longrightarrow> wired (hold_alloc a s)"
  "wired s \<Longrightarrow> wired (drop_alloc s)" "wired s \<Longrightarrow> wired (drop_input s)" "wired s \<Longrightarrow> wired (drop_connected s)"
  "wired s \<Longrightarrow> m_pInputPin s = None \<Longrightarrow> wired ((bump (R_MemInput p) 1 s)\<lparr>m_pInputPin := Some p\<rparr>)"
  "wired s \<Longrightarrow> m_Connected s = None \<Longrightarrow> wired ((bump (R_Pin p) 1 s)\<lparr>m_Connected := Some p\<rparr>)"
  "wired s \<Longrightarrow> wired (s\<lparr>m_type := t\<rparr>)" "wired s \<Longrightarrow> m_pInputPin s = None \<Longrightarrow> wired (s\<lparr>m_pInputPin := None\<rparr>)"
  "wired s \<Longrightarrow> m_pAllocator s = None \<Longrightarrow> wired (s\<lparr>m_pAllocator := None\<rparr>)"
  by (auto simp: wired_def bump_def hold_alloc_def drop_alloc_def drop_input_def drop_connected_def fun_eq_iff
      split: com_ref.splits option.splits)

lemma change_simps [simp]:
  "m_Connected (hold_alloc a s) = m_Connected s" "m_pInputPin (hold_alloc a s) = m_pInputPin s"
  "m_pAllocator (hold_alloc a s) = a" "m_type (hold_alloc a s) = m_type s" "m_stopped (hold_alloc a s) = m_stopped s"
  "m_Connected (drop_alloc s) = m_Connected s" "m_pInputPin (drop_alloc s) = m_pInputPin s"
  "m_pAllocator (drop_alloc s) = None" "m_type (drop_alloc s) = m_type s" "m_stopped (drop_alloc s) = m_stopped s"
  "m_Connected (drop_input s) = m_Connected s" "m_pInputPin (drop_input s) = None"
  "m_pAllocator (drop_input s) = m_pAllocator s" "m_type (drop_input s) = m_type s" "m_stopped (drop_input s) = m_stopped s"
  "m_Connected (drop_connected s) = None" "m_pInputPin (drop_connected s) = m_pInputPin s"
  "m_pAllocator (drop_connected s) = m_pAllocator s" "m_type (drop_connected s) = m_type s"
  "m_stopped (drop_connected s) = m_stopped s"
  "m_Connected (bump r d s) = m_Connected s" "m_pInputPin (bump r d s) = m_pInputPin s"
  "m_pAllocator (bump r d s) = m_pAllocator s" "m_type (bump r d s) = m_type s" "m_stopped (bump r d s) = m_stopped s"
  by (simp_all add: bump_def hold_alloc_def drop_alloc_def drop_input_def drop_connected_def split: option.splits)

section \<open>The protocol of a connection\<close>

text \<open>
  What the pin relies on. \<open>joined t e\<close>: in the surroundings \<open>e\<close> the other pin is connected to this
  one with the media type \<open>t\<close>, or not at all; \<open>sized n e\<close>: allocator \<open>n\<close> has agreed to a size the derived class can
  work with; \<open>uses n e\<close>: the other pin works with it too; \<open>takes\<close>: the types the derived class
  accepts. Only \<open>ReceiveConnection\<close> and \<open>Disconnect\<close> change the first,
  decommitting an allocator never fails, and a call that succeeds hands out an allocator.
\<close>

locale connecting =
  fixes E :: "'e surroundings" and p :: nat
    and joined :: "mtype option \<Rightarrow> 'e \<Rightarrow> bool" and sized uses :: "nat \<Rightarrow> 'e \<Rightarrow> bool" and takes :: "mtype \<Rightarrow> bool"
  assumes keeps:
      "joined t e \<Longrightarrow> joined t (snd (ext_direction E q e))" "joined t e \<Longrightarrow> joined t (snd (ext_meminput E q e))"
      "joined t e \<Longrightarrow> joined t (snd (ext_enum E q e))" "joined t e \<Longrightarrow> joined t (snd (ext_accept E q ty e))"
      "joined t e \<Longrightarrow> joined t (snd (ext_requirements E q r e))"
      "joined (Some u) e \<Longrightarrow> joined (Some u) (snd (ext_allocator E q e))"
      "joined (Some u) e \<Longrightarrow> joined (Some u) (snd (ext_notify E q a b e))" "joined t e \<Longrightarrow> joined t (snd (ext_new_allocator E e))"
      "joined t e \<Longrightarrow> joined t (snd (ext_decommit E n e))" "joined t e \<Longrightarrow> joined t (snd (own_check E ty e))"
      "joined t e \<Longrightarrow> joined t (snd (own_enum E e))" "joined t e \<Longrightarrow> joined t (snd (own_decide E ty a r e))"
      "joined t e \<Longrightarrow> joined t (snd (own_memory E e))"
    and decommits: "joined t e \<Longrightarrow> succeeded (fst (ext_decommit E n e))"
    and receives: "joined None e \<Longrightarrow>
      joined (if succeeded (fst (ext_receive E p ty e)) then Some ty else None) (snd (ext_receive E p ty e))"
    and disconnects: "joined (Some ty) e \<Longrightarrow> joined None (snd (ext_disconnect E p e))"
    and hands_out: "joined t e \<Longrightarrow> succeeded (fst (fst (ext_allocator E q e))) \<Longrightarrow> snd (fst (ext_allocator E q e)) \<noteq> None"
      "joined t e \<Longrightarrow> succeeded (fst (fst (ext_new_allocator E e))) \<Longrightarrow> snd (fst (ext_new_allocator E e)) \<noteq> None"
    and decides: "joined t e \<Longrightarrow> succeeded (fst (fst (own_decide E ty (Some n) r e))) \<Longrightarrow> sized n (snd (own_decide E ty (Some n) r e))"
    and notifies: "joined t e \<Longrightarrow> sized n e \<Longrightarrow> succeeded (fst (ext_notify E p (Some n) b e)) \<Longrightarrow> uses n (snd (ext_notify E p (Some n) b e))"
    and checks: "joined t e \<Longrightarrow> fst (own_check E ty e) = S_OK \<Longrightarrow> takes ty"
begin

definition stage ::
  "nat option \<Rightarrow> nat option \<Rightarrow> nat option \<Rightarrow> mtype option \<Rightarrow> output_pin \<Rightarrow> 'e \<Rightarrow> bool" where
  "stage c i a t s e \<longleftrightarrow> wired s \<and> m_Connected s = c \<and> m_pInputPin s = i \<and> m_pAllocator s = a \<and> joined t e"

lemma CheckConnect_triple:
  "triple (stage None None None None) (Out_CheckConnect E p)
     (\<lambda>hr. if succeeded hr then stage None (Some p) None None else stage None None None None)"
  by (rule tripleI) (auto simp: Out_CheckConnect_def Base_CheckConnect_def stage_def keeps intro: wired_changes)

lemma BreakConnect_triple:
  "triple (stage c i a t) (Out_BreakConnect E) (\<lambda>hr s e. hr = S_OK \<and> stage c None None t s e)"
  by (rule tripleI) (auto simp: Out_BreakConnect_def stage_def keeps decommits wired_changes split: option.split)

lemma decides_sized: "joined t e \<Longrightarrow> fst (own_decide E ty (Some n) r e) = (hr, r1) \<Longrightarrow> succeeded hr
    \<Longrightarrow> sized n (snd (own_decide E ty (Some n) r e))"
  using decides by simp

lemma agree_triple:
  "triple (\<lambda>s e. stage c i (Some n) (Some u) s e \<and> m_type s = ty) (agree_on E p req)
     (\<lambda>r s e. stage c i (Some n) (Some u) s e \<and> m_type s = ty \<and> (succeeded (fst r) \<longrightarrow> uses n e))"
  by (rule tripleI) (auto simp: agree_on_def stage_def keeps intro: notifies decides_sized keeps split: prod.split)

text \<open>A decision for an allocator holds one that the other pin uses; a refusal holds none.\<close>

definition decided :: "nat option \<Rightarrow> nat option \<Rightarrow> mtype \<Rightarrow> mtype \<Rightarrow> hresult \<Rightarrow> output_pin \<Rightarrow> 'e \<Rightarrow> bool" where
  "decided c i u ty hr s e \<longleftrightarrow> m_type s = ty \<and>
     (if succeeded hr then hr = S_OK \<and> (\<exists>n. stage c i (Some n) (Some u) s e \<and> uses n e) else stage c i None (Some u) s e)"

lemma try_allocator_triple:
  assumes g: "\<And>e. joined (Some u) e \<Longrightarrow> joined (Some u) (snd (get_it e))"
    "\<And>e. joined (Some u) e \<Longrightarrow> succeeded (fst (fst (get_it e))) \<Longrightarrow> snd (fst (get_it e)) \<noteq> None"
  shows "triple (\<lambda>s e. stage c i None (Some u) s e \<and> m_type s = ty) (try_allocator E p get_it req)
     (\<lambda>r. decided c i u ty (fst r))"
proof (rule tripleI)
  fix s :: output_pin and e
  assume "stage c i None (Some u) s e \<and> m_type s = ty"
  then have s: "wired s" "m_Connected s = c" "m_pInputPin s = i" "m_pAllocator s = None" "joined (Some u) e" "m_type s = ty"
    by (simp_all add: stage_def)
  obtain hr a e1 where q: "get_it e = ((hr, a), e1)" by (cases "get_it e") auto
  have e1: "joined (Some u) e1" and ok: "succeeded hr \<Longrightarrow> a \<noteq> None" using g [OF s(5)] q by simp_all
  let ?s = "hold_alloc a s"
  have w: "wired ?s" using wired_changes(1) [OF s(1,4)] .
  show "wp (try_allocator E p get_it req) (\<lambda>r. decided c i u ty (fst r)) s e"
  proof (cases "failed hr")
    case True
    then show ?thesis using s w e1 by (simp add: try_allocator_def q decided_def stage_def wired_changes)
  next
    case False
    then obtain n where n: "a = Some n" using ok by blast
    have "wp (agree_on E p req) (\<lambda>x. wp (case x of (hr1, req1) \<Rightarrow> if succeeded hr1 then result (S_OK, req1)
        else do { change drop_alloc; result (hr1, req1) }) (\<lambda>r. decided c i u ty (fst r))) ?s e1"
      using s w e1 by (intro triple_wp [OF agree_triple [of c i n u ty req]]) (auto simp: n stage_def decided_def wired_changes)
    then show ?thesis using False by (simp add: try_allocator_def q)
  qed
qed

lemma DecideAllocator_triple:
  "triple (\<lambda>s e. stage c i None (Some u) s e \<and> m_type s = ty) (DecideAllocator E p) (decided c i u ty)"
proof (rule tripleI)
  fix s :: output_pin and e
  assume s: "stage c i None (Some u) s e \<and> m_type s = ty"
  then have s': "stage c i None (Some u) (s\<lparr>m_pAllocator := None\<rparr>) (snd (ext_requirements E p no_props e))"
    by (simp add: stage_def keeps wired_changes)
  have t1: "triple (\<lambda>s e. stage c i None (Some u) s e \<and> m_type s = ty) (try_allocator E p (ext_allocator E p) req)
      (\<lambda>r. decided c i u ty (fst r))" for req
    by (rule try_allocator_triple) (use keeps(6) hands_out(1) in \<open>blast+\<close>)
  have t2: "triple (\<lambda>s e. stage c i None (Some u) s e \<and> m_type s = ty) (try_allocator E p (ext_new_allocator E) req)
      (\<lambda>r. decided c i u ty (fst r))" for req
    by (rule try_allocator_triple) (use keeps(8) hands_out(2) in \<open>blast+\<close>)
  have second: "wp (try_allocator E p (ext_new_allocator E) req1) (\<lambda>x s e. case x of (hr1, _) \<Rightarrow> decided c i u ty hr1 s e) s1 e1"
    if "decided c i u ty hr s1 e1" "failed hr" for req1 hr s1 e1
    using that by (intro triple_wp [OF t2]) (auto simp: decided_def)
  have "wp (try_allocator E p (ext_allocator E p) req) (\<lambda>x s e. case x of (hr, req1) \<Rightarrow>
      if succeeded hr then decided c i u ty S_OK s e
      else wp (try_allocator E p (ext_new_allocator E) req1) (\<lambda>x s e. case x of (hr1, _) \<Rightarrow> decided c i u ty hr1 s e) s e)
      (s\<lparr>m_pAllocator := None\<rparr>) (snd (ext_requirements E p no_props e))" for req
    using s s' second by (intro triple_wp [OF t1]) (auto simp: decided_def split: prod.split)
  then show "wp (DecideAllocator E p) (decided c i u ty) s e"
    by (simp add: DecideAllocator_def split del: if_split cong: if_cong)
qed

text \<open>After an attempt: everything is in place for the type tried, or nothing at all.\<close>

definition attempted :: "mtype \<Rightarrow> hresult \<Rightarrow> output_pin \<Rightarrow> 'e \<Rightarrow> bool" where
  "attempted t hr s e \<longleftrightarrow>
     (if succeeded hr then decided (Some p) (Some p) t t hr s e \<and> takes t else stage None None None None s e)"

lemma offer_triple:
  "triple (\<lambda>s e. stage (Some p) (Some p) None None s e \<and> m_type s = t) (offer_type E p t)
     (\<lambda>hr s e. if succeeded hr then decided (Some p) (Some p) t t hr s e else stage (Some p) (Some p) None None s e)"
proof (rule tripleI)
  fix s :: output_pin and e
  assume "stage (Some p) (Some p) None None s e \<and> m_type s = t"
  then have s: "wired s" "m_Connected s = Some p" "m_pInputPin s = Some p" "m_pAllocator s = None" "m_type s = t"
    and j: "joined None (snd (ext_accept E p t e))"
    by (simp_all add: stage_def keeps)
  let ?r = "ext_receive E p t (snd (ext_accept E p t e))"
  have r: "joined (if succeeded (fst ?r) then Some t else None) (snd ?r)" using receives [OF j] .
  show "wp (offer_type E p t) (\<lambda>hr s e. if succeeded hr then decided (Some p) (Some p) t t hr s e
      else stage (Some p) (Some p) None None s e) s e"
  proof (cases "failed (fst ?r)")
    case True
    then show ?thesis using r s by (simp add: offer_type_def stage_def)
  next
    case False
    have "wp (DecideAllocator E p) (\<lambda>hr s e. if succeeded hr
        then if succeeded hr then decided (Some p) (Some p) t t hr s e else stage (Some p) (Some p) None None s e
        else if succeeded hr then decided (Some p) (Some p) t t hr s (snd (ext_disconnect E p e))
          else stage (Some p) (Some p) None None s (snd (ext_disconnect E p e))) s (snd ?r)"
      using False r s by (intro triple_wp [OF DecideAllocator_triple [of "Some p" "Some p" t t]])
        (auto simp: stage_def decided_def disconnects)
    then show ?thesis using False s by (simp add: offer_type_def Out_CompleteConnect_def split del: if_split cong: if_cong)
  qed
qed

lemma take_type_triple:
  "triple (stage None (Some p) None None) (take_type E p t)
     (\<lambda>hr s e. if succeeded hr then attempted t hr s e else \<exists>c. stage c (Some p) None None s e)"
proof (rule tripleI)
  fix s :: output_pin and e
  let ?Q = "\<lambda>hr s e. if succeeded hr then attempted t hr s e else \<exists>c. stage c (Some p) None None s e"
  let ?e = "snd (own_check E t e)" and ?e1 = "snd (own_memory E (snd (own_check E t e)))"
  let ?s = "(bump (R_Pin p) 1 s)\<lparr>m_Connected := Some p\<rparr>"
  assume "stage None (Some p) None None s e"
  then have s: "wired ?s" "stage None (Some p) None None s ?e" "m_pInputPin s = Some p" "m_pAllocator s = None"
    and j: "joined None e" "joined None ?e1"
    by (simp_all add: stage_def keeps wired_changes)
  have ok: "wp (offer_type E p t) ?Q (?s\<lparr>m_type := t\<rparr>) ?e1" if "takes t"
    using s j that wired_changes(7) [OF s(1), of t]
    by (intro triple_wp [OF offer_triple [of t]]) (auto simp: attempted_def stage_def)
  have no: "stage (Some p) (Some p) None None (?s\<lparr>m_type := x\<rparr>) ?e1" for x
    using s j wired_changes(7) [OF s(1), of x] by (simp add: stage_def)
  show "wp (take_type E p t) ?Q s e"
  proof (cases "fst (own_check E t e) = S_OK")
    case True
    have "wp (take_type E p t) ?Q s e = (if fst (own_memory E ?e) \<or> t_block t = []
        then wp (offer_type E p t) ?Q (?s\<lparr>m_type := t\<rparr>) ?e1 else ?Q E_OUTOFMEMORY (?s\<lparr>m_type := blockless t\<rparr>) ?e1)"
      using True by (simp add: take_type_def Pin_SetMediaType_def split del: if_split cong: if_cong)
    then show ?thesis using ok [OF checks [OF j(1) True]] no by auto
  next
    case False
    then show ?thesis using s(2) by (auto simp: take_type_def type_error_def)
  qed
qed

lemma AttemptConnection_triple:
  "triple (stage None None None None) (AttemptConnection E p t) (attempted t)"
proof (rule tripleI)
  fix s :: output_pin and e
  assume start: "stage None None None None s e"
  have undo: "wp (Out_BreakConnect E) (\<lambda>_ s e. attempted t hr (drop_connected s) e) s e"
    if "stage c i None None s e" "failed hr" for c i s e hr
    using that by (intro triple_wp [OF BreakConnect_triple [of c i None None]])
      (auto simp: attempted_def stage_def wired_changes)
  have undo0: "wp (Out_BreakConnect E) (\<lambda>_. attempted t hr) s e"
    if "stage None None None None s e" "failed hr" for s e hr
    using that by (intro triple_wp [OF BreakConnect_triple [of None None None None]]) (auto simp: attempted_def)
  have rest: "wp (take_type E p t) (\<lambda>hr s e. if succeeded hr then attempted t hr s e
      else wp (Out_BreakConnect E) (\<lambda>_ s e. attempted t hr (drop_connected s) e) s e) s e"
    if "stage None (Some p) None None s e" for s e
    using that undo by (intro triple_wp [OF take_type_triple]) (auto split: if_splits)
  have "wp (Out_CheckConnect E p) (\<lambda>hr s e. if failed hr then wp (Out_BreakConnect E) (\<lambda>_. attempted t hr) s e
      else wp (take_type E p t) (\<lambda>hr s e. if succeeded hr then attempted t hr s e
        else wp (Out_BreakConnect E) (\<lambda>_ s e. attempted t hr (drop_connected s) e) s e) s e) s e"
    using start undo0 rest
    by (intro triple_wp [OF CheckConnect_triple]) (auto split: if_split_asm split del: if_split)
  then show "wp (AttemptConnection E p t) (attempted t) s e"
    by (simp add: AttemptConnection_def split del: if_split cong: if_cong)
qed

definition fits :: "mtype \<Rightarrow> mtype option \<Rightarrow> bool" where
  "fits t pmt \<longleftrightarrow> (case pmt of None \<Rightarrow> True | Some q \<Rightarrow> t = q \<or> matches_partial t q)"

definition connected :: "mtype option \<Rightarrow> hresult \<Rightarrow> output_pin \<Rightarrow> 'e \<Rightarrow> bool" where
  "connected pmt hr s e \<longleftrightarrow>
     (if succeeded hr then hr = S_OK \<and> (\<exists>t n. stage (Some p) (Some p) (Some n) (Some t) s e \<and> m_type s = t \<and> uses n e
        \<and> takes t \<and> fits t pmt)
      else stage None None None None s e)"

lemma attempted_connected: "attempted t hr s e \<Longrightarrow> fits t pmt \<Longrightarrow> connected pmt hr s e"
  by (auto simp: attempted_def decided_def connected_def split: if_splits)

lemma try_types_triple:
  assumes "f = S_OK \<or> failed f"
  shows "triple (stage None None None None) (try_types E p pmt f ts) (connected pmt)"
  using assms
proof (induction ts arbitrary: f)
  case Nil
  then show ?case by (intro tripleI) (auto simp: connected_def)
next
  case (Cons t ts)
  show ?case
  proof (rule tripleI)
    fix s :: output_pin and e
    assume s: "stage None None None None s e"
    let ?ok = "case pmt of None \<Rightarrow> True | Some q \<Rightarrow> matches_partial t q"
    let ?f = "\<lambda>hr. if failed hr \<and> succeeded f \<and> specific hr then hr else f"
    have more: "wp (try_types E p pmt g ts) (connected pmt) s e"
      if "stage None None None None s e" "g = S_OK \<or> failed g" for g s e
      using that by (intro triple_wp [OF Cons.IH]) auto
    have "wp (AttemptConnection E p t) (\<lambda>hr s e. if hr = S_OK then connected pmt hr s e
        else wp (try_types E p pmt (?f hr) ts) (connected pmt) s e) s e" if "?ok"
    proof (rule triple_wp [OF AttemptConnection_triple s])
      fix hr s1 e1
      assume a: "attempted t hr s1 e1"
      have "fits t pmt" using that by (simp add: fits_def split: option.splits)
      note c = attempted_connected [OF a this]
      show "if hr = S_OK then connected pmt hr s1 e1 else wp (try_types E p pmt (?f hr) ts) (connected pmt) s1 e1"
      proof (cases "hr = S_OK")
        case False
        then have "failed hr" "stage None None None None s1 e1" using c by (auto simp: connected_def split: if_splits)
        then show ?thesis using more [of s1 e1 "?f hr"] Cons.prems False by auto
      qed (use c in simp)
    qed
    then show "wp (try_types E p pmt f (t # ts)) (connected pmt) s e"
      using more [OF s Cons.prems] by (simp split del: if_split cong: if_cong)
  qed
qed

lemma TryMediaTypes_triple:
  "triple (stage None None None None) (TryMediaTypes E p pmt enum) (connected pmt)"
proof (cases "failed (fst enum)")
  case True
  then show ?thesis by (intro tripleI) (simp add: TryMediaTypes_def connected_def)
next
  case False
  then show ?thesis using try_types_triple [of S_OK] by (simp add: TryMediaTypes_def)
qed

lemma try_enums_triple:
  assumes "failed f"
  shows "triple (stage None None None None) (try_enums E p pmt f passes) (connected pmt)"
  using assms
proof (induction passes arbitrary: f)
  case Nil
  then show ?case by (intro tripleI) (simp add: connected_def)
next
  case (Cons theirs passes)
  show ?case
  proof (rule tripleI)
    fix s :: output_pin and e
    assume s: "stage None None None None s e"
    let ?ask = "if theirs then ext_enum E p else own_enum E"
    obtain hr enum e1 where q: "?ask e = ((hr, enum), e1)" by (cases "?ask e") auto
    have s1: "stage None None None None s e1"
      using s keeps(3) [of None e p] keeps(11) [of None e] q by (cases theirs) (auto simp: stage_def)
    have more: "wp (try_enums E p pmt g passes) (connected pmt) s e"
      if "stage None None None None s e" "failed g" for g s e
      using that by (intro triple_wp [OF Cons.IH]) auto
    have "wp (TryMediaTypes E p pmt enum) (\<lambda>hr1 s e. if succeeded hr1 then connected pmt S_OK s e
        else wp (try_enums E p pmt (if specific hr1 then hr1 else f) passes) (connected pmt) s e) s e1"
    proof (rule triple_wp [OF TryMediaTypes_triple s1])
      fix hr1 s2 e2
      assume c: "connected pmt hr1 s2 e2"
      show "if succeeded hr1 then connected pmt S_OK s2 e2
        else wp (try_enums E p pmt (if specific hr1 then hr1 else f) passes) (connected pmt) s2 e2"
      proof (cases "succeeded hr1")
        case True
        then show ?thesis using c by (auto simp: connected_def)
      next
        case False
        then have "stage None None None None s2 e2" using c by (simp add: connected_def)
        then show ?thesis using more [of s2 e2 "if specific hr1 then hr1 else f"] False Cons.prems by auto
      qed
    qed
    then show "wp (try_enums E p pmt f (theirs # passes)) (connected pmt) s e"
      using more [OF s1 Cons.prems] by (simp add: q split del: if_split cong: if_cong)
  qed
qed

lemma AgreeMediaType_triple: "triple (stage None None None None) (AgreeMediaType E p pmt) (connected pmt)"
proof (cases "pmt \<noteq> None \<and> \<not> partially_specified (the pmt)")
  case True
  then obtain q where q: "pmt = Some q" "\<not> partially_specified q" by auto
  have "wp (AttemptConnection E p q) (connected pmt) s e" if "stage None None None None s e" for s e
    using that by (intro triple_wp [OF AttemptConnection_triple])
      (auto intro: attempted_connected simp: fits_def q(1))
  then show ?thesis using q by (intro tripleI) (simp add: AgreeMediaType_def)
next
  case False
  have "wp (try_enums E p pmt VFW_E_NO_ACCEPTABLE_TYPES passes) (connected pmt) s e"
    if "stage None None None None s e" for passes s e
    using that by (intro triple_wp [OF try_enums_triple]) auto
  then show ?thesis using False by (intro tripleI) (auto simp: AgreeMediaType_def simp del: try_enums.simps)
qed

lemma Connect_triple:
  "triple (\<lambda>s e. stage None None None None s e \<and> (m_stopped s \<or> m_bCanReconnectWhenActive s))
     (Pin_Connect E (Some p) pmt) (connected pmt)"
proof (rule tripleI)
  fix s :: output_pin and e
  assume s: "stage None None None None s e \<and> (m_stopped s \<or> m_bCanReconnectWhenActive s)"
  have "wp (AgreeMediaType E p pmt) (\<lambda>hr s e. if failed hr then wp (Out_BreakConnect E) (\<lambda>_. connected pmt hr) s e
      else connected pmt S_OK s e) s e"
  proof (rule triple_wp [OF AgreeMediaType_triple [of pmt]])
    show "stage None None None None s e" using s by blast
  next
    fix hr s1 e1
    assume c: "connected pmt hr s1 e1"
    show "if failed hr then wp (Out_BreakConnect E) (\<lambda>_. connected pmt hr) s1 e1 else connected pmt S_OK s1 e1"
    proof (cases "failed hr")
      case True
      then have "stage None None None None s1 e1" using c by (simp add: connected_def)
      then show ?thesis
        using True by (auto simp: connected_def intro!: triple_wp [OF BreakConnect_triple [of None None None None]])
    next
      case False
      then show ?thesis using c by (auto simp: connected_def)
    qed
  qed
  then show "wp (Pin_Connect E (Some p) pmt) (connected pmt) s e"
    using s by (simp add: Pin_Connect_def stage_def split del: if_split cong: if_cong) auto
qed

lemma Disconnect_triple:
  "triple (\<lambda>s e. stage (Some q) i a t s e \<and> m_stopped s) (Pin_Disconnect E)
     (\<lambda>hr s e. hr = S_OK \<and> stage None None None t s e)"
proof (rule tripleI)
  fix s :: output_pin and e
  assume s: "stage (Some q) i a t s e \<and> m_stopped s"
  have "wp (Out_BreakConnect E) (\<lambda>hr s e. if failed hr then hr = S_OK \<and> stage None None None t s e
      else stage None None None t (drop_connected s) e) s e"
    using s by (intro triple_wp [OF BreakConnect_triple [of "Some q" i a t]]) (auto simp: stage_def wired_changes)
  then show "wp (Pin_Disconnect E) (\<lambda>hr s e. hr = S_OK \<and> stage None None None t s e) s e"
    using s by (simp add: Pin_Disconnect_def DisconnectInternal_def stage_def split del: if_split cong: if_cong)
qed

end

end
