(* ===== verification/Enumerators.thy ===== *)
theory Enumerators
  imports PinConnect SourceFilter VirtualPin
begin

text \<open>
  The two enumerators of the DirectShow base classes (CEnumPins and CEnumMediaTypes in
  baseclasses/amfilter.cpp and amfilter.h), over which a client reads the pins of a filter and the
  media types of a pin. Both notice by a version number when what they list has changed; the first
  also remembers which pins it has handed out.
\<close>

section \<open>Pins\<close>

text \<open>
  What an enumerator sees of its filter during one call: the answers of \<open>GetPinVersion\<close>,
  \<open>GetPinCount\<close> and \<open>GetPin\<close>, which may be a null pointer.
\<close>

record filter_view =
  fv_version :: int
  fv_count :: int
  fv_pin :: "int \<Rightarrow> pin option"

record enum_pins =
  ep_Position :: int
  ep_PinCount :: int
  ep_Version :: int
  ep_cRef :: int
  ep_PinCache :: "pin list"

definition new_enum_pins :: "filter_view \<Rightarrow> enum_pins option \<Rightarrow> enum_pins" where
  "new_enum_pins f pEnumPins =
    (case pEnumPins of
       None \<Rightarrow> \<lparr>ep_Position = 0, ep_PinCount = fv_count f, ep_Version = fv_version f, ep_cRef = 1, ep_PinCache = []\<rparr>
     | Some e \<Rightarrow> \<lparr>ep_Position = ep_Position e, ep_PinCount = ep_PinCount e, ep_Version = ep_Version e, ep_cRef = 1,
         ep_PinCache = ep_PinCache e\<rparr>)"

definition EnumPins :: "bool \<Rightarrow> bool \<Rightarrow> filter_view \<Rightarrow> hresult \<times> enum_pins option" where
  "EnumPins ppEnum memory f =
    (if \<not> ppEnum then (E_POINTER, None)
     else if memory then (S_OK, Some (new_enum_pins f None)) else (E_OUTOFMEMORY, None))"

text \<open>The count, and whether the enumerator is gone and has released its filter.\<close>

definition EnumPins_AddRef :: "enum_pins \<Rightarrow> int \<times> enum_pins" where
  "EnumPins_AddRef e = (ep_cRef e + 1, e\<lparr>ep_cRef := ep_cRef e + 1\<rparr>)"

definition EnumPins_Release :: "enum_pins \<Rightarrow> int \<times> bool \<times> enum_pins" where
  "EnumPins_Release e = (ep_cRef e - 1, ep_cRef e - 1 = 0, e\<lparr>ep_cRef := ep_cRef e - 1\<rparr>)"

definition pins_out_of_sync :: "filter_view \<Rightarrow> enum_pins \<Rightarrow> bool" where
  "pins_out_of_sync f e \<longleftrightarrow> fv_version f \<noteq> ep_Version e"

definition EnumPins_Refresh :: "filter_view \<Rightarrow> enum_pins \<Rightarrow> enum_pins" where
  "EnumPins_Refresh f e = e\<lparr>ep_Version := fv_version f, ep_PinCount := fv_count f, ep_Position := 0\<rparr>"

definition EnumPins_Reset :: "filter_view \<Rightarrow> enum_pins \<Rightarrow> hresult \<times> enum_pins" where
  "EnumPins_Reset f e =
    (S_OK, e\<lparr>ep_Version := fv_version f, ep_PinCount := fv_count f, ep_Position := 0, ep_PinCache := []\<rparr>)"

definition EnumPins_Clone :: "bool \<Rightarrow> bool \<Rightarrow> filter_view \<Rightarrow> enum_pins \<Rightarrow> hresult \<times> enum_pins option" where
  "EnumPins_Clone ppEnum memory f e =
    (if \<not> ppEnum then (E_POINTER, None)
     else if pins_out_of_sync f e then (VFW_E_ENUM_OUT_OF_SYNC, None)
     else if memory then (S_OK, Some (new_enum_pins f (Some e))) else (E_OUTOFMEMORY, None))"

text \<open>
  The loop of \<open>Next\<close>: whether it ended without an error, and the pins written to the array, each with
  a reference of its own. \<open>node p\<close> is whether the list finds memory for the node that remembers \<open>p\<close>;
  the code does not look.
\<close>

function next_pins ::
  "(pin \<Rightarrow> bool) \<Rightarrow> filter_view \<Rightarrow> nat \<Rightarrow> enum_pins \<Rightarrow> bool \<times> pin list \<times> enum_pins" where
  "next_pins node f n e =
    (if n = 0 \<or> ep_PinCount e \<le> ep_Position e then (True, [], e)
     else let e1 = e\<lparr>ep_Position := ep_Position e + 1\<rparr> in
       case fv_pin f (ep_Position e) of
         None \<Rightarrow> (False, [], e1)
       | Some p \<Rightarrow>
          if p \<in> set (ep_PinCache e1) then next_pins node f n e1
          else case next_pins node f (n - 1)
                 (if node p then e1\<lparr>ep_PinCache := ep_PinCache e1 @ [p]\<rparr> else e1) of
            (ok, ps, e2) \<Rightarrow> (ok, p # ps, e2))"
  by pat_completeness auto
termination
  by (relation "measure (\<lambda>(_, _, _, e). nat (ep_PinCount e - ep_Position e))") auto

declare next_pins.simps [simp del]

text \<open>
  The result code, the array, \<open>*pcFetched\<close> when the pointer is not null, and the enumerator.
\<close>

definition EnumPins_Next ::
  "(pin \<Rightarrow> bool) \<Rightarrow> filter_view \<Rightarrow> u32 \<Rightarrow> bool \<Rightarrow> bool \<Rightarrow> enum_pins
     \<Rightarrow> hresult \<times> pin list \<times> u32 option \<times> enum_pins" where
  "EnumPins_Next node f cPins ppPins pcFetched e =
    (if \<not> ppPins then (E_POINTER, [], None, e)
     else if \<not> pcFetched \<and> cPins > 1 then (E_INVALIDARG, [], None, e)
     else
       let e1 = (if pins_out_of_sync f e then EnumPins_Refresh f e else e);
           (ok, ps, e2) = next_pins node f (unat cPins) e1;
           cFetched = of_nat (length ps)
       in if \<not> ok then (VFW_E_ENUM_OUT_OF_SYNC, ps, if pcFetched then Some 0 else None, e2)
          else (if cPins = cFetched then S_OK else S_FALSE, ps, if pcFetched then Some cFetched else None, e2))"

text \<open>\<open>PinsLeft\<close> and the sum are computed in 32 bits.\<close>

definition EnumPins_Skip :: "filter_view \<Rightarrow> u32 \<Rightarrow> enum_pins \<Rightarrow> hresult \<times> enum_pins" where
  "EnumPins_Skip f cPins e =
    (if pins_out_of_sync f e then (VFW_E_ENUM_OUT_OF_SYNC, e)
     else if cPins > word_of_int (ep_PinCount e - ep_Position e) then (S_FALSE, e)
     else (S_OK, e\<lparr>ep_Position := sint (word_of_int (ep_Position e) + cPins :: u32)\<rparr>))"

section \<open>Media types\<close>

text \<open>\<open>tv_type\<close> is \<open>GetMediaType\<close>, by position.\<close>

record type_view =
  tv_version :: int
  tv_type :: "int \<Rightarrow> hresult \<times> mtype"

record enum_types =
  em_Position :: int
  em_Version :: int
  em_cRef :: int

definition new_enum_types :: "type_view \<Rightarrow> enum_types option \<Rightarrow> enum_types" where
  "new_enum_types v pEnum =
    (case pEnum of
       None \<Rightarrow> \<lparr>em_Position = 0, em_Version = tv_version v, em_cRef = 1\<rparr>
     | Some e \<Rightarrow> \<lparr>em_Position = em_Position e, em_Version = em_Version e, em_cRef = 1\<rparr>)"

definition EnumMediaTypes :: "bool \<Rightarrow> bool \<Rightarrow> type_view \<Rightarrow> hresult \<times> enum_types option" where
  "EnumMediaTypes ppEnum memory v =
    (if \<not> ppEnum then (E_POINTER, None)
     else if memory then (S_OK, Some (new_enum_types v None)) else (E_OUTOFMEMORY, None))"

definition EnumTypes_AddRef :: "enum_types \<Rightarrow> int \<times> enum_types" where
  "EnumTypes_AddRef e = (em_cRef e + 1, e\<lparr>em_cRef := em_cRef e + 1\<rparr>)"

definition EnumTypes_Release :: "enum_types \<Rightarrow> int \<times> bool \<times> enum_types" where
  "EnumTypes_Release e = (em_cRef e - 1, em_cRef e - 1 = 0, e\<lparr>em_cRef := em_cRef e - 1\<rparr>)"

definition types_out_of_sync :: "type_view \<Rightarrow> enum_types \<Rightarrow> bool" where
  "types_out_of_sync v e \<longleftrightarrow> tv_version v \<noteq> em_Version e"

definition EnumTypes_Clone :: "bool \<Rightarrow> bool \<Rightarrow> type_view \<Rightarrow> enum_types \<Rightarrow> hresult \<times> enum_types option" where
  "EnumTypes_Clone ppEnum memory v e =
    (if \<not> ppEnum then (E_POINTER, None)
     else if types_out_of_sync v e then (VFW_E_ENUM_OUT_OF_SYNC, None)
     else if memory then (S_OK, Some (new_enum_types v (Some e))) else (E_OUTOFMEMORY, None))"

text \<open>
  The loop: \<open>block i\<close> is whether there is memory for the struct of the type at position \<open>i\<close>. The
  position has moved on by then.
\<close>

primrec next_types :: "(int \<Rightarrow> bool) \<Rightarrow> type_view \<Rightarrow> nat \<Rightarrow> enum_types \<Rightarrow> mtype list \<times> enum_types" where
  "next_types block v 0 e = ([], e)"
| "next_types block v (Suc n) e =
    (let i = em_Position e; e1 = e\<lparr>em_Position := i + 1\<rparr>; (hr, t) = tv_type v i
     in if hr \<noteq> S_OK \<or> \<not> block i then ([], e1)
        else case next_types block v n e1 of (ts, e2) \<Rightarrow> (t # ts, e2))"

definition EnumTypes_Next ::
  "(int \<Rightarrow> bool) \<Rightarrow> type_view \<Rightarrow> u32 \<Rightarrow> bool \<Rightarrow> bool \<Rightarrow> enum_types
     \<Rightarrow> hresult \<times> mtype list \<times> u32 option \<times> enum_types" where
  "EnumTypes_Next block v cMediaTypes ppMediaTypes pcFetched e =
    (if \<not> ppMediaTypes then (E_POINTER, [], None, e)
     else if types_out_of_sync v e then (VFW_E_ENUM_OUT_OF_SYNC, [], None, e)
     else if \<not> pcFetched \<and> cMediaTypes > 1 then (E_INVALIDARG, [], None, e)
     else
       let (ts, e1) = next_types block v (unat cMediaTypes) e; cFetched = of_nat (length ts)
       in (if cMediaTypes = cFetched then S_OK else S_FALSE, ts, if pcFetched then Some cFetched else None, e1))"

definition EnumTypes_Skip :: "type_view \<Rightarrow> u32 \<Rightarrow> enum_types \<Rightarrow> hresult \<times> enum_types" where
  "EnumTypes_Skip v cMediaTypes e =
    (if cMediaTypes = 0 then (S_OK, e)
     else if types_out_of_sync v e then (VFW_E_ENUM_OUT_OF_SYNC, e)
     else
       let e1 = e\<lparr>em_Position := sint (word_of_int (em_Position e) + cMediaTypes :: u32)\<rparr>
       in (if fst (tv_type v (em_Position e1 - 1)) = S_OK then S_OK else S_FALSE, e1))"

definition EnumTypes_Reset :: "type_view \<Rightarrow> enum_types \<Rightarrow> hresult \<times> enum_types" where
  "EnumTypes_Reset v e = (S_OK, e\<lparr>em_Position := 0, em_Version := tv_version v\<rparr>)"


section \<open>Reading pins\<close>

lemma next_pins_cases:
  "n = 0 \<or> ep_PinCount e \<le> ep_Position e \<Longrightarrow> next_pins node f n e = (True, [], e)"
  "n \<noteq> 0 \<Longrightarrow> ep_Position e < ep_PinCount e \<Longrightarrow> fv_pin f (ep_Position e) = None \<Longrightarrow>
     next_pins node f n e = (False, [], e\<lparr>ep_Position := ep_Position e + 1\<rparr>)"
  "n \<noteq> 0 \<Longrightarrow> ep_Position e < ep_PinCount e \<Longrightarrow> fv_pin f (ep_Position e) = Some p \<Longrightarrow> p \<in> set (ep_PinCache e) \<Longrightarrow>
     next_pins node f n e = next_pins node f n (e\<lparr>ep_Position := ep_Position e + 1\<rparr>)"
  "n \<noteq> 0 \<Longrightarrow> ep_Position e < ep_PinCount e \<Longrightarrow> fv_pin f (ep_Position e) = Some p \<Longrightarrow> p \<notin> set (ep_PinCache e) \<Longrightarrow> node p \<Longrightarrow>
     next_pins node f n e = (case next_pins node f (n - 1)
         (e\<lparr>ep_Position := ep_Position e + 1, ep_PinCache := ep_PinCache e @ [p]\<rparr>) of (ok, ps, e2) \<Rightarrow> (ok, p # ps, e2))"
  by (subst next_pins.simps, simp)+

text \<open>Induction over the loop when the list finds its memory.\<close>

lemma next_pins_induct [case_names stop null known new]:
  assumes "\<And>n e. n = 0 \<or> ep_PinCount e \<le> ep_Position e \<Longrightarrow> P n e (True, [], e)"
    and "\<And>n e. n \<noteq> 0 \<Longrightarrow> ep_Position e < ep_PinCount e \<Longrightarrow> fv_pin f (ep_Position e) = None \<Longrightarrow>
      P n e (False, [], e\<lparr>ep_Position := ep_Position e + 1\<rparr>)"
    and "\<And>n e p r. n \<noteq> 0 \<Longrightarrow> ep_Position e < ep_PinCount e \<Longrightarrow> fv_pin f (ep_Position e) = Some p \<Longrightarrow> p \<in> set (ep_PinCache e) \<Longrightarrow>
      P n (e\<lparr>ep_Position := ep_Position e + 1\<rparr>) r \<Longrightarrow> P n e r"
    and "\<And>n e p ok ps e2. n \<noteq> 0 \<Longrightarrow> ep_Position e < ep_PinCount e \<Longrightarrow> fv_pin f (ep_Position e) = Some p \<Longrightarrow>
      p \<notin> set (ep_PinCache e) \<Longrightarrow>
      P (n - 1) (e\<lparr>ep_Position := ep_Position e + 1, ep_PinCache := ep_PinCache e @ [p]\<rparr>) (ok, ps, e2) \<Longrightarrow> P n e (ok, p # ps, e2)"
  shows "P n e (next_pins (\<lambda>_. True) f n e)"
proof (induction "nat (ep_PinCount e - ep_Position e)" arbitrary: n e rule: less_induct)
  case less
  let ?e = "e\<lparr>ep_Position := ep_Position e + 1\<rparr>"
  show ?case
  proof (cases "n = 0 \<or> ep_PinCount e \<le> ep_Position e")
    case False
    then have go: "n \<noteq> 0" "ep_Position e < ep_PinCount e" by auto
    show ?thesis
    proof (cases "fv_pin f (ep_Position e)")
      case None
      then show ?thesis using assms(2) go by (simp add: next_pins_cases(2))
    next
      case (Some p)
      show ?thesis
      proof (cases "p \<in> set (ep_PinCache e)")
        case True
        then show ?thesis using assms(3) [OF go Some True less [of ?e n]] go Some by (simp add: next_pins_cases(3))
      next
        case new: False
        let ?e1 = "e\<lparr>ep_Position := ep_Position e + 1, ep_PinCache := ep_PinCache e @ [p]\<rparr>"
        obtain ok ps e2 where r: "next_pins (\<lambda>_. True) f (n - 1) ?e1 = (ok, ps, e2)" by (metis prod_cases3)
        then show ?thesis using assms(4) [OF go Some new, of ok ps e2] less [of ?e1 "n - 1"] go Some new
          by (simp add: next_pins_cases(4))
      qed
    qed
  qed (use assms(1) next_pins_cases(1) in simp)
qed

lemma next_pins_frame:
  "case next_pins (\<lambda>_. True) f n e of (ok, ps, e') \<Rightarrow>
     ep_PinCache e' = ep_PinCache e @ ps \<and> ep_PinCount e' = ep_PinCount e \<and> ep_Version e' = ep_Version e
     \<and> (distinct (ep_PinCache e) \<longrightarrow> distinct (ep_PinCache e @ ps)) \<and> length ps \<le> n \<and> (\<forall>p \<in> set ps. \<exists>i. fv_pin f i = Some p)"
  by (induction rule: next_pins_induct) auto

lemma from_first: "Q a \<Longrightarrow> (\<forall>i. a + 1 \<le> i \<and> i < b \<longrightarrow> Q i) \<Longrightarrow> (\<forall>i. a \<le> i \<and> i < b \<longrightarrow> Q i)" for a :: int
  by (metis order_le_less zless_imp_add1_zle)

lemma next_pins_covers:
  assumes "\<And>i. 0 \<le> i \<Longrightarrow> i < ep_PinCount e \<Longrightarrow> fv_pin f i \<noteq> None" "0 \<le> ep_Position e" "ep_Position e \<le> ep_PinCount e"
  shows "case next_pins (\<lambda>_. True) f n e of (ok, ps, e') \<Rightarrow>
     ok \<and> ep_Position e \<le> ep_Position e' \<and> ep_Position e' \<le> ep_PinCount e
     \<and> (\<forall>i. ep_Position e \<le> i \<and> i < ep_Position e' \<longrightarrow> the (fv_pin f i) \<in> set (ep_PinCache e @ ps))
     \<and> (length ps < n \<longrightarrow> ep_Position e' = ep_PinCount e)"
  using assms
proof (induction rule: next_pins_induct)
  case (known n e p r)
  obtain ok ps e2 where r: "r = (ok, ps, e2)" by (cases r)
  show ?case using known r from_first [of "\<lambda>i. the (fv_pin f i) \<in> set (ep_PinCache e @ ps)" "ep_Position e" "ep_Position e2"] by simp
next
  case (new n e p ok ps e2)
  then show ?case
    using from_first [of "\<lambda>i. the (fv_pin f i) \<in> set (ep_PinCache e @ p # ps)" "ep_Position e" "ep_Position e2"] by auto
qed auto

text \<open>A filter with the pins \<open>pv v\<close> at version \<open>v\<close>.\<close>

definition view_of :: "(int \<Rightarrow> pin list) \<Rightarrow> int \<Rightarrow> filter_view" where
  "view_of pv v = \<lparr>fv_version = v, fv_count = int (length (pv v)),
     fv_pin = (\<lambda>i. if 0 \<le> i \<and> i < int (length (pv v)) then Some (pv v ! nat i) else None)\<rparr>"

lemma view_pin: "0 \<le> i \<Longrightarrow> i < int (length (pv v)) \<Longrightarrow> fv_pin (view_of pv v) i = Some (pv v ! nat i)"
  by (simp add: view_of_def)

text \<open>The pins in \<open>out\<close> were handed out since the last reset.\<close>

definition reading :: "(int \<Rightarrow> pin list) \<Rightarrow> pin list \<Rightarrow> enum_pins \<Rightarrow> bool" where
  "reading pv out e \<longleftrightarrow> ep_PinCache e = out \<and> distinct out \<and> ep_PinCount e = int (length (pv (ep_Version e)))
     \<and> 0 \<le> ep_Position e \<and> ep_Position e \<le> ep_PinCount e
     \<and> (\<forall>i. 0 \<le> i \<and> i < ep_Position e \<longrightarrow> pv (ep_Version e) ! nat i \<in> set out)"

lemma reading_new: "reading pv [] (new_enum_pins (view_of pv v) None)"
  by (simp add: reading_def new_enum_pins_def view_of_def)

lemma reading_refresh: "reading pv out e \<Longrightarrow> reading pv out (EnumPins_Refresh (view_of pv v) e)"
  by (auto simp: reading_def EnumPins_Refresh_def view_of_def)

lemma reading_reset: "reading pv [] (snd (EnumPins_Reset (view_of pv v) e))"
  by (auto simp: reading_def EnumPins_Reset_def view_of_def)

lemma next_pins_reading:
  assumes "reading pv out e" "ep_Version e = v" "next_pins (\<lambda>_. True) (view_of pv v) n e = (ok, ps, e')"
  shows "ok \<and> reading pv (out @ ps) e' \<and> ep_Version e' = v \<and> length ps \<le> n \<and> set ps \<subseteq> set (pv v)
    \<and> (length ps < n \<longrightarrow> set (pv v) \<subseteq> set (out @ ps))"
proof -
  have e: "ep_PinCache e = out" "distinct out" "ep_PinCount e = int (length (pv v))" "0 \<le> ep_Position e"
    "ep_Position e \<le> ep_PinCount e" and old: "\<And>i. 0 \<le> i \<Longrightarrow> i < ep_Position e \<Longrightarrow> pv v ! nat i \<in> set out"
    using assms(1,2) by (auto simp: reading_def)
  have fr: "ep_PinCache e' = out @ ps" "ep_PinCount e' = int (length (pv v))" "ep_Version e' = v" "distinct (out @ ps)"
    "length ps \<le> n" "\<forall>p \<in> set ps. \<exists>i. fv_pin (view_of pv v) i = Some p"
    using next_pins_frame [where f = "view_of pv v" and n = n and e = e] assms(2,3) e by simp_all
  have cv: "ok" "ep_Position e \<le> ep_Position e'" "ep_Position e' \<le> int (length (pv v))" "length ps < n \<longrightarrow> ep_Position e' = int (length (pv v))"
    "\<forall>i. ep_Position e \<le> i \<and> i < ep_Position e' \<longrightarrow> the (fv_pin (view_of pv v) i) \<in> set (out @ ps)"
    using next_pins_covers [where f = "view_of pv v" and n = n and e = e, OF _ e(4,5)] unfolding assms(3) prod.case e(1,3)
    by (simp_all add: view_pin)
  have seen: "pv v ! nat i \<in> set (out @ ps)" if i: "0 \<le> i" "i < ep_Position e'" for i
  proof (cases "i < ep_Position e")
    case False
    then have "the (fv_pin (view_of pv v) i) \<in> set (out @ ps)" using cv(5) i by simp
    then show ?thesis using i cv(3) by (simp add: view_pin)
  qed (use old i in simp)
  have "set (pv v) \<subseteq> set (out @ ps)" if "length ps < n"
  proof
    fix p
    assume "p \<in> set (pv v)"
    then obtain k where "k < length (pv v)" "pv v ! k = p" by (auto simp: in_set_conv_nth)
    then show "p \<in> set (out @ ps)" using seen [of "int k"] cv(4) that by simp
  qed
  moreover have "set ps \<subseteq> set (pv v)"
    using fr(6) by (force simp: view_of_def split: if_splits)
  ultimately show ?thesis using fr cv e seen by (simp add: reading_def)
qed


lemma Next_reading:
  assumes "reading pv out e" "EnumPins_Next (\<lambda>_. True) (view_of pv v) n True True e = (hr, ps, fetched, e')"
  shows "reading pv (out @ ps) e' \<and> set ps \<subseteq> set (pv v) \<and> fetched = Some (of_nat (length ps)) \<and> length ps \<le> unat n
    \<and> hr = (if length ps = unat n then S_OK else S_FALSE) \<and> (hr = S_FALSE \<longrightarrow> set (pv v) \<subseteq> set (out @ ps))"
proof -
  let ?e = "if pins_out_of_sync (view_of pv v) e then EnumPins_Refresh (view_of pv v) e else e"
  obtain ok qs e2 where q: "next_pins (\<lambda>_. True) (view_of pv v) (unat n) ?e = (ok, qs, e2)" by (metis prod_cases3)
  have "reading pv out ?e" using assms(1) reading_refresh by simp
  moreover have "ep_Version ?e = v" by (simp add: pins_out_of_sync_def EnumPins_Refresh_def view_of_def)
  ultimately have step: "ok \<and> reading pv (out @ qs) e2 \<and> ep_Version e2 = v \<and> length qs \<le> unat n \<and> set qs \<subseteq> set (pv v)
      \<and> (length qs < unat n \<longrightarrow> set (pv v) \<subseteq> set (out @ qs))"
    using next_pins_reading q by blast
  moreover have "unat n < 2 ^ LENGTH(32)" by (rule unsigned_less)
  ultimately have "length qs < 2 ^ 32" by simp
  then have "unat (of_nat (length qs) :: u32) = length qs" by (simp add: unsigned_of_nat take_bit_nat_eq_self)
  then have "n = of_nat (length qs) \<longleftrightarrow> length qs = unat n" by (metis word_unat_eq_iff)
  then show ?thesis using assms(2) q step by (auto simp: EnumPins_Next_def)
qed

section \<open>Sequences of calls\<close>

text \<open>Calls of a client, each with the version of the filter's pins at the time.\<close>

datatype pin_call = C_Next u32 | C_Reset

primrec pins_run :: "(int \<Rightarrow> pin list) \<Rightarrow> (int \<times> pin_call) list \<Rightarrow> enum_pins \<times> pin list \<Rightarrow> enum_pins \<times> pin list" where
  "pins_run pv [] w = w"
| "pins_run pv (c # cs) w = pins_run pv cs
     (case snd c of
        C_Next n \<Rightarrow> (case EnumPins_Next (\<lambda>_. True) (view_of pv (fst c)) n True True (fst w) of (_, ps, _, e) \<Rightarrow> (e, snd w @ ps))
      | C_Reset \<Rightarrow> (snd (EnumPins_Reset (view_of pv (fst c)) (fst w)), []))"

lemma pins_run_reading: "reading pv (snd w) (fst w) \<Longrightarrow> reading pv (snd (pins_run pv cs w)) (fst (pins_run pv cs w))"
proof (induction cs arbitrary: w)
  case (Cons c cs)
  show ?case
  proof (cases "snd c")
    case (C_Next n)
    obtain hr ps ft e where q: "EnumPins_Next (\<lambda>_. True) (view_of pv (fst c)) n True True (fst w) = (hr, ps, ft, e)"
      by (metis prod_cases4)
    show ?thesis using Cons.IH [of "(e, snd w @ ps)"] Next_reading [OF Cons.prems q] C_Next q by simp
  next
    case C_Reset
    then show ?thesis using Cons.IH reading_reset by simp
  qed
qed simp

text \<open>Reading the pins of a filter gives each of them exactly once, however the reading is divided
  over calls and however often the filter's pins change in between, as long as their version
  changes with them: since the last reset no pin is handed out twice, every pin handed out is one
  the filter had at the time, and when a call says that it is the end every pin that the filter has
  then has been handed out.\<close>

theorem every_pin_exactly_once:
  assumes "pins_run pv calls (new_enum_pins (view_of pv v0) None, []) = (e, out)"
    and "EnumPins_Next (\<lambda>_. True) (view_of pv v) n True True e = (hr, ps, fetched, e')"
  shows "distinct (out @ ps) \<and> set ps \<subseteq> set (pv v) \<and> fetched = Some (of_nat (length ps))
    \<and> hr = (if length ps = unat n then S_OK else S_FALSE) \<and> (hr = S_FALSE \<longrightarrow> set (pv v) \<subseteq> set (out @ ps))"
proof -
  have "reading pv out e"
    using pins_run_reading [of pv "(new_enum_pins (view_of pv v0) None, [])" calls] reading_new assms(1) by simp
  note facts = Next_reading [OF this assms(2)]
  then have "distinct (out @ ps)" by (simp add: reading_def)
  then show ?thesis using facts by blast
qed

theorem every_pin_exactly_once_witness:
  "let pv = (\<lambda>v. if v = 0 then [10, 11] else [12, 11, 10]); w = pins_run pv [(0, C_Next 1)] (new_enum_pins (view_of pv 0) None, [])
   in snd w = [10] \<and> (case EnumPins_Next (\<lambda>_. True) (view_of pv 1) 5 True True (fst w) of (hr, ps, _, _) \<Rightarrow>
        hr = S_FALSE \<and> distinct (10 # ps) \<and> set ps \<subseteq> {12, 11, 10} \<and> {12, 11, 10} \<subseteq> set (10 # ps))"
proof -
  let ?pv = "\<lambda>v :: int. if v = 0 then [10, 11] else [12, 11, 10 :: nat]"
  let ?w = "pins_run ?pv [(0, C_Next 1)] (new_enum_pins (view_of ?pv 0) None, [])"
  have w: "snd ?w = [10]" by code_simp
  obtain hr ps ft e' where q: "EnumPins_Next (\<lambda>_. True) (view_of ?pv 1) 5 True True (fst ?w) = (hr, ps, ft, e')"
    by (metis prod_cases4)
  have "fst (EnumPins_Next (\<lambda>_. True) (view_of ?pv 1) 5 True True (fst ?w)) = S_FALSE" by code_simp
  then have hr: "hr = S_FALSE" using q by simp
  have "?w = (fst ?w, [10])" using w by (metis prod.collapse)
  from every_pin_exactly_once [OF this q] show ?thesis unfolding Let_def w q hr prod.case by simp
qed


section \<open>Reading to the end\<close>

text \<open>
  What \<open>TryMediaTypes\<close> and the filter graph do with an enumerator: ask for one item at a time until the
  answer is anything but \<open>S_OK\<close>. The fuel bounds the number of calls; without fuel the result is
  undefined.
\<close>

primrec read_all :: "('s \<Rightarrow> hresult \<times> 'a list \<times> 's) \<Rightarrow> nat \<Rightarrow> 's \<Rightarrow> 'a list option" where
  "read_all next1 0 s = None"
| "read_all next1 (Suc fuel) s = (case next1 s of (hr, xs, s1) \<Rightarrow>
     if hr = S_OK then map_option (\<lambda>ys. xs @ ys) (read_all next1 fuel s1) else Some [])"

text \<open>\<open>items s\<close>: what an enumerator in state \<open>s\<close> has still to hand out.\<close>

locale listing =
  fixes next1 :: "'s \<Rightarrow> hresult \<times> 'a list \<times> 's" and items :: "'s \<Rightarrow> 'a list" and fine :: "'s \<Rightarrow> bool"
  assumes next_item: "fine s \<Longrightarrow> items s = x # xs \<Longrightarrow> \<exists>s1. next1 s = (S_OK, [x], s1) \<and> items s1 = xs \<and> fine s1"
    and next_end: "fine s \<Longrightarrow> items s = [] \<Longrightarrow> fst (next1 s) \<noteq> S_OK"
begin

lemma read_all_items: "fine s \<Longrightarrow> length (items s) < fuel \<Longrightarrow> read_all next1 fuel s = Some (items s)"
proof (induction fuel arbitrary: s)
  case (Suc fuel)
  show ?case
  proof (cases "items s")
    case Nil
    then show ?thesis using next_end [OF Suc.prems(1)] by (cases "next1 s") auto
  next
    case (Cons x xs)
    obtain s1 where "next1 s = (S_OK, [x], s1)" "items s1 = xs" "fine s1"
      using next_item [OF Suc.prems(1) Cons] by blast
    then show ?thesis using Suc Cons by simp
  qed
qed simp

end

definition pin_next :: "filter_view \<Rightarrow> enum_pins \<Rightarrow> hresult \<times> pin list \<times> enum_pins" where
  "pin_next f e = (case EnumPins_Next (\<lambda>_. True) f 1 True True e of (hr, ps, _, e1) \<Rightarrow> (hr, ps, e1))"

definition type_next :: "type_view \<Rightarrow> enum_types \<Rightarrow> hresult \<times> mtype list \<times> enum_types" where
  "type_next v e = (case EnumTypes_Next (\<lambda>_. True) v 1 True True e of (hr, ts, _, e1) \<Rightarrow> (hr, ts, e1))"

text \<open>The two enumerators half way through a list, of pins that do not repeat.\<close>

definition pins_halfway :: "pin list \<Rightarrow> enum_pins \<Rightarrow> bool" where
  "pins_halfway xs e \<longleftrightarrow> distinct xs \<and> ep_Version e = 1 \<and> ep_PinCount e = int (length xs) \<and>
     (\<exists>k \<le> length xs. ep_Position e = int k \<and> ep_PinCache e = take k xs)"

definition lists_types :: "type_view \<Rightarrow> mtype list \<Rightarrow> bool" where
  "lists_types v ts \<longleftrightarrow> (\<forall>i < length ts. tv_type v (int i) = (S_OK, ts ! i)) \<and> fst (tv_type v (int (length ts))) \<noteq> S_OK"

definition types_halfway :: "type_view \<Rightarrow> mtype list \<Rightarrow> enum_types \<Rightarrow> bool" where
  "types_halfway v ts e \<longleftrightarrow> lists_types v ts \<and> em_Version e = tv_version v \<and>
     0 \<le> em_Position e \<and> em_Position e \<le> int (length ts)"

lemma drop_consD: "drop k xs = x # ys \<Longrightarrow> k < length xs \<and> xs ! k = x \<and> ys = drop (Suc k) xs"
  by (metis Cons_nth_drop_Suc drop_eq_Nil linorder_not_less list.distinct(1) list.inject)

lemma pin_next_item:
  assumes "pins_halfway xs e" "drop (nat (ep_Position e)) xs = x # ys"
  shows "\<exists>e1. pin_next (view_of (\<lambda>_. xs @ zs) 1) e = (S_OK, [x], e1) \<and> drop (nat (ep_Position e1)) xs = ys \<and> pins_halfway xs e1"
proof -
  obtain k where k: "k \<le> length xs" "ep_Position e = int k" "ep_PinCache e = take k xs"
    using assms(1) by (auto simp: pins_halfway_def)
  have e: "distinct xs" "ep_Version e = 1" "ep_PinCount e = int (length xs)" using assms(1) by (auto simp: pins_halfway_def)
  have x: "k < length xs" "xs ! k = x" "ys = drop (Suc k) xs"
    using drop_consD [of k xs x ys] assms(2) k by simp_all
  have "x \<notin> set (take k xs)"
    using e(1) x by (auto simp: in_set_conv_nth nth_eq_iff_index_eq)
  then have "next_pins (\<lambda>_. True) (view_of (\<lambda>_. xs @ zs) 1) 1 e
      = (True, [x], e\<lparr>ep_Position := int k + 1, ep_PinCache := take k xs @ [x]\<rparr>)"
    using e k x by (simp add: next_pins_cases view_pin nth_append)
  moreover have "take k xs @ [x] = take (Suc k) xs" using x by (simp add: take_Suc_conv_app_nth)
  moreover have "pins_halfway xs (e\<lparr>ep_Position := int k + 1, ep_PinCache := take (Suc k) xs\<rparr>)"
    using e k x by (auto simp: pins_halfway_def intro!: exI [of _ "Suc k"])
  moreover have "nat (int k + 1) = Suc k" by simp
  ultimately show ?thesis
    using e x by (simp add: pin_next_def EnumPins_Next_def pins_out_of_sync_def view_of_def)
qed

lemma pin_next_end:
  assumes "pins_halfway xs e" "drop (nat (ep_Position e)) xs = []"
  shows "fst (pin_next (view_of (\<lambda>_. xs @ zs) 1) e) \<noteq> S_OK"
proof -
  have "ep_Version e = 1" "ep_PinCount e \<le> ep_Position e" using assms by (auto simp: pins_halfway_def)
  then show ?thesis
    by (simp add: pin_next_def EnumPins_Next_def pins_out_of_sync_def next_pins_cases view_of_def)
qed

lemma type_next_item:
  assumes "types_halfway v ts e" "drop (nat (em_Position e)) ts = t # us"
  shows "\<exists>e1. type_next v e = (S_OK, [t], e1) \<and> drop (nat (em_Position e1)) ts = us \<and> types_halfway v ts e1"
proof -
  obtain k where k: "em_Position e = int k" using assms(1) by (auto simp: types_halfway_def dest: zero_le_imp_eq_int)
  have t: "k < length ts" "ts ! k = t" "us = drop (Suc k) ts"
    using drop_consD [of k ts t us] assms(2) k by simp_all
  moreover have "nat (int k + 1) = Suc k" by simp
  ultimately show ?thesis
    using assms(1) k by (auto simp: type_next_def EnumTypes_Next_def types_halfway_def types_out_of_sync_def lists_types_def Let_def)
qed

lemma type_next_end:
  assumes "types_halfway v ts e" "drop (nat (em_Position e)) ts = []"
  shows "fst (type_next v e) \<noteq> S_OK"
proof -
  have "em_Position e = int (length ts)" using assms by (auto simp: types_halfway_def)
  then show ?thesis
    using assms(1) by (auto simp: type_next_def EnumTypes_Next_def types_halfway_def types_out_of_sync_def lists_types_def Let_def
        split: prod.split)
qed

interpretation pins_listed: listing "pin_next (view_of (\<lambda>_. xs @ zs) 1)" "\<lambda>e. drop (nat (ep_Position e)) xs" "pins_halfway xs" for xs zs
  by unfold_locales (use pin_next_item pin_next_end in auto)

interpretation types_listed: listing "type_next v" "\<lambda>e. drop (nat (em_Position e)) ts" "types_halfway v ts" for v ts
  by unfold_locales (use type_next_item type_next_end in auto)


section \<open>The pins of a source filter\<close>

text \<open>CSource leaves \<open>GetPinVersion\<close> as it is in CBaseFilter, and nothing calls \<open>IncrementPinVersion\<close>.\<close>

definition source_view :: "source_filter \<Rightarrow> filter_view" where
  "source_view f = \<lparr>fv_version = 1, fv_count = int (GetPinCount f), fv_pin = (\<lambda>i. GetPin i f)\<rparr>"

lemma source_view_pins: "filter_ok f \<Longrightarrow> source_view f = view_of (\<lambda>_. pins f) 1"
  by (auto simp: source_view_def view_of_def GetPinCount_def GetPin_def pins_def filter_ok_def fun_eq_iff)

lemma fresh_halfway: "filter_ok f \<Longrightarrow> distinct (pins f) \<Longrightarrow> pins_halfway (pins f) (new_enum_pins (source_view f) None)"
  by (simp add: pins_halfway_def new_enum_pins_def source_view_def GetPinCount_def length_pins)

lemma fresh_position: "ep_Position (new_enum_pins f None) = 0"
  by (simp add: new_enum_pins_def)

text \<open>An enumerator of a source filter's pins hands them out in the order of the filter's array and then
  stops; but it works from the count it took when it was created: a pin that adds itself to the filter
  later is passed over, and the client is told that it has seen all, because CSource does not change the
  version of its pins.\<close>

theorem added_pin_is_passed_over:
  assumes "filter_ok f" and "distinct (pins f)" and "length junk = m_iPins f + 1"
  shows "read_all (pin_next (source_view f)) (Suc (length (pins f))) (new_enum_pins (source_view f) None) = Some (pins f)
    \<and> (\<exists>f'. AddPin (Some junk) p f = Some (S_OK, f') \<and> pins f' = pins f @ [p]
         \<and> read_all (pin_next (source_view f')) (Suc (length (pins f))) (new_enum_pins (source_view f) None) = Some (pins f))"
proof -
  obtain f' where f': "AddPin (Some junk) p f = Some (S_OK, f')" "filter_ok f'" "pins f' = pins f @ [p]"
    using AddPin_pins [OF assms(1,3)] by blast
  note listed = pins_listed.read_all_items [OF fresh_halfway [OF assms(1,2)], of "Suc (length (pins f))"]
  have "read_all (pin_next (source_view f)) (Suc (length (pins f))) (new_enum_pins (source_view f) None) = Some (pins f)"
    using listed [of "[]"] assms(1) by (simp add: source_view_pins [symmetric] fresh_position del: read_all.simps)
  moreover have "read_all (pin_next (source_view f')) (Suc (length (pins f))) (new_enum_pins (source_view f) None) = Some (pins f)"
    using listed [of "[p]"] source_view_pins [OF f'(2)] f'(3) by (simp add: fresh_position del: read_all.simps)
  ultimately show ?thesis using f' by blast
qed

theorem added_pin_is_passed_over_witness:
  "read_all (pin_next (source_view \<lparr>m_iPins = 1, m_paStreams = Some [7]\<rparr>)) 2
     (new_enum_pins (source_view \<lparr>m_iPins = 1, m_paStreams = Some [7]\<rparr>) None) = Some [7]
   \<and> (\<exists>f'. AddPin (Some [0, 0]) 8 \<lparr>m_iPins = 1, m_paStreams = Some [7]\<rparr> = Some (S_OK, f') \<and> pins f' = [7, 8]
         \<and> read_all (pin_next (source_view f')) 2 (new_enum_pins (source_view \<lparr>m_iPins = 1, m_paStreams = Some [7]\<rparr>) None) = Some [7])"
  using added_pin_is_passed_over [of "\<lparr>m_iPins = 1, m_paStreams = Some [7]\<rparr>" "[0, 0]" 8]
  by (simp add: filter_ok_def pins_def array_def numeral_2_eq_2 del: read_all.simps)

section \<open>The media types of a pin\<close>

text \<open>A client that asks a pin's enumerator for one type at a time gets the pin's types in the order of
  their positions. When the memory for one of them is missing the call answers as at the end of the
  list, and a client that goes on gets the type behind it: the one in between is lost.\<close>

theorem types_come_in_order_but_one_may_be_lost:
  assumes "lists_types v ts"
  shows "read_all (type_next v) (Suc (length ts)) (new_enum_types v None) = Some ts
    \<and> (Suc k < length ts \<longrightarrow>
        (let (hr, us, ft, e) = EnumTypes_Next (\<lambda>_. False) v 1 True True ((new_enum_types v None)\<lparr>em_Position := int k\<rparr>)
         in hr = S_FALSE \<and> us = [] \<and> fst (type_next v e) = S_OK \<and> fst (snd (type_next v e)) = [ts ! Suc k]))"
proof -
  have half: "types_halfway v ts (new_enum_types v None)" "em_Position (new_enum_types v None) = 0"
    using assms by (simp_all add: types_halfway_def new_enum_types_def)
  have "read_all (type_next v) (Suc (length ts)) (new_enum_types v None) = Some ts"
    using types_listed.read_all_items [OF half(1), of "Suc (length ts)"] half(2) by (simp del: read_all.simps)
  moreover have "let (hr, us, ft, e) = EnumTypes_Next (\<lambda>_. False) v 1 True True ((new_enum_types v None)\<lparr>em_Position := int k\<rparr>)
      in hr = S_FALSE \<and> us = [] \<and> fst (type_next v e) = S_OK \<and> fst (snd (type_next v e)) = [ts ! Suc k]" if k: "Suc k < length ts"
  proof -
    have "tv_type v (int k) = (S_OK, ts ! k)" "tv_type v (int k + 1) = (S_OK, ts ! Suc k)"
      using assms k by (auto simp: lists_types_def) (metis of_nat_Suc add.commute)
    then show ?thesis by (simp add: EnumTypes_Next_def type_next_def types_out_of_sync_def new_enum_types_def)
  qed
  ultimately show ?thesis by blast
qed


theorem types_come_in_order_but_one_may_be_lost_witness:
  "let v = \<lparr>tv_version = 1, tv_type = (\<lambda>i. if i = 0 then (S_OK, no_type) else if i = 1 then (S_OK, blockless no_type)
        else (VFW_S_NO_MORE_ITEMS, no_type))\<rparr>
   in read_all (type_next v) 3 (new_enum_types v None) = Some [no_type, blockless no_type]"
proof -
  let ?v = "\<lparr>tv_version = 1, tv_type = (\<lambda>i :: int. if i = 0 then (S_OK, no_type) else if i = 1 then (S_OK, blockless no_type)
        else (VFW_S_NO_MORE_ITEMS, no_type))\<rparr>"
  have "lists_types ?v [no_type, blockless no_type]" by (simp add: lists_types_def less_Suc_eq all_conj_distrib)
  from types_come_in_order_but_one_may_be_lost [OF this] show ?thesis by (simp add: Let_def numeral_3_eq_3 del: read_all.simps)
qed

text \<open>The virtual camera's pin, asked for its types as values; \<open>c\<close> is the memory for the format block.\<close>

definition virtual_view :: "nat \<Rightarrow> mem \<Rightarrow> heap \<Rightarrow> type_view" where
  "virtual_view n c h = \<lparr>tv_version = 1, tv_type = (\<lambda>i.
     case Virtual_GetMediaType n (Some c) i (Some InitMediaType) h of
       Some (hr, Some mt, h1) \<Rightarrow> (hr, case type_value h1 mt of None \<Rightarrow> no_type | Some t \<Rightarrow> t)
     | _ \<Rightarrow> (E_UNEXPECTED, no_type))\<rparr>"


text \<open>A client that reads the virtual camera's media types to the end finds exactly one, uncompressed
  video of 24 bits a pixel, with a format block of the size asked for.\<close>

theorem virtual_camera_lists_one_type:
  assumes "sizeof_VIDEOINFOHEADER \<le> n" and "n < 2 ^ 32"
  shows "\<exists>t. read_all (type_next (virtual_view n c h)) 2 (new_enum_types (virtual_view n c h) None) = Some [t]
    \<and> majortype (t_head t) = MEDIATYPE_Video \<and> subtype (t_head t) = MEDIASUBTYPE_RGB24
    \<and> formattype (t_head t) = FORMAT_VideoInfo \<and> length (t_block t) = n"
proof -
  let ?mt = "SetSampleSize (of_nat PS3EYE_FRAME_SIZE) (InitMediaType\<lparr>majortype := MEDIATYPE_Video,
     subtype := MEDIASUBTYPE_RGB24, formattype := FORMAT_VideoInfo, cbFormat := of_nat n, pbFormat := Some (hnext h)\<rparr>)"
  let ?t = "\<lparr>t_head = ?mt\<lparr>pbFormat := None\<rparr>, t_block = map (virtual_block n c) [0..<n]\<rparr>"
  have n: "unat (of_nat n :: u32) = n" "(of_nat n :: u32) \<noteq> 0"
    using assms by (simp_all add: unat_of_nat sizeof_VIDEOINFOHEADER_def) (auto simp flip: unat_eq_0 simp: unat_of_nat)
  have "tv_type (virtual_view n c h) 0 = (S_OK, ?t)"
    using n by (simp add: virtual_view_def Virtual_GetMediaType_first [OF assms] type_value_def bytes_def SetSampleSize_def SetVariableSize_def)
  moreover have "fst (tv_type (virtual_view n c h) 1) = VFW_S_NO_MORE_ITEMS"
    by (simp add: virtual_view_def Virtual_GetMediaType_def split: option.split)
  ultimately have l: "lists_types (virtual_view n c h) [?t]" by (simp add: lists_types_def)
  have "types_halfway (virtual_view n c h) [?t] (new_enum_types (virtual_view n c h) None)"
    using l by (simp add: types_halfway_def new_enum_types_def)
  from types_listed.read_all_items [OF this, of 2]
  have "read_all (type_next (virtual_view n c h)) 2 (new_enum_types (virtual_view n c h) None) = Some [?t]"
    by (simp add: new_enum_types_def del: read_all.simps)
  then show ?thesis by (intro exI [of _ ?t]) (simp add: SetSampleSize_def SetVariableSize_def)
qed

theorem virtual_camera_lists_one_type_witness:
  "\<exists>t. read_all (type_next (virtual_view 1124 (\<lambda>_. 0) empty_heap)) 2 (new_enum_types (virtual_view 1124 (\<lambda>_. 0) empty_heap) None)
      = Some [t] \<and> subtype (t_head t) = MEDIASUBTYPE_RGB24 \<and> length (t_block t) = 1124"
  using virtual_camera_lists_one_type [of 1124 "\<lambda>_. 0" empty_heap] unfolding sizeof_VIDEOINFOHEADER_def by auto

end
