(* ===== verification/MediaSample.thy ===== *)
theory MediaSample
  imports MediaType
begin

text \<open>
  The media sample of the DirectShow base classes (CMediaSample in baseclasses/amfilter.cpp and
  amfilter.h): a buffer, what is said about it in flag bits, two pairs of times, and an optional
  media type of its own. \<open>Sample_Release\<close> is the part of \<open>Release\<close> before the sample goes back to
  its allocator, which the theory Allocator adds.
\<close>

unbundle bit_operations_syntax

section \<open>The sample\<close>

text \<open>The flag values of the class; the SDK's \<open>AM_SAMPLE\<close> constants are the same bits.\<close>

definition Sample_SyncPoint :: u32 where "Sample_SyncPoint = 0x01"
definition Sample_Preroll :: u32 where "Sample_Preroll = 0x02"
definition Sample_Discontinuity :: u32 where "Sample_Discontinuity = 0x04"
definition Sample_TypeChanged :: u32 where "Sample_TypeChanged = 0x08"
definition Sample_TimeValid :: u32 where "Sample_TimeValid = 0x10"
definition Sample_MediaTimeValid :: u32 where "Sample_MediaTimeValid = 0x20"
definition Sample_StopValid :: u32 where "Sample_StopValid = 0x100"
definition Sample_ValidFlags :: u32 where "Sample_ValidFlags = 0x1FF"

lemmas flag_defs = Sample_SyncPoint_def Sample_Preroll_def Sample_Discontinuity_def Sample_TypeChanged_def
  Sample_TimeValid_def Sample_MediaTimeValid_def Sample_StopValid_def Sample_ValidFlags_def

record cmedia_sample =
  m_dwFlags :: u32
  m_dwTypeSpecificFlags :: u32
  m_pBuffer :: "int option"
  m_lActual :: int
  m_cbBuffer :: int
  m_Start :: u64
  m_End :: u64
  m_MediaStart :: u64
  m_MediaEnd :: u32
  m_pMediaType :: "addr option"
  m_dwStreamId :: u32
  m_cRef :: int

text \<open>The constructor; the times keep whatever the memory held (\<open>junk\<close>).\<close>

definition AM_STREAM_MEDIA :: u32 where "AM_STREAM_MEDIA = 0"

definition new_sample :: "cmedia_sample \<Rightarrow> int option \<Rightarrow> int \<Rightarrow> hresult \<Rightarrow> cmedia_sample \<times> hresult" where
  "new_sample junk pBuffer len hr =
    (junk\<lparr>m_pBuffer := pBuffer, m_cbBuffer := (if len < 0 then 0 else len), m_lActual := len,
       m_pMediaType := None, m_dwFlags := 0, m_cRef := 0, m_dwTypeSpecificFlags := 0,
       m_dwStreamId := AM_STREAM_MEDIA\<rparr>,
     if len < 0 then VFW_E_BUFFER_OVERFLOW else hr)"

definition Sample_AddRef :: "cmedia_sample \<Rightarrow> int \<times> cmedia_sample" where
  "Sample_AddRef s = (m_cRef s + 1, s\<lparr>m_cRef := m_cRef s + 1\<rparr>)"

definition Sample_SetPointer :: "int option \<Rightarrow> int \<Rightarrow> cmedia_sample \<Rightarrow> hresult \<times> cmedia_sample" where
  "Sample_SetPointer ptr cBytes s =
    (if cBytes < 0 then (VFW_E_BUFFER_OVERFLOW, s)
     else (S_OK, s\<lparr>m_pBuffer := ptr, m_cbBuffer := cBytes, m_lActual := cBytes\<rparr>))"

definition Sample_GetPointer :: "cmedia_sample \<Rightarrow> hresult \<times> int option" where
  "Sample_GetPointer s = (S_OK, m_pBuffer s)"

definition Sample_GetSize :: "cmedia_sample \<Rightarrow> int" where "Sample_GetSize s = m_cbBuffer s"

section \<open>Times\<close>

text \<open>The result code and what is stored through the two pointers, if anything.\<close>

definition Sample_GetTime :: "cmedia_sample \<Rightarrow> hresult \<times> (u64 \<times> u64) option" where
  "Sample_GetTime s =
    (if m_dwFlags s AND Sample_StopValid = 0 then
       (if m_dwFlags s AND Sample_TimeValid = 0 then (VFW_E_SAMPLE_TIME_NOT_SET, None)
        else (VFW_S_NO_STOP_TIME, Some (m_Start s, m_Start s + 1)))
     else (S_OK, Some (m_Start s, m_End s)))"

definition Sample_SetTime :: "u64 option \<Rightarrow> u64 option \<Rightarrow> cmedia_sample \<Rightarrow> hresult \<times> cmedia_sample" where
  "Sample_SetTime pTimeStart pTimeEnd s = (S_OK,
    (case pTimeStart of
       None \<Rightarrow> s\<lparr>m_dwFlags := m_dwFlags s AND NOT (Sample_TimeValid OR Sample_StopValid)\<rparr>
     | Some a \<Rightarrow>
        (case pTimeEnd of
           None \<Rightarrow> s\<lparr>m_Start := a, m_dwFlags := (m_dwFlags s OR Sample_TimeValid) AND NOT Sample_StopValid\<rparr>
         | Some b \<Rightarrow> s\<lparr>m_Start := a, m_End := b,
             m_dwFlags := m_dwFlags s OR (Sample_TimeValid OR Sample_StopValid)\<rparr>)))"

definition Sample_GetMediaTime :: "cmedia_sample \<Rightarrow> hresult \<times> (u64 \<times> u64) option" where
  "Sample_GetMediaTime s =
    (if m_dwFlags s AND Sample_MediaTimeValid = 0 then (VFW_E_MEDIA_TIME_NOT_SET, None)
     else (S_OK, Some (m_MediaStart s, m_MediaStart s + scast (m_MediaEnd s))))"

definition Sample_SetMediaTime :: "u64 option \<Rightarrow> u64 option \<Rightarrow> cmedia_sample \<Rightarrow> hresult \<times> cmedia_sample" where
  "Sample_SetMediaTime pTimeStart pTimeEnd s =
    (case pTimeStart of
       None \<Rightarrow> (S_OK, s\<lparr>m_dwFlags := m_dwFlags s AND NOT Sample_MediaTimeValid\<rparr>)
     | Some a \<Rightarrow>
        (case pTimeEnd of
           None \<Rightarrow> (E_POINTER, s)
         | Some b \<Rightarrow> (S_OK, s\<lparr>m_MediaStart := a, m_MediaEnd := ucast (b - a),
             m_dwFlags := m_dwFlags s OR Sample_MediaTimeValid\<rparr>)))"

section \<open>Flags and lengths\<close>

definition Sample_IsFlag :: "u32 \<Rightarrow> cmedia_sample \<Rightarrow> hresult" where
  "Sample_IsFlag flag s = (if m_dwFlags s AND flag \<noteq> 0 then S_OK else S_FALSE)"

definition Sample_PutFlag :: "u32 \<Rightarrow> bool \<Rightarrow> cmedia_sample \<Rightarrow> hresult \<times> cmedia_sample" where
  "Sample_PutFlag flag b s =
    (S_OK, s\<lparr>m_dwFlags := (if b then m_dwFlags s OR flag else m_dwFlags s AND NOT flag)\<rparr>)"

definition Sample_IsSyncPoint :: "cmedia_sample \<Rightarrow> hresult" where
  "Sample_IsSyncPoint = Sample_IsFlag Sample_SyncPoint"
definition Sample_SetSyncPoint :: "bool \<Rightarrow> cmedia_sample \<Rightarrow> hresult \<times> cmedia_sample" where
  "Sample_SetSyncPoint = Sample_PutFlag Sample_SyncPoint"
definition Sample_IsDiscontinuity :: "cmedia_sample \<Rightarrow> hresult" where
  "Sample_IsDiscontinuity = Sample_IsFlag Sample_Discontinuity"
definition Sample_SetDiscontinuity :: "bool \<Rightarrow> cmedia_sample \<Rightarrow> hresult \<times> cmedia_sample" where
  "Sample_SetDiscontinuity = Sample_PutFlag Sample_Discontinuity"
definition Sample_IsPreroll :: "cmedia_sample \<Rightarrow> hresult" where
  "Sample_IsPreroll = Sample_IsFlag Sample_Preroll"
definition Sample_SetPreroll :: "bool \<Rightarrow> cmedia_sample \<Rightarrow> hresult \<times> cmedia_sample" where
  "Sample_SetPreroll = Sample_PutFlag Sample_Preroll"

definition Sample_GetActualDataLength :: "cmedia_sample \<Rightarrow> int" where
  "Sample_GetActualDataLength s = m_lActual s"

definition Sample_SetActualDataLength :: "int \<Rightarrow> cmedia_sample \<Rightarrow> hresult \<times> cmedia_sample" where
  "Sample_SetActualDataLength lActual s =
    (if lActual > m_cbBuffer s \<or> lActual < 0 then (VFW_E_BUFFER_OVERFLOW, s)
     else (S_OK, s\<lparr>m_lActual := lActual\<rparr>))"

section \<open>The media type\<close>

text \<open>The two answers are those to the allocations of the struct and of its format block.\<close>

definition Sample_GetMediaType ::
  "mem option \<Rightarrow> mem option \<Rightarrow> cmedia_sample \<Rightarrow> heap \<Rightarrow> (hresult \<times> addr option \<times> heap) option" where
  "Sample_GetMediaType a1 a2 s h =
    (if m_dwFlags s AND Sample_TypeChanged = 0 then Some (S_FALSE, None, h)
     else do {
       mt \<leftarrow> Option.bind (m_pMediaType s) (hmt h);
       (p, h1) \<leftarrow> CreateMediaType a1 a2 mt h;
       Some (if p = None then E_OUTOFMEMORY else S_OK, p, h1) })"

definition Sample_SetMediaType ::
  "mem option \<Rightarrow> mem option \<Rightarrow> am_media_type option \<Rightarrow> cmedia_sample \<Rightarrow> heap
     \<Rightarrow> (hresult \<times> cmedia_sample \<times> heap) option" where
  "Sample_SetMediaType a1 a2 pMediaType s h = do {
     h1 \<leftarrow> DeleteMediaType (m_pMediaType s) h;
     let s1 = s\<lparr>m_pMediaType := None\<rparr>;
     case pMediaType of
       None \<Rightarrow> Some (S_OK, s1\<lparr>m_dwFlags := m_dwFlags s1 AND NOT Sample_TypeChanged\<rparr>, h1)
     | Some mt \<Rightarrow> do {
         (p, h2) \<leftarrow> CreateMediaType a1 a2 mt h1;
         let s2 = s1\<lparr>m_pMediaType := p\<rparr>;
         if p = None then Some (E_OUTOFMEMORY, s2\<lparr>m_dwFlags := m_dwFlags s2 AND NOT Sample_TypeChanged\<rparr>, h2)
         else Some (S_OK, s2\<lparr>m_dwFlags := m_dwFlags s2 OR Sample_TypeChanged\<rparr>, h2) } }"

definition delete_sample :: "cmedia_sample \<Rightarrow> heap \<Rightarrow> heap option" where
  "delete_sample s h = DeleteMediaType (m_pMediaType s) h"

text \<open>The count, and whether the sample now goes back to its allocator.\<close>

definition Sample_Release :: "cmedia_sample \<Rightarrow> heap \<Rightarrow> (int \<times> bool \<times> cmedia_sample \<times> heap) option" where
  "Sample_Release s h =
    (let lRef = (if m_cRef s = 1 then 0 else m_cRef s - 1); s1 = s\<lparr>m_cRef := lRef\<rparr>
     in if lRef = 0 then do {
          (s2, h1) \<leftarrow> (if m_dwFlags s1 AND Sample_TypeChanged \<noteq> 0
                      then do { (_, s2, h1) \<leftarrow> Sample_SetMediaType None None None s1 h; Some (s2, h1) }
                      else Some (s1, h));
          Some (0, True, s2\<lparr>m_dwFlags := 0, m_dwTypeSpecificFlags := 0, m_dwStreamId := AM_STREAM_MEDIA\<rparr>, h1) }
        else Some (lRef, False, s1, h))"

section \<open>Properties of a sample as a whole\<close>

text \<open>
  The struct that IMediaSample2 passes, declared in the SDK; \<open>fends\<close> gives the offset at which a
  member of it ends. \<open>pp_media\<close> is the media type the struct points to.
\<close>

datatype props_field = F_cbData | F_dwTypeSpecificFlags | F_dwSampleFlags | F_lActual | F_tStart | F_tStop
  | F_dwStreamId | F_pMediaType | F_pbBuffer | F_cbBuffer

record sample_props =
  pp_cbData :: nat
  pp_dwTypeSpecificFlags :: u32
  pp_dwSampleFlags :: u32
  pp_lActual :: int
  pp_tStart :: u64
  pp_tStop :: u64
  pp_dwStreamId :: u32
  pp_media :: "am_media_type option"
  pp_pbBuffer :: "int option"
  pp_cbBuffer :: int

text \<open>The checks before anything is assigned: an error code, or none.\<close>

definition props_refused :: "(props_field \<Rightarrow> bool) \<Rightarrow> sample_props \<Rightarrow> cmedia_sample \<Rightarrow> hresult option" where
  "props_refused has p s =
    (if has F_dwSampleFlags \<and> pp_dwSampleFlags p AND (NOT Sample_ValidFlags OR Sample_MediaTimeValid) \<noteq> 0
       then Some E_INVALIDARG
     else if has F_dwSampleFlags \<and> pp_dwSampleFlags p AND Sample_TimeValid \<noteq> 0
          \<and> m_dwFlags s AND Sample_TimeValid = 0 \<and> \<not> has F_tStop then Some E_INVALIDARG
     else if has F_pbBuffer \<and> pp_pbBuffer p \<noteq> None \<and> pp_pbBuffer p \<noteq> m_pBuffer s then Some E_INVALIDARG
     else if has F_cbBuffer \<and> pp_cbBuffer p \<noteq> 0 \<and> pp_cbBuffer p \<noteq> m_cbBuffer s then Some E_INVALIDARG
     else if has F_cbBuffer \<and> has F_lActual \<and> pp_cbBuffer p < pp_lActual p then Some E_INVALIDARG
     else if has F_pMediaType \<and> pp_dwSampleFlags p AND Sample_TypeChanged \<noteq> 0 \<and> pp_media p = None
       then Some E_POINTER
     else None)"

definition props_assign :: "(props_field \<Rightarrow> bool) \<Rightarrow> sample_props \<Rightarrow> cmedia_sample \<Rightarrow> cmedia_sample" where
  "props_assign has p s =
    (let s1 = (if has F_dwStreamId then s\<lparr>m_dwStreamId := pp_dwStreamId p\<rparr> else s);
         s2 = (if has F_dwSampleFlags
               then s1\<lparr>m_dwFlags := pp_dwSampleFlags p OR (m_dwFlags s1 AND Sample_MediaTimeValid),
                       m_dwTypeSpecificFlags := pp_dwTypeSpecificFlags p\<rparr>
               else if has F_dwTypeSpecificFlags then s1\<lparr>m_dwTypeSpecificFlags := pp_dwTypeSpecificFlags p\<rparr>
               else s1);
         s3 = (if has F_lActual then s2\<lparr>m_lActual := pp_lActual p\<rparr> else s2);
         s4 = (if has F_tStop then s3\<lparr>m_End := pp_tStop p\<rparr> else s3)
     in if has F_tStart then s4\<lparr>m_Start := pp_tStart p\<rparr> else s4)"

definition Sample_SetProperties ::
  "(props_field \<Rightarrow> nat) \<Rightarrow> nat \<Rightarrow> mem option \<Rightarrow> mem option \<Rightarrow> nat \<Rightarrow> sample_props option \<Rightarrow> cmedia_sample \<Rightarrow> heap
     \<Rightarrow> (hresult \<times> cmedia_sample \<times> heap) option" where
  "Sample_SetProperties fends struct_bytes a1 a2 cb pp s h =
    (if \<not> fends F_cbData \<le> cb then Some (S_OK, s, h)
     else case pp of
       None \<Rightarrow> Some (E_POINTER, s, h)
     | Some p \<Rightarrow>
        (let cb1 = (if pp_cbData p < cb then pp_cbData p else cb); has = (\<lambda>f. fends f \<le> cb1)
         in if cb1 > struct_bytes \<or> pp_cbData p > struct_bytes then Some (E_INVALIDARG, s, h)
            else case props_refused has p s of
              Some e \<Rightarrow> Some (e, s, h)
            | None \<Rightarrow>
               (let typed = (has F_pMediaType \<and> pp_dwSampleFlags p AND Sample_TypeChanged \<noteq> 0)
                in do {
                  (q, h1) \<leftarrow> (if typed then CreateMediaType a1 a2 (the (pp_media p)) h else Some (None, h));
                  if typed \<and> q = None then Some (E_OUTOFMEMORY, s, h1)
                  else do {
                    let s1 = props_assign has p s;
                    (s2, h2) \<leftarrow> (if typed then do {
                                  h2 \<leftarrow> DeleteMediaType (m_pMediaType s1) h1;
                                  Some (s1\<lparr>m_pMediaType := q\<rparr>, h2) }
                                else Some (s1, h1));
                    Some (S_OK, s2\<lparr>m_dwFlags := (if m_pMediaType s2 \<noteq> None
                       then m_dwFlags s2 OR Sample_TypeChanged
                       else m_dwFlags s2 AND NOT Sample_TypeChanged)\<rparr>, h2) } })))"

text \<open>The struct is filled whole; the caller gets its first \<open>cb\<close> bytes.\<close>

definition Sample_GetProperties ::
  "nat \<Rightarrow> nat \<Rightarrow> bool \<Rightarrow> cmedia_sample \<Rightarrow> heap \<Rightarrow> hresult \<times> (nat \<times> sample_props) option" where
  "Sample_GetProperties struct_bytes cb buffer s h =
    (if cb = 0 then (S_OK, None)
     else if \<not> buffer then (E_POINTER, None)
     else (S_OK, Some (min cb struct_bytes,
       \<lparr>pp_cbData = min cb struct_bytes, pp_dwTypeSpecificFlags = m_dwTypeSpecificFlags s,
        pp_dwSampleFlags = m_dwFlags s AND NOT Sample_MediaTimeValid, pp_lActual = m_lActual s,
        pp_tStart = m_Start s, pp_tStop = m_End s, pp_dwStreamId = m_dwStreamId s,
        pp_media = (if m_dwFlags s AND Sample_TypeChanged \<noteq> 0 then Option.bind (m_pMediaType s) (hmt h) else None),
        pp_pbBuffer = m_pBuffer s, pp_cbBuffer = m_cbBuffer s\<rparr>)))"

section \<open>Flag bits\<close>

text \<open>
  A flag word after setting or clearing bits, seen through a mask: the masks are numerals, so
  both sides reduce to one test of the old word.
\<close>

lemma or_and_mask: "((f :: 'a :: len word) OR a) AND b = (f AND b) OR (a AND b)"
  by (simp add: bit.conj_disj_distrib2)

lemma and_and_mask: "((f :: 'a :: len word) AND a) AND b = f AND (a AND b)"
  by (simp add: and.assoc)

lemmas mask_simps = or_and_mask and_and_mask or_eq_0_iff

section \<open>Who owns the media type\<close>

text \<open>
  Besides what is on the heap \<open>h0\<close> the heap \<open>h\<close> holds one struct with its format block, or
  nothing.
\<close>

definition type_owned :: "heap \<Rightarrow> addr option \<Rightarrow> heap \<Rightarrow> bool" where
  "type_owned h0 po h \<longleftrightarrow>
    (case po of
       None \<Rightarrow> heap_ok h \<and> hmt h = hmt h0 \<and> hblk h = hblk h0
     | Some p \<Rightarrow> hmt h0 p = None \<and> hblk h0 p = None \<and> (\<exists>mt. owned (h0\<lparr>hmt := (hmt h0)(p \<mapsto> mt)\<rparr>) mt h))"

lemma type_owned_ok: "type_owned h0 po h \<Longrightarrow> heap_ok h"
  by (auto simp: type_owned_def owned_def split: option.splits)

lemma type_owned_self: "heap_ok h \<Longrightarrow> type_owned h None h"
  by (simp add: type_owned_def)

lemma owned_hmt: "owned h0 mt h \<Longrightarrow> hmt h = hmt h0"
  by (simp add: owned_def)

lemma type_owned_struct: "type_owned h0 (Some p) h \<Longrightarrow> \<exists>mt. hmt h p = Some mt \<and> mt_ok h mt"
  using owned_mt_ok owned_hmt by (fastforce simp: type_owned_def)

lemma heap_ok_drop: "heap_ok h \<Longrightarrow> heap_ok (h\<lparr>hmt := (hmt h)(p := None)\<rparr>)"
  by (simp add: heap_ok_def)

lemma mt_ok_type_owned: "mt_ok h0 rt \<Longrightarrow> type_owned h0 po h \<Longrightarrow> mt_ok h rt"
  using mt_ok_kept [of "h0\<lparr>hmt := m\<rparr>" rt for m]
  by (auto simp: type_owned_def mt_ok_def owned_def split: option.splits if_splits)

lemma type_owned_live:
  assumes "type_owned h0 po h"
  shows "hmt h0 a \<noteq> None \<Longrightarrow> hmt h a = hmt h0 a" "hblk h0 a \<noteq> None \<Longrightarrow> hblk h a = hblk h0 a"
  using assms by (auto simp: type_owned_def owned_def split: option.splits if_splits)

lemma heap_ok_restruct: "heap_ok h \<Longrightarrow> hmt h p \<noteq> None \<Longrightarrow> heap_ok (h\<lparr>hmt := (hmt h)(p \<mapsto> m)\<rparr>)"
  unfolding heap_ok_def by (auto simp del: not_None_eq)

lemma ownedE:
  assumes "owned h0 mt h" and "cbFormat mt \<noteq> 0"
  obtains q b where "pbFormat mt = Some q" "hblk h0 q = None" "hmt h0 q = None"
    "hblk h = (hblk h0)(q \<mapsto> (unat (cbFormat mt), b))"
  using assms by (simp add: owned_def) blast

lemma owned_restruct:
  assumes "owned (h0\<lparr>hmt := (hmt h0)(p \<mapsto> m)\<rparr>) mt h"
  shows "owned (h0\<lparr>hmt := (hmt h0)(p \<mapsto> mt)\<rparr>) mt (h\<lparr>hmt := (hmt h)(p \<mapsto> mt)\<rparr>)"
proof -
  have h: "heap_ok h" "hmt h = (hmt h0)(p \<mapsto> m)" using assms by (simp_all add: owned_def)
  then have ok: "heap_ok (h\<lparr>hmt := (hmt h)(p \<mapsto> mt)\<rparr>)" using heap_ok_restruct [of h p mt] by simp
  show ?thesis
  proof (cases "cbFormat mt = 0")
    case True
    then show ?thesis using assms ok h(2) by (simp add: owned_def)
  next
    case False
    obtain q b where q: "pbFormat mt = Some q" "hblk h0 q = None" "hmt (h0\<lparr>hmt := (hmt h0)(p \<mapsto> m)\<rparr>) q = None"
      "hblk h = (hblk h0)(q \<mapsto> (unat (cbFormat mt), b))"
      by (rule ownedE [OF assms False]) simp
    then have "q \<noteq> p" "hmt h0 q = None" by (auto split: if_splits)
    then show ?thesis using False ok h(2) q by (simp add: owned_def) blast
  qed
qed

lemma type_owned_cong: "hmt h = hmt h0 \<Longrightarrow> hblk h = hblk h0 \<Longrightarrow> type_owned h = type_owned h0"
  by (auto simp: type_owned_def owned_def fun_eq_iff split: option.splits)

lemma type_owned_same:
  assumes "type_owned h0 po h" "heap_ok h1" "hmt h1 = hmt h" "hblk h1 = hblk h"
  shows "type_owned h0 po h1"
proof -
  have "owned b mt h \<Longrightarrow> owned b mt h1" for b mt unfolding owned_def assms(3,4) using assms(2) by blast
  then show ?thesis using assms unfolding type_owned_def by (cases po) auto
qed

lemma failed_copy_empty: "CopyMediaType a rt h = Some (hr, mt, h1) \<Longrightarrow> failed hr \<Longrightarrow> cbFormat mt = 0"
  by (auto simp: CopyMediaType_def split: if_splits prod.splits option.splits Option.bind_splits)

lemma Create_owned:
  assumes t: "type_owned h0 None h" and rt: "mt_ok h rt"
  shows "\<exists>po h1. CreateMediaType a1 a2 rt h = Some (po, h1) \<and> type_owned h0 po h1"
proof (cases a1)
  case None
  then show ?thesis using t by (auto simp: CreateMediaType_def)
next
  case (Some c)
  let ?p = "hnext h"
  let ?h1 = "h\<lparr>hmt := (hmt h)(?p \<mapsto> InitMediaType), hnext := Suc ?p\<rparr>"
  let ?b = "h0\<lparr>hmt := (hmt h0)(?p \<mapsto> InitMediaType)\<rparr>"
  have ok: "heap_ok h" and e: "hmt h = hmt h0" "hblk h = hblk h0" using t by (auto simp: type_owned_def)
  have f: "hmt h0 ?p = None" "hblk h0 ?p = None" using heap_fresh [OF ok] e by auto
  have "mt_ok ?h1 rt" using rt by (simp add: mt_ok_def)
  then obtain hr mt h2 where c: "CopyMediaType a2 rt ?h1 = Some (hr, mt, h2)" "owned ?b mt h2"
    using CopyMediaType_owned [OF heap_ok_struct [OF ok, of InitMediaType], of rt ?b a2] e by auto
  show ?thesis
  proof (cases "failed hr")
    case True
    have "hblk h2 = hblk h0" "hmt h2 = (hmt h0)(?p \<mapsto> InitMediaType)" "heap_ok h2"
      using c(2) failed_copy_empty [OF c(1) True] by (auto simp: owned_def)
    then have "CoTaskMemFree (Some ?p) h2 = Some (h2\<lparr>hmt := (hmt h2)(?p := None)\<rparr>)"
      "type_owned h0 None (h2\<lparr>hmt := (hmt h2)(?p := None)\<rparr>)"
      using f heap_ok_drop [of h2 ?p] by (auto simp: CoTaskMemFree_def type_owned_def fun_upd_idem)
    then show ?thesis using True Some c(1) by (simp add: CreateMediaType_def Let_def)
  next
    case False
    have "owned (h0\<lparr>hmt := (hmt h0)(?p \<mapsto> mt)\<rparr>) mt (h2\<lparr>hmt := (hmt h2)(?p \<mapsto> mt)\<rparr>)"
      using c(2) by (rule owned_restruct)
    then show ?thesis using False Some c(1) f by (auto simp: CreateMediaType_def Let_def type_owned_def)
  qed
qed

lemma type_owned_free:
  assumes "type_owned h0 po h"
  shows "hmt h a = None \<Longrightarrow> hmt h0 a = None" "hblk h a = None \<Longrightarrow> hblk h0 a = None"
  using type_owned_live [OF assms, of a] by (metis)+

lemma Delete_effect:
  assumes "heap_ok h" and p: "hmt h p = Some mt" and r: "cbFormat mt \<noteq> 0 \<Longrightarrow> pbFormat mt = Some r \<and> hblk h r \<noteq> None"
  shows "\<exists>h2. DeleteMediaType (Some p) h = Some h2 \<and> heap_ok h2 \<and> hmt h2 = (hmt h)(p := None)
     \<and> hblk h2 = (if cbFormat mt = 0 then hblk h else (hblk h)(r := None))"
proof -
  have b: "hblk h p = None" using assms(1) p heap_ok_live [of h p] by (cases "hblk h p") auto
  have "\<exists>mt' h3. FreeMediaType mt h = Some (mt', h3) \<and> hmt h3 = hmt h \<and> heap_ok h3
     \<and> hblk h3 = (if cbFormat mt = 0 then hblk h else (hblk h)(r := None))"
    using assms(1) r heap_ok_free [OF assms(1), of r]
    by (cases "cbFormat mt = 0") (auto simp: FreeMediaType_def CoTaskMemFree_def)
  then obtain mt' h3 where f: "FreeMediaType mt h = Some (mt', h3)" "hmt h3 = hmt h" "heap_ok h3"
    "hblk h3 = (if cbFormat mt = 0 then hblk h else (hblk h)(r := None))" by blast
  have "DeleteMediaType (Some p) h = Some (h3\<lparr>hmt := (hmt h)(p := None)\<rparr>)"
    using p f b by (simp add: DeleteMediaType_def CoTaskMemFree_def)
  then show ?thesis using f heap_ok_drop [OF f(3), of p] by auto
qed

text \<open>Deleting one type leaves another, created after it, alone.\<close>

lemma Delete_owned:
  assumes old: "type_owned h0 po h" and new: "type_owned h q h1"
  shows "\<exists>h2. DeleteMediaType po h1 = Some h2 \<and> type_owned h0 q h2"
proof (cases po)
  case None
  then have "type_owned h = type_owned h0" using old by (intro type_owned_cong) (auto simp: type_owned_def)
  then show ?thesis using new None by (simp add: DeleteMediaType_def)
next
  case (Some p)
  obtain mt where f: "hmt h0 p = None" "hblk h0 p = None" and o: "owned (h0\<lparr>hmt := (hmt h0)(p \<mapsto> mt)\<rparr>) mt h"
    using old Some by (auto simp: type_owned_def)
  have h: "hmt h p = Some mt" using owned_hmt [OF o] by simp
  have h1: "heap_ok h1" "hmt h1 p = Some mt" using type_owned_ok [OF new] type_owned_live(1) [OF new, of p] h by auto
  let ?r = "the (pbFormat mt)"
  have r: "cbFormat mt \<noteq> 0 \<Longrightarrow> pbFormat mt = Some ?r \<and> hblk h0 ?r = None \<and> hblk h ?r \<noteq> None
      \<and> (\<exists>y. hblk h = (hblk h0)(?r \<mapsto> y))"
    by (rule ownedE [OF o]) auto
  have same: "cbFormat mt = 0 \<Longrightarrow> hblk h = hblk h0" using o by (simp add: owned_def)
  obtain h2 where h2: "DeleteMediaType po h1 = Some h2" "heap_ok h2" "hmt h2 = (hmt h1)(p := None)"
    "hblk h2 = (if cbFormat mt = 0 then hblk h1 else (hblk h1)(?r := None))"
    using Delete_effect [OF h1, of ?r] r type_owned_live(2) [OF new, of ?r] Some by force
  show ?thesis
  proof (cases q)
    case None
    then have "hmt h1 = (hmt h0)(p \<mapsto> mt)" "hblk h1 = hblk h"
      using new owned_hmt [OF o] by (auto simp: type_owned_def)
    then have "hmt h2 = hmt h0" "hblk h2 = hblk h0"
      using f(1) h2(3,4) r same by (auto simp: fun_upd_idem)
    then show ?thesis using None h2(1) h2(2) by (auto simp: type_owned_def)
  next
    case (Some q1)
    then obtain n where n: "hmt h q1 = None" "hblk h q1 = None" "owned (h\<lparr>hmt := (hmt h)(q1 \<mapsto> n)\<rparr>) n h1"
      using new by (auto simp: type_owned_def)
    have q1: "q1 \<noteq> p" "hmt h0 q1 = None" using n(1) owned_hmt [OF o] by (auto split: if_splits)
    have q2: "hblk h0 q1 = None" using type_owned_free(2) [OF old n(2)] .
    have m: "hmt h2 = (hmt h0)(q1 \<mapsto> n)"
      using h2(3) owned_hmt [OF n(3)] owned_hmt [OF o] q1 f(1) by (auto simp: fun_eq_iff)
    have "owned (h0\<lparr>hmt := (hmt h0)(q1 \<mapsto> n)\<rparr>) n h2"
    proof (cases "cbFormat n = 0")
      case True
      then have "hblk h1 = hblk h" using n(3) by (simp add: owned_def)
      then have "hblk h2 = hblk h0" using h2(4) r same by (auto simp: fun_upd_idem)
      then show ?thesis using True m h2(2) by (simp add: owned_def)
    next
      case False
      obtain s b where s: "pbFormat n = Some s" "hblk h s = None" "hmt (h\<lparr>hmt := (hmt h)(q1 \<mapsto> n)\<rparr>) s = None"
        "hblk h1 = (hblk h)(s \<mapsto> (unat (cbFormat n), b))"
        by (rule ownedE [OF n(3) False]) simp
      have s0: "hblk h0 s = None" using type_owned_free(2) [OF old s(2)] .
      have s1: "hmt h0 s = None" "s \<noteq> q1" using s(3) type_owned_free(1) [OF old, of s] by (auto split: if_splits)
      have "hblk h2 = (hblk h0)(s \<mapsto> (unat (cbFormat n), b))"
        using h2(4) r same s(2,4) by (auto simp: fun_eq_iff)
      then show ?thesis using False m h2(2) s(1) s0 s1 by (simp add: owned_def) blast
    qed
    then show ?thesis using Some h2(1) q1 q2 by (auto simp: type_owned_def)
  qed
qed

section \<open>A sample in use\<close>

definition sample_inv :: "heap \<Rightarrow> cmedia_sample \<Rightarrow> heap \<Rightarrow> bool" where
  "sample_inv h0 s h \<longleftrightarrow> type_owned h0 (m_pMediaType s) h \<and>
     (m_dwFlags s AND Sample_TypeChanged \<noteq> 0 \<longleftrightarrow> m_pMediaType s \<noteq> None)"

lemma sample_inv_flags:
  "sample_inv h0 s h \<Longrightarrow> m_pMediaType s' = m_pMediaType s \<Longrightarrow>
     m_dwFlags s' AND Sample_TypeChanged = m_dwFlags s AND Sample_TypeChanged \<Longrightarrow> sample_inv h0 s' h"
  by (simp add: sample_inv_def)

lemma SetMediaType_inv:
  assumes i: "sample_inv h0 s h" and mt: "\<And>rt. pmt = Some rt \<Longrightarrow> mt_ok h0 rt"
  shows "\<exists>hr s1 h1. Sample_SetMediaType a1 a2 pmt s h = Some (hr, s1, h1) \<and> sample_inv h0 s1 h1
     \<and> (pmt = None \<longrightarrow> m_pMediaType s1 = None)"
proof -
  obtain h1 where d: "DeleteMediaType (m_pMediaType s) h = Some h1" "type_owned h0 None h1"
    using Delete_owned [of h0 "m_pMediaType s" h None h] type_owned_self type_owned_ok i
    by (auto simp: sample_inv_def)
  show ?thesis
  proof (cases pmt)
    case None
    then show ?thesis using d by (simp add: Sample_SetMediaType_def Let_def sample_inv_def flag_defs mask_simps)
  next
    case (Some rt)
    have "mt_ok h1 rt" using mt [OF Some] d(2) by (rule mt_ok_type_owned)
    then obtain q h2 where "CreateMediaType a1 a2 rt h1 = Some (q, h2)" "type_owned h0 q h2"
      using Create_owned [OF d(2)] by blast
    then show ?thesis
      using d(1) Some by (cases q) (auto simp: Sample_SetMediaType_def Let_def sample_inv_def flag_defs mask_simps)
  qed
qed

lemma Release_inv:
  assumes "sample_inv h0 s h"
  shows "\<exists>n fin s1 h1. Sample_Release s h = Some (n, fin, s1, h1) \<and> sample_inv h0 s1 h1
     \<and> n = m_cRef s - 1 \<and> m_cRef s1 = n \<and> (fin \<longleftrightarrow> n = 0) \<and> (fin \<longrightarrow> m_pMediaType s1 = None \<and> m_dwFlags s1 = 0)"
proof (cases "m_cRef s = 1")
  case False
  then show ?thesis using assms by (auto simp: Sample_Release_def Let_def sample_inv_def)
next
  case True
  have i: "sample_inv h0 (s\<lparr>m_cRef := 0\<rparr>) h" using assms by (rule sample_inv_flags) simp_all
  show ?thesis
  proof (cases "m_dwFlags s AND Sample_TypeChanged = 0")
    case t: True
    then have "m_pMediaType s = None" using assms by (auto simp: sample_inv_def)
    then show ?thesis using True t assms by (simp add: Sample_Release_def Let_def sample_inv_def)
  next
    case t: False
    obtain hr s1 h1 where q: "Sample_SetMediaType None None None (s\<lparr>m_cRef := 0\<rparr>) h = Some (hr, s1, h1)"
      "sample_inv h0 s1 h1" "m_pMediaType s1 = None"
      using SetMediaType_inv [OF i, of None None None] by auto
    have "m_cRef s1 = 0" using q(1) by (auto simp: Sample_SetMediaType_def Let_def split: Option.bind_splits)
    then show ?thesis using True t q by (simp add: Sample_Release_def Let_def sample_inv_def)
  qed
qed

lemma props_assign_keeps: "m_pMediaType (props_assign has p s) = m_pMediaType s"
  by (simp add: props_assign_def Let_def)

lemma accepted_has_type:
  "props_refused has p s = None \<Longrightarrow> has F_pMediaType \<Longrightarrow> pp_dwSampleFlags p AND Sample_TypeChanged \<noteq> 0 \<Longrightarrow> \<exists>rt. pp_media p = Some rt"
  by (auto simp: props_refused_def split: if_splits)

lemma SetProperties_inv:
  assumes i: "sample_inv h0 s h" and mt: "\<And>p rt. pp = Some p \<Longrightarrow> pp_media p = Some rt \<Longrightarrow> mt_ok h0 rt"
  shows "\<exists>hr s1 h1. Sample_SetProperties fends n a1 a2 cb pp s h = Some (hr, s1, h1) \<and> sample_inv h0 s1 h1
     \<and> (failed hr \<longrightarrow> s1 = s \<and> hmt h1 = hmt h \<and> hblk h1 = hblk h)"
proof -
  let ?P = "\<lambda>r. \<exists>hr s1 h1. r = Some (hr, s1, h1) \<and> sample_inv h0 s1 h1
     \<and> (failed hr \<longrightarrow> s1 = s \<and> hmt h1 = hmt h \<and> hblk h1 = hblk h)"
  have same: "?P (Some (hr, s, h))" for hr using i by simp
  have fix_flag: "sample_inv h0 (s2\<lparr>m_dwFlags := (if m_pMediaType s2 \<noteq> None then m_dwFlags s2 OR Sample_TypeChanged
      else m_dwFlags s2 AND NOT Sample_TypeChanged)\<rparr>) h2"
    if "type_owned h0 (m_pMediaType s2) h2" for s2 h2
    using that by (auto simp: sample_inv_def flag_defs mask_simps)
  have own: "type_owned h0 (m_pMediaType s) h" and ok: "heap_ok h"
    using i type_owned_ok by (auto simp: sample_inv_def)
  have typed: "?P (do {
      (q, h1) \<leftarrow> (if t then CreateMediaType a1 a2 rt h else Some (None, h));
      if t \<and> q = None then Some (E_OUTOFMEMORY, s, h1)
      else do {
        let s1 = props_assign has p s;
        (s2, h2) \<leftarrow> (if t then do { h2 \<leftarrow> DeleteMediaType (m_pMediaType s1) h1; Some (s1\<lparr>m_pMediaType := q\<rparr>, h2) }
                    else Some (s1, h1));
        Some (S_OK, s2\<lparr>m_dwFlags := (if m_pMediaType s2 \<noteq> None then m_dwFlags s2 OR Sample_TypeChanged
          else m_dwFlags s2 AND NOT Sample_TypeChanged)\<rparr>, h2) } })" (is "?P ?r")
    if rt: "t \<Longrightarrow> mt_ok h rt" for has p t rt
  proof (cases t)
    case False
    then show ?thesis using fix_flag [of "props_assign has p s" h] own by (simp add: props_assign_keeps Let_def)
  next
    case True
    obtain q h1 where q: "CreateMediaType a1 a2 rt h = Some (q, h1)" "type_owned h q h1"
      using Create_owned [OF type_owned_self [OF ok] rt [OF True], of a1 a2] by blast
    show ?thesis
    proof (cases q)
      case None
      then have "hmt h1 = hmt h" "hblk h1 = hblk h" "heap_ok h1" using q(2) by (auto simp: type_owned_def)
      then have "sample_inv h0 s h1"
        using i type_owned_same [of h0 _ h h1] by (simp add: sample_inv_def)
      then show ?thesis using True None q(1) \<open>hmt h1 = hmt h\<close> \<open>hblk h1 = hblk h\<close> by simp
    next
      case (Some q1)
      obtain h2 where "DeleteMediaType (m_pMediaType s) h1 = Some h2" "type_owned h0 q h2"
        using Delete_owned [OF own q(2)] by blast
      then show ?thesis
        using True Some q(1) fix_flag [of "(props_assign has p s)\<lparr>m_pMediaType := q\<rparr>" h2]
        by (simp add: props_assign_keeps Let_def)
    qed
  qed
  show ?thesis
  proof (cases pp)
    case None
    then show ?thesis using same by (simp add: Sample_SetProperties_def)
  next
    case (Some p)
    let ?cb = "if pp_cbData p < cb then pp_cbData p else cb"
    let ?has = "\<lambda>f. fends f \<le> ?cb"
    have "mt_ok h (the (pp_media p))"
      if acc: "props_refused ?has p s = None" and ty: "?has F_pMediaType \<and> pp_dwSampleFlags p AND Sample_TypeChanged \<noteq> 0"
    proof -
      obtain rt where "pp_media p = Some rt" using accepted_has_type [OF acc] ty by blast
      then show ?thesis using mt [OF Some, of rt] mt_ok_type_owned [OF _ own] by simp
    qed
    note t = typed [of "?has F_pMediaType \<and> pp_dwSampleFlags p AND Sample_TypeChanged \<noteq> 0" "the (pp_media p)" ?has p, OF this]
    show ?thesis
    proof (cases "fends F_cbData \<le> cb \<and> \<not> (?cb > n \<or> pp_cbData p > n) \<and> props_refused ?has p s = None")
      case False
      then show ?thesis
        using same Some by (auto simp: Sample_SetProperties_def Let_def split: option.split)
    next
      case True
      then show ?thesis using t Some by (simp add: Sample_SetProperties_def Let_def)
    qed
  qed
qed

text \<open>Everything the holder of a sample can do to it.\<close>

datatype sample_op =
    S_Time "u64 option" "u64 option" | S_MediaTime "u64 option" "u64 option"
  | S_SyncPoint bool | S_Discontinuity bool | S_Preroll bool
  | S_Length int | S_Pointer "int option" int
  | S_Type "mem option" "mem option" "am_media_type option"
  | S_Properties "props_field \<Rightarrow> nat" nat "mem option" "mem option" nat "sample_props option"
  | S_AddRef | S_Release

fun sample_step :: "sample_op \<Rightarrow> cmedia_sample \<times> heap \<Rightarrow> (cmedia_sample \<times> heap) option" where
  "sample_step (S_Time a b) (s, h) = Some (snd (Sample_SetTime a b s), h)"
| "sample_step (S_MediaTime a b) (s, h) = Some (snd (Sample_SetMediaTime a b s), h)"
| "sample_step (S_SyncPoint b) (s, h) = Some (snd (Sample_SetSyncPoint b s), h)"
| "sample_step (S_Discontinuity b) (s, h) = Some (snd (Sample_SetDiscontinuity b s), h)"
| "sample_step (S_Preroll b) (s, h) = Some (snd (Sample_SetPreroll b s), h)"
| "sample_step (S_Length n) (s, h) = Some (snd (Sample_SetActualDataLength n s), h)"
| "sample_step (S_Pointer p n) (s, h) = Some (snd (Sample_SetPointer p n s), h)"
| "sample_step (S_Type a1 a2 mt) (s, h) = map_option snd (Sample_SetMediaType a1 a2 mt s h)"
| "sample_step (S_Properties fends n a1 a2 cb pp) (s, h) = map_option snd (Sample_SetProperties fends n a1 a2 cb pp s h)"
| "sample_step S_AddRef (s, h) = Some (snd (Sample_AddRef s), h)"
| "sample_step S_Release (s, h) = map_option (\<lambda>(_, _, s1, h1). (s1, h1)) (Sample_Release s h)"

text \<open>The media types passed in are other live ones.\<close>

fun sample_proper :: "heap \<Rightarrow> sample_op \<Rightarrow> bool" where
  "sample_proper h0 (S_Type a1 a2 (Some mt)) = mt_ok h0 mt"
| "sample_proper h0 (S_Properties fends n a1 a2 cb (Some p)) = (case pp_media p of None \<Rightarrow> True | Some mt \<Rightarrow> mt_ok h0 mt)"
| "sample_proper h0 _ = True"

lemma keeps_type:
  "sample_inv h0 s h \<Longrightarrow> sample_inv h0 (snd (Sample_SetTime a b s)) h"
  "sample_inv h0 s h \<Longrightarrow> sample_inv h0 (snd (Sample_SetMediaTime a b s)) h"
  "sample_inv h0 s h \<Longrightarrow> sample_inv h0 (snd (Sample_SetSyncPoint c s)) h"
  "sample_inv h0 s h \<Longrightarrow> sample_inv h0 (snd (Sample_SetDiscontinuity c s)) h"
  "sample_inv h0 s h \<Longrightarrow> sample_inv h0 (snd (Sample_SetPreroll c s)) h"
  "sample_inv h0 s h \<Longrightarrow> sample_inv h0 (snd (Sample_SetActualDataLength n s)) h"
  "sample_inv h0 s h \<Longrightarrow> sample_inv h0 (snd (Sample_SetPointer p n s)) h"
  "sample_inv h0 s h \<Longrightarrow> sample_inv h0 (snd (Sample_AddRef s)) h"
  by (simp_all add: sample_inv_def Sample_SetTime_def Sample_SetMediaTime_def Sample_SetSyncPoint_def
      Sample_SetDiscontinuity_def Sample_SetPreroll_def Sample_PutFlag_def Sample_SetActualDataLength_def
      Sample_SetPointer_def Sample_AddRef_def flag_defs mask_simps split: option.split)

lemma sample_step_total:
  assumes "sample_proper h0 op" and i: "sample_inv h0 s h"
  shows "\<exists>s' h'. sample_step op (s, h) = Some (s', h') \<and> sample_inv h0 s' h'"
proof (cases op)
  case (S_Type a1 a2 mt)
  then show ?thesis using assms(1) SetMediaType_inv [OF i, of mt a1 a2] by (cases mt) auto
next
  case (S_Properties fends n a1 a2 cb pp)
  then show ?thesis using assms(1) SetProperties_inv [OF i, of pp fends n a1 a2 cb] by fastforce
next
  case S_Release
  then show ?thesis using Release_inv [OF i] by auto
qed (use keeps_type [OF i] in simp_all)

interpretation media_sample: fault_free sample_step "sample_proper h0" "\<lambda>x. sample_inv h0 (fst x) (snd x)" for h0
proof
  fix op and x :: "cmedia_sample \<times> heap"
  assume "sample_proper h0 op" and "sample_inv h0 (fst x) (snd x)"
  then show "\<exists>x'. sample_step op x = Some x' \<and> sample_inv h0 (fst x') (snd x')"
    using sample_step_total [of h0 op "fst x" "snd x"] by auto
qed

lemma new_sample_inv: "heap_ok h \<Longrightarrow> sample_inv h (fst (new_sample junk p n hr)) h"
  by (simp add: sample_inv_def new_sample_def type_owned_self)

section \<open>Properties\<close>

text \<open>A 64-bit difference survives being kept in 32 bits when it lies in their range.\<close>

lemma narrowed: "(scast (ucast d :: u32) = (d :: u64)) \<longleftrightarrow> - (2 ^ 31) \<le> sint d \<and> sint d < 2 ^ 31"
proof -
  have "sint (ucast d :: u32) = signed_take_bit 31 (sint d)"
    by (simp add: signed_ucast_eq uint_sint signed_take_bit_take_bit)
  then have "sint (scast (ucast d :: u32) :: u64) = signed_take_bit 31 (sint d)"
    by (simp add: signed_scast_eq)
  moreover have "x = y \<longleftrightarrow> sint x = sint y" for x y :: u64 by (rule word_eq_iff_signed)
  ultimately show ?thesis by (simp add: signed_take_bit_int_eq_self_iff)
qed

text \<open>A sample never leaks or misuses its media type. Whatever its holder does to a new
  sample, with any allocation refused, no operation touches memory it does not own; giving back
  the last reference leaves the sample with no flag set and no media type, and like deleting the
  sample it leaves the heap's structs and blocks as they were before the sample was built.\<close>

theorem samples_own_their_media_type:
  assumes "heap_ok h0" and "list_all (sample_proper h0) ops"
  shows "\<exists>s h h1. opt_run sample_step ops (fst (new_sample junk p n hr), h0) = Some (s, h)
    \<and> delete_sample s h = Some h1 \<and> hmt h1 = hmt h0 \<and> hblk h1 = hblk h0
    \<and> (m_cRef s = 1 \<longrightarrow> (\<exists>s2 h2. Sample_Release s h = Some (0, True, s2, h2) \<and> m_dwFlags s2 = 0
         \<and> m_pMediaType s2 = None \<and> hmt h2 = hmt h0 \<and> hblk h2 = hblk h0))"
proof -
  obtain s h where r: "opt_run sample_step ops (fst (new_sample junk p n hr), h0) = Some (s, h)" "sample_inv h0 s h"
    using media_sample.run_total [OF assms(2), of "(fst (new_sample junk p n hr), h0)"] new_sample_inv [OF assms(1)]
    by auto
  obtain h1 where h1: "delete_sample s h = Some h1" "type_owned h0 None h1"
    using Delete_owned [of h0 "m_pMediaType s" h None h] r(2) type_owned_self type_owned_ok
    by (auto simp: sample_inv_def delete_sample_def)
  obtain m fin s2 h2 where s2: "Sample_Release s h = Some (m, fin, s2, h2)" "sample_inv h0 s2 h2" "m = m_cRef s - 1"
    "fin = (m = 0)" "fin \<longrightarrow> m_pMediaType s2 = None \<and> m_dwFlags s2 = 0"
    using Release_inv [OF r(2)] by blast
  then have "m_cRef s = 1 \<longrightarrow> (\<exists>s2 h2. Sample_Release s h = Some (0, True, s2, h2) \<and> m_dwFlags s2 = 0
         \<and> m_pMediaType s2 = None \<and> hmt h2 = hmt h0 \<and> hblk h2 = hblk h0)"
    by (auto simp: sample_inv_def type_owned_def)
  then show ?thesis using r(1) h1 by (auto simp: type_owned_def)
qed

definition blank_sample :: cmedia_sample where
  "blank_sample = \<lparr>m_dwFlags = 0, m_dwTypeSpecificFlags = 0, m_pBuffer = Some 4096, m_lActual = 512, m_cbBuffer = 512,
     m_Start = 0, m_End = 0, m_MediaStart = 0, m_MediaEnd = 0, m_pMediaType = None, m_dwStreamId = 0, m_cRef = 0\<rparr>"

theorem samples_own_their_media_type_witness:
  "\<exists>s h h1. opt_run sample_step [S_AddRef, S_Type (Some (\<lambda>_. 0)) (Some (\<lambda>_. 0)) (Some demo_mt), S_Type None None (Some demo_mt)]
      (fst (new_sample blank_sample (Some 4096) 512 S_OK), demo_heap) = Some (s, h)
    \<and> delete_sample s h = Some h1 \<and> hmt h1 = hmt demo_heap \<and> hblk h1 = hblk demo_heap"
  using samples_own_their_media_type [OF demo_mt_ok(1), of "[S_AddRef, S_Type (Some (\<lambda>_. 0)) (Some (\<lambda>_. 0)) (Some demo_mt), S_Type None None (Some demo_mt)]"]
    demo_mt_ok(2) by force

text \<open>Times come back as they were set. A start and a stop time are returned exactly; with
  only a start time the stop time is reported missing and one unit later; without either the
  sample has no time. Media times come back exactly as long as the stop is within the range of a
  32-bit difference from the start, and are independent of the stream times.\<close>

theorem sample_times_round_trip:
  "Sample_GetTime (snd (Sample_SetTime (Some a) (Some b) s)) = (S_OK, Some (a, b))
   \<and> Sample_GetTime (snd (Sample_SetTime (Some a) None s)) = (VFW_S_NO_STOP_TIME, Some (a, a + 1))
   \<and> Sample_GetTime (snd (Sample_SetTime None x s)) = (VFW_E_SAMPLE_TIME_NOT_SET, None)
   \<and> Sample_GetMediaTime (snd (Sample_SetMediaTime (Some c) (Some (c + d)) s))
       = (S_OK, Some (c, c + scast (ucast d :: u32)))
   \<and> (scast (ucast d :: u32) = d) = (- (2 ^ 31) \<le> sint d \<and> sint d < 2 ^ 31)
   \<and> Sample_GetMediaTime (snd (Sample_SetTime x y s)) = Sample_GetMediaTime s
   \<and> Sample_GetTime (snd (Sample_SetMediaTime x y s)) = Sample_GetTime s"
proof -
  have "Sample_GetMediaTime (snd (Sample_SetTime x y s)) = Sample_GetMediaTime s"
    "Sample_GetTime (snd (Sample_SetMediaTime x y s)) = Sample_GetTime s"
    by (auto simp: Sample_GetMediaTime_def Sample_SetTime_def Sample_GetTime_def Sample_SetMediaTime_def
        flag_defs mask_simps split: option.split)
  then show ?thesis
    by (simp add: Sample_GetTime_def Sample_SetTime_def Sample_GetMediaTime_def Sample_SetMediaTime_def
        narrowed flag_defs mask_simps)
qed

lemma refused_unchanged:
  "Sample_SetProperties fends n a1 a2 cb pp s h = Some (hr, s2, h2) \<Longrightarrow> s2 = s \<or> hr = S_OK"
  by (auto simp: Sample_SetProperties_def Let_def split: if_splits option.splits Option.bind_splits)

text \<open>\<open>GetActualDataLength\<close> can be trusted only until someone sets the properties as a whole.
  \<open>SetActualDataLength\<close> and \<open>SetPointer\<close> keep the length between zero and the buffer's size.
  \<open>SetProperties\<close> changes nothing when it refuses; but it compares the new length only with a
  buffer size that the caller states, so a struct that is too short to state one sets any length,
  beyond the buffer or negative, and reports success.\<close>

theorem set_properties_trusts_the_length:
  assumes "0 \<le> m_lActual s" and "m_lActual s \<le> m_cbBuffer s"
    and "fends F_cbData \<le> cb" and "fends F_dwSampleFlags \<le> cb" and "fends F_lActual \<le> cb"
    and "cb < fends F_cbBuffer" and "cb < fends F_pbBuffer" and "cb \<le> n"
    and "pp_cbData p = cb" and "pp_dwSampleFlags p = 0" and "pp_media p = None"
  shows "0 \<le> m_lActual (snd (Sample_SetActualDataLength k s)) \<and> m_lActual (snd (Sample_SetActualDataLength k s)) \<le> m_cbBuffer s
    \<and> 0 \<le> m_lActual (snd (Sample_SetPointer b k s))
    \<and> m_lActual (snd (Sample_SetPointer b k s)) \<le> m_cbBuffer (snd (Sample_SetPointer b k s))
    \<and> (\<exists>s1 h1. Sample_SetProperties fends n a1 a2 cb (Some p) s h = Some (S_OK, s1, h1)
      \<and> m_lActual s1 = pp_lActual p \<and> m_cbBuffer s1 = m_cbBuffer s)
    \<and> (Sample_SetProperties fends n a1 a2 cb2 pp2 s h = Some (hr, s2, h2) \<longrightarrow> s2 = s \<or> hr = S_OK)"
proof -
  let ?has = "\<lambda>f. fends f \<le> cb"
  have r: "props_refused ?has p s = None"
    using assms(6-11) by (simp add: props_refused_def)
  have a: "m_lActual (props_assign ?has p s) = pp_lActual p" "m_cbBuffer (props_assign ?has p s) = m_cbBuffer s"
    using assms(5) by (simp_all add: props_assign_def Let_def)
  have "\<exists>s1 h1. Sample_SetProperties fends n a1 a2 cb (Some p) s h = Some (S_OK, s1, h1)
      \<and> m_lActual s1 = pp_lActual p \<and> m_cbBuffer s1 = m_cbBuffer s"
    using assms(3,8-10) r a by (simp add: Sample_SetProperties_def Let_def)
  then show ?thesis
    using assms(1,2) refused_unchanged by (simp add: Sample_SetActualDataLength_def Sample_SetPointer_def)
qed

text \<open>The layout of the struct in 64-bit programs.\<close>

fun sdk_fends :: "props_field \<Rightarrow> nat" where
  "sdk_fends F_cbData = 4" | "sdk_fends F_dwTypeSpecificFlags = 8" | "sdk_fends F_dwSampleFlags = 12"
| "sdk_fends F_lActual = 16" | "sdk_fends F_tStart = 24" | "sdk_fends F_tStop = 32" | "sdk_fends F_dwStreamId = 36"
| "sdk_fends F_pMediaType = 48" | "sdk_fends F_pbBuffer = 56" | "sdk_fends F_cbBuffer = 60"

theorem set_properties_trusts_the_length_witness:
  "\<exists>s1 h1. Sample_SetProperties sdk_fends 64 None None 16
     (Some \<lparr>pp_cbData = 16, pp_dwTypeSpecificFlags = 0, pp_dwSampleFlags = 0, pp_lActual = 1000000, pp_tStart = 0,
        pp_tStop = 0, pp_dwStreamId = 0, pp_media = None, pp_pbBuffer = None, pp_cbBuffer = 0\<rparr>) blank_sample empty_heap
     = Some (S_OK, s1, h1) \<and> m_lActual s1 = 1000000 \<and> m_cbBuffer s1 = 512"
  using set_properties_trusts_the_length [of blank_sample sdk_fends 16 64
      "\<lparr>pp_cbData = 16, pp_dwTypeSpecificFlags = 0, pp_dwSampleFlags = 0, pp_lActual = 1000000, pp_tStart = 0,
        pp_tStop = 0, pp_dwStreamId = 0, pp_media = None, pp_pbBuffer = None, pp_cbBuffer = 0\<rparr>" 0 None None None empty_heap]
  by (simp add: blank_sample_def)

end
