(* ===== verification/Allocator.thy ===== *)
theory Allocator
  imports MediaSample VideoFormat
begin

text \<open>
  The memory allocator of the DirectShow base classes (CBaseAllocator and CMemAllocator in
  baseclasses/amfilter.cpp and amfilter.h), which owns the samples a pin fills: one block of
  memory cut into buffers, a free list, lazy waiting on a semaphore, and a decommit that
  completes when the last sample comes back.

  A sample is a number, its place in the block; the free list, linked through the samples'
  private \<open>m_pNext\<close>, is the list of these numbers from its head. What the operating system
  answers to an allocation is an argument. Each definition is one critical section of the
  allocator's lock; threads interleave between them in the step relation further below.
\<close>

unbundle bit_operations_syntax

section \<open>The allocator\<close>

text \<open>Calls on the client's notification object.\<close>

datatype notify_call = N_AddRef nat | N_Release nat | N_NotifyRelease nat

text \<open>
  \<open>sem_count\<close> is the count of the semaphore \<open>m_hSem\<close>; \<open>m_pBlock\<close> is CMemAllocator's \<open>m_pBuffer\<close>
  with the size of its block; \<open>own_refs\<close> counts the references the allocator takes on itself.
\<close>

record allocator =
  m_lFree :: "nat list"
  samples :: "nat \<Rightarrow> cmedia_sample option"
  sem_count :: nat
  m_lWaiting :: nat
  m_lCount :: int
  m_lAllocated :: nat
  m_lSize :: int
  m_lAlignment :: int
  m_lPrefix :: int
  m_bChanged :: bool
  m_bCommitted :: bool
  m_bDecommitInProgress :: bool
  m_pNotify :: "nat option"
  notify_log :: "notify_call list"
  m_pBlock :: "(int \<times> int) option"
  own_refs :: int

definition new_allocator :: allocator where
  "new_allocator = \<lparr>m_lFree = [], samples = (\<lambda>_. None), sem_count = 0, m_lWaiting = 0, m_lCount = 0,
     m_lAllocated = 0, m_lSize = 0, m_lAlignment = 0, m_lPrefix = 0, m_bChanged = False, m_bCommitted = False,
     m_bDecommitInProgress = False, m_pNotify = None, notify_log = [], m_pBlock = None, own_refs = 0\<rparr>"

definition create_allocator :: "bool \<Rightarrow> hresult \<Rightarrow> hresult \<times> allocator" where
  "create_allocator semaphore hr = (if semaphore then hr else E_OUTOFMEMORY, new_allocator)"

text \<open>Arithmetic on a \<open>LONG\<close> wraps; its remainder takes the sign of the dividend.\<close>

definition long :: "int \<Rightarrow> int" where "long = signed_take_bit 31"

definition c_rem :: "int \<Rightarrow> int \<Rightarrow> int" where "c_rem a b = a - b * quot_toward_zero a b"

definition is_long :: "int \<Rightarrow> bool" where "is_long x \<longleftrightarrow> - (2 ^ 31) \<le> x \<and> x < 2 ^ 31"

definition MAXLONG :: int where "MAXLONG = 0x7FFFFFFF"

section \<open>Properties\<close>

definition agree ::
  "int \<Rightarrow> allocator_properties \<Rightarrow> allocator \<Rightarrow> hresult \<times> allocator_properties option \<times> allocator" where
  "agree sz r A =
    (let A1 = A\<lparr>m_lSize := sz, m_lCount := cBuffers r, m_lAlignment := cbAlign r, m_lPrefix := cbPrefix r,
                m_bChanged := True\<rparr>
     in (S_OK, Some (r\<lparr>cbBuffer := sz\<rparr>), A1))"

definition Base_SetProperties ::
  "allocator_properties \<Rightarrow> allocator \<Rightarrow> hresult \<times> allocator_properties option \<times> allocator" where
  "Base_SetProperties r A =
    (if cbAlign r \<noteq> 1 then (VFW_E_BADALIGN, None, A)
     else if m_bCommitted A then (VFW_E_ALREADY_COMMITTED, None, A)
     else if m_lAllocated A \<noteq> length (m_lFree A) then (VFW_E_BUFFERS_OUTSTANDING, None, A)
     else agree (cbBuffer r) r A)"

text \<open>CMemAllocator's: \<open>granularity\<close> is what \<open>GetSystemInfo\<close> says.\<close>

definition rounded_size :: "allocator_properties \<Rightarrow> int" where
  "rounded_size r =
    (let lSize = long (cbBuffer r + cbPrefix r);
         lRemainder = c_rem lSize (cbAlign r);
         lSize1 = (if lRemainder \<noteq> 0 then long (lSize - lRemainder + cbAlign r) else lSize)
     in long (lSize1 - cbPrefix r))"

definition Mem_SetProperties ::
  "u32 \<Rightarrow> allocator_properties \<Rightarrow> allocator \<Rightarrow> hresult \<times> allocator_properties option \<times> allocator" where
  "Mem_SetProperties granularity r A =
    (if cbAlign r = 0 \<or> granularity AND word_of_int (cbAlign r - 1) \<noteq> 0 then (VFW_E_BADALIGN, None, A)
     else if m_bCommitted A then (VFW_E_ALREADY_COMMITTED, None, A)
     else if length (m_lFree A) < m_lAllocated A then (VFW_E_BUFFERS_OUTSTANDING, None, A)
     else agree (rounded_size r) r A)"

definition Alloc_GetProperties :: "allocator \<Rightarrow> hresult \<times> allocator_properties" where
  "Alloc_GetProperties A = (S_OK, \<lparr>cBuffers = m_lCount A, cbBuffer = m_lSize A, cbAlign = m_lAlignment A,
     cbPrefix = m_lPrefix A\<rparr>)"

definition GetFreeCount :: "allocator \<Rightarrow> hresult \<times> int" where
  "GetFreeCount A = (S_OK, m_lCount A - int (m_lAllocated A) + int (length (m_lFree A)))"

definition SetNotify :: "nat option \<Rightarrow> allocator \<Rightarrow> hresult \<times> allocator" where
  "SetNotify p A =
    (S_OK, A\<lparr>m_pNotify := p, notify_log := notify_log A
       @ (case p of None \<Rightarrow> [] | Some x \<Rightarrow> [N_AddRef x])
       @ (case m_pNotify A of None \<Rightarrow> [] | Some x \<Rightarrow> [N_Release x])\<rparr>)"

section \<open>Waiting\<close>

text \<open>\<open>ReleaseSemaphore\<close> is documented to leave the count alone when it would pass the maximum.\<close>

definition SEM_MAX :: nat where "SEM_MAX = 0x7FFFFFFF"

definition NotifySample :: "allocator \<Rightarrow> allocator" where
  "NotifySample A =
    (if m_lWaiting A \<noteq> 0
     then A\<lparr>sem_count := (if sem_count A + m_lWaiting A \<le> SEM_MAX then sem_count A + m_lWaiting A else sem_count A),
            m_lWaiting := 0\<rparr>
     else A)"

text \<open>
  One pass of the loop in \<open>GetBuffer\<close>, up to the wait. \<open>Must_wait\<close>: the caller goes on to wait
  for the semaphore and then passes through here again.
\<close>

datatype get_result = Got nat | Refused hresult | Must_wait

definition put_sample :: "nat \<Rightarrow> (cmedia_sample \<Rightarrow> cmedia_sample) \<Rightarrow> allocator \<Rightarrow> allocator" where
  "put_sample i f A = A\<lparr>samples := (samples A)(i := map_option f (samples A i))\<rparr>"

definition GetBuffer :: "bool \<Rightarrow> allocator \<Rightarrow> get_result \<times> allocator" where
  "GetBuffer nowait A =
    (if \<not> m_bCommitted A then (Refused VFW_E_NOT_COMMITTED, A)
     else case m_lFree A of
       [] \<Rightarrow> (if nowait then Refused VFW_E_TIMEOUT else Must_wait, A\<lparr>m_lWaiting := m_lWaiting A + 1\<rparr>)
     | i # is \<Rightarrow> (Got i, put_sample i (\<lambda>s. s\<lparr>m_cRef := 1\<rparr>) (A\<lparr>m_lFree := is\<rparr>)))"

definition ReleaseBuffer :: "nat \<Rightarrow> allocator \<Rightarrow> allocator" where
  "ReleaseBuffer i A =
    (let A1 = NotifySample (A\<lparr>m_lFree := i # m_lFree A\<rparr>);
         last = (m_bDecommitInProgress A1 \<and> length (m_lFree A1) = m_lAllocated A1);
         A2 = (if last then A1\<lparr>m_bDecommitInProgress := False\<rparr> else A1);
         A3 = A2\<lparr>notify_log := notify_log A2 @ (case m_pNotify A2 of None \<Rightarrow> [] | Some x \<Rightarrow> [N_NotifyRelease x])\<rparr>
     in if last then A3\<lparr>own_refs := own_refs A3 - 1\<rparr> else A3)"

text \<open>\<open>CMediaSample::Release\<close>, with the way back to the allocator.\<close>

definition Release_sample :: "nat \<Rightarrow> allocator \<Rightarrow> heap \<Rightarrow> (int \<times> allocator \<times> heap) option" where
  "Release_sample i A h = do {
     s \<leftarrow> samples A i;
     (n, fin, s1, h1) \<leftarrow> Sample_Release s h;
     let A1 = put_sample i (\<lambda>_. s1) A;
     Some (n, if fin then ReleaseBuffer i A1 else A1, h1) }"

section \<open>Committing and decommitting\<close>

text \<open>\<open>ReallyFree\<close> deletes the samples on the free list, then the block.\<close>

fun free_samples :: "nat list \<Rightarrow> allocator \<Rightarrow> heap \<Rightarrow> (allocator \<times> heap) option" where
  "free_samples [] A h = Some (A, h)"
| "free_samples (i # is) A h = do {
     s \<leftarrow> samples A i; h1 \<leftarrow> delete_sample s h;
     free_samples is (A\<lparr>m_lFree := is, samples := (samples A)(i := None)\<rparr>) h1 }"

definition ReallyFree :: "allocator \<Rightarrow> heap \<Rightarrow> (allocator \<times> heap) option" where
  "ReallyFree A h = do {
     (A1, h1) \<leftarrow> free_samples (m_lFree A) A h;
     Some (A1\<lparr>m_lAllocated := 0, m_pBlock := None\<rparr>, h1) }"

definition Base_Alloc :: "allocator \<Rightarrow> hresult" where
  "Base_Alloc A =
    (if m_lCount A \<le> 0 \<or> m_lSize A \<le> 0 \<or> m_lAlignment A \<le> 0 then VFW_E_SIZENOTSET
     else if \<not> m_bChanged A then S_FALSE else S_OK)"

text \<open>
  The loop that makes the samples: \<open>granted\<close> of its \<open>new\<close> succeed, \<open>junk\<close> is what their memory
  held. The second number is how many are still to be made.
\<close>

fun create_samples ::
  "(nat \<Rightarrow> cmedia_sample) \<Rightarrow> nat \<Rightarrow> nat \<Rightarrow> int \<Rightarrow> int \<Rightarrow> allocator \<Rightarrow> hresult \<times> allocator" where
  "create_samples junk granted 0 pNext lAlignedSize A = (S_OK, A)"
| "create_samples junk 0 (Suc n) pNext lAlignedSize A = (E_OUTOFMEMORY, A)"
| "create_samples junk (Suc granted) (Suc n) pNext lAlignedSize A =
    (let i = m_lAllocated A;
         s = fst (new_sample (junk i) (Some (pNext + m_lPrefix A)) (m_lSize A) S_OK)
     in create_samples junk granted n (pNext + lAlignedSize) lAlignedSize
          (A\<lparr>samples := (samples A)(i \<mapsto> s), m_lFree := i # m_lFree A, m_lAllocated := i + 1\<rparr>))"

text \<open>The size of one buffer with its prefix, rounded up: refused when a \<open>LONG\<close> wraps.\<close>

definition aligned_size :: "allocator \<Rightarrow> int option" where
  "aligned_size A =
    (let lAlignedSize = long (m_lSize A + m_lPrefix A)
     in if lAlignedSize < m_lSize A then None
        else if m_lAlignment A > 1 \<and> c_rem lAlignedSize (m_lAlignment A) \<noteq> 0
        then (let lNewSize = long (lAlignedSize + m_lAlignment A - c_rem lAlignedSize (m_lAlignment A))
              in if lNewSize < lAlignedSize then None else Some lNewSize)
        else Some lAlignedSize)"

record alloc_answers =
  a_block :: "int option"
  a_news :: nat
  a_junk :: "nat \<Rightarrow> cmedia_sample"

definition Mem_Alloc :: "alloc_answers \<Rightarrow> allocator \<Rightarrow> heap \<Rightarrow> (hresult \<times> allocator \<times> heap) option" where
  "Mem_Alloc a A h =
    (let hr = Base_Alloc A
     in if failed hr then Some (hr, A, h)
        else if hr = S_FALSE then Some (S_OK, A, h)
        else do {
          (A1, h1) \<leftarrow> (if m_pBlock A \<noteq> None then ReallyFree A h else Some (A, h));
          if m_lSize A1 < 0 \<or> m_lPrefix A1 < 0 \<or> m_lCount A1 < 0 then Some (E_OUTOFMEMORY, A1, h1)
          else case aligned_size A1 of
            None \<Rightarrow> Some (E_OUTOFMEMORY, A1, h1)
          | Some lAlignedSize \<Rightarrow>
              (let lToAllocate = m_lCount A1 * lAlignedSize
               in if lToAllocate > MAXLONG then Some (E_OUTOFMEMORY, A1, h1)
                  else case a_block a of
                    None \<Rightarrow> Some (E_OUTOFMEMORY, A1, h1)
                  | Some p \<Rightarrow>
                      (case create_samples (a_junk a) (a_news a) (nat (m_lCount A1) - m_lAllocated A1) p lAlignedSize
                              (A1\<lparr>m_pBlock := Some (p, lToAllocate)\<rparr>) of
                         (hr1, A2) \<Rightarrow>
                           if failed hr1 then Some (hr1, A2, h1)
                           else Some (S_OK, A2\<lparr>m_bChanged := False\<rparr>, h1))) })"

definition Commit :: "alloc_answers \<Rightarrow> allocator \<Rightarrow> heap \<Rightarrow> (hresult \<times> allocator \<times> heap) option" where
  "Commit a A h =
    (if m_bCommitted A then Some (S_OK, A, h)
     else
      (let A1 = A\<lparr>m_bCommitted := True\<rparr>
       in if m_bDecommitInProgress A1 then Some (S_OK, A1\<lparr>m_bDecommitInProgress := False\<rparr>, h)
          else do {
            (hr, A2, h1) \<leftarrow> Mem_Alloc a A1 h;
            if failed hr then Some (hr, A2\<lparr>m_bCommitted := False\<rparr>, h1)
            else Some (S_OK, A2\<lparr>own_refs := own_refs A2 + 1\<rparr>, h1) }))"

definition Decommit :: "allocator \<Rightarrow> hresult \<times> allocator" where
  "Decommit A =
    (if \<not> m_bCommitted A \<and> \<not> m_bDecommitInProgress A then (S_OK, A)
     else
      (let A1 = A\<lparr>m_bCommitted := False\<rparr>
       in if length (m_lFree A1) < m_lAllocated A1
          then (S_OK, NotifySample (A1\<lparr>m_bDecommitInProgress := True\<rparr>))
          else (S_OK, (NotifySample (A1\<lparr>m_bDecommitInProgress := False\<rparr>))\<lparr>own_refs := own_refs A1 - 1\<rparr>)))"

definition delete_allocator :: "allocator \<Rightarrow> heap \<Rightarrow> (allocator \<times> heap) option" where
  "delete_allocator A h = do {
     (A1, h1) \<leftarrow> ReallyFree (snd (Decommit A)) h;
     Some (A1\<lparr>notify_log := notify_log A1 @ (case m_pNotify A1 of None \<Rightarrow> [] | Some x \<Rightarrow> [N_Release x])\<rparr>, h1) }"

section \<open>Clients of the allocator\<close>

text \<open>
  Any number of threads use the allocator. \<open>waiting\<close> counts those that \<open>GetBuffer\<close> told to wait
  and that have not yet taken a count from the semaphore; \<open>timeouts\<close> counts the calls with
  \<open>AM_GBF_NOWAIT\<close> that came back empty-handed. A client touches a sample only while it holds a
  reference; the operations it may use leave the count and the buffer alone.
\<close>

record world =
  alloc :: allocator
  wheap :: heap
  waiting :: nat
  timeouts :: nat

fun client_op :: "sample_op \<Rightarrow> bool" where
  "client_op S_AddRef = False"
| "client_op S_Release = False"
| "client_op (S_Pointer _ _) = False"
| "client_op _ = True"

definition sample_held :: "nat \<Rightarrow> allocator \<Rightarrow> bool" where
  "sample_held i A \<longleftrightarrow> (\<exists>s. samples A i = Some s \<and> m_cRef s \<ge> 1)"

text \<open>
  The bound says that fewer than \<open>SEM_MAX\<close> waits and time-outs are outstanding or past: the
  count of a Windows semaphore goes no further.
\<close>

inductive alloc_step :: "world \<Rightarrow> world \<Rightarrow> bool" where
  get: "GetBuffer nowait (alloc w) = (r, A) \<Longrightarrow> waiting w + timeouts w < SEM_MAX \<Longrightarrow>
    alloc_step w (w\<lparr>alloc := A, waiting := waiting w + (if r = Must_wait then 1 else 0),
      timeouts := timeouts w + (if r = Refused VFW_E_TIMEOUT then 1 else 0)\<rparr>)"
| wake: "waiting w > 0 \<Longrightarrow> sem_count (alloc w) > 0 \<Longrightarrow>
    alloc_step w (w\<lparr>alloc := (alloc w)\<lparr>sem_count := sem_count (alloc w) - 1\<rparr>, waiting := waiting w - 1\<rparr>)"
| edit: "sample_held i (alloc w) \<Longrightarrow> client_op op \<Longrightarrow> samples (alloc w) i = Some s \<Longrightarrow>
    sample_step op (s, wheap w) = Some (s1, h1) \<Longrightarrow>
    alloc_step w (w\<lparr>alloc := put_sample i (\<lambda>_. s1) (alloc w), wheap := h1\<rparr>)"
| addref: "sample_held i (alloc w) \<Longrightarrow>
    alloc_step w (w\<lparr>alloc := put_sample i (\<lambda>s. snd (Sample_AddRef s)) (alloc w)\<rparr>)"
| release: "sample_held i (alloc w) \<Longrightarrow> Release_sample i (alloc w) (wheap w) = Some (n, A, h1) \<Longrightarrow>
    alloc_step w (w\<lparr>alloc := A, wheap := h1\<rparr>)"
| properties: "list_all is_long [cBuffers r, cbBuffer r, cbAlign r, cbPrefix r] \<Longrightarrow>
    Mem_SetProperties g r (alloc w) = (hr, act, A) \<Longrightarrow> alloc_step w (w\<lparr>alloc := A\<rparr>)"
| commit: "Commit a (alloc w) (wheap w) = Some (hr, A, h1) \<Longrightarrow> alloc_step w (w\<lparr>alloc := A, wheap := h1\<rparr>)"
| decommit: "Decommit (alloc w) = (hr, A) \<Longrightarrow> alloc_step w (w\<lparr>alloc := A\<rparr>)"
| notify: "SetNotify p (alloc w) = (hr, A) \<Longrightarrow> alloc_step w (w\<lparr>alloc := A\<rparr>)"

inductive alloc_reachable :: "world \<Rightarrow> bool" where
  start: "alloc_reachable \<lparr>alloc = new_allocator, wheap = h, waiting = 0, timeouts = 0\<rparr>"
| step: "alloc_reachable w \<Longrightarrow> alloc_step w w' \<Longrightarrow> alloc_reachable w'"

inductive_cases alloc_stepE: "alloc_step w w'"

section \<open>The invariant\<close>

text \<open>Which samples exist and where they are.\<close>

definition type_flag_ok :: "cmedia_sample \<Rightarrow> bool" where
  "type_flag_ok s \<longleftrightarrow> (m_dwFlags s AND Sample_TypeChanged \<noteq> 0) = (m_pMediaType s \<noteq> None)"

definition samples_ok :: "allocator \<Rightarrow> bool" where
  "samples_ok A \<longleftrightarrow> distinct (m_lFree A) \<and> (\<forall>i. samples A i \<noteq> None \<longleftrightarrow> i < m_lAllocated A)
     \<and> (\<forall>i s. samples A i = Some s \<longrightarrow> 0 \<le> m_cRef s \<and> (m_cRef s = 0 \<longleftrightarrow> i \<in> set (m_lFree A))
          \<and> type_flag_ok s \<and> (m_cRef s = 0 \<longrightarrow> m_pMediaType s = None))
     \<and> set (m_lFree A) \<subseteq> {..<m_lAllocated A}"

text \<open>The states of commitment.\<close>

definition phase_ok :: "allocator \<Rightarrow> bool" where
  "phase_ok A \<longleftrightarrow> \<not> (m_bCommitted A \<and> m_bDecommitInProgress A)
     \<and> (m_bDecommitInProgress A \<longrightarrow> length (m_lFree A) < m_lAllocated A)
     \<and> (\<not> m_bCommitted A \<and> \<not> m_bDecommitInProgress A \<longrightarrow> length (m_lFree A) = m_lAllocated A)
     \<and> own_refs A = (if m_bCommitted A \<or> m_bDecommitInProgress A then 1 else 0)"

text \<open>The two statements in the class's comment on lazy signalling.\<close>

definition signals_ok :: "world \<Rightarrow> bool" where
  "signals_ok w \<longleftrightarrow> (m_lFree (alloc w) \<noteq> [] \<longrightarrow> m_lWaiting (alloc w) = 0)
     \<and> (\<not> m_bCommitted (alloc w) \<longrightarrow> m_lWaiting (alloc w) = 0)
     \<and> m_lWaiting (alloc w) + sem_count (alloc w) = waiting w + timeouts w
     \<and> waiting w + timeouts w \<le> SEM_MAX"

text \<open>What was agreed is what is there, once it is committed.\<close>

definition agreed_ok :: "allocator \<Rightarrow> bool" where
  "agreed_ok A \<longleftrightarrow> (\<not> m_bChanged A \<longrightarrow> int (m_lAllocated A) = m_lCount A)
     \<and> (m_bCommitted A \<or> m_bDecommitInProgress A \<longrightarrow> \<not> m_bChanged A \<and> 0 < m_lCount A)
     \<and> is_long (m_lSize A) \<and> is_long (m_lPrefix A)"

text \<open>The layout of the buffers in the block.\<close>

definition laid_out :: "(nat \<Rightarrow> cmedia_sample option) \<Rightarrow> int \<Rightarrow> int \<Rightarrow> int \<Rightarrow> int \<Rightarrow> bool" where
  "laid_out S base step sz pre \<longleftrightarrow> (\<forall>i s. S i = Some s \<longrightarrow> m_pBuffer s = Some (base + int i * step + pre) \<and> m_cbBuffer s = sz)"

definition layout_ok :: "allocator \<Rightarrow> bool" where
  "layout_ok A \<longleftrightarrow> (m_lAllocated A = 0 \<or>
     (\<exists>base bytes step sz pre. m_pBlock A = Some (base, bytes) \<and> 0 \<le> pre \<and> 0 < sz \<and> pre + sz \<le> step
        \<and> int (m_lAllocated A) * step \<le> bytes
        \<and> laid_out (samples A) base step sz pre
        \<and> (\<not> m_bChanged A \<longrightarrow> sz = m_lSize A \<and> pre = m_lPrefix A)))"

definition alloc_inv :: "world \<Rightarrow> bool" where
  "alloc_inv w \<longleftrightarrow> samples_ok (alloc w) \<and> phase_ok (alloc w) \<and> agreed_ok (alloc w)
     \<and> layout_ok (alloc w) \<and> signals_ok w"

lemma NotifySample_simps [simp]:
  "m_lFree (NotifySample A) = m_lFree A" "samples (NotifySample A) = samples A" "m_lCount (NotifySample A) = m_lCount A"
  "m_lAllocated (NotifySample A) = m_lAllocated A" "m_lSize (NotifySample A) = m_lSize A"
  "m_lPrefix (NotifySample A) = m_lPrefix A" "m_bChanged (NotifySample A) = m_bChanged A"
  "m_bCommitted (NotifySample A) = m_bCommitted A" "m_bDecommitInProgress (NotifySample A) = m_bDecommitInProgress A"
  "m_pBlock (NotifySample A) = m_pBlock A" "own_refs (NotifySample A) = own_refs A" "m_lWaiting (NotifySample A) = 0"
  by (simp_all add: NotifySample_def)

lemma NotifySample_count:
  "m_lWaiting A + sem_count A \<le> SEM_MAX \<Longrightarrow> sem_count (NotifySample A) = m_lWaiting A + sem_count A"
  by (simp add: NotifySample_def)

lemma put_sample_simps [simp]:
  "m_lFree (put_sample i f A) = m_lFree A" "samples (put_sample i f A) = (samples A)(i := map_option f (samples A i))"
  "m_lCount (put_sample i f A) = m_lCount A" "m_lAllocated (put_sample i f A) = m_lAllocated A"
  "m_lSize (put_sample i f A) = m_lSize A" "m_lPrefix (put_sample i f A) = m_lPrefix A"
  "m_bChanged (put_sample i f A) = m_bChanged A" "m_bCommitted (put_sample i f A) = m_bCommitted A"
  "m_bDecommitInProgress (put_sample i f A) = m_bDecommitInProgress A" "m_pBlock (put_sample i f A) = m_pBlock A"
  "own_refs (put_sample i f A) = own_refs A" "m_lWaiting (put_sample i f A) = m_lWaiting A"
  "sem_count (put_sample i f A) = sem_count A"
  by (simp_all add: put_sample_def)

lemma samples_ok_parts:
  assumes "samples_ok A"
  shows "distinct (m_lFree A)" "samples A i = Some s \<Longrightarrow> i < m_lAllocated A" "i < m_lAllocated A \<Longrightarrow> \<exists>s. samples A i = Some s"
    "samples A i = Some s \<Longrightarrow> 0 \<le> m_cRef s" "samples A i = Some s \<Longrightarrow> (m_cRef s = 0) = (i \<in> set (m_lFree A))"
    "samples A i = Some s \<Longrightarrow> type_flag_ok s" "samples A i = Some s \<Longrightarrow> m_cRef s = 0 \<Longrightarrow> m_pMediaType s = None"
    "i \<in> set (m_lFree A) \<Longrightarrow> i < m_lAllocated A"
  using assms by (auto simp: samples_ok_def)

lemma type_flag_count [simp]: "type_flag_ok (s\<lparr>m_cRef := n\<rparr>) = type_flag_ok s"
  by (simp add: type_flag_ok_def)

lemma free_count:
  assumes "samples_ok A"
  shows "length (m_lFree A) \<le> m_lAllocated A" "length (m_lFree A) = m_lAllocated A \<longleftrightarrow> set (m_lFree A) = {..<m_lAllocated A}"
proof -
  have d: "distinct (m_lFree A)" "set (m_lFree A) \<subseteq> {..<m_lAllocated A}" using assms by (auto simp: samples_ok_def)
  then have c: "card (set (m_lFree A)) = length (m_lFree A)" by (simp add: distinct_card)
  then show "length (m_lFree A) \<le> m_lAllocated A" using card_mono [OF _ d(2)] by simp
  show "length (m_lFree A) = m_lAllocated A \<longleftrightarrow> set (m_lFree A) = {..<m_lAllocated A}"
    using c d(2) card_subset_eq [OF _ d(2)] by auto
qed

lemma layout_cong:
  assumes "layout_ok A" "m_lAllocated B = m_lAllocated A" "m_pBlock B = m_pBlock A" "m_bChanged B = m_bChanged A"
    "m_lSize B = m_lSize A" "m_lPrefix B = m_lPrefix A"
    and "\<And>i s. samples B i = Some s \<Longrightarrow> \<exists>s0. samples A i = Some s0 \<and> m_pBuffer s = m_pBuffer s0 \<and> m_cbBuffer s = m_cbBuffer s0"
  shows "layout_ok B"
proof -
  have "laid_out (samples A) base step sz pre \<Longrightarrow> laid_out (samples B) base step sz pre" for base step sz pre
    using assms(7) by (fastforce simp: laid_out_def)
  then show ?thesis using assms(1) unfolding layout_ok_def assms(2-6) by blast
qed

lemma agreed_cong:
  assumes "agreed_ok A" "m_lAllocated B = m_lAllocated A" "m_bChanged B = m_bChanged A" "m_lCount B = m_lCount A"
    "m_lSize B = m_lSize A" "m_lPrefix B = m_lPrefix A"
    "m_bCommitted B \<or> m_bDecommitInProgress B \<Longrightarrow> m_bCommitted A \<or> m_bDecommitInProgress A"
  shows "agreed_ok B"
  using assms by (auto simp: agreed_ok_def)

section \<open>Every operation keeps the invariant\<close>

lemma GetBuffer_samples:
  assumes "samples_ok A" "GetBuffer nowait A = (r, B)"
  shows "samples_ok B"
proof (cases "m_lFree A")
  case Nil
  then show ?thesis using assms by (auto simp: GetBuffer_def samples_ok_def split: if_splits)
next
  case (Cons i js)
  have "distinct (i # js)" using samples_ok_parts(1) [OF assms(1)] Cons by simp
  then show ?thesis
    using assms Cons
    by (auto simp: GetBuffer_def samples_ok_def put_sample_def split: if_splits)
qed

lemma GetBuffer_frame:
  assumes "GetBuffer nowait A = (r, B)"
  shows "m_lAllocated B = m_lAllocated A" "m_pBlock B = m_pBlock A" "m_bChanged B = m_bChanged A" "m_lSize B = m_lSize A"
    "m_lPrefix B = m_lPrefix A" "m_lCount B = m_lCount A" "m_bCommitted B = m_bCommitted A"
    "m_bDecommitInProgress B = m_bDecommitInProgress A" "own_refs B = own_refs A" "sem_count B = sem_count A"
    "samples B i = Some s \<Longrightarrow> \<exists>s0. samples A i = Some s0 \<and> m_pBuffer s = m_pBuffer s0 \<and> m_cbBuffer s = m_cbBuffer s0"
  using assms by (auto simp: GetBuffer_def split: if_splits list.splits)

lemma GetBuffer_inv:
  assumes "alloc_inv w" "GetBuffer nowait (alloc w) = (r, B)" "waiting w + timeouts w < SEM_MAX"
  shows "alloc_inv (w\<lparr>alloc := B, waiting := waiting w + (if r = Must_wait then 1 else 0),
      timeouts := timeouts w + (if r = Refused VFW_E_TIMEOUT then 1 else 0)\<rparr>)"
proof -
  note i = assms(1) [unfolded alloc_inv_def] and f = GetBuffer_frame [OF assms(2)]
  have "samples_ok B" using GetBuffer_samples [OF _ assms(2)] i by blast
  moreover have "layout_ok B" using i f by (intro layout_cong [of "alloc w" B]) auto
  moreover have "agreed_ok B" using i f by (intro agreed_cong [of "alloc w" B]) auto
  moreover have "phase_ok B"
    using i assms(2) unfolding phase_ok_def by (auto simp: GetBuffer_def split: if_splits list.splits)
  moreover have "signals_ok (w\<lparr>alloc := B, waiting := waiting w + (if r = Must_wait then 1 else 0),
      timeouts := timeouts w + (if r = Refused VFW_E_TIMEOUT then 1 else 0)\<rparr>)"
    using i assms(2,3) unfolding signals_ok_def by (auto simp: GetBuffer_def split: if_splits list.splits)
  ultimately show ?thesis by (simp add: alloc_inv_def)
qed

lemma put_samples_ok:
  assumes "samples_ok A" "samples A i = Some s0" "m_cRef s0 \<ge> 1" "m_cRef (f s0) \<ge> 1" "type_flag_ok (f s0)"
  shows "samples_ok (put_sample i f A)"
proof -
  have n: "i \<notin> set (m_lFree A)" using samples_ok_parts(5) [OF assms(1,2)] assms(3) by auto
  have m: "m_cRef (f s0) \<noteq> 0" "0 \<le> m_cRef (f s0)" using assms(4) by auto
  have "0 \<le> m_cRef s \<and> (m_cRef s = 0 \<longleftrightarrow> j \<in> set (m_lFree A)) \<and> type_flag_ok s \<and> (m_cRef s = 0 \<longrightarrow> m_pMediaType s = None)"
    if "samples (put_sample i f A) j = Some s" for j s
  proof (cases "j = i")
    case True
    then show ?thesis using that assms(2,5) n m by simp
  next
    case False
    then show ?thesis using that assms(1) by (simp add: samples_ok_def)
  qed
  moreover have "samples (put_sample i f A) j \<noteq> None \<longleftrightarrow> j < m_lAllocated A" for j
    using assms(1,2) by (auto simp: samples_ok_def)
  ultimately show ?thesis using assms(1) by (simp add: samples_ok_def)
qed

lemma put_sample_inv:
  assumes "alloc_inv w" "samples (alloc w) i = Some s0" "m_cRef s0 \<ge> 1" "m_cRef (f s0) \<ge> 1" "type_flag_ok (f s0)"
    "m_pBuffer (f s0) = m_pBuffer s0" "m_cbBuffer (f s0) = m_cbBuffer s0"
  shows "alloc_inv (w\<lparr>alloc := put_sample i f (alloc w), wheap := h1\<rparr>)"
proof -
  note i = assms(1) [unfolded alloc_inv_def]
  have "samples_ok (put_sample i f (alloc w))" using i assms(2-5) by (intro put_samples_ok) auto
  moreover have "\<exists>r. samples (alloc w) j = Some r \<and> m_pBuffer s = m_pBuffer r \<and> m_cbBuffer s = m_cbBuffer r"
    if "samples (put_sample i f (alloc w)) j = Some s" for j s
    using that assms(2,6,7) by (cases "j = i") auto
  then have "layout_ok (put_sample i f (alloc w))"
    using i layout_cong [of "alloc w" "put_sample i f (alloc w)"] by simp
  moreover have "agreed_ok (put_sample i f (alloc w))" using i by (simp add: agreed_ok_def)
  moreover have "phase_ok (put_sample i f (alloc w))" using i by (simp add: phase_ok_def)
  ultimately show ?thesis using i by (simp add: alloc_inv_def signals_ok_def)
qed

lemma SetMediaType_keeps:
  assumes "Sample_SetMediaType a1 a2 mt s h = Some (hr, s1, h1)"
  shows "m_cRef s1 = m_cRef s" "m_pBuffer s1 = m_pBuffer s" "m_cbBuffer s1 = m_cbBuffer s" "type_flag_ok s1"
  using assms
  by (auto simp: Sample_SetMediaType_def Let_def type_flag_ok_def flag_defs mask_simps
      split: Option.bind_splits option.splits if_splits)

lemma props_assign_frame:
  "m_cRef (props_assign has p s) = m_cRef s" "m_pBuffer (props_assign has p s) = m_pBuffer s"
  "m_cbBuffer (props_assign has p s) = m_cbBuffer s"
  by (simp_all add: props_assign_def Let_def)

lemma SetProperties_keeps:
  assumes "Sample_SetProperties fends n a1 a2 cb pp s h = Some (hr, s1, h1)" "type_flag_ok s"
  shows "m_cRef s1 = m_cRef s" "m_pBuffer s1 = m_pBuffer s" "m_cbBuffer s1 = m_cbBuffer s" "type_flag_ok s1"
  using assms
  by (auto simp: Sample_SetProperties_def Let_def type_flag_ok_def flag_defs mask_simps props_assign_frame props_assign_keeps
      split: Option.bind_splits option.splits if_splits)

lemma type_flag_inv: "type_flag_ok s' = type_flag_ok s"
  if "m_pMediaType s' = m_pMediaType s" "m_dwFlags s' AND Sample_TypeChanged = m_dwFlags s AND Sample_TypeChanged"
  using that by (simp add: type_flag_ok_def)

lemma client_op_keeps:
  assumes "client_op op" "sample_step op (s, h) = Some (s1, h1)" "type_flag_ok s"
  shows "m_cRef s1 = m_cRef s \<and> m_pBuffer s1 = m_pBuffer s \<and> m_cbBuffer s1 = m_cbBuffer s \<and> type_flag_ok s1"
proof (cases op)
  case (S_Type a1 a2 mt)
  then show ?thesis using assms SetMediaType_keeps by (auto split: option.splits)
next
  case (S_Properties fends n a1 a2 cb pp)
  then show ?thesis using assms SetProperties_keeps by (fastforce split: option.splits)
qed (use assms in \<open>auto simp: Sample_SetTime_def Sample_SetMediaTime_def Sample_SetSyncPoint_def Sample_SetDiscontinuity_def
    Sample_SetPreroll_def Sample_PutFlag_def Sample_SetActualDataLength_def flag_defs mask_simps type_flag_ok_def
    split: option.splits if_splits\<close>)

lemma NotifySample_signals:
  assumes "m_lWaiting A + sem_count A = k" "k \<le> SEM_MAX"
  shows "sem_count (NotifySample A) = k"
  using NotifySample_count [of A] assms by simp

lemma quiet_inv:
  assumes "alloc_inv w" "m_lFree B = m_lFree (alloc w)" "samples B = samples (alloc w)" "m_lCount B = m_lCount (alloc w)"
    "m_lAllocated B = m_lAllocated (alloc w)" "m_lSize B = m_lSize (alloc w)" "m_lPrefix B = m_lPrefix (alloc w)"
    "m_bChanged B = m_bChanged (alloc w)" "m_pBlock B = m_pBlock (alloc w)" "m_bCommitted B = m_bCommitted (alloc w)"
    "m_bDecommitInProgress B = m_bDecommitInProgress (alloc w)" "own_refs B = own_refs (alloc w)"
    "alloc w' = B" "signals_ok w'"
  shows "alloc_inv w'"
  using assms(1,14)
  unfolding alloc_inv_def samples_ok_def phase_ok_def agreed_ok_def layout_ok_def assms(2-13) by blast

lemma wake_inv:
  assumes "alloc_inv w" "waiting w > 0" "sem_count (alloc w) > 0"
  shows "alloc_inv (w\<lparr>alloc := (alloc w)\<lparr>sem_count := sem_count (alloc w) - 1\<rparr>, waiting := waiting w - 1\<rparr>)"
    (is "alloc_inv ?w'")
proof -
  have "signals_ok w" using assms(1) by (simp add: alloc_inv_def)
  then have "signals_ok ?w'" using assms(2,3) unfolding signals_ok_def by auto
  then show ?thesis by (intro quiet_inv [OF assms(1), of "alloc ?w'"]) simp_all
qed

lemma SetNotify_inv:
  assumes "alloc_inv w" "SetNotify p (alloc w) = (hr, B)"
  shows "alloc_inv (w\<lparr>alloc := B\<rparr>)"
proof -
  have "signals_ok w" using assms(1) by (simp add: alloc_inv_def)
  then have "signals_ok (w\<lparr>alloc := B\<rparr>)" using assms(2) unfolding signals_ok_def by (auto simp: SetNotify_def)
  then show ?thesis using assms(2) by (intro quiet_inv [OF assms(1), of B]) (auto simp: SetNotify_def)
qed

lemma Decommit_frame:
  assumes "Decommit A = (hr, B)"
  shows "m_lFree B = m_lFree A" "samples B = samples A" "m_lCount B = m_lCount A" "m_lAllocated B = m_lAllocated A"
    "m_lSize B = m_lSize A" "m_lPrefix B = m_lPrefix A" "m_bChanged B = m_bChanged A" "m_pBlock B = m_pBlock A" "hr = S_OK"
    "\<not> m_bCommitted B"
  using assms by (auto simp: Decommit_def Let_def split: if_splits)

lemma Decommit_inv:
  assumes "alloc_inv w" "Decommit (alloc w) = (hr, B)"
  shows "alloc_inv (w\<lparr>alloc := B\<rparr>)"
proof -
  note i = assms(1) [unfolded alloc_inv_def] and f = Decommit_frame [OF assms(2)]
  have s: "samples_ok B" using i f by (simp add: samples_ok_def)
  have "layout_ok B" using i f by (intro layout_cong [of "alloc w" B]) auto
  moreover have "agreed_ok B"
    using i assms(2) by (intro agreed_cong [of "alloc w" B]) (auto simp: f Decommit_def Let_def split: if_splits)
  moreover have "phase_ok B"
    using i assms(2) free_count(1) [of "alloc w"] unfolding phase_ok_def
    by (auto simp: Decommit_def Let_def split: if_splits)
  moreover have "signals_ok (w\<lparr>alloc := B\<rparr>)"
    using i assms(2) NotifySample_count [of "alloc w"] unfolding signals_ok_def
    by (auto simp: Decommit_def Let_def NotifySample_def split: if_splits)
  ultimately show ?thesis using s by (simp add: alloc_inv_def)
qed

lemma long_is_long: "is_long (long x)"
  using signed_take_bit_int_greater_eq_minus_exp [of 31 x] signed_take_bit_int_less_exp [of 31 x]
  unfolding is_long_def long_def by blast

lemma Mem_SetProperties_inv:
  assumes "alloc_inv w" "is_long (cbPrefix r)" "Mem_SetProperties g r (alloc w) = (hr, act, B)"
  shows "alloc_inv (w\<lparr>alloc := B\<rparr>)"
proof (cases "B = alloc w")
  case True
  then show ?thesis using assms(1) by simp
next
  case False
  then have B: "B = (alloc w)\<lparr>m_lSize := rounded_size r, m_lCount := cBuffers r, m_lAlignment := cbAlign r,
      m_lPrefix := cbPrefix r, m_bChanged := True\<rparr>"
    and n: "\<not> m_bCommitted (alloc w)" "\<not> length (m_lFree (alloc w)) < m_lAllocated (alloc w)"
    using assms(3) by (auto simp: Mem_SetProperties_def agree_def Let_def split: if_splits)
  note i = assms(1) [unfolded alloc_inv_def]
  have "\<not> m_bDecommitInProgress (alloc w)" using i n by (auto simp: phase_ok_def)
  then have "agreed_ok B" using n assms(2) long_is_long by (simp add: B agreed_ok_def rounded_size_def Let_def)
  moreover have "layout_ok B" using i unfolding layout_ok_def by (auto simp: B)
  ultimately show ?thesis
    using i by (simp add: B alloc_inv_def samples_ok_def phase_ok_def signals_ok_def)
qed

lemma edit_inv:
  assumes "alloc_inv w" "sample_held i (alloc w)" "client_op op" "samples (alloc w) i = Some s"
    "sample_step op (s, wheap w) = Some (s1, h1)"
  shows "alloc_inv (w\<lparr>alloc := put_sample i (\<lambda>_. s1) (alloc w), wheap := h1\<rparr>)"
proof -
  have "type_flag_ok s" using assms(1) samples_ok_parts(6) [OF _ assms(4)] by (simp add: alloc_inv_def)
  note k = client_op_keeps [OF assms(3,5) this]
  show ?thesis
    using assms(2,4) k by (intro put_sample_inv [OF assms(1,4)]) (auto simp: sample_held_def)
qed

lemma addref_inv:
  assumes "alloc_inv w" "sample_held i (alloc w)"
  shows "alloc_inv (w\<lparr>alloc := put_sample i (\<lambda>s. snd (Sample_AddRef s)) (alloc w)\<rparr>)"
proof -
  obtain s where s: "samples (alloc w) i = Some s" "m_cRef s \<ge> 1" using assms(2) by (auto simp: sample_held_def)
  have "type_flag_ok s" using assms(1) samples_ok_parts(6) [OF _ s(1)] by (simp add: alloc_inv_def)
  then show ?thesis
    using put_sample_inv [OF assms(1) s, of "\<lambda>s. snd (Sample_AddRef s)" "wheap w"] s(2) by (simp add: Sample_AddRef_def)
qed

lemma Release_keeps:
  assumes "Sample_Release s h = Some (n, fin, s1, h1)" "m_cRef s \<ge> 1" "type_flag_ok s"
  shows "m_cRef s1 = m_cRef s - 1" "m_pBuffer s1 = m_pBuffer s" "m_cbBuffer s1 = m_cbBuffer s" "type_flag_ok s1"
    "fin = (m_cRef s1 = 0)" "fin \<Longrightarrow> m_pMediaType s1 = None"
  using assms
  by (auto simp: Sample_Release_def Let_def Sample_SetMediaType_def type_flag_ok_def
      split: Option.bind_splits if_splits)

lemma back_samples_ok:
  assumes "samples_ok A" "samples A i = Some s0" "m_cRef s0 \<ge> 1" "m_cRef s1 = 0" "m_pMediaType s1 = None" "type_flag_ok s1"
  shows "samples_ok ((put_sample i (\<lambda>_. s1) A)\<lparr>m_lFree := i # m_lFree A\<rparr>)"
proof -
  have n: "i \<notin> set (m_lFree A)" "i < m_lAllocated A"
    using samples_ok_parts(2,5) [OF assms(1,2)] assms(3) by auto
  have "0 \<le> m_cRef s \<and> (m_cRef s = 0 \<longleftrightarrow> j = i \<or> j \<in> set (m_lFree A)) \<and> type_flag_ok s \<and> (m_cRef s = 0 \<longrightarrow> m_pMediaType s = None)"
    if "samples (put_sample i (\<lambda>_. s1) A) j = Some s" for j s
  proof (cases "j = i")
    case True
    then show ?thesis using that assms(2,4,5,6) by simp
  next
    case False
    then show ?thesis using that assms(1) by (simp add: samples_ok_def)
  qed
  moreover have "samples (put_sample i (\<lambda>_. s1) A) j \<noteq> None \<longleftrightarrow> j < m_lAllocated A" for j
    using assms(1,2) by (auto simp: samples_ok_def)
  ultimately show ?thesis using assms(1) n by (simp add: samples_ok_def)
qed

lemma ReleaseBuffer_frame:
  "m_lFree (ReleaseBuffer i A) = i # m_lFree A" "samples (ReleaseBuffer i A) = samples A"
  "m_lCount (ReleaseBuffer i A) = m_lCount A" "m_lAllocated (ReleaseBuffer i A) = m_lAllocated A"
  "m_lSize (ReleaseBuffer i A) = m_lSize A" "m_lPrefix (ReleaseBuffer i A) = m_lPrefix A"
  "m_bChanged (ReleaseBuffer i A) = m_bChanged A" "m_pBlock (ReleaseBuffer i A) = m_pBlock A"
  "m_bCommitted (ReleaseBuffer i A) = m_bCommitted A" "m_lWaiting (ReleaseBuffer i A) = 0"
  "sem_count (ReleaseBuffer i A) = sem_count (NotifySample A)"
  "m_bDecommitInProgress (ReleaseBuffer i A) = (m_bDecommitInProgress A \<and> Suc (length (m_lFree A)) \<noteq> m_lAllocated A)"
  "own_refs (ReleaseBuffer i A)
     = own_refs A - (if m_bDecommitInProgress A \<and> Suc (length (m_lFree A)) = m_lAllocated A then 1 else 0)"
  by (auto simp: ReleaseBuffer_def Let_def NotifySample_def)

lemma release_inv:
  assumes "alloc_inv w" "sample_held i (alloc w)" "Release_sample i (alloc w) (wheap w) = Some (n, B, h1)"
  shows "alloc_inv (w\<lparr>alloc := B, wheap := h1\<rparr>)"
proof -
  let ?A = "alloc w"
  note inv = assms(1) [unfolded alloc_inv_def]
  obtain s where s: "samples ?A i = Some s" "m_cRef s \<ge> 1" using assms(2) by (auto simp: sample_held_def)
  then obtain fin s1 where r: "Sample_Release s (wheap w) = Some (n, fin, s1, h1)"
    and B: "B = (if fin then ReleaseBuffer i (put_sample i (\<lambda>_. s1) ?A) else put_sample i (\<lambda>_. s1) ?A)"
    using assms(3) by (auto simp: Release_sample_def Let_def split: Option.bind_splits)
  have "type_flag_ok s" using inv s samples_ok_parts(6) by blast
  note k = Release_keeps [OF r s(2) this]
  show ?thesis
  proof (cases fin)
    case False
    then show ?thesis using k s(2) B put_sample_inv [OF assms(1) s, of "\<lambda>_. s1" h1] by simp
  next
    case True
    then have B': "B = ReleaseBuffer i (put_sample i (\<lambda>_. s1) ?A)" using B by simp
    note f = ReleaseBuffer_frame [of i "put_sample i (\<lambda>_. s1) ?A", folded B', simplified put_sample_simps]
    have ok: "samples_ok ((put_sample i (\<lambda>_. s1) ?A)\<lparr>m_lFree := i # m_lFree ?A\<rparr>)"
      using True k inv s by (intro back_samples_ok) auto
    then have ok': "samples_ok B" by (simp add: samples_ok_def f)
    have "\<exists>r. samples ?A j = Some r \<and> m_pBuffer t = m_pBuffer r \<and> m_cbBuffer t = m_cbBuffer r"
      if "samples B j = Some t" for j t
      using that k s(1) by (cases "j = i") (auto simp: f)
    then have lay: "layout_ok B" using inv layout_cong [of ?A B] by (simp add: f)
    have ag: "agreed_ok B" using inv by (auto simp: agreed_ok_def f)
    have len: "Suc (length (m_lFree ?A)) \<le> m_lAllocated ?A" using free_count(1) [OF ok'] by (simp add: f)
    have ph: "phase_ok B" using inv len by (auto simp: phase_ok_def f)
    have "sem_count (NotifySample (put_sample i (\<lambda>_. s1) ?A)) = m_lWaiting ?A + sem_count ?A"
      using NotifySample_count [of "put_sample i (\<lambda>_. s1) ?A"] inv by (simp add: signals_ok_def)
    then have "signals_ok (w\<lparr>alloc := B, wheap := h1\<rparr>)" using inv by (simp add: signals_ok_def f)
    then show ?thesis using ok' lay ag ph by (simp add: alloc_inv_def)
  qed
qed

abbreviation resources :: "nat list \<Rightarrow> (nat \<Rightarrow> cmedia_sample option) \<Rightarrow> nat \<Rightarrow> allocator \<Rightarrow> allocator" where
  "resources fr S n A \<equiv> A\<lparr>samples := S, m_lFree := fr, m_lAllocated := n\<rparr>"

text \<open>A sample that was just built and waits on the free list in its place.\<close>

definition fresh_at :: "int \<Rightarrow> int \<Rightarrow> allocator \<Rightarrow> nat \<Rightarrow> cmedia_sample \<Rightarrow> bool" where
  "fresh_at base step A i s \<longleftrightarrow> m_cRef s = 0 \<and> m_pMediaType s = None \<and> m_dwFlags s = 0
     \<and> m_pBuffer s = Some (base + int i * step + m_lPrefix A) \<and> m_cbBuffer s = m_lSize A"

definition fresh_samples :: "int \<Rightarrow> int \<Rightarrow> allocator \<Rightarrow> bool" where
  "fresh_samples base step A \<longleftrightarrow> m_lFree A = rev [0..<m_lAllocated A]
     \<and> (\<forall>i. samples A i \<noteq> None \<longleftrightarrow> i < m_lAllocated A) \<and> (\<forall>i s. samples A i = Some s \<longrightarrow> fresh_at base step A i s)"

lemma create_samples_spec:
  assumes "fresh_samples base step A" "0 \<le> m_lSize A"
  shows "\<exists>hr fr S k. create_samples junk granted n (base + int (m_lAllocated A) * step) step A = (hr, resources fr S k A)
     \<and> fresh_samples base step (resources fr S k A) \<and> k \<le> m_lAllocated A + n
     \<and> (hr = S_OK \<and> k = m_lAllocated A + n \<or> hr = E_OUTOFMEMORY)"
  using assms
proof (induction n arbitrary: granted A)
  case 0
  then show ?case
    by (auto intro!: exI [of _ "m_lFree A"] exI [of _ "samples A"] exI [of _ "m_lAllocated A"])
next
  case (Suc n)
  show ?case
  proof (cases granted)
    case 0
    then show ?thesis
      using Suc.prems by (auto intro!: exI [of _ "m_lFree A"] exI [of _ "samples A"] exI [of _ "m_lAllocated A"])
  next
    case (Suc g)
    let ?i = "m_lAllocated A"
    let ?s = "fst (new_sample (junk ?i) (Some (base + int ?i * step + m_lPrefix A)) (m_lSize A) S_OK)"
    let ?A = "resources (?i # m_lFree A) ((samples A)(?i \<mapsto> ?s)) (?i + 1) A"
    have fr: "fresh_at base step A ?i ?s" using Suc.prems(2) by (simp add: fresh_at_def new_sample_def)
    have "fresh_samples base step ?A"
      using Suc.prems(1) fr by (auto simp: fresh_samples_def fresh_at_def)
    moreover have next_i: "base + int (m_lAllocated ?A) * step = base + int ?i * step + step" by (simp add: algebra_simps)
    ultimately have "\<exists>hr f S k. create_samples junk g n (base + int ?i * step + step) step ?A = (hr, resources f S k ?A)
       \<and> fresh_samples base step (resources f S k ?A) \<and> k \<le> m_lAllocated ?A + n
       \<and> (hr = S_OK \<and> k = m_lAllocated ?A + n \<or> hr = E_OUTOFMEMORY)"
      using Suc.IH [of ?A g] Suc.prems(2) unfolding next_i by simp
    then show ?thesis using Suc by (simp add: Let_def)
  qed
qed

lemma free_samples_spec:
  assumes "m_lFree A = is" "distinct is" "\<And>i. i \<in> set is \<Longrightarrow> \<exists>s. samples A i = Some s \<and> m_pMediaType s = None"
  shows "free_samples is A h = Some (resources [] (\<lambda>i. if i \<in> set is then None else samples A i) (m_lAllocated A) A, h)"
  using assms
proof (induction "is" arbitrary: A)
  case Nil
  then show ?case by simp
next
  case (Cons i js)
  obtain s where s: "samples A i = Some s" "m_pMediaType s = None" using Cons.prems(3) [of i] by auto
  let ?A = "A\<lparr>m_lFree := js, samples := (samples A)(i := None)\<rparr>"
  have "free_samples js ?A h
      = Some (resources [] (\<lambda>j. if j \<in> set js then None else samples ?A j) (m_lAllocated ?A) ?A, h)"
    using Cons.prems by (intro Cons.IH) auto
  moreover have "(\<lambda>j. if j \<in> set js then None else samples ?A j) = (\<lambda>j. if j \<in> set (i # js) then None else samples A j)"
    by auto
  ultimately show ?case using s by (simp add: delete_sample_def DeleteMediaType_def)
qed

lemma ReallyFree_spec:
  assumes "samples_ok A" "length (m_lFree A) = m_lAllocated A"
  shows "ReallyFree A h = Some ((resources [] (\<lambda>_. None) 0 A)\<lparr>m_pBlock := None\<rparr>, h)"
proof -
  have all: "set (m_lFree A) = {..<m_lAllocated A}" using free_count(2) [OF assms(1)] assms(2) by simp
  have "free_samples (m_lFree A) A h
      = Some (resources [] (\<lambda>i. if i \<in> set (m_lFree A) then None else samples A i) (m_lAllocated A) A, h)"
  proof (rule free_samples_spec)
    show "distinct (m_lFree A)" using samples_ok_parts(1) [OF assms(1)] .
    show "\<exists>s. samples A i = Some s \<and> m_pMediaType s = None" if "i \<in> set (m_lFree A)" for i
      using samples_ok_parts(3,5,7,8) [OF assms(1), of i] that by blast
  qed simp
  moreover have "(\<lambda>i. if i \<in> set (m_lFree A) then None else samples A i) = (\<lambda>_. None)"
    using samples_ok_parts(2) [OF assms(1)] by (fastforce simp: all)
  ultimately show ?thesis by (simp add: ReallyFree_def)
qed

lemma fresh_samples_ok:
  assumes "fresh_samples base step A"
  shows "samples_ok A" "length (m_lFree A) = m_lAllocated A" "laid_out (samples A) base step (m_lSize A) (m_lPrefix A)"
proof -
  note f = assms [unfolded fresh_samples_def]
  have "0 \<le> m_cRef s \<and> (m_cRef s = 0 \<longleftrightarrow> i \<in> set (m_lFree A)) \<and> type_flag_ok s \<and> (m_cRef s = 0 \<longrightarrow> m_pMediaType s = None)"
    if s: "samples A i = Some s" for i s
  proof -
    have "fresh_at base step A i s" "i < m_lAllocated A" using s f by blast+
    then show ?thesis using f by (simp add: fresh_at_def type_flag_ok_def)
  qed
  then show "samples_ok A" using f unfolding samples_ok_def by (simp add: atLeast0LessThan)
  show "length (m_lFree A) = m_lAllocated A" using f by simp
  show "laid_out (samples A) base step (m_lSize A) (m_lPrefix A)"
    using f by (simp add: laid_out_def fresh_at_def)
qed

lemma aligned_size_bound:
  assumes "aligned_size A = Some n" "is_long (m_lSize A)" "0 \<le> m_lSize A" "is_long (m_lPrefix A)" "0 \<le> m_lPrefix A"
  shows "m_lSize A + m_lPrefix A \<le> n"
proof -
  let ?k = "m_lSize A + m_lPrefix A"
  have ge: "m_lSize A \<le> long ?k" "long ?k \<le> n"
    using assms(1) by (auto simp: aligned_size_def Let_def split: if_splits)
  have "\<not> 2 ^ 31 \<le> ?k"
    using signed_take_bit_int_less_eq [of 31 ?k] ge(1) assms(4) unfolding is_long_def long_def by auto
  then have "long ?k = ?k"
    using assms(3,5) by (simp add: long_def signed_take_bit_int_eq_self_iff)
  then show ?thesis using ge by simp
qed

definition kept :: "allocator \<Rightarrow> allocator \<Rightarrow> bool" where
  "kept A B \<longleftrightarrow> m_lCount B = m_lCount A \<and> m_lSize B = m_lSize A \<and> m_lPrefix B = m_lPrefix A \<and> m_lAlignment B = m_lAlignment A
     \<and> sem_count B = sem_count A \<and> m_lWaiting B = m_lWaiting A \<and> m_bCommitted B = m_bCommitted A
     \<and> m_bDecommitInProgress B = m_bDecommitInProgress A \<and> own_refs B = own_refs A
     \<and> m_pNotify B = m_pNotify A \<and> notify_log B = notify_log A"

text \<open>What is left when everything has been given back.\<close>

abbreviation emptied :: "allocator \<Rightarrow> allocator" where
  "emptied A \<equiv> (resources [] (\<lambda>_. None) 0 A)\<lparr>m_pBlock := None\<rparr>"

lemma emptied_ok: "samples_ok (emptied A)" "layout_ok (emptied A)" "kept A (emptied A)"
  by (simp_all add: samples_ok_def layout_ok_def kept_def)

lemma empty_first:
  assumes "samples_ok A" "layout_ok A" "length (m_lFree A) = m_lAllocated A"
  shows "(if m_pBlock A \<noteq> None then ReallyFree A h else Some (A, h)) = Some (emptied A, h)"
proof (cases "m_pBlock A")
  case None
  then have "m_lAllocated A = 0" using assms(2) by (auto simp: layout_ok_def)
  moreover then have "m_lFree A = []" "samples A = (\<lambda>_. None)"
    using assms(3) samples_ok_parts(2) [OF assms(1)] by fastforce+
  ultimately have "A = emptied A" using None by (cases A) simp
  then show ?thesis using None by simp
next
  case (Some b)
  then show ?thesis using ReallyFree_spec [OF assms(1,3)] by simp
qed

lemma layout_okI:
  assumes "m_pBlock A = Some (base, nb)" "0 \<le> m_lPrefix A" "0 < m_lSize A" "m_lPrefix A + m_lSize A \<le> step"
    "int (m_lAllocated A) * step \<le> nb" "laid_out (samples A) base step (m_lSize A) (m_lPrefix A)"
  shows "layout_ok A"
  using assms unfolding layout_ok_def by blast

lemma created_ok:
  assumes "is_long (m_lSize A)" "0 < m_lSize A" "is_long (m_lPrefix A)" "0 \<le> m_lPrefix A" "0 \<le> m_lCount A"
    "aligned_size A = Some n"
    "create_samples junk g (nat (m_lCount A)) p n ((emptied A)\<lparr>m_pBlock := Some (p, m_lCount A * n)\<rparr>) = (hr, B)"
  shows "samples_ok B \<and> layout_ok B \<and> kept A B \<and> length (m_lFree B) = m_lAllocated B \<and> m_bChanged B = m_bChanged A
    \<and> (hr = S_OK \<and> int (m_lAllocated B) = m_lCount A \<or> hr = E_OUTOFMEMORY)
    \<and> layout_ok (B\<lparr>m_bChanged := False\<rparr>)"
proof -
  let ?A = "(emptied A)\<lparr>m_pBlock := Some (p, m_lCount A * n)\<rparr>"
  have "fresh_samples p n ?A" by (simp add: fresh_samples_def)
  then obtain fr S k where B: "B = resources fr S k ?A" and fs: "fresh_samples p n B" and k: "k \<le> nat (m_lCount A)"
    and hr: "hr = S_OK \<and> k = nat (m_lCount A) \<or> hr = E_OUTOFMEMORY"
    using create_samples_spec [of p n ?A junk g "nat (m_lCount A)"] assms(2,7) by auto
  note f = fresh_samples_ok [OF fs]
  have n: "m_lPrefix A + m_lSize A \<le> n" using aligned_size_bound [OF assms(6,1) _ assms(3,4)] assms(2) by simp
  have le: "int k * n \<le> m_lCount A * n" using k n assms(2,4,5) by (intro mult_right_mono) auto
  have "layout_ok B" "layout_ok (B\<lparr>m_bChanged := False\<rparr>)"
    using le n f(3) assms(2,4) by (auto simp: B intro!: layout_okI [where step = n and base = p and nb = "m_lCount A * n"])
  then show ?thesis using f(1,2) hr assms(5) by (auto simp: B kept_def)
qed

lemma Mem_Alloc_spec:
  assumes "samples_ok A" "layout_ok A" "length (m_lFree A) = m_lAllocated A" "is_long (m_lSize A)" "is_long (m_lPrefix A)"
    and old: "\<not> m_bChanged A \<Longrightarrow> int (m_lAllocated A) = m_lCount A"
  shows "\<exists>hr B. Mem_Alloc a A h = Some (hr, B, h) \<and> samples_ok B \<and> layout_ok B \<and> kept A B
     \<and> length (m_lFree B) = m_lAllocated B \<and> (\<not> m_bChanged B \<longrightarrow> int (m_lAllocated B) = m_lCount A)
     \<and> (\<not> failed hr \<longrightarrow> hr = S_OK \<and> \<not> m_bChanged B \<and> 0 < m_lCount A)"
proof (cases "failed (Base_Alloc A) \<or> Base_Alloc A = S_FALSE")
  case True
  then show ?thesis
    using assms by (auto simp: Mem_Alloc_def Let_def kept_def Base_Alloc_def split: if_splits)
next
  case False
  then have pos: "m_lCount A > 0" "m_lSize A > 0" "m_lAlignment A > 0" "m_bChanged A" and ok: "Base_Alloc A = S_OK"
    by (auto simp: Base_Alloc_def split: if_splits)
  note E = emptied_ok [of A]
  have al: "aligned_size (emptied A) = aligned_size A" by (simp add: aligned_size_def cong: if_cong)
  have refused: ?thesis if "Mem_Alloc a A h = Some (E_OUTOFMEMORY, emptied A, h)"
    using that E pos by auto
  note alloc = empty_first [OF assms(1-3)]
  show ?thesis
  proof (cases "m_lPrefix A < 0 \<or> aligned_size A = None \<or> m_lCount A * the (aligned_size A) > MAXLONG \<or> a_block a = None")
    case True
    then have "Mem_Alloc a A h = Some (E_OUTOFMEMORY, emptied A, h)"
      using pos ok unfolding Mem_Alloc_def Let_def alloc by (auto simp: al split: option.splits)
    then show ?thesis by (rule refused)
  next
    case no: False
    then obtain n p where n: "aligned_size A = Some n" "m_lCount A * n \<le> MAXLONG" "a_block a = Some p" "0 \<le> m_lPrefix A"
      by auto
    obtain hr B where c: "create_samples (a_junk a) (a_news a) (nat (m_lCount A)) p n
        ((emptied A)\<lparr>m_pBlock := Some (p, m_lCount A * n)\<rparr>) = (hr, B)"
      by fastforce
    note k = created_ok [OF assms(4) pos(2) assms(5) n(4) _ n(1) c]
    have "Mem_Alloc a A h = Some (if failed hr then (hr, B, h) else (S_OK, B\<lparr>m_bChanged := False\<rparr>, h))"
      using pos ok n c unfolding Mem_Alloc_def Let_def alloc by (simp add: al)
    moreover have "samples_ok (B\<lparr>m_bChanged := False\<rparr>)" "kept A (B\<lparr>m_bChanged := False\<rparr>)"
      using k pos(1) by (simp_all add: samples_ok_def kept_def)
    ultimately show ?thesis using k pos by auto
  qed
qed

lemma Commit_outcome:
  assumes "alloc_inv w" "Commit a (alloc w) (wheap w) = Some (hr, B, h1)"
  shows "alloc_inv (w\<lparr>alloc := B, wheap := h1\<rparr>) \<and> m_bCommitted B = (\<not> failed hr)"
proof -
  let ?A = "alloc w"
  note inv = assms(1) [unfolded alloc_inv_def]
  have sg: "signals_ok w" using inv by blast
  consider "m_bCommitted ?A" | "\<not> m_bCommitted ?A" "m_bDecommitInProgress ?A"
    | "\<not> m_bCommitted ?A" "\<not> m_bDecommitInProgress ?A" by blast
  then show ?thesis
  proof cases
    case 1
    then show ?thesis using assms(2) quiet_inv [OF assms(1), of ?A] sg by (auto simp: Commit_def signals_ok_def)
  next
    case 2
    then have B: "B = ?A\<lparr>m_bCommitted := True, m_bDecommitInProgress := False\<rparr>" "h1 = wheap w" "hr = S_OK"
      using assms(2) 2 by (auto simp: Commit_def Let_def)
    have "layout_ok B" using inv layout_cong [of ?A B] by (simp add: B)
    then show ?thesis
      using inv 2 by (simp add: alloc_inv_def B samples_ok_def phase_ok_def agreed_ok_def signals_ok_def)
  next
    case 3
    let ?A1 = "?A\<lparr>m_bCommitted := True\<rparr>"
    have s: "samples_ok ?A1" using inv by (simp add: samples_ok_def)
    have l: "layout_ok ?A1" using inv layout_cong [of ?A ?A1] by simp
    have n: "length (m_lFree ?A1) = m_lAllocated ?A1" using inv 3 by (simp add: phase_ok_def)
    have g: "is_long (m_lSize ?A1)" "is_long (m_lPrefix ?A1)" "\<not> m_bChanged ?A1 \<Longrightarrow> int (m_lAllocated ?A1) = m_lCount ?A1"
      using inv by (simp_all add: agreed_ok_def)
    have r: "own_refs ?A = 0" "m_lWaiting ?A = 0" using inv 3 by (simp_all add: phase_ok_def signals_ok_def)
    obtain hr' C where C: "Mem_Alloc a ?A1 (wheap w) = Some (hr', C, wheap w)" "samples_ok C" "layout_ok C" "kept ?A1 C"
      "length (m_lFree C) = m_lAllocated C" "\<not> m_bChanged C \<longrightarrow> int (m_lAllocated C) = m_lCount ?A1"
      "\<not> failed hr' \<longrightarrow> hr' = S_OK \<and> \<not> m_bChanged C \<and> 0 < m_lCount ?A1"
      using Mem_Alloc_spec [OF s l n g, of a "wheap w"] by blast
    have B: "B = (if failed hr' then C\<lparr>m_bCommitted := False\<rparr> else C\<lparr>own_refs := own_refs C + 1\<rparr>)" "h1 = wheap w"
      "failed hr = failed hr'"
      using assms(2) 3 C(1) by (auto simp: Commit_def Let_def split: if_splits)
    have "samples_ok B" using C(2) by (simp add: B samples_ok_def)
    moreover have "layout_ok B" by (rule layout_cong [OF C(3)]) (simp_all add: B split: if_splits)
    moreover have "agreed_ok B" using C(4,6,7) 3 g(1,2) by (simp add: B agreed_ok_def kept_def)
    moreover have "phase_ok B" using C(4,5) 3 r(1) by (simp add: B phase_ok_def kept_def)
    moreover have "signals_ok (w\<lparr>alloc := B, wheap := h1\<rparr>)" using C(4) sg r(2) by (simp add: B signals_ok_def kept_def)
    ultimately show ?thesis using C(4) B(3) by (simp add: alloc_inv_def B(1) kept_def)
  qed
qed

lemmas Commit_inv = Commit_outcome [THEN conjunct1]

lemma new_inv: "alloc_inv \<lparr>alloc = new_allocator, wheap = h, waiting = 0, timeouts = 0\<rparr>"
  by (simp add: alloc_inv_def new_allocator_def samples_ok_def phase_ok_def agreed_ok_def layout_ok_def signals_ok_def
      is_long_def)

lemma step_inv: "alloc_step w w' \<Longrightarrow> alloc_inv w \<Longrightarrow> alloc_inv w'"
  by (induction rule: alloc_step.induct)
    (simp_all add: GetBuffer_inv wake_inv [simplified] edit_inv addref_inv release_inv Mem_SetProperties_inv [rotated 2]
      Commit_inv Decommit_inv SetNotify_inv)

lemma reachable_inv: "alloc_reachable w \<Longrightarrow> alloc_inv w"
  by (induction rule: alloc_reachable.induct) (auto intro: new_inv step_inv)

section \<open>Properties\<close>

lemma wake_possible:
  assumes "alloc_reachable w" "0 < waiting w" "m_lFree (alloc w) \<noteq> [] \<or> \<not> m_bCommitted (alloc w)"
  shows "0 < sem_count (alloc w)"
  using reachable_inv [OF assms(1)] assms(2,3) by (auto simp: alloc_inv_def signals_ok_def)

text \<open>C13: No thread waits for a buffer in vain. In every reachable state, whatever calls have been
  interleaved, as soon as a buffer is free or the allocator is no longer committed, a thread that
  waits finds a count in the semaphore and can go on, and then either gets a buffer or is refused.
  The books of the lazy signalling balance: the threads still to be signalled and the count of the
  semaphore add up to the threads that wait and the calls with \<open>AM_GBF_NOWAIT\<close> that came back
  empty-handed. The class's comment forgets the latter: such a call counts as a waiting thread that
  never takes its count, so that a later waiter can be woken for nothing.\<close>

theorem no_thread_waits_in_vain:
  assumes "alloc_reachable w"
  shows "(0 < waiting w \<and> (m_lFree (alloc w) \<noteq> [] \<or> \<not> m_bCommitted (alloc w))
      \<longrightarrow> 0 < sem_count (alloc w)
        \<and> alloc_step w (w\<lparr>alloc := (alloc w)\<lparr>sem_count := sem_count (alloc w) - 1\<rparr>, waiting := waiting w - 1\<rparr>)
        \<and> fst (GetBuffer nowait (alloc w)) \<noteq> Must_wait)
    \<and> m_lWaiting (alloc w) + sem_count (alloc w) = waiting w + timeouts w
    \<and> (m_bCommitted (alloc w) \<and> m_lFree (alloc w) = [] \<longrightarrow>
        GetBuffer True (alloc w) = (Refused VFW_E_TIMEOUT, (alloc w)\<lparr>m_lWaiting := m_lWaiting (alloc w) + 1\<rparr>))"
proof -
  have "m_lWaiting (alloc w) + sem_count (alloc w) = waiting w + timeouts w"
    using reachable_inv [OF assms] by (simp add: alloc_inv_def signals_ok_def)
  moreover have "fst (GetBuffer nowait (alloc w)) \<noteq> Must_wait" if "m_lFree (alloc w) \<noteq> [] \<or> \<not> m_bCommitted (alloc w)"
    using that by (auto simp: GetBuffer_def split: list.split)
  moreover have "m_bCommitted (alloc w) \<and> m_lFree (alloc w) = [] \<longrightarrow>
      GetBuffer True (alloc w) = (Refused VFW_E_TIMEOUT, (alloc w)\<lparr>m_lWaiting := m_lWaiting (alloc w) + 1\<rparr>)"
    by (simp add: GetBuffer_def)
  ultimately show ?thesis using wake_possible [OF assms] alloc_step.wake [of w] by blast
qed

lemma placed:
  assumes "layout_ok A" "samples_ok A" "samples A i = Some s"
  obtains base nb step sz pre where "m_pBlock A = Some (base, nb)" "0 \<le> pre" "0 < sz" "pre + sz \<le> step"
    "int (m_lAllocated A) * step \<le> nb" "laid_out (samples A) base step sz pre"
    "\<not> m_bChanged A \<Longrightarrow> sz = m_lSize A \<and> pre = m_lPrefix A"
proof -
  have "m_lAllocated A \<noteq> 0" using samples_ok_parts(2) [OF assms(2,3)] by simp
  then show ?thesis using assms(1) that unfolding layout_ok_def by metis
qed

lemma slots_apart:
  fixes st :: int
  assumes "i \<noteq> j" "0 \<le> pre" "pre + sz \<le> st" "0 < sz"
  shows "b + int i * st + pre + sz \<le> b + int j * st \<or> b + int j * st + pre + sz \<le> b + int i * st"
proof -
  have *: "int a * st + st \<le> int c * st" if "a < c" for a c
  proof -
    have "int a * st + st = (int a + 1) * st" by (simp add: algebra_simps)
    also have "\<dots> \<le> int c * st" using that assms(2-4) by (intro mult_right_mono) auto
    finally show ?thesis .
  qed
  show ?thesis using * [of i j] * [of j i] assms by (cases "i < j") auto
qed

lemma held_iff: "samples_ok A \<Longrightarrow> sample_held i A \<longleftrightarrow> i < m_lAllocated A \<and> i \<notin> set (m_lFree A)"
  unfolding sample_held_def using samples_ok_parts(2-5) [of A i] by fastforce

lemma held_count:
  assumes "samples_ok A"
  shows "length (m_lFree A) + card {i. sample_held i A} = m_lAllocated A"
proof -
  have "{i. sample_held i A} = {..<m_lAllocated A} - set (m_lFree A)" using held_iff [OF assms] by auto
  moreover have "set (m_lFree A) \<subseteq> {..<m_lAllocated A}" "card (set (m_lFree A)) = length (m_lFree A)"
    using assms by (auto simp: samples_ok_def distinct_card)
  ultimately have "card {i. sample_held i A} = m_lAllocated A - length (m_lFree A)"
    by (simp add: card_Diff_subset)
  then show ?thesis using free_count(1) [OF assms] by simp
qed

text \<open>C14: No two clients ever have the same memory. In every reachable state the buffers of two samples
  do not overlap, not even with their prefixes, and each lies with its prefix inside the block; once
  committed every buffer has the agreed size. \<open>GetBuffer\<close> hands out a sample that nobody held, with
  one reference and no media type, and the samples held and those on the free list always add up to
  those allocated, which is what \<open>GetFreeCount\<close> reports.\<close>

theorem buffers_never_overlap:
  assumes "alloc_reachable w" "samples (alloc w) i = Some s" "samples (alloc w) j = Some t" "i \<noteq> j"
  shows "(\<exists>p q base nb pre. m_pBuffer s = Some p \<and> m_pBuffer t = Some q \<and> m_pBlock (alloc w) = Some (base, nb)
      \<and> 0 \<le> pre \<and> (p + m_cbBuffer s \<le> q - pre \<or> q + m_cbBuffer t \<le> p - pre)
      \<and> base \<le> p - pre \<and> p + m_cbBuffer s \<le> base + nb
      \<and> (m_bCommitted (alloc w) \<longrightarrow> pre = m_lPrefix (alloc w) \<and> m_cbBuffer s = m_lSize (alloc w)))
    \<and> (GetBuffer nowait (alloc w) = (Got k, A) \<longrightarrow> \<not> sample_held k (alloc w) \<and> sample_held k A
        \<and> (\<exists>u. samples A k = Some u \<and> m_cRef u = 1 \<and> m_pMediaType u = None))
    \<and> length (m_lFree (alloc w)) + card {i. sample_held i (alloc w)} = m_lAllocated (alloc w)
    \<and> (m_bCommitted (alloc w) \<longrightarrow>
        GetFreeCount (alloc w) = (S_OK, m_lCount (alloc w) - int (card {i. sample_held i (alloc w)})))"
proof -
  let ?A = "alloc w"
  have inv: "samples_ok ?A" "layout_ok ?A" "agreed_ok ?A" using reachable_inv [OF assms(1)] by (simp_all add: alloc_inv_def)
  obtain base nb st sz pre where L: "m_pBlock ?A = Some (base, nb)" "0 \<le> pre" "0 < sz" "pre + sz \<le> st"
    "int (m_lAllocated ?A) * st \<le> nb" "laid_out (samples ?A) base st sz pre"
    and ag: "\<not> m_bChanged ?A \<Longrightarrow> sz = m_lSize ?A \<and> pre = m_lPrefix ?A"
    by (rule placed [OF inv(2,1) assms(2)]) (rule that)
  have p: "m_pBuffer s = Some (base + int i * st + pre)" "m_cbBuffer s = sz"
    "m_pBuffer t = Some (base + int j * st + pre)" "m_cbBuffer t = sz"
    using L(6) [unfolded laid_out_def, rule_format, OF assms(2)] L(6) [unfolded laid_out_def, rule_format, OF assms(3)]
    by blast+
  have "Suc i \<le> m_lAllocated ?A" using samples_ok_parts(2) [OF inv(1) assms(2)] by simp
  then have "int (Suc i) * st \<le> int (m_lAllocated ?A) * st"
    using L(2-4) by (intro mult_right_mono) auto
  then have top: "base + int i * st + pre + sz \<le> base + nb" using L(4,5) by (simp add: algebra_simps)
  have "0 \<le> int i * st" using L(2-4) by simp
  then have first: "\<exists>p q base nb pre. m_pBuffer s = Some p \<and> m_pBuffer t = Some q \<and> m_pBlock (alloc w) = Some (base, nb)
      \<and> 0 \<le> pre \<and> (p + m_cbBuffer s \<le> q - pre \<or> q + m_cbBuffer t \<le> p - pre)
      \<and> base \<le> p - pre \<and> p + m_cbBuffer s \<le> base + nb
      \<and> (m_bCommitted (alloc w) \<longrightarrow> pre = m_lPrefix (alloc w) \<and> m_cbBuffer s = m_lSize (alloc w))"
  proof (intro exI conjI)
    show "m_pBuffer s = Some (base + int i * st + pre)" "m_pBuffer t = Some (base + int j * st + pre)" using p by auto
    show "m_pBlock ?A = Some (base, nb)" "0 \<le> pre" using L by auto
    show "base + int i * st + pre + m_cbBuffer s \<le> base + int j * st + pre - pre
        \<or> base + int j * st + pre + m_cbBuffer t \<le> base + int i * st + pre - pre"
      using slots_apart [OF assms(4) L(2,4,3), of base] unfolding p by linarith
    show "base \<le> base + int i * st + pre - pre" using \<open>0 \<le> int i * st\<close> by linarith
    show "base + int i * st + pre + m_cbBuffer s \<le> base + nb" using top unfolding p .
    show "m_bCommitted ?A \<longrightarrow> pre = m_lPrefix ?A \<and> m_cbBuffer s = m_lSize ?A"
      using ag inv(3) unfolding p agreed_ok_def by blast
  qed
  have "\<not> sample_held k ?A \<and> sample_held k A \<and> (\<exists>u. samples A k = Some u \<and> m_cRef u = 1 \<and> m_pMediaType u = None)"
    if got: "GetBuffer nowait ?A = (Got k, A)"
  proof -
    obtain js where f: "m_lFree ?A = k # js" "samples A = (samples ?A)(k := map_option (\<lambda>s. s\<lparr>m_cRef := 1\<rparr>) (samples ?A k))"
      using got by (auto simp: GetBuffer_def split: if_splits list.splits)
    then obtain u where "samples ?A k = Some u" "m_cRef u = 0" "m_pMediaType u = None"
      using samples_ok_parts(3,5,7,8) [OF inv(1), of k] by fastforce
    then show ?thesis using f by (simp add: sample_held_def)
  qed
  then show ?thesis
    using first held_count [OF inv(1)] inv(3) by (auto simp: GetFreeCount_def agreed_ok_def)
qed

text \<open>C15: The allocator lives exactly as long as its buffers are needed. It holds a reference on itself
  while it is committed and, after \<open>Decommit\<close>, until the last buffer has come back; a decommit is in
  progress only while some buffer is out. Without that reference every buffer is back, and the
  destructor deletes every sample, frees the block and touches nothing else. \<open>Commit\<close> succeeds only
  with as many buffers as agreed, and a failed one leaves the allocator decommitted.\<close>

theorem allocator_lives_as_long_as_its_buffers:
  assumes "alloc_reachable w"
  shows "own_refs (alloc w) = (if m_bCommitted (alloc w) \<or> (\<exists>i. sample_held i (alloc w)) then 1 else 0)
    \<and> (m_bDecommitInProgress (alloc w) \<longleftrightarrow> \<not> m_bCommitted (alloc w) \<and> (\<exists>i. sample_held i (alloc w)))
    \<and> (own_refs (alloc w) = 0 \<longrightarrow> (\<exists>B. delete_allocator (alloc w) h = Some (B, h) \<and> m_lFree B = []
        \<and> samples B = (\<lambda>_. None) \<and> m_pBlock B = None))
    \<and> (Commit a (alloc w) (wheap w) = Some (hr, C, h1) \<longrightarrow> m_bCommitted C = (\<not> failed hr)
        \<and> (\<not> failed hr \<longrightarrow> int (m_lAllocated C) = m_lCount C \<and> 0 < m_lCount C \<and> own_refs C = 1))"
proof -
  let ?A = "alloc w"
  have inv: "samples_ok ?A" "phase_ok ?A" using reachable_inv [OF assms(1)] by (simp_all add: alloc_inv_def)
  have fin: "finite {i. sample_held i ?A}" by (rule finite_subset [of _ "{..<m_lAllocated ?A}"]) (auto simp: held_iff [OF inv(1)])
  have out: "length (m_lFree ?A) < m_lAllocated ?A \<longleftrightarrow> (\<exists>i. sample_held i ?A)"
    using held_count [OF inv(1)] card_gt_0_iff [of "{i. sample_held i ?A}"] fin by auto
  have "\<exists>B. delete_allocator ?A h = Some (B, h) \<and> m_lFree B = [] \<and> samples B = (\<lambda>_. None) \<and> m_pBlock B = None"
    if "own_refs ?A = 0"
  proof -
    have q: "\<not> m_bCommitted ?A" "\<not> m_bDecommitInProgress ?A" "length (m_lFree ?A) = m_lAllocated ?A"
      using inv(2) that by (auto simp: phase_ok_def split: if_splits)
    then show ?thesis using ReallyFree_spec [OF inv(1) q(3)] by (simp add: delete_allocator_def Decommit_def)
  qed
  moreover have "m_bCommitted C = (\<not> failed hr)
        \<and> (\<not> failed hr \<longrightarrow> int (m_lAllocated C) = m_lCount C \<and> 0 < m_lCount C \<and> own_refs C = 1)"
    if c: "Commit a ?A (wheap w) = Some (hr, C, h1)"
  proof -
    have r: "alloc_reachable (w\<lparr>alloc := C, wheap := h1\<rparr>)"
      using alloc_reachable.step [OF assms alloc_step.commit [OF c]] .
    have "agreed_ok C" "phase_ok C" using reachable_inv [OF r] by (simp_all add: alloc_inv_def)
    moreover have "m_bCommitted C = (\<not> failed hr)"
      using Commit_outcome [OF reachable_inv [OF assms] c] by blast
    ultimately show ?thesis by (simp add: agreed_ok_def phase_ok_def)
  qed
  ultimately show ?thesis using inv(2) out free_count(1) [OF inv(1)] by (auto simp: phase_ok_def)
qed

lemma c_rem_mod: "0 \<le> a \<Longrightarrow> 0 < b \<Longrightarrow> c_rem a b = a mod b"
  by (simp add: c_rem_def quot_toward_zero_def minus_mult_div_eq_mod)

lemma long_same: "- (2 ^ 31) \<le> x \<Longrightarrow> x < 2 ^ 31 \<Longrightarrow> long x = x"
  by (simp add: long_def signed_take_bit_int_eq_self_iff)

lemma rounded_size_up:
  assumes "0 < cbBuffer r" "0 \<le> cbPrefix r" "0 < cbAlign r" "cbBuffer r + cbPrefix r + cbAlign r < 2 ^ 31"
  shows "cbBuffer r \<le> rounded_size r \<and> rounded_size r < cbBuffer r + cbAlign r
    \<and> (rounded_size r + cbPrefix r) mod cbAlign r = 0"
proof -
  let ?k = "cbBuffer r + cbPrefix r" and ?a = "cbAlign r"
  let ?n = "if ?k mod ?a = 0 then ?k else ?k - ?k mod ?a + ?a"
  have m: "0 \<le> ?k mod ?a" "?k mod ?a < ?a" using assms(3) by simp_all
  have "rounded_size r = ?n - cbPrefix r"
    using assms m by (auto simp: rounded_size_def Let_def long_same c_rem_mod)
  moreover have "?n mod ?a = 0" by (simp add: mod_diff_left_eq [symmetric])
  moreover have "?k \<le> ?n" "?n < ?k + ?a" using m by auto
  ultimately show ?thesis by auto
qed

text \<open>The size agreed on is the size asked for, rounded up so that a buffer with its prefix fills
  whole units of the alignment; the rounding adds less than one unit, and \<open>Commit\<close> later spaces the
  buffers at exactly this distance, without rounding again. The caller is told what was agreed, and
  a request the allocator refuses changes nothing. But the alignment need not be the power of two
  that the code's own check asks for: that check only writes to the log, and 3 is accepted.\<close>

theorem sizes_round_up_to_the_alignment:
  assumes "0 < cbBuffer r" "0 \<le> cbPrefix r" "0 < cbAlign r" "cbBuffer r + cbPrefix r + cbAlign r < 2 ^ 31"
    and "Mem_SetProperties g r A = (hr, act, B)"
  shows "(hr = S_OK \<longrightarrow> cbBuffer r \<le> m_lSize B \<and> m_lSize B < cbBuffer r + cbAlign r
        \<and> (m_lSize B + m_lPrefix B) mod m_lAlignment B = 0 \<and> aligned_size B = Some (m_lSize B + m_lPrefix B)
        \<and> act = Some (snd (Alloc_GetProperties B)) \<and> m_lCount B = cBuffers r \<and> m_bChanged B)
    \<and> (hr \<noteq> S_OK \<longrightarrow> B = A \<and> act = None)
    \<and> fst (Mem_SetProperties 65536 (r\<lparr>cbAlign := 3\<rparr>) new_allocator) = S_OK"
proof -
  note u = rounded_size_up [OF assms(1-4)]
  have "hr \<noteq> S_OK \<longrightarrow> B = A \<and> act = None"
    using assms(5) by (auto simp: Mem_SetProperties_def agree_def split: if_splits)
  moreover have "fst (Mem_SetProperties 65536 (r\<lparr>cbAlign := 3\<rparr>) new_allocator) = S_OK"
    by (simp add: Mem_SetProperties_def agree_def new_allocator_def)
  moreover have "cbBuffer r \<le> m_lSize B \<and> m_lSize B < cbBuffer r + cbAlign r
        \<and> (m_lSize B + m_lPrefix B) mod m_lAlignment B = 0 \<and> aligned_size B = Some (m_lSize B + m_lPrefix B)
        \<and> act = Some (snd (Alloc_GetProperties B)) \<and> m_lCount B = cBuffers r \<and> m_bChanged B" if "hr = S_OK"
  proof -
    have B: "m_lSize B = rounded_size r" "m_lPrefix B = cbPrefix r" "m_lAlignment B = cbAlign r" "m_lCount B = cBuffers r"
      "m_bChanged B" "act = Some (r\<lparr>cbBuffer := rounded_size r\<rparr>)"
      using assms(5) that by (auto simp: Mem_SetProperties_def agree_def Let_def split: if_splits)
    have "aligned_size B = Some (m_lSize B + m_lPrefix B)"
      using u assms(1-4) by (auto simp: aligned_size_def Let_def B long_same c_rem_mod)
    then show ?thesis using u by (auto simp: B Alloc_GetProperties_def)
  qed
  ultimately show ?thesis by blast
qed

section \<open>A session\<close>

text \<open>Two buffers of 100 bytes: both are taken, another client waits, one comes back.\<close>

definition demo_request :: allocator_properties where
  "demo_request = \<lparr>cBuffers = 2, cbBuffer = 100, cbAlign = 16, cbPrefix = 8\<rparr>"

definition demo_answers :: alloc_answers where
  "demo_answers = \<lparr>a_block = Some 65536, a_news = 2, a_junk = \<lambda>_. blank_sample\<rparr>"

definition demo_agreed :: allocator where
  "demo_agreed = new_allocator\<lparr>m_lSize := 104, m_lCount := 2, m_lAlignment := 16, m_lPrefix := 8, m_bChanged := True\<rparr>"

definition slot_sample :: "int \<Rightarrow> int \<Rightarrow> cmedia_sample" where
  "slot_sample p n = blank_sample\<lparr>m_pBuffer := Some p, m_lActual := 104, m_cbBuffer := 104, m_cRef := n\<rparr>"

definition demo_stage :: "nat list \<Rightarrow> int \<Rightarrow> int \<Rightarrow> allocator" where
  "demo_stage free m n = demo_agreed\<lparr>m_lFree := free, m_lAllocated := 2,
     samples := [0 \<mapsto> slot_sample 65544 m, 1 \<mapsto> slot_sample 65656 n],
     m_bChanged := False, m_bCommitted := True, m_pBlock := Some (65536, 224), own_refs := 1\<rparr>"

definition demo_world :: "allocator \<Rightarrow> nat \<Rightarrow> world" where
  "demo_world A n = \<lparr>alloc = A, wheap = empty_heap, waiting = n, timeouts = 0\<rparr>"

lemmas demo_defs = demo_request_def demo_answers_def demo_agreed_def slot_sample_def demo_stage_def demo_world_def
  new_allocator_def blank_sample_def

lemma demo_properties: "Mem_SetProperties 65536 demo_request new_allocator
    = (S_OK, Some (demo_request\<lparr>cbBuffer := 104\<rparr>), demo_agreed)"
  by (simp add: demo_defs Mem_SetProperties_def rounded_size_def Let_def c_rem_def long_def agree_def)

lemma demo_commit: "Commit demo_answers demo_agreed empty_heap = Some (S_OK, demo_stage [1, 0] 0 0, empty_heap)"
  by (simp add: demo_defs Commit_def Mem_Alloc_def Base_Alloc_def aligned_size_def Let_def c_rem_def long_def
      MAXLONG_def eval_nat_numeral new_sample_def AM_STREAM_MEDIA_def fun_eq_iff)

lemma demo_gets:
  "GetBuffer False (demo_stage [1, 0] 0 0) = (Got 1, demo_stage [0] 0 1)"
  "GetBuffer False (demo_stage [0] 0 1) = (Got 0, demo_stage [] 1 1)"
  "GetBuffer False (demo_stage [] 1 1) = (Must_wait, (demo_stage [] 1 1)\<lparr>m_lWaiting := 1\<rparr>)"
  by (simp_all add: demo_defs GetBuffer_def put_sample_def fun_eq_iff)

lemma demo_release: "Release_sample 1 ((demo_stage [] 1 1)\<lparr>m_lWaiting := 1\<rparr>) empty_heap
    = Some (0, (demo_stage [1] 1 0)\<lparr>sem_count := 1\<rparr>, empty_heap)"
  by (simp add: demo_defs Release_sample_def Sample_Release_def ReleaseBuffer_def NotifySample_def SEM_MAX_def Let_def
      put_sample_def AM_STREAM_MEDIA_def fun_eq_iff)

lemma demo_longs: "list_all is_long [cBuffers demo_request, cbBuffer demo_request, cbAlign demo_request, cbPrefix demo_request]"
  by (simp add: demo_request_def is_long_def)

lemma demo_held: "sample_held 1 ((demo_stage [] 1 1)\<lparr>m_lWaiting := 1\<rparr>)"
  by (simp add: sample_held_def demo_stage_def slot_sample_def)

lemma demo_steps:
  "alloc_step (demo_world new_allocator 0) (demo_world demo_agreed 0)"
  "alloc_step (demo_world demo_agreed 0) (demo_world (demo_stage [1, 0] 0 0) 0)"
  "alloc_step (demo_world (demo_stage [1, 0] 0 0) 0) (demo_world (demo_stage [0] 0 1) 0)"
  "alloc_step (demo_world (demo_stage [0] 0 1) 0) (demo_world (demo_stage [] 1 1) 0)"
  "alloc_step (demo_world (demo_stage [] 1 1) 0) (demo_world ((demo_stage [] 1 1)\<lparr>m_lWaiting := 1\<rparr>) 1)"
  "alloc_step (demo_world ((demo_stage [] 1 1)\<lparr>m_lWaiting := 1\<rparr>) 1) (demo_world ((demo_stage [1] 1 0)\<lparr>sem_count := 1\<rparr>) 1)"
  using alloc_step.properties [of demo_request 65536 "demo_world new_allocator 0", unfolded demo_world_def world.simps, OF _ demo_properties]
    alloc_step.commit [of demo_answers "demo_world demo_agreed 0", unfolded demo_world_def world.simps, OF demo_commit]
    alloc_step.get [of False "demo_world (demo_stage [1, 0] 0 0) 0", unfolded demo_world_def world.simps, OF demo_gets(1)]
    alloc_step.get [of False "demo_world (demo_stage [0] 0 1) 0", unfolded demo_world_def world.simps, OF demo_gets(2)]
    alloc_step.get [of False "demo_world (demo_stage [] 1 1) 0", unfolded demo_world_def world.simps, OF demo_gets(3)]
    alloc_step.release [of 1 "demo_world ((demo_stage [] 1 1)\<lparr>m_lWaiting := 1\<rparr>) 1", unfolded demo_world_def world.simps,
      OF _ demo_release]
    demo_longs demo_held
  by (simp_all add: demo_world_def SEM_MAX_def)

lemma demo_reached:
  "alloc_reachable (demo_world (demo_stage [] 1 1) 0)"
  "alloc_reachable (demo_world ((demo_stage [1] 1 0)\<lparr>sem_count := 1\<rparr>) 1)"
proof -
  have "alloc_reachable (demo_world new_allocator 0)" unfolding demo_world_def by (rule alloc_reachable.start)
  then show *: "alloc_reachable (demo_world (demo_stage [] 1 1) 0)"
    using demo_steps(1-4) by (meson alloc_reachable.step)
  show "alloc_reachable (demo_world ((demo_stage [1] 1 0)\<lparr>sem_count := 1\<rparr>) 1)"
    using alloc_reachable.step [OF alloc_reachable.step [OF * demo_steps(5)] demo_steps(6)] .
qed

theorem no_thread_waits_in_vain_witness:
  "(0 :: nat) < 1 \<and> m_lFree ((demo_stage [1] 1 0)\<lparr>sem_count := 1\<rparr>) \<noteq> []
    \<and> fst (GetBuffer False ((demo_stage [1] 1 0)\<lparr>sem_count := 1\<rparr>)) \<noteq> Must_wait"
  using no_thread_waits_in_vain [OF demo_reached(2), of False] by (simp add: demo_world_def demo_stage_def)

theorem buffers_never_overlap_witness:
  "\<exists>p q. m_pBuffer (slot_sample 65544 1) = Some p \<and> m_pBuffer (slot_sample 65656 1) = Some q
     \<and> (p + 104 \<le> q \<or> q + 104 \<le> p)"
proof -
  have s: "samples (alloc (demo_world (demo_stage [] 1 1) 0)) 0 = Some (slot_sample 65544 1)"
    "samples (alloc (demo_world (demo_stage [] 1 1) 0)) 1 = Some (slot_sample 65656 1)"
    by (simp_all add: demo_world_def demo_stage_def)
  have "(0 :: nat) \<noteq> 1" by simp
  from buffers_never_overlap [OF demo_reached(1) s this] show ?thesis by (auto simp: slot_sample_def)
qed

theorem allocator_lives_as_long_as_its_buffers_witness:
  "own_refs (demo_stage [] 1 1) = 1 \<and> m_bCommitted (demo_stage [] 1 1)"
  using allocator_lives_as_long_as_its_buffers [OF demo_reached(1)] by (simp add: demo_world_def demo_stage_def)

theorem sizes_round_up_to_the_alignment_witness:
  "100 \<le> m_lSize demo_agreed \<and> m_lSize demo_agreed < 116 \<and> (m_lSize demo_agreed + m_lPrefix demo_agreed) mod 16 = 0"
  using sizes_round_up_to_the_alignment [OF _ _ _ _ demo_properties] by (simp add: demo_request_def demo_agreed_def)

end
