(* ===== verification/InputPin.thy ===== *)
theory InputPin
  imports PinConnect Allocator VirtualPin
begin

text \<open>
  The other end of a connection: an input pin that is derived from CBaseInputPin
  (baseclasses/amfilter.cpp), with the allocators of class CMemAllocator that the two pins share.
  Its methods are actions on the pin whose environment are the allocators; for the output pin, the
  pin and the allocators together are the environment.
\<close>

section \<open>The allocators in the process\<close>

text \<open>
  Allocators by number, the heap of their samples, and how the requests for memory to come will
  turn out: \<open>luck k\<close> for the next one but \<open>k\<close>.
\<close>

record store =
  w_alloc :: "nat \<Rightarrow> allocator"
  w_next :: nat
  w_heap :: heap
  luck :: "nat \<Rightarrow> bool"

definition next_luck :: "store \<Rightarrow> bool \<times> store" where
  "next_luck w = (luck w 0, w\<lparr>luck := (\<lambda>k. luck w (Suc k))\<rparr>)"

definition store_create :: "store \<Rightarrow> (hresult \<times> nat option) \<times> store" where
  "store_create w = (case next_luck w of (ok, w1) \<Rightarrow>
     if ok then ((S_OK, Some (w_next w1)), w1\<lparr>w_alloc := (w_alloc w1)(w_next w1 := new_allocator), w_next := Suc (w_next w1)\<rparr>)
     else ((E_OUTOFMEMORY, None), w1))"

definition store_decommit :: "nat \<Rightarrow> store \<Rightarrow> hresult \<times> store" where
  "store_decommit n w = (case Decommit (w_alloc w n) of (hr, A) \<Rightarrow> (hr, w\<lparr>w_alloc := (w_alloc w)(n := A)\<rparr>))"

text \<open>A commit that would touch memory it does not own is shown not to happen below.\<close>

definition store_commit :: "alloc_answers \<Rightarrow> nat \<Rightarrow> store \<Rightarrow> hresult \<times> store" where
  "store_commit a n w = (case Commit a (w_alloc w n) (w_heap w) of
     Some (hr, A, h) \<Rightarrow> (hr, w\<lparr>w_alloc := (w_alloc w)(n := A), w_heap := h\<rparr>)
   | None \<Rightarrow> (E_UNEXPECTED, w))"

section \<open>The pin\<close>

record input_pin =
  i_Connected :: "nat option"
  i_type :: mtype
  i_pAllocator :: "nat option"
  i_bReadOnly :: bool
  i_bFlushing :: bool
  i_bRunTimeError :: bool
  i_stopped :: bool
  i_bCanReconnectWhenActive :: bool
  i_SampleProps :: sample_props
  i_refs :: "com_ref \<Rightarrow> int"

definition no_sample_props :: sample_props where
  "no_sample_props = \<lparr>pp_cbData = 0, pp_dwTypeSpecificFlags = 0, pp_dwSampleFlags = 0, pp_lActual = 0, pp_tStart = 0,
     pp_tStop = 0, pp_dwStreamId = 0, pp_media = None, pp_pbBuffer = None, pp_cbBuffer = 0\<rparr>"

definition new_input_pin :: input_pin where
  "new_input_pin = \<lparr>i_Connected = None, i_type = no_type, i_pAllocator = None, i_bReadOnly = False, i_bFlushing = False,
     i_bRunTimeError = False, i_stopped = True, i_bCanReconnectWhenActive = False,
     i_SampleProps = no_sample_props, i_refs = (\<lambda>_. 0)\<rparr>"

definition in_bump :: "com_ref \<Rightarrow> int \<Rightarrow> input_pin \<Rightarrow> input_pin" where
  "in_bump r d s = s\<lparr>i_refs := (i_refs s)(r := i_refs s r + d)\<rparr>"

definition in_drop_alloc :: "input_pin \<Rightarrow> input_pin" where
  "in_drop_alloc s = (case i_pAllocator s of None \<Rightarrow> s | Some n \<Rightarrow> (in_bump (R_Alloc n) (- 1) s)\<lparr>i_pAllocator := None\<rparr>)"

definition in_drop_connected :: "input_pin \<Rightarrow> input_pin" where
  "in_drop_connected s = (case i_Connected s of None \<Rightarrow> s | Some n \<Rightarrow> (in_bump (R_Pin n) (- 1) s)\<lparr>i_Connected := None\<rparr>)"

text \<open>What a derived class adds: the check of a media type, and the types it prefers.\<close>

record pin_class =
  c_check :: "mtype \<Rightarrow> hresult"
  c_types :: "mtype list"

section \<open>Connecting\<close>

definition In_BreakConnect :: "(input_pin, store, hresult) action" where
  "In_BreakConnect = do {
     a \<leftarrow> look i_pAllocator;
     case a of
       None \<Rightarrow> result S_OK
     | Some n \<Rightarrow> do {
         hr \<leftarrow> ask (store_decommit n);
         if failed hr then result hr else do { change in_drop_alloc; result S_OK } } }"

definition In_SetMediaType :: "mtype \<Rightarrow> (input_pin, store, hresult) action" where
  "In_SetMediaType t = do {
     ok \<leftarrow> ask next_luck;
     if ok \<or> t_block t = [] then do { change (\<lambda>s. s\<lparr>i_type := t\<rparr>); result S_OK }
     else do { change (\<lambda>s. s\<lparr>i_type := blockless t\<rparr>); result E_OUTOFMEMORY } }"

text \<open>\<open>pd\<close> is the direction of the connecting pin.\<close>

definition In_ReceiveConnection ::
  "pin_class \<Rightarrow> direction \<Rightarrow> nat option \<Rightarrow> mtype option \<Rightarrow> (input_pin, store, hresult) action" where
  "In_ReceiveConnection C pd pConnector pmt =
    (if pConnector = None \<or> pmt = None then result E_POINTER
     else do {
       s \<leftarrow> look id;
       let q = the pConnector;
       let t = the pmt;
       if i_Connected s \<noteq> None then result VFW_E_ALREADY_CONNECTED
       else if \<not> i_stopped s \<and> \<not> i_bCanReconnectWhenActive s then result VFW_E_NOT_STOPPED
       else if pd = PINDIR_INPUT then do { _ \<leftarrow> In_BreakConnect; result VFW_E_INVALID_DIRECTION }
       else if c_check C t \<noteq> S_OK then do { _ \<leftarrow> In_BreakConnect; result (type_error (c_check C t)) }
       else do {
         change (\<lambda>s. (in_bump (R_Pin q) 1 s)\<lparr>i_Connected := Some q\<rparr>);
         hr \<leftarrow> In_SetMediaType t;
         if succeeded hr then result S_OK
         else do { change in_drop_connected; _ \<leftarrow> In_BreakConnect; result hr } } })"

definition In_Disconnect :: "(input_pin, store, hresult) action" where
  "In_Disconnect = do {
     s \<leftarrow> look id;
     if \<not> i_stopped s then result VFW_E_NOT_STOPPED
     else if i_Connected s = None then result S_FALSE
     else do {
       hr \<leftarrow> In_BreakConnect;
       if failed hr then result hr else do { change in_drop_connected; result S_OK } } }"

definition In_QueryAccept :: "pin_class \<Rightarrow> mtype \<Rightarrow> hresult" where
  "In_QueryAccept C t = (if failed (c_check C t) then S_FALSE else c_check C t)"

section \<open>Transport\<close>

text \<open>The reference handed out is counted by the caller.\<close>

definition In_GetAllocator :: "(input_pin, store, hresult \<times> nat option) action" where
  "In_GetAllocator = do {
     a \<leftarrow> look i_pAllocator;
     if a \<noteq> None then result (S_OK, a)
     else do {
       (hr, b) \<leftarrow> ask store_create;
       if failed hr then result (hr, None)
       else do {
         change (\<lambda>s. (in_bump (R_Alloc (the b)) 1 s)\<lparr>i_pAllocator := b\<rparr>);
         result (S_OK, b) } } }"

definition In_NotifyAllocator :: "nat option \<Rightarrow> bool \<Rightarrow> (input_pin, store, hresult) action" where
  "In_NotifyAllocator a bReadOnly =
    (case a of
       None \<Rightarrow> result E_POINTER
     | Some n \<Rightarrow> do {
         change (\<lambda>s. (in_bump (R_Alloc n) 1 (in_drop_alloc s))\<lparr>i_pAllocator := Some n, i_bReadOnly := bReadOnly\<rparr>);
         result S_OK })"

definition In_GetAllocatorRequirements :: "allocator_properties \<Rightarrow> hresult \<times> allocator_properties" where
  "In_GetAllocatorRequirements r = (E_NOTIMPL, r)"

definition In_Inactive :: "(input_pin, store, hresult) action" where
  "In_Inactive = do {
     change (\<lambda>s. s\<lparr>i_bRunTimeError := False\<rparr>);
     a \<leftarrow> look i_pAllocator;
     case a of
       None \<Rightarrow> result VFW_E_NO_ALLOCATOR
     | Some n \<Rightarrow> do { change (\<lambda>s. s\<lparr>i_bFlushing := False\<rparr>); ask (store_decommit n) } }"

section \<open>References\<close>

definition in_wired :: "input_pin \<Rightarrow> bool" where
  "in_wired s \<longleftrightarrow> i_refs s = (\<lambda>r. case r of
     R_Pin n \<Rightarrow> of_bool (i_Connected s = Some n)
   | R_MemInput n \<Rightarrow> 0
   | R_Alloc n \<Rightarrow> of_bool (i_pAllocator s = Some n))"

lemma in_wired_changes:
  "in_wired s \<Longrightarrow> in_wired (in_drop_alloc s)" "in_wired s \<Longrightarrow> in_wired (in_drop_connected s)"
  "in_wired s \<Longrightarrow> i_Connected s = None \<Longrightarrow> in_wired ((in_bump (R_Pin q) 1 s)\<lparr>i_Connected := Some q\<rparr>)"
  "in_wired s \<Longrightarrow> i_pAllocator s = None \<Longrightarrow> in_wired ((in_bump (R_Alloc n) 1 s)\<lparr>i_pAllocator := Some n\<rparr>)"
  "in_wired s \<Longrightarrow> i_pAllocator s = None \<Longrightarrow> in_wired ((in_bump (R_Alloc n) 1 s)\<lparr>i_pAllocator := Some n, i_bReadOnly := b\<rparr>)"
  "in_wired s \<Longrightarrow> in_wired (s\<lparr>i_type := t\<rparr>)" "in_wired new_input_pin"
  by (auto simp: in_wired_def in_bump_def in_drop_alloc_def in_drop_connected_def new_input_pin_def fun_eq_iff
      split: com_ref.splits option.splits)

lemma in_change_simps [simp]:
  "i_Connected (in_drop_alloc s) = i_Connected s" "i_pAllocator (in_drop_alloc s) = None"
  "i_type (in_drop_alloc s) = i_type s" "i_stopped (in_drop_alloc s) = i_stopped s"
  "i_Connected (in_drop_connected s) = None" "i_pAllocator (in_drop_connected s) = i_pAllocator s"
  "i_type (in_drop_connected s) = i_type s" "i_stopped (in_drop_connected s) = i_stopped s"
  "i_Connected (in_bump r d s) = i_Connected s" "i_pAllocator (in_bump r d s) = i_pAllocator s"
  "i_type (in_bump r d s) = i_type s" "i_stopped (in_bump r d s) = i_stopped s"
  by (simp_all add: in_bump_def in_drop_alloc_def in_drop_connected_def split: option.splits)

section \<open>The surroundings of the virtual camera's pin\<close>

text \<open>
  The virtual pin asks the allocator for one buffer that takes a frame. What \<open>SetProperties\<close> will
  answer is passed to the model of \<open>DecideBufferSize\<close>, and the allocator changes accordingly.
\<close>

definition virtual_decide ::
  "u32 \<Rightarrow> nat option \<Rightarrow> allocator_properties \<Rightarrow> store \<Rightarrow> (hresult \<times> allocator_properties) \<times> store" where
  "virtual_decide g a r w =
    (case a of
       None \<Rightarrow> ((fst (Virtual_DecideBufferSize None (Some r)), r), w)
     | Some n \<Rightarrow>
         let set_props = (\<lambda>q. case Mem_SetProperties g q (w_alloc w n) of
                            (hr, act, _) \<Rightarrow> (hr, case act of None \<Rightarrow> no_props | Some x \<Rightarrow> x));
             (hr, r1) = Virtual_DecideBufferSize (Some set_props) (Some r)
         in ((hr, the r1),
             w\<lparr>w_alloc := (w_alloc w)(n := snd (snd (Mem_SetProperties g (the r1) (w_alloc w n))))\<rparr>))"

definition enumerate :: "pin_class \<Rightarrow> (input_pin, store, hresult \<times> hresult \<times> mtype list) action" where
  "enumerate C = do { ok \<leftarrow> ask next_luck; result (if ok then S_OK else E_OUTOFMEMORY, S_OK, c_types C) }"

text \<open>\<open>V\<close> is the class of the output pin, number 0; \<open>C\<close> that of the input pin it meets.\<close>

definition meeting ::
  "alloc_answers \<Rightarrow> u32 \<Rightarrow> pin_class \<Rightarrow> pin_class \<Rightarrow> (input_pin, store) situation surroundings" where
  "meeting a g V C =
     \<lparr>ext_direction = (\<lambda>_ e. (PINDIR_INPUT, e)),
      ext_meminput = (\<lambda>_ e. (S_OK, e)),
      ext_enum = (\<lambda>_. run_state (enumerate C)),
      ext_accept = (\<lambda>_ t e. (In_QueryAccept C t, e)),
      ext_receive = (\<lambda>_ t. run_state (In_ReceiveConnection C PINDIR_OUTPUT (Some 0) (Some t))),
      ext_disconnect = (\<lambda>_. run_state In_Disconnect),
      ext_requirements = (\<lambda>_ r e. (snd (In_GetAllocatorRequirements r), e)),
      ext_allocator = (\<lambda>_. run_state In_GetAllocator),
      ext_notify = (\<lambda>_ x b. run_state (In_NotifyAllocator x b)),
      ext_new_allocator = run_state (ask store_create),
      ext_commit = (\<lambda>n. run_state (ask (store_commit a n))),
      ext_decommit = (\<lambda>n. run_state (ask (store_decommit n))),
      own_check = (\<lambda>t e. (c_check V t, e)),
      own_enum = run_state (enumerate V),
      own_decide = (\<lambda>_ x r. run_state (ask (virtual_decide g x r))),
      own_memory = run_state (ask next_luck)\<rparr>"

section \<open>The input pin keeps its side of the protocol\<close>

definition in_state :: "pin_class \<Rightarrow> mtype option \<Rightarrow> input_pin \<Rightarrow> bool" where
  "in_state C t s \<longleftrightarrow> in_wired s \<and> i_stopped s \<and>
     (case t of None \<Rightarrow> i_Connected s = None \<and> i_pAllocator s = None
      | Some ty \<Rightarrow> i_Connected s = Some 0 \<and> i_type s = ty \<and> c_check C ty = S_OK)"

definition roomy :: "nat \<Rightarrow> store \<Rightarrow> bool" where
  "roomy n w \<longleftrightarrow> int PS3EYE_FRAME_SIZE \<le> m_lSize (w_alloc w n) \<and> m_lCount (w_alloc w n) = 1"

lemma decommit_ok: "fst (Decommit A) = S_OK"
  by (auto simp: Decommit_def Let_def)

lemma store_decommit_ok: "fst (store_decommit n w) = S_OK"
  using decommit_ok [of "w_alloc w n"] by (cases "Decommit (w_alloc w n)") (simp add: store_decommit_def)

lemma in_drop_alloc_none: "i_pAllocator s = None \<Longrightarrow> in_drop_alloc s = s"
  by (simp add: in_drop_alloc_def)

text \<open>Breaking the connection always succeeds and drops the allocator.\<close>

lemma wp_In_BreakConnect [simp]:
  "wp In_BreakConnect Q = (\<lambda>s w. Q S_OK (in_drop_alloc s)
     (case i_pAllocator s of None \<Rightarrow> w | Some n \<Rightarrow> snd (store_decommit n w)))"
  by (intro ext) (simp add: In_BreakConnect_def store_decommit_ok in_drop_alloc_none split: option.split)

lemma In_ReceiveConnection_triple:
  "triple (\<lambda>s w. in_state C None s) (In_ReceiveConnection C PINDIR_OUTPUT (Some 0) (Some t))
     (\<lambda>hr s w. in_state C (if succeeded hr then Some t else None) s)"
  by (rule tripleI)
    (auto simp: In_ReceiveConnection_def In_SetMediaType_def Let_def in_state_def type_error_def in_wired_changes)

lemma In_Disconnect_triple: "triple (\<lambda>s w. in_state C (Some t) s) In_Disconnect (\<lambda>hr s w. hr = S_OK \<and> in_state C None s)"
  by (rule tripleI) (auto simp: In_Disconnect_def in_state_def in_wired_changes)

lemma In_GetAllocator_triple:
  "triple (\<lambda>s w. in_state C (Some t) s) In_GetAllocator
     (\<lambda>r s w. in_state C (Some t) s \<and> (succeeded (fst r) \<longrightarrow> snd r \<noteq> None))"
  by (rule tripleI)
    (auto simp: In_GetAllocator_def store_create_def next_luck_def in_state_def in_wired_changes split: prod.split)

lemma In_NotifyAllocator_triple:
  "triple (\<lambda>s w. in_state C (Some t) s) (In_NotifyAllocator x b)
     (\<lambda>hr s w. in_state C (Some t) s \<and> (succeeded hr \<longrightarrow> i_pAllocator s = x))"
  by (rule tripleI) (auto simp: In_NotifyAllocator_def in_state_def in_wired_changes split: option.split)

lemma virtual_decide_roomy:
  assumes "succeeded (fst (fst (virtual_decide g (Some n) r w)))"
  shows "roomy n (snd (virtual_decide g (Some n) r w))"
proof -
  let ?q = "r\<lparr>cBuffers := 1, cbBuffer := int PS3EYE_FRAME_SIZE\<rparr>"
  obtain hr act A where m: "Mem_SetProperties g ?q (w_alloc w n) = (hr, act, A)" by (cases "Mem_SetProperties g ?q (w_alloc w n)")
  have ok: "succeeded hr" and le: "int PS3EYE_FRAME_SIZE \<le> cbBuffer (case act of None \<Rightarrow> no_props | Some x \<Rightarrow> x)"
    using assms m by (auto simp: virtual_decide_def Virtual_DecideBufferSize_def Let_def split: if_splits)
  have "act = Some (?q\<lparr>cbBuffer := m_lSize A\<rparr>) \<and> m_lCount A = 1"
    using m ok by (auto simp: Mem_SetProperties_def agree_def Let_def split: if_splits)
  then have "int PS3EYE_FRAME_SIZE \<le> m_lSize A" "m_lCount A = 1" using le by auto
  moreover have "w_alloc (snd (virtual_decide g (Some n) r w)) n = A"
    using m by (simp add: virtual_decide_def Virtual_DecideBufferSize_def Let_def split: prod.split)
  ultimately show ?thesis by (simp add: roomy_def)
qed

lemma store_create_hands_out:
  "succeeded (fst (fst (store_create w))) \<Longrightarrow> snd (fst (store_create w)) \<noteq> None"
  by (auto simp: store_create_def split: prod.splits if_splits)

lemma GetAllocator_hands_out:
  "succeeded (fst (fst (run_state In_GetAllocator e))) \<Longrightarrow> snd (fst (run_state In_GetAllocator e)) \<noteq> None"
  using store_create_hands_out [of "env e"]
  by (auto simp: In_GetAllocator_def split: prod.splits if_splits option.splits)

lemma NotifyAllocator_effect:
  "i_pAllocator (own (snd (run_state (In_NotifyAllocator (Some n) b) e))) = Some n"
  "env (snd (run_state (In_NotifyAllocator (Some n) b) e)) = env e"
  by (simp_all add: In_NotifyAllocator_def)

lemma enumerate_own: "own (snd (run_state (enumerate C) e)) = own e"
  by (simp add: enumerate_def split: prod.split)

lemmas in_laws =
  triple_run [OF In_ReceiveConnection_triple] triple_run [OF In_Disconnect_triple, THEN conjunct2]
  triple_run [OF In_GetAllocator_triple, THEN conjunct1] triple_run [OF In_NotifyAllocator_triple, THEN conjunct1]
  GetAllocator_hands_out store_create_hands_out NotifyAllocator_effect enumerate_own store_decommit_ok virtual_decide_roomy

interpretation meet: connecting "meeting a g V C" 1 "\<lambda>t e. in_state C t (own e)" "\<lambda>n e. roomy n (env e)"
    "\<lambda>n e. i_pAllocator (own e) = Some n \<and> roomy n (env e)" "\<lambda>t. c_check V t = S_OK" for a g V C
  by unfold_locales (simp_all add: meeting_def in_laws)

section \<open>Properties\<close>

definition at_rest :: "output_pin \<Rightarrow> input_pin \<Rightarrow> bool" where
  "at_rest s i \<longleftrightarrow> m_Connected s = None \<and> m_pInputPin s = None \<and> m_pAllocator s = None \<and> refs s = (\<lambda>_. 0)
     \<and> i_Connected i = None \<and> i_pAllocator i = None \<and> i_refs i = (\<lambda>_. 0)"

definition together :: "nat \<Rightarrow> output_pin \<Rightarrow> input_pin \<Rightarrow> bool" where
  "together n s i \<longleftrightarrow> m_Connected s = Some 1 \<and> i_Connected i = Some 0 \<and> m_pInputPin s = Some 1
     \<and> m_pAllocator s = Some n \<and> i_pAllocator i = Some n \<and> m_type s = i_type i
     \<and> refs s = (\<lambda>r. of_bool (r \<in> {R_Pin 1, R_MemInput 1, R_Alloc n}))
     \<and> i_refs i = (\<lambda>r. of_bool (r \<in> {R_Pin 0, R_Alloc n}))"

lemma all_com_ref: "(\<forall>r. P r) \<longleftrightarrow> (\<forall>n. P (R_Pin n)) \<and> (\<forall>n. P (R_MemInput n)) \<and> (\<forall>n. P (R_Alloc n))"
  by (metis com_ref.exhaust)

lemma rest_iff:
  "at_rest s i \<longleftrightarrow> wired s \<and> m_Connected s = None \<and> m_pInputPin s = None \<and> m_pAllocator s = None
     \<and> in_wired i \<and> i_Connected i = None \<and> i_pAllocator i = None"
  by (auto simp: at_rest_def wired_def in_wired_def fun_eq_iff all_com_ref)

lemma together_iff:
  "together n s i \<longleftrightarrow> wired s \<and> m_Connected s = Some 1 \<and> m_pInputPin s = Some 1 \<and> m_pAllocator s = Some n
     \<and> in_wired i \<and> i_Connected i = Some 0 \<and> i_pAllocator i = Some n \<and> m_type s = i_type i"
  by (auto simp: together_def wired_def in_wired_def fun_eq_iff all_com_ref)

lemma meet_stage:
  "meet.stage C c i a t s e \<longleftrightarrow> wired s \<and> m_Connected s = c \<and> m_pInputPin s = i \<and> m_pAllocator s = a \<and> in_state C t (own e)"
  by (auto simp: meet.stage_def)

text \<open>C18: Connecting is all or nothing, on both sides. Whatever types the two pins prefer and accept,
  with any request for memory refused, after \<open>Connect\<close> either both pins are connected to each other
  with one media type that both accept and that fits the type asked for, they share one allocator
  whose single buffer takes a frame, and each holds exactly one reference to what it points to; or
  an error code is returned and both pins are as unconnected as before and hold no reference.\<close>

theorem connecting_is_all_or_nothing:
  assumes "at_rest s i" and "m_stopped s" and "i_stopped i"
    and "run_state (Pin_Connect (meeting a g V C) (Some 1) pmt) \<lparr>own = s, env = \<lparr>own = i, env = w\<rparr>\<rparr> = (hr, x)"
  shows "if succeeded hr
    then hr = S_OK \<and> (\<exists>n. together n (own x) (own (env x)) \<and> roomy n (env (env x)))
      \<and> c_check V (m_type (own x)) = S_OK \<and> c_check C (m_type (own x)) = S_OK
      \<and> (pmt = None \<or> m_type (own x) = the pmt \<or> matches_partial (m_type (own x)) (the pmt))
    else at_rest (own x) (own (env x))"
proof -
  have start: "meet.stage C None None None None s \<lparr>own = i, env = w\<rparr> \<and> (m_stopped s \<or> m_bCanReconnectWhenActive s)"
    unfolding meet_stage using assms(1-3) by (simp add: rest_iff in_state_def)
  have "meet.connected C V pmt hr (own x) (env x)"
    using tripleD [OF meet.Connect_triple start assms(4)] .
  then show ?thesis
    unfolding meet.connected_def meet_stage meet.fits_def
    by (auto simp: rest_iff together_iff in_state_def
        split: if_splits option.splits)
qed


lemma meeting_sel:
  "ext_direction (meeting a g V C) n e = (PINDIR_INPUT, e)" "ext_meminput (meeting a g V C) n e = (S_OK, e)"
  "ext_enum (meeting a g V C) n = run_state (enumerate C)" "ext_accept (meeting a g V C) n ty e = (In_QueryAccept C ty, e)"
  "ext_receive (meeting a g V C) n ty = run_state (In_ReceiveConnection C PINDIR_OUTPUT (Some 0) (Some ty))"
  "ext_requirements (meeting a g V C) n r e = (r, e)"
  "ext_allocator (meeting a g V C) n = run_state In_GetAllocator"
  "ext_notify (meeting a g V C) n x b = run_state (In_NotifyAllocator x b)"
  "own_check (meeting a g V C) ty e = (c_check V ty, e)"
  "own_enum (meeting a g V C) = run_state (enumerate V)" "own_decide (meeting a g V C) ty x r = run_state (ask (virtual_decide g x r))"
  "own_memory (meeting a g V C) = run_state (ask next_luck)"
  by (simp_all add: meeting_def In_GetAllocatorRequirements_def)

lemma rounded_frame: "rounded_size (no_props\<lparr>cbAlign := 1, cBuffers := 1, cbBuffer := int PS3EYE_FRAME_SIZE\<rparr>) = int PS3EYE_FRAME_SIZE"
  by (simp add: rounded_size_def no_props_def Let_def c_rem_mod long_same PS3EYE_FRAME_SIZE_def PS3EYE_WIDTH_def
      PS3EYE_HEIGHT_def PS3EYE_BYTES_PER_PIXEL_def)

lemma virtual_decide_fresh:
  assumes "w_alloc w n = new_allocator"
  shows "fst (virtual_decide g (Some n) (no_props\<lparr>cbAlign := 1\<rparr>) w)
    = (S_OK, no_props\<lparr>cbAlign := 1, cBuffers := 1, cbBuffer := int PS3EYE_FRAME_SIZE\<rparr>)"
proof -
  have "Mem_SetProperties g (no_props\<lparr>cbAlign := 1, cBuffers := 1, cbBuffer := int PS3EYE_FRAME_SIZE\<rparr>) new_allocator
      = agree (int PS3EYE_FRAME_SIZE) (no_props\<lparr>cbAlign := 1, cBuffers := 1, cbBuffer := int PS3EYE_FRAME_SIZE\<rparr>) new_allocator"
    unfolding Mem_SetProperties_def rounded_frame by (simp add: new_allocator_def)
  then show ?thesis using assms by (simp add: virtual_decide_def Virtual_DecideBufferSize_def agree_def Let_def)
qed

text \<open>With memory at hand, everything goes its way.\<close>

definition suits :: "mtype \<Rightarrow> hresult \<Rightarrow> output_pin \<Rightarrow> (input_pin, store) situation \<Rightarrow> bool" where
  "suits t hr s e \<longleftrightarrow> hr = S_OK \<and> m_type s = t \<and> i_type (own e) = t"

lemma CompleteConnect_suits:
  assumes "i_pAllocator (own e) = None" "luck (env e) = (\<lambda>_. True)" "m_type s = t" "i_type (own e) = t"
  shows "wp (Out_CompleteConnect (meeting a g V C) p) (suits t) s e"
  using assms
  by (simp add: Out_CompleteConnect_def DecideAllocator_def try_allocator_def agree_on_def meeting_sel no_props_def
      In_GetAllocator_def In_NotifyAllocator_def store_create_def next_luck_def virtual_decide_fresh [unfolded no_props_def, simplified] suits_def
      split del: if_split cong: if_cong)

lemma wp_suits:
  assumes "wp m (suits t) s e" "\<And>s e. m_type s = t \<Longrightarrow> i_type (own e) = t \<Longrightarrow> Q S_OK s e"
  shows "wp m Q s e"
  using assms by (auto simp: wp_def suits_def split: prod.splits)

lemma AttemptConnection_suits:
  assumes "i_Connected (own e) = None" "i_stopped (own e)" "i_pAllocator (own e) = None" "luck (env e) = (\<lambda>_. True)"
    "c_check V t = S_OK" "c_check C t = S_OK"
  shows "wp (AttemptConnection (meeting a g V C) 1 t) (suits t) s e"
  using assms
  by (simp add: AttemptConnection_def Out_CheckConnect_def Base_CheckConnect_def meeting_sel take_type_def Pin_SetMediaType_def
      next_luck_def offer_type_def In_ReceiveConnection_def In_SetMediaType_def split del: if_split cong: if_cong)
    (rule wp_suits [OF CompleteConnect_suits], simp_all add: suits_def)

lemma Connect_suits:
  assumes "at_rest s i" "m_stopped s" "i_stopped i" "luck w = (\<lambda>_. True)"
    "c_types C = []" "c_types V = t # ts" "c_check V t = S_OK" "c_check C t = S_OK"
  shows "wp (Pin_Connect (meeting a g V C) (Some 1) None) (suits t) s \<lparr>own = i, env = w\<rparr>"
proof -
  have c: "wp (AttemptConnection (meeting a g V C) 1 t) (suits t) s \<lparr>own = i, env = w\<rparr>"
    if "luck w = (\<lambda>_. True)" for w
    using assms that by (intro AttemptConnection_suits) (auto simp: at_rest_def)
  have "wp (try_types (meeting a g V C) 1 None S_OK (t # ts)) (suits t) s \<lparr>own = i, env = w\<rparr>"
    if "luck w = (\<lambda>_. True)" for w
    using wp_suits [OF c [OF that]] by (simp add: suits_def)
  note d = wp_suits [OF this]
  show ?thesis
    using assms(1-6)
    by (cases "m_bTryMyTypesFirst s")
      (auto simp: at_rest_def Pin_Connect_def AgreeMediaType_def meeting_sel enumerate_def next_luck_def TryMediaTypes_def
       suits_def simp del: try_types.simps(2) One_nat_def intro!: d)
qed

lemmas connect_suits_run = wp_run [OF Connect_suits, unfolded suits_def]

text \<open>C19: A meeting of pins that suit each other ends in a connection: when memory is there, the input
  pin states no preference and the first type the output pin prefers is acceptable to both, that
  type is agreed on, whosever preferences are tried first and whatever the system's granularity.\<close>

theorem connecting_succeeds:
  assumes "at_rest s i" and "m_stopped s" and "i_stopped i" and "luck w = (\<lambda>_. True)"
    and "c_types C = []" and "c_types V = t # ts" and "c_check V t = S_OK" and "c_check C t = S_OK"
  shows "\<exists>x. run_state (Pin_Connect (meeting a g V C) (Some 1) None) \<lparr>own = s, env = \<lparr>own = i, env = w\<rparr>\<rparr> = (S_OK, x)
    \<and> m_type (own x) = t \<and> i_type (own (env x)) = t"
  using connect_suits_run [OF assms surjective_pairing] by (metis surjective_pairing)

lemma decommitted: "\<not> m_bCommitted (w_alloc (snd (store_decommit n w)) n)"
  by (auto simp: store_decommit_def Decommit_def NotifySample_def Let_def split: prod.split)

text \<open>C20: Disconnecting both ends, as the filter graph does, undoes a connection: both calls succeed, neither pin
  keeps a pointer or a reference, and the allocator they shared ends decommitted.\<close>

theorem disconnecting_undoes:
  assumes "together n s i" and "m_stopped s" and "i_stopped i"
    and "run_state (Pin_Disconnect (meeting a g V C)) \<lparr>own = s, env = \<lparr>own = i, env = w\<rparr>\<rparr> = (hr, x)"
    and "run_state In_Disconnect (env x) = (hr1, y)"
  shows "hr = S_OK \<and> hr1 = S_OK \<and> at_rest (own x) (own y) \<and> \<not> m_bCommitted (w_alloc (env y) n)"
proof -
  let ?w = "snd (store_decommit n w)"
  have s: "wired s" "m_Connected s = Some 1" "m_pInputPin s = Some 1" "m_pAllocator s = Some n"
    and i: "in_wired i" "i_Connected i = Some 0" "i_pAllocator i = Some n"
    using assms(1) unfolding together_iff by auto
  have "hr = S_OK \<and> wired (own x) \<and> m_Connected (own x) = None \<and> m_pInputPin (own x) = None
      \<and> m_pAllocator (own x) = None \<and> env x = \<lparr>own = i, env = ?w\<rparr>"
    by (rule wp_run [OF _ assms(4)])
      (use s assms(2) in \<open>simp add: Pin_Disconnect_def DisconnectInternal_def Out_BreakConnect_def meeting_def store_decommit_ok wired_changes\<close>)
  moreover have "hr1 = S_OK \<and> in_wired (own y) \<and> i_Connected (own y) = None \<and> i_pAllocator (own y) = None
      \<and> env y = snd (store_decommit n ?w)" if "env x = \<lparr>own = i, env = ?w\<rparr>"
    using assms(5) unfolding that
    by (rule wp_run [rotated]) (use i assms(3) in \<open>simp add: In_Disconnect_def in_wired_changes\<close>)
  ultimately show ?thesis unfolding rest_iff by (simp add: decommitted)
qed


section \<open>The input pin in anybody's hands\<close>

text \<open>The methods that change the pin, and a state change of its filter, with any arguments.\<close>

datatype in_op =
    I_ReceiveConnection direction "nat option" "mtype option" | I_Disconnect | I_GetAllocator
  | I_NotifyAllocator "nat option" bool | I_Inactive | I_Stopped bool

primrec in_step :: "pin_class \<Rightarrow> in_op \<Rightarrow> (input_pin, store, unit) action" where
  "in_step C (I_ReceiveConnection d q t) = do { _ \<leftarrow> In_ReceiveConnection C d q t; result () }"
| "in_step C I_Disconnect = do { _ \<leftarrow> In_Disconnect; result () }"
| "in_step C I_GetAllocator = do { _ \<leftarrow> In_GetAllocator; result () }"
| "in_step C (I_NotifyAllocator a b) = do { _ \<leftarrow> In_NotifyAllocator a b; result () }"
| "in_step C I_Inactive = do { _ \<leftarrow> In_Inactive; result () }"
| "in_step C (I_Stopped b) = change (\<lambda>s. s\<lparr>i_stopped := b\<rparr>)"

primrec in_run :: "pin_class \<Rightarrow> in_op list \<Rightarrow> (input_pin, store, unit) action" where
  "in_run C [] = result ()"
| "in_run C (op # ops) = do { _ \<leftarrow> in_step C op; in_run C ops }"

definition well_formed :: "pin_class \<Rightarrow> input_pin \<Rightarrow> bool" where
  "well_formed C s \<longleftrightarrow> in_wired s \<and> (i_Connected s \<noteq> None \<longrightarrow> c_check C (i_type s) = S_OK)"

lemma in_step_well_formed: "triple (\<lambda>s w. well_formed C s) (in_step C op) (\<lambda>_ s w. well_formed C s)"
proof (rule tripleI)
  fix s w
  assume s: "well_formed C s"
  have flags: "well_formed C (s\<lparr>i_stopped := b\<rparr>)" "well_formed C (s\<lparr>i_bRunTimeError := b\<rparr>)"
    "well_formed C (s\<lparr>i_bRunTimeError := b, i_bFlushing := b'\<rparr>)" for b b'
    using s by (auto simp: well_formed_def in_wired_def)
  show "wp (in_step C op) (\<lambda>_ s w. well_formed C s) s w"
  proof (cases op)
    case (I_ReceiveConnection d q t)
    then show ?thesis using s
      by (auto simp: In_ReceiveConnection_def In_SetMediaType_def Let_def well_formed_def in_wired_changes)
  next
    case I_Disconnect
    then show ?thesis using s by (auto simp: In_Disconnect_def well_formed_def in_wired_changes)
  next
    case I_GetAllocator
    then show ?thesis using s
      by (auto simp: In_GetAllocator_def store_create_def next_luck_def well_formed_def in_wired_changes split: prod.split)
  next
    case (I_NotifyAllocator a b)
    then show ?thesis using s by (auto simp: In_NotifyAllocator_def well_formed_def in_wired_changes split: option.split)
  next
    case I_Inactive
    then show ?thesis using flags by (auto simp: In_Inactive_def split: option.split)
  qed (use flags in simp)
qed

lemma in_run_well_formed: "triple (\<lambda>s w. well_formed C s) (in_run C ops) (\<lambda>_ s w. well_formed C s)"
proof (induction ops)
  case (Cons op ops)
  show ?case by (rule tripleI) (auto intro!: triple_wp [OF in_step_well_formed] triple_wp [OF Cons])
qed (simp add: triple_def)

text \<open>C23: Whatever the callers of an input pin do, in any order and with any arguments, and whatever memory
  they find: it holds exactly the references that its pointers account for, and while it is connected
  its media type is one that its class accepts.\<close>

theorem input_pin_is_always_well_formed:
  "well_formed C (own (snd (run_state (in_run C ops) \<lparr>own = new_input_pin, env = w\<rparr>)))"
  using triple_run [OF in_run_well_formed, of C "\<lparr>own = new_input_pin, env = w\<rparr>" ops]
  by (simp add: well_formed_def in_wired_changes) (simp add: new_input_pin_def)

section \<open>Examples\<close>

definition demo_video :: mtype where
  "demo_video = \<lparr>t_head = InitMediaType\<lparr>majortype := MEDIATYPE_Video, subtype := MEDIASUBTYPE_RGB24\<rparr>, t_block = []\<rparr>"

definition demo_camera :: pin_class where
  "demo_camera = \<lparr>c_check = (\<lambda>t. if majortype (t_head t) = MEDIATYPE_Video then S_OK else E_INVALIDARG), c_types = [demo_video]\<rparr>"

definition demo_viewer :: pin_class where
  "demo_viewer = \<lparr>c_check = (\<lambda>t. if subtype (t_head t) = MEDIASUBTYPE_RGB24 then S_OK else E_INVALIDARG), c_types = []\<rparr>"

definition demo_store :: store where
  "demo_store = \<lparr>w_alloc = (\<lambda>_. new_allocator), w_next = 5, w_heap = empty_heap, luck = (\<lambda>_. True)\<rparr>"

definition demo_end :: "hresult \<times> (output_pin, (input_pin, store) situation) situation" where
  "demo_end = run_state (Pin_Connect (meeting demo_answers 0 demo_camera demo_viewer) (Some 1) None)
     \<lparr>own = new_output_pin, env = \<lparr>own = new_input_pin, env = demo_store\<rparr>\<rparr>"

lemmas demo_meeting = demo_video_def demo_camera_def demo_viewer_def demo_store_def

lemma demo_rest: "at_rest new_output_pin new_input_pin" "m_stopped new_output_pin" "i_stopped new_input_pin"
  by (simp_all add: at_rest_def new_output_pin_def new_input_pin_def)

lemma demo_connects: "fst demo_end = S_OK \<and> m_type (own (snd demo_end)) = demo_video"
  unfolding demo_end_def
  using connect_suits_run [OF demo_rest _ _ _ _ _ surjective_pairing] by (simp add: demo_meeting)

theorem connecting_is_all_or_nothing_witness:
  "\<exists>n. fst demo_end = S_OK \<and> together n (own (snd demo_end)) (own (env (snd demo_end))) \<and> roomy n (env (env (snd demo_end)))"
  using demo_connects
    connecting_is_all_or_nothing [OF demo_rest surjective_pairing, of demo_answers 0 demo_camera demo_viewer None demo_store,
      folded demo_end_def]
  by auto

theorem connecting_succeeds_witness:
  "\<exists>x. run_state (Pin_Connect (meeting demo_answers 0 demo_camera demo_viewer) (Some 1) None)
     \<lparr>own = new_output_pin, env = \<lparr>own = new_input_pin, env = demo_store\<rparr>\<rparr> = (S_OK, x)
    \<and> m_type (own x) = demo_video \<and> i_type (own (env x)) = demo_video"
  by (rule connecting_succeeds [OF demo_rest]) (simp_all add: demo_meeting)

definition demo_out :: output_pin where
  "demo_out = new_output_pin\<lparr>m_Connected := Some 1, m_pInputPin := Some 1, m_pAllocator := Some 5, m_type := demo_video,
     refs := (\<lambda>r. of_bool (r \<in> {R_Pin 1, R_MemInput 1, R_Alloc 5}))\<rparr>"

definition demo_in :: input_pin where
  "demo_in = new_input_pin\<lparr>i_Connected := Some 0, i_type := demo_video, i_pAllocator := Some 5,
     i_refs := (\<lambda>r. of_bool (r \<in> {R_Pin 0, R_Alloc 5}))\<rparr>"

theorem disconnecting_undoes_witness:
  "let p = run_state (Pin_Disconnect (meeting demo_answers 0 demo_camera demo_viewer))
         \<lparr>own = demo_out, env = \<lparr>own = demo_in, env = demo_store\<lparr>w_alloc := (\<lambda>_. new_allocator\<lparr>m_bCommitted := True\<rparr>)\<rparr>\<rparr>\<rparr>;
       q = run_state In_Disconnect (env (snd p))
   in fst p = S_OK \<and> fst q = S_OK \<and> at_rest (own (snd p)) (own (snd q)) \<and> \<not> m_bCommitted (w_alloc (env (snd q)) 5)"
  unfolding Let_def
  by (rule disconnecting_undoes [OF _ _ _ surjective_pairing surjective_pairing])
    (simp_all add: demo_out_def demo_in_def together_def new_output_pin_def new_input_pin_def)

end
