(* ===== verification/Streaming.thy ===== *)
theory Streaming
  imports InputPin
begin

text \<open>
  Samples on a connection: what an output pin passes downstream (CBaseOutputPin) and how an input
  pin takes it (CBaseInputPin), from baseclasses/amfilter.cpp. An input pin refuses samples while its
  filter is stopped, while it flushes and after a run time error, and looks in each sample for a change
  of media type.
\<close>

section \<open>Passing samples on\<close>

text \<open>The pin that is connected, and the call that is then made to it.\<close>

definition Out_Deliver :: "('s \<Rightarrow> hresult \<times> 's) \<Rightarrow> output_pin \<Rightarrow> 's \<Rightarrow> hresult \<times> 's" where
  "Out_Deliver receive p s = (if m_pInputPin p = None then (VFW_E_NOT_CONNECTED, s) else receive s)"

definition deliver_control :: "('s \<Rightarrow> hresult \<times> 's) \<Rightarrow> output_pin \<Rightarrow> 's \<Rightarrow> hresult \<times> 's" where
  "deliver_control call p s = (if m_Connected p = None then (VFW_E_NOT_CONNECTED, s) else call s)"

definition GetDeliveryBuffer :: "('s \<Rightarrow> (hresult \<times> 'a option) \<times> 's) \<Rightarrow> output_pin \<Rightarrow> 's \<Rightarrow> (hresult \<times> 'a option) \<times> 's" where
  "GetDeliveryBuffer get p s = (if m_pAllocator p = None then ((E_NOINTERFACE, None), s) else get s)"

section \<open>Flushing\<close>

definition In_BeginFlush :: "input_pin \<Rightarrow> hresult \<times> input_pin" where
  "In_BeginFlush s = (S_OK, s\<lparr>i_bFlushing := True\<rparr>)"

definition In_EndFlush :: "input_pin \<Rightarrow> hresult \<times> input_pin" where
  "In_EndFlush s = (S_OK, s\<lparr>i_bFlushing := False, i_bRunTimeError := False\<rparr>)"

definition CheckStreaming :: "input_pin \<Rightarrow> hresult" where
  "CheckStreaming s =
    (if i_stopped s then VFW_E_WRONG_STATE
     else if i_bFlushing s then S_FALSE
     else if i_bRunTimeError s then VFW_E_RUNTIME_ERROR
     else S_OK)"

section \<open>Receiving\<close>

text \<open>
  Reading a sample call by call, for one that has no IMediaSample2. The two answers are those to the
  allocations of the media type's copy; times that the sample does not have leave what was there.
\<close>

definition the_hard_way ::
  "nat \<Rightarrow> mem option \<Rightarrow> mem option \<Rightarrow> cmedia_sample \<Rightarrow> sample_props \<Rightarrow> heap \<Rightarrow> (sample_props \<times> heap) option" where
  "the_hard_way struct_bytes a1 a2 smp old h = do {
     (hr, pmt, h1) \<leftarrow> Sample_GetMediaType a1 a2 smp h;
     let f1 = (if Sample_IsDiscontinuity smp = S_OK then Sample_Discontinuity else 0);
         f2 = (if Sample_IsPreroll smp = S_OK then f1 OR Sample_Preroll else f1);
         f3 = (if Sample_IsSyncPoint smp = S_OK then f2 OR Sample_SyncPoint else f2);
         (hrt, times) = Sample_GetTime smp;
         f4 = (if succeeded hrt then f3 OR (Sample_TimeValid OR Sample_StopValid) else f3);
         f5 = (if hr = S_OK then f4 OR Sample_TypeChanged else f4)
     in Some (\<lparr>pp_cbData = struct_bytes, pp_dwTypeSpecificFlags = 0, pp_dwSampleFlags = f5,
          pp_lActual = Sample_GetActualDataLength smp,
          pp_tStart = (case times of None \<Rightarrow> pp_tStart old | Some t \<Rightarrow> fst t),
          pp_tStop = (case times of None \<Rightarrow> pp_tStop old | Some t \<Rightarrow> snd t),
          pp_dwStreamId = AM_STREAM_MEDIA, pp_media = Option.bind pmt (hmt h1),
          pp_pbBuffer = snd (Sample_GetPointer smp), pp_cbBuffer = Sample_GetSize smp\<rparr>, h1) }"

text \<open>Calls that \<open>Receive\<close> makes on the pin itself and on its filter.\<close>

datatype receive_call = Call_EndOfStream | Call_NotifyErrorAbort hresult

text \<open>
  \<open>v2\<close> is whether the sample has IMediaSample2; \<open>struct_bytes\<close> the size of the struct it fills. A flag
  for a change of type without a type would be read through a null pointer.
\<close>

definition Receive ::
  "pin_class \<Rightarrow> nat \<Rightarrow> bool \<Rightarrow> mem option \<Rightarrow> mem option \<Rightarrow> cmedia_sample option \<Rightarrow> input_pin \<Rightarrow> heap
     \<Rightarrow> (hresult \<times> input_pin \<times> receive_call list \<times> heap) option" where
  "Receive C struct_bytes v2 a1 a2 pSample s h =
    (case pSample of
       None \<Rightarrow> Some (E_POINTER, s, [], h)
     | Some smp \<Rightarrow>
        if CheckStreaming s \<noteq> S_OK then Some (CheckStreaming s, s, [], h)
        else do {
          (hr, p, h1) \<leftarrow>
            (if v2 then (case Sample_GetProperties struct_bytes struct_bytes True smp h of (hr, q) \<Rightarrow>
                           Some (hr, (case q of None \<Rightarrow> i_SampleProps s | Some (_, p) \<Rightarrow> p), h))
             else map_option (\<lambda>(p, h1). (S_OK, p, h1)) (the_hard_way struct_bytes a1 a2 smp (i_SampleProps s) h));
          let s1 = s\<lparr>i_SampleProps := p\<rparr>;
          if failed hr then Some (hr, s1, [], h1)
          else if pp_dwSampleFlags p AND Sample_TypeChanged = 0 then Some (S_OK, s1, [], h1)
          else do {
            t \<leftarrow> Option.bind (pp_media p) (type_value h1);
            if c_check C t = S_OK then Some (S_OK, s1, [], h1)
            else Some (VFW_E_INVALIDMEDIATYPE, s1\<lparr>i_bRunTimeError := True\<rparr>,
                   [Call_EndOfStream, Call_NotifyErrorAbort VFW_E_TYPE_NOT_ACCEPTED], h1) } })"

text \<open>The loop of \<open>ReceiveMultiple\<close>: the last answer and \<open>*nSamplesProcessed\<close>; \<open>Receive\<close> is virtual.\<close>

primrec receive_loop ::
  "('m \<Rightarrow> 's \<Rightarrow> (hresult \<times> 's) option) \<Rightarrow> 'm list \<Rightarrow> nat \<Rightarrow> nat \<Rightarrow> 's \<Rightarrow> (hresult \<times> nat \<times> 's) option" where
  "receive_loop receive ms 0 k s = Some (S_OK, k, s)"
| "receive_loop receive ms (Suc n) k s =
    (if k \<ge> length ms then None
     else do {
       (hr, s1) \<leftarrow> receive (ms ! k) s;
       if hr \<noteq> S_OK then Some (hr, k, s1) else receive_loop receive ms n (k + 1) s1 })"

definition ReceiveMultiple ::
  "('m \<Rightarrow> 's \<Rightarrow> (hresult \<times> 's) option) \<Rightarrow> 'm list option \<Rightarrow> int \<Rightarrow> 's \<Rightarrow> (hresult \<times> nat option \<times> 's) option" where
  "ReceiveMultiple receive pSamples nSamples s =
    (case pSamples of
       None \<Rightarrow> Some (E_POINTER, None, s)
     | Some ms \<Rightarrow> map_option (\<lambda>(hr, k, s1). (hr, Some k, s1)) (receive_loop receive ms (nat nSamples) 0 s))"

text \<open>
  \<open>ReceiveCanBlock\<close>: the filter's pins in order, each with its direction and, when it is connected,
  whether the other pin has IMemInputPin and what that says.
\<close>

fun can_block :: "(direction \<times> (bool \<times> hresult) option) option list \<Rightarrow> nat \<Rightarrow> hresult" where
  "can_block [] n = (if n = 0 then S_OK else S_FALSE)"
| "can_block (None # ps) n = (if n = 0 then S_OK else S_FALSE)"
| "can_block (Some (d, c) # ps) n =
    (if d \<noteq> PINDIR_OUTPUT then can_block ps n
     else case c of
       None \<Rightarrow> can_block ps n
     | Some (transport, hr) \<Rightarrow> if \<not> transport \<or> hr \<noteq> S_FALSE then S_OK else can_block ps (n + 1))"

text \<open>
  \<open>PassNotify\<close>: to the quality sink, or else to the connected pin if it has IQualityControl; a pointer
  that \<open>QueryInterface\<close> did not set is null.
\<close>

definition PassNotify :: "hresult option \<Rightarrow> hresult option option \<Rightarrow> hresult" where
  "PassNotify sink upstream =
    (case sink of
       Some hr \<Rightarrow> hr
     | None \<Rightarrow> (case upstream of Some (Some hr) \<Rightarrow> hr | _ \<Rightarrow> VFW_E_NOT_FOUND))"


section \<open>Several samples at a time\<close>

lemma receive_loop_io_run:
  assumes "n + k \<le> length ms" "receive_loop receive ms n k s = Some (hr, j, s1)"
  shows "k \<le> j \<and> j \<le> n + k \<and> (if hr = S_OK then j = n + k \<and> io_run receive (drop k (take j ms)) s = Some (replicate (j - k) S_OK, s1)
    else j < n + k \<and> io_run receive (drop k (take (j + 1) ms)) s = Some (replicate (j - k) S_OK @ [hr], s1))"
  using assms
proof (induction n arbitrary: k s)
  case (Suc n)
  have k: "k < length ms" using Suc.prems(1) by simp
  obtain hr1 s2 where r: "receive (ms ! k) s = Some (hr1, s2)"
    using Suc.prems k by (auto split: Option.bind_splits)
  have step: "drop k (take m ms) = ms ! k # drop (Suc k) (take m ms)" if "k < m" "m \<le> length ms" for m
    using that by (metis Cons_nth_drop_Suc length_take min.absorb2 nth_take)
  show ?case
  proof (cases "hr1 = S_OK")
    case True
    then have l: "receive_loop receive ms n (Suc k) s2 = Some (hr, j, s1)" using Suc.prems(2) k r by simp
    note ih = Suc.IH [OF _ l]
    have jk: "Suc k \<le> j \<and> j \<le> n + Suc k" using ih Suc.prems(1) by simp
    then have "j - k = Suc (j - Suc k)" by (metis Suc_diff_Suc Suc_le_eq)
    then show ?thesis using ih jk Suc.prems(1) r True step [of j] step [of "j + 1"] by (auto split: if_splits)
  next
    case False
    then show ?thesis using Suc.prems k r step [of "Suc k"] by auto
  qed
qed simp

text \<open>A batch is taken sample by sample and in order: \<open>ReceiveMultiple\<close> gives the samples one after the
  other to \<open>Receive\<close> until one is not accepted, counts those accepted before it, returns the answer of
  the last call, and touches no sample behind it.\<close>

theorem receive_multiple_takes_a_prefix:
  assumes "ReceiveMultiple receive (Some ms) n s = Some (hr, Some k, s1)" and "n \<le> int (length ms)"
  shows "k \<le> nat n \<and> (if hr = S_OK then k = nat n \<and> io_run receive (take k ms) s = Some (replicate k S_OK, s1)
    else k < nat n \<and> io_run receive (take (k + 1) ms) s = Some (replicate k S_OK @ [hr], s1))"
proof -
  have l: "receive_loop receive ms (nat n) 0 s = Some (hr, k, s1)" using assms(1) by (auto simp: ReceiveMultiple_def)
  have "nat n + 0 \<le> length ms" using assms(2) by simp
  from receive_loop_io_run [OF this l] show ?thesis unfolding drop_0 add_0_right diff_zero by blast
qed

theorem receive_multiple_takes_a_prefix_witness:
  "let receive = (\<lambda>m s. Some (if m < (3 :: nat) then S_OK else S_FALSE, s + m))
   in ReceiveMultiple receive (Some [1, 2, 3, 4]) 4 0 = Some (S_FALSE, Some 2, 6)
    \<and> io_run receive (take 3 [1, 2, 3, 4]) 0 = Some ([S_OK, S_OK, S_FALSE], 6)"
proof -
  let ?r = "\<lambda>m s. Some (if m < (3 :: nat) then S_OK else S_FALSE, s + m)"
  have m: "ReceiveMultiple ?r (Some [1, 2, 3, 4]) 4 0 = Some (S_FALSE, Some 2, 6)"
    by (simp add: ReceiveMultiple_def numeral_eq_Suc)
  from receive_multiple_takes_a_prefix [OF this] m show ?thesis by (simp add: Let_def numeral_eq_Suc)
qed

section \<open>Two ways to read a sample\<close>

lemma CopyMediaType_value:
  assumes "heap_ok h" "mt_ok h rt"
  shows "\<exists>mt h1. CopyMediaType (Some c) rt h = Some (S_OK, mt, h1) \<and> type_value h1 mt = type_value h rt \<and> hmt h1 = hmt h"
proof (cases "cbFormat rt = 0")
  case True
  then show ?thesis by (simp add: CopyMediaType_def type_value_def)
next
  case False
  obtain q b p h1 where q: "pbFormat rt = Some q" "hblk h q = Some (unat (cbFormat rt), b)"
    "CopyMediaType (Some c) rt h = Some (S_OK, rt\<lparr>pbFormat := Some p\<rparr>, unk_add (pUnk rt) 1 h1)"
    "hblk h1 = (hblk h)(p \<mapsto> (unat (cbFormat rt), memcpy c 0 b 0 (unat (cbFormat rt))))" "hmt h1 = hmt h"
    using CopyMediaType_success [OF assms False, of c] by blast
  moreover have "map (memcpy c 0 b 0 n) [0..<n] = map b [0..<n]" for n by (simp add: memcpy_def)
  ultimately show ?thesis using False by (auto simp: type_value_def bytes_def)
qed


lemma CreateMediaType_value:
  assumes "heap_ok h" "mt_ok h rt"
  shows "\<exists>p mt h1. CreateMediaType (Some m) (Some c) rt h = Some (Some p, h1) \<and> hmt h p = None \<and> hmt h1 p = Some mt
    \<and> type_value h1 mt = type_value h rt"
proof -
  let ?p = "hnext h"
  let ?h = "h\<lparr>hmt := (hmt h)(?p \<mapsto> InitMediaType), hnext := Suc ?p\<rparr>"
  have "heap_ok ?h" "mt_ok ?h rt" using assms by (auto simp: heap_ok_struct mt_ok_def)
  from CopyMediaType_value [OF this, of c] obtain mt h1 where c: "CopyMediaType (Some c) rt ?h = Some (S_OK, mt, h1)"
    "type_value h1 mt = type_value ?h rt" by blast
  have "type_value (h1\<lparr>hmt := x\<rparr>) mt = type_value h1 mt" "type_value ?h rt = type_value h rt" for x
    by (simp_all add: type_value_def bytes_def)
  then show ?thesis using c heap_fresh [OF assms(1)] by (auto simp: CreateMediaType_def Let_def)
qed

text \<open>A sample whose flag for a change of type goes with a media type that is there.\<close>

definition typed_sample :: "heap \<Rightarrow> cmedia_sample \<Rightarrow> bool" where
  "typed_sample h smp \<longleftrightarrow> heap_ok h \<and> (m_dwFlags smp AND Sample_TypeChanged \<noteq> 0 \<longrightarrow>
     (\<exists>p mt. m_pMediaType smp = Some p \<and> hmt h p = Some mt \<and> mt_ok h mt))"

lemma mt_ok_value: "mt_ok h mt \<Longrightarrow> \<exists>t. type_value h mt = Some t"
  by (auto simp: mt_ok_def type_value_def bytes_def)

definition has_type :: "cmedia_sample \<Rightarrow> bool" where
  "has_type smp \<longleftrightarrow> m_dwFlags smp AND Sample_TypeChanged \<noteq> 0"

definition sample_type :: "heap \<Rightarrow> cmedia_sample \<Rightarrow> mtype option" where
  "sample_type h smp = do { p \<leftarrow> m_pMediaType smp; mt \<leftarrow> hmt h p; type_value h mt }"

lemma quick_flag: "(m_dwFlags smp AND NOT Sample_MediaTimeValid) AND Sample_TypeChanged = 0 \<longleftrightarrow> \<not> has_type smp"
  by (simp add: has_type_def flag_defs mask_simps)

text \<open>The flags put together the hard way hold the one for a change of type if there is one.\<close>

lemma hard_flag:
  assumes "the_hard_way n a1 a2 smp old h = Some (p, h1)" "Sample_GetMediaType a1 a2 smp h = Some (hr, q, h1)"
  shows "pp_dwSampleFlags p AND Sample_TypeChanged = 0 \<longleftrightarrow> hr \<noteq> S_OK" "pp_media p = Option.bind q (hmt h1)"
    "pp_lActual p = m_lActual smp" "pp_pbBuffer p = m_pBuffer smp" "pp_cbBuffer p = m_cbBuffer smp"
  using assms by (auto simp: the_hard_way_def Let_def flag_defs mask_simps Sample_GetActualDataLength_def
      Sample_GetPointer_def Sample_GetSize_def split: prod.splits if_splits)


lemma hard_way_total:
  assumes "Sample_GetMediaType a1 a2 smp h = Some (hr, q, h1)"
  shows "\<exists>p. the_hard_way n a1 a2 smp old h = Some (p, h1)"
  using assms by (simp add: the_hard_way_def Let_def split: prod.split)

lemma GetMediaType_untyped: "\<not> has_type smp \<Longrightarrow> Sample_GetMediaType a1 a2 smp h = Some (S_FALSE, None, h)"
  by (simp add: Sample_GetMediaType_def has_type_def)

lemma GetMediaType_typed:
  assumes "typed_sample h smp" "has_type smp"
  shows "\<exists>t. sample_type h smp = Some t" "Sample_GetMediaType None a2 smp h = Some (E_OUTOFMEMORY, None, h)"
    "\<exists>p mt h1. Sample_GetMediaType (Some m) (Some c) smp h = Some (S_OK, Some p, h1) \<and> hmt h p = None \<and> hmt h1 p = Some mt
       \<and> type_value h1 mt = sample_type h smp"
proof -
  obtain p mt where t: "m_pMediaType smp = Some p" "hmt h p = Some mt" "mt_ok h mt" "heap_ok h"
    using assms by (auto simp: typed_sample_def has_type_def)
  show "\<exists>t. sample_type h smp = Some t" using mt_ok_value [OF t(3)] t by (simp add: sample_type_def)
  show "Sample_GetMediaType None a2 smp h = Some (E_OUTOFMEMORY, None, h)"
    using assms(2) t by (simp add: Sample_GetMediaType_def has_type_def CreateMediaType_def)
  show "\<exists>p mt h1. Sample_GetMediaType (Some m) (Some c) smp h = Some (S_OK, Some p, h1) \<and> hmt h p = None \<and> hmt h1 p = Some mt
       \<and> type_value h1 mt = sample_type h smp"
    using CreateMediaType_value [OF t(4,3), of m c] assms(2) t
    by (auto simp: Sample_GetMediaType_def has_type_def sample_type_def)
qed

text \<open>What \<open>Receive\<close> decides, once it has found out whether the sample changes the type.\<close>

definition verdict :: "pin_class \<Rightarrow> mtype option \<Rightarrow> hresult \<times> bool \<times> receive_call list" where
  "verdict C t = (case t of
     None \<Rightarrow> (S_OK, False, [])
   | Some ty \<Rightarrow> if c_check C ty = S_OK then (S_OK, False, [])
       else (VFW_E_INVALIDMEDIATYPE, True, [Call_EndOfStream, Call_NotifyErrorAbort VFW_E_TYPE_NOT_ACCEPTED]))"

definition answers_as :: "hresult \<times> bool \<times> receive_call list \<Rightarrow> input_pin \<Rightarrow> (hresult \<times> input_pin \<times> receive_call list \<times> heap) option \<Rightarrow> bool" where
  "answers_as v s r \<longleftrightarrow> (case r of None \<Rightarrow> False | Some (hr, s1, calls, h1) \<Rightarrow>
     hr = fst v \<and> calls = snd (snd v) \<and> s1 = s\<lparr>i_SampleProps := i_SampleProps s1, i_bRunTimeError := fst (snd v)\<rparr>)"

lemma Receive_v2:
  assumes "CheckStreaming s = S_OK" "typed_sample h smp" "n \<noteq> 0"
  shows "answers_as (verdict C (if has_type smp then sample_type h smp else None)) s (Receive C n True a1 a2 (Some smp) s h)"
proof -
  have r: "\<not> i_bRunTimeError s" using assms(1) by (auto simp: CheckStreaming_def split: if_splits)
  show ?thesis
  proof (cases "has_type smp")
    case False
    then show ?thesis using assms(1,3) r quick_flag [of smp]
      by (simp add: Receive_def Sample_GetProperties_def answers_as_def verdict_def)
  next
    case True
    obtain t where t: "sample_type h smp = Some t" using GetMediaType_typed(1) [OF assms(2) True] by blast
    then obtain p mt where "m_pMediaType smp = Some p" "hmt h p = Some mt" "type_value h mt = Some t"
      by (auto simp: sample_type_def split: Option.bind_splits)
    then show ?thesis using assms(1,3) True r t quick_flag [of smp]
      by (simp add: Receive_def Sample_GetProperties_def answers_as_def verdict_def has_type_def)
  qed
qed

lemma Receive_hard:
  assumes "CheckStreaming s = S_OK" "Sample_GetMediaType a1 a2 smp h = Some (hr, q, h1)"
    and "hr = S_OK \<Longrightarrow> \<exists>ty. t = Some ty \<and> Option.bind (Option.bind q (hmt h1)) (type_value h1) = Some ty" "hr \<noteq> S_OK \<Longrightarrow> t = None"
  shows "answers_as (verdict C t) s (Receive C n False a1 a2 (Some smp) s h)
    \<and> (\<exists>r. Receive C n False a1 a2 (Some smp) s h = Some r \<and> snd (snd (snd r)) = h1)"
proof -
  have r: "\<not> i_bRunTimeError s" using assms(1) by (auto simp: CheckStreaming_def split: if_splits)
  obtain p where p: "the_hard_way n a1 a2 smp (i_SampleProps s) h = Some (p, h1)" using hard_way_total [OF assms(2)] by blast
  note flags = hard_flag [OF p assms(2)]
  show ?thesis
  proof (cases "hr = S_OK")
    case True
    then obtain ty a mt where "t = Some ty" "q = Some a" "hmt h1 a = Some mt" "type_value h1 mt = Some ty"
      using assms(3) by (auto split: Option.bind_splits)
    then show ?thesis using assms(1) True r p flags by (simp add: Receive_def answers_as_def verdict_def)
  next
    case False
    then show ?thesis using assms(1,4) r p flags by (simp add: Receive_def answers_as_def verdict_def)
  qed
qed


section \<open>Properties\<close>

text \<open>C22: Reading a sample call by call comes to the same verdict as reading it through IMediaSample2, if
  there is memory for the copy of its media type; but that copy is left behind on the heap. Without the
  memory the change of type is overlooked and the sample accepted, whatever the pin thinks of the type.\<close>

theorem both_ways_reach_the_same_verdict:
  assumes "CheckStreaming s = S_OK" and "typed_sample h smp" and "n \<noteq> 0"
  shows "answers_as (verdict C (if has_type smp then sample_type h smp else None)) s (Receive C n True a1 a2 (Some smp) s h)
    \<and> answers_as (verdict C (if has_type smp then sample_type h smp else None)) s
         (Receive C n False (Some m) (Some c) (Some smp) s h)
    \<and> (has_type smp \<longrightarrow> (\<exists>hr s1 calls h1 p. Receive C n False (Some m) (Some c) (Some smp) s h = Some (hr, s1, calls, h1)
         \<and> hmt h p = None \<and> hmt h1 p \<noteq> None))
    \<and> answers_as (S_OK, False, []) s (Receive C n False None a2 (Some smp) s h)"
proof (cases "has_type smp")
  case False
  note q = GetMediaType_untyped [OF False]
  have "verdict C None = (S_OK, False, [])" by (simp add: verdict_def)
  then show ?thesis
    using Receive_v2 [OF assms, of C a1 a2] Receive_hard [OF assms(1) q [of "Some m" "Some c" h], of None C n]
      Receive_hard [OF assms(1) q [of None a2 h], of None C n] False by simp
next
  case True
  note t = GetMediaType_typed [OF assms(2) True]
  obtain ty where ty: "sample_type h smp = Some ty" using t(1) by blast
  obtain p mt h1 where g: "Sample_GetMediaType (Some m) (Some c) smp h = Some (S_OK, Some p, h1)" "hmt h p = None"
    "hmt h1 p = Some mt" "type_value h1 mt = Some ty"
    using t(3) [of m c] ty by metis
  have hard: "answers_as (verdict C (Some ty)) s (Receive C n False (Some m) (Some c) (Some smp) s h)
      \<and> (\<exists>r. Receive C n False (Some m) (Some c) (Some smp) s h = Some r \<and> snd (snd (snd r)) = h1)"
    by (rule Receive_hard [OF assms(1) g(1)]) (use g in simp_all)
  have "answers_as (verdict C None) s (Receive C n False None a2 (Some smp) s h)"
    by (rule Receive_hard [OF assms(1) t(2), THEN conjunct1]) simp_all
  then have "answers_as (S_OK, False, []) s (Receive C n False None a2 (Some smp) s h)" by (simp add: verdict_def)
  moreover obtain hr s1 calls where "Receive C n False (Some m) (Some c) (Some smp) s h = Some (hr, s1, calls, h1)"
    using hard by (metis prod.collapse)
  with g(2,3) have "\<exists>hr s1 calls h1 p. Receive C n False (Some m) (Some c) (Some smp) s h = Some (hr, s1, calls, h1)
      \<and> hmt h p = None \<and> hmt h1 p \<noteq> None" by blast
  ultimately show ?thesis using Receive_v2 [OF assms, of C a1 a2] hard True ty by simp
qed

theorem both_ways_reach_the_same_verdict_witness:
  "let C = \<lparr>c_check = (\<lambda>t. if subtype (t_head t) = MEDIASUBTYPE_RGB24 then S_OK else E_INVALIDARG), c_types = []\<rparr>;
       s = new_input_pin\<lparr>i_stopped := False\<rparr>;
       smp = blank_sample\<lparr>m_pMediaType := Some 5, m_dwFlags := Sample_TypeChanged\<rparr>;
       h = empty_heap\<lparr>hmt := [5 \<mapsto> InitMediaType], hnext := 6\<rparr>
   in answers_as (VFW_E_INVALIDMEDIATYPE, True, [Call_EndOfStream, Call_NotifyErrorAbort VFW_E_TYPE_NOT_ACCEPTED]) s
        (Receive C 48 False (Some (\<lambda>_. 0)) (Some (\<lambda>_. 0)) (Some smp) s h)
    \<and> answers_as (S_OK, False, []) s (Receive C 48 False None None (Some smp) s h)"
proof -
  let ?s = "new_input_pin\<lparr>i_stopped := False\<rparr>" and ?smp = "blank_sample\<lparr>m_pMediaType := Some 5, m_dwFlags := Sample_TypeChanged\<rparr>"
  let ?h = "empty_heap\<lparr>hmt := [5 \<mapsto> InitMediaType], hnext := 6\<rparr>"
  let ?C = "\<lparr>c_check = (\<lambda>t. if subtype (t_head t) = MEDIASUBTYPE_RGB24 then S_OK else E_INVALIDARG), c_types = []\<rparr>"
  have "CheckStreaming ?s = S_OK" by (simp add: CheckStreaming_def new_input_pin_def)
  moreover have "typed_sample ?h ?smp"
    by (simp add: typed_sample_def heap_ok_def empty_heap_def mt_ok_def InitMediaType_def)
  moreover have "has_type ?smp" "sample_type ?h ?smp = Some \<lparr>t_head = InitMediaType\<lparr>pbFormat := None\<rparr>, t_block = []\<rparr>"
    by (simp_all add: has_type_def flag_defs sample_type_def type_value_def InitMediaType_def)
  moreover have "verdict ?C (Some \<lparr>t_head = InitMediaType\<lparr>pbFormat := None\<rparr>, t_block = []\<rparr>)
      = (VFW_E_INVALIDMEDIATYPE, True, [Call_EndOfStream, Call_NotifyErrorAbort VFW_E_TYPE_NOT_ACCEPTED])"
    by (simp add: verdict_def InitMediaType_def)
  ultimately show ?thesis
    using both_ways_reach_the_same_verdict [of ?s ?h ?smp 48 ?C None None "\<lambda>_. 0" "\<lambda>_. 0"] unfolding Let_def by simp
qed

text \<open>Calls on a pin while its filter runs.\<close>

datatype stream_op = S_Receive bool "mem option" "mem option" "cmedia_sample option" | S_BeginFlush | S_EndFlush

fun stream_step ::
  "pin_class \<Rightarrow> nat \<Rightarrow> stream_op \<Rightarrow> input_pin \<times> heap \<Rightarrow> ((hresult \<times> receive_call list) \<times> (input_pin \<times> heap)) option" where
  "stream_step C n (S_Receive v2 a1 a2 smp) (s, h) =
     map_option (\<lambda>(hr, s1, calls, h1). ((hr, calls), (s1, h1))) (Receive C n v2 a1 a2 smp s h)"
| "stream_step C n S_BeginFlush (s, h) = Some ((fst (In_BeginFlush s), []), (snd (In_BeginFlush s), h))"
| "stream_step C n S_EndFlush (s, h) = Some ((fst (In_EndFlush s), []), (snd (In_EndFlush s), h))"

lemma stream_step_error:
  assumes "stream_step C n op (s, h) = Some ((hr, calls), (s1, h1))" "op \<noteq> S_EndFlush"
  shows "if i_bRunTimeError s then i_bRunTimeError s1 \<and> calls = [] \<and> h1 = h \<and> (op \<noteq> S_BeginFlush \<longrightarrow> hr \<noteq> S_OK)
    else calls = (if i_bRunTimeError s1 then [Call_EndOfStream, Call_NotifyErrorAbort VFW_E_TYPE_NOT_ACCEPTED] else [])
      \<and> (i_bRunTimeError s1 \<longrightarrow> hr = VFW_E_INVALIDMEDIATYPE)"
  using assms
  by (cases op) (auto simp: Receive_def CheckStreaming_def In_BeginFlush_def Let_def
      split: option.splits prod.splits if_splits Option.bind_splits)

lemma latched:
  assumes "io_run (stream_step C n) ops (s, h) = Some (rs, (s1, h1))" "S_EndFlush \<notin> set ops" "i_bRunTimeError s"
  shows "i_bRunTimeError s1 \<and> h1 = h \<and> concat (map snd rs) = [] \<and> length rs = length ops
    \<and> (\<forall>k < length ops. ops ! k \<noteq> S_BeginFlush \<longrightarrow> fst (rs ! k) \<noteq> S_OK)"
  using assms
proof (induction ops arbitrary: s h rs)
  case (Cons op ops)
  obtain hr calls s2 h2 qs where st: "stream_step C n op (s, h) = Some ((hr, calls), (s2, h2))"
    "io_run (stream_step C n) ops (s2, h2) = Some (qs, (s1, h1))" "rs = (hr, calls) # qs"
    using Cons.prems(1) by (auto split: Option.bind_splits)
  have "i_bRunTimeError s2 \<and> calls = [] \<and> h2 = h \<and> (op \<noteq> S_BeginFlush \<longrightarrow> hr \<noteq> S_OK)"
    using stream_step_error [OF st(1)] Cons.prems by auto
  then show ?case using Cons.IH [OF st(2)] Cons.prems st(3) by (auto simp: nth_Cons split: nat.split)
qed simp

text \<open>A type that the pin does not take is reported once. Until \<open>EndFlush\<close>, whatever samples arrive and
  however they are read, the filter graph is told of at most one error, together with the end of the
  stream, and the pin accepts nothing after that.\<close>

theorem one_error_until_the_flush_ends:
  assumes "io_run (stream_step C n) ops (s, h) = Some (rs, (s1, h1))" and "S_EndFlush \<notin> set ops" and "\<not> i_bRunTimeError s"
  shows "concat (map snd rs) = (if i_bRunTimeError s1 then [Call_EndOfStream, Call_NotifyErrorAbort VFW_E_TYPE_NOT_ACCEPTED] else [])
    \<and> (\<forall>j k. j < k \<and> k < length ops \<and> snd (rs ! j) \<noteq> [] \<and> ops ! k \<noteq> S_BeginFlush \<longrightarrow> fst (rs ! k) \<noteq> S_OK)"
  using assms
proof (induction ops arbitrary: s h rs)
  case (Cons op ops)
  obtain hr calls s2 h2 qs where st: "stream_step C n op (s, h) = Some ((hr, calls), (s2, h2))"
    "io_run (stream_step C n) ops (s2, h2) = Some (qs, (s1, h1))" "rs = (hr, calls) # qs"
    using Cons.prems(1) by (auto split: Option.bind_splits)
  have calls: "calls = (if i_bRunTimeError s2 then [Call_EndOfStream, Call_NotifyErrorAbort VFW_E_TYPE_NOT_ACCEPTED] else [])"
    using stream_step_error [OF st(1)] Cons.prems by auto
  show ?case
  proof (cases "i_bRunTimeError s2")
    case True
    have l: "i_bRunTimeError s1" "concat (map snd qs) = []" "length qs = length ops"
      "\<forall>k < length ops. ops ! k \<noteq> S_BeginFlush \<longrightarrow> fst (qs ! k) \<noteq> S_OK"
      using latched [OF st(2) _ True] Cons.prems by auto
    have "snd (qs ! j) = []" if "j < length ops" for j using l(2,3) that by (auto simp: concat_eq_Nil_conv)
    then show ?thesis using l calls True st(3) by (auto simp: nth_Cons split: nat.splits)
  next
    case False
    then have "concat (map snd qs) = (if i_bRunTimeError s1 then [Call_EndOfStream, Call_NotifyErrorAbort VFW_E_TYPE_NOT_ACCEPTED] else [])"
      "\<forall>j k. j < k \<and> k < length ops \<and> snd (qs ! j) \<noteq> [] \<and> ops ! k \<noteq> S_BeginFlush \<longrightarrow> fst (qs ! k) \<noteq> S_OK"
      using Cons.IH [OF st(2)] Cons.prems by auto
    then show ?thesis using calls False st(3) by (auto simp: nth_Cons split: nat.splits)
  qed
qed simp

theorem one_error_until_the_flush_ends_witness:
  "let s = new_input_pin\<lparr>i_stopped := False\<rparr>; h = empty_heap\<lparr>hmt := [5 \<mapsto> InitMediaType], hnext := 6\<rparr>;
       bad = S_Receive True None None (Some (blank_sample\<lparr>m_pMediaType := Some 5, m_dwFlags := Sample_TypeChanged\<rparr>));
       rs = fst (the (io_run (stream_step demo_viewer 48) [bad, bad] (s, h)))
   in concat (map snd rs) = [Call_EndOfStream, Call_NotifyErrorAbort VFW_E_TYPE_NOT_ACCEPTED]
    \<and> fst (rs ! 0) = VFW_E_INVALIDMEDIATYPE \<and> fst (rs ! 1) \<noteq> S_OK"
proof -
  let ?s = "new_input_pin\<lparr>i_stopped := False\<rparr>" and ?h = "empty_heap\<lparr>hmt := [5 \<mapsto> InitMediaType], hnext := 6\<rparr>"
  let ?bad = "S_Receive True None None (Some (blank_sample\<lparr>m_pMediaType := Some 5, m_dwFlags := Sample_TypeChanged\<rparr>))"
  let ?E = "[Call_EndOfStream, Call_NotifyErrorAbort VFW_E_TYPE_NOT_ACCEPTED]"
  have r: "\<exists>s1. io_run (stream_step demo_viewer 48) [?bad, ?bad] (?s, ?h)
      = Some ([(VFW_E_INVALIDMEDIATYPE, ?E), (VFW_E_RUNTIME_ERROR, [])], (s1, ?h)) \<and> i_bRunTimeError s1"
    by (simp add: Receive_def CheckStreaming_def Sample_GetProperties_def new_input_pin_def flag_defs type_value_def
        InitMediaType_def demo_viewer_def)
  then obtain s1 where s1: "io_run (stream_step demo_viewer 48) [?bad, ?bad] (?s, ?h)
      = Some ([(VFW_E_INVALIDMEDIATYPE, ?E), (VFW_E_RUNTIME_ERROR, [])], (s1, ?h))" "i_bRunTimeError s1" by blast
  from one_error_until_the_flush_ends [OF this(1)] this show ?thesis
    by (simp add: Let_def new_input_pin_def del: io_run.simps)
qed

end
