(* ===== verification/BaseFilter.thy ===== *)
theory BaseFilter
  imports InputPin
begin

text \<open>
  A filter as the filter graph sees it (CBaseFilter in baseclasses/amfilter.cpp): stopping, pausing and
  running with all its pins, the clock and the stream time, its name and its place in a graph. Both
  filters of the repository derive from it through CSource. A pin's methods are actions whose
  environment the pins share.
\<close>

section \<open>The filter\<close>

datatype filter_state = State_Stopped | State_Paused | State_Running

text \<open>
  \<open>f_pins\<close> is what \<open>GetPin\<close> answers below \<open>GetPinCount\<close>, a null pointer included; \<open>clock_refs\<close> counts the
  references the filter holds on clocks.
\<close>

record 'p base_filter =
  f_State :: filter_state
  f_pClock :: "nat option"
  f_tStart :: u64
  f_pName :: "string option"
  f_pGraph :: "nat option"
  f_pSink :: "nat option"
  f_PinVersion :: u32
  f_pins :: "'p option list"
  clock_refs :: "nat \<Rightarrow> int"

definition new_base_filter :: "u64 \<Rightarrow> 'p option list \<Rightarrow> 'p base_filter" where
  "new_base_filter junk ps = \<lparr>f_State = State_Stopped, f_pClock = None, f_tStart = junk, f_pName = None, f_pGraph = None,
     f_pSink = None, f_PinVersion = 1, f_pins = ps, clock_refs = (\<lambda>_. 0)\<rparr>"

text \<open>The methods of a pin that the filter calls.\<close>

record ('p, 'e) pin_methods =
  pin_connected :: "'p \<Rightarrow> bool"
  pin_Active :: "('p, 'e, hresult) action"
  pin_Inactive :: "('p, 'e, hresult) action"
  pin_Run :: "u64 \<Rightarrow> ('p, 'e, hresult) action"
  pin_Name :: "'p \<Rightarrow> string"

definition call_pin :: "('p, 'e, hresult) action \<Rightarrow> 'p \<Rightarrow> 'e \<Rightarrow> hresult \<times> 'p \<times> 'e" where
  "call_pin m p e = (case run_state m \<lparr>own = p, env = e\<rparr> of (hr, w) \<Rightarrow> (hr, own w, env w))"

section \<open>Stopping, pausing and running\<close>

text \<open>The loop of \<open>Pause\<close> and \<open>Run\<close>: it returns at the first pin that fails.\<close>

primrec each_pin ::
  "('p \<Rightarrow> bool) \<Rightarrow> ('p, 'e, hresult) action \<Rightarrow> 'p option list \<Rightarrow> 'e \<Rightarrow> hresult \<times> 'p option list \<times> 'e" where
  "each_pin con m [] e = (S_OK, [], e)"
| "each_pin con m (q # ps) e =
    (case q of
       None \<Rightarrow> (S_OK, q # ps, e)
     | Some p \<Rightarrow>
        if con p then
          (case call_pin m p e of (hr, p1, e1) \<Rightarrow>
             if failed hr then (hr, Some p1 # ps, e1)
             else case each_pin con m ps e1 of (hr1, ps1, e2) \<Rightarrow> (hr1, Some p1 # ps1, e2))
        else (case each_pin con m ps e of (hr1, ps1, e2) \<Rightarrow> (hr1, q # ps1, e2)))"

text \<open>The loop of \<open>Stop\<close>: it goes on, and keeps the first error.\<close>

primrec every_pin ::
  "('p \<Rightarrow> bool) \<Rightarrow> ('p, 'e, hresult) action \<Rightarrow> hresult \<Rightarrow> 'p option list \<Rightarrow> 'e \<Rightarrow> hresult \<times> 'p option list \<times> 'e" where
  "every_pin con m hr [] e = (hr, [], e)"
| "every_pin con m hr (q # ps) e =
    (case q of
       None \<Rightarrow> (hr, q # ps, e)
     | Some p \<Rightarrow>
        if con p then
          (case call_pin m p e of (hrTmp, p1, e1) \<Rightarrow>
             case every_pin con m (if failed hrTmp \<and> succeeded hr then hrTmp else hr) ps e1 of
               (hr1, ps1, e2) \<Rightarrow> (hr1, Some p1 # ps1, e2))
        else (case every_pin con m hr ps e of (hr1, ps1, e2) \<Rightarrow> (hr1, q # ps1, e2)))"

definition Filter_Stop :: "('p, 'e) pin_methods \<Rightarrow> 'p base_filter \<Rightarrow> 'e \<Rightarrow> hresult \<times> 'p base_filter \<times> 'e" where
  "Filter_Stop M f e =
    (case (if f_State f \<noteq> State_Stopped then every_pin (pin_connected M) (pin_Inactive M) S_OK (f_pins f) e
           else (S_OK, f_pins f, e)) of
       (hr, ps, e1) \<Rightarrow> (hr, f\<lparr>f_pins := ps, f_State := State_Stopped\<rparr>, e1))"

definition Filter_Pause :: "('p, 'e) pin_methods \<Rightarrow> 'p base_filter \<Rightarrow> 'e \<Rightarrow> hresult \<times> 'p base_filter \<times> 'e" where
  "Filter_Pause M f e =
    (case (if f_State f = State_Stopped then each_pin (pin_connected M) (pin_Active M) (f_pins f) e
           else (S_OK, f_pins f, e)) of
       (hr, ps, e1) \<Rightarrow>
         if failed hr then (hr, f\<lparr>f_pins := ps\<rparr>, e1)
         else (S_OK, f\<lparr>f_pins := ps, f_State := State_Paused\<rparr>, e1))"

definition Filter_Run :: "('p, 'e) pin_methods \<Rightarrow> u64 \<Rightarrow> 'p base_filter \<Rightarrow> 'e \<Rightarrow> hresult \<times> 'p base_filter \<times> 'e" where
  "Filter_Run M tStart f e =
    (let f0 = f\<lparr>f_tStart := tStart\<rparr>;
         (hr, f1, e1) = (if f_State f0 = State_Stopped then Filter_Pause M f0 e else (S_OK, f0, e))
     in if failed hr then (hr, f1, e1)
        else case (if f_State f1 \<noteq> State_Running then each_pin (pin_connected M) (pin_Run M tStart) (f_pins f1) e1
                   else (S_OK, f_pins f1, e1)) of
          (hr2, ps, e2) \<Rightarrow>
            if failed hr2 then (hr2, f1\<lparr>f_pins := ps\<rparr>, e2)
            else (S_OK, f1\<lparr>f_pins := ps, f_State := State_Running\<rparr>, e2))"

definition Filter_GetState :: "bool \<Rightarrow> 'p base_filter \<Rightarrow> hresult \<times> filter_state option" where
  "Filter_GetState ptr f = (if \<not> ptr then (E_POINTER, None) else (S_OK, Some (f_State f)))"

definition IsActive :: "'p base_filter \<Rightarrow> bool" where
  "IsActive f \<longleftrightarrow> f_State f = State_Paused \<or> f_State f = State_Running"

definition IsStopped :: "'p base_filter \<Rightarrow> bool" where
  "IsStopped f \<longleftrightarrow> f_State f = State_Stopped"

section \<open>The clock\<close>

definition clock_ref :: "nat option \<Rightarrow> int \<Rightarrow> 'p base_filter \<Rightarrow> 'p base_filter" where
  "clock_ref c d f = (case c of None \<Rightarrow> f | Some n \<Rightarrow> f\<lparr>clock_refs := (clock_refs f)(n := clock_refs f n + d)\<rparr>)"

definition SetSyncSource :: "nat option \<Rightarrow> 'p base_filter \<Rightarrow> hresult \<times> 'p base_filter" where
  "SetSyncSource pClock f = (S_OK, (clock_ref (f_pClock f) (- 1) (clock_ref pClock 1 f))\<lparr>f_pClock := pClock\<rparr>)"

text \<open>The reference that \<open>GetSyncSource\<close> adds is the caller's.\<close>

definition GetSyncSource :: "bool \<Rightarrow> 'p base_filter \<Rightarrow> hresult \<times> nat option" where
  "GetSyncSource ptr f = (if \<not> ptr then (E_POINTER, None) else (S_OK, f_pClock f))"

definition delete_base_filter :: "'p base_filter \<Rightarrow> 'p base_filter" where
  "delete_base_filter f = (clock_ref (f_pClock f) (- 1) f)\<lparr>f_pName := None, f_pClock := None\<rparr>"

text \<open>\<open>answer\<close> is the clock's: a result code and what it stored.\<close>

definition StreamTime :: "(nat \<Rightarrow> hresult \<times> u64) \<Rightarrow> 'p base_filter \<Rightarrow> hresult \<times> u64 option" where
  "StreamTime answer f =
    (case f_pClock f of
       None \<Rightarrow> (VFW_E_NO_CLOCK, None)
     | Some c \<Rightarrow> (case answer c of (hr, t) \<Rightarrow> if failed hr then (hr, Some t) else (S_OK, Some (t - f_tStart f))))"

section \<open>Pins, name and graph\<close>

definition GetPinVersion :: "'p base_filter \<Rightarrow> u32" where "GetPinVersion f = f_PinVersion f"

definition IncrementPinVersion :: "'p base_filter \<Rightarrow> 'p base_filter" where
  "IncrementPinVersion f = f\<lparr>f_PinVersion := f_PinVersion f + 1\<rparr>"

text \<open>The search stops at a null pin.\<close>

fun named_pin :: "('p \<Rightarrow> string) \<Rightarrow> string \<Rightarrow> 'p option list \<Rightarrow> 'p option" where
  "named_pin name pinId [] = None"
| "named_pin name pinId (None # ps) = None"
| "named_pin name pinId (Some p # ps) = (if name p = pinId then Some p else named_pin name pinId ps)"

definition Base_FindPin :: "('p, 'e) pin_methods \<Rightarrow> bool \<Rightarrow> string \<Rightarrow> 'p base_filter \<Rightarrow> hresult \<times> 'p option" where
  "Base_FindPin M ptr pinId f =
    (if \<not> ptr then (E_POINTER, None)
     else case named_pin (pin_Name M) pinId (f_pins f) of Some p \<Rightarrow> (S_OK, Some p) | None \<Rightarrow> (VFW_E_NOT_FOUND, None))"

text \<open>The name fits 128 characters, the terminator included, and is cut off otherwise.\<close>

definition QueryFilterInfo :: "bool \<Rightarrow> 'p base_filter \<Rightarrow> hresult \<times> (string \<times> nat option) option" where
  "QueryFilterInfo ptr f =
    (if \<not> ptr then (E_POINTER, None)
     else (S_OK, Some (case f_pName f of None \<Rightarrow> [] | Some n \<Rightarrow> take 127 n, f_pGraph f)))"

text \<open>
  \<open>sink\<close> is the graph's answer to \<open>QueryInterface\<close>, which stores a null pointer when it fails;
  \<open>max_cch\<close> is \<open>STRSAFE_MAX_CCH\<close>.
\<close>

definition JoinFilterGraph ::
  "nat \<Rightarrow> (nat \<Rightarrow> nat option) \<Rightarrow> bool \<Rightarrow> nat option \<Rightarrow> string option \<Rightarrow> 'p base_filter \<Rightarrow> hresult \<times> 'p base_filter" where
  "JoinFilterGraph max_cch sink memory pGraph pName f =
    (let f1 = f\<lparr>f_pGraph := pGraph, f_pSink := Option.bind pGraph sink, f_pName := None\<rparr>
     in case pName of
          None \<Rightarrow> (S_OK, f1)
        | Some n \<Rightarrow> if max_cch \<le> length n then (E_INVALIDARG, f1)
            else if memory then (S_OK, f1\<lparr>f_pName := Some n\<rparr>) else (E_OUTOFMEMORY, f1))"

text \<open>What is passed to the sink: the code and its parameters, the second replaced by the filter itself for the end of a stream.\<close>

datatype event_param = P_value int | P_filter

definition NotifyEvent :: "int \<Rightarrow> (nat \<Rightarrow> hresult) \<Rightarrow> int \<Rightarrow> int \<Rightarrow> int \<Rightarrow> 'p base_filter
     \<Rightarrow> hresult \<times> (nat \<times> int \<times> int \<times> event_param) option" where
  "NotifyEvent EC_COMPLETE answer code p1 p2 f =
    (case f_pSink f of
       None \<Rightarrow> (E_NOTIMPL, None)
     | Some s \<Rightarrow> (answer s, Some (s, code, p1, if code = EC_COMPLETE then P_filter else P_value p2)))"

text \<open>Through IFilterGraph2 when the graph has it.\<close>

definition ReconnectPin :: "(nat \<Rightarrow> hresult option) \<Rightarrow> (nat \<Rightarrow> hresult) \<Rightarrow> 'p base_filter \<Rightarrow> hresult" where
  "ReconnectPin reconnect_ex reconnect f =
    (case f_pGraph f of
       None \<Rightarrow> E_NOINTERFACE
     | Some g \<Rightarrow> (case reconnect_ex g of Some hr \<Rightarrow> hr | None \<Rightarrow> reconnect g))"


section \<open>The rest of a pin\<close>

text \<open>
  The members of CBasePin that have no part in connecting or streaming; \<open>p_pFilter\<close> is the filter, on whose
  reference count all references to the pin are kept. A double is its bits.
\<close>

record pin_rest =
  p_pFilter :: nat
  p_pName :: "string option"
  p_dir :: direction
  p_TypeVersion :: int
  p_pQSink :: "nat option"
  p_tStart :: u64
  p_tStop :: u64
  p_dRate :: u64

definition new_pin_rest :: "nat \<Rightarrow> bool \<Rightarrow> string option \<Rightarrow> direction \<Rightarrow> pin_rest" where
  "new_pin_rest pFilter memory pName dir = \<lparr>p_pFilter = pFilter, p_pName = (if memory then pName else None), p_dir = dir,
     p_TypeVersion = 1, p_pQSink = None, p_tStart = 0, p_tStop = 0x7FFFFFFFFFFFFFFF, p_dRate = 0x3FF0000000000000\<rparr>"

text \<open>What \<open>filter_ref\<close>, the filter's \<open>AddRef\<close> or \<open>Release\<close>, returns is the pin's answer.\<close>

definition Pin_reference :: "(nat \<Rightarrow> 's \<Rightarrow> u32 \<times> 's) \<Rightarrow> pin_rest \<Rightarrow> 's \<Rightarrow> u32 \<times> 's" where
  "Pin_reference filter_ref p s = filter_ref (p_pFilter p) s"

definition QueryPinInfo :: "bool \<Rightarrow> pin_rest \<Rightarrow> hresult \<times> (nat \<times> string \<times> direction) option" where
  "QueryPinInfo pInfo p =
    (if \<not> pInfo then (E_POINTER, None)
     else (S_OK, Some (p_pFilter p, case p_pName p of None \<Rightarrow> [] | Some n \<Rightarrow> take 127 n, p_dir p)))"

definition QueryDirection :: "bool \<Rightarrow> pin_rest \<Rightarrow> hresult \<times> direction option" where
  "QueryDirection ptr p = (if \<not> ptr then (E_POINTER, None) else (S_OK, Some (p_dir p)))"

text \<open>The length is limited to 100000 bytes of wide characters, the terminator included.\<close>

definition AMGetWideString :: "bool \<Rightarrow> bool \<Rightarrow> string option \<Rightarrow> hresult \<times> string option" where
  "AMGetWideString ppszReturn memory psz =
    (if \<not> ppszReturn then (E_POINTER, None)
     else case psz of
       None \<Rightarrow> (E_INVALIDARG, None)
     | Some t \<Rightarrow>
        if 50000 \<le> length t then (E_INVALIDARG, None)
        else if memory then (S_OK, Some t) else (E_OUTOFMEMORY, None))"

definition Base_QueryId :: "bool \<Rightarrow> bool \<Rightarrow> pin_rest \<Rightarrow> hresult \<times> string option" where
  "Base_QueryId ptr memory p = AMGetWideString ptr memory (p_pName p)"

definition IncrementTypeVersion :: "pin_rest \<Rightarrow> pin_rest" where
  "IncrementTypeVersion p = p\<lparr>p_TypeVersion := p_TypeVersion p + 1\<rparr>"

definition GetMediaTypeVersion :: "pin_rest \<Rightarrow> int" where "GetMediaTypeVersion p = p_TypeVersion p"

definition SetSink :: "nat option \<Rightarrow> pin_rest \<Rightarrow> hresult \<times> pin_rest" where
  "SetSink piqc p = (S_OK, p\<lparr>p_pQSink := piqc\<rparr>)"

definition NewSegment :: "u64 \<Rightarrow> u64 \<Rightarrow> u64 \<Rightarrow> pin_rest \<Rightarrow> hresult \<times> pin_rest" where
  "NewSegment tStart tStop dRate p = (S_OK, p\<lparr>p_tStart := tStart, p_tStop := tStop, p_dRate := dRate\<rparr>)"

text \<open>Calls that an output pin refuses, since they go downstream.\<close>

datatype downstream_call = Call_OutEndOfStream | Call_OutBeginFlush | Call_OutEndFlush

definition Out_downstream :: "downstream_call \<Rightarrow> hresult" where "Out_downstream c = E_UNEXPECTED"

definition Base_Active :: "('p, 'e, hresult) action" where "Base_Active = result S_OK"

definition In_Notify :: "bool \<Rightarrow> hresult" where "In_Notify pSender = (if pSender then S_OK else E_POINTER)"

text \<open>A pin's identifier, its whole name, leads back to the first pin of the filter with that name, however long
  it is; the information about the pin cuts the name off at 127 characters.\<close>

theorem pin_names_lead_back:
  assumes "Base_QueryId True True p = (S_OK, Some t)" and "pin_Name M q = t" and "Some q \<in> set (f_pins f)" and "None \<notin> set (f_pins f)"
  shows "\<exists>q1. Base_FindPin M True t f = (S_OK, Some q1) \<and> Some q1 \<in> set (f_pins f) \<and> pin_Name M q1 = t
    \<and> QueryPinInfo True p = (S_OK, Some (p_pFilter p, take 127 t, p_dir p))"
proof -
  have "\<exists>q1. named_pin (pin_Name M) t ps = Some q1 \<and> Some q1 \<in> set ps \<and> pin_Name M q1 = t"
    if "Some q \<in> set ps" "None \<notin> set ps" for ps
    using that assms(2) by (induction "pin_Name M" t ps rule: named_pin.induct) auto
  moreover have "p_pName p = Some t"
    using assms(1) by (auto simp: Base_QueryId_def AMGetWideString_def split: option.splits if_splits)
  ultimately show ?thesis using assms(3,4) by (fastforce simp: Base_FindPin_def QueryPinInfo_def)
qed

theorem pin_names_lead_back_witness:
  "\<exists>q1. Base_FindPin \<lparr>pin_connected = (\<lambda>_. True), pin_Active = result S_OK, pin_Inactive = result S_OK, pin_Run = (\<lambda>_. result S_OK),
       pin_Name = (\<lambda>k. if k = (3 :: nat) then ''Out'' else ''In'')\<rparr> True ''Out'' ((new_base_filter 0 [Some 2, Some 3]) :: nat base_filter)
     = (S_OK, Some q1) \<and> q1 = 3"
proof -
  let ?M = "\<lparr>pin_connected = (\<lambda>_. True), pin_Active = result S_OK, pin_Inactive = result S_OK, pin_Run = (\<lambda>_. result S_OK),
       pin_Name = (\<lambda>k. if k = (3 :: nat) then ''Out'' else ''In'')\<rparr> :: (nat, unit) pin_methods"
  have "Base_QueryId True True (new_pin_rest 0 True (Some ''Out'') PINDIR_OUTPUT) = (S_OK, Some ''Out'')"
    by (simp add: Base_QueryId_def AMGetWideString_def new_pin_rest_def)
  from pin_names_lead_back [OF this, of ?M 3 "new_base_filter 0 [Some 2, Some 3]"]
  show ?thesis by (auto simp: new_base_filter_def Base_FindPin_def split: if_splits)
qed

text \<open>The pin at which \<open>Pause\<close> or \<open>Run\<close> gave up: those before it were called and succeeded, those behind it were not called.\<close>

definition failed_at ::
  "('p \<Rightarrow> bool) \<Rightarrow> ('p, 'e, hresult) action \<Rightarrow> 'p option list \<Rightarrow> 'e \<Rightarrow> hresult \<Rightarrow> 'p option list \<Rightarrow> 'e \<Rightarrow> nat \<Rightarrow> bool" where
  "failed_at con m ps e hr ps1 e1 k \<longleftrightarrow> (\<exists>p p1 e0. k < length ps \<and> ps ! k = Some p \<and> con p
     \<and> each_pin con m (take k ps) e = (S_OK, take k ps1, e0) \<and> call_pin m p e0 = (hr, p1, e1) \<and> failed hr
     \<and> ps1 = take k ps1 @ Some p1 # drop (Suc k) ps)"

lemma failed_at_here:
  "con p \<Longrightarrow> call_pin m p e = (hr, p1, e1) \<Longrightarrow> failed hr \<Longrightarrow> failed_at con m (Some p # ps) e hr (Some p1 # ps) e1 0"
  by (simp add: failed_at_def)

lemma failed_at_later:
  "failed_at con m ps e hr ps1 e1 k \<Longrightarrow> \<not> con p \<Longrightarrow> failed_at con m (Some p # ps) e hr (Some p # ps1) e1 (Suc k)"
  "failed_at con m ps e2 hr ps1 e1 k \<Longrightarrow> con p \<Longrightarrow> call_pin m p e = (hr0, p1, e2) \<Longrightarrow> succeeded hr0 \<Longrightarrow>
     failed_at con m (Some p # ps) e hr (Some p1 # ps1) e1 (Suc k)"
  unfolding failed_at_def by force+

section \<open>What a filter relies on in its pins\<close>

text \<open>
  \<open>sound p\<close> is what a pin keeps at all times, \<open>playing p\<close> what its own state is while it streams and
  \<open>halted p\<close> while it does not; \<open>fed p e\<close>: the environment gives pin \<open>p\<close> what it needs. A connected pin
  that activates successfully is playing and fed, one that deactivates is halted and not fed, and
  neither call undoes what was done for another pin.
\<close>

locale streaming_pins =
  fixes M :: "('p, 'e) pin_methods" and sound playing halted :: "'p \<Rightarrow> bool" and fed :: "'p \<Rightarrow> 'e \<Rightarrow> bool"
  assumes active_ok: "sound p \<Longrightarrow> pin_connected M p \<Longrightarrow> call_pin (pin_Active M) p e = (hr, p1, e1) \<Longrightarrow>
      sound p1 \<and> pin_connected M p1 = pin_connected M p \<and> (succeeded hr \<longrightarrow> playing p1 \<and> fed p1 e1)"
    and inactive_ok: "playing p \<Longrightarrow> pin_connected M p \<Longrightarrow> call_pin (pin_Inactive M) p e = (hr, p1, e1) \<Longrightarrow>
      hr = S_OK \<and> sound p1 \<and> halted p1 \<and> pin_connected M p1 = pin_connected M p \<and> \<not> fed p1 e1"
    and run_ok: "playing p \<Longrightarrow> call_pin (pin_Run M t) p e = (hr, p1, e1) \<Longrightarrow>
      playing p1 \<and> pin_connected M p1 = pin_connected M p \<and> fed p1 e1 = fed p e"
    and active_keeps: "call_pin (pin_Active M) p e = (hr, p1, e1) \<Longrightarrow> fed q e \<Longrightarrow> fed q e1"
    and inactive_keeps: "call_pin (pin_Inactive M) p e = (hr, p1, e1) \<Longrightarrow> \<not> fed q e \<Longrightarrow> \<not> fed q e1"
    and run_keeps: "call_pin (pin_Run M t) p e = (hr, p1, e1) \<Longrightarrow> fed q e \<Longrightarrow> fed q e1"
    and playing_sound: "playing p \<Longrightarrow> sound p"
begin

definition all_sound :: "'p option list \<Rightarrow> bool" where
  "all_sound ps \<longleftrightarrow> None \<notin> set ps \<and> (\<forall>p. Some p \<in> set ps \<longrightarrow> sound p)"

definition all_busy :: "'p option list \<Rightarrow> 'e \<Rightarrow> bool" where
  "all_busy ps e \<longleftrightarrow> (\<forall>p. Some p \<in> set ps \<longrightarrow> pin_connected M p \<longrightarrow> playing p \<and> fed p e)"

definition all_idle :: "'p option list \<Rightarrow> 'e \<Rightarrow> bool" where
  "all_idle ps e \<longleftrightarrow> (\<forall>p. Some p \<in> set ps \<longrightarrow> pin_connected M p \<longrightarrow> halted p \<and> \<not> fed p e)"

lemma all_sound_simps [simp]:
  "all_sound []" "all_sound (Some p # ps) \<longleftrightarrow> sound p \<and> all_sound ps" "\<not> all_sound (None # ps)"
  by (auto simp: all_sound_def)

lemma all_busy_simps [simp]:
  "all_busy [] e"
  "all_busy (Some p # ps) e \<longleftrightarrow> (pin_connected M p \<longrightarrow> playing p \<and> fed p e) \<and> all_busy ps e"
  by (auto simp: all_busy_def)

lemma all_idle_simps [simp]:
  "all_idle [] e"
  "all_idle (Some p # ps) e \<longleftrightarrow> (pin_connected M p \<longrightarrow> halted p \<and> \<not> fed p e) \<and> all_idle ps e"
  by (auto simp: all_idle_def)

text \<open>Calls that keep what every other pin is given, or denied.\<close>

lemma each_pin_keeps:
  assumes "\<And>p e hr p1 e1. call_pin m p e = (hr, p1, e1) \<Longrightarrow> fed q e \<Longrightarrow> fed q e1"
  shows "each_pin con m ps e = (hr, ps1, e1) \<Longrightarrow> fed q e \<Longrightarrow> fed q e1"
proof (induction ps arbitrary: e hr ps1)
  case (Cons x ps)
  then show ?case using assms by (auto split: option.splits if_splits prod.splits)
qed simp

lemma every_pin_keeps:
  assumes "\<And>p e hr p1 e1. call_pin m p e = (hr, p1, e1) \<Longrightarrow> \<not> fed q e \<Longrightarrow> \<not> fed q e1"
  shows "every_pin con m hr0 ps e = (hr, ps1, e1) \<Longrightarrow> \<not> fed q e \<Longrightarrow> \<not> fed q e1"
proof (induction ps arbitrary: e hr0 ps1)
  case (Cons x ps)
  then show ?case using assms by (auto split: option.splits if_splits prod.splits)
qed simp

lemma activated:
  assumes "each_pin (pin_connected M) (pin_Active M) ps e = (hr, ps1, e1)" "all_sound ps"
  shows "all_sound ps1 \<and> (if succeeded hr then hr = S_OK \<and> all_busy ps1 e1
    else \<exists>k. all_busy (take k ps1) e1 \<and> failed_at (pin_connected M) (pin_Active M) ps e hr ps1 e1 k)"
  using assms
proof (induction ps arbitrary: e ps1)
  case (Cons x ps)
  obtain p where x: "x = Some p" and p: "sound p" "all_sound ps" using Cons.prems(2) by (cases x) auto
  show ?case
  proof (cases "pin_connected M p")
    case False
    then obtain ps2 where r: "each_pin (pin_connected M) (pin_Active M) ps e = (hr, ps2, e1)" "ps1 = Some p # ps2"
      using Cons.prems(1) x by (auto split: prod.splits)
    note IH = Cons.IH [OF r(1) p(2)]
    show ?thesis
    proof (cases "succeeded hr")
      case True
      then show ?thesis using IH r p False by simp
    next
      case err: False
      then obtain k where "all_busy (take k ps2) e1" "failed_at (pin_connected M) (pin_Active M) ps e hr ps2 e1 k" "all_sound ps2"
        using IH by auto
      then show ?thesis using err False r x p failed_at_later(1)
        by (intro conjI) (auto intro!: exI [of _ "Suc k"])
    qed
  next
    case True
    obtain hr2 p1 e2 where c: "call_pin (pin_Active M) p e = (hr2, p1, e2)" by (metis prod_cases3)
    note a = active_ok [OF p(1) True c]
    show ?thesis
    proof (cases "failed hr2")
      case fail: True
      then have "hr = hr2 \<and> ps1 = Some p1 # ps \<and> e1 = e2" using Cons.prems(1) True x c by simp
      then show ?thesis using fail True x c p a failed_at_here by (auto intro!: exI [of _ 0])
    next
      case ok: False
      then obtain ps2 where r: "each_pin (pin_connected M) (pin_Active M) ps e2 = (hr, ps2, e1)" "ps1 = Some p1 # ps2"
        using Cons.prems(1) x True c by (auto split: prod.splits)
      have b: "playing p1 \<and> fed p1 e1" using each_pin_keeps [OF _ r(1)] active_keeps a ok by blast
      note IH = Cons.IH [OF r(1) p(2)]
      show ?thesis
      proof (cases "succeeded hr")
        case True
        then show ?thesis using IH r b a by simp
      next
        case err: False
        then obtain k where "all_busy (take k ps2) e1" "failed_at (pin_connected M) (pin_Active M) ps e2 hr ps2 e1 k" "all_sound ps2"
          using IH by auto
        then show ?thesis using err r b a x failed_at_later(2) [where con = "pin_connected M", OF _ True c] ok
          by (intro conjI) (auto intro!: exI [of _ "Suc k"])
      qed
    qed
  qed
qed simp

lemma deactivate:
  assumes "every_pin (pin_connected M) (pin_Inactive M) S_OK ps e = (hr, ps1, e1)" "all_sound ps"
    and "\<forall>p. Some p \<in> set ps \<longrightarrow> pin_connected M p \<longrightarrow> playing p"
  shows "hr = S_OK \<and> all_sound ps1 \<and> all_idle ps1 e1"
  using assms
proof (induction ps arbitrary: e ps1)
  case (Cons x ps)
  obtain p where x: "x = Some p" and p: "sound p" "all_sound ps" using Cons.prems(2) by (cases x) auto
  have rest: "\<forall>q. Some q \<in> set ps \<longrightarrow> pin_connected M q \<longrightarrow> playing q" using Cons.prems(3) by simp
  show ?case
  proof (cases "pin_connected M p")
    case False
    then obtain ps2 where r: "every_pin (pin_connected M) (pin_Inactive M) S_OK ps e = (hr, ps2, e1)" "ps1 = Some p # ps2"
      using Cons.prems(1) x by (auto split: prod.splits)
    then show ?thesis using Cons.IH [OF r(1) p(2) rest] p False by simp
  next
    case True
    obtain hr2 p1 e2 where c: "call_pin (pin_Inactive M) p e = (hr2, p1, e2)" by (metis prod_cases3)
    have "playing p" using Cons.prems(3) x True by simp
    note a = inactive_ok [OF this True c]
    obtain ps2 where r: "every_pin (pin_connected M) (pin_Inactive M) S_OK ps e2 = (hr, ps2, e1)" "ps1 = Some p1 # ps2"
      using Cons.prems(1) x True c a by (auto split: prod.splits)
    have "\<not> fed p1 e1" using every_pin_keeps [OF _ r(1)] inactive_keeps a by blast
    then show ?thesis using Cons.IH [OF r(1) p(2) rest] r a by simp
  qed
qed simp

lemma run_pins:
  assumes "each_pin (pin_connected M) (pin_Run M t) ps e = (hr, ps1, e1)" "all_sound ps" "all_busy ps e"
  shows "all_sound ps1 \<and> all_busy ps1 e1"
  using assms
proof (induction ps arbitrary: e ps1)
  case (Cons x ps)
  obtain p where x: "x = Some p" and p: "sound p" "all_sound ps" using Cons.prems(2) by (cases x) auto
  have rest: "all_busy ps e" using Cons.prems(3) x by simp
  show ?case
  proof (cases "pin_connected M p")
    case False
    then obtain ps2 where r: "each_pin (pin_connected M) (pin_Run M t) ps e = (hr, ps2, e1)" "ps1 = Some p # ps2"
      using Cons.prems(1) x by (auto split: prod.splits)
    then show ?thesis using Cons.IH [OF r(1) p(2) rest] p False by simp
  next
    case True
    obtain hr2 p1 e2 where c: "call_pin (pin_Run M t) p e = (hr2, p1, e2)" by (metis prod_cases3)
    have "playing p" "fed p e" using Cons.prems(3) x True by simp_all
    then have a: "playing p1 \<and> pin_connected M p1 \<and> fed p1 e2" using run_ok [OF _ c] True by simp
    have rest2: "all_busy ps e2" using rest run_keeps [OF c] by (auto simp: all_busy_def)
    show ?thesis
    proof (cases "failed hr2")
      case fail: True
      then show ?thesis using Cons.prems(1) True x c a rest2 p playing_sound by auto
    next
      case ok: False
      then obtain ps2 where r: "each_pin (pin_connected M) (pin_Run M t) ps e2 = (hr, ps2, e1)" "ps1 = Some p1 # ps2"
        using Cons.prems(1) x True c by (auto split: prod.splits)
      have "fed p1 e1" using each_pin_keeps [OF _ r(1)] run_keeps a by blast
      then show ?thesis using Cons.IH [OF r(1) p(2) rest2] r a playing_sound by simp
    qed
  qed
qed simp

text \<open>In an active filter every connected pin is busy.\<close>

definition in_step_with_pins :: "'p base_filter \<Rightarrow> 'e \<Rightarrow> bool" where
  "in_step_with_pins f e \<longleftrightarrow> all_sound (f_pins f) \<and> (IsActive f \<longrightarrow> all_busy (f_pins f) e)"

lemma Stop_in_step:
  assumes "Filter_Stop M f e = (hr, f1, e1)" "in_step_with_pins f e"
  shows "in_step_with_pins f1 e1 \<and> f_State f1 = State_Stopped
    \<and> (IsActive f \<longrightarrow> hr = S_OK \<and> all_idle (f_pins f1) e1)"
proof (cases "f_State f = State_Stopped")
  case True
  then show ?thesis using assms by (auto simp: Filter_Stop_def in_step_with_pins_def IsActive_def)
next
  case False
  then have "IsActive f" by (cases "f_State f") (simp_all add: IsActive_def)
  then have b: "all_sound (f_pins f)" "all_busy (f_pins f) e" using assms(2) by (simp_all add: in_step_with_pins_def)
  obtain ps where r: "every_pin (pin_connected M) (pin_Inactive M) S_OK (f_pins f) e = (hr, ps, e1)"
      "f1 = f\<lparr>f_pins := ps, f_State := State_Stopped\<rparr>"
    using assms(1) False by (auto simp: Filter_Stop_def split: prod.splits)
  have "hr = S_OK \<and> all_sound ps \<and> all_idle ps e1"
    using b(2) by (intro deactivate [OF r(1) b(1)]) (auto simp: all_busy_def)
  then show ?thesis using r(2) by (simp add: in_step_with_pins_def IsActive_def)
qed

lemma Pause_in_step:
  assumes "Filter_Pause M f e = (hr, f1, e1)" "in_step_with_pins f e"
  shows "in_step_with_pins f1 e1 \<and> (succeeded hr \<longrightarrow> f_State f1 = State_Paused)
    \<and> (failed hr \<longrightarrow> f_State f = State_Stopped \<and> f_State f1 = State_Stopped \<and>
         (\<exists>k. all_busy (take k (f_pins f1)) e1 \<and> failed_at (pin_connected M) (pin_Active M) (f_pins f) e hr (f_pins f1) e1 k))"
proof (cases "f_State f = State_Stopped")
  case True
  obtain hr2 ps e2 where r: "each_pin (pin_connected M) (pin_Active M) (f_pins f) e = (hr2, ps, e2)" by (metis prod_cases3)
  have "all_sound (f_pins f)" using assms(2) by (simp add: in_step_with_pins_def)
  note act = activated [OF r this]
  show ?thesis
  proof (cases "succeeded hr2")
    case ok: True
    then have "hr = S_OK \<and> f1 = f\<lparr>f_pins := ps, f_State := State_Paused\<rparr> \<and> e1 = e2" "all_busy ps e2" "all_sound ps"
      using assms(1) act r True by (simp_all add: Filter_Pause_def)
    then show ?thesis by (simp add: in_step_with_pins_def)
  next
    case err: False
    then have "hr = hr2 \<and> f1 = f\<lparr>f_pins := ps\<rparr> \<and> e1 = e2" using assms(1) r True by (simp add: Filter_Pause_def)
    then show ?thesis using act err True by (auto simp: in_step_with_pins_def IsActive_def)
  qed
next
  case False
  then show ?thesis using assms by (cases "f_State f") (auto simp: Filter_Pause_def in_step_with_pins_def IsActive_def)
qed

lemma Run_in_step:
  assumes "Filter_Run M t f e = (hr, f1, e1)" "in_step_with_pins f e"
  shows "in_step_with_pins f1 e1"
proof -
  let ?f = "f\<lparr>f_tStart := t\<rparr>"
  have f: "in_step_with_pins ?f e" using assms(2) by (simp add: in_step_with_pins_def IsActive_def)
  obtain hr2 f2 e2 where p: "(if f_State ?f = State_Stopped then Filter_Pause M ?f e else (S_OK, ?f, e)) = (hr2, f2, e2)"
    by (metis prod_cases3)
  have f2: "in_step_with_pins f2 e2" "succeeded hr2 \<longrightarrow> IsActive f2"
    using p f Pause_in_step [of ?f e hr2 f2 e2] by (cases "f_State f"; auto simp: IsActive_def)+
  show ?thesis
  proof (cases "failed hr2 \<or> f_State f2 = State_Running")
    case True
    then have "hr = hr2 \<and> f1 = f2 \<and> e1 = e2 \<or> f1 = f2\<lparr>f_State := State_Running\<rparr> \<and> e1 = e2 \<and> IsActive f2"
      using assms(1) p by (auto simp: Filter_Run_def Let_def IsActive_def split: if_splits)
    then show ?thesis using f2 by (auto simp: in_step_with_pins_def)
  next
    case False
    obtain hr3 ps e3 where r: "each_pin (pin_connected M) (pin_Run M t) (f_pins f2) e2 = (hr3, ps, e3)" by (metis prod_cases3)
    have "all_sound ps \<and> all_busy ps e3" using run_pins [OF r] f2 False by (auto simp: in_step_with_pins_def)
    then show ?thesis using assms(1) p r False
      by (auto simp: Filter_Run_def Let_def in_step_with_pins_def split: if_splits)
  qed
qed

end

end
