(* ===== verification/SourcePin.thy ===== *)
theory SourcePin
  imports BaseFilter SourceStream
begin

text \<open>
  A camera's pin as its filter sees it: CSourceStream in baseclasses/source.cpp, which is both an output
  pin (PinConnect) and a worker thread (SourceStream). Its \<open>Active\<close> and \<open>Inactive\<close> override those of
  CBaseOutputPin and call them. The filters of the repository have such pins only, so the contract
  \<open>streaming_pins\<close> of a filter with its pins is interpreted on them.
\<close>

section \<open>The pin\<close>

text \<open>
  \<open>blocked\<close>: a call into the pin has not returned. What the model does after that stands for nothing;
  it is shown never to happen.
\<close>

record stream_pin =
  out_pin :: output_pin
  cam :: cam_thread
  blocked :: bool

text \<open>
  The surroundings of the output pin, and the number of the call: the answers that call meets are
  the oracles' for that number.
\<close>

record 'e stage =
  around :: 'e
  call_no :: nat

text \<open>What the worker meets in the five steps that are enough for any call (see SourceStream).\<close>

definition five :: "(nat \<Rightarrow> worker_answers) \<Rightarrow> worker_answers list" where
  "five a = map a [0..<5]"

definition Base_Run :: "u64 \<Rightarrow> ('p, 'e, hresult) action" where
  "Base_Run tStart = result S_OK"

definition never_returns :: "stream_pin \<Rightarrow> hresult \<times> stream_pin" where
  "never_returns p = (E_FAIL, p\<lparr>blocked := True\<rparr>)"

text \<open>
  \<open>Active\<close>, called while the filter is stopped: the output pin's, then the thread, its
  initialisation and the first \<open>Pause\<close>. \<open>made\<close>: \<open>CreateThread\<close> succeeds; \<open>W n k\<close> are the answers the
  worker meets in the \<open>k\<close>th wait of call \<open>n\<close>.
\<close>

definition Stream_Active ::
  "(nat \<Rightarrow> bool) \<Rightarrow> (nat \<Rightarrow> nat \<Rightarrow> nat \<Rightarrow> worker_answers) \<Rightarrow> 'e surroundings \<Rightarrow> (stream_pin, 'e stage, hresult) action" where
  "Stream_Active made W E = State (\<lambda>w.
     let p = own w; n = call_no (env w) in
     if m_Connected (out_pin p) = None then (S_OK, w)
     else case call_pin (Out_Active E) (out_pin p) (around (env w)) of (base, o1, e1) \<Rightarrow>
       let p1 = p\<lparr>out_pin := o1\<rparr>;
           (hr, p2) = (case Active False True base (made n) (five (W n 0)) (five (W n 1)) (cam p1) of
             None \<Rightarrow> never_returns p1 | Some (hr, t) \<Rightarrow> (hr, p1\<lparr>cam := t\<rparr>))
       in (hr, \<lparr>own = p2, env = \<lparr>around = e1, call_no = Suc n\<rparr>\<rparr>))"

text \<open>\<open>Inactive\<close>: the output pin's first, so that the worker does not wait for a buffer.\<close>

definition Stream_Inactive ::
  "(nat \<Rightarrow> nat \<Rightarrow> nat \<Rightarrow> worker_answers) \<Rightarrow> 'e surroundings \<Rightarrow> (stream_pin, 'e stage, hresult) action" where
  "Stream_Inactive W E = State (\<lambda>w.
     let p = own w; n = call_no (env w) in
     if m_Connected (out_pin p) = None then (S_OK, w)
     else case call_pin (Out_Inactive E) (out_pin p) (around (env w)) of (base, o1, e1) \<Rightarrow>
       let p1 = p\<lparr>out_pin := o1\<rparr>;
           (hr, p2) = (case Inactive True base (five (W n 0)) (five (W n 1)) (five (W n 2)) (cam p1) of
             None \<Rightarrow> never_returns p1 | Some (hr, t) \<Rightarrow> (hr, p1\<lparr>cam := t\<rparr>))
       in (hr, \<lparr>own = p2, env = \<lparr>around = e1, call_no = Suc n\<rparr>\<rparr>))"

definition camera_methods ::
  "(nat \<Rightarrow> bool) \<Rightarrow> (nat \<Rightarrow> nat \<Rightarrow> nat \<Rightarrow> worker_answers) \<Rightarrow> (input_pin, store) situation surroundings
     \<Rightarrow> (stream_pin \<Rightarrow> string) \<Rightarrow> (stream_pin, (input_pin, store) situation stage) pin_methods" where
  "camera_methods made W E name = \<lparr>pin_connected = (\<lambda>p. m_Connected (out_pin p) \<noteq> None),
     pin_Active = Stream_Active made W E, pin_Inactive = Stream_Inactive W E, pin_Run = Base_Run, pin_Name = name\<rparr>"

section \<open>The allocator of the connection\<close>

definition committed :: "output_pin \<Rightarrow> (input_pin, store) situation \<Rightarrow> bool" where
  "committed p e \<longleftrightarrow> (case m_pAllocator p of None \<Rightarrow> False | Some n \<Rightarrow> m_bCommitted (w_alloc (env e) n))"

lemma free_samples_committed: "free_samples is A h = Some (A1, h1) \<Longrightarrow> m_bCommitted A1 = m_bCommitted A"
  by (induction "is" A h rule: free_samples.induct) (auto split: Option.bind_splits)

lemma create_samples_committed: "m_bCommitted (snd (create_samples junk g n p l A)) = m_bCommitted A"
  by (induction junk g n p l A rule: create_samples.induct) (simp_all add: Let_def)

lemma ReallyFree_committed: "ReallyFree A h = Some (A1, h1) \<Longrightarrow> m_bCommitted A1 = m_bCommitted A"
  using free_samples_committed by (fastforce simp: ReallyFree_def split: Option.bind_splits)

lemma Mem_Alloc_committed:
  assumes "Mem_Alloc a A h = Some (hr, A1, h1)"
  shows "m_bCommitted A1 = m_bCommitted A"
proof (cases "failed (Base_Alloc A) \<or> Base_Alloc A = S_FALSE")
  case False
  then obtain B g where B: "(if m_pBlock A \<noteq> None then ReallyFree A h else Some (A, h)) = Some (B, g)"
    using assms by (auto simp: Mem_Alloc_def Let_def split: Option.bind_splits)
  have "m_bCommitted B = m_bCommitted A" using B ReallyFree_committed by (auto split: if_splits)
  moreover have "A1 = B \<or> (\<exists>k g n p l x. A1 = snd (create_samples k g n p l (B\<lparr>m_pBlock := x\<rparr>))
      \<or> A1 = (snd (create_samples k g n p l (B\<lparr>m_pBlock := x\<rparr>)))\<lparr>m_bChanged := False\<rparr>)"
    using assms B False
    by (auto simp: Mem_Alloc_def Let_def split: option.splits prod.splits if_split_asm) (metis snd_conv)+
  ultimately show ?thesis using create_samples_committed by fastforce
qed (use assms in \<open>auto simp: Mem_Alloc_def Let_def split: if_splits\<close>)

lemma Commit_committed:
  assumes "Commit a A h = Some (hr, A1, h1)"
  shows "(succeeded hr \<longrightarrow> m_bCommitted A1) \<and> (m_bCommitted A \<longrightarrow> m_bCommitted A1)"
  using assms Mem_Alloc_committed [of a "A\<lparr>m_bCommitted := True\<rparr>" h]
  by (auto simp: Commit_def Let_def split: if_splits Option.bind_splits)


lemma store_commit_committed:
  "(succeeded (fst (store_commit a n w)) \<longrightarrow> m_bCommitted (w_alloc (snd (store_commit a n w)) n))
   \<and> (m_bCommitted (w_alloc w k) \<longrightarrow> m_bCommitted (w_alloc (snd (store_commit a n w)) k))"
  using Commit_committed [of a "w_alloc w n" "w_heap w"] by (auto simp: store_commit_def split: option.split)

lemma store_decommit_committed:
  "\<not> m_bCommitted (w_alloc w k) \<Longrightarrow> \<not> m_bCommitted (w_alloc (snd (store_decommit n w)) k)"
  using decommitted [of n w] by (cases "k = n") (auto simp: store_decommit_def split: prod.split)

lemma Out_Active_contract:
  assumes "call_pin (Out_Active (meeting a g V C)) p e = (hr, p1, e1)"
  shows "p1 = p \<and> (succeeded hr \<longrightarrow> m_pAllocator p \<noteq> None \<and> committed p e1) \<and> (committed q e \<longrightarrow> committed q e1)"
  using assms store_commit_committed
  by (auto simp: call_pin_def Out_Active_def meeting_def committed_def split: option.splits)

lemma Out_Inactive_contract:
  assumes "call_pin (Out_Inactive (meeting a g V C)) p e = (hr, p1, e1)"
  shows "p1 = p\<lparr>m_bRunTimeError := False\<rparr> \<and> (m_pAllocator p \<noteq> None \<longrightarrow> hr = S_OK) \<and> \<not> committed p e1
    \<and> (\<not> committed q e \<longrightarrow> \<not> committed q e1)"
  using assms decommitted store_decommit_committed store_decommit_ok
  by (auto simp: call_pin_def Out_Inactive_def meeting_def committed_def split: option.splits)

lemma committed_flag [simp]: "committed (p\<lparr>m_bRunTimeError := b\<rparr>) e = committed p e"
  by (simp add: committed_def)

section \<open>The worker thread\<close>

definition thread_kept :: "cam_thread \<Rightarrow> bool" where
  "thread_kept t \<longleftrightarrow> m_hThread t \<or> idle_thread t"

definition thread_streams :: "cam_thread \<Rightarrow> bool" where
  "thread_streams t \<longleftrightarrow> (\<exists>t0. streaming t0 t)"

lemma five_length [simp]: "length (five a) = 5"
  by (simp add: five_def)

lemma Active_contract:
  assumes "thread_kept t" and "5 \<le> length as1" "5 \<le> length as2"
  shows "\<exists>hr t1. Active False True base ok as1 as2 t = Some (hr, t1) \<and> thread_kept t1
    \<and> (succeeded hr \<longrightarrow> succeeded base \<and> thread_streams t1)"
proof (cases "failed base \<or> m_hThread t \<or> \<not> ok")
  case True
  then show ?thesis using assms(1) by (auto simp: Active_def Create_thread_def thread_kept_def)
next
  case False
  then have t: "idle_thread t" "\<not> m_hThread t" "succeeded base" ok using assms(1) by (auto simp: thread_kept_def)
  obtain a b c d e rest where as: "as1 = a # b # c # d # e # rest" using five_steps [OF assms(2)] .
  have base: "Active False True base ok as1 as2 t = Active False True S_OK True as1 as2 t"
    using t by (simp add: Active_def)
  show ?thesis
  proof (cases "succeeded (w_create b)")
    case True
    then obtain t1 hr where "Active False True S_OK True as1 as2 t = Some (S_OK, t1)"
        "streaming (log [H_OnThreadCreate hr] t) t1"
      using Active_starts [OF t(1) assms(2,3)] as by auto
    then show ?thesis using base t(3) by (auto simp: thread_streams_def thread_kept_def streaming_def)
  next
    case False
    let ?t0 = "t\<lparr>m_hThread := True, at_place := W_init\<rparr>"
    have "quiet ?t0" "m_hThread ?t0" "at_place ?t0 = W_init" using t(1) by (auto simp: idle_thread_def phase_defs)
    from init_returns [OF this as] False
    have "Active False True S_OK True as1 as2 t = Some (w_create b, (log [H_OnThreadCreate (w_create b),
        H_OnThreadDestroy (w_destroy b)] ?t0)\<lparr>at_place := W_exit 1, m_dwParam := CMD_INIT, m_dwReturnVal := w_create b\<rparr>)"
      using t(2) by (simp add: Active_def Create_thread_def)
    then show ?thesis using base False by (auto simp: thread_kept_def log_def)
  qed
qed

lemma Inactive_contract:
  assumes "thread_streams t" and "5 \<le> length bs1" "5 \<le> length bs2" "bs3 \<noteq> []"
  shows "\<exists>t1. Inactive True S_OK bs1 bs2 bs3 t = Some (S_OK, t1) \<and> idle_thread t1"
  using Inactive_stops [OF _ assms(2-4)] assms(1) by (fastforce simp: thread_streams_def)

section \<open>The contract holds for the cameras' pins\<close>

definition pin_sound :: "stream_pin \<Rightarrow> bool" where
  "pin_sound p \<longleftrightarrow> \<not> blocked p \<and> thread_kept (cam p)"

definition pin_playing :: "stream_pin \<Rightarrow> bool" where
  "pin_playing p \<longleftrightarrow> \<not> blocked p \<and> m_pAllocator (out_pin p) \<noteq> None \<and> thread_streams (cam p)"

definition pin_halted :: "stream_pin \<Rightarrow> bool" where
  "pin_halted p \<longleftrightarrow> \<not> blocked p \<and> idle_thread (cam p)"

definition pin_fed :: "stream_pin \<Rightarrow> (input_pin, store) situation stage \<Rightarrow> bool" where
  "pin_fed p e \<longleftrightarrow> committed (out_pin p) (around e)"

lemmas pin_defs = pin_sound_def pin_playing_def pin_halted_def pin_fed_def

lemma streams_kept: "thread_streams t \<Longrightarrow> thread_kept t"
  by (auto simp: thread_streams_def thread_kept_def streaming_def)

lemma call_State: "call_pin (State m) p e = (case m \<lparr>own = p, env = e\<rparr> of (hr, w) \<Rightarrow> (hr, own w, env w))"
  by (simp add: call_pin_def)

lemma Stream_Active_cases:
  assumes "call_pin (Stream_Active made W E) p e = (hr, p1, e1)" and "m_Connected (out_pin p) \<noteq> None"
  shows "\<exists>base o1 x. call_pin (Out_Active E) (out_pin p) (around e) = (base, o1, x) \<and> around e1 = x
    \<and> (case Active False True base (made (call_no e)) (five (W (call_no e) 0)) (five (W (call_no e) 1)) (cam p) of
         None \<Rightarrow> blocked p1 | Some (h, t) \<Rightarrow> hr = h \<and> p1 = p\<lparr>out_pin := o1, cam := t\<rparr>)"
proof -
  obtain base o1 x where c: "call_pin (Out_Active E) (out_pin p) (around e) = (base, o1, x)" by (metis prod_cases3)
  then show ?thesis
    using assms by (auto simp: Stream_Active_def call_State Let_def never_returns_def
      split: option.splits prod.splits)
qed

lemma Stream_Inactive_cases:
  assumes "call_pin (Stream_Inactive W E) p e = (hr, p1, e1)" and "m_Connected (out_pin p) \<noteq> None"
  shows "\<exists>base o1 x. call_pin (Out_Inactive E) (out_pin p) (around e) = (base, o1, x) \<and> around e1 = x
    \<and> (case Inactive True base (five (W (call_no e) 0)) (five (W (call_no e) 1)) (five (W (call_no e) 2)) (cam p) of
         None \<Rightarrow> blocked p1 | Some (h, t) \<Rightarrow> hr = h \<and> p1 = p\<lparr>out_pin := o1, cam := t\<rparr>)"
proof -
  obtain base o1 x where c: "call_pin (Out_Inactive E) (out_pin p) (around e) = (base, o1, x)" by (metis prod_cases3)
  then show ?thesis
    using assms by (auto simp: Stream_Inactive_def call_State Let_def never_returns_def
      split: option.splits prod.splits)
qed

lemma unconnected_calls:
  assumes "m_Connected (out_pin p) = None"
  shows "call_pin (Stream_Active made W E) p e = (S_OK, p, e)" "call_pin (Stream_Inactive W E) p e = (S_OK, p, e)"
  using assms by (simp_all add: call_pin_def Stream_Active_def Stream_Inactive_def)

interpretation camera: streaming_pins "camera_methods made W (meeting a g V C) name" pin_sound pin_playing pin_halted pin_fed
  for made W a g V C name
proof
  fix p p1 :: stream_pin and e e1 hr
  let ?M = "camera_methods made W (meeting a g V C) name"
  assume p: "pin_sound p" "pin_connected ?M p" and c: "call_pin (pin_Active ?M) p e = (hr, p1, e1)"
  from p(2) c have con: "m_Connected (out_pin p) \<noteq> None"
    and c': "call_pin (Stream_Active made W (meeting a g V C)) p e = (hr, p1, e1)"
    by (simp_all add: camera_methods_def)
  obtain base o1 x where o: "call_pin (Out_Active (meeting a g V C)) (out_pin p) (around e) = (base, o1, x)" "around e1 = x"
    and act: "case Active False True base (made (call_no e)) (five (W (call_no e) 0)) (five (W (call_no e) 1)) (cam p) of
         None \<Rightarrow> blocked p1 | Some (h, t) \<Rightarrow> hr = h \<and> p1 = p\<lparr>out_pin := o1, cam := t\<rparr>"
    using Stream_Active_cases [OF c' con] by blast
  obtain h t where t: "Active False True base (made (call_no e)) (five (W (call_no e) 0)) (five (W (call_no e) 1)) (cam p)
      = Some (h, t)" "thread_kept t" "succeeded h \<longrightarrow> succeeded base \<and> thread_streams t"
    using Active_contract [of "cam p" "five (W (call_no e) 0)" "five (W (call_no e) 1)" base "made (call_no e)"] p(1)
    by (auto simp: pin_sound_def)
  have "o1 = out_pin p" "succeeded base \<longrightarrow> m_pAllocator (out_pin p) \<noteq> None \<and> committed (out_pin p) x"
    using Out_Active_contract [OF o(1), of "out_pin p"] by auto
  then show "pin_sound p1 \<and> pin_connected ?M p1 = pin_connected ?M p \<and> (succeeded hr \<longrightarrow> pin_playing p1 \<and> pin_fed p1 e1)"
    using act t o(2) p(1) by (auto simp: camera_methods_def pin_defs)
next
  fix p p1 :: stream_pin and e e1 hr
  let ?M = "camera_methods made W (meeting a g V C) name"
  assume p: "pin_playing p" "pin_connected ?M p" and c: "call_pin (pin_Inactive ?M) p e = (hr, p1, e1)"
  from p(2) c have con: "m_Connected (out_pin p) \<noteq> None"
    and c': "call_pin (Stream_Inactive W (meeting a g V C)) p e = (hr, p1, e1)"
    by (simp_all add: camera_methods_def)
  obtain base o1 x where o: "call_pin (Out_Inactive (meeting a g V C)) (out_pin p) (around e) = (base, o1, x)" "around e1 = x"
    and act: "case Inactive True base (five (W (call_no e) 0)) (five (W (call_no e) 1)) (five (W (call_no e) 2)) (cam p) of
         None \<Rightarrow> blocked p1 | Some (h, t) \<Rightarrow> hr = h \<and> p1 = p\<lparr>out_pin := o1, cam := t\<rparr>"
    using Stream_Inactive_cases [OF c' con] by blast
  have b: "base = S_OK" "o1 = (out_pin p)\<lparr>m_bRunTimeError := False\<rparr>" "\<not> committed (out_pin p) x"
    using Out_Inactive_contract [OF o(1), of "out_pin p"] p(1) by (auto simp: pin_playing_def)
  obtain t where t: "Inactive True base (five (W (call_no e) 0)) (five (W (call_no e) 1)) (five (W (call_no e) 2)) (cam p)
      = Some (S_OK, t)" "idle_thread t"
    using Inactive_contract [of "cam p" "five (W (call_no e) 0)" "five (W (call_no e) 1)" "five (W (call_no e) 2)"] p(1) b(1)
    by (auto simp: pin_playing_def five_def)
  then show "hr = S_OK \<and> pin_sound p1 \<and> pin_halted p1 \<and> pin_connected ?M p1 = pin_connected ?M p \<and> \<not> pin_fed p1 e1"
    using act b o(2) p(1) by (auto simp: camera_methods_def pin_defs thread_kept_def)
next
  fix p q p1 :: stream_pin and e e1 hr
  let ?M = "camera_methods made W (meeting a g V C) name"
  assume "call_pin (pin_Active ?M) p e = (hr, p1, e1)" and fed: "pin_fed q e"
  then have c: "call_pin (Stream_Active made W (meeting a g V C)) p e = (hr, p1, e1)" by (simp add: camera_methods_def)
  show "pin_fed q e1"
  proof (cases "m_Connected (out_pin p) = None")
    case True
    then show ?thesis using c fed by (simp add: unconnected_calls)
  next
    case False
    then show ?thesis using Stream_Active_cases [OF c] Out_Active_contract [of a g V C _ _ _ _ _ "out_pin q"] fed
      by (fastforce simp: pin_fed_def)
  qed
next
  fix p q p1 :: stream_pin and e e1 hr
  let ?M = "camera_methods made W (meeting a g V C) name"
  assume "call_pin (pin_Inactive ?M) p e = (hr, p1, e1)" and fed: "\<not> pin_fed q e"
  then have c: "call_pin (Stream_Inactive W (meeting a g V C)) p e = (hr, p1, e1)" by (simp add: camera_methods_def)
  show "\<not> pin_fed q e1"
  proof (cases "m_Connected (out_pin p) = None")
    case True
    then show ?thesis using c fed by (simp add: unconnected_calls)
  next
    case False
    then show ?thesis using Stream_Inactive_cases [OF c] Out_Inactive_contract [of a g V C _ _ _ _ _ "out_pin q"] fed
      by (fastforce simp: pin_fed_def)
  qed
qed (auto simp: camera_methods_def Base_Run_def call_pin_def pin_defs streams_kept)

section \<open>Histories of a camera's filter\<close>

datatype filter_call = F_Stop | F_Pause | F_Run u64

primrec call_filter :: "('p, 'e) pin_methods \<Rightarrow> filter_call \<Rightarrow> 'p base_filter \<Rightarrow> 'e \<Rightarrow> hresult \<times> 'p base_filter \<times> 'e" where
  "call_filter M F_Stop f e = Filter_Stop M f e"
| "call_filter M F_Pause f e = Filter_Pause M f e"
| "call_filter M (F_Run t) f e = Filter_Run M t f e"

definition each_worker :: "(stream_pin \<Rightarrow> worker_answers list) \<Rightarrow> stream_pin base_filter \<Rightarrow> stream_pin base_filter" where
  "each_worker ws f = f\<lparr>f_pins := map (map_option (\<lambda>p. p\<lparr>cam := worker_run (ws p) (cam p)\<rparr>)) (f_pins f)\<rparr>"

definition each_output :: "(stream_pin \<Rightarrow> output_pin) \<Rightarrow> stream_pin base_filter \<Rightarrow> stream_pin base_filter" where
  "each_output g f = f\<lparr>f_pins := map (map_option (\<lambda>p. p\<lparr>out_pin := g p\<rparr>)) (f_pins f)\<rparr>"

text \<open>
  The graph calls the filter, the workers run on as far as they get, and others act in between: on
  the connections only while the filter is stopped, on the allocators as they like while it is
  stopped and without decommitting one while it is active. The last is a condition on the filter
  downstream, which shares the allocator: a graph that stops it first decommits the allocator under
  a running camera, on purpose, so that the camera's worker does not wait for a buffer.
\<close>

inductive camera_history ::
  "(stream_pin, (input_pin, store) situation stage) pin_methods \<Rightarrow> stream_pin base_filter \<Rightarrow> (input_pin, store) situation stage \<Rightarrow> bool"
  for M where
  made: "\<forall>p \<in> set ps. \<not> blocked p \<and> idle_thread (cam p) \<Longrightarrow> camera_history M (new_base_filter junk (map Some ps)) e"
| called: "camera_history M f e \<Longrightarrow> call_filter M c f e = (hr, f1, e1) \<Longrightarrow> camera_history M f1 e1"
| workers: "camera_history M f e \<Longrightarrow> camera_history M (each_worker ws f) e"
| others: "camera_history M f e \<Longrightarrow>
    (\<And>n. IsActive f \<Longrightarrow> m_bCommitted (w_alloc (env (around e)) n) \<Longrightarrow> m_bCommitted (w_alloc (env (around e1)) n)) \<Longrightarrow>
    camera_history M f e1"
| connections: "camera_history M f e \<Longrightarrow> \<not> IsActive f \<Longrightarrow> camera_history M (each_output g f) e"

lemma worker_run_handle: "m_hThread (worker_run as t) = m_hThread t"
  by (induction as arbitrary: t) (auto split: option.splits dest: worker_handle)

lemma worker_run_kept: "thread_kept t \<Longrightarrow> thread_kept (worker_run as t)"
proof -
  have "worker_run as t = t" if "idle_thread t"
    using that by (cases as) (auto simp: idle_thread_def worker_step_def)
  then show "thread_kept t \<Longrightarrow> thread_kept (worker_run as t)"
    by (auto simp: thread_kept_def worker_run_handle)
qed

lemma worker_run_streams: "thread_streams t \<Longrightarrow> thread_streams (worker_run as t)"
  by (auto simp: thread_streams_def intro: streaming_run)

lemma changed_pins:
  "None \<in> set (map (map_option h) ps) \<longleftrightarrow> None \<in> set ps"
  "Some p \<in> set (map (map_option h) ps) \<longleftrightarrow> (\<exists>q. Some q \<in> set ps \<and> p = h q)"
proof -
  have "Some p = map_option h x \<longleftrightarrow> (\<exists>q. x = Some q \<and> p = h q)" for x by (cases x) auto
  then show "Some p \<in> set (map (map_option h) ps) \<longleftrightarrow> (\<exists>q. Some q \<in> set ps \<and> p = h q)"
    by (simp only: set_map image_iff) blast
  have "None = map_option h x \<longleftrightarrow> x = None" for x by (cases x) auto
  then show "None \<in> set (map (map_option h) ps) \<longleftrightarrow> None \<in> set ps" by auto
qed

lemma camera_history_in_step:
  "camera_history (camera_methods made W (meeting a g V C) name) f e \<Longrightarrow>
     camera.in_step_with_pins made W a g V C name f e"
proof (induction rule: camera_history.induct)
  case (made ps junk e)
  then show ?case
    unfolding camera.in_step_with_pins_def camera.all_sound_def
    by (auto simp: new_base_filter_def IsActive_def pin_sound_def thread_kept_def)
next
  case (called f e c hr f1 e1)
  then show ?case
    using camera.Stop_in_step camera.Pause_in_step camera.Run_in_step by (cases c) auto
next
  case (workers f e ws)
  have "pin_playing (p\<lparr>cam := worker_run (ws p) (cam p)\<rparr>)" if "pin_playing p" for p
    using that worker_run_streams by (simp add: pin_playing_def)
  then show ?case
    using workers.IH worker_run_kept
    unfolding camera.in_step_with_pins_def camera.all_sound_def camera.all_busy_def
    by (auto simp: each_worker_def changed_pins IsActive_def pin_sound_def pin_fed_def camera_methods_def
      simp del: set_map)
next
  case (others f e e1)
  have "pin_fed p e1" if "pin_fed p e" "IsActive f" for p
    using that others.hyps(2) by (auto simp: pin_fed_def committed_def split: option.splits)
  then show ?case
    using others.IH unfolding camera.in_step_with_pins_def camera.all_busy_def by auto
next
  case (connections f e h)
  then show ?case
    unfolding camera.in_step_with_pins_def camera.all_sound_def
    by (auto simp: each_output_def changed_pins IsActive_def pin_sound_def simp del: set_map)
qed

section \<open>Properties\<close>

lemma streams_phase: "thread_streams t \<Longrightarrow> m_hThread t \<and> phase_of (at_place t) \<in> {Idle, Starting, Playing}"
  by (auto simp: thread_streams_def streaming_def)

text \<open>C21: Whatever calls the filter graph makes on a camera's filter and however memory, thread creation and
  the pins' own start turn out, as long as nobody else decommits an allocator of an active filter: no
  call into a pin waits for ever; while the filter is paused or running, every connected pin has a
  committed allocator and a worker thread that is ready or streaming; and a stop of an active filter
  succeeds and leaves no connected pin with a committed allocator or a thread.\<close>

theorem active_filter_has_committed_pins:
  assumes "camera_history (camera_methods made W (meeting a g V C) name) f e"
    and "Filter_Stop (camera_methods made W (meeting a g V C) name) f e = (hr, f2, e2)"
  shows "(\<forall>p. Some p \<in> set (f_pins f) \<union> set (f_pins f2) \<longrightarrow> \<not> blocked p)
    \<and> (IsActive f \<longrightarrow> (\<forall>p. Some p \<in> set (f_pins f) \<and> m_Connected (out_pin p) \<noteq> None \<longrightarrow>
         committed (out_pin p) (around e) \<and> m_hThread (cam p) \<and> phase_of (at_place (cam p)) \<in> {Idle, Starting, Playing}))
    \<and> IsStopped f2
    \<and> (IsActive f \<longrightarrow> hr = S_OK \<and> (\<forall>p. Some p \<in> set (f_pins f2) \<and> m_Connected (out_pin p) \<noteq> None \<longrightarrow>
         \<not> committed (out_pin p) (around e2) \<and> \<not> m_hThread (cam p)))"
proof -
  note f = camera_history_in_step [OF assms(1)]
  note s = camera.Stop_in_step [OF assms(2) f]
  have "\<not> blocked p" if "Some p \<in> set (f_pins f) \<union> set (f_pins f2)" for p
    using f s that unfolding camera.in_step_with_pins_def camera.all_sound_def by (auto simp: pin_sound_def)
  moreover have "committed (out_pin p) (around e) \<and> thread_streams (cam p)"
    if "IsActive f" "Some p \<in> set (f_pins f)" "m_Connected (out_pin p) \<noteq> None" for p
    using f that unfolding camera.in_step_with_pins_def camera.all_busy_def
    by (auto simp: camera_methods_def pin_playing_def pin_fed_def)
  moreover have "hr = S_OK" if "IsActive f" using s that by simp
  moreover have "\<not> committed (out_pin p) (around e2) \<and> \<not> m_hThread (cam p)"
    if "IsActive f" "Some p \<in> set (f_pins f2)" "m_Connected (out_pin p) \<noteq> None" for p
    using s that unfolding camera.all_idle_def
    by (auto simp: camera_methods_def pin_halted_def pin_fed_def idle_thread_def)
  moreover have "IsStopped f2" using s by (simp add: IsStopped_def)
  ultimately show ?thesis using streams_phase by blast
qed

text \<open>A failed \<open>Pause\<close> is never undone. When a pin fails to activate, \<open>Pause\<close> returns and leaves the filter
  stopped with the pins before it committed and streaming; and because the filter counts as stopped,
  \<open>Stop\<close> then returns \<open>S_OK\<close> without deactivating any of them.\<close>

theorem failed_pause_is_not_undone:
  assumes "camera_history (camera_methods made W (meeting a g V C) name) f e"
    and "Filter_Pause (camera_methods made W (meeting a g V C) name) f e = (hr, f1, e1)" and "failed hr"
  shows "IsStopped f1 \<and> Filter_Stop (camera_methods made W (meeting a g V C) name) f1 e1 = (S_OK, f1, e1)
    \<and> (\<exists>k. failed_at (\<lambda>p. m_Connected (out_pin p) \<noteq> None) (Stream_Active made W (meeting a g V C)) (f_pins f) e hr (f_pins f1) e1 k
         \<and> (\<forall>p. Some p \<in> set (take k (f_pins f1)) \<and> m_Connected (out_pin p) \<noteq> None \<longrightarrow>
               committed (out_pin p) (around e1) \<and> thread_streams (cam p)))"
proof -
  let ?M = "camera_methods made W (meeting a g V C) name"
  from camera.Pause_in_step [OF assms(2) camera_history_in_step [OF assms(1)]] assms(3)
  have s: "f_State f1 = State_Stopped"
    and k: "\<exists>k. camera.all_busy made W a g V C name (take k (f_pins f1)) e1
      \<and> failed_at (pin_connected ?M) (pin_Active ?M) (f_pins f) e hr (f_pins f1) e1 k" by auto
  have "Filter_Stop ?M f1 e1 = (S_OK, f1, e1)" using s by (cases f1) (simp add: Filter_Stop_def)
  then show ?thesis using s k unfolding camera.all_busy_def
    by (auto simp: IsStopped_def camera_methods_def pin_playing_def pin_fed_def)
qed

section \<open>Examples\<close>

definition demo_env :: "(input_pin, store) situation stage" where
  "demo_env = \<lparr>around = \<lparr>own = demo_in, env = demo_store\<lparr>w_alloc := (\<lambda>_. demo_agreed)\<rparr>\<rparr>, call_no = 0\<rparr>"

definition demo_methods :: "(stream_pin, (input_pin, store) situation stage) pin_methods" where
  "demo_methods = camera_methods (\<lambda>_. True) (\<lambda>_ _ _. all_well) (meeting demo_answers 0 demo_camera demo_viewer) (\<lambda>_. ''Video'')"

definition demo_camera_pin :: stream_pin where
  "demo_camera_pin = \<lparr>out_pin = demo_out, cam = new_thread, blocked = False\<rparr>"

lemma demo_out_wired: "m_Connected demo_out = Some 1" "m_pAllocator demo_out = Some 5"
  by (simp_all add: demo_out_def new_output_pin_def)

lemma demo_store_commit: "fst (store_commit demo_answers 5 (env (around demo_env))) = S_OK"
  by (simp add: store_commit_def demo_env_def demo_store_def demo_commit)

lemma demo_thread: "\<exists>t. Active False True S_OK True (five (\<lambda>_. all_well)) (five (\<lambda>_. all_well)) new_thread = Some (S_OK, t)"
  using Active_starts [OF idle_new_thread, of "five (\<lambda>_. all_well)" "five (\<lambda>_. all_well)"]
  by (auto simp: five_def all_well_def)

lemma demo_active: "\<exists>p e. call_pin (pin_Active demo_methods) demo_camera_pin demo_env = (S_OK, p, e)"
proof -
  obtain t where "Active False True S_OK True (five (\<lambda>_. all_well)) (five (\<lambda>_. all_well)) new_thread = Some (S_OK, t)"
    using demo_thread by blast
  then show ?thesis
    using demo_store_commit
    by (simp add: demo_methods_def camera_methods_def Stream_Active_def call_State demo_camera_pin_def demo_out_wired
      call_pin_def Out_Active_def meeting_def Let_def)
qed

text \<open>One pin, paused.\<close>

lemma demo_paused:
  "\<exists>f e. camera_history demo_methods f e \<and> IsActive f"
proof -
  obtain p e where c: "call_pin (pin_Active demo_methods) demo_camera_pin demo_env = (S_OK, p, e)" using demo_active by blast
  have con: "pin_connected demo_methods demo_camera_pin"
    by (simp add: demo_methods_def camera_methods_def demo_camera_pin_def demo_out_wired)
  have h: "camera_history demo_methods (new_base_filter 0 (map Some [demo_camera_pin])) demo_env"
    by (rule camera_history.made) (simp add: demo_camera_pin_def idle_new_thread)
  have "\<exists>f. Filter_Pause demo_methods (new_base_filter 0 (map Some [demo_camera_pin])) demo_env = (S_OK, f, e) \<and> IsActive f"
    using c con by (simp add: Filter_Pause_def new_base_filter_def IsActive_def)
  with camera_history.called [OF h, of F_Pause] show ?thesis by fastforce
qed

theorem active_filter_has_committed_pins_witness:
  "\<exists>f e f2 e2. camera_history demo_methods f e \<and> IsActive f \<and> Filter_Stop demo_methods f e = (S_OK, f2, e2)
    \<and> (\<forall>p. Some p \<in> set (f_pins f2) \<and> m_Connected (out_pin p) \<noteq> None \<longrightarrow> \<not> m_hThread (cam p))"
proof -
  obtain f e where h: "camera_history demo_methods f e" "IsActive f" using demo_paused by blast
  obtain hr f2 e2 where t: "Filter_Stop demo_methods f e = (hr, f2, e2)" by (metis prod_cases3)
  from active_filter_has_committed_pins [OF h(1) [unfolded demo_methods_def] t [unfolded demo_methods_def]] h t
  show ?thesis unfolding demo_methods_def [symmetric] by blast
qed

text \<open>A second pin that has lost its allocator.\<close>

definition lost_pin :: stream_pin where
  "lost_pin = demo_camera_pin\<lparr>out_pin := demo_out\<lparr>m_pAllocator := None\<rparr>\<rparr>"

theorem failed_pause_is_not_undone_witness:
  "\<exists>f1 e1. Filter_Pause demo_methods (new_base_filter 0 (map Some [demo_camera_pin, lost_pin])) demo_env = (VFW_E_NO_ALLOCATOR, f1, e1)
    \<and> Filter_Stop demo_methods f1 e1 = (S_OK, f1, e1)"
proof -
  let ?f = "new_base_filter 0 (map Some [demo_camera_pin, lost_pin])"
  obtain p e where c: "call_pin (pin_Active demo_methods) demo_camera_pin demo_env = (S_OK, p, e)" using demo_active by blast
  have con: "pin_connected demo_methods demo_camera_pin" "pin_connected demo_methods lost_pin"
    by (simp_all add: demo_methods_def camera_methods_def demo_camera_pin_def lost_pin_def demo_out_wired)
  have "\<exists>q x. call_pin (pin_Active demo_methods) lost_pin e = (VFW_E_NO_ALLOCATOR, q, x)"
    by (simp add: demo_methods_def camera_methods_def Stream_Active_def call_State demo_camera_pin_def lost_pin_def demo_out_wired
      call_pin_def Out_Active_def Active_def Let_def)
  then obtain f1 e1 where p: "Filter_Pause demo_methods ?f demo_env = (VFW_E_NO_ALLOCATOR, f1, e1)"
    using c con by (auto simp: Filter_Pause_def new_base_filter_def)
  have "camera_history demo_methods ?f demo_env"
    by (rule camera_history.made) (simp add: demo_camera_pin_def lost_pin_def idle_new_thread)
  from failed_pause_is_not_undone [OF this [unfolded demo_methods_def] p [unfolded demo_methods_def]] p
  show ?thesis unfolding demo_methods_def [symmetric] by auto
qed

end
