(* ===== verification/ComServer.thy ===== *)
theory ComServer
  imports ComObject SourceFilter "HOL-Library.Monad_Syntax"
begin

text \<open>
  The DirectShow filters as COM servers: the object count of a DLL and the reference count of its objects
  (CBaseObject and CUnknown in baseclasses/combase.cpp), the class factory and the entry points that
  create filters from a table of templates (baseclasses/dllentry.cpp), and the construction of the two
  filters (PS3EyeSource.cpp and the first part of PS3EyeVirtualFilter.cpp).
\<close>

section \<open>Objects of a DLL\<close>

text \<open>The counters are static variables; \<open>hlibOLEAut32\<close> is whether that library is loaded. The counters of the
  source are 32 bits wide and are modelled as unbounded integers, from which they differ only after \<open>2 ^ 31\<close> calls
  without as many to undo them.\<close>

record dll =
  m_cObjects :: int
  hlibOLEAut32 :: bool
  m_cLocked :: int

definition new_dll :: dll where
  "new_dll = \<lparr>m_cObjects = 0, hlibOLEAut32 = False, m_cLocked = 0\<rparr>"

text \<open>Constructor and destructor of CBaseObject.\<close>

definition object_created :: "dll \<Rightarrow> dll" where
  "object_created d = d\<lparr>m_cObjects := m_cObjects d + 1\<rparr>"

definition object_deleted :: "dll \<Rightarrow> dll" where
  "object_deleted d =
    (let n = m_cObjects d - 1
     in if n = 0 \<and> hlibOLEAut32 d then d\<lparr>m_cObjects := n, hlibOLEAut32 := False\<rparr> else d\<lparr>m_cObjects := n\<rparr>)"

definition LoadOLEAut32 :: "bool \<Rightarrow> dll \<Rightarrow> bool \<times> dll" where
  "LoadOLEAut32 found d =
    (let d1 = (if \<not> hlibOLEAut32 d then d\<lparr>hlibOLEAut32 := found\<rparr> else d) in (hlibOLEAut32 d1, d1))"

section \<open>The reference count of an object\<close>

text \<open>
  A count is returned as an unsigned number that is at least 1. What the destructor does with the object's
  own count, through interfaces it holds on its parts, is a list; the third component counts how often the
  destructor has run. Each run of it uses one unit of fuel.
\<close>

datatype self_op = Self_AddRef | Self_Release

definition NonDelegatingAddRef :: "int \<Rightarrow> u32 \<times> int" where
  "NonDelegatingAddRef c = (max (word_of_int (c + 1)) 1, c + 1)"

primrec self_run ::
  "(int \<Rightarrow> nat \<Rightarrow> (u32 \<times> int \<times> nat) option) \<Rightarrow> self_op list \<Rightarrow> int \<Rightarrow> nat \<Rightarrow> (int \<times> nat) option" where
  "self_run release [] c k = Some (c, k)"
| "self_run release (s # ss) c k =
    (case s of
       Self_AddRef \<Rightarrow> self_run release ss (snd (NonDelegatingAddRef c)) k
     | Self_Release \<Rightarrow> do { (_, c1, k1) \<leftarrow> release c k; self_run release ss c1 k1 })"

primrec NonDelegatingRelease :: "nat \<Rightarrow> self_op list \<Rightarrow> int \<Rightarrow> nat \<Rightarrow> (u32 \<times> int \<times> nat) option" where
  "NonDelegatingRelease 0 destructor c k = None"
| "NonDelegatingRelease (Suc fuel) destructor c k =
    (let lRef = c - 1 in
     if lRef = 0
     then do { (c1, k1) \<leftarrow> self_run (NonDelegatingRelease fuel destructor) destructor (lRef + 1) (Suc k); Some (0, c1, k1) }
     else Some (max (word_of_int lRef) 1, lRef, k))"

section \<open>The class factory\<close>

text \<open>The data for the registration of a filter: its class, name and merit, and each pin's name and number of media types.\<close>

record setup_filter =
  sf_clsID :: clsid
  sf_strName :: string
  sf_dwMerit :: u32
  sf_pins :: "(string \<times> nat) list"

record factory_template =
  t_Name :: string
  t_ClsID :: clsid
  t_init :: bool
  t_setup :: "setup_filter option"

record class_factory =
  m_pTemplate :: nat
  fac_cRef :: u32

definition ClassFactory_QueryInterface :: "iid option \<Rightarrow> class_factory \<Rightarrow> hresult \<times> iid option \<times> class_factory" where
  "ClassFactory_QueryInterface riid f =
    (case riid of
       None \<Rightarrow> (E_POINTER, None, f)
     | Some i \<Rightarrow> if i = IID_IUnknown \<or> i = IID_IClassFactory then (S_OK, Some i, f\<lparr>fac_cRef := fac_cRef f + 1\<rparr>)
         else (E_NOINTERFACE, None, f))"

definition ClassFactory_AddRef :: "class_factory \<Rightarrow> u32 \<times> class_factory" where
  "ClassFactory_AddRef f = (fac_cRef f + 1, f\<lparr>fac_cRef := fac_cRef f + 1\<rparr>)"

definition ClassFactory_Release :: "class_factory \<Rightarrow> dll \<Rightarrow> u32 \<times> class_factory option \<times> dll" where
  "ClassFactory_Release f d =
    (let lRef = fac_cRef f - 1
     in if lRef = 0 then (0, None, object_deleted d) else (lRef, Some (f\<lparr>fac_cRef := lRef\<rparr>), d))"

definition LockServer :: "bool \<Rightarrow> dll \<Rightarrow> hresult \<times> dll" where
  "LockServer fLock d = (S_OK, d\<lparr>m_cLocked := (if fLock then m_cLocked d + 1 else m_cLocked d - 1)\<rparr>)"

text \<open>
  An object that was created has no reference yet; \<open>create\<close> is the template's function with its result
  code, \<open>supports\<close> the interfaces the object hands out. The object is returned with its count.
\<close>

definition Class_CreateInstance ::
  "(dll \<Rightarrow> ('o option \<times> hresult \<times> dll) option) \<Rightarrow> ('o \<Rightarrow> dll \<Rightarrow> dll option) \<Rightarrow> ('o \<Rightarrow> iid \<Rightarrow> bool)
     \<Rightarrow> bool \<Rightarrow> iid \<Rightarrow> bool \<Rightarrow> dll \<Rightarrow> (hresult \<times> ('o \<times> int) option \<times> dll) option" where
  "Class_CreateInstance create destroy supports outer riid pv d =
    (if \<not> pv then Some (E_POINTER, None, d)
     else if outer \<and> riid \<noteq> IID_IUnknown then Some (E_NOINTERFACE, None, d)
     else do {
       (pObj, hr, d1) \<leftarrow> create d;
       case pObj of
         None \<Rightarrow> Some (if succeeded hr then E_OUTOFMEMORY else hr, None, d1)
       | Some ob \<Rightarrow>
           if failed hr then do { d2 \<leftarrow> destroy ob d1; Some (hr, None, d2) }
           else do {
             let c1 = snd (NonDelegatingAddRef 0);
             let (hr1, c2) = (if supports ob riid then (S_OK, snd (NonDelegatingAddRef c1)) else (E_NOINTERFACE, c1));
             (_, c3, k) \<leftarrow> NonDelegatingRelease 1 [] c2 0;
             if k = 0 then Some (hr1, Some (ob, c3), d1) else do { d2 \<leftarrow> destroy ob d1; Some (hr1, None, d2) } } })"

section \<open>Entry points\<close>

primrec find_template :: "clsid \<Rightarrow> factory_template list \<Rightarrow> nat \<Rightarrow> nat option" where
  "find_template c [] i = None"
| "find_template c (t # ts) i = (if t_ClsID t = c then Some i else find_template c ts (i + 1))"

definition Base_DllGetClassObject ::
  "factory_template list \<Rightarrow> bool \<Rightarrow> clsid \<Rightarrow> iid \<Rightarrow> dll \<Rightarrow> hresult \<times> class_factory option \<times> dll" where
  "Base_DllGetClassObject g_Templates memory rClsID riid d =
    (if \<not> (riid = IID_IUnknown) \<and> \<not> (riid = IID_IClassFactory) then (E_NOINTERFACE, None, d)
     else case find_template rClsID g_Templates 0 of
       None \<Rightarrow> (CLASS_E_CLASSNOTAVAILABLE, None, d)
     | Some i \<Rightarrow> if memory
         then (S_OK, Some (snd (ClassFactory_AddRef \<lparr>m_pTemplate = i, fac_cRef = 0\<rparr>)), object_created d)
         else (E_OUTOFMEMORY, None, d))"

text \<open>The initialization routines that are called, with their arguments.\<close>

definition DllInitClasses :: "factory_template list \<Rightarrow> bool \<Rightarrow> (bool \<times> clsid) list" where
  "DllInitClasses g_Templates bLoading = map (\<lambda>t. (bLoading, t_ClsID t)) (filter t_init g_Templates)"

definition DllCanUnloadNow :: "dll \<Rightarrow> hresult" where
  "DllCanUnloadNow d = (if m_cLocked d > 0 \<or> m_cObjects d \<noteq> 0 then S_FALSE else S_OK)"

section \<open>The camera filter\<close>

text \<open>
  PS3EyeSource and its pin; \<open>cf_pin\<close> is the member \<open>_pin\<close>. The answers: memory for the filter, the address of
  its pin or a null pointer, and the pin array that \<open>AddPin\<close> asks for.
\<close>

record camera_filter =
  cf_source :: source_filter
  cf_pin :: "pin option"

record camera_answers =
  ca_filter :: bool
  ca_pin :: "pin option"
  ca_array :: "pin list option"

text \<open>The constructor; \<open>phr\<close> is a valid pointer, as CFactoryTemplate sees to. The second component is \<open>*phr\<close>.\<close>

definition new_camera_filter :: "camera_answers \<Rightarrow> dll \<Rightarrow> (camera_filter \<times> hresult \<times> dll) option" where
  "new_camera_filter a d =
    (let d1 = object_created d in
     case ca_pin a of
       None \<Rightarrow> Some (\<lparr>cf_source = new_source_filter, cf_pin = None\<rparr>, E_OUTOFMEMORY, d1)
     | Some p \<Rightarrow> do {
         (hr, f) \<leftarrow> AddPin (map_option (fitted 1) (ca_array a)) p new_source_filter;
         Some (\<lparr>cf_source = f, cf_pin = Some p\<rparr>, S_OK, object_created d1) })"

definition Camera_CreateInstance :: "camera_answers \<Rightarrow> dll \<Rightarrow> (camera_filter option \<times> hresult \<times> dll) option" where
  "Camera_CreateInstance a d =
    (if \<not> ca_filter a then Some (None, E_OUTOFMEMORY, d)
     else do { (cf, hr, d1) \<leftarrow> new_camera_filter a d; Some (Some cf, S_OK, d1) })"

text \<open>The destructor, with the pins it deletes, in order: its own pin, and those that CSource still has.\<close>

definition delete_camera_filter :: "camera_filter \<Rightarrow> dll \<Rightarrow> (pin list \<times> dll) option" where
  "delete_camera_filter cf d = do {
     (f, own, d1) \<leftarrow> (case cf_pin cf of
        None \<Rightarrow> Some (cf_source cf, [], d)
      | Some p \<Rightarrow> do { (_, f) \<leftarrow> RemovePin p (cf_source cf); Some (f, [p], object_deleted d) });
     (_, ps) \<leftarrow> delete_pins (m_iPins f) f;
     Some (own @ ps, object_deleted (fold (\<lambda>_. object_deleted) ps d1)) }"

section \<open>The filter of the virtual camera\<close>

text \<open>
  The constructor makes an array of its own, which the pin's constructor replaces through \<open>AddPin\<close>, and then
  stores the pin into the array. \<open>left_first\<close> is whether the compiler reads the member before it constructs
  the pin, as it may before C++17: the store then goes to an array that \<open>AddPin\<close> has freed. A null pointer is 0.
\<close>

record virtual_answers =
  va_filter :: bool
  va_first :: "pin list option"
  va_pin :: "pin option"
  va_array :: "pin list option"
  left_first :: bool

definition new_virtual_filter :: "virtual_answers \<Rightarrow> dll \<Rightarrow> (source_filter \<times> hresult \<times> dll) option" where
  "new_virtual_filter a d =
    (let d1 = object_created d;
         f0 = new_source_filter\<lparr>m_paStreams := map_option (fitted 1) (va_first a)\<rparr>
     in do {
       (hr, f, d2, p, freed) \<leftarrow>
         (case va_pin a of
            None \<Rightarrow> Some (S_OK, f0, d1, 0, False)
          | Some p \<Rightarrow> do {
              (hr, f) \<leftarrow> AddPin (map_option (fitted 1) (va_array a)) p f0;
              Some (hr, f, object_created d1, p, hr = S_OK) });
       if left_first a \<and> (freed \<or> m_paStreams f0 = None) then None
       else do { xs \<leftarrow> m_paStreams f; Some (f\<lparr>m_paStreams := Some (xs[0 := p])\<rparr>, hr, d2) } })"

definition Virtual_CreateInstance :: "virtual_answers \<Rightarrow> dll \<Rightarrow> (source_filter option \<times> hresult \<times> dll) option" where
  "Virtual_CreateInstance a d =
    (if \<not> va_filter a then Some (None, E_OUTOFMEMORY, d)
     else do { (f, hr, d1) \<leftarrow> new_virtual_filter a d; Some (Some f, hr, d1) })"

definition delete_virtual_filter :: "source_filter \<Rightarrow> dll \<Rightarrow> (pin list \<times> dll) option" where
  "delete_virtual_filter f d = do {
     (_, ps) \<leftarrow> delete_pins (m_iPins f) f;
     Some (ps, object_deleted (fold (\<lambda>_. object_deleted) ps d)) }"

section \<open>A server and its clients\<close>

text \<open>Class factories and objects by number, \<open>None\<close> once they are deleted; an object has its count.\<close>

record 'o server =
  s_dll :: dll
  s_factories :: "class_factory option list"
  s_objects :: "('o \<times> int) option list"

definition new_server_dll :: "'o server" where
  "new_server_dll = \<lparr>s_dll = new_dll, s_factories = [], s_objects = []\<rparr>"

datatype 'a server_op =
    GetClass bool clsid iid
  | FactoryAddRef nat
  | FactoryQuery nat "iid option"
  | FactoryRelease nat
  | Lock bool
  | Create nat bool iid 'a
  | ObjectAddRef nat
  | ObjectRelease nat

definition live :: "'b option list \<Rightarrow> nat \<Rightarrow> 'b option" where
  "live xs i = (if i < length xs then xs ! i else None)"

text \<open>
  One call of a client. \<open>create\<close> and \<open>destroy\<close> are the class's; a call through a pointer to a deleted factory
  or object is not made.
\<close>

definition server_step ::
  "('a \<Rightarrow> dll \<Rightarrow> ('o option \<times> hresult \<times> dll) option) \<Rightarrow> ('o \<Rightarrow> dll \<Rightarrow> dll option) \<Rightarrow> ('o \<Rightarrow> iid \<Rightarrow> bool)
     \<Rightarrow> factory_template list \<Rightarrow> 'a server_op \<Rightarrow> 'o server \<Rightarrow> 'o server option" where
  "server_step create destroy supports ts op s =
    (case op of
       GetClass memory c i \<Rightarrow>
         (case Base_DllGetClassObject ts memory c i (s_dll s) of
            (_, None, d) \<Rightarrow> Some (s\<lparr>s_dll := d\<rparr>)
          | (_, Some f, d) \<Rightarrow> Some (s\<lparr>s_dll := d, s_factories := s_factories s @ [Some f]\<rparr>))
     | FactoryAddRef k \<Rightarrow>
         (case live (s_factories s) k of
            None \<Rightarrow> Some s
          | Some f \<Rightarrow> Some (s\<lparr>s_factories := (s_factories s)[k := Some (snd (ClassFactory_AddRef f))]\<rparr>))
     | FactoryQuery k i \<Rightarrow>
         (case live (s_factories s) k of
            None \<Rightarrow> Some s
          | Some f \<Rightarrow> Some (s\<lparr>s_factories := (s_factories s)[k := Some (snd (snd (ClassFactory_QueryInterface i f)))]\<rparr>))
     | FactoryRelease k \<Rightarrow>
         (case live (s_factories s) k of
            None \<Rightarrow> Some s
          | Some f \<Rightarrow> (case ClassFactory_Release f (s_dll s) of
              (_, f1, d) \<Rightarrow> Some (s\<lparr>s_dll := d, s_factories := (s_factories s)[k := f1]\<rparr>)))
     | Lock b \<Rightarrow> Some (s\<lparr>s_dll := snd (LockServer b (s_dll s))\<rparr>)
     | Create k outer i a \<Rightarrow>
         (case live (s_factories s) k of
            None \<Rightarrow> Some s
          | Some f \<Rightarrow> do {
              (_, ob, d) \<leftarrow> Class_CreateInstance (create a) destroy supports outer i True (s_dll s);
              Some (s\<lparr>s_dll := d, s_objects := s_objects s @ [ob]\<rparr>) })
     | ObjectAddRef k \<Rightarrow>
         (case live (s_objects s) k of
            None \<Rightarrow> Some s
          | Some (ob, c) \<Rightarrow> Some (s\<lparr>s_objects := (s_objects s)[k := Some (ob, snd (NonDelegatingAddRef c))]\<rparr>))
     | ObjectRelease k \<Rightarrow>
         (case live (s_objects s) k of
            None \<Rightarrow> Some s
          | Some (ob, c) \<Rightarrow> do {
              (_, c1, n) \<leftarrow> NonDelegatingRelease 1 [] c 0;
              if n = 0 then Some (s\<lparr>s_objects := (s_objects s)[k := Some (ob, c1)]\<rparr>)
              else do { d \<leftarrow> destroy ob (s_dll s); Some (s\<lparr>s_dll := d, s_objects := (s_objects s)[k := None]\<rparr>) } }))"

section \<open>The destructor runs once\<close>

definition net :: "self_op list \<Rightarrow> int" where
  "net ss = sum_list (map (\<lambda>s. case s of Self_AddRef \<Rightarrow> 1 | Self_Release \<Rightarrow> - 1) ss)"

lemma net_simps [simp]: "net [] = 0" "net (Self_AddRef # ss) = net ss + 1" "net (Self_Release # ss) = net ss - 1"
  by (simp_all add: net_def)

lemma self_run_stays:
  assumes "\<And>i. 1 \<le> c + net (take i ss)"
  shows "self_run (NonDelegatingRelease (Suc n) destructor) ss c k = Some (c + net ss, k)"
  using assms
proof (induction ss arbitrary: c)
  case (Cons s ss)
  have next_step: "1 \<le> c + net [s] + net (take i ss)" for i using Cons.prems [of "Suc i"] by (cases s) (auto simp: algebra_simps)
  show ?case
  proof (cases s)
    case Self_AddRef
    then show ?thesis using Cons.IH [of "c + 1"] next_step by (simp add: NonDelegatingAddRef_def algebra_simps)
  next
    case Self_Release
    then have "1 \<le> c - 1" using next_step [of 0] by simp
    then show ?thesis using Self_Release Cons.IH [of "c - 1"] next_step by (simp add: Let_def algebra_simps)
  qed
qed simp

text \<open>C25: The last release of an object runs its destructor exactly once, although the destructor may take and
  give back references to the object itself, any number of times: the count never comes back to zero while
  it runs. No other release runs it at all.\<close>

theorem destructor_runs_once:
  assumes "\<And>i. 0 \<le> net (take i destructor)"
  shows "NonDelegatingRelease 2 destructor 1 k = Some (0, 1 + net destructor, Suc k)
    \<and> (c \<noteq> 1 \<longrightarrow> NonDelegatingRelease 2 destructor c k = Some (max (word_of_int (c - 1)) 1, c - 1, k))"
proof -
  have "self_run (NonDelegatingRelease (Suc 0) destructor) destructor 1 (Suc k) = Some (1 + net destructor, Suc k)"
    by (rule self_run_stays) (use assms in simp)
  then show ?thesis by (simp add: numeral_2_eq_2 Let_def)
qed

theorem destructor_runs_once_witness:
  "NonDelegatingRelease 2 [Self_AddRef, Self_Release, Self_AddRef, Self_Release] 1 0 = Some (0, 1, 1)"
proof -
  have "0 \<le> net (take i [Self_AddRef, Self_Release, Self_AddRef, Self_Release])" for i
    by (auto simp: take_Cons split: nat.split)
  from destructor_runs_once [OF this, of 0] show ?thesis by simp
qed

section \<open>What a class promises its server\<close>

text \<open>
  A class counts as many objects when it makes one of its own as when it deletes it: \<open>parts\<close> says how many, for the
  objects \<open>made\<close> by it.
\<close>

definition weight :: "('b \<Rightarrow> int) \<Rightarrow> 'b option list \<Rightarrow> int" where
  "weight w xs = sum_list (map (\<lambda>x. case x of None \<Rightarrow> 0 | Some y \<Rightarrow> w y) xs)"

lemma weight_simps [simp]: "weight w [] = 0" "weight w (xs @ [None]) = weight w xs" "weight w (xs @ [Some y]) = weight w xs + w y"
  by (simp_all add: weight_def)

lemma weight_update:
  "i < length xs \<Longrightarrow> weight w (xs[i := y]) = weight w xs - (case xs ! i of None \<Rightarrow> 0 | Some x \<Rightarrow> w x) + (case y of None \<Rightarrow> 0 | Some x \<Rightarrow> w x)"
proof (induction xs arbitrary: i)
  case (Cons x xs)
  then show ?case by (cases i) (auto simp: weight_def)
qed simp

lemma live_someD: "live xs i = Some y \<Longrightarrow> i < length xs \<and> xs ! i = Some y \<and> Some y \<in> set xs"
  by (auto simp: live_def in_set_conv_nth split: if_splits)

lemma weight_nonneg: "(\<And>y. Some y \<in> set xs \<Longrightarrow> 0 < w y) \<Longrightarrow> 0 \<le> weight w xs \<and> (weight w xs = 0 \<longleftrightarrow> (\<forall>y. Some y \<notin> set xs))"
proof (induction xs)
  case (Cons x xs)
  then have "0 \<le> weight w xs \<and> (weight w xs = 0 \<longleftrightarrow> (\<forall>y. Some y \<notin> set xs))" by simp
  moreover have "weight w (x # xs) = (case x of None \<Rightarrow> 0 | Some y \<Rightarrow> w y) + weight w xs" by (simp add: weight_def)
  ultimately show ?case using Cons.prems by (cases x) force+
qed (simp add: weight_def)

lemma object_deleted_simps [simp]:
  "m_cObjects (object_deleted d) = m_cObjects d - 1" "m_cLocked (object_deleted d) = m_cLocked d"
  "m_cObjects (object_created d) = m_cObjects d + 1" "m_cLocked (object_created d) = m_cLocked d"
  by (simp_all add: object_deleted_def object_created_def Let_def)

lemma deleted_all [simp]:
  "m_cObjects (fold (\<lambda>_. object_deleted) ps d) = m_cObjects d - int (length ps)"
  "m_cLocked (fold (\<lambda>_. object_deleted) ps d) = m_cLocked d"
  by (induction ps arbitrary: d) simp_all

locale com_class =
  fixes create :: "'a \<Rightarrow> dll \<Rightarrow> ('o option \<times> hresult \<times> dll) option" and destroy :: "'o \<Rightarrow> dll \<Rightarrow> dll option"
    and parts :: "'o \<Rightarrow> int" and made :: "'o \<Rightarrow> bool"
  assumes create_law: "\<exists>po hr d1. create a d = Some (po, hr, d1) \<and> m_cLocked d1 = m_cLocked d
      \<and> (case po of None \<Rightarrow> m_cObjects d1 = m_cObjects d | Some ob \<Rightarrow> made ob \<and> m_cObjects d1 = m_cObjects d + parts ob)"
    and destroy_law: "made ob \<Longrightarrow> \<exists>d1. destroy ob d = Some d1 \<and> m_cLocked d1 = m_cLocked d \<and> m_cObjects d1 = m_cObjects d - parts ob"
    and parts_pos: "made ob \<Longrightarrow> 0 < parts ob"
begin

definition balanced :: "'o server \<Rightarrow> bool" where
  "balanced s \<longleftrightarrow> m_cObjects (s_dll s) = weight (\<lambda>_. 1) (s_factories s) + weight (\<lambda>(ob, _). parts ob) (s_objects s)
     \<and> (\<forall>ob c. Some (ob, c) \<in> set (s_objects s) \<longrightarrow> made ob \<and> 0 < c)"

text \<open>The factory hands out an object with one reference, or has deleted what it made.\<close>

lemma create_instance:
  "\<exists>hr po d1. Class_CreateInstance (create a) destroy supports outer i True d = Some (hr, po, d1) \<and> m_cLocked d1 = m_cLocked d
     \<and> (case po of None \<Rightarrow> failed hr \<and> m_cObjects d1 = m_cObjects d
        | Some (ob, c) \<Rightarrow> hr = S_OK \<and> c = 1 \<and> supports ob i \<and> made ob \<and> m_cObjects d1 = m_cObjects d + parts ob)"
proof -
  obtain po hr d1 where c: "create a d = Some (po, hr, d1)" "m_cLocked d1 = m_cLocked d"
    "case po of None \<Rightarrow> m_cObjects d1 = m_cObjects d | Some ob \<Rightarrow> made ob \<and> m_cObjects d1 = m_cObjects d + parts ob"
    using create_law by blast
  show ?thesis
  proof (cases po)
    case None
    then show ?thesis using c by (auto simp: Class_CreateInstance_def)
  next
    case (Some ob)
    then have ob: "made ob" "m_cObjects d1 = m_cObjects d + parts ob" using c(3) by simp_all
    obtain d2 where d2: "destroy ob d1 = Some d2" "m_cLocked d2 = m_cLocked d1" "m_cObjects d2 = m_cObjects d1 - parts ob"
      using destroy_law [OF ob(1)] by blast
    then show ?thesis using c Some ob by (simp add: Class_CreateInstance_def NonDelegatingAddRef_def Let_def)
  qed
qed

lemma release_object:
  assumes "made ob" "0 < c"
  shows "\<exists>k c1 n. NonDelegatingRelease 1 [] c 0 = Some (k, c1, n) \<and> (n = 0 \<longrightarrow> 0 < c1)"
  using assms by (auto simp: Let_def)

lemma set_update_SomeD: "Some y \<in> set (xs[k := z]) \<Longrightarrow> Some y \<in> set xs \<or> z = Some y"
  using set_update_subset_insert by fastforce

lemma server_step_total:
  assumes "balanced s"
  shows "\<exists>s1. server_step create destroy supports ts op s = Some s1 \<and> balanced s1
    \<and> m_cLocked (s_dll s1) = m_cLocked (s_dll s) + (case op of Lock b \<Rightarrow> if b then 1 else - 1 | _ \<Rightarrow> 0)"
proof (cases op)
  case (GetClass memory c i)
  then show ?thesis using assms
    by (auto simp: server_step_def Base_DllGetClassObject_def balanced_def split: option.split)
next
  case (FactoryAddRef k)
  then show ?thesis using assms
    by (auto simp: server_step_def balanced_def weight_update ClassFactory_AddRef_def dest!: live_someD split: option.split)
next
  case (FactoryQuery k i)
  then show ?thesis using assms
    by (auto simp: server_step_def balanced_def weight_update dest!: live_someD split: option.split)
next
  case (FactoryRelease k)
  then show ?thesis using assms
    by (auto simp: server_step_def balanced_def weight_update ClassFactory_Release_def Let_def dest!: live_someD split: option.split)
next
  case (Lock b)
  then show ?thesis using assms by (simp add: server_step_def balanced_def LockServer_def)
next
  case (Create k outer i a)
  show ?thesis
  proof (cases "live (s_factories s) k")
    case None
    then show ?thesis using Create assms by (simp add: server_step_def)
  next
    case (Some f)
    obtain hr po d1 where c: "Class_CreateInstance (create a) destroy supports outer i True (s_dll s) = Some (hr, po, d1)"
      "m_cLocked d1 = m_cLocked (s_dll s)"
      "case po of None \<Rightarrow> failed hr \<and> m_cObjects d1 = m_cObjects (s_dll s)
        | Some (ob, c) \<Rightarrow> hr = S_OK \<and> c = 1 \<and> supports ob i \<and> made ob \<and> m_cObjects d1 = m_cObjects (s_dll s) + parts ob"
      using create_instance [of a supports outer i "s_dll s"] by blast
    then show ?thesis using Create Some assms
      by (cases po) (auto simp: server_step_def balanced_def split: prod.splits)
  qed
next
  case (ObjectAddRef k)
  then show ?thesis using assms
    by (force simp: server_step_def balanced_def weight_update NonDelegatingAddRef_def
        dest!: live_someD set_update_SomeD split: option.split)
next
  case (ObjectRelease k)
  show ?thesis
  proof (cases "live (s_objects s) k")
    case None
    then show ?thesis using ObjectRelease assms by (simp add: server_step_def)
  next
    case (Some oc)
    obtain ob c where oc: "oc = (ob, c)" by (cases oc)
    have l: "k < length (s_objects s)" "s_objects s ! k = Some (ob, c)" "Some (ob, c) \<in> set (s_objects s)"
      using live_someD [OF Some] oc by simp_all
    then have ob: "made ob" "0 < c" using assms by (auto simp: balanced_def)
    obtain d1 where d1: "destroy ob (s_dll s) = Some d1" "m_cLocked d1 = m_cLocked (s_dll s)"
      "m_cObjects d1 = m_cObjects (s_dll s) - parts ob"
      using destroy_law [OF ob(1)] by blast
    show ?thesis
    proof (cases "c = 1")
      case True
      then show ?thesis using ObjectRelease Some oc l d1 assms
        by (auto simp: server_step_def balanced_def weight_update Let_def dest!: set_update_SomeD)
    next
      case False
      then have "1 < c" using ob by simp
      then show ?thesis using ObjectRelease Some oc l ob assms
        by (auto simp: server_step_def balanced_def weight_update Let_def dest!: set_update_SomeD)
    qed
  qed
qed

lemma new_balanced: "balanced new_server_dll"
  by (simp add: balanced_def new_server_dll_def new_dll_def)

lemma can_unload:
  assumes "balanced s"
  shows "DllCanUnloadNow (s_dll s) = S_OK \<longleftrightarrow> m_cLocked (s_dll s) \<le> 0
    \<and> (\<forall>f. Some f \<notin> set (s_factories s)) \<and> (\<forall>ob. Some ob \<notin> set (s_objects s))"
proof -
  have f: "0 \<le> weight (\<lambda>_. 1) (s_factories s) \<and> (weight (\<lambda>_. 1) (s_factories s) = 0 \<longleftrightarrow> (\<forall>f. Some f \<notin> set (s_factories s)))"
    by (rule weight_nonneg) simp
  have "0 < parts ob" if "Some (ob, c) \<in> set (s_objects s)" for ob c
    using assms that parts_pos by (auto simp: balanced_def)
  then have "0 \<le> weight (\<lambda>(ob, _). parts ob) (s_objects s)
      \<and> (weight (\<lambda>(ob, _). parts ob) (s_objects s) = 0 \<longleftrightarrow> (\<forall>ob. Some ob \<notin> set (s_objects s)))"
    by (intro weight_nonneg) auto
  with f show ?thesis using assms by (auto simp: DllCanUnloadNow_def balanced_def)
qed

end

sublocale com_class \<subseteq> served: fault_free "server_step create destroy supports ts" "\<lambda>_. True" balanced for supports ts
  using server_step_total by unfold_locales blast

section \<open>The camera filter's class\<close>

definition camera_parts :: "camera_filter \<Rightarrow> int" where
  "camera_parts cf = 1 + (if cf_pin cf = None then 0 else 1)"

text \<open>The filter has its pin in the array, or no pin there.\<close>

definition camera_made :: "camera_filter \<Rightarrow> bool" where
  "camera_made cf \<longleftrightarrow> filter_ok (cf_source cf) \<and> (pins (cf_source cf) = [] \<or> (\<exists>p. cf_pin cf = Some p \<and> pins (cf_source cf) = [p]))"

definition camera_destroy :: "camera_filter \<Rightarrow> dll \<Rightarrow> dll option" where
  "camera_destroy cf d = map_option snd (delete_camera_filter cf d)"

lemma delete_no_pins: "filter_ok f \<Longrightarrow> pins f = [] \<Longrightarrow> delete_pins (m_iPins f) f = Some (f, [])"
  using length_pins [of f] by (cases "m_iPins f") auto

lemma camera_create_cases:
  "\<exists>po hr d1. Camera_CreateInstance a d = Some (po, hr, d1) \<and> m_cLocked d1 = m_cLocked d
     \<and> (case po of None \<Rightarrow> \<not> ca_filter a \<and> hr = E_OUTOFMEMORY \<and> d1 = d
        | Some cf \<Rightarrow> ca_filter a \<and> hr = S_OK \<and> camera_made cf \<and> m_cObjects d1 = m_cObjects d + camera_parts cf
            \<and> cf_pin cf = ca_pin a \<and> pins (cf_source cf) = (if ca_array a = None then [] else case ca_pin a of None \<Rightarrow> [] | Some p \<Rightarrow> [p]))"
proof (cases "ca_filter a")
  case True
  show ?thesis
  proof (cases "ca_pin a")
    case None
    then show ?thesis using True pins_new
      by (simp add: Camera_CreateInstance_def new_camera_filter_def camera_made_def camera_parts_def)
  next
    case (Some p)
    show ?thesis
    proof (cases "ca_array a")
      case None
      then show ?thesis using True Some pins_new
        by (simp add: Camera_CreateInstance_def new_camera_filter_def AddPin_def camera_made_def camera_parts_def)
    next
      case (Some junk)
      have "length (fitted 1 junk) = m_iPins new_source_filter + 1" by (simp add: length_fitted new_source_filter_def)
      then obtain f where "AddPin (Some (fitted 1 junk)) p new_source_filter = Some (S_OK, f)" "filter_ok f" "pins f = [p]"
        using AddPin_pins [OF pins_new(1)] pins_new(2) by auto
      then show ?thesis using True \<open>ca_pin a = Some p\<close> Some
        by (simp add: Camera_CreateInstance_def new_camera_filter_def camera_made_def camera_parts_def)
    qed
  qed
qed (simp add: Camera_CreateInstance_def)

text \<open>Whatever was made, the destructor deletes the filter's pin exactly once.\<close>

lemma camera_deletes:
  assumes "camera_made cf"
  shows "\<exists>d1. delete_camera_filter cf d = Some (case cf_pin cf of None \<Rightarrow> [] | Some p \<Rightarrow> [p], d1)
    \<and> m_cLocked d1 = m_cLocked d \<and> m_cObjects d1 = m_cObjects d - camera_parts cf"
proof (cases "cf_pin cf")
  case None
  then show ?thesis using assms delete_no_pins by (auto simp: delete_camera_filter_def camera_made_def camera_parts_def)
next
  case (Some p)
  have ok: "filter_ok (cf_source cf)" "remove1 p (pins (cf_source cf)) = []" using assms Some by (auto simp: camera_made_def)
  obtain r f where "RemovePin p (cf_source cf) = Some (r, f)" "filter_ok f" "pins f = []"
    using RemovePin_pins [OF ok(1), of p] ok(2) by auto
  then show ?thesis using Some delete_no_pins by (simp add: delete_camera_filter_def camera_parts_def)
qed

interpretation camera_class: com_class Camera_CreateInstance camera_destroy camera_parts camera_made
proof
  fix a d
  show "\<exists>po hr d1. Camera_CreateInstance a d = Some (po, hr, d1) \<and> m_cLocked d1 = m_cLocked d
      \<and> (case po of None \<Rightarrow> m_cObjects d1 = m_cObjects d | Some ob \<Rightarrow> camera_made ob \<and> m_cObjects d1 = m_cObjects d + camera_parts ob)"
    using camera_create_cases [of a d] by (auto split: option.splits)
next
  fix ob d
  assume "camera_made ob"
  then show "\<exists>d1. camera_destroy ob d = Some d1 \<and> m_cLocked d1 = m_cLocked d \<and> m_cObjects d1 = m_cObjects d - camera_parts ob"
    using camera_deletes [of ob d] by (auto simp: camera_destroy_def)
qed (simp add: camera_parts_def)

section \<open>Properties\<close>

text \<open>The number of \<open>LockServer\<close> calls that lock, less those that unlock.\<close>

definition locks :: "'a server_op list \<Rightarrow> int" where
  "locks ops = sum_list (map (\<lambda>op. case op of Lock b \<Rightarrow> if b then 1 else - 1 | _ \<Rightarrow> 0) ops)"

lemma camera_locks:
  "camera_class.balanced s \<Longrightarrow> opt_run (server_step Camera_CreateInstance camera_destroy supports ts) ops s = Some s1 \<Longrightarrow>
     m_cLocked (s_dll s1) = m_cLocked (s_dll s) + locks ops"
proof (induction ops arbitrary: s)
  case (Cons op ops)
  obtain s2 where "server_step Camera_CreateInstance camera_destroy supports ts op s = Some s2" "camera_class.balanced s2"
    "m_cLocked (s_dll s2) = m_cLocked (s_dll s) + (case op of Lock b \<Rightarrow> if b then 1 else - 1 | _ \<Rightarrow> 0)"
    using camera_class.server_step_total [OF Cons.prems(1), of supports ts op] by blast
  then show ?case using Cons by (simp add: locks_def)
qed (simp add: locks_def)

text \<open>C24: The camera's DLL says that it can be unloaded exactly when nothing needs it: whatever clients do with
  class factories, filters and locks, in any order and with memory refused at any point, no call goes wrong,
  and \<open>DllCanUnloadNow\<close> answers \<open>S_OK\<close> if and only if no factory and no filter is alive and no more locks
  than unlocks were asked for.\<close>

theorem dll_unloads_when_nothing_is_left:
  "\<exists>s. opt_run (server_step Camera_CreateInstance camera_destroy supports ts) ops new_server_dll = Some s
    \<and> (DllCanUnloadNow (s_dll s) = S_OK \<longleftrightarrow>
         locks ops \<le> 0 \<and> (\<forall>f. Some f \<notin> set (s_factories s)) \<and> (\<forall>cf. Some cf \<notin> set (s_objects s)))"
proof -
  obtain s where s: "opt_run (server_step Camera_CreateInstance camera_destroy supports ts) ops new_server_dll = Some s"
    "camera_class.balanced s"
    using camera_class.served.run_total [OF _ camera_class.new_balanced, of ops supports ts] by (auto simp: list_all_iff)
  have "m_cLocked (s_dll s) = locks ops"
    using camera_locks [OF camera_class.new_balanced s(1)] by (simp add: new_server_dll_def new_dll_def)
  then show ?thesis using s camera_class.can_unload [OF s(2)] by auto
qed

text \<open>A camera filter can come without its pin. When there is no memory for the pin, or for the array the pin is
  entered in, the result code says so inside the constructor, but both the constructor of PS3EyeSource and its
  \<open>CreateInstance\<close> overwrite it: the class factory hands out, with \<open>S_OK\<close> and one reference, a filter that
  shows no pin. Either way its destructor deletes the pin that was made, once.\<close>

theorem refused_pin_is_not_reported:
  assumes "ca_filter a" and "supports IID_IUnknown"
  shows "\<exists>cf d1. Class_CreateInstance (Camera_CreateInstance a) camera_destroy (\<lambda>_. supports) outer IID_IUnknown True d
      = Some (S_OK, Some (cf, 1), d1)
    \<and> pins (cf_source cf) = (if ca_array a = None then [] else case ca_pin a of None \<Rightarrow> [] | Some p \<Rightarrow> [p])
    \<and> map_option fst (delete_camera_filter cf d1) = Some (case ca_pin a of None \<Rightarrow> [] | Some p \<Rightarrow> [p])"
proof -
  obtain po hr d1 where "Camera_CreateInstance a d = Some (po, hr, d1)" "case po of None \<Rightarrow> \<not> ca_filter a \<and> hr = E_OUTOFMEMORY \<and> d1 = d
        | Some cf \<Rightarrow> ca_filter a \<and> hr = S_OK \<and> camera_made cf \<and> m_cObjects d1 = m_cObjects d + camera_parts cf
            \<and> cf_pin cf = ca_pin a \<and> pins (cf_source cf) = (if ca_array a = None then [] else case ca_pin a of None \<Rightarrow> [] | Some p \<Rightarrow> [p])"
    using camera_create_cases [of a d] by blast
  then obtain cf where cf: "Camera_CreateInstance a d = Some (Some cf, S_OK, d1)" "camera_made cf" "cf_pin cf = ca_pin a"
    "pins (cf_source cf) = (if ca_array a = None then [] else case ca_pin a of None \<Rightarrow> [] | Some p \<Rightarrow> [p])"
    using assms(1) by (auto split: option.splits)
  have "Class_CreateInstance (Camera_CreateInstance a) camera_destroy (\<lambda>_. supports) outer IID_IUnknown True d
      = Some (S_OK, Some (cf, 1), d1)"
    using cf(1) assms(2) by (simp add: Class_CreateInstance_def NonDelegatingAddRef_def Let_def)
  moreover have "map_option fst (delete_camera_filter cf d1) = Some (case ca_pin a of None \<Rightarrow> [] | Some p \<Rightarrow> [p])"
    using camera_deletes [OF cf(2), of d1] cf(3) by auto
  ultimately show ?thesis using cf(4) by blast
qed

theorem refused_pin_is_not_reported_witness:
  "\<exists>cf d1. Class_CreateInstance (Camera_CreateInstance \<lparr>ca_filter = True, ca_pin = Some 7, ca_array = None\<rparr>) camera_destroy
      (\<lambda>_ i. i = IID_IUnknown) False IID_IUnknown True new_dll = Some (S_OK, Some (cf, 1), d1) \<and> pins (cf_source cf) = []"
  using refused_pin_is_not_reported [of "\<lparr>ca_filter = True, ca_pin = Some 7, ca_array = None\<rparr>" "\<lambda>i. i = IID_IUnknown" False new_dll]
  by auto

lemma virtual_created:
  assumes "va_first a = Some xs" "va_pin a = Some p" "\<not> left_first a \<or> va_array a = None"
  shows "\<exists>f d1. new_virtual_filter a d = Some (f, if va_array a = None then E_OUTOFMEMORY else S_OK, d1)
    \<and> m_cObjects d1 = m_cObjects d + 2 \<and> filter_ok f = (va_array a \<noteq> None) \<and> pins f = (if va_array a = None then [] else [p])
    \<and> m_iPins f = (if va_array a = None then 0 else 1)"
proof (cases "va_array a")
  case None
  then show ?thesis using assms
    by (simp add: new_virtual_filter_def AddPin_def new_source_filter_def filter_ok_def pins_def)
next
  case (Some ys)
  obtain x where x: "fitted 1 xs = [x]" using length_fitted [of 1 xs] by (auto simp: length_Suc_conv)
  show ?thesis using assms Some x
    by (simp add: new_virtual_filter_def AddPin_def new_source_filter_def filter_ok_def pins_def array_def)
qed

text \<open>The virtual camera's filter gets its pin only if the store of the pin into the array comes last, as since
  C++17: then the array holds the pin once, and the filter's destructor deletes it. With the other order of
  evaluation the store goes to the array that \<open>AddPin\<close> has just freed. And if \<open>AddPin\<close> finds no memory, the
  filter is deleted but the pin is not: the DLL counts one object for ever and can never be unloaded.\<close>

theorem virtual_filter_construction:
  assumes "va_first a = Some xs" and "va_pin a = Some p" and "va_filter a"
  shows "if va_array a = None
     then (\<exists>d1. Class_CreateInstance (Virtual_CreateInstance a) (\<lambda>f d. map_option snd (delete_virtual_filter f d)) (\<lambda>_. supports)
              False i True d = Some (E_OUTOFMEMORY, None, d1) \<and> m_cObjects d1 = m_cObjects d + 1)
     else if left_first a then Virtual_CreateInstance a d = None
     else (\<exists>f d1 d2. Virtual_CreateInstance a d = Some (Some f, S_OK, d1) \<and> pins f = [p] \<and> m_cObjects d1 = m_cObjects d + 2
              \<and> delete_virtual_filter f d1 = Some ([p], d2) \<and> m_cObjects d2 = m_cObjects d)"
proof (cases "va_array a")
  case None
  obtain f d1 where f: "new_virtual_filter a d = Some (f, E_OUTOFMEMORY, d1)" "m_cObjects d1 = m_cObjects d + 2" "m_iPins f = 0"
    using virtual_created [OF assms(1,2), of d] None by auto
  have "delete_virtual_filter f d1 = Some ([], object_deleted d1)" using f(3) by (simp add: delete_virtual_filter_def)
  then show ?thesis using None f assms(3) by (simp add: Class_CreateInstance_def Virtual_CreateInstance_def)
next
  case (Some ys)
  show ?thesis
  proof (cases "left_first a")
    case True
    then show ?thesis using Some assms
      by (auto simp: Virtual_CreateInstance_def new_virtual_filter_def AddPin_def new_source_filter_def)
  next
    case False
    obtain f d1 where f: "new_virtual_filter a d = Some (f, S_OK, d1)" "m_cObjects d1 = m_cObjects d + 2" "filter_ok f" "pins f = [p]"
      "m_iPins f = 1"
      using virtual_created [OF assms(1,2), of d] Some False by auto
    have "\<exists>f'. delete_pins 1 f = Some (f', [p])" using delete_pins_all [OF f(3), of 1] f by auto
    then have "\<exists>d2. delete_virtual_filter f d1 = Some ([p], d2) \<and> m_cObjects d2 = m_cObjects d1 - 2"
      using f(5) by (auto simp: delete_virtual_filter_def)
    then show ?thesis using f Some False assms(3) by (auto simp: Virtual_CreateInstance_def)
  qed
qed

theorem virtual_filter_construction_witness:
  "Virtual_CreateInstance \<lparr>va_filter = True, va_first = Some [3], va_pin = Some 7, va_array = Some [4], left_first = True\<rparr> new_dll = None
   \<and> (\<exists>f d1 d2. Virtual_CreateInstance \<lparr>va_filter = True, va_first = Some [3], va_pin = Some 7, va_array = Some [4], left_first = False\<rparr>
          new_dll = Some (Some f, S_OK, d1) \<and> delete_virtual_filter f d1 = Some ([7], d2) \<and> m_cObjects d2 = 0)"
  using virtual_filter_construction [of "\<lparr>va_filter = True, va_first = Some [3], va_pin = Some 7, va_array = Some [4], left_first = True\<rparr>"
      "[3]" 7 "\<lambda>_. True" IID_IUnknown new_dll]
    virtual_filter_construction [of "\<lparr>va_filter = True, va_first = Some [3], va_pin = Some 7, va_array = Some [4], left_first = False\<rparr>"
      "[3]" 7 "\<lambda>_. True" IID_IUnknown new_dll]
  by (auto simp: new_dll_def)

end
