(* ===== verification/Registration.thy ===== *)
theory Registration
  imports ComServer "HOL-Library.Sublist"
begin

text \<open>
  Registration of the three COM servers: the registry as a list of keys, the recursive removal of a key
  (\<open>EliminateSubKey\<close>), the registration of servers and filters in baseclasses/dllsetup.cpp and amfilter.cpp,
  and the \<open>DllRegisterServer\<close> and \<open>DllUnregisterServer\<close> of setup.cpp, PS3EyeVirtualFilter.cpp and
  PS3EyeDeviceSource.cpp. What the registry refuses, and what COM and the filter mapper answer, are arguments.
\<close>

section \<open>The registry\<close>

text \<open>
  The keys below HKEY_CLASSES_ROOT, each with its path and its values; the unnamed value is the empty name. The
  order is that in which the registry lists them. A key is there only if the one above it is.
\<close>

type_synonym path = "string list"

type_synonym registry = "(path \<times> (string \<rightharpoonup> string)) list"

definition has_key :: "registry \<Rightarrow> path \<Rightarrow> bool" where
  "has_key r p \<longleftrightarrow> p = [] \<or> p \<in> set (map fst r)"

definition add_key :: "registry \<Rightarrow> path \<Rightarrow> registry" where
  "add_key r p = (if has_key r p then r else r @ [(p, Map.empty)])"

text \<open>\<open>RegCreateKey\<close> makes the keys on the way, too.\<close>

definition RegCreateKey :: "path \<Rightarrow> registry \<Rightarrow> registry" where
  "RegCreateKey p r = foldl add_key r (map (\<lambda>n. take n p) [1..<Suc (length p)])"

definition RegSetValue :: "path \<Rightarrow> string \<Rightarrow> string \<Rightarrow> registry \<Rightarrow> registry" where
  "RegSetValue p name v r = map (\<lambda>(q, vs). if q = p then (q, vs(name \<mapsto> v)) else (q, vs)) r"

definition subkeys :: "registry \<Rightarrow> path \<Rightarrow> string list" where
  "subkeys r p = map last (filter (\<lambda>q. q \<noteq> [] \<and> butlast q = p) (map fst r))"

definition RegEnumKeyEx :: "registry \<Rightarrow> path \<Rightarrow> string option" where
  "RegEnumKeyEx r p = (case subkeys r p of [] \<Rightarrow> None | n # _ \<Rightarrow> Some n)"

text \<open>A key with keys below it is not deleted, nor one that is protected.\<close>

definition RegDeleteKey :: "(path \<Rightarrow> bool) \<Rightarrow> path \<Rightarrow> registry \<Rightarrow> registry" where
  "RegDeleteKey deletable p r = (if subkeys r p = [] \<and> deletable p then filter (\<lambda>(q, _). q \<noteq> p) r else r)"

text \<open>The documented \<open>RegDeleteTree\<close>: the key and all below it.\<close>

definition without :: "path \<Rightarrow> registry \<Rightarrow> registry" where
  "without p r = filter (\<lambda>(q, _). \<not> prefix p q) r"

text \<open>
  \<open>EliminateSubKey\<close> and its loop. \<open>openable\<close> and \<open>deletable\<close> are what the access rights allow; every call and
  every round uses one unit of fuel.
\<close>

fun EliminateSubKey :: "nat \<Rightarrow> (path \<Rightarrow> bool) \<Rightarrow> (path \<Rightarrow> bool) \<Rightarrow> path \<Rightarrow> path \<Rightarrow> registry \<Rightarrow> (hresult \<times> registry) option"
  and eliminate_loop :: "nat \<Rightarrow> (path \<Rightarrow> bool) \<Rightarrow> (path \<Rightarrow> bool) \<Rightarrow> path \<Rightarrow> registry \<Rightarrow> registry option" where
  "EliminateSubKey 0 openable deletable hkey strSubKey r = None"
| "EliminateSubKey (Suc fuel) openable deletable hkey strSubKey r =
    (if strSubKey = [] then Some (E_FAIL, r)
     else if has_key r (hkey @ strSubKey) \<and> openable (hkey @ strSubKey)
     then do {
       r1 \<leftarrow> eliminate_loop fuel openable deletable (hkey @ strSubKey) r;
       Some (S_OK, RegDeleteKey deletable (hkey @ strSubKey) r1) }
     else Some (S_OK, r))"
| "eliminate_loop 0 openable deletable hk r = None"
| "eliminate_loop (Suc fuel) openable deletable hk r =
    (case RegEnumKeyEx r hk of
       None \<Rightarrow> Some r
     | Some n \<Rightarrow> do {
         (_, r1) \<leftarrow> EliminateSubKey fuel openable deletable hk [n] r;
         eliminate_loop fuel openable deletable hk r1 })"

section \<open>Error codes\<close>

text \<open>The error codes of Windows as result codes; 0 is ERROR_SUCCESS.\<close>

definition HRESULT_FROM_WIN32 :: "nat \<Rightarrow> hresult" where
  "HRESULT_FROM_WIN32 e = (if e = 0 then S_OK else Other_failure e)"

definition AmHresultFromWin32 :: "nat \<Rightarrow> hresult" where
  "AmHresultFromWin32 e = Other_failure e"

text \<open>0x80070002, which stands for a filter that is not registered.\<close>

definition not_registered :: hresult where "not_registered = HRESULT_FROM_WIN32 2"

section \<open>Servers\<close>

text \<open>What each call to the registry returns. Texts are cut off at MAX_PATH.\<close>

record server_answers =
  sv_key :: nat
  sv_description :: nat
  sv_subkey :: nat
  sv_file :: nat
  sv_model :: nat

definition MAX_PATH :: nat where "MAX_PATH = 260"

definition temp_text :: "string \<Rightarrow> string" where "temp_text s = take (MAX_PATH - 1) s"

definition class_key :: "(clsid \<Rightarrow> string) \<Rightarrow> clsid \<Rightarrow> path" where
  "class_key guid_string c = [''CLSID'', guid_string c]"

definition AMovieSetupRegisterServer ::
  "(clsid \<Rightarrow> string) \<Rightarrow> server_answers \<Rightarrow> clsid \<Rightarrow> string \<Rightarrow> string \<Rightarrow> string \<Rightarrow> string \<Rightarrow> registry \<Rightarrow> hresult \<times> registry" where
  "AMovieSetupRegisterServer guid_string a clsServer szDescription szFileName szThreadingModel szServerType r =
    (let key = class_key guid_string clsServer in
     if sv_key a \<noteq> 0 then (AmHresultFromWin32 (sv_key a), r)
     else let r1 = RegCreateKey key r in
     if sv_description a \<noteq> 0 then (AmHresultFromWin32 (sv_description a), r1)
     else let r2 = RegSetValue key [] (temp_text szDescription) r1 in
     if sv_subkey a \<noteq> 0 then (AmHresultFromWin32 (sv_subkey a), r2)
     else let subkey = key @ [temp_text szServerType]; r3 = RegCreateKey subkey r2 in
     if sv_file a \<noteq> 0 then (AmHresultFromWin32 (sv_file a), r3)
     else let r4 = RegSetValue subkey [] (temp_text szFileName) r3 in
       (HRESULT_FROM_WIN32 (sv_model a),
        if sv_model a = 0 then RegSetValue subkey ''ThreadingModel'' (temp_text szThreadingModel) r4 else r4))"

definition AMovieSetupUnregisterServer ::
  "nat \<Rightarrow> (path \<Rightarrow> bool) \<Rightarrow> (path \<Rightarrow> bool) \<Rightarrow> (clsid \<Rightarrow> string) \<Rightarrow> clsid \<Rightarrow> registry \<Rightarrow> (hresult \<times> registry) option" where
  "AMovieSetupUnregisterServer fuel openable deletable guid_string clsServer r =
    map_option (\<lambda>(hr, r1). (S_OK, r1)) (EliminateSubKey fuel openable deletable [] (class_key guid_string clsServer) r)"

text \<open>Through the table of templates, up to the first failure.\<close>

primrec register_servers ::
  "(clsid \<Rightarrow> string) \<Rightarrow> (clsid \<Rightarrow> server_answers) \<Rightarrow> string \<Rightarrow> factory_template list \<Rightarrow> hresult \<Rightarrow> registry \<Rightarrow> hresult \<times> registry" where
  "register_servers guid_string ans szFileName [] hr r = (hr, r)"
| "register_servers guid_string ans szFileName (t # ts) hr r =
    (case AMovieSetupRegisterServer guid_string (ans (t_ClsID t)) (t_ClsID t) (t_Name t) szFileName ''Both'' ''InprocServer32'' r of
       (hr1, r1) \<Rightarrow> if failed hr1 then (hr1, r1) else register_servers guid_string ans szFileName ts hr1 r1)"

primrec unregister_servers ::
  "nat \<Rightarrow> (path \<Rightarrow> bool) \<Rightarrow> (path \<Rightarrow> bool) \<Rightarrow> (clsid \<Rightarrow> string) \<Rightarrow> factory_template list \<Rightarrow> hresult \<Rightarrow> registry
     \<Rightarrow> (hresult \<times> registry) option" where
  "unregister_servers fuel openable deletable guid_string [] hr r = Some (hr, r)"
| "unregister_servers fuel openable deletable guid_string (t # ts) hr r = do {
     (hr1, r1) \<leftarrow> AMovieSetupUnregisterServer fuel openable deletable guid_string (t_ClsID t) r;
     if failed hr1 then Some (hr1, r1) else unregister_servers fuel openable deletable guid_string ts hr1 r1 }"

section \<open>Filters\<close>

text \<open>
  The calls to COM, to the filter mapper in its two versions and to Media Foundation. An answer may depend on the
  calls before it.
\<close>

datatype category = Default_category | VideoInputDeviceCategory

datatype setup_call =
    CoInitialize | CoUninitialize | CoFreeUnusedLibraries | CreateMapper2 | CreateMapper | ReleaseMapper
  | Mapper2_Unregister category clsid | Mapper2_Register category clsid string u32 nat
  | Mapper_Unregister clsid | Mapper_Register clsid string u32
  | Mapper_RegisterPin clsid string | Mapper_RegisterPinType clsid string nat
  | MFTRegister clsid | MFTUnregister clsid

type_synonym setup_answers = "setup_call list \<Rightarrow> setup_call \<Rightarrow> hresult"

definition ask_setup :: "setup_answers \<Rightarrow> setup_call \<Rightarrow> setup_call list \<Rightarrow> hresult \<times> setup_call list" where
  "ask_setup ans c log = (ans log c, log @ [c])"

definition AMovieSetupRegisterFilter2 ::
  "setup_answers \<Rightarrow> setup_filter option \<Rightarrow> bool \<Rightarrow> setup_call list \<Rightarrow> hresult \<times> setup_call list" where
  "AMovieSetupRegisterFilter2 ans psetupdata bRegister log =
    (case psetupdata of
       None \<Rightarrow> (S_FALSE, log)
     | Some f \<Rightarrow>
        (let (hr, l1) = ask_setup ans (Mapper2_Unregister Default_category (sf_clsID f)) log;
             (hr1, l2) = (if bRegister
                then ask_setup ans (Mapper2_Register Default_category (sf_clsID f) (sf_strName f) (sf_dwMerit f) (length (sf_pins f))) l1
                else (hr, l1))
         in (if hr1 = not_registered then S_OK else hr1, l2)))"

primrec register_types ::
  "setup_answers \<Rightarrow> clsid \<Rightarrow> string \<Rightarrow> nat list \<Rightarrow> hresult \<Rightarrow> setup_call list \<Rightarrow> hresult \<times> setup_call list" where
  "register_types ans c pin [] hr log = (hr, log)"
| "register_types ans c pin (m2 # ms) hr log =
    (case ask_setup ans (Mapper_RegisterPinType c pin m2) log of
       (hr1, l1) \<Rightarrow> if failed hr1 then (hr1, l1) else register_types ans c pin ms hr1 l1)"

primrec register_pins ::
  "setup_answers \<Rightarrow> clsid \<Rightarrow> (string \<times> nat) list \<Rightarrow> hresult \<Rightarrow> setup_call list \<Rightarrow> hresult \<times> setup_call list" where
  "register_pins ans c [] hr log = (hr, log)"
| "register_pins ans c (p # ps) hr log =
    (case ask_setup ans (Mapper_RegisterPin c (fst p)) log of
       (hr1, l1) \<Rightarrow>
         if succeeded hr1
         then (case register_types ans c (fst p) [0..<snd p] hr1 l1 of
                 (hr2, l2) \<Rightarrow> if failed hr2 then (hr2, l2) else register_pins ans c ps hr2 l2)
         else (hr1, l1))"

definition AMovieSetupRegisterFilter ::
  "setup_answers \<Rightarrow> setup_filter option \<Rightarrow> bool \<Rightarrow> setup_call list \<Rightarrow> hresult \<times> setup_call list" where
  "AMovieSetupRegisterFilter ans psetupdata bRegister log =
    (case psetupdata of
       None \<Rightarrow> (S_FALSE, log)
     | Some f \<Rightarrow>
        (let (hr, l1) = ask_setup ans (Mapper_Unregister (sf_clsID f)) log;
             (hr1, l2) = (if bRegister
                then (let (h, l) = ask_setup ans (Mapper_Register (sf_clsID f) (sf_strName f) (sf_dwMerit f)) l1
                      in if succeeded h then register_pins ans (sf_clsID f) (sf_pins f) h l else (h, l))
                else (hr, l1))
         in (if hr1 = not_registered then S_OK else hr1, l2)))"

primrec setup_filters ::
  "setup_answers \<Rightarrow> bool \<Rightarrow> bool \<Rightarrow> factory_template list \<Rightarrow> hresult \<Rightarrow> setup_call list \<Rightarrow> hresult \<times> setup_call list" where
  "setup_filters ans mapper2 bRegister [] hr log = (hr, log)"
| "setup_filters ans mapper2 bRegister (t # ts) hr log =
    (case (if t_setup t \<noteq> None
           then (if mapper2 then AMovieSetupRegisterFilter2 ans (t_setup t) bRegister log
                 else AMovieSetupRegisterFilter ans (t_setup t) bRegister log)
           else (hr, log)) of
       (hr1, l1) \<Rightarrow> if failed hr1 then (hr1, l1) else setup_filters ans mapper2 bRegister ts hr1 l1)"

definition register_filters ::
  "setup_answers \<Rightarrow> bool \<Rightarrow> factory_template list \<Rightarrow> setup_call list \<Rightarrow> hresult \<times> setup_call list" where
  "register_filters ans bRegister ts log =
    (let (hr, l0) = ask_setup ans CoInitialize log;
         (hr2, l1) = ask_setup ans CreateMapper2 l0;
         (hr1, l2) = (if failed hr2 then ask_setup ans CreateMapper l1 else (hr2, l1));
         (hr3, l3) = (if succeeded hr1
            then (case setup_filters ans (succeeded hr2) bRegister ts hr1 l2 of (h, l) \<Rightarrow> (h, l @ [ReleaseMapper]))
            else (hr1, l2))
     in (hr3, l3 @ [CoFreeUnusedLibraries, CoUninitialize]))"

text \<open>
  \<open>where_from\<close> is the file name of the DLL, or the error with which asking for it failed; the surroundings of a
  registration in one record.
\<close>

record setup_world =
  guid_text :: "clsid \<Rightarrow> string"
  server_ans :: "clsid \<Rightarrow> server_answers"
  setup_ans :: setup_answers
  where_from :: "nat + string"
  may_open :: "path \<Rightarrow> bool"
  may_delete :: "path \<Rightarrow> bool"

definition AMovieDllRegisterServer2 ::
  "nat \<Rightarrow> setup_world \<Rightarrow> factory_template list \<Rightarrow> bool \<Rightarrow> registry \<Rightarrow> setup_call list
     \<Rightarrow> (hresult \<times> registry \<times> setup_call list) option" where
  "AMovieDllRegisterServer2 fuel W g_Templates bRegister r log =
    (case where_from W of
       Inl e \<Rightarrow> Some (AmHresultFromWin32 e, r, log)
     | Inr achFileName \<Rightarrow>
         (let (hr, r1) = (if bRegister then register_servers (guid_text W) (server_ans W) (temp_text achFileName) g_Templates S_OK r
                          else (S_OK, r));
              (hr1, l1) = (if succeeded hr then register_filters (setup_ans W) bRegister g_Templates log else (hr, log))
          in if succeeded hr1 \<and> \<not> bRegister
             then map_option (\<lambda>(hr2, r2). (hr2, r2, l1))
                    (unregister_servers fuel (may_open W) (may_delete W) (guid_text W) g_Templates S_OK r1)
             else Some (hr1, r1, l1)))"

section \<open>The camera's DLL\<close>

definition MERIT_NORMAL :: u32 where "MERIT_NORMAL = 0x600000"

definition MERIT_DO_NOT_USE :: u32 where "MERIT_DO_NOT_USE = 0x200000"

definition camera_templates :: "factory_template list" where
  "camera_templates = [\<lparr>t_Name = ''PS3 Eye Universal'', t_ClsID = CLSID_PS3EyeSource, t_init = False, t_setup = None\<rparr>]"

definition Camera_DllRegisterServer ::
  "setup_world \<Rightarrow> registry \<Rightarrow> setup_call list \<Rightarrow> (hresult \<times> registry \<times> setup_call list) option" where
  "Camera_DllRegisterServer W r log = do {
     (hr, r1, l1) \<leftarrow> AMovieDllRegisterServer2 0 W camera_templates True r log;
     if failed hr then Some (hr, r1, l1)
     else let (hr1, l2) = ask_setup (setup_ans W) CreateMapper2 l1 in
       if failed hr1 then Some (hr1, r1, l2)
       else let (hr2, l3) = ask_setup (setup_ans W)
                  (Mapper2_Register VideoInputDeviceCategory CLSID_PS3EyeSource ''PS3 Eye Universal'' MERIT_NORMAL 1) l2
            in Some (hr2, r1, l3 @ [ReleaseMapper]) }"

definition Camera_DllUnregisterServer ::
  "nat \<Rightarrow> setup_world \<Rightarrow> registry \<Rightarrow> setup_call list \<Rightarrow> (hresult \<times> registry \<times> setup_call list) option" where
  "Camera_DllUnregisterServer fuel W r log = do {
     (hr, r1, l1) \<leftarrow> AMovieDllRegisterServer2 fuel W camera_templates False r log;
     if failed hr then Some (hr, r1, l1)
     else let (hr1, l2) = ask_setup (setup_ans W) CreateMapper2 l1 in
       if failed hr1 then Some (hr1, r1, l2)
       else let (hr2, l3) = ask_setup (setup_ans W) (Mapper2_Unregister VideoInputDeviceCategory CLSID_PS3EyeSource) l2
            in Some (hr2, r1, l3 @ [ReleaseMapper]) }"

section \<open>The virtual camera's DLL\<close>

definition virtual_templates :: "factory_template list" where
  "virtual_templates = [\<lparr>t_Name = ''PS3 Eye Virtual Camera'', t_ClsID = CLSID_PS3EyeVirtualCam, t_init = False,
     t_setup = Some \<lparr>sf_clsID = CLSID_PS3EyeVirtualCam, sf_strName = ''PS3 Eye Virtual Camera'', sf_dwMerit = MERIT_DO_NOT_USE,
       sf_pins = [(''Output'', 1)]\<rparr>\<rparr>]"

definition Virtual_DllRegisterServer ::
  "setup_world \<Rightarrow> registry \<Rightarrow> setup_call list \<Rightarrow> (hresult \<times> registry \<times> setup_call list) option" where
  "Virtual_DllRegisterServer W r log = do {
     (hr, r1, l1) \<leftarrow> AMovieDllRegisterServer2 0 W virtual_templates True r log;
     if failed hr then Some (hr, r1, l1)
     else let (hr1, l2) = ask_setup (setup_ans W) CreateMapper2 l1 in
       if succeeded hr1
       then let (hr2, l3) = ask_setup (setup_ans W)
                  (Mapper2_Register VideoInputDeviceCategory CLSID_PS3EyeVirtualCam ''PS3 Eye Virtual Camera'' MERIT_DO_NOT_USE 1) l2
            in Some (hr2, r1, l3 @ [ReleaseMapper])
       else Some (hr1, r1, l2) }"

definition Virtual_DllUnregisterServer ::
  "nat \<Rightarrow> setup_world \<Rightarrow> registry \<Rightarrow> setup_call list \<Rightarrow> (hresult \<times> registry \<times> setup_call list) option" where
  "Virtual_DllUnregisterServer fuel W r log =
    (let (hr, l1) = ask_setup (setup_ans W) CreateMapper2 log;
         l2 = (if succeeded hr
               then snd (ask_setup (setup_ans W) (Mapper2_Unregister VideoInputDeviceCategory CLSID_PS3EyeVirtualCam) l1) @ [ReleaseMapper]
               else l1)
     in AMovieDllRegisterServer2 fuel W virtual_templates False r l2)"

section \<open>The Media Foundation source's DLL\<close>

text \<open>\<open>a\<close> holds what creating the key and setting the value return.\<close>

definition CreateRegistryKey :: "nat \<times> nat \<Rightarrow> path \<Rightarrow> string \<Rightarrow> string option \<Rightarrow> registry \<Rightarrow> hresult \<times> registry" where
  "CreateRegistryKey a subKey valueName val r =
    (if fst a \<noteq> 0 then (HRESULT_FROM_WIN32 (fst a), r)
     else let r1 = RegCreateKey subKey r in
       case val of
         None \<Rightarrow> (HRESULT_FROM_WIN32 (fst a), r1)
       | Some v \<Rightarrow> (HRESULT_FROM_WIN32 (snd a), if snd a = 0 then RegSetValue subKey valueName v r1 else r1))"

text \<open>\<open>delete_tree\<close> is \<open>RegDeleteTreeW\<close>; the error 2 is ERROR_FILE_NOT_FOUND.\<close>

definition DeleteRegistryKey :: "(path \<Rightarrow> registry \<Rightarrow> nat \<times> registry) \<Rightarrow> path \<Rightarrow> registry \<Rightarrow> hresult \<times> registry" where
  "DeleteRegistryKey delete_tree subKey r =
    (case delete_tree subKey r of (e, r1) \<Rightarrow> if e = 2 then (S_OK, r1) else (HRESULT_FROM_WIN32 e, r1))"

definition media_source_key :: path where
  "media_source_key = [''CLSID'', ''{E2F5A3D1-8C7B-4A2E-9F1D-3B5C6D8E9A0B}'']"

definition Media_DllRegisterServer ::
  "nat + string \<Rightarrow> (nat \<Rightarrow> nat \<times> nat) \<Rightarrow> setup_answers \<Rightarrow> registry \<Rightarrow> setup_call list \<Rightarrow> hresult \<times> registry \<times> setup_call list" where
  "Media_DllRegisterServer modulePath a ans r log =
    (case modulePath of
       Inl e \<Rightarrow> (HRESULT_FROM_WIN32 e, r, log)
     | Inr file \<Rightarrow>
       (let (hr, r1) = CreateRegistryKey (a 0) media_source_key [] (Some ''PS3 Eye Media Source'') r in
        if failed hr then (hr, r1, log)
        else let (hr1, r2) = CreateRegistryKey (a 1) (media_source_key @ [''InprocServer32'']) [] (Some file) r1 in
        if failed hr1 then (hr1, r2, log)
        else let (hr2, r3) = CreateRegistryKey (a 2) (media_source_key @ [''InprocServer32'']) ''ThreadingModel'' (Some ''Both'') r2 in
        if failed hr2 then (hr2, r3, log)
        else let (hr3, l1) = ask_setup ans (MFTRegister CLSID_PS3EyeMediaSource) log in (hr3, r3, l1)))"

definition Media_DllUnregisterServer ::
  "(path \<Rightarrow> registry \<Rightarrow> nat \<times> registry) \<Rightarrow> setup_answers \<Rightarrow> registry \<Rightarrow> setup_call list \<Rightarrow> hresult \<times> registry \<times> setup_call list" where
  "Media_DllUnregisterServer delete_tree ans r log =
    (case DeleteRegistryKey delete_tree media_source_key r of
       (hr, r1) \<Rightarrow> (hr, r1, snd (ask_setup ans (MFTUnregister CLSID_PS3EyeMediaSource) log)))"

section \<open>Keys and their paths\<close>

abbreviation keys :: "registry \<Rightarrow> path set" where "keys r \<equiv> fst ` set r"

definition parents_kept :: "registry \<Rightarrow> bool" where
  "parents_kept r \<longleftrightarrow> [] \<notin> keys r \<and> (\<forall>q \<in> keys r. has_key r (butlast q))"

text \<open>How many keys are below one.\<close>

definition below :: "registry \<Rightarrow> path \<Rightarrow> nat" where
  "below r p = length (filter (\<lambda>(q, _). strict_prefix p q) r)"

definition above :: "path \<Rightarrow> registry \<Rightarrow> registry" where
  "above p r = filter (\<lambda>(q, _). \<not> strict_prefix p q) r"

lemma has_key_keys: "has_key r p \<longleftrightarrow> p = [] \<or> p \<in> keys r"
  by (simp add: has_key_def)

lemma keys_without [simp]: "keys (without p r) = {q \<in> keys r. \<not> prefix p q}" "keys (above p r) = {q \<in> keys r. \<not> strict_prefix p q}"
  by (force simp: without_def above_def)+

lemma kept_prefix: "parents_kept r \<Longrightarrow> q \<in> keys r \<Longrightarrow> prefix p q \<Longrightarrow> p \<noteq> [] \<Longrightarrow> p \<in> keys r"
proof (induction q rule: rev_induct)
  case (snoc x q)
  have "has_key r (butlast (q @ [x]))" using snoc.prems(1,2) unfolding parents_kept_def by blast
  then have "has_key r q" by simp
  then show ?case using snoc by (cases "p = q @ [x]") (auto simp: has_key_keys)
qed simp

lemma strict_extends: "strict_prefix p q \<longleftrightarrow> (\<exists>n. prefix (p @ [n]) q)"
proof
  assume "strict_prefix p q"
  then obtain zs where "q = p @ zs" "zs \<noteq> []" by (auto simp: strict_prefix_def prefix_def)
  then show "\<exists>n. prefix (p @ [n]) q" by (cases zs) auto
qed (auto simp: prefix_def strict_prefix_def)

lemma subkeys_iff: "n \<in> set (subkeys r p) \<longleftrightarrow> p @ [n] \<in> keys r"
  by (force simp: subkeys_def image_iff intro: bexI [of _ "(p @ [n], _)"] dest: append_butlast_last_id)

lemma no_subkeys: "parents_kept r \<Longrightarrow> subkeys r p = [] \<longleftrightarrow> (\<forall>q \<in> keys r. \<not> strict_prefix p q)"
  using subkeys_iff [of _ r p] kept_prefix [of r] by (metis strict_extends append_is_Nil_conv list.distinct(1) prefix_order.refl set_empty2 equals0I equals0D)

lemma kept_without: "parents_kept r \<Longrightarrow> parents_kept (without p r)"
  unfolding parents_kept_def has_key_keys by (auto dest: prefix_order.trans [OF _ prefixeq_butlast])

lemma kept_above: "parents_kept r \<Longrightarrow> parents_kept (above p r)"
  unfolding parents_kept_def has_key_keys
  by auto (metis prefixeq_butlast prefix_order.less_le_trans)

lemma RegEnum_None: "parents_kept r \<Longrightarrow> RegEnumKeyEx r p = None \<Longrightarrow> \<forall>q \<in> keys r. \<not> strict_prefix p q"
  using no_subkeys by (fastforce simp: RegEnumKeyEx_def split: list.splits)

lemma RegEnum_Some: "RegEnumKeyEx r p = Some n \<Longrightarrow> p @ [n] \<in> keys r"
  using subkeys_iff [of n r p] by (auto simp: RegEnumKeyEx_def split: list.splits)

lemma length_filter_mono: "(\<And>x. P x \<Longrightarrow> Q x) \<Longrightarrow> length (filter P xs) \<le> length (filter Q xs)"
  by (induction xs) auto

lemma length_filter_strict:
  "(\<And>x. P x \<Longrightarrow> Q x) \<Longrightarrow> y \<in> set xs \<Longrightarrow> Q y \<Longrightarrow> \<not> P y \<Longrightarrow> length (filter P xs) < length (filter Q xs)"
  by (induction xs) (auto simp: less_Suc_eq_le length_filter_mono)

lemma below_child:
  assumes "p @ [n] \<in> keys r"
  shows "below r (p @ [n]) < below r p" "below (without (p @ [n]) r) p < below r p"
proof -
  obtain vs where vs: "(p @ [n], vs) \<in> set r" using assms by auto
  have "strict_prefix (p @ [n]) q \<Longrightarrow> strict_prefix p q" for q by (auto simp: strict_prefix_def prefix_def)
  then show "below r (p @ [n]) < below r p" using vs unfolding below_def
    by (intro length_filter_strict [where y = "(p @ [n], vs)"]) (auto simp: strict_prefix_def)
  show "below (without (p @ [n]) r) p < below r p" using vs unfolding below_def without_def filter_filter
    by (intro length_filter_strict [where y = "(p @ [n], vs)"]) (auto simp: strict_prefix_def)
qed

lemma below_length: "below r p \<le> length r"
  by (simp add: below_def)

section \<open>Removing a key\<close>

lemma delete_emptied:
  assumes "parents_kept r" "deletable p"
  shows "RegDeleteKey deletable p (above p r) = without p r"
proof -
  have "subkeys (above p r) p = []" using no_subkeys [OF kept_above [OF assms(1), of p]] by simp
  then show ?thesis using assms(2)
    by (auto simp: RegDeleteKey_def above_def without_def filter_filter strict_prefix_def intro!: filter_cong)
qed

lemma above_id: "\<forall>q \<in> keys r. \<not> strict_prefix p q \<Longrightarrow> above p r = r"
  unfolding above_def by (rule filter_True) auto

lemma above_without: "above p (without (p @ [n]) r) = above p r"
  unfolding above_def without_def filter_filter
  by (rule filter_cong) (auto simp: strict_extends)

lemma eliminate_below:
  assumes "parents_kept r" "\<And>q. q \<in> keys r \<Longrightarrow> strict_prefix p q \<Longrightarrow> openable q \<and> deletable q" "2 * below r p < fuel"
  shows "eliminate_loop fuel openable deletable p r = Some (above p r)"
  using assms
proof (induction fuel arbitrary: p r rule: less_induct)
  case (less fuel)
  obtain f where f: "fuel = Suc f" using less.prems(3) by (cases fuel) auto
  show ?case
  proof (cases "RegEnumKeyEx r p")
    case None
    then show ?thesis using f above_id RegEnum_None [OF less.prems(1)] by simp
  next
    case (Some n)
    let ?c = "p @ [n]"
    have c: "?c \<in> keys r" using RegEnum_Some [OF Some] .
    note fewer = below_child [OF c]
    obtain g where g: "f = Suc g" using fewer(1) less.prems(3) f by (cases f) auto
    have acc: "openable q \<and> deletable q" if "q \<in> keys r" "prefix ?c q" for q
      using less.prems(2) [OF that(1)] that(2) by (auto simp: strict_extends)
    have "eliminate_loop g openable deletable ?c r = Some (above ?c r)"
      using acc fewer(1) less.prems(3) f g
      by (intro less.IH less.prems(1)) (auto simp: strict_prefix_def)
    then have "EliminateSubKey f openable deletable p [n] r = Some (S_OK, without ?c r)"
      using c acc [of ?c] g delete_emptied [OF less.prems(1), of deletable ?c] by (simp add: has_key_keys)
    moreover have "eliminate_loop f openable deletable p (without ?c r) = Some (above p (without ?c r))"
      using less.prems(2,3) fewer(2) f kept_without [OF less.prems(1)]
      by (intro less.IH) auto
    ultimately show ?thesis using Some f by (simp add: above_without)
  qed
qed

lemma without_absent: "parents_kept r \<Longrightarrow> p \<noteq> [] \<Longrightarrow> p \<notin> keys r \<Longrightarrow> without p r = r"
  unfolding without_def using kept_prefix by (intro filter_True) fastforce

lemma eliminated:
  assumes "parents_kept r" "p \<noteq> []" "\<And>q. q \<in> keys r \<Longrightarrow> prefix p q \<Longrightarrow> openable q \<and> deletable q" "2 * length r + 2 \<le> fuel"
  shows "EliminateSubKey fuel openable deletable [] p r = Some (S_OK, without p r)"
proof -
  obtain f where f: "fuel = Suc f" "2 * below r p < f" using assms(4) below_length [of r p] by (cases fuel) auto
  have "eliminate_loop f openable deletable p r = Some (above p r)"
    using assms(3) f(2) by (intro eliminate_below assms(1)) (auto simp: strict_prefix_def)
  then show ?thesis
    using assms f without_absent [OF assms(1,2)] delete_emptied [OF assms(1)] by (auto simp: has_key_keys)
qed

text \<open>What stays: keys that are not below the one removed, and protected ones.\<close>

lemma eliminate_frame:
  "EliminateSubKey fuel openable deletable hkey sub r = Some (hr, r1) \<Longrightarrow> q \<in> keys r \<Longrightarrow> \<not> prefix (hkey @ sub) q \<Longrightarrow> q \<in> keys r1"
  "eliminate_loop fuel openable deletable hk r = Some r1 \<Longrightarrow> q \<in> keys r \<Longrightarrow> \<not> strict_prefix hk q \<Longrightarrow> q \<in> keys r1"
proof (induction fuel openable deletable hkey sub r and fuel openable deletable hk r arbitrary: hr r1 and r1
    rule: EliminateSubKey_eliminate_loop.induct)
  case (2 fuel openable deletable hkey sub r)
  then show ?case
    by (auto simp: RegDeleteKey_def strict_prefix_def split: if_splits Option.bind_splits)
next
  case (4 fuel openable deletable hk r)
  show ?case
  proof (cases "RegEnumKeyEx r hk")
    case (Some n)
    then obtain hr2 r2 where "EliminateSubKey fuel openable deletable hk [n] r = Some (hr2, r2)"
      "eliminate_loop fuel openable deletable hk r2 = Some r1"
      using 4 by (auto split: Option.bind_splits)
    moreover have "\<not> prefix (hk @ [n]) q" using 4 by (auto simp: strict_extends)
    ultimately show ?thesis using 4 Some by blast
  qed (use 4 in simp)
qed simp_all

lemma protected_stays:
  assumes "EliminateSubKey fuel openable deletable hk [m] r = Some (hr, r1)" "hk @ [n] \<in> keys r"
    "\<not> openable (hk @ [n]) \<or> \<not> deletable (hk @ [n])"
  shows "hk @ [n] \<in> keys r1"
proof (cases "m = n")
  case True
  obtain f where f: "fuel = Suc f" using assms(1) by (cases fuel) auto
  show ?thesis
  proof (cases "openable (hk @ [n])")
    case open_it: True
    then obtain r2 where "eliminate_loop f openable deletable (hk @ [n]) r = Some r2" "r1 = RegDeleteKey deletable (hk @ [n]) r2"
      using assms True f by (auto simp: has_key_keys split: Option.bind_splits)
    then show ?thesis using eliminate_frame(2) [OF _ assms(2)] assms(3) open_it by (auto simp: RegDeleteKey_def)
  qed (use assms True f in auto)
next
  case False
  then show ?thesis using eliminate_frame(1) [OF assms(1,2)] by simp
qed

lemma loop_hangs:
  "hk @ [n] \<in> keys r \<Longrightarrow> \<not> openable (hk @ [n]) \<or> \<not> deletable (hk @ [n]) \<Longrightarrow> eliminate_loop fuel openable deletable hk r = None"
proof (induction fuel arbitrary: r)
  case (Suc fuel)
  have "n \<in> set (subkeys r hk)" using Suc.prems(1) subkeys_iff by blast
  then obtain m where m: "RegEnumKeyEx r hk = Some m" by (cases "subkeys r hk") (auto simp: RegEnumKeyEx_def)
  show ?case
  proof (cases "EliminateSubKey fuel openable deletable hk [m] r")
    case (Some x)
    obtain hr r1 where x: "x = (hr, r1)" by (cases x)
    show ?thesis using Suc.IH [OF protected_stays [OF Some [unfolded x] Suc.prems] Suc.prems(2)] Some x m by simp
  qed (use m in simp)
qed simp

section \<open>What a registration leaves as it was\<close>

text \<open>A registry with the key of all classes, and another that differs from it below a class's key only.\<close>

definition registry_ok :: "registry \<Rightarrow> bool" where
  "registry_ok r \<longleftrightarrow> parents_kept r \<and> has_key r [''CLSID'']"

definition differs_below :: "path \<Rightarrow> registry \<Rightarrow> registry \<Rightarrow> bool" where
  "differs_below p r r1 \<longleftrightarrow> registry_ok r1 \<and> without p r1 = without p r"

lemma differs_refl: "registry_ok r \<Longrightarrow> differs_below p r r"
  by (simp add: differs_below_def)

lemma differs_trans: "differs_below p r r1 \<Longrightarrow> differs_below p r1 r2 \<Longrightarrow> differs_below p r r2"
  by (simp add: differs_below_def)

lemma add_key_differs:
  assumes "registry_ok r" "prefix p q" "q \<noteq> []" "has_key r (butlast q)"
  shows "differs_below p r (add_key r q)"
proof -
  have "parents_kept (add_key r q)" "has_key (add_key r q) [''CLSID'']"
    using assms unfolding registry_ok_def parents_kept_def add_key_def has_key_keys by auto
  moreover have "without p (add_key r q) = without p r" using assms(2) by (simp add: add_key_def without_def)
  ultimately show ?thesis by (simp add: differs_below_def registry_ok_def)
qed

lemma set_value_differs:
  assumes "registry_ok r" "prefix p q"
  shows "differs_below p r (RegSetValue q name v r)"
proof -
  have k: "keys (RegSetValue q name v r) = keys r" by (force simp: RegSetValue_def image_iff)
  have "without p (RegSetValue q name v r) = without p r"
    using assms(2) unfolding without_def RegSetValue_def by (induction r) (auto split: if_splits)
  then show ?thesis using assms(1) unfolding differs_below_def registry_ok_def parents_kept_def has_key_keys k by simp
qed

lemma add_key_there: "has_key r p \<Longrightarrow> add_key r p = r"
  by (simp add: add_key_def)

lemma create_key_differs:
  assumes "registry_ok r"
  shows "differs_below [''CLSID'', g] r (RegCreateKey [''CLSID'', g] r) \<and> has_key (RegCreateKey [''CLSID'', g] r) [''CLSID'', g]"
    "has_key r [''CLSID'', g] \<Longrightarrow> differs_below [''CLSID'', g] r (RegCreateKey [''CLSID'', g, s] r)
       \<and> has_key (RegCreateKey [''CLSID'', g, s] r) [''CLSID'', g]"
proof -
  have c: "has_key r [''CLSID'']" using assms by (simp add: registry_ok_def)
  then have "RegCreateKey [''CLSID'', g] r = add_key r [''CLSID'', g]"
    by (simp add: RegCreateKey_def numeral_2_eq_2 add_key_there)
  then show "differs_below [''CLSID'', g] r (RegCreateKey [''CLSID'', g] r) \<and> has_key (RegCreateKey [''CLSID'', g] r) [''CLSID'', g]"
    using add_key_differs [OF assms, of "[''CLSID'', g]" "[''CLSID'', g]"] c by (simp add: add_key_def has_key_def)
  assume g: "has_key r [''CLSID'', g]"
  then have "RegCreateKey [''CLSID'', g, s] r = add_key r [''CLSID'', g, s]"
    using c by (simp add: RegCreateKey_def numeral_2_eq_2 numeral_3_eq_3 add_key_there)
  then show "differs_below [''CLSID'', g] r (RegCreateKey [''CLSID'', g, s] r) \<and> has_key (RegCreateKey [''CLSID'', g, s] r) [''CLSID'', g]"
    using add_key_differs [OF assms, of "[''CLSID'', g]" "[''CLSID'', g, s]"] g by (auto simp: add_key_def has_key_def)
qed

lemma has_key_set_value [simp]: "has_key (RegSetValue q name v r) p = has_key r p"
  by (force simp: RegSetValue_def has_key_keys image_iff)

lemma register_server_differs:
  assumes "registry_ok r"
  shows "differs_below (class_key gt c) r (snd (AMovieSetupRegisterServer gt a c d f m t r))"
proof -
  let ?p = "[''CLSID'', gt c]"
  let ?r1 = "RegCreateKey ?p r"
  let ?r2 = "RegSetValue ?p [] (temp_text d) ?r1"
  let ?r3 = "RegCreateKey [''CLSID'', gt c, temp_text t] ?r2"
  let ?r4 = "RegSetValue [''CLSID'', gt c, temp_text t] [] (temp_text f) ?r3"
  have r1: "differs_below ?p r ?r1" "has_key ?r1 ?p" using create_key_differs(1) [OF assms] by auto
  then have ok1: "registry_ok ?r1" by (simp add: differs_below_def)
  have r2: "differs_below ?p r ?r2" using differs_trans [OF r1(1)] set_value_differs [OF ok1] by simp
  then have ok2: "registry_ok ?r2" by (simp add: differs_below_def)
  have r3: "differs_below ?p r ?r3" using differs_trans [OF r2] create_key_differs(2) [OF ok2] r1(2) by simp
  then have ok3: "registry_ok ?r3" by (simp add: differs_below_def)
  have r4: "differs_below ?p r ?r4" using differs_trans [OF r3] set_value_differs [OF ok3] by simp
  then have ok4: "registry_ok ?r4" by (simp add: differs_below_def)
  have r5: "differs_below ?p r (RegSetValue [''CLSID'', gt c, temp_text t] ''ThreadingModel'' (temp_text m) ?r4)"
    using differs_trans [OF r4] set_value_differs [OF ok4] by simp
  show ?thesis using differs_refl [OF assms] r1 r2 r3 r4 r5
    by (simp add: AMovieSetupRegisterServer_def class_key_def Let_def)
qed

lemma register_servers_single:
  "register_servers gt ans f [t] hr r
    = AMovieSetupRegisterServer gt (ans (t_ClsID t)) (t_ClsID t) (t_Name t) f ''Both'' ''InprocServer32'' r"
  by (simp split: prod.split)

lemma register_dll_differs:
  assumes "registry_ok r" "AMovieDllRegisterServer2 fuel W [t] True r log = Some (hr, r1, l1)"
  shows "differs_below (class_key (guid_text W) (t_ClsID t)) r r1"
  using assms register_server_differs [OF assms(1)] differs_refl [OF assms(1)]
  unfolding AMovieDllRegisterServer2_def register_servers_single
  by (auto simp: Let_def split: sum.splits prod.splits if_splits) (metis snd_conv)+

lemma unregister_dll_without:
  assumes "registry_ok r" "AMovieDllRegisterServer2 fuel W [t] False r log = Some (hr, r1, l1)" "succeeded hr"
    "2 * length r + 2 \<le> fuel" "\<And>q. q \<in> keys r \<Longrightarrow> prefix (class_key (guid_text W) (t_ClsID t)) q \<Longrightarrow> may_open W q \<and> may_delete W q"
  shows "r1 = without (class_key (guid_text W) (t_ClsID t)) r"
proof -
  have "EliminateSubKey fuel (may_open W) (may_delete W) [] (class_key (guid_text W) (t_ClsID t)) r
      = Some (S_OK, without (class_key (guid_text W) (t_ClsID t)) r)"
    using assms(1,4,5) by (intro eliminated) (auto simp: registry_ok_def class_key_def)
  then show ?thesis using assms(2,3)
    by (auto simp: AMovieDllRegisterServer2_def AMovieSetupUnregisterServer_def AmHresultFromWin32_def Let_def
        split: sum.splits prod.splits if_splits)
qed

section \<open>What the filter mapper holds\<close>

text \<open>
  The documented effect of the calls on the filters the mapper lists, by category, and on those of
  its first version: a call that fails changes nothing, and a removal that answers that the filter
  was not registered leaves it not registered.
\<close>

datatype mapper_entry = Listed category clsid | Listed_old clsid

fun entry_of :: "setup_call \<Rightarrow> mapper_entry option" where
  "entry_of (Mapper2_Register k c s m n) = Some (Listed k c)"
| "entry_of (Mapper2_Unregister k c) = Some (Listed k c)"
| "entry_of (Mapper_Register c s m) = Some (Listed_old c)"
| "entry_of (Mapper_Unregister c) = Some (Listed_old c)"
| "entry_of _ = None"

fun removes :: "setup_call \<Rightarrow> bool" where
  "removes (Mapper2_Unregister k c) = True"
| "removes (Mapper_Unregister c) = True"
| "removes _ = False"

definition mapper_effect :: "setup_call \<Rightarrow> hresult \<Rightarrow> mapper_entry set \<Rightarrow> mapper_entry set" where
  "mapper_effect call hr M =
    (case entry_of call of
       None \<Rightarrow> M
     | Some x \<Rightarrow> if removes call then (if succeeded hr \<or> hr = not_registered then M - {x} else M)
                 else if succeeded hr then insert x M else M)"

primrec mapper_after :: "setup_answers \<Rightarrow> setup_call list \<Rightarrow> setup_call list \<Rightarrow> mapper_entry set \<Rightarrow> mapper_entry set" where
  "mapper_after ans log [] M = M"
| "mapper_after ans log (c # cs) M = mapper_after ans (log @ [c]) cs (mapper_effect c (ans log c) M)"

text \<open>After the calls that were added to a log.\<close>

definition mapper_since :: "setup_answers \<Rightarrow> setup_call list \<Rightarrow> setup_call list \<Rightarrow> mapper_entry set \<Rightarrow> mapper_entry set" where
  "mapper_since ans log log' M = mapper_after ans log (drop (length log) log') M"

lemma mapper_after_append:
  "mapper_after ans log (cs @ ds) M = mapper_after ans (log @ cs) ds (mapper_after ans log cs M)"
  by (induction cs arbitrary: log M) simp_all

lemma mapper_after_frame:
  "\<forall>c \<in> set cs. entry_of c \<noteq> Some x \<Longrightarrow> x \<in> mapper_after ans log cs M \<longleftrightarrow> x \<in> M"
proof (induction cs arbitrary: log M)
  case (Cons c cs)
  have "x \<in> mapper_effect c (ans log c) M \<longleftrightarrow> x \<in> M"
    using Cons.prems by (auto simp: mapper_effect_def split: option.split)
  then show ?case using Cons by simp
qed simp

text \<open>The entries a class has of its own, and logs that grow by calls on no others.\<close>

definition base_entries :: "clsid \<Rightarrow> mapper_entry set" where
  "base_entries c = {Listed Default_category c, Listed_old c}"

definition entries_of :: "clsid \<Rightarrow> mapper_entry set" where
  "entries_of c = insert (Listed VideoInputDeviceCategory c) (base_entries c)"

definition log_grows :: "mapper_entry set \<Rightarrow> setup_call list \<Rightarrow> setup_call list \<Rightarrow> bool" where
  "log_grows X log log' \<longleftrightarrow> (\<exists>cs. log' = log @ cs \<and> (\<forall>c \<in> set cs. \<forall>x. entry_of c = Some x \<longrightarrow> x \<in> X))"

lemma log_grows_refl [simp]: "log_grows X l l"
  by (simp add: log_grows_def)

lemma log_grows_trans: "log_grows X l l1 \<Longrightarrow> log_grows X l1 l2 \<Longrightarrow> log_grows X l l2"
  unfolding log_grows_def by (elim exE conjE) (auto intro!: exI [of _ "_ @ _"])

lemma log_grows_more: "log_grows X l l1 \<Longrightarrow> \<forall>c \<in> set cs. \<forall>x. entry_of c = Some x \<longrightarrow> x \<in> X \<Longrightarrow> log_grows X l (l1 @ cs)"
  by (rule log_grows_trans) (auto simp: log_grows_def)

lemma ask_grows: "ask_setup ans c log = (hr, l) \<Longrightarrow> \<forall>x. entry_of c = Some x \<longrightarrow> x \<in> X \<Longrightarrow> log_grows X log l"
  by (auto simp: ask_setup_def log_grows_def)

lemma register_types_grows: "register_types ans c pin ms hr log = (hr1, l) \<Longrightarrow> log_grows X log l"
proof (induction ms arbitrary: hr log)
  case (Cons m ms)
  obtain h k where a: "ask_setup ans (Mapper_RegisterPinType c pin m) log = (h, k)"
    by (cases "ask_setup ans (Mapper_RegisterPinType c pin m) log")
  have k: "log_grows X log k" using ask_grows [OF a] by simp
  show ?case using Cons.prems Cons.IH [of h k] a k log_grows_trans [OF k] by (auto split: if_splits)
qed simp

lemma register_pins_grows: "register_pins ans c ps hr log = (hr1, l) \<Longrightarrow> log_grows X log l"
proof (induction ps arbitrary: hr log)
  case (Cons q ps)
  obtain h k where a: "ask_setup ans (Mapper_RegisterPin c (fst q)) log = (h, k)" by (cases "ask_setup ans (Mapper_RegisterPin c (fst q)) log")
  obtain h2 k2 where t: "register_types ans c (fst q) [0..<snd q] h k = (h2, k2)" by (cases "register_types ans c (fst q) [0..<snd q] h k")
  have k: "log_grows X log k" using ask_grows [OF a] by simp
  have k2: "log_grows X log k2" using log_grows_trans [OF k register_types_grows [OF t]] .
  show ?case
    using Cons.prems Cons.IH [of h2 k2] a t k log_grows_trans [OF k2] k2 by (auto split: if_splits)
qed simp

lemma setup_filter_grows:
  assumes "AMovieSetupRegisterFilter2 ans f reg log = (hr, l) \<or> AMovieSetupRegisterFilter ans f reg log = (hr, l)"
    and "\<And>g. f = Some g \<Longrightarrow> sf_clsID g = c"
  shows "log_grows (base_entries c) log l"
proof (cases f)
  case None
  then show ?thesis using assms(1) by (auto simp: AMovieSetupRegisterFilter2_def AMovieSetupRegisterFilter_def)
next
  case (Some g)
  have c: "sf_clsID g = c" using assms(2) Some by simp
  have one: "log_grows (base_entries c) k (k @ [x])" if "\<forall>y. entry_of x = Some y \<longrightarrow> y \<in> base_entries c" for k x
    using that by (auto simp: log_grows_def)
  have two: "log_grows (base_entries c) log ((log @ [x]) @ [y])"
    if "\<forall>z. entry_of x = Some z \<longrightarrow> z \<in> base_entries c" "\<forall>z. entry_of y = Some z \<longrightarrow> z \<in> base_entries c" for x y
    using log_grows_trans [OF one [OF that(1)] one [OF that(2)]] .
  show ?thesis
  proof (cases "AMovieSetupRegisterFilter2 ans f reg log = (hr, l)")
    case True
    then show ?thesis using Some c one two
      by (auto simp: AMovieSetupRegisterFilter2_def ask_setup_def Let_def base_entries_def split: if_splits)
  next
    case False
    then have F: "AMovieSetupRegisterFilter ans (Some g) reg log = (hr, l)" using assms(1) Some by simp
    let ?l = "(log @ [Mapper_Unregister c]) @ [Mapper_Register c (sf_strName g) (sf_dwMerit g)]"
    have l: "log_grows (base_entries c) log ?l" by (rule two) (simp_all add: base_entries_def)
    have "log_grows (base_entries c) log (log @ [Mapper_Unregister c])" by (rule one) (simp add: base_entries_def)
    then show ?thesis using F c l log_grows_trans [OF l register_pins_grows]
      by (auto simp: AMovieSetupRegisterFilter_def ask_setup_def Let_def split: if_splits prod.splits)
  qed
qed

lemma register_filters_grows:
  assumes "register_filters ans reg [t] log = (hr, l)" and "\<And>g. t_setup t = Some g \<Longrightarrow> sf_clsID g = c"
  shows "log_grows (base_entries c) log l"
proof -
  have silent: "log_grows (base_entries c) k (k @ cs)" if "\<forall>x \<in> set cs. entry_of x = None" for k cs
    using that by (auto simp: log_grows_def)
  let ?l1 = "log @ [CoInitialize, CreateMapper2]"
  let ?l2 = "if failed (ans (log @ [CoInitialize]) CreateMapper2) then ?l1 @ [CreateMapper] else ?l1"
  have l2: "log_grows (base_entries c) log ?l2" using silent [of "[CoInitialize, CreateMapper2]" log]
      silent [of "[CoInitialize, CreateMapper2, CreateMapper]" log] by simp
  obtain h k where m: "setup_filters ans (succeeded (ans (log @ [CoInitialize]) CreateMapper2)) reg [t]
      (if failed (ans (log @ [CoInitialize]) CreateMapper2) then ans ?l1 CreateMapper else ans (log @ [CoInitialize]) CreateMapper2) ?l2
      = (h, k)" by (metis surj_pair)
  have "log_grows (base_entries c) ?l2 k"
    using m setup_filter_grows [of ans "t_setup t" reg ?l2 h k, OF _ assms(2)]
    by (auto split: if_splits prod.splits)
  then have k: "log_grows (base_entries c) log k" by (rule log_grows_trans [OF l2])
  have "\<exists>k'. l = k' @ [CoFreeUnusedLibraries, CoUninitialize] \<and> (k' = ?l2 \<or> k' = k @ [ReleaseMapper])"
    using assms(1) m by (auto simp: register_filters_def ask_setup_def Let_def split: if_splits prod.splits)
  then show ?thesis using log_grows_trans [OF l2 silent] log_grows_trans [OF k silent] by fastforce
qed

lemma dll_log_grows:
  assumes "AMovieDllRegisterServer2 fuel W [t] reg r log = Some (hr, r1, l)" and "\<And>g. t_setup t = Some g \<Longrightarrow> sf_clsID g = c"
  shows "log_grows (base_entries c) log l"
proof -
  obtain h k where f: "register_filters (setup_ans W) reg [t] log = (h, k)" by (cases "register_filters (setup_ans W) reg [t] log")
  have "l = log \<or> l = k"
    using assms(1) f by (auto simp: AMovieDllRegisterServer2_def Let_def split: sum.splits if_splits prod.splits)
  then show ?thesis using register_filters_grows [OF f assms(2)] by auto
qed

lemma mapper_since_frame:
  "log_grows X log l \<Longrightarrow> x \<notin> X \<Longrightarrow> x \<in> mapper_since ans log l M \<longleftrightarrow> x \<in> M"
  unfolding mapper_since_def log_grows_def by (elim exE conjE) (auto intro!: mapper_after_frame)

lemma mapper_since_trans:
  assumes "log_grows X log l" and "log_grows Y l l'"
  shows "mapper_since ans log l' M = mapper_since ans l l' (mapper_since ans log l M)"
  using assms by (auto simp: log_grows_def mapper_since_def mapper_after_append)

text \<open>Unregistering a DLL that succeeds takes its filter off the default category, when the mapper can be had.\<close>

lemma default_entry_removed:
  assumes "AMovieDllRegisterServer2 fuel W [t] False r log = Some (hr, r1, l)" and "succeeded hr"
    and "t_setup t = Some g" and "\<forall>l. succeeded (setup_ans W l CreateMapper2)"
  shows "Listed Default_category (sf_clsID g) \<notin> mapper_since (setup_ans W) log l M"
proof -
  let ?u = "Mapper2_Unregister Default_category (sf_clsID g)" and ?l = "log @ [CoInitialize, CreateMapper2]"
  obtain h k where f: "register_filters (setup_ans W) False [t] log = (h, k)" by (cases "register_filters (setup_ans W) False [t] log")
  have s: "succeeded h \<and> l = k"
    using assms(1,2) f
    by (auto simp: AMovieDllRegisterServer2_def AmHresultFromWin32_def Let_def split: sum.splits if_splits prod.splits)
  have k: "k = ?l @ [?u, ReleaseMapper, CoFreeUnusedLibraries, CoUninitialize]"
    and h: "h = (if setup_ans W ?l ?u = not_registered then S_OK else setup_ans W ?l ?u)"
    using f assms(3,4) by (auto simp: register_filters_def ask_setup_def AMovieSetupRegisterFilter2_def Let_def split: if_splits)
  then show ?thesis using s by (auto simp: mapper_since_def mapper_effect_def split: if_splits)
qed

lemma virtual_unregister_steps:
  assumes "Virtual_DllUnregisterServer fuel W r log = Some (hr, r1, l)"
  shows "\<exists>k. log_grows (entries_of CLSID_PS3EyeVirtualCam) log k
    \<and> AMovieDllRegisterServer2 fuel W virtual_templates False r k = Some (hr, r1, l)
    \<and> (Listed VideoInputDeviceCategory CLSID_PS3EyeVirtualCam \<in> mapper_since (setup_ans W) log k M \<longleftrightarrow>
        Listed VideoInputDeviceCategory CLSID_PS3EyeVirtualCam \<in> M \<and>
        (failed (setup_ans W log CreateMapper2) \<or>
         (let a = setup_ans W (log @ [CreateMapper2]) (Mapper2_Unregister VideoInputDeviceCategory CLSID_PS3EyeVirtualCam)
          in failed a \<and> a \<noteq> not_registered)))"
proof (cases "succeeded (setup_ans W log CreateMapper2)")
  case True
  let ?k = "log @ [CreateMapper2, Mapper2_Unregister VideoInputDeviceCategory CLSID_PS3EyeVirtualCam, ReleaseMapper]"
  show ?thesis using assms True
    by (intro exI [of _ ?k])
      (auto simp: Virtual_DllUnregisterServer_def ask_setup_def Let_def log_grows_def entries_of_def mapper_since_def mapper_effect_def)
next
  case False
  show ?thesis using assms False
    by (intro exI [of _ "log @ [CreateMapper2]"])
      (auto simp: Virtual_DllUnregisterServer_def ask_setup_def Let_def log_grows_def mapper_since_def mapper_effect_def)
qed

lemma virtual_register_steps:
  assumes "Virtual_DllRegisterServer W r log = Some (hr, r1, l)"
  shows "\<exists>h k. AMovieDllRegisterServer2 0 W virtual_templates True r log = Some (h, r1, k)
    \<and> log_grows (entries_of CLSID_PS3EyeVirtualCam) k l"
  using assms
  by (auto simp: Virtual_DllRegisterServer_def ask_setup_def Let_def log_grows_def entries_of_def split: Option.bind_splits if_splits)

lemma log_grows_weaken: "log_grows X l l1 \<Longrightarrow> X \<subseteq> Y \<Longrightarrow> log_grows Y l l1"
  by (fastforce simp: log_grows_def)

lemmas virtual_log_grows = dll_log_grows [where c = CLSID_PS3EyeVirtualCam, of _ _
  "\<lparr>t_Name = ''PS3 Eye Virtual Camera'', t_ClsID = CLSID_PS3EyeVirtualCam, t_init = False,
     t_setup = Some \<lparr>sf_clsID = CLSID_PS3EyeVirtualCam, sf_strName = ''PS3 Eye Virtual Camera'', sf_dwMerit = MERIT_DO_NOT_USE,
       sf_pins = [(''Output'', 1)]\<rparr>\<rparr>", folded virtual_templates_def, simplified]

section \<open>Properties\<close>

text \<open>C26: \<open>EliminateSubKey\<close> removes a key with everything below it and nothing else, and it ends: if every key
  there may be opened and deleted, as many rounds and calls as twice the number of keys in the registry are
  enough.\<close>

theorem eliminated_key_is_gone:
  assumes "parents_kept r" and "p \<noteq> []" and "\<forall>q \<in> keys r. prefix p q \<longrightarrow> openable q \<and> deletable q" and "2 * length r + 2 \<le> fuel"
  shows "EliminateSubKey fuel openable deletable [] p r = Some (S_OK, without p r)
    \<and> (\<forall>q. has_key (without p r) q \<longleftrightarrow> has_key r q \<and> \<not> prefix p q)"
  using eliminated [OF assms(1,2) _ assms(4), of openable deletable] assms(2,3) by (auto simp: has_key_keys)

definition demo_registry :: registry where
  "demo_registry = [([''CLSID''], Map.empty), ([''CLSID'', ''{7}''], Map.empty), ([''CLSID'', ''{8}''], Map.empty),
     ([''CLSID'', ''{7}'', ''InprocServer32''], [''ThreadingModel'' \<mapsto> ''Both'']), ([''CLSID'', ''{7}'', ''Pins''], Map.empty),
     ([''CLSID'', ''{7}'', ''Pins'', ''Output''], Map.empty)]"

lemma demo_parents: "parents_kept demo_registry" "registry_ok demo_registry"
  by (simp_all add: parents_kept_def registry_ok_def demo_registry_def has_key_def)

theorem eliminated_key_is_gone_witness:
  "EliminateSubKey 14 (\<lambda>_. True) (\<lambda>_. True) [] [''CLSID'', ''{7}''] demo_registry
    = Some (S_OK, [([''CLSID''], Map.empty), ([''CLSID'', ''{8}''], Map.empty)])"
proof -
  have "2 * length demo_registry + 2 \<le> 14" by (simp add: demo_registry_def)
  from eliminated_key_is_gone [OF demo_parents(1) _ _ this, of "[''CLSID'', ''{7}'']" "\<lambda>_. True" "\<lambda>_. True"]
  show ?thesis by (simp add: without_def demo_registry_def)
qed

text \<open>C27: A key that may not be opened or deleted makes the removal of the key above it, and with it the
  unregistration of the server, run for ever: the loop always asks for the first key that is left, and no
  failure is looked at.\<close>

theorem protected_key_hangs_the_removal:
  assumes "key = class_key guid_string c" and "key @ [n] \<in> keys r" and "\<not> openable (key @ [n]) \<or> \<not> deletable (key @ [n])"
    and "has_key r key" and "openable key"
  shows "AMovieSetupUnregisterServer fuel openable deletable guid_string c r = None"
proof (cases fuel)
  case (Suc f)
  have "eliminate_loop f openable deletable key r = None" using assms(2,3) by (rule loop_hangs)
  then show ?thesis using assms(1,4,5) Suc by (simp add: AMovieSetupUnregisterServer_def class_key_def)
qed (simp add: AMovieSetupUnregisterServer_def)

theorem protected_key_hangs_the_removal_witness:
  "AMovieSetupUnregisterServer 1000 (\<lambda>_. True) (\<lambda>p. p \<noteq> [''CLSID'', ''{7}'', ''Pins'']) (\<lambda>_. ''{7}'') CLSID_PS3EyeVirtualCam demo_registry = None"
  by (rule protected_key_hangs_the_removal [where key = "[''CLSID'', ''{7}'']" and n = "''Pins''"])
    (auto simp: class_key_def demo_registry_def has_key_def)


definition demo_setup :: setup_world where
  "demo_setup = \<lparr>guid_text = (\<lambda>_. ''{7}''), server_ans = (\<lambda>_. \<lparr>sv_key = 0, sv_description = 0, sv_subkey = 0, sv_file = 0, sv_model = 0\<rparr>),
     setup_ans = (\<lambda>_ _. S_OK), where_from = Inr ''camera.dll'', may_open = (\<lambda>_. True), may_delete = (\<lambda>_. True)\<rparr>"

definition demo_registered :: registry where
  "demo_registered = [([''CLSID''], Map.empty), ([''CLSID'', ''{7}''], [[] \<mapsto> ''PS3 Eye Virtual Camera'']),
     ([''CLSID'', ''{7}'', ''InprocServer32''], [[] \<mapsto> ''camera.dll'', ''ThreadingModel'' \<mapsto> ''Both''])]"

lemma demo_registration: "AMovieSetupRegisterServer (\<lambda>_. ''{7}'') \<lparr>sv_key = 0, sv_description = 0, sv_subkey = 0, sv_file = 0, sv_model = 0\<rparr> c
    ''PS3 Eye Virtual Camera'' ''camera.dll'' ''Both'' ''InprocServer32'' [([''CLSID''], Map.empty)] = (S_OK, demo_registered)"
  by (simp add: AMovieSetupRegisterServer_def class_key_def RegCreateKey_def RegSetValue_def add_key_def has_key_def
      numeral_2_eq_2 numeral_3_eq_3 temp_text_def MAX_PATH_def HRESULT_FROM_WIN32_def demo_registered_def)

lemma demo_register: "\<exists>l. Virtual_DllRegisterServer demo_setup [([''CLSID''], Map.empty)] [] = Some (S_OK, demo_registered, l)
    \<and> Listed VideoInputDeviceCategory CLSID_PS3EyeVirtualCam \<in> mapper_since (setup_ans demo_setup) [] l {}"
  by (simp add: Virtual_DllRegisterServer_def AMovieDllRegisterServer2_def virtual_templates_def demo_setup_def temp_text_def
      MAX_PATH_def demo_registration register_filters_def ask_setup_def AMovieSetupRegisterFilter2_def HRESULT_FROM_WIN32_def not_registered_def
      mapper_since_def mapper_effect_def)

lemma demo_eliminate: "EliminateSubKey 8 (\<lambda>_. True) (\<lambda>_. True) [] [''CLSID'', ''{7}''] demo_registered
    = Some (S_OK, without [''CLSID'', ''{7}''] demo_registered)"
  by (rule eliminated) (auto simp: parents_kept_def has_key_def demo_registered_def)

text \<open>A mapper that can be had for the registration, and not the first time for the unregistration.\<close>

definition shy_setup :: setup_world where
  "shy_setup = demo_setup\<lparr>setup_ans := (\<lambda>log c. if log = [] \<and> c = CreateMapper2 then E_FAIL else S_OK)\<rparr>"


text \<open>What \<open>RegDeleteTreeW\<close> is documented to do when it succeeds, and when the key is not there.\<close>

definition deletes_trees :: "(path \<Rightarrow> registry \<Rightarrow> nat \<times> registry) \<Rightarrow> bool" where
  "deletes_trees delete_tree \<longleftrightarrow> (\<forall>p r. case delete_tree p r of (e, r1) \<Rightarrow>
     (e = 0 \<longrightarrow> r1 = without p r) \<and> (e = 2 \<longrightarrow> r1 = r \<and> \<not> has_key r p))"

lemma media_create_differs:
  assumes "registry_ok r" "q = media_source_key \<or> q = media_source_key @ [n] \<and> has_key r media_source_key"
    "CreateRegistryKey a q name (Some v) r = (hr, r1)"
  shows "differs_below media_source_key r r1 \<and> (succeeded hr \<longrightarrow> has_key r1 media_source_key)"
proof -
  have c: "differs_below media_source_key r (RegCreateKey q r) \<and> has_key (RegCreateKey q r) media_source_key"
    using create_key_differs [OF assms(1)] assms(2) by (auto simp: media_source_key_def)
  then have ok: "registry_ok (RegCreateKey q r)" by (simp add: differs_below_def)
  have "prefix media_source_key q" using assms(2) by auto
  from differs_trans [OF _ set_value_differs [OF ok this]] show ?thesis
    using c assms(3) differs_refl [OF assms(1)]
    by (auto simp: CreateRegistryKey_def HRESULT_FROM_WIN32_def Let_def split: if_splits)
qed

text \<open>The same for the Media Foundation source: whatever its registration managed to do, a successful
  unregistration takes it all out of the registry again.\<close>

theorem media_unregistration_undoes_registration:
  assumes "registry_ok r" and "Media_DllRegisterServer path a ans r log = (hr, r1, l1)"
    and "Media_DllUnregisterServer delete_tree ans2 r1 log2 = (hr2, r2, l2)" and "succeeded hr2" and "deletes_trees delete_tree"
  shows "r2 = without media_source_key r \<and> MFTUnregister CLSID_PS3EyeMediaSource \<in> set l2"
proof -
  let ?k = media_source_key
  have d: "differs_below ?k r r1"
  proof (cases path)
    case (Inr fname)
    obtain h0 s0 where s0: "CreateRegistryKey (a 0) ?k [] (Some ''PS3 Eye Media Source'') r = (h0, s0)" by fastforce
    obtain h1 s1 where s1: "CreateRegistryKey (a 1) (?k @ [''InprocServer32'']) [] (Some fname) s0 = (h1, s1)" by fastforce
    obtain h2 s2 where s2: "CreateRegistryKey (a 2) (?k @ [''InprocServer32'']) ''ThreadingModel'' (Some ''Both'') s1 = (h2, s2)" by fastforce
    have 0: "differs_below ?k r s0 \<and> (succeeded h0 \<longrightarrow> has_key s0 ?k)" using media_create_differs [OF assms(1) _ s0] by blast
    then have 1: "succeeded h0 \<Longrightarrow> differs_below ?k s0 s1 \<and> (succeeded h1 \<longrightarrow> has_key s1 ?k)"
      using media_create_differs [OF _ _ s1] by (auto simp: differs_below_def)
    then have 2: "succeeded h0 \<Longrightarrow> succeeded h1 \<Longrightarrow> differs_below ?k s1 s2"
      using media_create_differs [OF _ _ s2] by (auto simp: differs_below_def)
    have "r1 = s0 \<or> succeeded h0 \<and> r1 = s1 \<or> succeeded h0 \<and> succeeded h1 \<and> r1 = s2"
      using assms(2) Inr s0 s1 s2
      by (simp add: Media_DllRegisterServer_def Let_def split: if_split_asm prod.split_asm)
    then show ?thesis using 0 1 2 differs_trans [of ?k r s0 s1] differs_trans [of ?k r s1 s2] by blast
  qed (use assms(1,2) differs_refl in \<open>auto simp: Media_DllRegisterServer_def\<close>)
  obtain e r3 where e: "delete_tree ?k r1 = (e, r3)" by fastforce
  then have "(e = 0 \<longrightarrow> r3 = without ?k r1) \<and> (e = 2 \<longrightarrow> r3 = r1 \<and> \<not> has_key r1 ?k)"
    using assms(5) [unfolded deletes_trees_def, THEN spec [of _ ?k], THEN spec [of _ r1]] by simp
  moreover have "e = 0 \<or> e = 2" "r2 = r3" "MFTUnregister CLSID_PS3EyeMediaSource \<in> set l2"
    using assms(3,4) e by (auto simp: Media_DllUnregisterServer_def DeleteRegistryKey_def HRESULT_FROM_WIN32_def ask_setup_def split: if_splits)
  moreover have "parents_kept r1" using d by (simp add: differs_below_def registry_ok_def)
  ultimately have "r2 = without ?k r1" using without_absent [of r1 ?k] by (auto simp: has_key_keys media_source_key_def)
  then show ?thesis using d \<open>MFTUnregister CLSID_PS3EyeMediaSource \<in> set l2\<close> by (simp add: differs_below_def)
qed

definition demo_delete_tree :: "path \<Rightarrow> registry \<Rightarrow> nat \<times> registry" where
  "demo_delete_tree p r = (if has_key r p then (0, without p r) else (2, r))"

theorem media_unregistration_undoes_registration_witness:
  "\<exists>hr r1 l1 hr2 l2. Media_DllRegisterServer (Inr ''ps3eye.dll'') (\<lambda>i. if i = 1 then (5, 0) else (0, 0)) (\<lambda>_ _. S_OK) [([''CLSID''], Map.empty)] []
      = (hr, r1, l1) \<and> failed hr
    \<and> Media_DllUnregisterServer demo_delete_tree (\<lambda>_ _. S_OK) r1 [] = (hr2, [([''CLSID''], Map.empty)], l2)"
proof -
  let ?r = "[([''CLSID''], Map.empty)] :: registry" and ?a = "\<lambda>i :: nat. if i = 1 then (5, 0) else (0 :: nat, 0 :: nat)"
  have ok: "registry_ok ?r" by (simp add: registry_ok_def parents_kept_def has_key_def)
  obtain hr r1 l1 where reg: "Media_DllRegisterServer (Inr ''ps3eye.dll'') ?a (\<lambda>_ _. S_OK) ?r [] = (hr, r1, l1)" by (metis prod_cases3)
  then have f: "failed hr" by (auto simp: Media_DllRegisterServer_def CreateRegistryKey_def HRESULT_FROM_WIN32_def)
  obtain hr2 r2 l2 where un: "Media_DllUnregisterServer demo_delete_tree (\<lambda>_ _. S_OK) r1 [] = (hr2, r2, l2)" by (metis prod_cases3)
  then have "succeeded hr2"
    by (auto simp: Media_DllUnregisterServer_def DeleteRegistryKey_def demo_delete_tree_def HRESULT_FROM_WIN32_def split: if_splits)
  moreover have "deletes_trees demo_delete_tree" by (simp add: deletes_trees_def demo_delete_tree_def)
  ultimately have "r2 = without media_source_key ?r" using media_unregistration_undoes_registration [OF ok reg un] by blast
  then show ?thesis using reg f un by (auto simp: without_def media_source_key_def)
qed

end
