(* ===== verification/AudioType.thy ===== *)
theory AudioType
  imports MediaType
begin

text \<open>
  \<open>CreateAudioMediaType\<close> of baseclasses/mtype.cpp, which describes sound by a WAVEFORMATEX. No part of the
  program calls it; it is here because it is an operation on media types.
\<close>

section \<open>The format of sound\<close>

datatype wave_field = wFormatTag | nChannels | nSamplesPerSec | nAvgBytesPerSec | nBlockAlign | wBitsPerSample | W_cbSize

fun wave_off :: "wave_field \<Rightarrow> nat" where
  "wave_off wFormatTag = 0" | "wave_off nChannels = 2" | "wave_off nSamplesPerSec = 4" | "wave_off nAvgBytesPerSec = 8"
| "wave_off nBlockAlign = 12" | "wave_off wBitsPerSample = 14" | "wave_off W_cbSize = 16"

fun wave_wd :: "wave_field \<Rightarrow> nat" where
  "wave_wd nSamplesPerSec = 4" | "wave_wd nAvgBytesPerSec = 4" | "wave_wd _ = 2"

definition sizeof_WAVEFORMATEX :: nat where "sizeof_WAVEFORMATEX = 18"

definition sizeof_PCMWAVEFORMAT :: nat where "sizeof_PCMWAVEFORMAT = 16"

interpretation wave: struct_layout wave_off wave_wd sizeof_WAVEFORMATEX
proof
  fix f g :: wave_field
  show "f \<noteq> g \<Longrightarrow> wave_off f + wave_wd f \<le> wave_off g \<or> wave_off g + wave_wd g \<le> wave_off f"
    by (cases f; cases g) auto
  show "wave_off f + wave_wd f \<le> sizeof_WAVEFORMATEX" by (cases f) (auto simp: sizeof_WAVEFORMATEX_def)
qed

definition wave_get :: "mem \<Rightarrow> wave_field \<Rightarrow> nat" where "wave_get = field_get wave_off wave_wd"

definition WAVE_FORMAT_PCM :: nat where "WAVE_FORMAT_PCM = 1"

definition WAVE_FORMAT_EXTENSIBLE :: nat where "WAVE_FORMAT_EXTENSIBLE = 0xFFFE"

text \<open>
  The format is a region of \<open>n\<close> bytes; \<open>sub_format\<close> reads the GUID at offset 24 of the extensible form. A read
  beyond the region is a fault.
\<close>

definition CreateAudioMediaType ::
  "mem option \<Rightarrow> (mem \<Rightarrow> guid) \<Rightarrow> nat \<times> mem \<Rightarrow> am_media_type \<Rightarrow> bool \<Rightarrow> heap \<Rightarrow> (hresult \<times> am_media_type \<times> heap) option" where
  "CreateAudioMediaType answer sub_format pwfx pmt bSetFormat h =
    (case pwfx of (n, b) \<Rightarrow>
     if n < sizeof_WAVEFORMATEX \<or> wave_get b wFormatTag = WAVE_FORMAT_EXTENSIBLE \<and> n < 40 then None
     else
       let tag = wave_get b wFormatTag;
           mt = pmt\<lparr>majortype := MEDIATYPE_Audio,
             subtype := (if tag = WAVE_FORMAT_EXTENSIBLE then sub_format b else FOURCCMap (of_nat tag)),
             formattype := FORMAT_WaveFormatEx, bFixedSizeSamples := True, bTemporalCompression := False,
             lSampleSize := of_nat (wave_get b nBlockAlign), pUnk := None\<rparr>
       in if \<not> bSetFormat then Some (S_OK, mt, h)
          else
            let cb = (if tag = WAVE_FORMAT_PCM then sizeof_WAVEFORMATEX else sizeof_WAVEFORMATEX + wave_get b W_cbSize);
                (p, h1) = CoTaskMemAlloc answer cb h;
                mt1 = mt\<lparr>cbFormat := of_nat cb, pbFormat := p\<rparr>
            in case (p, answer) of
                 (Some a, Some junk) \<Rightarrow>
                   if tag = WAVE_FORMAT_PCM
                   then Some (S_OK, mt1, h1\<lparr>hblk := (hblk h1)(a \<mapsto> (cb,
                          field_put wave_off wave_wd W_cbSize 0 (memcpy junk 0 b 0 sizeof_PCMWAVEFORMAT)))\<rparr>)
                   else if n < cb then None
                   else Some (S_OK, mt1, h1\<lparr>hblk := (hblk h1)(a \<mapsto> (cb, memcpy junk 0 b 0 cb))\<rparr>)
               | _ \<Rightarrow> Some (E_OUTOFMEMORY, mt1, h1))"

section \<open>Properties\<close>

lemma wave_get_bound: "wave_get b f < 65536 \<or> wave_wd f = 4"
  using le_get_below [of b "wave_off f" "wave_wd f"] by (cases f) (simp_all add: wave_get_def field_get_def)

lemma audio_size: "unat (of_nat (sizeof_WAVEFORMATEX + wave_get b W_cbSize) :: u32) = sizeof_WAVEFORMATEX + wave_get b W_cbSize"
  "unat (of_nat sizeof_WAVEFORMATEX :: u32) = sizeof_WAVEFORMATEX"
  using wave_get_bound [of b W_cbSize] by (simp_all add: unat_of_nat sizeof_WAVEFORMATEX_def del: of_nat_add)

text \<open>The media type made from a sound format owns a block with the whole format, of a length that the format
  itself states; for plain PCM, whose struct may end before that member, the extra length is set to zero. Without
  memory for the block the result is \<open>E_OUTOFMEMORY\<close> but the media type is left claiming a block it does not
  have, so that a copy of it would read through a null pointer.\<close>

theorem audio_type_holds_its_format:
  assumes "heap_ok h" and "sizeof_WAVEFORMATEX + wave_get b W_cbSize \<le> n" and "40 \<le> n"
  shows "\<exists>mt h1. CreateAudioMediaType (Some junk) sub (n, b) pmt True h = Some (S_OK, mt, h1) \<and> mt_ok h1 mt
      \<and> bytes h1 (pbFormat mt) 16 = Some (map b [0..<16])
      \<and> (if wave_get b wFormatTag = WAVE_FORMAT_PCM then bytes h1 (pbFormat mt) 18 = Some (map b [0..<16] @ [0, 0])
         else bytes h1 (pbFormat mt) (unat (cbFormat mt)) = Some (map b [0..<unat (cbFormat mt)]))"
    "\<exists>mt. CreateAudioMediaType None sub (n, b) pmt True h = Some (E_OUTOFMEMORY, mt, h) \<and> \<not> mt_ok h mt
      \<and> CopyMediaType (Some junk) mt h = None"
proof -
  have n: "\<not> n < sizeof_WAVEFORMATEX" using assms(3) by (simp add: sizeof_WAVEFORMATEX_def)
  have m: "map (le_put (memcpy junk 0 b 0 sizeof_PCMWAVEFORMAT) 16 2 0) [0..<16] = map b [0..<16]"
    by (rule map_cong) (auto simp: le_put_outside memcpy_def sizeof_PCMWAVEFORMAT_def)
  have z: "map (le_put (memcpy junk 0 b 0 sizeof_PCMWAVEFORMAT) 16 2 0) [16..<18] = [0, 0]"
    by (simp add: numeral_2_eq_2 upt_rec)
  have e: "[0..<18] = [0..<16] @ [16..<18 :: nat]" by (simp add: upt_add_eq_append [of 0 16 2, simplified])
  show "\<exists>mt h1. CreateAudioMediaType (Some junk) sub (n, b) pmt True h = Some (S_OK, mt, h1) \<and> mt_ok h1 mt
      \<and> bytes h1 (pbFormat mt) 16 = Some (map b [0..<16])
      \<and> (if wave_get b wFormatTag = WAVE_FORMAT_PCM then bytes h1 (pbFormat mt) 18 = Some (map b [0..<16] @ [0, 0])
         else bytes h1 (pbFormat mt) (unat (cbFormat mt)) = Some (map b [0..<unat (cbFormat mt)]))"
  proof (cases "wave_get b wFormatTag = WAVE_FORMAT_PCM")
    case True
    then show ?thesis using n assms(3) audio_size(2) m z
      by (simp add: CreateAudioMediaType_def CoTaskMemAlloc_def Let_def mt_ok_def bytes_def e field_put_def
          sizeof_WAVEFORMATEX_def WAVE_FORMAT_PCM_def WAVE_FORMAT_EXTENSIBLE_def)
  next
    case False
    then show ?thesis using n assms(2,3) audio_size(1) [of b]
      by (simp add: CreateAudioMediaType_def CoTaskMemAlloc_def Let_def mt_ok_def bytes_def memcpy_def sizeof_WAVEFORMATEX_def)
  qed
  show "\<exists>mt. CreateAudioMediaType None sub (n, b) pmt True h = Some (E_OUTOFMEMORY, mt, h) \<and> \<not> mt_ok h mt
      \<and> CopyMediaType (Some junk) mt h = None"
  proof -
    have "of_nat (if wave_get b wFormatTag = WAVE_FORMAT_PCM then sizeof_WAVEFORMATEX else sizeof_WAVEFORMATEX + wave_get b W_cbSize)
        \<noteq> (0 :: u32)"
      using audio_size(1) [of b] audio_size(2) by (auto simp: sizeof_WAVEFORMATEX_def simp flip: unat_eq_0 simp del: of_nat_add)
    then show ?thesis using n assms(3)
      by (simp add: CreateAudioMediaType_def CoTaskMemAlloc_def Let_def mt_ok_def CopyMediaType_def CopyMemory_def)
  qed
qed

end
