(* ===== verification/ListAppend.thy ===== *)
theory ListAppend
  imports BaseList
begin

text \<open>
  The operations of CBaseList that add all the objects of another list (baseclasses/wxlist.cpp): to the tail, to
  the head, after or before a position. Both lists live on one heap of nodes, and the other list may be the list
  itself.
\<close>

section \<open>Adding a list\<close>

text \<open>
  Each round of a loop takes one unit of fuel; a loop that has none left is still running, which is \<open>None\<close> beside
  the list and the heap as they are by then. \<open>mem k\<close> is the answer to the request for the \<open>k\<close>-th new node.
\<close>

type_synonym append_result = "(bool option \<times> base_list \<times> node_heap) option"

definition GetValidI :: "position \<Rightarrow> node_heap \<Rightarrow> object option" where
  "GetValidI p h = map_option m_pObject (get_node p h)"

fun tail_loop :: "(nat \<Rightarrow> node option) \<Rightarrow> nat \<Rightarrow> nat \<Rightarrow> position \<Rightarrow> base_list \<Rightarrow> node_heap \<Rightarrow> append_result" where
  "tail_loop mem fuel k None l h = Some (Some True, l, h)"
| "tail_loop mem 0 k (Some pos) l h = Some (None, l, h)"
| "tail_loop mem (Suc fuel) k (Some pos) l h = do {
     (x, pos1) \<leftarrow> GetNextI (Some pos) h;
     (p, l1, h1) \<leftarrow> AddTailI (mem k) (the x) l h;
     if p = None then Some (Some False, l1, h1) else tail_loop mem fuel (k + 1) pos1 l1 h1 }"

text \<open>
  The traversals of the other three: INTERNALTRAVERSELIST with \<open>m_pNext\<close>, its reverse with \<open>m_pPrev\<close>. The
  position \<open>p\<close> follows the elements that are added.
\<close>

fun traverse ::
  "(node \<Rightarrow> position) \<Rightarrow> (node option \<Rightarrow> position \<Rightarrow> object \<Rightarrow> base_list \<Rightarrow> node_heap \<Rightarrow> (position \<times> base_list \<times> node_heap) option)
     \<Rightarrow> (nat \<Rightarrow> node option) \<Rightarrow> nat \<Rightarrow> nat \<Rightarrow> position \<Rightarrow> position \<Rightarrow> base_list \<Rightarrow> node_heap \<Rightarrow> append_result" where
  "traverse step add mem fuel k p None l h = Some (Some True, l, h)"
| "traverse step add mem 0 k p (Some pos) l h = Some (None, l, h)"
| "traverse step add mem (Suc fuel) k p (Some pos) l h = do {
     x \<leftarrow> GetValidI (Some pos) h;
     (q, l1, h1) \<leftarrow> add (mem k) p x l h;
     if q = None then Some (Some False, l1, h1)
     else do { n \<leftarrow> get_node (Some pos) h1; traverse step add mem fuel (k + 1) q (step n) l1 h1 } }"

definition AddTail_list :: "(nat \<Rightarrow> node option) \<Rightarrow> nat \<Rightarrow> base_list \<Rightarrow> base_list \<Rightarrow> node_heap \<Rightarrow> append_result" where
  "AddTail_list mem fuel pList l h = tail_loop mem fuel 0 (m_pFirst pList) l h"

definition AddHead_list :: "(nat \<Rightarrow> node option) \<Rightarrow> nat \<Rightarrow> base_list \<Rightarrow> base_list \<Rightarrow> node_heap \<Rightarrow> append_result" where
  "AddHead_list mem fuel pList l h = traverse m_pPrev (\<lambda>fresh _. AddHeadI fresh) mem fuel 0 None (m_pLast pList) l h"

definition AddAfter_list :: "(nat \<Rightarrow> node option) \<Rightarrow> nat \<Rightarrow> position \<Rightarrow> base_list \<Rightarrow> base_list \<Rightarrow> node_heap \<Rightarrow> append_result" where
  "AddAfter_list mem fuel p pList l h = traverse m_pNext AddAfterI mem fuel 0 p (m_pFirst pList) l h"

definition AddBefore_list :: "(nat \<Rightarrow> node option) \<Rightarrow> nat \<Rightarrow> position \<Rightarrow> base_list \<Rightarrow> base_list \<Rightarrow> node_heap \<Rightarrow> append_result" where
  "AddBefore_list mem fuel p pList l h = traverse m_pPrev AddBeforeI mem fuel 0 p (m_pLast pList) l h"

section \<open>The way through the other list\<close>

fun visits :: "(node \<Rightarrow> position) \<Rightarrow> node_heap \<Rightarrow> nat list \<Rightarrow> bool" where
  "visits step h [] = True"
| "visits step h (a # as) = ((\<exists>n. node_at h a = Some n \<and> step n = first_or as None) \<and> visits step h as)"

lemma visits_cong: "\<forall>a \<in> set vs. node_at h' a = node_at h a \<Longrightarrow> visits step h' vs = visits step h vs"
  by (induction vs) auto


lemma visits_forward: "chain h p ps None \<Longrightarrow> visits m_pNext h ps"
  by (induction ps arbitrary: p) auto

text \<open>Backward, with the nodes already passed as an accumulator.\<close>

lemma visits_back: "chain h (first_or vs None) ps q \<Longrightarrow> visits m_pPrev h vs \<Longrightarrow> visits m_pPrev h (rev ps @ vs)"
proof (induction ps arbitrary: vs)
  case (Cons a as)
  have "chain h (first_or (a # vs) None) as q" "visits m_pPrev h (a # vs)" using Cons.prems by auto
  from Cons.IH [OF this] show ?case by (simp only: rev.simps append_assoc append_Cons append_Nil)
qed simp

lemma visits_backward: "chain h None ps None \<Longrightarrow> visits m_pPrev h (rev ps)"
  using visits_back [of h "[]" ps None] by simp

section \<open>Adding one after the other\<close>

text \<open>
  \<open>place p xs ys\<close>: position \<open>p\<close> stands for the gap between the nodes \<open>xs\<close> and \<open>ys\<close>, and stands for it again when
  it follows a new node, which it leaves behind it if \<open>forward\<close> and else has before it.
\<close>

definition spread :: "bool \<Rightarrow> nat list \<Rightarrow> nat list \<Rightarrow> nat list \<Rightarrow> nat list" where
  "spread forward xs bs ys = xs @ (if forward then bs else rev bs) @ ys"

definition apart :: "node_heap \<Rightarrow> nat list \<Rightarrow> nat list \<Rightarrow> nat list \<Rightarrow> nat list \<Rightarrow> bool" where
  "apart h vs xs ys cs \<longleftrightarrow> (\<forall>a \<in> set vs. node_at h a \<noteq> None \<and> a \<notin> set xs \<union> set ys \<union> set cs)"

definition all_added ::
  "(nat \<Rightarrow> node option) \<Rightarrow> nat \<Rightarrow> nat list \<Rightarrow> bool \<Rightarrow> nat list \<Rightarrow> nat list \<Rightarrow> nat list \<Rightarrow> node_heap \<Rightarrow> bool \<Rightarrow> base_list \<Rightarrow> node_heap \<Rightarrow> bool" where
  "all_added mem k vs forward xs ys cs h ok l' h' \<longleftrightarrow> (\<exists>bs cs'. rep l' h' (spread forward xs bs ys) cs'
     \<and> objects h' bs = take (length bs) (objects h vs) \<and> length bs \<le> length vs
     \<and> (if ok then length bs = length vs else length bs < length vs \<and> mem (k + length bs) = None)
     \<and> same_objects h h' (set xs \<union> set ys)
     \<and> (\<forall>a. node_at h a \<noteq> None \<longrightarrow> a \<notin> set xs \<union> set ys \<union> set cs \<longrightarrow> node_at h' a = node_at h a)
     \<and> set cs' \<subseteq> set cs \<and> (\<forall>b \<in> set bs. b \<in> set cs \<or> node_at h b = None))"

lemma added_nothing:
  assumes "added h xs ys cs x None l1 h1" "mem k = None"
  shows "all_added mem k (v # vs) forward xs ys cs h False l1 h1"
proof -
  obtain cs' where "set cs' \<subseteq> set cs" "rep l1 h1 (xs @ ys) cs'" using assms(1) by (auto simp: added_def)
  then show ?thesis
    using assms unfolding all_added_def added_def spread_def by (intro exI [of _ "[]"] exI [of _ cs']) simp
qed

lemma added_frame:
  "added h xs ys cs x q l1 h1 \<Longrightarrow> node_at h a \<noteq> None \<Longrightarrow> a \<notin> set xs \<union> set ys \<union> set cs \<Longrightarrow> node_at h1 a = node_at h a"
  by (simp add: added_def)

lemma added_then:
  assumes a: "added h xs ys cs x (Some b) l1 h1" and r: "rep l1 h1 (xs1 @ ys1) cs1" and c: "set cs1 \<subseteq> set cs"
    and ob: "map_option m_pObject (node_at h1 b) = Some x" and e: "xs1 = (if forward then xs @ [b] else xs) \<and> ys1 = (if forward then ys else b # ys)"
    and m: "all_added mem (k + 1) vs forward xs1 ys1 cs1 h1 ok l' h'"
    and v: "node_at h v = Some n" "x = m_pObject n" "objects h1 vs = objects h vs"
  shows "all_added mem k (v # vs) forward xs ys cs h ok l' h'"
proof -
  from m obtain bs cs' where b: "rep l' h' (spread forward xs1 bs ys1) cs'" "objects h' bs = take (length bs) (objects h1 vs)"
    "length bs \<le> length vs" "if ok then length bs = length vs else length bs < length vs \<and> mem (k + 1 + length bs) = None"
    "same_objects h1 h' (set xs1 \<union> set ys1)"
    "\<forall>a. node_at h1 a \<noteq> None \<longrightarrow> a \<notin> set xs1 \<union> set ys1 \<union> set cs1 \<longrightarrow> node_at h' a = node_at h1 a"
    "set cs' \<subseteq> set cs1" "\<forall>b \<in> set bs. b \<in> set cs1 \<or> node_at h1 b = None"
    unfolding all_added_def by (elim exE conjE) (rule that)
  have ends: "set xs1 \<union> set ys1 = insert b (set xs \<union> set ys)" using e by auto
  have a': "same_objects h h1 (set xs \<union> set ys)" "b \<in> set cs \<or> node_at h b = None" using a by (auto simp: added_def)
  have old: "node_at h1 a = node_at h a" if "node_at h a \<noteq> None" "a \<notin> set xs \<union> set ys \<union> set cs" for a
    using a that by (auto simp: added_def)
  have live: "node_at h1 a \<noteq> None" if "a \<in> set xs \<union> set ys" for a
    using chain_live [OF rep_parts(1) [OF r], of a] that ends by auto
  have "spread forward xs1 bs ys1 = spread forward xs (b # bs) ys" using e by (simp add: spread_def)
  moreover have "objects h' (b # bs) = take (length (b # bs)) (objects h (v # vs))"
  proof -
    have "b \<in> set xs1 \<union> set ys1" using ends by simp
    then have "map_option m_pObject (node_at h' b) = Some x" using b(5) ob by (simp add: same_objects_def)
    then have "m_pObject (the (node_at h' b)) = x" by auto
    then show ?thesis using b(2) v by simp
  qed
  moreover have "same_objects h h' (set xs \<union> set ys)"
    by (rule same_objects_trans [OF a'(1) same_objects_mono [OF b(5)]]) (use ends in auto)
  moreover have "node_at h' a = node_at h a" if "node_at h a \<noteq> None" "a \<notin> set xs \<union> set ys \<union> set cs" for a
  proof -
    have "a \<noteq> b" using a'(2) that by auto
    then have "a \<notin> set xs1 \<union> set ys1 \<union> set cs1" using ends that c by auto
    then show ?thesis using b(6) [THEN spec, of a] old [OF that] that(1) by simp
  qed
  moreover have "d \<in> set cs \<or> node_at h d = None" if "d \<in> set (b # bs)" for d
  proof (cases "d = b")
    case False
    then have "d \<in> set cs1 \<or> node_at h1 d = None" using b(8) that by simp
    then show ?thesis using live [of d] old [of d] c
      by (cases "d \<in> set xs \<union> set ys"; cases "d \<in> set cs"; cases "node_at h d = None") auto
  qed (use a'(2) in simp)
  ultimately show ?thesis
    using b(1,3,4,7) c unfolding all_added_def by (intro exI [of _ "b # bs"] exI [of _ cs']) auto
qed

locale list_inserter =
  fixes add :: "node option \<Rightarrow> position \<Rightarrow> object \<Rightarrow> base_list \<Rightarrow> node_heap \<Rightarrow> (position \<times> base_list \<times> node_heap) option"
    and place :: "position \<Rightarrow> nat list \<Rightarrow> nat list \<Rightarrow> bool" and forward :: bool
  assumes inserts: "rep l h (xs @ ys) cs \<Longrightarrow> place p xs ys \<Longrightarrow>
      \<exists>q l' h'. add fresh p x l h = Some (q, l', h') \<and> added h xs ys cs x q l' h' \<and> (q = None \<longrightarrow> fresh = None)"
    and follows: "place p xs ys \<Longrightarrow> if forward then place (Some b) (xs @ [b]) ys else place (Some b) xs (b # ys)"
begin

lemma traverse_adds:
  assumes "rep l h (xs @ ys) cs" "place p xs ys" "visits step h vs" "apart h vs xs ys cs" "length vs \<le> fuel"
  shows "\<exists>ok l' h'. traverse step add mem fuel k p (first_or vs None) l h = Some (Some ok, l', h')
    \<and> all_added mem k vs forward xs ys cs h ok l' h'"
  using assms
proof (induction vs arbitrary: l h xs ys cs p k fuel)
  case Nil
  then have "all_added mem k [] forward xs ys cs h True l h"
    unfolding all_added_def spread_def by (intro exI [of _ "[]"] exI [of _ cs]) simp
  then show ?case by (cases fuel) auto
next
  case (Cons v vs)
  obtain f where f: "fuel = Suc f" using Cons.prems(5) by (cases fuel) auto
  obtain n where n: "node_at h v = Some n" "step n = first_or vs None" "visits step h vs" using Cons.prems(3) by auto
  obtain q l1 h1 where a: "add (mem k) p (m_pObject n) l h = Some (q, l1, h1)"
    "added h xs ys cs (m_pObject n) q l1 h1" "q = None \<longrightarrow> mem k = None"
    using inserts [OF Cons.prems(1,2)] by blast
  have frame: "node_at h1 a = node_at h a" if "a \<in> set (v # vs)" for a
    using a(2) Cons.prems(4) that unfolding added_def apart_def by blast
  then have n1: "node_at h1 v = Some n" and v1: "visits step h1 vs" using n visits_cong [of vs h1 h] by auto
  show ?case
  proof (cases q)
    case None
    then have "all_added mem k (v # vs) forward xs ys cs h False l1 h1" using a(2,3) added_nothing by blast
    then show ?thesis using None a(1) n(1) f by (intro exI [of _ False] exI conjI) (simp_all add: GetValidI_def get_node_def)
  next
    case (Some b)
    define xs1 ys1 where "xs1 = (if forward then xs @ [b] else xs)" and "ys1 = (if forward then ys else b # ys)"
    obtain cs1 where c1: "set cs1 \<subseteq> set cs" "rep l1 h1 (xs1 @ ys1) cs1" "map_option m_pObject (node_at h1 b) = Some (m_pObject n)"
      "b \<in> set cs \<or> node_at h b = None"
      using a(2) Some by (auto simp: added_def xs1_def ys1_def)
    have "place (Some b) xs1 ys1" using follows [OF Cons.prems(2), of b] by (auto simp: xs1_def ys1_def)
    moreover have "apart h1 vs xs1 ys1 cs1"
      using Cons.prems(4) frame c1(1,4) by (auto simp: apart_def xs1_def ys1_def)
    moreover have "length vs \<le> f" using Cons.prems(5) f by simp
    ultimately obtain ok l' h' where r: "traverse step add mem f (k + 1) (Some b) (first_or vs None) l1 h1 = Some (Some ok, l', h')"
      "all_added mem (k + 1) vs forward xs1 ys1 cs1 h1 ok l' h'"
      using Cons.IH c1(2) v1 by blast
    have "objects h1 vs = objects h vs" using frame by (intro objects_cong) simp
    with added_then [OF a(2) [unfolded Some] c1(2,1,3) _ r(2), of v n] n(1) xs1_def ys1_def
    have "all_added mem k (v # vs) forward xs ys cs h ok l' h'" by simp
    then show ?thesis using a(1) n(1) n1 r(1) Some f n(2) by (auto simp: GetValidI_def get_node_def)
  qed
qed

end

text \<open>The four operations, each with what its position stands for.\<close>

interpretation at_tail: list_inserter "\<lambda>fresh _. AddTailI fresh" "\<lambda>_ xs ys. ys = []" True
  by unfold_locales (use AddTail_spec in auto)

interpretation at_head: list_inserter "\<lambda>fresh _. AddHeadI fresh" "\<lambda>_ xs ys. xs = []" False
  by unfold_locales (use AddHead_spec in auto)

lemma AddAfter_at:
  assumes r: "rep l h (xs @ ys) cs"
  shows "\<exists>q l' h'. AddAfterI fresh (last_or xs None) x l h = Some (q, l', h') \<and> added h xs ys cs x q l' h' \<and> (q = None \<longrightarrow> fresh = None)"
proof (cases xs rule: rev_cases)
  case Nil
  then show ?thesis using AddHead_spec [of l h ys cs fresh x] r by (simp add: AddAfterI_def)
next
  case (snoc xs' a)
  then show ?thesis using AddAfter_spec [of l h xs' a ys cs fresh x] r by simp
qed

lemma AddBefore_at:
  assumes r: "rep l h (xs @ ys) cs"
  shows "\<exists>q l' h'. AddBeforeI fresh (first_or ys None) x l h = Some (q, l', h') \<and> added h xs ys cs x q l' h' \<and> (q = None \<longrightarrow> fresh = None)"
proof (cases ys)
  case Nil
  then show ?thesis using AddTail_spec [of l h xs cs fresh x] r by (simp add: AddBeforeI_def)
next
  case (Cons a ys')
  then show ?thesis using AddBefore_spec [of l h xs a ys' cs fresh x] r by simp
qed

interpretation after_position: list_inserter AddAfterI "\<lambda>p xs ys. p = last_or xs None" True
  by unfold_locales (use AddAfter_at in auto)

interpretation before_position: list_inserter AddBeforeI "\<lambda>p xs ys. p = first_or ys None" False
  by unfold_locales (use AddBefore_at in auto)

text \<open>The first loop reads the next position before it adds; with two lists that makes no difference.\<close>

lemma tail_loop_traverse:
  "rep l h ps cs \<Longrightarrow> visits m_pNext h vs \<Longrightarrow> apart h vs ps [] cs \<Longrightarrow>
     tail_loop mem fuel k (first_or vs None) l h = traverse m_pNext (\<lambda>fresh _. AddTailI fresh) mem fuel k p (first_or vs None) l h"
proof (induction vs arbitrary: l h ps cs p k fuel)
  case (Cons v vs)
  show ?case
  proof (cases fuel)
    case (Suc f)
    obtain n where n: "node_at h v = Some n" "m_pNext n = first_or vs None" "visits m_pNext h vs" using Cons.prems(2) by auto
    obtain q l1 h1 where a: "AddTailI (mem k) (m_pObject n) l h = Some (q, l1, h1)" "added h ps [] cs (m_pObject n) q l1 h1"
      using AddTail_spec [OF Cons.prems(1)] by blast
    have frame: "node_at h1 a = node_at h a" if "a \<in> set (v # vs)" for a
      using added_frame [OF a(2), of a] Cons.prems(3) that by (auto simp: apart_def)
    then have v: "node_at h1 v = Some n" "visits m_pNext h1 vs" using n visits_cong [of vs h1 h] by auto
    have "tail_loop mem f (k + 1) (first_or vs None) l1 h1
        = traverse m_pNext (\<lambda>fresh _. AddTailI fresh) mem f (k + 1) (Some b) (first_or vs None) l1 h1" if b: "q = Some b" for b
    proof -
      obtain cs1 where c1: "set cs1 \<subseteq> set cs" "rep l1 h1 (ps @ [b]) cs1" "b \<in> set cs \<or> node_at h b = None"
        using a(2) b by (auto simp: added_def)
      have "apart h1 vs (ps @ [b]) [] cs1" using Cons.prems(3) frame c1(1,3) by (auto simp: apart_def)
      then show ?thesis using Cons.IH [OF c1(2) v(2)] by simp
    qed
    then show ?thesis using Suc n(1,2) v(1) a(1) by (auto simp: GetNextI_def GetValidI_def get_node_def)
  qed simp
qed (cases fuel; simp)

section \<open>The contents after an operation\<close>

datatype append_op = Append_tail | Append_head | Append_after nat | Append_before nat

text \<open>A position is given by its place in the list, beyond whose end it is a null pointer.\<close>

primrec append_step :: "append_op \<Rightarrow> (nat \<Rightarrow> node option) \<Rightarrow> nat \<Rightarrow> base_list \<Rightarrow> base_list \<Rightarrow> node_heap \<Rightarrow> append_result" where
  "append_step Append_tail mem fuel pList l h = AddTail_list mem fuel pList l h"
| "append_step Append_head mem fuel pList l h = AddHead_list mem fuel pList l h"
| "append_step (Append_after i) mem fuel pList l h = do {
     p \<leftarrow> nth_position i (m_pFirst l) h; AddAfter_list mem fuel p pList l h }"
| "append_step (Append_before i) mem fuel pList l h = do {
     p \<leftarrow> nth_position i (m_pFirst l) h; AddBefore_list mem fuel p pList l h }"

text \<open>The list \<open>xs\<close> after \<open>k\<close> objects of \<open>ys\<close> have been added: the first ones, or going backward the last ones.\<close>

primrec append_spec :: "append_op \<Rightarrow> nat \<Rightarrow> object list \<Rightarrow> object list \<Rightarrow> object list" where
  "append_spec Append_tail k xs ys = xs @ take k ys"
| "append_spec Append_head k xs ys = drop (length ys - k) ys @ xs"
| "append_spec (Append_after i) k xs ys =
     (if i < length xs then take (Suc i) xs @ take k ys @ drop (Suc i) xs else take k ys @ xs)"
| "append_spec (Append_before i) k xs ys = take i xs @ drop (length ys - k) ys @ drop i xs"

definition appends :: "append_op \<Rightarrow> (nat \<Rightarrow> node option) \<Rightarrow> base_list \<Rightarrow> base_list \<Rightarrow> node_heap \<Rightarrow> object list \<Rightarrow> object list \<Rightarrow> append_result \<Rightarrow> bool" where
  "appends op mem l pList h xs ys r \<longleftrightarrow> (\<exists>ok l' h' k. r = Some (Some ok, l', h')
     \<and> list_contents l' h' = Some (append_spec op k xs ys) \<and> list_contents pList h' = Some ys
     \<and> (\<exists>ps cs qs ds. rep2 l' pList h' ps cs qs ds)
     \<and> (if ok then k = length ys else k < length ys \<and> mem k = None))"

lemma objects_rev: "objects h (rev ps) = rev (objects h ps)"
  by (simp add: objects_def rev_map)

lemma added_contents:
  assumes r: "rep2 l src h (xs @ ys) cs qs ds" and vs: "vs = (if forward then qs else rev qs)"
    and m: "all_added mem 0 vs forward xs ys cs h ok l' h'"
  shows "\<exists>k. list_contents l' h' = Some (objects h xs @ (if forward then take k (objects h qs)
        else drop (length qs - k) (objects h qs)) @ objects h ys)
      \<and> list_contents src h' = Some (objects h qs) \<and> (\<exists>ps cs qs ds. rep2 l' src h' ps cs qs ds)
      \<and> (if ok then k = length qs else k < length qs \<and> mem k = None)"
proof -
  obtain bs cs' where b: "rep l' h' (spread forward xs bs ys) cs'" "objects h' bs = take (length bs) (objects h vs)"
    "if ok then length bs = length vs else length bs < length vs \<and> mem (length bs) = None"
    "same_objects h h' (set xs \<union> set ys)" "set cs' \<subseteq> set cs" "\<forall>b \<in> set bs. b \<in> set cs \<or> node_at h b = None"
    "\<forall>a. node_at h a \<noteq> None \<longrightarrow> a \<notin> set xs \<union> set ys \<union> set cs \<longrightarrow> node_at h' a = node_at h a"
    using m unfolding all_added_def add_0 by (elim exE conjE) (rule that)
  have rl: "rep l h (xs @ ys) cs" "rep src h qs ds" "(set (xs @ ys) \<union> set cs) \<inter> (set qs \<union> set ds) = {}"
    using r by (auto simp: rep2_def)
  have live: "node_at h a \<noteq> None" if "a \<in> set qs \<union> set ds" for a
    using that chain_live [OF rep_parts(1) [OF rl(2)]] unused_live [OF rep_parts(2) [OF rl(2)]] by auto
  have same: "node_at h' a = node_at h a" if "a \<in> set qs \<union> set ds" for a
    using b(7) [THEN spec, of a] live [OF that] rl(3) that by auto
  have "unborn h'" using rep_parts(11) [OF b(1)] .
  then have src: "rep src h' qs ds" "objects h' qs = objects h qs"
    using rl(2) same chain_cong [of qs h' h] unused_cong [of ds h' h] objects_cong [of qs h' h] by (auto simp: rep_def)
  have "objects h' xs = objects h xs" "objects h' ys = objects h ys"
    using rep_objects [OF rl(1) b(4)] by auto
  moreover have "objects h' (rev bs) = drop (length qs - length bs) (objects h qs)" if "\<not> forward"
    using that b(2) vs by (simp add: objects_rev take_rev objects_lists(1) rev_swap)
  ultimately have "objects h' (spread forward xs bs ys) = objects h xs @ (if forward then take (length bs) (objects h qs)
        else drop (length qs - length bs) (objects h qs)) @ objects h ys"
    using b(2) vs by (simp add: spread_def)
  moreover have "rep2 l' src h' (spread forward xs bs ys) cs' qs ds"
  proof -
    have "a \<notin> set qs \<union> set ds" if "a \<in> set bs" for a using b(6) rl(3) live [of a] that by auto
    then have "(set (spread forward xs bs ys) \<union> set cs') \<inter> (set qs \<union> set ds) = {}"
      using b(5) rl(3) by (auto simp: spread_def)
    then show ?thesis using b(1) src(1) by (simp add: rep2_def)
  qed
  moreover have "length vs = length qs" using vs by simp
  ultimately show ?thesis
    using contents_rep [OF b(1)] contents_rep [OF src(1)] src(2) b(3) by (intro exI [of _ "length bs"] conjI) auto
qed

lemma rep2_apart:
  assumes "rep2 l src h (xs @ ys) cs qs ds" "set vs = set qs"
  shows "apart h vs xs ys cs"
  using assms chain_live [of h None qs None] unfolding rep2_def apart_def rep_def by auto

lemma rep2_visits:
  assumes "rep2 l src h ps cs qs ds"
  shows "visits m_pNext h qs" "visits m_pPrev h (rev qs)" "m_pFirst src = first_or qs None" "m_pLast src = first_or (rev qs) None"
  using assms visits_forward [of h None qs] visits_backward [of h qs] by (auto simp: rep2_def rep_def)

lemma forward_appends:
  assumes r: "rep2 l src h (xs @ ys) cs qs ds" and c: "list_inserter add place True" "place p xs ys" and f: "length qs \<le> fuel"
    and s: "\<And>k. append_spec op k (objects h (xs @ ys)) (objects h qs) = objects h xs @ take k (objects h qs) @ objects h ys"
  shows "appends op mem l src h (objects h (xs @ ys)) (objects h qs) (traverse m_pNext add mem fuel 0 p (m_pFirst src) l h)"
proof -
  have "rep l h (xs @ ys) cs" using r by (simp add: rep2_def)
  from list_inserter.traverse_adds [OF c(1) this c(2) rep2_visits(1) [OF r] rep2_apart [OF r refl] f, of mem 0]
  obtain ok l' h' where t: "traverse m_pNext add mem fuel 0 p (first_or qs None) l h = Some (Some ok, l', h')"
    "all_added mem 0 qs True xs ys cs h ok l' h'" by blast
  show ?thesis
    unfolding appends_def rep2_visits(3) [OF r] t(1) s objects_lists(1) using added_contents [OF r _ t(2)] by simp
qed

lemma backward_appends:
  assumes r: "rep2 l src h (xs @ ys) cs qs ds" and c: "list_inserter add place False" "place p xs ys" and f: "length qs \<le> fuel"
    and s: "\<And>k. append_spec op k (objects h (xs @ ys)) (objects h qs) = objects h xs @ drop (length qs - k) (objects h qs) @ objects h ys"
  shows "appends op mem l src h (objects h (xs @ ys)) (objects h qs) (traverse m_pPrev add mem fuel 0 p (m_pLast src) l h)"
proof -
  have "rep l h (xs @ ys) cs" using r by (simp add: rep2_def)
  from list_inserter.traverse_adds [OF c(1) this c(2) rep2_visits(2) [OF r] rep2_apart [OF r], of fuel mem 0]
  obtain ok l' h' where t: "traverse m_pPrev add mem fuel 0 p (first_or (rev qs) None) l h = Some (Some ok, l', h')"
    "all_added mem 0 (rev qs) False xs ys cs h ok l' h'" using f by auto
  show ?thesis
    unfolding appends_def rep2_visits(4) [OF r] t(1) s objects_lists(1) using added_contents [OF r _ t(2)] by simp
qed

text \<open>Adding all the objects of another list, to the tail, to the head, after or before a position, puts them
  there in their order and leaves the other list as it was; the loops end after one round for each of
  them. When memory runs out before the \<open>k\<close>-th, the operation returns \<open>FALSE\<close> and the first \<open>k\<close> objects
  (going backward the last \<open>k\<close>) have been added.\<close>

theorem whole_list_is_added:
  assumes r: "rep2 l src h ps cs qs ds" and f: "length qs \<le> fuel"
  shows "appends op mem l src h (objects h ps) (objects h qs) (append_step op mem fuel src l h)"
proof (cases op)
  case Append_tail
  have "rep2 l src h (ps @ []) cs qs ds" using r by simp
  from forward_appends [OF this at_tail.list_inserter_axioms refl f, of Append_tail mem None]
  show ?thesis
    using tail_loop_traverse [of l h ps cs qs mem fuel 0 None] r rep2_apart [of l src h ps "[]" cs qs ds qs] rep2_visits [OF r]
    by (simp add: Append_tail AddTail_list_def rep2_def)
next
  case Append_head
  have "rep2 l src h ([] @ ps) cs qs ds" using r by simp
  from backward_appends [OF this at_head.list_inserter_axioms refl f, of Append_head mem None]
  show ?thesis by (simp add: Append_head AddHead_list_def objects_lists)
next
  case (Append_after i)
  have n: "nth_position i (m_pFirst l) h = Some (if i < length ps then Some (ps ! i) else None)"
    using rep_nth [of l h ps cs] r by (simp add: rep2_def)
  show ?thesis
  proof (cases "i < length ps")
    case True
    then have p: "Some (ps ! i) = last_or (take (Suc i) ps) None" by (simp add: last_or_def take_Suc_conv_app_nth)
    have "rep2 l src h (take (Suc i) ps @ drop (Suc i) ps) cs qs ds" using r by simp
    from forward_appends [OF this after_position.list_inserter_axioms p f, of "Append_after i" mem] True n
    show ?thesis by (simp add: Append_after AddAfter_list_def objects_lists)
  next
    case False
    have "rep2 l src h ([] @ ps) cs qs ds" "None = last_or [] None" using r by simp_all
    from forward_appends [OF this(1) after_position.list_inserter_axioms this(2) f, of "Append_after i" mem] False n
    show ?thesis by (simp add: Append_after AddAfter_list_def objects_lists)
  qed
next
  case (Append_before i)
  have n: "nth_position i (m_pFirst l) h = Some (first_or (drop i ps) None)"
    using rep_nth [of l h ps cs] r by (cases "i < length ps") (simp_all add: rep2_def Cons_nth_drop_Suc [symmetric])
  have "rep2 l src h (take i ps @ drop i ps) cs qs ds" using r by simp
  from backward_appends [OF this before_position.list_inserter_axioms refl f, of "Append_before i" mem] n
  show ?thesis by (simp add: Append_before AddBefore_list_def objects_lists)
qed

lemma self_loop:
  assumes "rep l h qs cs" "k + 1 < length qs" "\<forall>i. mem i \<noteq> None"
  shows "\<exists>l' h' bs cs'. tail_loop mem fuel j (Some (qs ! k)) l h = Some (None, l', h') \<and> rep l' h' (qs @ bs) cs' \<and> length bs = fuel
    \<and> objects h' qs = objects h qs \<and> (\<forall>i < fuel. objects h' (qs @ bs) ! (length qs + i) = objects h' (qs @ bs) ! (k + i))"
  using assms
proof (induction fuel arbitrary: k j qs l h cs)
  case 0
  then show ?case by (intro exI [of _ l] exI [of _ h] exI [of _ "[]"] exI [of _ cs]) simp
next
  case (Suc fuel)
  have k: "k < length qs" "qs = take k qs @ qs ! k # drop (Suc k) qs" using Suc.prems(2) by (simp_all add: id_take_nth_drop)
  have "chain h None (take k qs @ qs ! k # drop (Suc k) qs) None" using rep_parts(1) [OF Suc.prems(1)] k(2) by simp
  then obtain n where n: "node_at h (qs ! k) = Some n" "m_pNext n = first_or (drop (Suc k) qs) None"
    by (auto simp: chain_append)
  moreover have "first_or (drop (Suc k) qs) None = Some (qs ! (k + 1))" using Suc.prems(2) by (simp add: Cons_nth_drop_Suc [symmetric])
  ultimately have next_pos: "GetNextI (Some (qs ! k)) h = Some (Some (m_pObject n), Some (qs ! (k + 1)))"
    by (simp add: GetNextI_def get_node_def)
  obtain q l1 h1 where a: "AddTailI (mem j) (m_pObject n) l h = Some (q, l1, h1)" "added h qs [] cs (m_pObject n) q l1 h1"
    "q = None \<longrightarrow> mem j = None"
    using AddTail_spec [OF Suc.prems(1)] by blast
  then obtain b where b: "q = Some b" using Suc.prems(3) by auto
  obtain cs1 where r1: "rep l1 h1 (qs @ [b]) cs1" "map_option m_pObject (node_at h1 b) = Some (m_pObject n)" "same_objects h h1 (set qs)"
    using a(2) b by (auto simp: added_def)
  have ob: "objects h1 qs = objects h qs" using rep_objects [OF Suc.prems(1) r1(3), of qs] by simp
  obtain l' h' bs cs' where i: "tail_loop mem fuel (j + 1) (Some ((qs @ [b]) ! (k + 1))) l1 h1 = Some (None, l', h')"
    "rep l' h' ((qs @ [b]) @ bs) cs'" "length bs = fuel" "objects h' (qs @ [b]) = objects h1 (qs @ [b])"
    "\<forall>i < fuel. objects h' ((qs @ [b]) @ bs) ! (length (qs @ [b]) + i) = objects h' ((qs @ [b]) @ bs) ! (k + 1 + i)"
    using Suc.IH [OF r1(1), of "k + 1" "j + 1"] Suc.prems(2,3) by auto
  have "objects h' (qs @ b # bs) ! (length qs + m) = objects h' (qs @ b # bs) ! (k + m)" if "m < Suc fuel" for m
  proof (cases m)
    case 0
    have "m_pObject (the (node_at h1 b)) = m_pObject n" using r1(2) by auto
    then show ?thesis using 0 i(4) ob k(1) n(1) by (simp add: nth_append objects_lists)
  next
    case (Suc m')
    then show ?thesis using i(5) [THEN spec, of m'] that by simp
  qed
  moreover have "tail_loop mem (Suc fuel) j (Some (qs ! k)) l h = Some (None, l', h')"
    using next_pos a(1) b i(1) Suc.prems(2) by (simp add: nth_append)
  moreover have "rep l' h' (qs @ b # bs) cs'" "length (b # bs) = Suc fuel" "objects h' qs = objects h qs"
    using i(2,3,4) ob by simp_all
  ultimately show ?case by blast
qed

text \<open>A list of two or more objects that is added to its own tail grows without end: as long as there is memory
  the loop is never through, however many rounds it makes, and after \<open>fuel\<close> rounds the list has that
  many objects more, each a copy of the one as many places before it as the list was long.\<close>

theorem adding_a_list_to_itself_never_ends:
  assumes "rep l h ps cs" "2 \<le> length ps" "\<forall>i. mem i \<noteq> None"
  shows "\<exists>l' h' zs. AddTail_list mem fuel l l h = Some (None, l', h') \<and> list_contents l' h' = Some zs
    \<and> length zs = length ps + fuel \<and> take (length ps) zs = objects h ps \<and> (\<forall>i < fuel. zs ! (length ps + i) = zs ! i)"
proof -
  have "m_pFirst l = Some (ps ! 0)" using rep_parts(6) [OF assms(1)] assms(2) by (cases ps) auto
  moreover obtain l' h' bs cs' where "tail_loop mem fuel 0 (Some (ps ! 0)) l h = Some (None, l', h')" "rep l' h' (ps @ bs) cs'"
    "length bs = fuel" "objects h' ps = objects h ps" "\<forall>i < fuel. objects h' (ps @ bs) ! (length ps + i) = objects h' (ps @ bs) ! (0 + i)"
    using self_loop [OF assms(1), of 0 mem fuel 0] assms(2,3) by auto
  ultimately show ?thesis
    using contents_rep [of l' h' "ps @ bs" cs'] by (auto simp: AddTail_list_def objects_lists)
qed

section \<open>Examples\<close>

lemma example_rep: "rep example_list example_heap [0, 1] []"
  using example_rep2 by (simp add: rep2_def)

theorem whole_list_is_added_witness:
  "appends (Append_after 0) (\<lambda>_. Some (node_of 9 None None)) example_list example_other example_heap
     (objects example_heap [0, 1]) (objects example_heap [2])
     (append_step (Append_after 0) (\<lambda>_. Some (node_of 9 None None)) 3 example_other example_list example_heap)"
proof -
  have "rep2 example_list example_other example_heap [0, 1] [] [2] []" using example_rep2 by simp
  then show ?thesis by (rule whole_list_is_added) simp
qed

theorem adding_a_list_to_itself_never_ends_witness:
  "\<exists>l' h' zs. AddTail_list (\<lambda>_. Some (node_of 9 None None)) 5 example_list example_list example_heap = Some (None, l', h')
     \<and> list_contents l' h' = Some zs \<and> length zs = 7"
  using adding_a_list_to_itself_never_ends [OF example_rep, of "\<lambda>_. Some (node_of 9 None None)" 5] by auto

end
