(* ===== verification/MulDiv.thy ===== *)
theory MulDiv
  imports Prelude
begin

text \<open>
  The arithmetic of baseclasses/arithutil.cpp: a product of two signed 64-bit numbers, plus a third, divided by a
  fourth, with a 128-bit intermediate result held in pieces (\<open>llMulDiv\<close>), and its cheaper relative for 32-bit
  operands (\<open>Int64x32Div32\<close>). Signed numbers are words read with \<open>sint\<close>.
\<close>

unbundle bit_operations_syntax

section \<open>Pieces\<close>

text \<open>The parts of a ULARGE\_INTEGER; \<open>QuadPart\<close> puts it together again.\<close>

definition LowPart :: "u64 \<Rightarrow> u32" where "LowPart x = ucast x"

definition HighPart :: "u64 \<Rightarrow> u32" where "HighPart x = ucast (drop_bit 32 x)"

definition QuadPart :: "u32 \<Rightarrow> u32 \<Rightarrow> u64" where "QuadPart h l = push_bit 32 (ucast h) + ucast l"

definition UInt32x32To64 :: "u32 \<Rightarrow> u32 \<Rightarrow> u64" where "UInt32x32To64 a b = ucast a * ucast b"

definition magnitude :: "'a::len word \<Rightarrow> 'a word" where "magnitude a = (if 0 \<le>s a then a else - a)"

section \<open>llMulDiv\<close>

definition long_multiply :: "u64 \<Rightarrow> u64 \<Rightarrow> u64 \<times> u64" where
  "long_multiply ua ub =
    (let p0 = UInt32x32To64 (LowPart ua) (LowPart ub);
         x = UInt32x32To64 (LowPart ua) (HighPart ub) + UInt32x32To64 (HighPart ua) (LowPart ub) + ucast (HighPart p0)
     in (QuadPart (LowPart x) (LowPart p0), UInt32x32To64 (HighPart ua) (HighPart ub) + ucast (HighPart x)))"

text \<open>The extended addition of \<open>d\<close>, or of \<open>-d\<close> when the product is negative, and the change of sign.\<close>

definition add_halves :: "u64 \<Rightarrow> u64 \<Rightarrow> u64 \<times> u64" where
  "add_halves ud0 p0 =
    (let t = ucast (LowPart ud0) + ucast (LowPart p0);
         t2 = ucast (HighPart t) + (ucast (HighPart ud0) + ucast (HighPart p0))
     in (QuadPart (LowPart t2) (LowPart t), ucast (HighPart t2)))"

definition long_add :: "bool \<Rightarrow> u64 \<Rightarrow> u64 \<times> u64 \<Rightarrow> bool \<times> u64 \<times> u64" where
  "long_add bSign d p =
    (if d = 0 then (bSign, p)
     else
       let ud0 = (if bSign then - d else d);
           ud1 = (if bSign then (if 0 <s d then - 1 else 0) else (if d <s 0 then - 1 else 0));
           (q0, carry) = add_halves ud0 (fst p);
           q1 = snd p + (ud1 + carry)
       in if HighPart q1 <s 0
          then let r0 = NOT q0 + 1 in (\<not> bSign, r0, NOT q1 + (if r0 = 0 then 1 else 0))
          else (bSign, q0, q1))"

fun divide_loop :: "nat \<Rightarrow> u64 \<Rightarrow> u64 \<times> u64 \<times> u64 \<Rightarrow> u64" where
  "divide_loop 0 uc (p0, p1, r) = r"
| "divide_loop (Suc n) uc (p0, p1, r) =
    (let r1 = push_bit 1 r; s1 = push_bit 1 p1;
         q1 = (if HighPart p0 AND 0x80000000 \<noteq> 0 then QuadPart (HighPart s1) (LowPart s1 + 1) else s1);
         q0 = push_bit 1 p0
     in if uc \<le> q1 then divide_loop n uc (q0, q1 - uc, r1 + 1) else divide_loop n uc (q0, q1, r1))"

definition long_divide :: "u64 \<Rightarrow> u64 \<times> u64 \<Rightarrow> u64" where
  "long_divide uc p =
    (if snd p = 0 then fst p div uc
     else if HighPart uc = 0
     then let dividend = QuadPart (LowPart (snd p)) (HighPart (fst p));
              p0 = QuadPart (LowPart (dividend mod ucast (LowPart uc))) (LowPart (fst p))
          in p0 div ucast (LowPart uc) + QuadPart (LowPart (dividend div ucast (LowPart uc))) 0
     else divide_loop 64 uc (fst p, snd p, 0))"

definition llMulDiv :: "u64 \<Rightarrow> u64 \<Rightarrow> u64 \<Rightarrow> u64 \<Rightarrow> u64" where
  "llMulDiv a b c d =
    (let uc = magnitude c;
         (bSign, p) = long_add ((a <s 0) \<noteq> (b <s 0)) d (long_multiply (magnitude a) (magnitude b));
         s = (if c <s 0 then \<not> bSign else bSign)
     in if uc \<le> snd p then (if s then 0x8000000000000000 else 0x7FFFFFFFFFFFFFFF)
        else if s then - long_divide uc p else long_divide uc p)"

section \<open>Int64x32Div32\<close>

text \<open>The quotient is cut off at 32 bits; the remainder comes with it.\<close>

definition EnlargedUnsignedDivide :: "u64 \<Rightarrow> u32 \<Rightarrow> u32 \<times> u32" where
  "EnlargedUnsignedDivide dividend divisor = (ucast (dividend div ucast divisor), ucast (dividend mod ucast divisor))"

definition multiply_32 :: "u64 \<Rightarrow> u32 \<Rightarrow> u64 \<times> u32" where
  "multiply_32 ua ub =
    (let p0 = UInt32x32To64 (LowPart ua) ub
     in if HighPart ua \<noteq> 0
        then let x = UInt32x32To64 (HighPart ua) ub + ucast (HighPart p0)
             in (QuadPart (LowPart x) (LowPart p0), HighPart x)
        else (p0, 0))"

definition add_32 :: "bool \<Rightarrow> u32 \<Rightarrow> u64 \<times> u32 \<Rightarrow> bool \<times> u64 \<times> u32" where
  "add_32 bSign d p =
    (if d = 0 then (bSign, p)
     else
       let ud0 = (if bSign then - scast d else scast d);
           ud1 = (if bSign then (if 0 <s d then - 1 else 0) else (if d <s 0 then - 1 else 0));
           (q0, carry) = add_halves ud0 (fst p);
           q1 = snd p + (ud1 + LowPart carry)
       in if q1 <s 0
          then let r0 = NOT q0 + 1 in (\<not> bSign, r0, NOT q1 + (if r0 = 0 then 1 else 0))
          else (bSign, q0, q1))"

definition divide_32 :: "u32 \<Rightarrow> u64 \<times> u32 \<Rightarrow> u64" where
  "divide_32 uc p =
    (let dividend = QuadPart (snd p) (HighPart (fst p));
         (qh, p0h) = (if ucast uc \<le> dividend then EnlargedUnsignedDivide dividend uc else (0, HighPart (fst p)));
         p0 = QuadPart p0h (LowPart (fst p))
     in QuadPart qh (fst (EnlargedUnsignedDivide p0 uc)))"

definition Int64x32Div32 :: "u64 \<Rightarrow> u32 \<Rightarrow> u32 \<Rightarrow> u32 \<Rightarrow> u64" where
  "Int64x32Div32 a b c d =
    (let uc = magnitude c;
         (bSign, p) = add_32 ((a <s 0) \<noteq> (b <s 0)) d (multiply_32 (magnitude a) (magnitude b));
         s = (if c <s 0 then \<not> bSign else bSign)
     in if uc \<le> snd p then (if s then 0x8000000000000000 else 0x7FFFFFFFFFFFFFFF)
        else if s then - divide_32 uc p else divide_32 uc p)"

section \<open>Reading the pieces\<close>

lemma unat_LowPart: "unat (LowPart x) = unat x mod 2 ^ 32"
  by (simp add: LowPart_def unsigned_ucast_eq take_bit_eq_mod)

lemma unat_HighPart: "unat (HighPart x) = unat x div 2 ^ 32"
proof -
  have "unat x < 2 ^ 64" using unsigned_less [of x] by simp
  then have "unat x div 2 ^ 32 < 2 ^ 32" by (simp add: less_mult_imp_div_less)
  then show ?thesis
    by (simp add: HighPart_def unsigned_ucast_eq drop_bit_eq_div take_bit_eq_mod unat_div_distrib)
qed

lemma unat_small: "unat (x :: u64) < 2 ^ 64" "unat (y :: u32) < 2 ^ 32"
  using unsigned_less [of x] unsigned_less [of y] by simp_all

lemma unat_u64_of_u32 [simp]: "unat (ucast (y :: u32) :: u64) = unat y"
  using unat_small(2) [of y] by (simp add: unsigned_ucast_eq take_bit_eq_mod)

lemma unat_add64: "unat (x + y :: u64) = (unat x + unat y) mod 2 ^ 64"
  by (simp add: unat_word_ariths)

lemma unat_add32: "unat (x + y :: u32) = (unat x + unat y) mod 2 ^ 32"
  by (simp add: unat_word_ariths)

lemma unat_UInt32x32To64: "unat (UInt32x32To64 a b) = unat a * unat b"
proof -
  have "unat a * unat b \<le> (2 ^ 32 - 1) * (2 ^ 32 - 1)"
    using unat_small(2) [of a] unat_small(2) [of b] by (intro mult_le_mono) auto
  then show ?thesis by (simp add: UInt32x32To64_def unat_word_ariths)
qed

lemma unat_QuadPart: "unat (QuadPart h l) = unat h * 2 ^ 32 + unat l"
proof -
  have u: "unat (push_bit 32 (ucast h) :: u64) = unat h * 2 ^ 32"
    using unat_small(2) [of h] by (simp add: push_bit_eq_mult unat_word_ariths)
  have "unat h * 2 ^ 32 + unat l < 2 ^ 64" using unat_small(2) [of h] unat_small(2) [of l] by simp
  then show ?thesis by (simp add: QuadPart_def unat_add64 u)
qed

lemma split64: "unat (x :: u64) = unat (HighPart x) * 2 ^ 32 + unat (LowPart x)"
  by (simp add: unat_HighPart unat_LowPart)

lemmas piece_simps = unat_QuadPart unat_UInt32x32To64 unat_add64

section \<open>The product\<close>

lemma long_multiply_product:
  assumes "unat ua \<le> 2 ^ 63" "unat ub \<le> 2 ^ 63" and p: "long_multiply ua ub = (p0, p1)"
  shows "unat p1 * 2 ^ 64 + unat p0 = unat ua * unat ub"
proof -
  define al ah bl bh where "al = unat (LowPart ua)" and "ah = unat (HighPart ua)" and "bl = unat (LowPart ub)" and "bh = unat (HighPart ub)"
  have le: "al \<le> 2 ^ 32 - 1" "bl \<le> 2 ^ 32 - 1" "ah \<le> 2 ^ 31" "bh \<le> 2 ^ 31"
    using unat_small(2) [of "LowPart ua"] unat_small(2) [of "LowPart ub"] assms(1,2) split64 [of ua] split64 [of ub]
    by (auto simp: al_def bl_def ah_def bh_def)
  have prods: "al * bh \<le> (2 ^ 32 - 1) * 2 ^ 31" "ah * bl \<le> 2 ^ 31 * (2 ^ 32 - 1)" "al * bl \<le> (2 ^ 32 - 1) * (2 ^ 32 - 1)" "ah * bh \<le> 2 ^ 31 * 2 ^ 31"
    using le by (intro mult_le_mono; simp)+
  define q where "q = UInt32x32To64 (LowPart ua) (LowPart ub)"
  define x where "x = UInt32x32To64 (LowPart ua) (HighPart ub) + UInt32x32To64 (HighPart ua) (LowPart ub) + ucast (HighPart q)"
  have q: "unat q = al * bl" by (simp add: q_def piece_simps al_def bl_def)
  have "unat (HighPart q) \<le> 2 ^ 32 - 1" using unat_small(2) [of "HighPart q"] by simp
  then have x: "unat x = al * bh + ah * bl + unat (HighPart q)"
    using prods by (simp add: x_def piece_simps al_def bl_def ah_def bh_def)
  have "unat (HighPart x) \<le> 2 ^ 32 - 1" using unat_small(2) [of "HighPart x"] by simp
  then have p1: "unat p1 = ah * bh + unat (HighPart x)"
    using p prods(4) by (auto simp: long_multiply_def Let_def piece_simps q_def x_def ah_def bh_def)
  have p0: "unat p0 = unat (LowPart x) * 2 ^ 32 + unat (LowPart q)"
    using p by (auto simp: long_multiply_def Let_def piece_simps q_def x_def)
  have u: "unat ua = ah * 2 ^ 32 + al" "unat ub = bh * 2 ^ 32 + bl" using split64 by (auto simp: al_def bl_def ah_def bh_def)
  show ?thesis
    unfolding u p1 p0 using split64 [of q, unfolded q] split64 [of x, unfolded x] by (simp add: algebra_simps)
qed

section \<open>Signs\<close>

lemma negative_sint: "x <s 0 \<longleftrightarrow> sint x < 0" "0 <s x \<longleftrightarrow> 0 < sint x" "0 \<le>s x \<longleftrightarrow> 0 \<le> sint x"
  by (simp_all add: word_sless_alt word_sle_eq)

lemma negative_uint32: "(x :: u32) <s 0 \<longleftrightarrow> 2 ^ 31 \<le> uint x"
  using uint_sint32 [of x] sint_range(3,4) [of x] unfolding negative_sint by (simp split: if_splits)

lemma uint_HighPart: "uint (HighPart x) = uint x div 2 ^ 32"
  using arg_cong [OF unat_HighPart [of x], of int] by (simp add: zdiv_int)

lemma le_div_pos: "0 < m \<Longrightarrow> k \<le> n div m \<longleftrightarrow> k * m \<le> n" for k m n :: int
proof
  assume "0 < m" "k \<le> n div m"
  then have "k * m \<le> n div m * m" by (intro mult_right_mono) auto
  then show "k * m \<le> n" using pos_mod_sign [OF \<open>0 < m\<close>, of n] div_mult_mod_eq [of n m] by linarith
next
  assume "0 < m" "k * m \<le> n"
  then show "k \<le> n div m" using zdiv_mono1 [of "k * m" n m] by simp
qed

lemma negative_high: "HighPart x <s 0 \<longleftrightarrow> 2 ^ 63 \<le> uint x"
  unfolding negative_uint32 uint_HighPart by (subst le_div_pos) simp_all

lemma uint_minus64: "uint (- x :: u64) = (if uint x = 0 then 0 else 2 ^ 64 - uint x)"
  using uint_range(1,2) [of x] mod_pos_pos_trivial [of "2 ^ 64 - uint x" "2 ^ 64"] zmod_zminus1_eq_if [of "uint x" "2 ^ 64"]
  by (simp add: uint_word_ariths)

lemma uint_minus32: "uint (- x :: u32) = (if uint x = 0 then 0 else 2 ^ 32 - uint x)"
  using uint_range(3,4) [of x] mod_pos_pos_trivial [of "2 ^ 32 - uint x" "2 ^ 32"] zmod_zminus1_eq_if [of "uint x" "2 ^ 32"]
  by (simp add: uint_word_ariths)

lemma uint_magnitude64: "uint (magnitude (x :: u64)) = \<bar>sint x\<bar>"
  using uint_sint64 [of x] sint_range(1,2) [of x] by (auto simp: magnitude_def negative_sint uint_minus64 split: if_splits)

lemma uint_magnitude32: "uint (magnitude (x :: u32)) = \<bar>sint x\<bar>"
  using uint_sint32 [of x] sint_range(3,4) [of x] by (auto simp: magnitude_def negative_sint uint_minus32 split: if_splits)

section \<open>The sum\<close>

lemma add_halves_sum:
  assumes "add_halves ud0 p0 = (q0, carry)"
  shows "uint carry * 2 ^ 64 + uint q0 = uint ud0 + uint p0"
proof -
  define t where "t = ucast (LowPart ud0) + (ucast (LowPart p0) :: u64)"
  define t2 where "t2 = ucast (HighPart t) + (ucast (HighPart ud0) + (ucast (HighPart p0) :: u64))"
  have b: "unat (LowPart ud0) < 2 ^ 32" "unat (LowPart p0) < 2 ^ 32" "unat (HighPart ud0) < 2 ^ 32" "unat (HighPart p0) < 2 ^ 32"
    "unat (HighPart t) < 2 ^ 32" by (rule unat_small)+
  have t: "unat t = unat (LowPart ud0) + unat (LowPart p0)" using b by (simp add: t_def unat_add64)
  have t2: "unat t2 = unat (HighPart t) + (unat (HighPart ud0) + unat (HighPart p0))" using b by (simp add: t2_def unat_add64)
  have q: "unat q0 = unat (LowPart t2) * 2 ^ 32 + unat (LowPart t)" "unat carry = unat (HighPart t2)"
    using assms by (auto simp: add_halves_def Let_def piece_simps t_def t2_def)
  have "unat carry * 2 ^ 64 + unat q0 = unat ud0 + unat p0"
    using q t t2 split64 [of t] split64 [of t2] split64 [of ud0] split64 [of p0] by simp
  from arg_cong [OF this, of int] show ?thesis by simp
qed

lemma carry_bit:
  assumes "add_halves ud0 p0 = (q0, carry)"
  shows "carry = 0 \<or> carry = 1"
proof -
  have "uint carry * 2 ^ 64 < 2 * 2 ^ 64"
    using add_halves_sum [OF assms] uint_range(2) [of ud0] uint_range(2) [of p0] uint_range(1) [of q0] by linarith
  then have "uint carry = 0 \<or> uint carry = 1" using uint_range(1) [of carry] by (simp, arith)
  then show ?thesis by (simp add: word_uint_eq_iff)
qed

text \<open>The number that is added, its lower and its upper part.\<close>

lemma addend64:
  assumes "s = (if bSign then - sint (d :: u64) else sint d)"
  shows "uint (if bSign then - d else d) = (if s < 0 then s + 2 ^ 64 else s)"
    "(if bSign then (if 0 <s d then - 1 else 0) else (if d <s 0 then - 1 else 0)) = (if s < 0 then - 1 else (0 :: u64))"
  using assms uint_sint64 [of d] sint_range(1,2) [of d] by (auto simp: negative_sint uint_minus64 split: if_splits)

lemma complement64: "uint (NOT x :: u64) = 2 ^ 64 - 1 - uint x" "uint (NOT x + 1 :: u64) = (if uint x = 0 then 0 else 2 ^ 64 - uint x)"
proof -
  have "NOT x + 1 = - x" by (simp add: not_eq_complement)
  then show "uint (NOT x + 1 :: u64) = (if uint x = 0 then 0 else 2 ^ 64 - uint x)" by (simp only: uint_minus64)
  have "NOT x = - 1 - x" by (simp add: not_eq_complement)
  then show "uint (NOT x :: u64) = 2 ^ 64 - 1 - uint x"
  proof -
    have "(2 ^ 64 - 1 - uint x) mod 2 ^ 64 = 2 ^ 64 - 1 - uint x"
      by (rule mod_pos_pos_trivial) (use uint_range(1,2) [of x] in linarith)+
    then show ?thesis unfolding \<open>NOT x = - 1 - x\<close> by (simp add: uint_word_ariths mod_diff_left_eq)
  qed
qed

text \<open>
  The sum of the product \<open>V\<close>, in two pieces, and the number \<open>s\<close>, in two's complement of \<open>W\<close> times 64 bits: it is the
  sum itself if that is not negative, and otherwise its upper piece has all bits set.
\<close>

lemma signed_sum:
  fixes p0 p1 q0 q1 :: int
  assumes p: "0 \<le> p0" "p0 < 2 ^ 64" "0 \<le> p1" "p1 + 1 < W div 2" and s: "- (2 ^ 63) \<le> s" "s \<le> 2 ^ 63"
    and c: "c = 0 \<or> c = 1" and q0: "0 \<le> q0" "q0 < 2 ^ 64" "c * 2 ^ 64 + q0 = (if s < 0 then s + 2 ^ 64 else s) + p0"
    and q1: "q1 = (p1 + (if s < 0 then - 1 else 0) + c) mod W"
  shows "if 0 \<le> p1 * 2 ^ 64 + p0 + s then q1 * 2 ^ 64 + q0 = p1 * 2 ^ 64 + p0 + s \<and> q1 < W div 2
    else q1 = W - 1 \<and> q0 = p0 + s + 2 ^ 64 \<and> p1 = 0 \<and> s < 0"
proof (cases "0 \<le> p1 + (if s < 0 then - 1 else 0) + c")
  case True
  moreover have "p1 + (if s < 0 then - 1 else 0) + c < W div 2" using p c by (auto split: if_splits)
  moreover have "W div 2 \<le> W" using p by presburger
  ultimately have "q1 = p1 + (if s < 0 then - 1 else 0) + c" "q1 < W div 2" "0 \<le> q1"
    using q1 mod_pos_pos_trivial [of "p1 + (if s < 0 then - 1 else 0) + c" W] by auto
  moreover from this have "q1 * 2 ^ 64 + q0 = p1 * 2 ^ 64 + p0 + s" using q0(3) by (cases "s < 0") (simp_all add: algebra_simps)
  moreover have "0 \<le> q1 * 2 ^ 64 + q0" using \<open>0 \<le> q1\<close> q0(1) by simp
  ultimately show ?thesis by simp
next
  case False
  then have neg: "s < 0" "p1 = 0" "c = 0" using p c by (auto split: if_splits)
  have "(- 1) mod W = W - 1" using p by (intro zmod_minus1) linarith
  then show ?thesis using neg q0 q1 by auto
qed

lemma uint_plus: "uint (x + y :: u64) = (uint x + uint y) mod 2 ^ 64" "uint (z + w :: u32) = (uint z + uint w) mod 2 ^ 32"
  by (simp_all add: uint_word_ariths)

lemma wrapped_pred: "(x + ((if neg then W - 1 else 0) + c) mod W) mod W = (x + (if neg then - 1 else 0) + c) mod W" for x c W :: int
proof -
  have "x + (W - 1 + c) = x - 1 + c + W" by simp
  then have "(x + (W - 1 + c)) mod W = (x - 1 + c) mod W" by (simp only: mod_add_self2)
  then show ?thesis by (cases neg) (simp_all add: mod_add_right_eq)
qed

lemma uint_ones: "uint (if neg then - 1 else (0 :: u64)) = (if neg then 2 ^ 64 - 1 else 0)" "uint (if neg then - 1 else (0 :: u32)) = (if neg then 2 ^ 32 - 1 else 0)"
  by (simp_all add: unsigned_minus_1_eq_mask mask_eq_exp_minus_1)

lemma long_add_sum:
  assumes p: "uint p1 \<le> 2 ^ 62" and s: "s = (if bSign then - sint d else sint d)" and V: "V = uint p1 * 2 ^ 64 + uint p0"
    and r: "long_add bSign d (p0, p1) = (b, r0, r1)"
  shows "uint r1 * 2 ^ 64 + uint r0 = \<bar>V + s\<bar> \<and> b = (bSign \<noteq> (V + s < 0))"
proof (cases "d = 0")
  case True
  have "0 \<le> V" by (simp add: V)
  moreover have "uint r1 * 2 ^ 64 + uint r0 = V" "b = bSign" "s = 0" using r s V True by (auto simp: long_add_def)
  ultimately show ?thesis by simp
next
  case False
  define ud0 where "ud0 = (if bSign then - d else d)"
  obtain q0 carry where h: "add_halves ud0 p0 = (q0, carry)" by fastforce
  define q1 where "q1 = p1 + ((if s < 0 then - 1 else 0) + carry)"
  have sum: "uint carry * 2 ^ 64 + uint q0 = (if s < 0 then s + 2 ^ 64 else s) + uint p0"
    using add_halves_sum [OF h] addend64(1) [OF s] by (simp add: ud0_def)
  have r: "(b, r0, r1) = (if HighPart q1 <s 0 then (\<not> bSign, NOT q0 + 1, NOT q1 + (if NOT q0 + 1 = 0 then 1 else 0)) else (bSign, q0, q1))"
    using r by (simp only: long_add_def Let_def False if_False fst_conv snd_conv ud0_def [symmetric] h prod.case addend64(2) [OF s] q1_def)
  have "uint q1 = (uint p1 + (if s < 0 then - 1 else 0) + uint carry) mod 2 ^ 64"
    by (simp only: q1_def uint_plus uint_ones wrapped_pred)
  moreover have "uint p1 + 1 < 2 ^ 64 div 2" using p by simp
  moreover have "- (2 ^ 63) \<le> s" "s \<le> 2 ^ 63" using s sint_range(1,2) [of d] by auto
  moreover have "uint carry = 0 \<or> uint carry = 1" using carry_bit [OF h] by auto
  ultimately have sum: "if 0 \<le> V + s then uint q1 * 2 ^ 64 + uint q0 = V + s \<and> uint q1 < 2 ^ 64 div 2
    else uint q1 = 2 ^ 64 - 1 \<and> uint q0 = uint p0 + s + 2 ^ 64 \<and> uint p1 = 0 \<and> s < 0"
    unfolding V by (intro signed_sum [OF uint_range(1,2) uint_range(1) _ _ _ _ uint_range(1,2) sum])
  show ?thesis
  proof (cases "0 \<le> V + s")
    case True
    then show ?thesis using sum r by (simp add: negative_high)
  next
    case neg: False
    note n = sum [unfolded if_not_P [OF neg]]
    have "V = uint p0" unfolding V n [THEN conjunct2, THEN conjunct2, THEN conjunct1] by simp
    then have u: "uint q1 = 2 ^ 64 - 1" "uint q0 = V + s + 2 ^ 64"
      using n [THEN conjunct1] n [THEN conjunct2, THEN conjunct1] by (simp_all only:)
    then have q: "uint q0 = V + s + 2 ^ 64" "q1 = - 1" "HighPart q1 <s 0"
      using uint_ones(1) [of True] by (simp_all add: negative_high word_uint_eq_iff)
    have "0 \<le> V" by (simp add: V)
    then have "uint (NOT q0 + 1) = - (V + s)" "NOT q0 + 1 \<noteq> 0"
      using complement64(2) [of q0] q(1) neg sint_range(1,2) [of d] s by (auto simp: word_uint_eq_iff)
    then show ?thesis using r q neg by simp
  qed
qed

section \<open>The quotient\<close>

lemma uint_LowPart: "uint (LowPart x) = uint x mod 2 ^ 32"
  using arg_cong [OF unat_LowPart [of x], of int] by (simp add: zmod_int)

lemma uint_QuadPart: "uint (QuadPart h l) = uint h * 2 ^ 32 + uint l"
  using arg_cong [OF unat_QuadPart [of h l], of int] by simp

lemma uint_ucast32 [simp]: "uint (ucast (y :: u32) :: u64) = uint y"
  using uint_range(3,4) [of y] mod_pos_pos_trivial [of "uint y" "2 ^ 64"] by (simp add: unsigned_ucast_eq take_bit_eq_mod)

lemma high_bit: "HighPart p AND 0x80000000 \<noteq> 0 \<longleftrightarrow> 2 ^ 63 \<le> uint p"
proof -
  have "HighPart p AND 0x80000000 \<noteq> 0 \<longleftrightarrow> bit (HighPart p) 31"
    using and_exp_eq_0_iff_not_bit [of "HighPart p" 31] by simp
  also have "\<dots> \<longleftrightarrow> 2 ^ 31 \<le> uint (HighPart p)"
  proof -
    have "bit (HighPart p) 31 \<longleftrightarrow> bit (uint (HighPart p)) 31" by (simp add: bit_uint_iff)
    then have "bit (HighPart p) 31 \<longleftrightarrow> odd (uint (HighPart p) div 2 ^ 31)" by (simp only: bit_iff_odd)
    moreover have "uint (HighPart p) div 2 ^ 31 = (if 2 ^ 31 \<le> uint (HighPart p) then 1 else 0)"
      using uint_range(3,4) [of "HighPart p"] div_pos_geq [of "2 ^ 31" "uint (HighPart p)"]
      by (auto simp: div_pos_pos_trivial)
    ultimately show ?thesis by simp
  qed
  finally show ?thesis unfolding negative_high [symmetric] negative_uint32 .
qed

text \<open>One turn of the long division: twice the remainder with the next bit of the dividend.\<close>

definition shifted :: "u64 \<Rightarrow> u64 \<Rightarrow> u64" where
  "shifted p0 p1 = (if HighPart p0 AND 0x80000000 \<noteq> 0 then QuadPart (HighPart (push_bit 1 p1)) (LowPart (push_bit 1 p1) + 1)
     else push_bit 1 p1)"

lemma uint_shift: "uint (push_bit 1 (p :: u64)) = 2 * uint p - (if 2 ^ 63 \<le> uint p then 2 ^ 64 else 0)"
proof -
  have "uint (push_bit 1 p) = 2 * uint p mod 2 ^ 64" by (simp add: push_bit_eq_mult uint_word_ariths mult.commute)
  moreover have "2 * uint p mod 2 ^ 64 = (2 * uint p - 2 ^ 64) mod 2 ^ 64" by (simp add: mod_diff_right_eq)
  ultimately show ?thesis
    using uint_range(1,2) [of p] mod_pos_pos_trivial [of "2 * uint p" "2 ^ 64"] mod_pos_pos_trivial [of "2 * uint p - 2 ^ 64" "2 ^ 64"]
    by (cases "2 ^ 63 \<le> uint p") auto
qed

lemma shifted_value:
  assumes "uint p1 < 2 ^ 63"
  shows "uint (shifted p0 p1) = 2 * uint p1 + (if 2 ^ 63 \<le> uint p0 then 1 else 0)"
    "uint (shifted p0 p1) * 2 ^ 64 + uint (push_bit 1 p0) = 2 * (uint p1 * 2 ^ 64 + uint p0)"
proof -
  let ?s = "push_bit 1 p1"
  have s: "uint ?s = 2 * uint p1" using assms uint_shift [of p1] by simp
  have "uint (LowPart ?s) = 2 * uint p1 mod 2 ^ 32" by (simp only: uint_LowPart s)
  then have l: "even (uint (LowPart ?s))" by (simp add: dvd_mod_iff)
  then have "uint (LowPart ?s) + 1 < 2 ^ 32"
    using uint_range(4) [of "LowPart ?s"] by (cases "uint (LowPart ?s) = 2 ^ 32 - 1") auto
  then have "uint (LowPart ?s + 1) = uint (LowPart ?s) + 1"
    using uint_range(3) [of "LowPart ?s"] mod_pos_pos_trivial [of "uint (LowPart ?s) + 1" "2 ^ 32"] by (simp add: uint_word_ariths)
  then have "uint (QuadPart (HighPart ?s) (LowPart ?s + 1)) = uint ?s + 1"
    by (simp add: uint_QuadPart uint_HighPart uint_LowPart)
  then show v: "uint (shifted p0 p1) = 2 * uint p1 + (if 2 ^ 63 \<le> uint p0 then 1 else 0)"
    unfolding shifted_def high_bit using s by simp
  show "uint (shifted p0 p1) * 2 ^ 64 + uint (push_bit 1 p0) = 2 * (uint p1 * 2 ^ 64 + uint p0)"
    unfolding v uint_shift by (simp add: algebra_simps)
qed

text \<open>The long division: \<open>n\<close> turns take in \<open>n\<close> bits of the lower half.\<close>

lemma divide_loop_value:
  assumes "uint p1 < uint uc" "uint uc \<le> 2 ^ 63" "n \<le> 64"
    and "uint r * (uint uc * 2 ^ 64) + (uint p1 * 2 ^ 64 + uint p0) = 2 ^ (64 - n) * N" "0 \<le> N" "N < uint uc * 2 ^ 64"
  shows "uint (divide_loop n uc (p0, p1, r)) = N div uint uc"
  using assms
proof (induction n arbitrary: p0 p1 r)
  case 0
  let ?m = "uint uc"
  have "2 ^ 64 dvd uint p0"
  proof -
    have "uint p0 = 2 ^ 64 * (N - uint r * ?m - uint p1)" using "0.prems"(4) by (simp add: algebra_simps)
    then show ?thesis by simp
  qed
  then have "\<not> 0 < uint p0" using zdvd_not_zless [of "uint p0" "2 ^ 64"] uint_range(2) [of p0] by blast
  then have "uint p0 = 0" using uint_range(1) [of p0] by linarith
  then have "2 ^ 64 * (uint r * ?m + uint p1) = 2 ^ 64 * N" using "0.prems"(4) by (simp add: algebra_simps)
  then have "N = uint r * ?m + uint p1" by simp
  moreover have "0 < ?m" by (rule le_less_trans [OF uint_range(1) "0.prems"(1)])
  moreover have "uint p1 div ?m = 0" using "0.prems"(1) uint_range(1) [of p1] by (intro div_pos_pos_trivial)
  ultimately show ?case by simp
next
  case (Suc n)
  let ?m = "uint uc" and ?q = "shifted p0 p1"
  have p1: "uint p1 < 2 ^ 63" using Suc.prems(1,2) by simp
  note q = shifted_value [OF p1, of p0]
  have pos: "0 < ?m" by (rule le_less_trans [OF uint_range(1) Suc.prems(1)])
  have small: "uint r < 2 ^ 63"
  proof -
    have "0 \<le> uint p1 * 2 ^ 64 + uint p0" by simp
    then have "uint r * (?m * 2 ^ 64) \<le> 2 ^ (64 - Suc n) * N" using Suc.prems(4) by linarith
    then have "uint r * (?m * 2 ^ 64) \<le> 2 ^ (63 - n) * N" by simp
    also have "\<dots> < 2 ^ (63 - n) * (?m * 2 ^ 64)" using Suc.prems(6) by simp
    finally have "uint r < 2 ^ (63 - n)" using pos by (simp add: mult_less_cancel_right)
    also have "(2 :: int) ^ (63 - n) \<le> 2 ^ 63" by (rule power_increasing) simp_all
    finally show ?thesis .
  qed
  then have r: "uint (push_bit 1 r) = 2 * uint r" using uint_shift [of r] by simp
  have twice: "2 * 2 ^ (64 - Suc n) = (2 :: int) ^ (64 - n)" using Suc.prems(3) by (simp add: Suc_diff_Suc flip: power_Suc)
  have step: "2 * uint r * (?m * 2 ^ 64) + (uint ?q * 2 ^ 64 + uint (push_bit 1 p0)) = 2 ^ (64 - n) * N"
    unfolding twice [symmetric] q(2) using Suc.prems(4) by (simp add: algebra_simps)
  have loop: "divide_loop (Suc n) uc (p0, p1, r) = (if uc \<le> ?q then divide_loop n uc (push_bit 1 p0, ?q - uc, push_bit 1 r + 1)
      else divide_loop n uc (push_bit 1 p0, ?q, push_bit 1 r))"
    by (simp add: shifted_def Let_def)
  show ?case
  proof (cases "uc \<le> ?q")
    case True
    have d: "uint (?q - uc) = uint ?q - ?m" using True by (simp add: uint_minus_simple_alt word_le_def)
    have "uint (push_bit 1 r + 1) = 2 * uint r + 1"
      using r small mod_pos_pos_trivial [of "2 * uint r + 1" "2 ^ 64"] uint_range(1) [of r] by (simp add: uint_word_ariths)
    moreover have "uint (?q - uc) < ?m" unfolding d q(1) using Suc.prems(1) by auto
    ultimately have "uint (divide_loop n uc (push_bit 1 p0, ?q - uc, push_bit 1 r + 1)) = N div ?m"
      using Suc.prems(2,3,5,6) step d by (intro Suc.IH) (simp_all add: algebra_simps)
    then show ?thesis using loop True by simp
  next
    case False
    then have "uint (divide_loop n uc (push_bit 1 p0, ?q, push_bit 1 r)) = N div ?m"
      using Suc.prems(2,3,5,6) step r by (intro Suc.IH) (simp_all add: word_le_def)
    then show ?thesis using loop False by simp
  qed
qed

lemma uint_div64: "uint ((x :: u64) div y) = uint x div uint y" "uint (x mod y) = uint x mod uint y"
  by (simp_all add: uint_div_distrib uint_mod_distrib)

text \<open>Schoolbook division by a number of 32 bits: the upper digits first.\<close>

lemma short_division:
  fixes m :: int
  assumes "0 < m" "p1 < m" "0 \<le> p1" "0 \<le> h"
  shows "((p1 * 2 ^ 32 + h) mod m * 2 ^ 32 + l) div m + (p1 * 2 ^ 32 + h) div m * 2 ^ 32 = (p1 * 2 ^ 64 + h * 2 ^ 32 + l) div m"
proof -
  define D where "D = p1 * 2 ^ 32 + h"
  define x y where "x = D div m" and "y = D mod m"
  have "D = x * m + y" by (simp add: x_def y_def)
  moreover have "p1 * 2 ^ 64 + h * 2 ^ 32 + l = 2 ^ 32 * D + l" by (simp add: D_def algebra_simps)
  ultimately have "p1 * 2 ^ 64 + h * 2 ^ 32 + l = (y * 2 ^ 32 + l) + x * 2 ^ 32 * m" by (simp add: algebra_simps)
  moreover have "((y * 2 ^ 32 + l) + x * 2 ^ 32 * m) div m = (y * 2 ^ 32 + l) div m + x * 2 ^ 32" using assms(1) by simp
  ultimately show ?thesis by (simp only: x_def y_def D_def)
qed

lemma long_divide_value:
  assumes "uint p1 < uint uc" "uint uc \<le> 2 ^ 63"
  shows "uint (long_divide uc (p0, p1)) = (uint p1 * 2 ^ 64 + uint p0) div uint uc"
proof -
  let ?N = "uint p1 * 2 ^ 64 + uint p0"
  have N: "0 \<le> ?N" using uint_range(1) [of p0] uint_range(1) [of p1] by simp
  have less: "?N < uint uc * 2 ^ 64"
  proof -
    have "(uint p1 + 1) * 2 ^ 64 \<le> uint uc * 2 ^ 64" using assms(1) by (intro mult_right_mono) auto
    then show ?thesis using uint_range(2) [of p0] by (simp add: algebra_simps)
  qed
  have pos: "0 < uint uc" using assms(1) uint_range(1) [of p1] by linarith
  consider "p1 = 0" | "p1 \<noteq> 0" "HighPart uc = 0" | "p1 \<noteq> 0" "HighPart uc \<noteq> 0" by blast
  then show ?thesis
  proof cases
    case 1
    then show ?thesis by (simp add: long_divide_def uint_div64)
  next
    case 2
    define m where "m = uint uc"
    define D where "D = QuadPart (LowPart p1) (HighPart p0)"
    have "m div 2 ^ 32 = 0" using 2(2) uint_HighPart [of uc] by (simp add: m_def)
    then have m: "m < 2 ^ 32" "uint (LowPart uc) = m" using pos uint_LowPart [of uc] by (simp_all add: m_def zdiv_eq_0_iff mod_pos_pos_trivial)
    have "uint (LowPart p1) = uint p1"
      using uint_LowPart [of p1] assms(1) m(1) uint_range(1) [of p1] mod_pos_pos_trivial [of "uint p1" "2 ^ 32"] by (simp add: m_def)
    then have D: "uint D = uint p1 * 2 ^ 32 + uint (HighPart p0)" by (simp add: D_def uint_QuadPart)
    have "uint D < 2 ^ 32 * m"
    proof -
      have "(uint p1 + 1) * 2 ^ 32 \<le> m * 2 ^ 32" using assms(1) unfolding m_def by (intro mult_right_mono) auto
      then show ?thesis unfolding D using uint_range(4) [of "HighPart p0"] by (simp add: algebra_simps)
    qed
    then have q: "uint D div m < 2 ^ 32" using le_div_pos [of m "2 ^ 32" "uint D"] pos by (simp add: m_def)
    have r: "0 \<le> uint D mod m" "uint D mod m < m" using pos by (simp_all add: m_def)
    have r32: "uint D mod m < 2 ^ 32" using r(2) m(1) by linarith
    have q0: "0 \<le> uint D div m" using pos uint_range(1) [of D] by (simp add: m_def pos_imp_zdiv_nonneg_iff)
    have v: "uint (LowPart (D div ucast (LowPart uc))) = uint D div m" "uint (LowPart (D mod ucast (LowPart uc))) = uint D mod m"
      using mod_pos_pos_trivial [OF q0 q] mod_pos_pos_trivial [OF r(1) r32] by (simp_all only: uint_LowPart [of "D div _"] uint_LowPart [of "D mod _"] uint_div64 uint_ucast32 m(2))
    have p0: "uint p0 = uint (HighPart p0) * 2 ^ 32 + uint (LowPart p0)" by (simp add: uint_HighPart uint_LowPart)
    have sd: "(uint D mod m * 2 ^ 32 + uint (LowPart p0)) div m + uint D div m * 2 ^ 32 = ?N div m"
      using short_division [of m "uint p1" "uint (HighPart p0)" "uint (LowPart p0)"] pos assms(1) uint_range(1) [of p1]
        uint_range(3) [of "HighPart p0"] p0 unfolding D by (simp add: m_def algebra_simps)
    have "?N div m < 2 ^ 64" using le_div_pos [of m "2 ^ 64" ?N] less pos by (simp add: m_def mult.commute)
    moreover have "0 \<le> ?N div m" using N pos by (simp add: m_def pos_imp_zdiv_nonneg_iff)
    ultimately have "uint (long_divide uc (p0, p1)) = ?N div m"
      using 2 v sd mod_pos_pos_trivial [of "?N div m" "2 ^ 64"]
      by (simp add: long_divide_def Let_def D_def [symmetric] uint_word_ariths uint_div64 uint_QuadPart m(2))
    then show ?thesis by (simp add: m_def)
  next
    case 3
    then show ?thesis
      using divide_loop_value [OF assms, of 64 0 p0 ?N] N less by (simp add: long_divide_def)
  qed
qed

section \<open>What the two functions compute\<close>

text \<open>Both end alike: a quotient with a sign, or, if it does not fit 64 bits without one, the extreme value.\<close>

definition muldiv_result :: "int \<Rightarrow> int \<Rightarrow> u64" where
  "muldiv_result n c =
    (let q = quot_toward_zero n c
     in if \<bar>n\<bar> < \<bar>c\<bar> * 2 ^ 64 then word_of_int q else if q < 0 then 0x8000000000000000 else 0x7FFFFFFFFFFFFFFF)"

lemma product_with_sign:
  assumes "uint P = \<bar>a\<bar>" "uint Q = \<bar>b\<bar>"
  shows "(if (a < 0) \<noteq> (b < 0) then - (uint P * uint Q) else uint P * uint Q) = a * b"
  using assms by (auto simp: abs_if)

lemma fits_iff: "0 \<le> l \<Longrightarrow> l < 2 ^ 64 \<Longrightarrow> m \<le> h \<longleftrightarrow> \<not> h * 2 ^ 64 + l < m * 2 ^ 64" for h l m :: int
proof -
  assume l: "0 \<le> l" "l < 2 ^ 64"
  have "m \<le> h \<Longrightarrow> m * 2 ^ 64 \<le> h * 2 ^ 64" by simp
  moreover have "h < m \<Longrightarrow> (h + 1) * 2 ^ 64 \<le> m * 2 ^ 64" by simp
  ultimately show ?thesis using l by (cases "m \<le> h") (auto simp: algebra_simps)
qed

text \<open>The last steps, from the magnitude \<open>N\<close> of the numerator and the sign \<open>s\<close> of the result.\<close>

lemma signed_quotient:
  assumes N: "N = \<bar>n\<bar>" and s: "n \<noteq> 0 \<longrightarrow> s = ((n < 0) \<noteq> (c < 0))" and c: "c \<noteq> 0" and q: "N < \<bar>c\<bar> * 2 ^ 64 \<Longrightarrow> uint q = N div \<bar>c\<bar>"
  shows "(if \<not> N < \<bar>c\<bar> * 2 ^ 64 then (if s then 0x8000000000000000 else 0x7FFFFFFFFFFFFFFF) else if s then - q else q) = muldiv_result n c"
proof (cases "N < \<bar>c\<bar> * 2 ^ 64")
  case True
  then have "q = word_of_int (\<bar>n\<bar> div \<bar>c\<bar>)" using q N by (metis word_of_int_uint)
  then show ?thesis using True N s c
    by (cases "n = 0") (auto simp: muldiv_result_def quot_toward_zero_def Let_def)
next
  case False
  then have big: "\<bar>c\<bar> * 2 ^ 64 \<le> \<bar>n\<bar>" using N by simp
  then have "\<bar>c\<bar> \<le> \<bar>n\<bar>" "n \<noteq> 0" using c by auto
  then have "0 < \<bar>n\<bar> div \<bar>c\<bar>" using c by (simp add: pos_imp_zdiv_pos_iff)
  then show ?thesis using False N s c big \<open>n \<noteq> 0\<close> by (auto simp: muldiv_result_def quot_toward_zero_def Let_def)
qed

lemma llMulDiv_result:
  assumes "sint c \<noteq> 0"
  shows "llMulDiv a b c d = muldiv_result (sint a * sint b + sint d) (sint c)"
proof -
  define n where "n = sint a * sint b + sint d"
  define sg where "sg = ((a <s 0) \<noteq> (b <s 0))"
  obtain p0 p1 where m: "long_multiply (magnitude a) (magnitude b) = (p0, p1)" by fastforce
  obtain bs r0 r1 where r: "long_add sg d (p0, p1) = (bs, r0, r1)" by (metis prod_cases3)
  define s where "s = (if sg then - sint d else sint d)"
  define V where "V = uint p1 * 2 ^ 64 + uint p0"
  have mag: "\<bar>sint a\<bar> \<le> 2 ^ 63" "\<bar>sint b\<bar> \<le> 2 ^ 63" using sint_range(1,2) [of a] sint_range(1,2) [of b] by auto
  then have small: "unat (magnitude a) \<le> 2 ^ 63" "unat (magnitude b) \<le> 2 ^ 63"
    using uint_magnitude64 [of a] uint_magnitude64 [of b] by (simp_all add: unat_eq_nat_uint)
  have V: "V = uint (magnitude a) * uint (magnitude b)"
    using arg_cong [OF long_multiply_product [OF small m], of int] by (simp add: V_def)
  have "V \<le> 2 ^ 63 * 2 ^ 63" unfolding V uint_magnitude64 using mag by (intro mult_mono) auto
  moreover have "uint p1 * 2 ^ 64 \<le> V" by (simp add: V_def)
  ultimately have "uint p1 * 2 ^ 64 \<le> 2 ^ 62 * 2 ^ 64" by simp
  then have p1: "uint p1 \<le> 2 ^ 62" by simp
  note sum = long_add_sum [OF p1 s_def V_def r]
  have n: "n = (if sg then - (V + s) else V + s)"
    using product_with_sign [OF uint_magnitude64 uint_magnitude64, of a b]
    by (auto simp: n_def V s_def sg_def negative_sint)
  define N where "N = uint r1 * 2 ^ 64 + uint r0"
  have N: "N = \<bar>n\<bar>" using sum n by (auto simp: N_def)
  define sr where "sr = (if c <s 0 then \<not> bs else bs)"
  have sr: "n \<noteq> 0 \<longrightarrow> sr = ((n < 0) \<noteq> (sint c < 0))" using sum n by (auto simp: sr_def negative_sint)
  have c: "uint (magnitude c) = \<bar>sint c\<bar>" "\<bar>sint c\<bar> \<le> 2 ^ 63"
    using uint_magnitude64 [of c] sint_range(1,2) [of c] by auto
  have over: "magnitude c \<le> r1 \<longleftrightarrow> \<not> N < \<bar>sint c\<bar> * 2 ^ 64"
    unfolding N_def word_le_def c(1) by (rule fits_iff [OF uint_range(1,2)])
  have q: "uint (long_divide (magnitude c) (r0, r1)) = N div \<bar>sint c\<bar>" if "N < \<bar>sint c\<bar> * 2 ^ 64"
    using long_divide_value [of r1 "magnitude c" r0] over that c by (simp add: N_def word_le_def)
  show ?thesis
    unfolding llMulDiv_def Let_def m sg_def [symmetric] r prod.case snd_conv sr_def [symmetric] over n_def [symmetric]
    by (rule signed_quotient [OF N sr assms q])
qed

section \<open>The 32-bit relative\<close>

lemma multiply_32_product:
  assumes "unat ua \<le> 2 ^ 63" "unat ub \<le> 2 ^ 31" and p: "multiply_32 ua ub = (p0, p1)"
  shows "unat p1 * 2 ^ 64 + unat p0 = unat ua * unat ub"
proof -
  define al ah b where "al = unat (LowPart ua)" and "ah = unat (HighPart ua)" and "b = unat ub"
  have le: "al \<le> 2 ^ 32 - 1" "ah \<le> 2 ^ 31" "b \<le> 2 ^ 31"
    using unat_small(2) [of "LowPart ua"] assms(1,2) split64 [of ua] by (auto simp: al_def ah_def b_def)
  then have prods: "ah * b \<le> 2 ^ 31 * 2 ^ 31" by (intro mult_le_mono)
  define q where "q = UInt32x32To64 (LowPart ua) ub"
  define x where "x = UInt32x32To64 (HighPart ua) ub + ucast (HighPart q)"
  have q: "unat q = al * b" by (simp add: q_def piece_simps al_def b_def)
  have "unat (HighPart q) \<le> 2 ^ 32 - 1" using unat_small(2) [of "HighPart q"] by simp
  then have x: "unat x = ah * b + unat (HighPart q)" using prods by (simp add: x_def piece_simps ah_def b_def)
  have u: "unat ua = ah * 2 ^ 32 + al" using split64 by (auto simp: al_def ah_def)
  show ?thesis
  proof (cases "HighPart ua = 0")
    case True
    then have "p0 = q" "p1 = 0" "ah = 0" using p by (auto simp: multiply_32_def Let_def q_def ah_def)
    then show ?thesis using u q by (simp add: b_def)
  next
    case False
    then have "unat p0 = unat (LowPart x) * 2 ^ 32 + unat (LowPart q)" "p1 = HighPart x"
      using p by (auto simp: multiply_32_def Let_def piece_simps q_def x_def)
    then show ?thesis
      unfolding u b_def [symmetric] using split64 [of q, unfolded q] split64 [of x, unfolded x] by (simp add: algebra_simps)
  qed
qed

lemma uint_scast32: "uint (scast (d :: u32) :: u64) = (if sint d < 0 then sint d + 2 ^ 64 else sint d)" "sint (scast d :: u64) = sint d"
proof -
  show "sint (scast d :: u64) = sint d" by (rule sint_up_scast) (simp add: is_up)
  then show "uint (scast (d :: u32) :: u64) = (if sint d < 0 then sint d + 2 ^ 64 else sint d)"
    using uint_sint64 [of "scast d"] by simp
qed

lemma addend32:
  assumes "s = (if bSign then - sint (d :: u32) else sint d)"
  shows "uint (if bSign then - scast d else (scast d :: u64)) = (if s < 0 then s + 2 ^ 64 else s)"
    "(if bSign then (if 0 <s d then - 1 else 0) else (if d <s 0 then - 1 else 0)) = (if s < 0 then - 1 else (0 :: u32))"
  using assms addend64(1) [of s bSign "scast d"] uint_scast32 [of d] by (auto simp: negative_sint split: if_splits)

lemma complement32: "uint (NOT x :: u32) = 2 ^ 32 - 1 - uint x"
proof -
  have "NOT x = - 1 - x" by (simp add: not_eq_complement)
  moreover have "(2 ^ 32 - 1 - uint x) mod 2 ^ 32 = 2 ^ 32 - 1 - uint x"
    by (rule mod_pos_pos_trivial) (use uint_range(3,4) [of x] in linarith)+
  ultimately show ?thesis by (simp add: uint_word_ariths mod_diff_left_eq)
qed

lemma add_32_sum:
  assumes p: "uint p1 \<le> 2 ^ 30" and s: "s = (if bSign then - sint d else sint d)" and V: "V = uint p1 * 2 ^ 64 + uint p0"
    and r: "add_32 bSign d (p0, p1) = (b, r0, r1)"
  shows "uint r1 * 2 ^ 64 + uint r0 = \<bar>V + s\<bar> \<and> b = (bSign \<noteq> (V + s < 0))"
proof (cases "d = 0")
  case True
  have "0 \<le> V" by (simp add: V)
  moreover have "uint r1 * 2 ^ 64 + uint r0 = V" "b = bSign" "s = 0" using r s V True by (auto simp: add_32_def)
  ultimately show ?thesis by simp
next
  case False
  define ud0 where "ud0 = (if bSign then - scast d else (scast d :: u64))"
  obtain q0 carry where h: "add_halves ud0 p0 = (q0, carry)" by fastforce
  define q1 where "q1 = p1 + ((if s < 0 then - 1 else 0) + LowPart carry)"
  have sum: "uint carry * 2 ^ 64 + uint q0 = (if s < 0 then s + 2 ^ 64 else s) + uint p0"
    using add_halves_sum [OF h] addend32(1) [OF s] by (simp add: ud0_def)
  have r: "(b, r0, r1) = (if q1 <s 0 then (\<not> bSign, NOT q0 + 1, NOT q1 + (if NOT q0 + 1 = 0 then 1 else 0)) else (bSign, q0, q1))"
    using r by (simp only: add_32_def Let_def False if_False fst_conv snd_conv ud0_def [symmetric] h prod.case addend32(2) [OF s] q1_def)
  have "uint (LowPart carry) = uint carry" using carry_bit [OF h] by (auto simp: uint_LowPart)
  then have "uint q1 = (uint p1 + (if s < 0 then - 1 else 0) + uint carry) mod 2 ^ 32"
    by (simp only: q1_def uint_plus uint_ones wrapped_pred)
  moreover have "uint p1 + 1 < 2 ^ 32 div 2" using p by simp
  moreover have "- (2 ^ 63) \<le> s" "s \<le> 2 ^ 63" using s sint_range(3,4) [of d] by auto
  moreover have "uint carry = 0 \<or> uint carry = 1" using carry_bit [OF h] by auto
  ultimately have sum: "if 0 \<le> V + s then uint q1 * 2 ^ 64 + uint q0 = V + s \<and> uint q1 < 2 ^ 32 div 2
    else uint q1 = 2 ^ 32 - 1 \<and> uint q0 = uint p0 + s + 2 ^ 64 \<and> uint p1 = 0 \<and> s < 0"
    unfolding V by (intro signed_sum [OF uint_range(1,2) uint_range(3) _ _ _ _ uint_range(1,2) sum])
  show ?thesis
  proof (cases "0 \<le> V + s")
    case True
    then show ?thesis using sum r by (simp add: negative_uint32)
  next
    case neg: False
    note n = sum [unfolded if_not_P [OF neg]]
    have "V = uint p0" unfolding V n [THEN conjunct2, THEN conjunct2, THEN conjunct1] by simp
    then have u: "uint q1 = 2 ^ 32 - 1" "uint q0 = V + s + 2 ^ 64"
      using n [THEN conjunct1] n [THEN conjunct2, THEN conjunct1] by (simp_all only:)
    then have q: "uint q0 = V + s + 2 ^ 64" "q1 = - 1" using uint_ones(2) [of True] by (simp_all add: word_uint_eq_iff)
    have "0 \<le> V" by (simp add: V)
    then have "uint (NOT q0 + 1) = - (V + s)" "NOT q0 + 1 \<noteq> 0"
      using complement64(2) [of q0] q(1) neg sint_range(3,4) [of d] s by (auto simp: word_uint_eq_iff)
    then show ?thesis using r q neg by simp
  qed
qed

lemma divide_32_value:
  assumes "uint p1 < uint uc" "uint uc \<le> 2 ^ 31"
  shows "uint (divide_32 uc (p0, p1)) = (uint p1 * 2 ^ 64 + uint p0) div uint uc"
proof -
  define m where "m = uint uc"
  define D where "D = QuadPart p1 (HighPart p0)"
  have pos: "0 < m" unfolding m_def by (rule le_less_trans [OF uint_range(3) assms(1)])
  have D: "uint D = uint p1 * 2 ^ 32 + uint (HighPart p0)" by (simp add: D_def uint_QuadPart)
  have "uint D < 2 ^ 32 * m"
  proof -
    have "(uint p1 + 1) * 2 ^ 32 \<le> m * 2 ^ 32" using assms(1) unfolding m_def by (intro mult_right_mono) auto
    then show ?thesis unfolding D using uint_range(4) [of "HighPart p0"] by (simp add: algebra_simps)
  qed
  then have q: "uint D div m < 2 ^ 32" using le_div_pos [of m "2 ^ 32" "uint D"] pos by simp
  have q0: "0 \<le> uint D div m" "0 \<le> uint D mod m" using pos by (simp_all add: pos_imp_zdiv_nonneg_iff)
  have "m < 2 ^ 32" using assms(2) by (simp add: m_def)
  then have r32: "uint D mod m < 2 ^ 32" using pos_mod_bound [OF pos, of "uint D"] by linarith
  define qh p0h where "qh = (if ucast uc \<le> D then fst (EnlargedUnsignedDivide D uc) else 0)"
    and "p0h = (if ucast uc \<le> D then snd (EnlargedUnsignedDivide D uc) else HighPart p0)"
  have enlarged: "uint (fst (EnlargedUnsignedDivide x uc)) = uint x div m mod 2 ^ 32" "uint (snd (EnlargedUnsignedDivide x uc)) = uint x mod m mod 2 ^ 32" for x
    by (simp_all add: EnlargedUnsignedDivide_def m_def unsigned_ucast_eq take_bit_eq_mod uint_div64)
  have h: "uint qh = uint D div m \<and> uint p0h = uint D mod m"
  proof (cases "ucast uc \<le> D")
    case True
    then show ?thesis
      using enlarged [of D] mod_pos_pos_trivial [OF q0(1) q] mod_pos_pos_trivial [OF q0(2) r32] by (simp add: qh_def p0h_def)
  next
    case False
    then have "uint D < m" by (simp add: word_le_def m_def)
    moreover have "uint p1 = 0"
    proof (rule ccontr)
      assume "uint p1 \<noteq> 0"
      then have "1 * 2 ^ 32 \<le> uint p1 * 2 ^ 32" using uint_range(3) [of p1] by (intro mult_right_mono) (linarith, simp)
      then have "2 ^ 32 \<le> uint D" unfolding D using uint_range(3) [of "HighPart p0"] by linarith
      then show False using \<open>uint D < m\<close> assms(2) by (simp add: m_def)
    qed
    ultimately show ?thesis using False D uint_range(1) [of D] by (simp add: qh_def p0h_def div_pos_pos_trivial mod_pos_pos_trivial)
  qed
  have p0: "uint p0 = uint (HighPart p0) * 2 ^ 32 + uint (LowPart p0)" by (simp add: uint_HighPart uint_LowPart)
  define P where "P = QuadPart p0h (LowPart p0)"
  have P: "uint P = uint D mod m * 2 ^ 32 + uint (LowPart p0)" using h by (simp add: P_def uint_QuadPart)
  have "uint P div m < 2 ^ 32"
  proof -
    have "(uint D mod m + 1) * 2 ^ 32 \<le> m * 2 ^ 32" using pos_mod_bound [OF pos, of "uint D"] by (intro mult_right_mono) auto
    then have "uint P < 2 ^ 32 * m" unfolding P using uint_range(4) [of "LowPart p0"] by (simp add: algebra_simps)
    then show ?thesis using le_div_pos [of m "2 ^ 32" "uint P"] pos by simp
  qed
  moreover have "0 \<le> uint P div m" using pos by (simp add: pos_imp_zdiv_nonneg_iff)
  ultimately have l: "uint (fst (EnlargedUnsignedDivide P uc)) = uint P div m" unfolding enlarged by (intro mod_pos_pos_trivial)
  have "divide_32 uc (p0, p1) = QuadPart qh (fst (EnlargedUnsignedDivide P uc))"
    by (simp add: divide_32_def Let_def D_def [symmetric] qh_def p0h_def P_def split: prod.split)
  then show ?thesis
    using short_division [of m "uint p1" "uint (HighPart p0)" "uint (LowPart p0)"] pos assms(1) h l P p0 D
    by (simp add: uint_QuadPart m_def algebra_simps)
qed

lemma Int64x32Div32_result:
  assumes "sint c \<noteq> 0"
  shows "Int64x32Div32 a b c d = muldiv_result (sint a * sint b + sint d) (sint c)"
proof -
  define n where "n = sint a * sint b + sint d"
  define sg where "sg = ((a <s 0) \<noteq> (b <s 0))"
  obtain p0 p1 where m: "multiply_32 (magnitude a) (magnitude b) = (p0, p1)" by fastforce
  obtain bs r0 r1 where r: "add_32 sg d (p0, p1) = (bs, r0, r1)" by (metis prod_cases3)
  define s where "s = (if sg then - sint d else sint d)"
  define V where "V = uint p1 * 2 ^ 64 + uint p0"
  have mag: "\<bar>sint a\<bar> \<le> 2 ^ 63" "\<bar>sint b\<bar> \<le> 2 ^ 31" using sint_range(1,2) [of a] sint_range(3,4) [of b] by auto
  then have small: "unat (magnitude a) \<le> 2 ^ 63" "unat (magnitude b) \<le> 2 ^ 31"
    using uint_magnitude64 [of a] uint_magnitude32 [of b] by (simp_all add: unat_eq_nat_uint)
  have V: "V = uint (magnitude a) * uint (magnitude b)"
    using arg_cong [OF multiply_32_product [OF small m], of int] by (simp add: V_def)
  have "V \<le> 2 ^ 63 * 2 ^ 31" unfolding V uint_magnitude64 uint_magnitude32 using mag by (intro mult_mono) auto
  moreover have "uint p1 * 2 ^ 64 \<le> V" by (simp add: V_def)
  ultimately have "uint p1 * 2 ^ 64 \<le> 2 ^ 30 * 2 ^ 64" by simp
  then have p1: "uint p1 \<le> 2 ^ 30" by simp
  note sum = add_32_sum [OF p1 s_def V_def r]
  have n: "n = (if sg then - (V + s) else V + s)"
    using product_with_sign [OF uint_magnitude64 uint_magnitude32, of a b] by (auto simp: n_def V s_def sg_def negative_sint)
  define N where "N = uint r1 * 2 ^ 64 + uint r0"
  have N: "N = \<bar>n\<bar>" using sum n by (auto simp: N_def)
  define sr where "sr = (if c <s 0 then \<not> bs else bs)"
  have sr: "n \<noteq> 0 \<longrightarrow> sr = ((n < 0) \<noteq> (sint c < 0))" using sum n by (auto simp: sr_def negative_sint)
  have c: "uint (magnitude c) = \<bar>sint c\<bar>" "\<bar>sint c\<bar> \<le> 2 ^ 31"
    using uint_magnitude32 [of c] sint_range(3,4) [of c] by auto
  have over: "magnitude c \<le> r1 \<longleftrightarrow> \<not> N < \<bar>sint c\<bar> * 2 ^ 64"
    unfolding N_def word_le_def c(1) by (rule fits_iff [OF uint_range(1,2)])
  have q: "uint (divide_32 (magnitude c) (r0, r1)) = N div \<bar>sint c\<bar>" if "N < \<bar>sint c\<bar> * 2 ^ 64"
    using divide_32_value [of r1 "magnitude c" r0] over that c by (simp add: N_def word_le_def)
  show ?thesis
    unfolding Int64x32Div32_def Let_def m sg_def [symmetric] r prod.case snd_conv sr_def [symmetric] over n_def [symmetric]
    by (rule signed_quotient [OF N sr assms q])
qed

section \<open>Properties\<close>

lemma sint_word64: "- (2 ^ 63) \<le> k \<Longrightarrow> k < 2 ^ 63 \<Longrightarrow> sint (word_of_int k :: u64) = k"
  by (simp add: sint_sbintrunc' signed_take_bit_int_eq_self)

text \<open>The quotient fits as soon as it is a signed 64-bit number.\<close>

lemma quotient_fits:
  assumes "c \<noteq> 0" "- (2 ^ 63) \<le> quot_toward_zero n c" "quot_toward_zero n c < 2 ^ 63"
  shows "\<bar>n\<bar> < \<bar>c\<bar> * 2 ^ 64"
proof (rule ccontr)
  assume "\<not> \<bar>n\<bar> < \<bar>c\<bar> * 2 ^ 64"
  then have "2 ^ 64 * \<bar>c\<bar> \<le> \<bar>n\<bar>" by (simp add: mult.commute)
  then have "2 ^ 64 \<le> \<bar>n\<bar> div \<bar>c\<bar>" using assms(1) by (subst le_div_pos) simp_all
  then show False using assms(2,3) by (auto simp: quot_toward_zero_def split: if_splits)
qed

text \<open>C29: \<open>llMulDiv\<close> multiplies in pieces, adds with a carry, and divides bit by bit, in 128 bits; what it computes
  is \<open>(a * b + d) / c\<close> in whole numbers, with C's division, for all signed 64-bit operands whose result is
  a signed 64-bit number.\<close>

theorem llMulDiv_divides_the_product:
  assumes "sint c \<noteq> 0" and "q = quot_toward_zero (sint a * sint b + sint d) (sint c)" and "- (2 ^ 63) \<le> q" and "q < 2 ^ 63"
  shows "sint (llMulDiv a b c d) = q"
  using llMulDiv_result [OF assms(1), of a b d] quotient_fits [OF assms(1), of "sint a * sint b + sint d"] assms(2-4) sint_word64 [of q]
  by (simp add: muldiv_result_def Let_def)

theorem llMulDiv_divides_the_product_witness:
  "sint (llMulDiv 0x7FFFFFFFFFFFFFFF (- 10000000) (- 10000001) 5) = 9223371114517664355"
  by (rule llMulDiv_divides_the_product) (simp_all add: quot_toward_zero_def)

text \<open>C30: The test that is there to catch an overflow of the result misses half of them: only a quotient that needs
  more than 64 bits without its sign gives the extreme value of the right sign; one from \<open>2 ^ 63\<close> on comes
  back with the wrong sign, as the number \<open>2 ^ 64\<close> below it (or above it).\<close>

theorem overflow_may_change_the_sign:
  assumes "sint c \<noteq> 0" and "q = quot_toward_zero (sint a * sint b + sint d) (sint c)"
  shows "(2 ^ 63 \<le> q \<and> q < 2 ^ 64 \<longrightarrow> sint (llMulDiv a b c d) = q - 2 ^ 64)
    \<and> (- (2 ^ 64) < q \<and> q < - (2 ^ 63) \<longrightarrow> sint (llMulDiv a b c d) = q + 2 ^ 64)
    \<and> (2 ^ 64 \<le> q \<longrightarrow> sint (llMulDiv a b c d) = 2 ^ 63 - 1) \<and> (q \<le> - (2 ^ 64) \<longrightarrow> sint (llMulDiv a b c d) = - (2 ^ 63))"
proof -
  define n where "n = sint a * sint b + sint d"
  have r: "llMulDiv a b c d = muldiv_result n (sint c)" using llMulDiv_result [OF assms(1)] by (simp add: n_def)
  have aq: "\<bar>q\<bar> = \<bar>n\<bar> div \<bar>sint c\<bar>"
    using assms by (auto simp: n_def quot_toward_zero_def pos_imp_zdiv_nonneg_iff)
  have "2 ^ 64 \<le> \<bar>q\<bar> \<longleftrightarrow> 2 ^ 64 * \<bar>sint c\<bar> \<le> \<bar>n\<bar>" unfolding aq using assms(1) by (intro le_div_pos) simp
  then have fits: "\<bar>n\<bar> < \<bar>sint c\<bar> * 2 ^ 64 \<longleftrightarrow> \<bar>q\<bar> < 2 ^ 64" by (simp add: mult.commute not_le [symmetric])
  have w: "word_of_int q = (word_of_int (q - 2 ^ 64) :: u64)" "word_of_int q = (word_of_int (q + 2 ^ 64) :: u64)"
    by (simp_all add: word_of_int_eq_iff take_bit_eq_mod)
  have up: "sint (word_of_int q :: u64) = q - 2 ^ 64" if "2 ^ 63 \<le> q" "q < 2 ^ 64"
    unfolding w(1) by (rule sint_word64) (use that in simp_all)
  have down: "sint (word_of_int q :: u64) = q + 2 ^ 64" if "- (2 ^ 64) < q" "q < - (2 ^ 63)"
    unfolding w(2) by (rule sint_word64) (use that in simp_all)
  show ?thesis
    using fits up down unfolding r muldiv_result_def Let_def n_def assms(2) [symmetric] by auto
qed

theorem overflow_may_change_the_sign_witness:
  "sint (llMulDiv 0x4000000000000000 2 1 0) = - (2 ^ 63)"
  using overflow_may_change_the_sign [of 1 "2 ^ 63" "0x4000000000000000" 2 0] by (simp add: quot_toward_zero_def)

text \<open>The cheaper routine for 32-bit operands, which uses a shorter product and two divisions with 32-bit results,
  agrees with the general one, the cases without a proper result included.\<close>

theorem Int64x32Div32_is_llMulDiv:
  assumes "c \<noteq> 0"
  shows "Int64x32Div32 a b c d = llMulDiv a (scast b) (scast c) (scast d)"
proof -
  have "sint c \<noteq> 0" using assms uint_sint32 [of c] by (auto simp: word_uint_eq_iff)
  then show ?thesis using Int64x32Div32_result [of c a b d] llMulDiv_result [of "scast c" a "scast b" "scast d"] by (simp add: uint_scast32(2))
qed

theorem Int64x32Div32_is_llMulDiv_witness:
  "Int64x32Div32 (- 7) 3 2 (- 1) = llMulDiv (- 7) (scast (3 :: u32)) (scast (2 :: u32)) (scast (- 1 :: u32))"
  by (rule Int64x32Div32_is_llMulDiv) simp

end
