(* ===== verification/DynamicPin.thy ===== *)
theory DynamicPin
  imports Prelude
begin

text \<open>
  Output pins that can be blocked and reconnected while they stream (CDynamicOutputPin in baseclasses/amfilter.cpp and
  amfilter.h): an application blocks the pin, at once or as soon as the streaming threads have let go of it, and streaming
  threads wait while it is blocked. Every operation runs under the lock of the block state and is one step; threads
  are interleaved by a step relation.
\<close>

unbundle bit_operations_syntax

section \<open>State\<close>

text \<open>An event is one the application has handed over or the one a thread makes for its own call of \<open>Block\<close>. The field
  \<open>signalled\<close> holds the events that are set; a handle and its duplicate name the same event.\<close>

datatype event = Client nat | Own nat

datatype block_state = NOT_BLOCKED | PENDING | BLOCKED

record dyn_pin =
  m_BlockState :: block_state
  unblock_event :: bool
  m_hNotifyCallerPinBlockedEvent :: "event option"
  m_dwBlockCallerThreadID :: nat
  m_dwNumOutstandingOutputPinUsers :: u32
  stop_event :: "bool option"
  m_pGraphConfig :: bool
  m_bCanReconnectWhenActive :: bool
  signalled :: "event set"

text \<open>The constructor, with the code of a failure to create the event.\<close>

definition new_dyn_pin :: "bool \<Rightarrow> hresult \<Rightarrow> hresult option \<times> dyn_pin" where
  "new_dyn_pin created err =
    (let p = \<lparr>m_BlockState = NOT_BLOCKED, unblock_event = False, m_hNotifyCallerPinBlockedEvent = None, m_dwBlockCallerThreadID = 0,
              m_dwNumOutstandingOutputPinUsers = 0, stop_event = None, m_pGraphConfig = False, m_bCanReconnectWhenActive = False, signalled = {}\<rparr>
     in if created then (None, p\<lparr>unblock_event := True, m_bCanReconnectWhenActive := True\<rparr>)
        else (if failed err then Some err else None, p))"

definition StreamingThreadUsingOutputPin :: "dyn_pin \<Rightarrow> bool" where
  "StreamingThreadUsingOutputPin p \<longleftrightarrow> 0 < m_dwNumOutstandingOutputPinUsers p"

section \<open>Blocking\<close>

definition set_notify :: "dyn_pin \<Rightarrow> dyn_pin" where
  "set_notify p = (case m_hNotifyCallerPinBlockedEvent p of None \<Rightarrow> p | Some e \<Rightarrow> p\<lparr>signalled := insert e (signalled p)\<rparr>)"

definition BlockOutputPin :: "dyn_pin \<Rightarrow> dyn_pin" where
  "BlockOutputPin p = (set_notify (p\<lparr>unblock_event := False\<rparr>))\<lparr>m_BlockState := BLOCKED, m_hNotifyCallerPinBlockedEvent := None\<rparr>"

text \<open>\<open>dup\<close> is whether the handle could be duplicated and \<open>err\<close> the code of a failed call of the system.\<close>

definition AsynchronousBlockOutputPin :: "nat \<Rightarrow> event \<Rightarrow> bool \<Rightarrow> hresult \<Rightarrow> dyn_pin \<Rightarrow> hresult \<times> dyn_pin" where
  "AsynchronousBlockOutputPin tid ev dup err p =
    (if m_BlockState p \<noteq> NOT_BLOCKED
     then (if m_dwBlockCallerThreadID p = tid then VFW_E_PIN_ALREADY_BLOCKED_ON_THIS_THREAD else VFW_E_PIN_ALREADY_BLOCKED, p)
     else if \<not> dup then (err, p)
     else let p1 = p\<lparr>m_hNotifyCallerPinBlockedEvent := Some ev, m_BlockState := PENDING, m_dwBlockCallerThreadID := tid\<rparr>
          in (S_OK, if \<not> StreamingThreadUsingOutputPin p1 then BlockOutputPin p1 else p1))"

definition UnblockOutputPin :: "dyn_pin \<Rightarrow> hresult \<times> dyn_pin" where
  "UnblockOutputPin p =
    (if m_BlockState p = NOT_BLOCKED then (S_FALSE, p)
     else (S_OK, (set_notify (p\<lparr>unblock_event := True\<rparr>))
            \<lparr>m_BlockState := NOT_BLOCKED, m_dwBlockCallerThreadID := 0, m_hNotifyCallerPinBlockedEvent := None\<rparr>))"

text \<open>A call of \<open>Block\<close> returns, or waits for its own event; \<open>WaitEvent\<close> then gives its result.\<close>

datatype block_result = Returned hresult | Waiting_for event

definition WaitEvent :: "wait_result \<Rightarrow> hresult \<Rightarrow> hresult" where
  "WaitEvent w err = (case w of WAIT_OBJECT_0 \<Rightarrow> S_OK | WAIT_FAILED \<Rightarrow> err | _ \<Rightarrow> E_UNEXPECTED)"

definition SynchronousBlockOutputPin :: "nat \<Rightarrow> bool \<Rightarrow> bool \<Rightarrow> hresult \<Rightarrow> dyn_pin \<Rightarrow> block_result \<times> dyn_pin" where
  "SynchronousBlockOutputPin tid created dup err p =
    (if \<not> created then (Returned err, p)
     else let (hr, p1) = AsynchronousBlockOutputPin tid (Own tid) dup err (p\<lparr>signalled := signalled p - {Own tid}\<rparr>)
          in if failed hr then (Returned hr, p1) else (Waiting_for (Own tid), p1))"

definition AM_PIN_FLOW_CONTROL_BLOCK :: u32 where "AM_PIN_FLOW_CONTROL_BLOCK = 1"

definition Block :: "nat \<Rightarrow> u32 \<Rightarrow> event option \<Rightarrow> bool \<Rightarrow> bool \<Rightarrow> bool \<Rightarrow> hresult \<Rightarrow> dyn_pin \<Rightarrow> block_result \<times> dyn_pin" where
  "Block tid dwBlockFlags hEvent reset created dup err p =
    (let block = (dwBlockFlags AND AM_PIN_FLOW_CONTROL_BLOCK \<noteq> 0)
     in if dwBlockFlags AND NOT AM_PIN_FLOW_CONTROL_BLOCK \<noteq> 0 then (Returned E_INVALIDARG, p)
        else if block \<and> hEvent \<noteq> None \<and> \<not> reset then (Returned err, p)
        else
          let p1 = (case hEvent of Some ev \<Rightarrow> if block then p\<lparr>signalled := signalled p - {ev}\<rparr> else p | None \<Rightarrow> p)
          in if dwBlockFlags = 0 \<and> hEvent \<noteq> None then (Returned E_INVALIDARG, p1)
             else if block
             then (case hEvent of
                     None \<Rightarrow> SynchronousBlockOutputPin tid created dup err p1
                   | Some ev \<Rightarrow> (let (hr, p2) = AsynchronousBlockOutputPin tid ev dup err p1 in (Returned (if failed hr then hr else S_OK), p2)))
             else let (hr, p2) = UnblockOutputPin p1 in (Returned (if failed hr then hr else S_OK), p2))"

section \<open>Using the pin\<close>

text \<open>One round of the loop in \<open>StartUsingOutputPin\<close> under the lock: a result, or the thread waits for one of two events.\<close>

definition start_check :: "dyn_pin \<Rightarrow> hresult option \<times> dyn_pin" where
  "start_check p =
    (if m_BlockState p = BLOCKED then (None, p)
     else (Some S_OK, p\<lparr>m_dwNumOutstandingOutputPinUsers := m_dwNumOutstandingOutputPinUsers p + 1\<rparr>))"

datatype two_events = Unblock_fired | Stop_fired | Two_failed | Two_other

definition start_woken :: "two_events \<Rightarrow> hresult \<Rightarrow> dyn_pin \<Rightarrow> hresult option \<times> dyn_pin" where
  "start_woken w err p =
    (case w of Unblock_fired \<Rightarrow> start_check p | Stop_fired \<Rightarrow> (Some VFW_E_STATE_CHANGED, p) | Two_failed \<Rightarrow> (Some err, p) | Two_other \<Rightarrow> (Some E_UNEXPECTED, p))"

definition StopUsingOutputPin :: "dyn_pin \<Rightarrow> dyn_pin" where
  "StopUsingOutputPin p =
    (let p1 = p\<lparr>m_dwNumOutstandingOutputPinUsers := m_dwNumOutstandingOutputPinUsers p - 1\<rparr>
     in if m_dwNumOutstandingOutputPinUsers p1 = 0 \<and> m_BlockState p1 \<noteq> NOT_BLOCKED then BlockOutputPin p1 else p1)"

section \<open>Stopping\<close>

definition SetConfigInfo :: "bool \<Rightarrow> bool option \<Rightarrow> dyn_pin \<Rightarrow> dyn_pin" where
  "SetConfigInfo pGraphConfig hStopEvent p = p\<lparr>m_pGraphConfig := pGraphConfig, stop_event := hStopEvent\<rparr>"

definition set_stop :: "bool \<Rightarrow> dyn_pin \<Rightarrow> dyn_pin" where
  "set_stop b p = p\<lparr>stop_event := map_option (\<lambda>_. b) (stop_event p)\<rparr>"

text \<open>\<open>base\<close> is the result of the base class's function, which is called last.\<close>

definition Dyn_Active :: "hresult \<Rightarrow> dyn_pin \<Rightarrow> hresult \<times> dyn_pin" where
  "Dyn_Active base p = (if stop_event p = None \<or> \<not> m_pGraphConfig p then (E_FAIL, p) else (base, set_stop False p))"

definition Dyn_Inactive :: "hresult \<Rightarrow> dyn_pin \<Rightarrow> hresult \<times> dyn_pin" where
  "Dyn_Inactive base p = (base, set_stop True p)"

definition Dyn_DeliverBeginFlush :: "hresult \<Rightarrow> dyn_pin \<Rightarrow> hresult \<times> dyn_pin" where
  "Dyn_DeliverBeginFlush base p = (base, set_stop True p)"

definition Dyn_DeliverEndFlush :: "hresult \<Rightarrow> dyn_pin \<Rightarrow> hresult \<times> dyn_pin" where
  "Dyn_DeliverEndFlush base p = (base, set_stop False p)"

section \<open>Changing the type\<close>

text \<open>What the calls of \<open>ChangeOutputFormat\<close> answer, and the calls in their order.\<close>

datatype change_call =
    Query_interface | Dynamic_query_accept | Receive_connection | Set_media_type | Get_requirements | Decommit_allocator
  | Decide_size u32 | Commit_allocator | Notify_allocator | Reconnect | New_segment

record change_answers =
  a_connected :: bool
  a_pin_connection :: bool
  a_accept :: hresult
  a_receive :: hresult
  a_settype :: hresult
  a_memory_transport :: bool
  a_align :: u32
  a_decommit :: hresult
  a_size :: hresult
  a_commit :: hresult
  a_notify :: hresult
  a_reconnect :: hresult
  a_segment :: hresult

text \<open>Calls in a row, up to the first that fails.\<close>

fun in_turn :: "(change_call \<times> hresult) list \<Rightarrow> hresult \<times> change_call list" where
  "in_turn [] = (S_OK, [])"
| "in_turn ((k, hr) # ks) = (if failed hr then (hr, [k]) else (fst (in_turn ks), k # snd (in_turn ks)))"

definition ChangeMediaTypeHelper :: "change_answers \<Rightarrow> hresult \<times> change_call list" where
  "ChangeMediaTypeHelper a =
    in_turn ([(Receive_connection, a_receive a), (Set_media_type, a_settype a)] @
      (if a_memory_transport a
       then [(Get_requirements, S_OK), (Decommit_allocator, a_decommit a), (Decide_size (if a_align a = 0 then 1 else a_align a), a_size a),
             (Commit_allocator, a_commit a), (Notify_allocator, a_notify a)]
       else []))"

definition DynamicReconnect :: "change_answers \<Rightarrow> dyn_pin \<Rightarrow> hresult \<times> change_call list" where
  "DynamicReconnect a p = (if \<not> m_pGraphConfig p \<or> stop_event p = None then (E_FAIL, []) else (a_reconnect a, [Reconnect]))"

definition ChangeMediaType :: "change_answers \<Rightarrow> dyn_pin \<Rightarrow> hresult \<times> change_call list" where
  "ChangeMediaType a p =
    (if \<not> a_connected a then (VFW_E_NOT_CONNECTED, [])
     else if a_pin_connection a \<and> a_accept a = S_OK
     then let (hr, ks) = ChangeMediaTypeHelper a in (if failed hr then hr else S_OK, [Query_interface, Dynamic_query_accept] @ ks)
     else let (hr, ks) = DynamicReconnect a p
          in (hr, Query_interface # (if a_pin_connection a then [Dynamic_query_accept] else []) @ ks))"

definition ChangeOutputFormat :: "change_answers \<Rightarrow> dyn_pin \<Rightarrow> hresult \<times> change_call list" where
  "ChangeOutputFormat a p =
    (let (hr, ks) = ChangeMediaType a p
     in if failed hr then (hr, ks) else (if failed (a_segment a) then a_segment a else S_OK, ks @ [New_segment]))"

text \<open>The allocator is committed again when the pin is connected while the filter is active.\<close>

definition Dyn_CompleteConnect :: "hresult \<Rightarrow> bool \<Rightarrow> bool \<Rightarrow> hresult \<Rightarrow> hresult \<times> change_call list" where
  "Dyn_CompleteConnect base stopped allocator commit =
    (if succeeded base \<and> \<not> stopped \<and> allocator then (commit, [Commit_allocator]) else (base, []))"

section \<open>Threads\<close>

text \<open>
  What each thread is doing with the pin: nothing, using it, waiting to use it, about to look again after the unblock
  event, or waiting in \<open>Block\<close>. Thread numbers are 32-bit and not 0. A thread that uses the pin does not ask for it again.
\<close>

datatype activity = Idle | Uses | Waits | Woken | Blocks

record dyn_system =
  pin :: dyn_pin
  threads :: "nat \<Rightarrow> activity"

definition ready_pin :: dyn_pin where "ready_pin = SetConfigInfo True (Some False) (snd (new_dyn_pin True S_OK))"

inductive dyn_step :: "dyn_system \<Rightarrow> dyn_system \<Rightarrow> bool" where
  block_returns: "threads s t = Idle \<Longrightarrow> 0 < t \<Longrightarrow> t < 2 ^ 32 \<Longrightarrow> failed err \<Longrightarrow>
    Block t flags (map_option Client h) reset created dup err (pin s) = (Returned hr, p) \<Longrightarrow> dyn_step s (s\<lparr>pin := p\<rparr>)"
| block_waits: "threads s t = Idle \<Longrightarrow> 0 < t \<Longrightarrow> t < 2 ^ 32 \<Longrightarrow> failed err \<Longrightarrow>
    Block t flags (map_option Client h) reset created dup err (pin s) = (Waiting_for ev, p) \<Longrightarrow>
    dyn_step s (s\<lparr>pin := p, threads := (threads s)(t := Blocks)\<rparr>)"
| block_done: "threads s t = Blocks \<Longrightarrow> Own t \<in> signalled (pin s) \<Longrightarrow>
    dyn_step s (s\<lparr>pin := (pin s)\<lparr>signalled := signalled (pin s) - {Own t}\<rparr>, threads := (threads s)(t := Idle)\<rparr>)"
| start_using: "threads s t = Idle \<Longrightarrow> 0 < t \<Longrightarrow> t < 2 ^ 32 \<Longrightarrow> start_check (pin s) = (r, p) \<Longrightarrow>
    dyn_step s (s\<lparr>pin := p, threads := (threads s)(t := if r = None then Waits else Uses)\<rparr>)"
| wakes: "threads s t = Waits \<Longrightarrow> unblock_event (pin s) \<Longrightarrow> dyn_step s (s\<lparr>threads := (threads s)(t := Woken)\<rparr>)"
| looks_again: "threads s t = Woken \<Longrightarrow> start_woken Unblock_fired err (pin s) = (r, p) \<Longrightarrow>
    dyn_step s (s\<lparr>pin := p, threads := (threads s)(t := if r = None then Waits else Uses)\<rparr>)"
| stopped: "threads s t = Waits \<Longrightarrow> \<not> unblock_event (pin s) \<Longrightarrow> stop_event (pin s) = Some True \<Longrightarrow> dyn_step s (s\<lparr>threads := (threads s)(t := Idle)\<rparr>)"
| stop_using: "threads s t = Uses \<Longrightarrow> dyn_step s (s\<lparr>pin := StopUsingOutputPin (pin s), threads := (threads s)(t := Idle)\<rparr>)"
| stop_changes: "dyn_step s (s\<lparr>pin := set_stop b (pin s)\<rparr>)"
| client_event: "dyn_step s (s\<lparr>pin := (pin s)\<lparr>signalled := signalled (pin s) - {Client e}\<rparr>\<rparr>)"

inductive dyn_reachable :: "dyn_system \<Rightarrow> bool" where
  start: "dyn_reachable \<lparr>pin = ready_pin, threads = (\<lambda>_. Idle)\<rparr>"
| step: "dyn_reachable s \<Longrightarrow> dyn_step s s' \<Longrightarrow> dyn_reachable s'"

inductive_cases dyn_stepE: "dyn_step s s'"

section \<open>The invariant\<close>

text \<open>What \<open>AssertValid\<close> of the source checks in a debug build.\<close>

definition AssertValid :: "dyn_pin \<Rightarrow> bool" where
  "AssertValid p \<longleftrightarrow> stop_event p \<noteq> None \<and> m_pGraphConfig p \<and>
     ((m_hNotifyCallerPinBlockedEvent p = None \<and> m_BlockState p \<noteq> PENDING) \<or> (m_hNotifyCallerPinBlockedEvent p \<noteq> None \<and> m_BlockState p = PENDING)) \<and>
     (m_dwBlockCallerThreadID p = 0 \<or> m_BlockState p \<noteq> NOT_BLOCKED) \<and>
     ((m_dwNumOutstandingOutputPinUsers p \<noteq> 0 \<and> m_BlockState p \<noteq> BLOCKED) \<or>
      (m_dwNumOutstandingOutputPinUsers p = 0 \<and> m_BlockState p \<noteq> NOT_BLOCKED) \<or>
      (m_dwNumOutstandingOutputPinUsers p = 0 \<and> m_BlockState p = NOT_BLOCKED))"

text \<open>More than that: a block is pending only while the pin is used, and the event for the waiting threads is set exactly if
  the pin is not blocked.\<close>

definition pin_ok :: "dyn_pin \<Rightarrow> bool" where
  "pin_ok p \<longleftrightarrow> AssertValid p \<and> (m_BlockState p = PENDING \<longrightarrow> m_dwNumOutstandingOutputPinUsers p \<noteq> 0) \<and>
     (unblock_event p \<longleftrightarrow> m_BlockState p \<noteq> BLOCKED)"

definition users :: "dyn_system \<Rightarrow> nat set" where "users s = {t. threads s t = Uses}"

definition nobody_forgotten :: "dyn_system \<Rightarrow> bool" where
  "nobody_forgotten s \<longleftrightarrow> (\<forall>t. threads s t = Blocks \<longrightarrow> Own t \<in> signalled (pin s) \<or> m_hNotifyCallerPinBlockedEvent (pin s) = Some (Own t))"

definition dyn_inv :: "dyn_system \<Rightarrow> bool" where
  "dyn_inv s \<longleftrightarrow> pin_ok (pin s) \<and> m_dwNumOutstandingOutputPinUsers (pin s) = of_nat (card (users s)) \<and>
     users s \<subseteq> {0<..<2 ^ 32} \<and> (\<forall>t. threads s t \<noteq> Idle \<longrightarrow> 0 < t \<and> t < 2 ^ 32) \<and> nobody_forgotten s"

lemma card_users: "users s \<subseteq> {0<..<2 ^ 32} \<Longrightarrow> finite (users s) \<and> card (users s) < 2 ^ 32"
proof -
  assume u: "users s \<subseteq> {0<..<2 ^ 32}"
  have "finite {0::nat<..<2 ^ 32}" by (rule finite_greaterThanLessThan)
  then show ?thesis using card_mono [OF _ u] finite_subset [OF u] by simp
qed

lemma users_zero: "n < 2 ^ 32 \<Longrightarrow> (of_nat n :: u32) = 0 \<longleftrightarrow> n = 0"
  by (simp add: word_unat_eq_iff unsigned_of_nat take_bit_nat_eq_self)

text \<open>A thread that waits for its event has it, or the pin will set it.\<close>

definition awaited :: "nat \<Rightarrow> dyn_pin \<Rightarrow> bool" where
  "awaited t p \<longleftrightarrow> Own t \<in> signalled p \<or> m_hNotifyCallerPinBlockedEvent p = Some (Own t)"

lemmas block_defs = AsynchronousBlockOutputPin_def UnblockOutputPin_def BlockOutputPin_def set_notify_def StreamingThreadUsingOutputPin_def Let_def

lemma async_ok:
  assumes "pin_ok p" "0 < tid" "AsynchronousBlockOutputPin tid ev dup err p = (hr, p')" "failed err"
  shows "pin_ok p'" "m_dwNumOutstandingOutputPinUsers p' = m_dwNumOutstandingOutputPinUsers p" "awaited t p \<longrightarrow> awaited t p'"
    "succeeded hr \<longrightarrow> ev = Own t \<longrightarrow> awaited t p'"
  using assms by (auto simp: block_defs pin_ok_def AssertValid_def awaited_def word_gt_0 split: if_splits option.splits)

lemma unblock_ok:
  assumes "pin_ok p"
  shows "pin_ok (snd (UnblockOutputPin p))" "m_dwNumOutstandingOutputPinUsers (snd (UnblockOutputPin p)) = m_dwNumOutstandingOutputPinUsers p"
    "awaited t p \<longrightarrow> awaited t (snd (UnblockOutputPin p))"
  using assms by (auto simp: block_defs pin_ok_def AssertValid_def awaited_def split: option.splits)

lemma unsignal_ok: "pin_ok (p\<lparr>signalled := X\<rparr>) = pin_ok p" "m_dwNumOutstandingOutputPinUsers (p\<lparr>signalled := X\<rparr>) = m_dwNumOutstandingOutputPinUsers p"
  "Own t \<notin> Y \<Longrightarrow> awaited t (p\<lparr>signalled := signalled p - Y\<rparr>) = awaited t p"
  by (auto simp: pin_ok_def AssertValid_def awaited_def)

lemma block_ok:
  assumes p: "pin_ok p" and t: "0 < tid" and e: "failed err" and b: "Block tid flags (map_option Client h) reset created dup err p = (r, p')"
  shows "pin_ok p' \<and> m_dwNumOutstandingOutputPinUsers p' = m_dwNumOutstandingOutputPinUsers p \<and>
     (\<forall>t. t \<noteq> tid \<longrightarrow> awaited t p \<longrightarrow> awaited t p') \<and> (\<forall>ev. r = Waiting_for ev \<longrightarrow> awaited tid p')"
proof -
  define p1 where "p1 = (case map_option Client h of Some ev \<Rightarrow> if flags AND AM_PIN_FLOW_CONTROL_BLOCK \<noteq> 0 then p\<lparr>signalled := signalled p - {ev}\<rparr> else p | None \<Rightarrow> p)"
  have p1: "pin_ok p1" "m_dwNumOutstandingOutputPinUsers p1 = m_dwNumOutstandingOutputPinUsers p" "\<forall>t. awaited t p1 = awaited t p"
    using p by (auto simp: p1_def unsignal_ok split: option.splits)
  define p2 where "p2 = p1\<lparr>signalled := signalled p1 - {Own tid}\<rparr>"
  have p2: "pin_ok p2" "m_dwNumOutstandingOutputPinUsers p2 = m_dwNumOutstandingOutputPinUsers p" "\<forall>t. t \<noteq> tid \<longrightarrow> awaited t p2 = awaited t p"
    using p1 by (auto simp: p2_def unsignal_ok)
  consider "p' = p" "\<exists>hr. r = Returned hr" | "p' = p1" "\<exists>hr. r = Returned hr"
    | ev hr where "AsynchronousBlockOutputPin tid ev dup err p1 = (hr, p')" "\<exists>hr. r = Returned hr"
    | hr where "AsynchronousBlockOutputPin tid (Own tid) dup err p2 = (hr, p')" "(failed hr \<and> r = Returned hr) \<or> (succeeded hr \<and> r = Waiting_for (Own tid))"
    | "p' = snd (UnblockOutputPin p1)" "\<exists>hr. r = Returned hr"
    using b unfolding Block_def Let_def p1_def [symmetric] SynchronousBlockOutputPin_def p2_def [symmetric]
    by (auto split: if_splits option.splits prod.splits)
  then show ?thesis
  proof cases
    case (3 ev hr)
    then show ?thesis using async_ok [OF p1(1) t 3(1) e] p1 by auto
  next
    case (4 hr)
    then show ?thesis using async_ok [OF p2(1) t 4(1) e] p2 by auto
  next
    case 5
    then show ?thesis using unblock_ok [OF p1(1)] p1 by auto
  qed (use p p1 in auto)
qed

lemma start_check_ok:
  assumes "pin_ok p" "start_check p = (r, p')" "m_dwNumOutstandingOutputPinUsers p + 1 \<noteq> 0"
  shows "pin_ok p' \<and> (r = None \<longrightarrow> p' = p) \<and> (r \<noteq> None \<longrightarrow> m_dwNumOutstandingOutputPinUsers p' = m_dwNumOutstandingOutputPinUsers p + 1) \<and>
    (\<forall>t. awaited t p' = awaited t p)"
  using assms by (auto simp: start_check_def pin_ok_def AssertValid_def awaited_def split: if_splits)

lemma StopUsing_ok:
  assumes "pin_ok p" "m_dwNumOutstandingOutputPinUsers p \<noteq> 0"
  shows "pin_ok (StopUsingOutputPin p) \<and> m_dwNumOutstandingOutputPinUsers (StopUsingOutputPin p) = m_dwNumOutstandingOutputPinUsers p - 1 \<and>
    (\<forall>t. awaited t p \<longrightarrow> awaited t (StopUsingOutputPin p))"
  using assms by (auto simp: StopUsingOutputPin_def block_defs pin_ok_def AssertValid_def awaited_def split: option.splits if_splits)

lemma users_update [simp]: "users (s\<lparr>pin := p\<rparr>) = users s"
  "users (s\<lparr>threads := (threads s)(t := x)\<rparr>) = (if x = Uses then insert t (users s) else users s - {t})"
  "users (s\<lparr>pin := p, threads := (threads s)(t := x)\<rparr>) = (if x = Uses then insert t (users s) else users s - {t})"
  by (auto simp: users_def)

text \<open>The shape of every step: one thread changes what it does, the count follows, and the other threads are still awaited.\<close>

lemma dyn_inv_step:
  assumes i: "dyn_inv s" and t: "0 < t" "t < 2 ^ 32" and p: "pin_ok p" and aw: "\<forall>u. u \<noteq> t \<longrightarrow> awaited u (pin s) \<longrightarrow> awaited u p"
    and own: "x = Blocks \<longrightarrow> awaited t p"
    and n: "m_dwNumOutstandingOutputPinUsers p = m_dwNumOutstandingOutputPinUsers (pin s) + (if x = Uses then 1 else 0) - (if threads s t = Uses then 1 else 0)"
  shows "dyn_inv (s\<lparr>pin := p, threads := (threads s)(t := x)\<rparr>)"
proof -
  note c = card_users [of s]
  have u: "users s \<subseteq> {0<..<2 ^ 32}" "finite (users s)" "m_dwNumOutstandingOutputPinUsers (pin s) = of_nat (card (users s))"
    using i c by (auto simp: dyn_inv_def)
  have "m_dwNumOutstandingOutputPinUsers p = of_nat (card (if x = Uses then insert t (users s) else users s - {t}))"
  proof (cases "threads s t = Uses")
    case True
    then have "t \<in> users s" by (simp add: users_def)
    then obtain k where k: "card (users s) = Suc k" using u(2) by (cases "card (users s)") auto
    show ?thesis using n u(3) True \<open>t \<in> users s\<close> by (cases "x = Uses") (simp_all add: insert_absorb k)
  next
    case False
    then have "t \<notin> users s" by (simp add: users_def)
    then show ?thesis using n u False by (simp add: add.commute)
  qed
  then show ?thesis using i t p aw own by (auto simp: dyn_inv_def nobody_forgotten_def awaited_def)
qed

lemma room_for_a_user:
  assumes i: "dyn_inv s" and t: "threads s t \<noteq> Uses" "0 < t" "t < 2 ^ 32"
  shows "m_dwNumOutstandingOutputPinUsers (pin s) + 1 \<noteq> 0"
proof -
  have "insert t (users s) \<subseteq> {0<..<2 ^ 32}" "t \<notin> users s" using i t by (auto simp: dyn_inv_def users_def)
  moreover have "finite (users s)" using i card_users [of s] by (simp add: dyn_inv_def)
  ultimately have "card (users s) + 1 \<le> card {0::nat<..<2 ^ 32}" using card_mono [of "{0<..<2 ^ 32}" "insert t (users s)"] by simp
  then have "card (users s) + 1 < 2 ^ 32" by simp
  then show ?thesis using i users_zero [of "card (users s) + 1"] by (simp add: dyn_inv_def add.commute)
qed

lemma dyn_inv_preserved: "dyn_step s s' \<Longrightarrow> dyn_inv s \<Longrightarrow> dyn_inv s'"
proof (induction rule: dyn_step.induct)
  case (block_returns s t err flags h reset created dup hr p)
  have "pin_ok (pin s)" using block_returns by (simp add: dyn_inv_def)
  note b = block_ok [OF this block_returns(2,4,5)]
  have "dyn_inv (s\<lparr>pin := p, threads := (threads s)(t := Idle)\<rparr>)" by (rule dyn_inv_step) (use block_returns b in auto)
  then show ?case using block_returns(1) by (simp add: fun_upd_idem)
next
  case (block_waits s t err flags h reset created dup ev p)
  have "pin_ok (pin s)" using block_waits by (simp add: dyn_inv_def)
  note b = block_ok [OF this block_waits(2,4,5)]
  show ?case by (rule dyn_inv_step) (use block_waits b in auto)
next
  case (block_done s t)
  then have "0 < t" "t < 2 ^ 32" by (auto simp: dyn_inv_def)
  then show ?case by (intro dyn_inv_step) (use block_done in \<open>auto simp: unsignal_ok dyn_inv_def\<close>)
next
  case (start_using s t r p)
  have "pin_ok (pin s)" using start_using by (simp add: dyn_inv_def)
  note b = start_check_ok [OF this start_using(4) room_for_a_user [OF start_using(5) _ start_using(2,3)]]
  show ?case by (rule dyn_inv_step) (use start_using b in auto)
next
  case (wakes s t)
  then have "0 < t" "t < 2 ^ 32" by (auto simp: dyn_inv_def)
  then have "dyn_inv (s\<lparr>pin := pin s, threads := (threads s)(t := Woken)\<rparr>)" by (intro dyn_inv_step) (use wakes in \<open>auto simp: dyn_inv_def\<close>)
  then show ?case by simp
next
  case (looks_again s t err r p)
  then have t: "0 < t" "t < 2 ^ 32" "pin_ok (pin s)" by (auto simp: dyn_inv_def)
  have c: "start_check (pin s) = (r, p)" using looks_again(2) by (simp add: start_woken_def)
  note b = start_check_ok [OF t(3) c room_for_a_user [OF looks_again(3) _ t(1,2)]]
  show ?case by (rule dyn_inv_step) (use looks_again b t in auto)
next
  case (stopped s t)
  then have "0 < t" "t < 2 ^ 32" by (auto simp: dyn_inv_def)
  then have "dyn_inv (s\<lparr>pin := pin s, threads := (threads s)(t := Idle)\<rparr>)" by (intro dyn_inv_step) (use stopped in \<open>auto simp: dyn_inv_def\<close>)
  then show ?case by simp
next
  case (stop_using s t)
  then have t: "0 < t" "t < 2 ^ 32" "pin_ok (pin s)" "t \<in> users s" by (auto simp: dyn_inv_def users_def)
  have "finite (users s) \<and> card (users s) < 2 ^ 32" by (rule card_users) (use stop_using in \<open>simp add: dyn_inv_def\<close>)
  then have "m_dwNumOutstandingOutputPinUsers (pin s) \<noteq> 0" using stop_using t(4) users_zero by (auto simp: dyn_inv_def)
  note b = StopUsing_ok [OF t(3) this]
  show ?case by (rule dyn_inv_step) (use stop_using b t in auto)
next
  case (stop_changes s b)
  then show ?case by (auto simp: dyn_inv_def set_stop_def pin_ok_def AssertValid_def nobody_forgotten_def)
next
  case (client_event s e)
  then show ?case by (auto simp: dyn_inv_def unsignal_ok nobody_forgotten_def)
qed

lemma dyn_reachable_inv: "dyn_reachable s \<Longrightarrow> dyn_inv s"
proof (induction rule: dyn_reachable.induct)
  case start
  then show ?case by (simp add: dyn_inv_def pin_ok_def AssertValid_def ready_pin_def SetConfigInfo_def new_dyn_pin_def users_def nobody_forgotten_def)
qed (rule dyn_inv_preserved)

section \<open>Properties\<close>

text \<open>C34: In every interleaving of applications that block and unblock the pin with threads that stream through it, everything that
  \<open>AssertValid\<close> checks holds: the count is the number of threads that use the pin, nobody uses a blocked pin, and
  a block is pending only while somebody uses it.\<close>

theorem nobody_uses_a_blocked_pin:
  assumes "dyn_reachable s"
  shows "AssertValid (pin s) \<and> unat (m_dwNumOutstandingOutputPinUsers (pin s)) = card {t. threads s t = Uses} \<and>
     (m_BlockState (pin s) = BLOCKED \<longrightarrow> (\<forall>t. threads s t \<noteq> Uses)) \<and>
     (m_BlockState (pin s) = PENDING \<longrightarrow> (\<exists>t. threads s t = Uses))"
proof -
  have i: "dyn_inv s" using assms by (rule dyn_reachable_inv)
  then have c: "finite (users s)" "card (users s) < 2 ^ 32" using card_users [of s] by (auto simp: dyn_inv_def)
  have n: "m_dwNumOutstandingOutputPinUsers (pin s) = of_nat (card (users s))" using i by (simp add: dyn_inv_def)
  have u: "unat (m_dwNumOutstandingOutputPinUsers (pin s)) = card (users s)" using n c(2) by (simp add: unsigned_of_nat take_bit_nat_eq_self)
  then have z: "m_dwNumOutstandingOutputPinUsers (pin s) = 0 \<longleftrightarrow> users s = {}" using c(1) by (metis card_eq_0_iff unat_eq_zero)
  show ?thesis using i u z by (auto simp: dyn_inv_def pin_ok_def AssertValid_def users_def)
qed

text \<open>C35: No thread waits in vain: one that waits to use the pin while it is not blocked finds its event set; one that waits in \<open>Block\<close>
  has its event set, or the block is pending, and then the thread that is the last to let go of the pin sets it.\<close>

theorem no_blocking_thread_is_forgotten:
  assumes "dyn_reachable s"
  shows "(threads s t = Waits \<and> m_BlockState (pin s) \<noteq> BLOCKED \<longrightarrow> unblock_event (pin s)) \<and>
     (threads s t = Blocks \<longrightarrow> Own t \<in> signalled (pin s) \<or>
        (m_BlockState (pin s) = PENDING \<and> (\<exists>u. threads s u = Uses) \<and>
         (\<forall>u. {v. threads s v = Uses} = {u} \<longrightarrow> Own t \<in> signalled (StopUsingOutputPin (pin s)) \<and> m_BlockState (StopUsingOutputPin (pin s)) = BLOCKED)))"
proof -
  have i: "dyn_inv s" using assms by (rule dyn_reachable_inv)
  then have n: "m_dwNumOutstandingOutputPinUsers (pin s) = of_nat (card (users s))" and p: "pin_ok (pin s)" by (simp_all add: dyn_inv_def)
  have wait: "threads s t = Waits \<and> m_BlockState (pin s) \<noteq> BLOCKED \<longrightarrow> unblock_event (pin s)" using p by (simp add: pin_ok_def)
  have "m_BlockState (pin s) = PENDING \<and> (\<exists>u. threads s u = Uses) \<and>
      (\<forall>u. {v. threads s v = Uses} = {u} \<longrightarrow> Own t \<in> signalled (StopUsingOutputPin (pin s)) \<and> m_BlockState (StopUsingOutputPin (pin s)) = BLOCKED)"
    if e: "m_hNotifyCallerPinBlockedEvent (pin s) = Some (Own t)"
  proof -
    have b: "m_BlockState (pin s) = PENDING" using p e by (auto simp: pin_ok_def AssertValid_def)
    then have "users s \<noteq> {}" using p n by (auto simp: pin_ok_def)
    moreover have "Own t \<in> signalled (StopUsingOutputPin (pin s)) \<and> m_BlockState (StopUsingOutputPin (pin s)) = BLOCKED" if "{v. threads s v = Uses} = {u}" for u
    proof -
      have "users s = {u}" using that by (simp add: users_def)
      then have "m_dwNumOutstandingOutputPinUsers (pin s) = 1" using n by simp
      then show ?thesis using b e by (simp add: StopUsingOutputPin_def block_defs)
    qed
    ultimately show ?thesis using b by (auto simp: users_def)
  qed
  then show ?thesis using i wait by (auto simp: dyn_inv_def nobody_forgotten_def)
qed

text \<open>Reaching a state by a list of steps.\<close>

lemma reach2: "dyn_reachable s \<Longrightarrow> dyn_step s s1 \<Longrightarrow> dyn_step s1 s2 \<Longrightarrow> dyn_reachable s2"
  by (blast intro: dyn_reachable.step)

definition start_system :: dyn_system where "start_system = \<lparr>pin = ready_pin, threads = (\<lambda>_. Idle)\<rparr>"

definition used_system :: dyn_system where
  "used_system = \<lparr>pin = ready_pin\<lparr>m_dwNumOutstandingOutputPinUsers := 1\<rparr>, threads = (\<lambda>_. Idle)(2 := Uses)\<rparr>"

definition pending_system :: dyn_system where
  "pending_system = \<lparr>pin = ready_pin\<lparr>m_dwNumOutstandingOutputPinUsers := 1, m_BlockState := PENDING, m_dwBlockCallerThreadID := 1,
      m_hNotifyCallerPinBlockedEvent := Some (Own 1)\<rparr>, threads = (\<lambda>_. Idle)(2 := Uses, 1 := Blocks)\<rparr>"

definition cancelled_system :: dyn_system where
  "cancelled_system = \<lparr>pin = ready_pin\<lparr>m_dwNumOutstandingOutputPinUsers := 1, signalled := {Own 1}\<rparr>, threads = (\<lambda>_. Idle)(2 := Uses, 1 := Blocks)\<rparr>"

lemmas ready_simps = ready_pin_def SetConfigInfo_def new_dyn_pin_def Let_def

lemma used_reached: "dyn_step start_system used_system"
  using dyn_step.start_using [of start_system 2 "Some S_OK" "ready_pin\<lparr>m_dwNumOutstandingOutputPinUsers := 1\<rparr>"]
  by (simp add: start_system_def used_system_def start_check_def ready_simps)

lemma pending_reached: "dyn_step used_system pending_system"
  using dyn_step.block_waits [of used_system 1 E_FAIL 1 None True True True "Own 1" "pin pending_system"]
  by (simp add: used_system_def pending_system_def Block_def AM_PIN_FLOW_CONTROL_BLOCK_def SynchronousBlockOutputPin_def
      AsynchronousBlockOutputPin_def StreamingThreadUsingOutputPin_def ready_simps)

lemma cancelled_reached: "dyn_step pending_system cancelled_system"
  using dyn_step.block_returns [of pending_system 3 E_FAIL 0 None True True True S_OK "pin cancelled_system"]
  by (simp add: cancelled_system_def pending_system_def Block_def AM_PIN_FLOW_CONTROL_BLOCK_def UnblockOutputPin_def set_notify_def ready_simps)

lemma cancelled_reachable: "dyn_reachable start_system" "dyn_reachable used_system" "dyn_reachable pending_system" "dyn_reachable cancelled_system"
proof -
  show a: "dyn_reachable start_system" unfolding start_system_def by (rule dyn_reachable.start)
  show b: "dyn_reachable used_system" by (rule dyn_reachable.step [OF a used_reached])
  show c: "dyn_reachable pending_system" by (rule dyn_reachable.step [OF b pending_reached])
  show "dyn_reachable cancelled_system" by (rule dyn_reachable.step [OF c cancelled_reached])
qed

theorem nobody_uses_a_blocked_pin_witness:
  "dyn_reachable pending_system \<and> AssertValid (pin pending_system) \<and> card {t. threads pending_system t = Uses} = 1"
  using nobody_uses_a_blocked_pin [OF cancelled_reachable(3)] cancelled_reachable(3)
  by (simp add: pending_system_def)

theorem no_blocking_thread_is_forgotten_witness:
  "threads pending_system 1 = Blocks \<and> Own 1 \<in> signalled (StopUsingOutputPin (pin pending_system)) \<and>
     m_BlockState (StopUsingOutputPin (pin pending_system)) = BLOCKED"
proof -
  have "{v. threads pending_system v = Uses} = {2}" by (auto simp: pending_system_def)
  moreover have "Own 1 \<notin> signalled (pin pending_system)" "threads pending_system 1 = Blocks" by (simp_all add: pending_system_def ready_simps)
  ultimately show ?thesis using no_blocking_thread_is_forgotten [OF cancelled_reachable(3), of 1] by blast
qed

text \<open>A synchronous block that another application cancels while it is pending is reported as a success: the thread's wait
  ends, \<open>Block\<close> returns \<open>S_OK\<close>, and the pin is not blocked but in use.\<close>

theorem cancelled_block_returns_success:
  "\<exists>s s'. dyn_reachable s \<and> threads s 1 = Blocks \<and> dyn_step s s' \<and> threads s' 1 = Idle \<and> WaitEvent WAIT_OBJECT_0 E_FAIL = S_OK \<and>
     m_BlockState (pin s') = NOT_BLOCKED \<and> threads s' 2 = Uses"
proof -
  let ?s = cancelled_system
  let ?t = "?s\<lparr>pin := (pin ?s)\<lparr>signalled := signalled (pin ?s) - {Own 1}\<rparr>, threads := (threads ?s)(1 := Idle)\<rparr>"
  have "dyn_step ?s ?t" by (rule dyn_step.block_done) (simp_all add: cancelled_system_def)
  then have "dyn_reachable ?s \<and> threads ?s 1 = Blocks \<and> dyn_step ?s ?t \<and> threads ?t 1 = Idle \<and> WaitEvent WAIT_OBJECT_0 E_FAIL = S_OK \<and>
     m_BlockState (pin ?t) = NOT_BLOCKED \<and> threads ?t 2 = Uses"
    using cancelled_reachable(4) by (simp add: cancelled_system_def ready_simps WaitEvent_def)
  then show ?thesis by blast
qed

text \<open>A change of the type that the pin on the other end has received, but that fails later, leaves the connection with the new
  type and, if the allocator could be decommitted, without buffers: nothing is put back, and no later call is made.\<close>

theorem failed_change_of_type_is_not_undone:
  assumes "a_connected a" and "a_pin_connection a" and "a_accept a = S_OK" and "succeeded (a_receive a)" and "succeeded (a_settype a)"
    and "a_memory_transport a" and "succeeded (a_decommit a)" and "failed (a_size a)"
  shows "fst (ChangeOutputFormat a p) = a_size a \<and> Decommit_allocator \<in> set (snd (ChangeOutputFormat a p)) \<and>
     Commit_allocator \<notin> set (snd (ChangeOutputFormat a p)) \<and> Receive_connection \<in> set (snd (ChangeOutputFormat a p)) \<and>
     Reconnect \<notin> set (snd (ChangeOutputFormat a p)) \<and> New_segment \<notin> set (snd (ChangeOutputFormat a p))"
  using assms by (simp add: ChangeOutputFormat_def ChangeMediaType_def ChangeMediaTypeHelper_def Let_def)

theorem failed_change_of_type_is_not_undone_witness:
  "fst (ChangeOutputFormat \<lparr>a_connected = True, a_pin_connection = True, a_accept = S_OK, a_receive = S_OK, a_settype = S_OK, a_memory_transport = True,
      a_align = 0, a_decommit = S_OK, a_size = E_OUTOFMEMORY, a_commit = S_OK, a_notify = S_OK, a_reconnect = S_OK, a_segment = S_OK\<rparr> ready_pin) = E_OUTOFMEMORY"
  using failed_change_of_type_is_not_undone [of "\<lparr>a_connected = True, a_pin_connection = True, a_accept = S_OK, a_receive = S_OK, a_settype = S_OK,
      a_memory_transport = True, a_align = 0, a_decommit = S_OK, a_size = E_OUTOFMEMORY, a_commit = S_OK, a_notify = S_OK, a_reconnect = S_OK, a_segment = S_OK\<rparr>" ready_pin]
  by simp

end
