(* ===== verification/Schedule.thy ===== *)
theory Schedule
  imports Prelude "HOL-Library.Multiset"
begin

text \<open>
  The list of notifications a reference clock keeps (CAMSchedule in baseclasses/schedule.cpp and schedule.h): advise
  packets in the order of their times, between a head and the sentry \<open>z\<close>, whose time is the greatest there is.
  Times are 64-bit signed numbers of 100 ns, which wrap.
\<close>

section \<open>Packets\<close>

definition MAX_TIME :: int where "MAX_TIME = 0x7FFFFFFFFFFFFFFF"

definition wrap64 :: "int \<Rightarrow> int" where "wrap64 k = (k + 2 ^ 63) mod 2 ^ 64 - 2 ^ 63"

lemma wrap64_id: "- (2 ^ 63) \<le> k \<Longrightarrow> k \<le> MAX_TIME \<Longrightarrow> wrap64 k = k"
  by (simp add: wrap64_def MAX_TIME_def)

record packet =
  m_dwAdviseCookie :: u64
  m_rtEventTime :: int
  m_rtPeriod :: int
  m_hNotify :: nat
  m_bPeriodic :: bool

text \<open>The chain is the list of packets from behind the head to before the sentry; \<open>cached\<close> is the number of packets kept
  for reuse, which \<open>m_dwCacheCount\<close> counts.\<close>

record schedule =
  packets :: "packet list"
  m_dwNextCookie :: u64
  m_dwAdviseCount :: u32
  cached :: nat
  m_dwCacheCount :: u32

definition new_schedule :: schedule where
  "new_schedule = \<lparr>packets = [], m_dwNextCookie = 0, m_dwAdviseCount = 0, cached = 0, m_dwCacheCount = 0\<rparr>"

definition GetNextAdviseTime :: "schedule \<Rightarrow> int" where
  "GetNextAdviseTime s = (case packets s of [] \<Rightarrow> MAX_TIME | p # _ \<Rightarrow> m_rtEventTime p)"

section \<open>Operations\<close>

text \<open>In front of the first packet that is not earlier, the sentry at the latest; true if that is behind the head.\<close>

fun insert_packet :: "packet \<Rightarrow> packet list \<Rightarrow> bool \<times> packet list" where
  "insert_packet p [] = (True, [p])"
| "insert_packet p (x # xs) = (if m_rtEventTime p \<le> m_rtEventTime x then (True, p # x # xs) else (False, x # snd (insert_packet p xs)))"

text \<open>The cookie, whether the clock's event is set, and the schedule; \<open>memory\<close> is whether a new packet can be had.\<close>

definition AddAdvisePacket :: "bool \<Rightarrow> int \<Rightarrow> int \<Rightarrow> nat \<Rightarrow> bool \<Rightarrow> schedule \<Rightarrow> u64 \<times> bool \<times> schedule" where
  "AddAdvisePacket memory time1 time2 h periodic s =
    (let found = cached s \<noteq> 0;
         s1 = (if found then s\<lparr>cached := cached s - 1, m_dwCacheCount := m_dwCacheCount s - 1\<rparr> else s)
     in if found \<or> memory
        then let c = m_dwNextCookie s1 + 1;
                 (ev, ps) = insert_packet \<lparr>m_dwAdviseCookie = c, m_rtEventTime = time1, m_rtPeriod = time2, m_hNotify = h, m_bPeriodic = periodic\<rparr> (packets s1)
             in (c, ev, s1\<lparr>packets := ps, m_dwNextCookie := c, m_dwAdviseCount := m_dwAdviseCount s1 + 1\<rparr>)
        else (0, False, s1))"

definition dwCacheMax :: u32 where "dwCacheMax = 5"

definition Schedule_Delete :: "schedule \<Rightarrow> schedule" where
  "Schedule_Delete s = (if dwCacheMax \<le> m_dwCacheCount s then s
     else s\<lparr>cached := cached s + 1, m_dwCacheCount := m_dwCacheCount s + 1\<rparr>)"

fun remove_cookie :: "u64 \<Rightarrow> packet list \<Rightarrow> packet list option" where
  "remove_cookie c [] = None"
| "remove_cookie c (p # ps) = (if m_dwAdviseCookie p = c then Some ps else map_option ((#) p) (remove_cookie c ps))"

definition Unadvise :: "u64 \<Rightarrow> schedule \<Rightarrow> hresult \<times> schedule" where
  "Unadvise c s =
    (case remove_cookie c (packets s) of
       None \<Rightarrow> (S_FALSE, s)
     | Some ps \<Rightarrow> (S_OK, Schedule_Delete s\<lparr>packets := ps, m_dwAdviseCount := m_dwAdviseCount s - 1\<rparr>))"

text \<open>
  \<open>ShuntHead\<close> moves the first packet behind all that are not later. The walk stops at the sentry only if the packet is
  earlier than it; otherwise it follows the sentry's null pointer.
\<close>

datatype loop_stop = Null_followed | Out_of_fuel

fun shunt_into :: "packet \<Rightarrow> packet list \<Rightarrow> loop_stop + packet list" where
  "shunt_into p [] = (if m_rtEventTime p < MAX_TIME then Inr [p] else Inl Null_followed)"
| "shunt_into p (x # xs) =
    (if m_rtEventTime p < m_rtEventTime x then Inr (p # x # xs)
     else case shunt_into p xs of Inl e \<Rightarrow> Inl e | Inr ys \<Rightarrow> Inr (x # ys))"

definition next_time :: "packet \<Rightarrow> packet" where
  "next_time p = p\<lparr>m_rtEventTime := wrap64 (m_rtEventTime p + m_rtPeriod p)\<rparr>"

text \<open>\<open>Advise\<close>: each packet that is notified, as it is at that moment, and the time of the first one left. A round takes one
  unit of fuel.\<close>

fun advise_loop :: "nat \<Rightarrow> int \<Rightarrow> schedule \<Rightarrow> packet list \<Rightarrow> loop_stop + int \<times> schedule \<times> packet list" where
  "advise_loop fuel rtTime s fired =
    (case packets s of
       [] \<Rightarrow> Inr (MAX_TIME, s, fired)
     | p # ps \<Rightarrow>
        if rtTime < m_rtEventTime p then Inr (m_rtEventTime p, s, fired)
        else case fuel of
          0 \<Rightarrow> Inl Out_of_fuel
        | Suc f \<Rightarrow>
           if m_bPeriodic p
           then (case shunt_into (next_time p) ps of
                   Inl e \<Rightarrow> Inl e
                 | Inr qs \<Rightarrow> advise_loop f rtTime (s\<lparr>packets := qs\<rparr>) (fired @ [p]))
           else advise_loop f rtTime (Schedule_Delete s\<lparr>packets := ps, m_dwAdviseCount := m_dwAdviseCount s - 1\<rparr>) (fired @ [p]))"

declare advise_loop.simps [simp del]

definition Advise :: "nat \<Rightarrow> int \<Rightarrow> schedule \<Rightarrow> loop_stop + int \<times> schedule \<times> packet list" where
  "Advise fuel rtTime s = advise_loop fuel rtTime s []"

text \<open>The destructor, with the number of packets it deletes from the cache and from the list.\<close>

fun delete_packets :: "packet list \<Rightarrow> u32 \<Rightarrow> u32" where
  "delete_packets [] n = n"
| "delete_packets (p # ps) n = delete_packets ps (n - 1)"

definition delete_schedule :: "schedule \<Rightarrow> nat \<times> nat \<times> u32" where
  "delete_schedule s =
    (if 0 < m_dwAdviseCount s then (cached s, length (packets s), delete_packets (packets s) (m_dwAdviseCount s))
     else (cached s, 0, m_dwAdviseCount s))"

section \<open>What is due\<close>

text \<open>The notifications of a packet up to a time.\<close>

function due :: "int \<Rightarrow> packet \<Rightarrow> packet list" where
  "due t p =
    (if t < m_rtEventTime p then []
     else if m_bPeriodic p \<and> 0 < m_rtPeriod p then p # due t (p\<lparr>m_rtEventTime := m_rtEventTime p + m_rtPeriod p\<rparr>)
     else [p])"
  by pat_completeness auto
termination by (relation "measure (\<lambda>(t, p). nat (t + 1 - m_rtEventTime p))") auto

declare due.simps [simp del]

text \<open>What becomes of it: nothing is left of a single notification that was due.\<close>

definition after :: "int \<Rightarrow> packet \<Rightarrow> packet multiset" where
  "after t p =
    (if t < m_rtEventTime p then {#p#}
     else if m_bPeriodic p then {#p\<lparr>m_rtEventTime := m_rtEventTime p + ((t - m_rtEventTime p) div m_rtPeriod p + 1) * m_rtPeriod p\<rparr>#}
     else {#})"

text \<open>The same in closed form: one for every period that has begun.\<close>

lemma due_periodic:
  assumes "m_bPeriodic p" "0 < m_rtPeriod p"
  shows "due t p = map (\<lambda>k. p\<lparr>m_rtEventTime := m_rtEventTime p + int k * m_rtPeriod p\<rparr>)
      [0..<if t < m_rtEventTime p then 0 else Suc (nat ((t - m_rtEventTime p) div m_rtPeriod p))]"
  using assms
proof (induction t p rule: due.induct)
  case (1 t p)
  let ?q = "p\<lparr>m_rtEventTime := m_rtEventTime p + m_rtPeriod p\<rparr>"
  show ?case
  proof (cases "t < m_rtEventTime p")
    case False
    have d: "(t - m_rtEventTime ?q) div m_rtPeriod p = (t - m_rtEventTime p) div m_rtPeriod p - 1"
      using div_mult_self1 [of "m_rtPeriod p" "t - m_rtEventTime p" "- 1"] 1(3) by (simp add: algebra_simps)
    have "t < m_rtEventTime ?q \<longleftrightarrow> (t - m_rtEventTime p) div m_rtPeriod p = 0"
      using False 1(3) by (simp add: zdiv_eq_0_iff) linarith
    then have n: "(if t < m_rtEventTime ?q then 0 else Suc (nat ((t - m_rtEventTime ?q) div m_rtPeriod ?q)))
        = nat ((t - m_rtEventTime p) div m_rtPeriod p)"
      using d False 1(3) pos_imp_zdiv_nonneg_iff [of "m_rtPeriod p" "t - m_rtEventTime p"] by auto
    have u: "map f [0..<Suc m] = f 0 # map (\<lambda>k. f (Suc k)) [0..<m]" for f :: "nat \<Rightarrow> packet" and m
      by (simp add: upt_conv_Cons map_Suc_upt [symmetric] comp_def del: upt_Suc)
    have "due t p = p # due t ?q" using False 1(2,3) by (simp add: due.simps [of t p])
    also have "due t ?q = map (\<lambda>k. ?q\<lparr>m_rtEventTime := m_rtEventTime ?q + int k * m_rtPeriod ?q\<rparr>) [0..<nat ((t - m_rtEventTime p) div m_rtPeriod p)]"
      using 1(1) [OF False] 1(2,3) n by simp
    also have "p # \<dots> = map (\<lambda>k. p\<lparr>m_rtEventTime := m_rtEventTime p + int k * m_rtPeriod p\<rparr>) [0..<Suc (nat ((t - m_rtEventTime p) div m_rtPeriod p))]"
      by (subst u) (simp add: algebra_simps)
    finally show ?thesis using False by (simp del: upt_Suc)
  qed (simp add: due.simps)
qed

text \<open>No time of a periodic packet passes the end of time on the way to \<open>t\<close>.\<close>

definition calm :: "int \<Rightarrow> packet \<Rightarrow> bool" where
  "calm t p \<longleftrightarrow> - (2 ^ 63) \<le> m_rtEventTime p \<and> (m_bPeriodic p \<longrightarrow> 0 < m_rtPeriod p \<and> (m_rtEventTime p \<le> t \<longrightarrow> t + m_rtPeriod p < MAX_TIME))"

definition ordered :: "packet list \<Rightarrow> bool" where
  "ordered ps \<longleftrightarrow> sorted (map m_rtEventTime ps)"

lemma ordered_simps [simp]: "ordered []" "ordered (p # ps) \<longleftrightarrow> (\<forall>q \<in> set ps. m_rtEventTime p \<le> m_rtEventTime q) \<and> ordered ps"
  by (simp_all add: ordered_def)

lemma insert_packet_spec: "mset (snd (insert_packet p xs)) = add_mset p (mset xs)" "ordered xs \<Longrightarrow> ordered (snd (insert_packet p xs))"
  "set (snd (insert_packet p xs)) = insert p (set xs)"
proof -
  show "mset (snd (insert_packet p xs)) = add_mset p (mset xs)" by (induction xs) auto
  then show s: "set (snd (insert_packet p xs)) = insert p (set xs)" for xs
    by (induction xs) auto
  show "ordered xs \<Longrightarrow> ordered (snd (insert_packet p xs))" using s by (induction xs) force+
qed

lemma shunt_into_spec:
  "m_rtEventTime p < MAX_TIME \<Longrightarrow> \<exists>ys. shunt_into p xs = Inr ys \<and> mset ys = add_mset p (mset xs) \<and> (ordered xs \<longrightarrow> ordered ys)"
proof (induction xs)
  case (Cons x xs)
  then obtain ys where ys: "shunt_into p xs = Inr ys" "mset ys = add_mset p (mset xs)" "ordered xs \<longrightarrow> ordered ys" by auto
  then have "set ys = insert p (set xs)" by (metis set_mset_add_mset_insert set_mset_mset)
  then show ?case using ys by force
qed simp

lemma next_time_calm:
  assumes "calm t p" "m_bPeriodic p" "m_rtEventTime p \<le> t"
  shows "next_time p = p\<lparr>m_rtEventTime := m_rtEventTime p + m_rtPeriod p\<rparr>" "calm t (next_time p)" "m_rtEventTime (next_time p) < MAX_TIME"
    "m_rtEventTime p < m_rtEventTime (next_time p)"
proof -
  show n: "next_time p = p\<lparr>m_rtEventTime := m_rtEventTime p + m_rtPeriod p\<rparr>"
    using assms wrap64_id [of "m_rtEventTime p + m_rtPeriod p"] by (simp add: next_time_def calm_def)
  show "calm t (next_time p)" "m_rtEventTime (next_time p) < MAX_TIME" "m_rtEventTime p < m_rtEventTime (next_time p)"
    using assms by (auto simp: n calm_def)
qed

lemma due_step: "m_rtEventTime p \<le> t \<Longrightarrow> m_bPeriodic p \<Longrightarrow> calm t p \<Longrightarrow> due t p = p # due t (next_time p) \<and> after t p = after t (next_time p)"
proof -
  assume a: "m_rtEventTime p \<le> t" "m_bPeriodic p" "calm t p"
  note n = next_time_calm(1) [OF a(3,2,1)]
  have pos: "0 < m_rtPeriod p" using a by (simp add: calm_def)
  have d: "(t - (m_rtEventTime p + m_rtPeriod p)) div m_rtPeriod p = (t - m_rtEventTime p) div m_rtPeriod p - 1"
    using div_mult_self1 [of "m_rtPeriod p" "t - m_rtEventTime p" "- 1"] pos by (simp add: algebra_simps)
  have "after t p = after t (next_time p)"
  proof (cases "t < m_rtEventTime p + m_rtPeriod p")
    case True
    then have "(t - m_rtEventTime p) div m_rtPeriod p = 0" using a(1) by (simp add: zdiv_eq_0_iff)
    then show ?thesis using True a by (simp add: after_def n)
  next
    case False
    then show ?thesis using a d by (simp add: after_def n algebra_simps)
  qed
  then show ?thesis using a pos by (simp add: due.simps [of t p] n)
qed

text \<open>All notifications of the packets of a list, and all that is left of them.\<close>

definition all_due :: "int \<Rightarrow> packet list \<Rightarrow> packet multiset" where
  "all_due t ps = sum_list (map (\<lambda>p. mset (due t p)) ps)"

definition all_after :: "int \<Rightarrow> packet list \<Rightarrow> packet multiset" where
  "all_after t ps = sum_list (map (after t) ps)"

definition singles_due :: "int \<Rightarrow> packet list \<Rightarrow> nat" where
  "singles_due t ps = length (filter (\<lambda>p. m_rtEventTime p \<le> t \<and> \<not> m_bPeriodic p) ps)"

lemma all_simps [simp]: "all_due t [] = {#}" "all_due t (p # ps) = mset (due t p) + all_due t ps"
  "all_after t [] = {#}" "all_after t (p # ps) = after t p + all_after t ps"
  "singles_due t (p # ps) = (if m_rtEventTime p \<le> t \<and> \<not> m_bPeriodic p then 1 else 0) + singles_due t ps" "singles_due t [] = 0"
  by (simp_all add: all_due_def all_after_def singles_due_def)

lemma sum_list_perm: "mset xs = mset ys \<Longrightarrow> sum_list (map f xs) = sum_list (map f ys)" for f :: "packet \<Rightarrow> packet multiset"
  by (metis mset_map sum_mset_sum_list)

lemma all_perm: "mset ps = mset qs \<Longrightarrow> all_due t ps = all_due t qs \<and> all_after t ps = all_after t qs \<and> singles_due t ps = singles_due t qs"
proof -
  assume m: "mset ps = mset qs"
  have "singles_due t ps = singles_due t qs"
    unfolding singles_due_def by (metis m mset_filter size_mset)
  then show ?thesis using sum_list_perm [OF m] by (simp add: all_due_def all_after_def)
qed

lemma none_due_list: "\<forall>q \<in> set ps. t < m_rtEventTime q \<Longrightarrow> all_due t ps = {#} \<and> all_after t ps = mset ps \<and> singles_due t ps = 0"
  by (induction ps) (auto simp: due.simps after_def)

lemma none_due: "ordered (p # ps) \<Longrightarrow> t < m_rtEventTime p \<Longrightarrow> all_due t (p # ps) = {#} \<and> all_after t (p # ps) = mset (p # ps) \<and> singles_due t (p # ps) = 0"
  by (rule none_due_list) fastforce

lemma due_times: "x \<in> set (due t p) \<Longrightarrow> m_rtEventTime p \<le> m_rtEventTime x \<and> m_rtEventTime x \<le> t"
proof (induction t p rule: due.induct)
  case (1 t p)
  show ?case
  proof (cases "t < m_rtEventTime p")
    case False
    then show ?thesis using 1 by (subst (asm) (2) due.simps) (fastforce split: if_splits)
  qed (use 1(2) in \<open>simp add: due.simps [of t p]\<close>)
qed

lemma all_due_times: "x \<in># all_due t ps \<Longrightarrow> \<forall>q \<in> set ps. b \<le> m_rtEventTime q \<Longrightarrow> b \<le> m_rtEventTime x \<and> m_rtEventTime x \<le> t"
  by (induction ps) (use due_times order_trans in \<open>fastforce+\<close>)

section \<open>Advise\<close>

text \<open>The state after the calls: only the list, the number of packets on it and the cache have changed.\<close>

definition dispatched :: "int \<Rightarrow> schedule \<Rightarrow> schedule \<Rightarrow> packet list \<Rightarrow> bool" where
  "dispatched t s s' new \<longleftrightarrow>
     mset new = all_due t (packets s) \<and> sorted (map m_rtEventTime new) \<and>
     mset (packets s') = all_after t (packets s) \<and> ordered (packets s') \<and> (\<forall>p \<in> set (packets s'). t < m_rtEventTime p) \<and>
     m_dwAdviseCount s' = m_dwAdviseCount s - of_nat (singles_due t (packets s)) \<and> m_dwNextCookie s' = m_dwNextCookie s"

lemma Schedule_Delete_keeps [simp]: "packets (Schedule_Delete s) = packets s" "m_dwAdviseCount (Schedule_Delete s) = m_dwAdviseCount s"
  "m_dwNextCookie (Schedule_Delete s) = m_dwNextCookie s"
  by (simp_all add: Schedule_Delete_def)

lemma dispatched_step:
  assumes d: "dispatched t s1 s' new" and p: "m_rtEventTime p \<le> t" and o: "\<forall>q \<in> set (packets s1). m_rtEventTime p \<le> m_rtEventTime q"
    and all: "all_due t (packets s) = add_mset p (all_due t (packets s1))" "all_after t (packets s) = all_after t (packets s1)"
      "m_dwAdviseCount s1 - of_nat (singles_due t (packets s1)) = m_dwAdviseCount s - of_nat (singles_due t (packets s))"
      "m_dwNextCookie s1 = m_dwNextCookie s"
  shows "dispatched t s s' (p # new)"
proof -
  have "m_rtEventTime p \<le> m_rtEventTime x" if "x \<in> set new" for x
    using that d o all_due_times [of x t "packets s1" "m_rtEventTime p"] unfolding dispatched_def by (metis set_mset_mset)
  then show ?thesis using d all by (auto simp: dispatched_def)
qed

lemma advise_loop_spec:
  "ordered (packets s) \<Longrightarrow> \<forall>p \<in> set (packets s). calm t p \<Longrightarrow> size (all_due t (packets s)) \<le> fuel \<Longrightarrow>
   \<exists>s' new. advise_loop fuel t s fired = Inr (GetNextAdviseTime s', s', fired @ new) \<and> dispatched t s s' new"
proof (induction fuel arbitrary: s fired)
  case 0
  show ?case
  proof (cases "packets s")
    case (Cons p ps)
    have l: "t < m_rtEventTime p" using 0(3) Cons by (cases "t < m_rtEventTime p") (simp_all add: due.simps [of t p] split: if_splits)
    show ?thesis using none_due [of p ps t] 0(1) l Cons
      by (auto intro!: exI [of _ s] exI [of _ "[]"] simp: advise_loop.simps [of 0] GetNextAdviseTime_def dispatched_def)
  qed (auto intro!: exI [of _ s] simp: advise_loop.simps [of 0] GetNextAdviseTime_def dispatched_def)
next
  case (Suc f)
  show ?case
  proof (cases "packets s")
    case (Cons p ps)
    show ?thesis
    proof (cases "t < m_rtEventTime p")
      case True
      show ?thesis using none_due [of p ps t] Suc(2) True Cons
        by (auto intro!: exI [of _ s] exI [of _ "[]"] simp: advise_loop.simps [of "Suc f"] GetNextAdviseTime_def dispatched_def)
    next
      case False
      then have le: "m_rtEventTime p \<le> t" and c: "calm t p" and o: "ordered ps" "\<forall>q \<in> set ps. m_rtEventTime p \<le> m_rtEventTime q"
        using Suc(2,3) Cons by auto
      show ?thesis
      proof (cases "m_bPeriodic p")
        case True
        note n = next_time_calm [OF c True le] and d = due_step [OF le True c]
        obtain qs where qs: "shunt_into (next_time p) ps = Inr qs" "mset qs = add_mset (next_time p) (mset ps)" "ordered qs"
          using shunt_into_spec [OF n(3), of ps] o by auto
        then have set: "set qs = insert (next_time p) (set ps)" by (metis set_mset_add_mset_insert set_mset_mset)
        have perm: "all_due t qs = mset (due t (next_time p)) + all_due t ps" "all_after t qs = after t p + all_after t ps" "singles_due t qs = singles_due t ps"
          using all_perm [of qs "next_time p # ps" t] qs(2) d True n(1) by auto
        let ?s = "s\<lparr>packets := qs\<rparr>"
        have a: "all_due t (packets s) = add_mset p (all_due t (packets ?s))" using d perm Cons by simp
        have m: "size (all_due t (packets ?s)) \<le> f" using Suc(4) unfolding a by simp
        obtain s' new where IH: "advise_loop f t ?s (fired @ [p]) = Inr (GetNextAdviseTime s', s', (fired @ [p]) @ new)" "dispatched t ?s s' new"
          using Suc(1) [of ?s "fired @ [p]", OF _ _ m] Suc(3) n(2) qs(3) set Cons by auto
        have "dispatched t s s' (p # new)"
          by (rule dispatched_step [OF IH(2) le _ a]) (use set n(4) o(2) perm Cons True in auto)
        then show ?thesis using IH(1) Cons False True qs(1) by (auto simp: advise_loop.simps [of "Suc f"])
      next
        case single: False
        let ?s = "Schedule_Delete s\<lparr>packets := ps, m_dwAdviseCount := m_dwAdviseCount s - 1\<rparr>"
        have a: "all_due t (packets s) = add_mset p (all_due t ps)" "all_after t (packets s) = all_after t ps"
          using Cons False single by (simp_all add: due.simps [of t p] after_def)
        obtain s' new where IH: "advise_loop f t ?s (fired @ [p]) = Inr (GetNextAdviseTime s', s', (fired @ [p]) @ new)" "dispatched t ?s s' new"
          using Suc(1) [of ?s "fired @ [p]"] Suc(3,4) o(1) Cons a by auto
        have "dispatched t s s' (p # new)"
          by (rule dispatched_step [OF IH(2) le]) (use o(2) a Cons single le in auto)
        then show ?thesis using IH(1) Cons False single by (auto simp: advise_loop.simps [of "Suc f"])
      qed
    qed
  qed (auto intro!: exI [of _ s] simp: advise_loop.simps [of "Suc f"] GetNextAdviseTime_def dispatched_def)
qed

section \<open>The invariant of a schedule\<close>

text \<open>The list is in order, no two packets have the same cookie and none has a cookie not yet given out, and both counters are right.\<close>

definition cache_ok :: "schedule \<Rightarrow> bool" where
  "cache_ok s \<longleftrightarrow> m_dwCacheCount s = of_nat (cached s) \<and> cached s \<le> 5"

definition schedule_ok :: "schedule \<Rightarrow> bool" where
  "schedule_ok s \<longleftrightarrow> ordered (packets s) \<and> distinct (map m_dwAdviseCookie (packets s)) \<and>
     (\<forall>p \<in> set (packets s). 0 < m_dwAdviseCookie p \<and> m_dwAdviseCookie p \<le> m_dwNextCookie s) \<and>
     m_dwAdviseCount s = of_nat (length (packets s)) \<and> cache_ok s"

lemma new_schedule_ok: "schedule_ok new_schedule"
  by (simp add: schedule_ok_def new_schedule_def cache_ok_def)

lemma Schedule_Delete_ok: "cache_ok s \<Longrightarrow> cache_ok (Schedule_Delete s)"
proof -
  assume c: "cache_ok s"
  then have "unat (m_dwCacheCount s) = cached s" by (simp add: cache_ok_def unat_of_nat)
  then show ?thesis using c by (auto simp: cache_ok_def Schedule_Delete_def dwCacheMax_def word_le_nat_alt)
qed

lemma cache_ok_update [simp]: "cache_ok (s\<lparr>packets := ps\<rparr>) = cache_ok s" "cache_ok (s\<lparr>m_dwAdviseCount := n\<rparr>) = cache_ok s"
  "cache_ok (s\<lparr>m_dwNextCookie := c\<rparr>) = cache_ok s"
  by (simp_all add: cache_ok_def)

lemma distinct_subset_mset: "mset xs \<subseteq># mset ys \<Longrightarrow> distinct ys \<Longrightarrow> distinct xs"
  unfolding distinct_count_atmost_1 
  by (metis (no_types, lifting) count_eq_zero_iff in_multiset_in_set le_zero_eq linorder_not_less mset_subset_eq_count
      mset_subset_eqD order_le_less_trans less_one nat_less_le)

lemma insert_packet_cookies: "mset (map m_dwAdviseCookie (snd (insert_packet p xs))) = add_mset (m_dwAdviseCookie p) (mset (map m_dwAdviseCookie xs))"
  using insert_packet_spec(1) [of p xs] by simp

lemma next_cookie: "c < - 1 \<Longrightarrow> c < c + 1 \<and> 0 < c + 1" for c :: u64
proof -
  assume "c < - 1"
  then have "uint c < 2 ^ 64 - 1" by (simp add: word_less_def unsigned_minus_1_eq_mask mask_eq_exp_minus_1)
  then have "uint (c + 1) = uint c + 1" by (simp add: uint_word_ariths mod_pos_pos_trivial)
  then show ?thesis by (simp add: word_less_def add_nonneg_pos)
qed

lemma AddAdvisePacket_ok:
  assumes "schedule_ok s" "m_dwNextCookie s < - 1"
  shows "schedule_ok (snd (snd (AddAdvisePacket memory t1 t2 h per s)))"
proof -
  define c where "c = m_dwNextCookie s + 1"
  let ?p = "\<lparr>m_dwAdviseCookie = c, m_rtEventTime = t1, m_rtPeriod = t2, m_hNotify = h, m_bPeriodic = per\<rparr>"
  have c: "m_dwNextCookie s < c" "0 < c"
    using next_cookie [OF assms(2)] by (simp_all add: c_def)
  have old: "\<forall>p \<in> set (packets s). m_dwAdviseCookie p < c" using assms(1) c(1) by (auto simp: schedule_ok_def)
  have "mset (map m_dwAdviseCookie (snd (insert_packet ?p (packets s)))) = mset (c # map m_dwAdviseCookie (packets s))"
    by (simp only: insert_packet_cookies packet.select_convs mset.simps)
  then have "distinct (map m_dwAdviseCookie (snd (insert_packet ?p (packets s)))) = distinct (c # map m_dwAdviseCookie (packets s))"
    by (rule mset_eq_imp_distinct_iff)
  then have "distinct (map m_dwAdviseCookie (snd (insert_packet ?p (packets s))))"
    using assms(1) old by (auto simp: schedule_ok_def)
  moreover have "length (snd (insert_packet ?p (packets s))) = Suc (length (packets s))"
    using insert_packet_spec(1) [of ?p "packets s"] by (metis size_add_mset size_mset)
  moreover have "cached s \<noteq> 0 \<Longrightarrow> m_dwCacheCount s - 1 = of_nat (cached s - 1)" if "cache_ok s"
    using that by (cases "cached s") (simp_all add: cache_ok_def)
  ultimately show ?thesis using assms(1) c old insert_packet_spec(2) [of "packets s" ?p] insert_packet_spec(3) [of ?p "packets s"]
    by (auto simp: AddAdvisePacket_def Let_def split_beta schedule_ok_def c_def [symmetric] cache_ok_def less_imp_le)
qed

lemma remove_cookie_spec:
  "remove_cookie c ps = (if c \<in> m_dwAdviseCookie ` set ps then Some (takeWhile (\<lambda>p. m_dwAdviseCookie p \<noteq> c) ps @ tl (dropWhile (\<lambda>p. m_dwAdviseCookie p \<noteq> c) ps)) else None)"
  by (induction ps) auto

lemma remove_cookie_ok: "remove_cookie c ps = Some qs \<Longrightarrow> ordered ps \<Longrightarrow>
   ordered qs \<and> set qs \<subseteq> set ps \<and> mset (map m_dwAdviseCookie qs) \<subseteq># mset (map m_dwAdviseCookie ps) \<and> length ps = Suc (length qs)"
proof (induction ps arbitrary: qs)
  case (Cons p ps)
  show ?case
  proof (cases "m_dwAdviseCookie p = c")
    case False
    then obtain rs where rs: "remove_cookie c ps = Some rs" "qs = p # rs" using Cons(2) by auto
    then show ?thesis using Cons(1) [OF rs(1)] Cons(3) by auto
  qed (use Cons in auto)
qed simp

lemma Unadvise_ok: "schedule_ok s \<Longrightarrow> schedule_ok (snd (Unadvise c s))"
proof (cases "remove_cookie c (packets s)")
  case (Some qs)
  assume s: "schedule_ok s"
  then have q: "ordered qs" "set qs \<subseteq> set (packets s)" "mset (map m_dwAdviseCookie qs) \<subseteq># mset (map m_dwAdviseCookie (packets s))"
    "length (packets s) = Suc (length qs)"
    using remove_cookie_ok [OF Some] by (auto simp: schedule_ok_def)
  then have "distinct (map m_dwAdviseCookie qs)" using s distinct_subset_mset unfolding schedule_ok_def by blast
  then show ?thesis using s q Some by (auto simp: Unadvise_def schedule_ok_def Schedule_Delete_ok)
qed (simp add: Unadvise_def)

lemma shunt_into_keeps: "shunt_into p xs = Inr ys \<Longrightarrow> mset ys = add_mset p (mset xs) \<and> (ordered xs \<longrightarrow> ordered ys)"
proof (induction xs arbitrary: ys)
  case (Cons x xs)
  show ?case
  proof (cases "m_rtEventTime p < m_rtEventTime x")
    case False
    then obtain zs where zs: "shunt_into p xs = Inr zs" "ys = x # zs" using Cons(2) by (auto split: sum.splits)
    note IH = Cons(1) [OF zs(1)]
    then have "set zs = insert p (set xs)" by (metis set_mset_add_mset_insert set_mset_mset)
    then show ?thesis using IH zs(2) False by auto
  qed (use Cons(2) in force)
qed (auto split: if_splits)

lemma shunted_ok:
  assumes s: "schedule_ok s" and p: "packets s = p # ps" and q: "shunt_into (next_time p) ps = Inr qs"
  shows "schedule_ok (s\<lparr>packets := qs\<rparr>)"
proof -
  have m: "mset qs = mset (next_time p # ps)" and o: "ordered qs" using shunt_into_keeps [OF q] s p by (auto simp: schedule_ok_def)
  then have "mset (map m_dwAdviseCookie qs) = mset (map m_dwAdviseCookie (next_time p # ps))" by (simp only: mset_map)
  then have "distinct (map m_dwAdviseCookie qs) = distinct (map m_dwAdviseCookie (p # ps))" "length qs = length (p # ps)"
    using mset_eq_imp_distinct_iff mset_eq_length [OF m] by (fastforce simp: next_time_def)+
  then show ?thesis using s p o mset_eq_setD [OF m] by (auto simp: schedule_ok_def next_time_def)
qed

lemma dropped_ok:
  assumes s: "schedule_ok s" and p: "packets s = p # ps"
  shows "schedule_ok (Schedule_Delete s\<lparr>packets := ps, m_dwAdviseCount := m_dwAdviseCount s - 1\<rparr>)"
  using assms by (auto simp: schedule_ok_def Schedule_Delete_ok)

lemma advise_loop_ok: "advise_loop f t s fired = Inr (n, s', fired') \<Longrightarrow> schedule_ok s \<Longrightarrow> schedule_ok s'"
proof (induction f t s fired rule: advise_loop.induct)
  case (1 f t s fired)
  show ?case using 1(3) 1(1,2) 1(4) by (subst (asm) advise_loop.simps)
      (auto split: list.splits if_splits nat.splits sum.splits simp: shunted_ok dropped_ok)
qed

lemma remove_inserted: "m_dwAdviseCookie p = c \<Longrightarrow> c \<notin> m_dwAdviseCookie ` set xs \<Longrightarrow>
   remove_cookie c (snd (insert_packet p xs)) = Some xs"
  by (induction xs) (auto simp: image_iff)

lemma unknown_cookie: "c \<notin> m_dwAdviseCookie ` set xs \<Longrightarrow> remove_cookie c xs = None"
  by (simp add: remove_cookie_spec)

lemma inserted_first: "fst (insert_packet p xs) \<longleftrightarrow> (case xs of [] \<Rightarrow> True | x # _ \<Rightarrow> m_rtEventTime p \<le> m_rtEventTime x)"
  by (cases xs) auto

lemma shunt_to_the_end: "\<forall>q \<in> set xs. m_rtEventTime q \<le> MAX_TIME \<Longrightarrow> m_rtEventTime p = MAX_TIME \<Longrightarrow> shunt_into p xs = Inl Null_followed"
  by (induction xs) auto

section \<open>Histories of calls\<close>

datatype sched_call = Call_add bool int int nat bool | Call_unadvise u64 | Call_advise nat int

fun sched_calls :: "sched_call list \<Rightarrow> schedule \<Rightarrow> loop_stop + schedule" where
  "sched_calls [] s = Inr s"
| "sched_calls (Call_add memory t1 t2 h per # cs) s = sched_calls cs (snd (snd (AddAdvisePacket memory t1 t2 h per s)))"
| "sched_calls (Call_unadvise c # cs) s = sched_calls cs (snd (Unadvise c s))"
| "sched_calls (Call_advise fuel t # cs) s = (case Advise fuel t s of Inl e \<Rightarrow> Inl e | Inr (n, s', fired) \<Rightarrow> sched_calls cs s')"

lemma advise_loop_cookie: "advise_loop f t s fired = Inr (n, s', fired') \<Longrightarrow> m_dwNextCookie s' = m_dwNextCookie s"
proof (induction f t s fired rule: advise_loop.induct)
  case (1 f t s fired)
  show ?case using 1(3) 1(1,2) by (subst (asm) advise_loop.simps)
      (auto split: list.splits if_splits nat.splits sum.splits)
qed

lemma AddAdvisePacket_cookie: "m_dwNextCookie (snd (snd (AddAdvisePacket memory t1 t2 h per s))) \<in> {m_dwNextCookie s, m_dwNextCookie s + 1}"
  by (simp add: AddAdvisePacket_def Let_def split_beta)

lemma Unadvise_cookie: "m_dwNextCookie (snd (Unadvise c s)) = m_dwNextCookie s"
  by (simp add: Unadvise_def split: option.split)

lemma sched_calls_ok: "sched_calls cs s = Inr s' \<Longrightarrow> schedule_ok s \<Longrightarrow> unat (m_dwNextCookie s) + length cs < 2 ^ 64 \<Longrightarrow> schedule_ok s'"
proof (induction cs s rule: sched_calls.induct)
  case (2 memory t1 t2 h per cs s)
  let ?s = "snd (snd (AddAdvisePacket memory t1 t2 h per s))"
  have "unat (m_dwNextCookie s) < 2 ^ 64 - 1" using 2(4) by simp
  then have l: "m_dwNextCookie s < - 1" by (simp add: word_less_nat_alt unsigned_minus_1_eq_mask mask_eq_exp_minus_1)
  have "unat (m_dwNextCookie s + 1) \<le> unat (m_dwNextCookie s) + 1" by (simp add: unat_word_ariths)
  then have "unat (m_dwNextCookie ?s) + length cs < 2 ^ 64" using AddAdvisePacket_cookie [of memory t1 t2 h per s] 2(4) by auto
  then show ?case using 2(1) 2(2) AddAdvisePacket_ok [OF 2(3) l] by simp
next
  case (3 c cs s)
  then show ?case using Unadvise_ok [OF 3(3), of c] by (simp add: Unadvise_cookie)
next
  case (4 fuel t cs s)
  then obtain n s1 fired where a: "Advise fuel t s = Inr (n, s1, fired)" "sched_calls cs s1 = Inr s'"
    by (auto split: sum.splits)
  then show ?case using 4(1) [OF a(1)] 4(3,4) advise_loop_ok [OF a(1) [unfolded Advise_def]] advise_loop_cookie [OF a(1) [unfolded Advise_def]] by simp
qed simp

section \<open>Properties\<close>

text \<open>After any history of additions, cancellations and dispatches the list is in the order of its times, cookies are
  unique and the counts of packets and of cached packets are right.\<close>

theorem schedule_stays_consistent:
  assumes "sched_calls cs new_schedule = Inr s" and "length cs < 2 ^ 64"
  shows "schedule_ok s"
  using sched_calls_ok [OF assms(1) new_schedule_ok] assms(2) by (simp add: new_schedule_def)

theorem schedule_stays_consistent_witness:
  "sched_calls [Call_add True 30 0 1 False, Call_add True 10 20 2 True, Call_advise 5 30, Call_unadvise 2] new_schedule
     = Inr \<lparr>packets = [], m_dwNextCookie = 2, m_dwAdviseCount = 0, cached = 2, m_dwCacheCount = 2\<rparr>
   \<and> schedule_ok \<lparr>packets = [], m_dwNextCookie = 2, m_dwAdviseCount = 0, cached = 2, m_dwCacheCount = 2\<rparr>"
proof -
  have r: "sched_calls [Call_add True 30 0 1 False, Call_add True 10 20 2 True, Call_advise 5 30, Call_unadvise 2] new_schedule
     = Inr \<lparr>packets = [], m_dwNextCookie = 2, m_dwAdviseCount = 0, cached = 2, m_dwCacheCount = 2\<rparr>"
    by (simp add: new_schedule_def AddAdvisePacket_def Advise_def Unadvise_def Schedule_Delete_def dwCacheMax_def advise_loop.simps
        next_time_def wrap64_def MAX_TIME_def Let_def word_le_nat_alt)
  then show ?thesis using schedule_stays_consistent [OF r] by simp
qed

text \<open>C31: \<open>Advise\<close> returns, after as many rounds as notifications are due. It gives exactly these, in the order of their
  times: one for a single packet, one for each period that has begun for a periodic one. What is left on the list
  is later, and the time returned is that of the first packet left.\<close>

theorem advise_dispatches_what_is_due:
  assumes "schedule_ok s" and "\<forall>p \<in> set (packets s). calm t p" and "size (all_due t (packets s)) \<le> fuel"
  shows "\<exists>s' new. Advise fuel t s = Inr (GetNextAdviseTime s', s', new) \<and> schedule_ok s' \<and>
      mset new = all_due t (packets s) \<and> sorted (map m_rtEventTime new) \<and>
      mset (packets s') = all_after t (packets s) \<and> (\<forall>p \<in> set (packets s'). t < m_rtEventTime p)"
  using advise_loop_spec [of s t fuel "[]"] assms advise_loop_ok unfolding schedule_ok_def [of s] Advise_def dispatched_def
  by (metis append_Nil assms(1))

theorem advise_dispatches_what_is_due_witness:
  "\<exists>s' new. Advise 4 30 (snd (snd (AddAdvisePacket True 10 9 7 True new_schedule))) = Inr (GetNextAdviseTime s', s', new) \<and>
     map m_rtEventTime new = [10, 19, 28] \<and> map m_rtEventTime (packets s') = [37]"
proof -
  let ?p = "\<lparr>m_dwAdviseCookie = 1, m_rtEventTime = 10, m_rtPeriod = 9, m_hNotify = 7, m_bPeriodic = True\<rparr>"
  let ?s = "snd (snd (AddAdvisePacket True 10 9 7 True new_schedule))"
  have p: "packets ?s = [?p]" by (simp add: AddAdvisePacket_def new_schedule_def Let_def)
  have ok: "schedule_ok ?s" by (rule AddAdvisePacket_ok [OF new_schedule_ok]) (simp add: new_schedule_def word_gt_0)
  have d: "due 30 ?p = [?p, ?p\<lparr>m_rtEventTime := 19\<rparr>, ?p\<lparr>m_rtEventTime := 28\<rparr>]" by (simp add: due_periodic upt_rec)
  have a: "after 30 ?p = {#?p\<lparr>m_rtEventTime := 37\<rparr>#}" by (simp add: after_def)
  obtain s' new where r: "Advise 4 30 ?s = Inr (GetNextAdviseTime s', s', new)" "mset new = mset (due 30 ?p)"
      "sorted (map m_rtEventTime new)" "mset (packets s') = after 30 ?p"
    using advise_dispatches_what_is_due [OF ok, of 30 4] by (auto simp: p d calm_def MAX_TIME_def all_due_def all_after_def)
  have "mset (map m_rtEventTime new) = mset [10, 19, 28]" using r(2) by (simp add: d)
  then have "map m_rtEventTime new = [10, 19, 28]" using r(3) properties_for_sort [of "map m_rtEventTime new" "[10, 19, 28]"] by simp
  then show ?thesis using r(1,4) a by auto
qed

text \<open>Cancelling a notification with the cookie its addition returned takes it off the list, which is then what it was
  before; cancelling it again finds nothing. The clock's event is set exactly if nothing on the list is earlier.\<close>

theorem cancelling_undoes_adding:
  assumes "schedule_ok s" and "m_dwNextCookie s < - 1" and "AddAdvisePacket True t1 t2 h per s = (c, ev, s1)"
  shows "\<exists>s2. Unadvise c s1 = (S_OK, s2) \<and> packets s2 = packets s \<and> m_dwAdviseCount s2 = m_dwAdviseCount s \<and> Unadvise c s2 = (S_FALSE, s2)
     \<and> c \<noteq> 0 \<and> (ev \<longleftrightarrow> (\<forall>p \<in> set (packets s). t1 \<le> m_rtEventTime p))"
proof -
  let ?p = "\<lparr>m_dwAdviseCookie = c, m_rtEventTime = t1, m_rtPeriod = t2, m_hNotify = h, m_bPeriodic = per\<rparr>"
  have a: "c = m_dwNextCookie s + 1" "ev = fst (insert_packet ?p (packets s))" "packets s1 = snd (insert_packet ?p (packets s))"
    "m_dwAdviseCount s1 = m_dwAdviseCount s + 1"
    using assms(3) by (auto simp: AddAdvisePacket_def Let_def split_beta split: if_splits)
  have n: "c \<notin> m_dwAdviseCookie ` set (packets s)" "c \<noteq> 0"
    using next_cookie [OF assms(2)] assms(1) unfolding a(1) schedule_ok_def by fastforce+
  have "remove_cookie c (packets s1) = Some (packets s)" unfolding a(3) by (rule remove_inserted) (use n in auto)
  moreover have "ev \<longleftrightarrow> (\<forall>p \<in> set (packets s). t1 \<le> m_rtEventTime p)"
    using assms(1) unfolding a(2) inserted_first by (auto simp: schedule_ok_def split: list.splits intro: order_trans)
  ultimately show ?thesis using n unknown_cookie [OF n(1)] a(4) by (auto simp: Unadvise_def)
qed

theorem cancelling_undoes_adding_witness:
  "\<exists>s2. Unadvise 1 (snd (snd (AddAdvisePacket True 10 9 7 True new_schedule))) = (S_OK, s2) \<and> packets s2 = [] \<and> Unadvise 1 s2 = (S_FALSE, s2)"
proof -
  have a: "AddAdvisePacket True 10 9 7 True new_schedule = (1, True, snd (snd (AddAdvisePacket True 10 9 7 True new_schedule)))"
    by (simp add: AddAdvisePacket_def new_schedule_def Let_def)
  show ?thesis using cancelling_undoes_adding [OF new_schedule_ok _ a] by (fastforce simp: new_schedule_def word_gt_0)
qed

text \<open>C32: A periodic packet whose next time is the end of time, to the tick, makes the dispatch that notifies it run off the end
  of the list: the sentry's time is not later, so the walk goes on through its null pointer.\<close>

theorem last_period_runs_off_the_list:
  assumes "\<forall>p \<in> set (packets s). start \<le> m_rtEventTime p \<and> m_rtEventTime p \<le> MAX_TIME"
    and "start \<le> t" and "t < MAX_TIME" and "0 < fuel"
  shows "Advise fuel t (snd (snd (AddAdvisePacket True start (MAX_TIME - start) h True s))) = Inl Null_followed"
proof -
  let ?p = "\<lparr>m_dwAdviseCookie = m_dwNextCookie s + 1, m_rtEventTime = start, m_rtPeriod = MAX_TIME - start, m_hNotify = h, m_bPeriodic = True\<rparr>"
  have "insert_packet ?p (packets s) = (True, ?p # packets s)" using assms(1) by (cases "packets s") auto
  then have "packets (snd (snd (AddAdvisePacket True start (MAX_TIME - start) h True s))) = ?p # packets s"
    by (simp add: AddAdvisePacket_def Let_def split_beta)
  moreover have "shunt_into (next_time ?p) (packets s) = Inl Null_followed"
    by (rule shunt_to_the_end) (use assms(1) in \<open>simp_all add: next_time_def wrap64_def MAX_TIME_def\<close>)
  moreover obtain f where "fuel = Suc f" using assms(4) by (cases fuel) auto
  ultimately show ?thesis using assms(2) by (simp add: Advise_def advise_loop.simps)
qed

theorem last_period_runs_off_the_list_witness:
  "Advise 1 20000000 (snd (snd (AddAdvisePacket True 10000000 9223372036844775807 7 True new_schedule))) = Inl Null_followed"
  using last_period_runs_off_the_list [of new_schedule 10000000 20000000 1 7] by (simp add: new_schedule_def MAX_TIME_def)

end
