(* ===== verification/Clock.thy ===== *)
theory Clock
  imports Schedule
begin

text \<open>
  The reference clock of the base classes (CBaseReferenceClock in baseclasses/refclock.cpp and refclock.h): a time that
  never goes back, derived from the system's count of milliseconds, and a thread that gives the notifications of a
  schedule. \<open>timeGetTime\<close> and \<open>timeGetDevCaps\<close> are arguments, the first as the 32-bit count it returns.
\<close>

section \<open>State\<close>

text \<open>\<open>event_set\<close> is the schedule's event, which resets when a wait ends, and \<open>begun_periods\<close> are the resolutions the
  process has asked the system's timer for with \<open>timeBeginPeriod\<close> and not given back.\<close>

record clock =
  m_rtPrivateTime :: int
  m_dwPrevSystemTime :: u32
  m_rtLastGotTime :: int
  m_rtNextAdvise :: int
  m_TimerResolution :: u32
  m_bAbort :: bool
  m_hThread :: bool
  m_pSchedule :: "schedule option"
  event_set :: bool
  begun_periods :: "u32 list"

definition timeEndPeriod :: "u32 \<Rightarrow> clock \<Rightarrow> clock" where
  "timeEndPeriod r c = c\<lparr>begun_periods := remove1 r (begun_periods c)\<rparr>"

definition timeBeginPeriod :: "u32 \<Rightarrow> clock \<Rightarrow> clock" where
  "timeBeginPeriod r c = c\<lparr>begun_periods := r # begun_periods c\<rparr>"

definition wPeriodMin :: "u32 option \<Rightarrow> u32" where
  "wPeriodMin caps = (case caps of None \<Rightarrow> 1 | Some r \<Rightarrow> r)"

text \<open>The constructor in raw memory, with the code it leaves in \<open>*phr\<close>, if any. Without a schedule of the derived class the
  clock makes its own, and a thread.\<close>

definition new_clock :: "clock \<Rightarrow> bool \<Rightarrow> u32 option \<Rightarrow> u32 \<Rightarrow> bool \<Rightarrow> schedule option \<Rightarrow> hresult option \<times> clock" where
  "new_clock raw memory caps now thread pShed =
    (let c = raw\<lparr>m_rtLastGotTime := 0, m_TimerResolution := 0, m_bAbort := False, m_hThread := False,
               m_pSchedule := (case pShed of Some s \<Rightarrow> Some s | None \<Rightarrow> if memory then Some new_schedule else None),
               event_set := False, begun_periods := []\<rparr>
     in if m_pSchedule c = None then (Some E_OUTOFMEMORY, c)
        else let c1 = timeBeginPeriod (wPeriodMin caps) (c\<lparr>m_TimerResolution := wPeriodMin caps\<rparr>);
                 c2 = c1\<lparr>m_dwPrevSystemTime := now, m_rtPrivateTime := 10000 * uint now\<rparr>
             in if pShed \<noteq> None then (None, c2)
                else if thread then (None, c2\<lparr>m_hThread := True\<rparr>)
                else (Some E_FAIL, c2\<lparr>m_pSchedule := None\<rparr>))"

text \<open>The destructor, which waits for the thread to see the flag.\<close>

definition delete_clock :: "clock \<Rightarrow> clock" where
  "delete_clock c =
    (let c1 = (if m_TimerResolution c \<noteq> 0 then timeEndPeriod (m_TimerResolution c) c else c)
     in if m_hThread c1 then c1\<lparr>m_bAbort := True, event_set := True, m_hThread := False, m_pSchedule := None\<rparr> else c1)"

section \<open>The time\<close>

text \<open>\<open>Int32x32To64\<close> takes both factors as signed 32-bit numbers.\<close>

definition GetPrivateTime :: "u32 \<Rightarrow> clock \<Rightarrow> int \<times> clock" where
  "GetPrivateTime dwTime c =
    (let c1 = c\<lparr>m_rtPrivateTime := wrap64 (m_rtPrivateTime c + 10000 * sint (dwTime - m_dwPrevSystemTime c)), m_dwPrevSystemTime := dwTime\<rparr>
     in (m_rtPrivateTime c1, c1))"

definition GetTime :: "bool \<Rightarrow> u32 \<Rightarrow> clock \<Rightarrow> hresult \<times> int option \<times> clock" where
  "GetTime pTime now c =
    (if \<not> pTime then (E_POINTER, None, c)
     else let (rtNow, c1) = GetPrivateTime now c
          in if m_rtLastGotTime c1 < rtNow then (S_OK, Some rtNow, c1\<lparr>m_rtLastGotTime := rtNow\<rparr>)
             else (S_FALSE, Some (m_rtLastGotTime c1), c1))"

definition Restart :: "int \<Rightarrow> clock \<Rightarrow> clock" where
  "Restart rtMinTime c = c\<lparr>m_rtLastGotTime := rtMinTime\<rparr>"

text \<open>The number of packets is read only if the step is large; without a schedule that is a null pointer.\<close>

definition SetTimeDelta :: "int \<Rightarrow> clock \<Rightarrow> loop_stop + clock" where
  "SetTimeDelta delta c =
    (let c1 = c\<lparr>m_rtPrivateTime := wrap64 (m_rtPrivateTime c + delta)\<rparr>
     in if 5000 < delta
        then (case m_pSchedule c1 of
                None \<Rightarrow> Inl Null_followed
              | Some s \<Rightarrow> Inr (if 0 < m_dwAdviseCount s then c1\<lparr>event_set := True\<rparr> else c1))
        else Inr c1)"

section \<open>Notifications\<close>

definition add_packet :: "bool \<Rightarrow> int \<Rightarrow> int \<Rightarrow> nat \<Rightarrow> bool \<Rightarrow> clock \<Rightarrow> loop_stop + u64 \<times> clock" where
  "add_packet memory time1 time2 h periodic c =
    (case m_pSchedule c of
       None \<Rightarrow> Inl Null_followed
     | Some s \<Rightarrow> (let (cookie, ev, s') = AddAdvisePacket memory time1 time2 h periodic s
                  in Inr (cookie, c\<lparr>m_pSchedule := Some s', event_set := event_set c \<or> ev\<rparr>)))"

text \<open>The result of a request is the code and, where there is a place for it, the cookie.\<close>

definition AdviseTime :: "bool \<Rightarrow> int \<Rightarrow> int \<Rightarrow> nat \<Rightarrow> bool \<Rightarrow> clock \<Rightarrow> loop_stop + hresult \<times> u64 \<times> clock" where
  "AdviseTime memory baseTime streamTime hEvent pdwAdviseCookie c =
    (if \<not> pdwAdviseCookie then Inr (E_POINTER, 0, c)
     else let lRefTime = wrap64 (baseTime + streamTime)
          in if lRefTime \<le> 0 \<or> lRefTime = MAX_TIME then Inr (E_INVALIDARG, 0, c)
             else case add_packet memory lRefTime 0 hEvent False c of
                    Inl e \<Rightarrow> Inl e
                  | Inr (cookie, c1) \<Rightarrow> Inr (if cookie \<noteq> 0 then S_OK else E_OUTOFMEMORY, cookie, c1))"

definition AdvisePeriodic :: "bool \<Rightarrow> int \<Rightarrow> int \<Rightarrow> nat \<Rightarrow> bool \<Rightarrow> clock \<Rightarrow> loop_stop + hresult \<times> u64 \<times> clock" where
  "AdvisePeriodic memory StartTime PeriodTime hSemaphore pdwAdviseCookie c =
    (if \<not> pdwAdviseCookie then Inr (E_POINTER, 0, c)
     else if 0 < StartTime \<and> 0 < PeriodTime \<and> StartTime \<noteq> MAX_TIME
     then case add_packet memory StartTime PeriodTime hSemaphore True c of
            Inl e \<Rightarrow> Inl e
          | Inr (cookie, c1) \<Rightarrow> Inr (if cookie \<noteq> 0 then S_OK else E_OUTOFMEMORY, cookie, c1)
     else Inr (E_INVALIDARG, 0, c))"

definition Clock_Unadvise :: "u64 \<Rightarrow> clock \<Rightarrow> loop_stop + hresult \<times> clock" where
  "Clock_Unadvise cookie c =
    (case m_pSchedule c of
       None \<Rightarrow> Inl Null_followed
     | Some s \<Rightarrow> (let (hr, s') = Unadvise cookie s in Inr (hr, c\<lparr>m_pSchedule := Some s'\<rparr>)))"

text \<open>One pass of the thread's loop, from the end of its wait to the next: how long it will wait, unless it leaves the loop,
  and what it has notified.\<close>

definition UINT_MAX :: int where "UINT_MAX = 0xFFFFFFFF"

definition AdviseThread_pass :: "nat \<Rightarrow> u32 \<Rightarrow> clock \<Rightarrow> loop_stop + u32 option \<times> packet list \<times> clock" where
  "AdviseThread_pass fuel now c0 =
    (let c = c0\<lparr>event_set := False\<rparr>
     in if m_bAbort c then Inr (None, [], c)
        else let (rtNow, c1) = GetPrivateTime now c
             in case m_pSchedule c1 of
                  None \<Rightarrow> Inl Null_followed
                | Some s \<Rightarrow>
                   (case Advise fuel (wrap64 (10000 + rtNow)) s of
                      Inl e \<Rightarrow> Inl e
                    | Inr (next_advise, s', fired) \<Rightarrow>
                       (let llWait = quot_toward_zero (wrap64 (next_advise - rtNow)) 10000
                        in Inr (Some (if UINT_MAX < llWait then word_of_int UINT_MAX else word_of_int llWait), fired,
                                c1\<lparr>m_rtNextAdvise := next_advise, m_pSchedule := Some s'\<rparr>))))"

section \<open>The resolution of the timer\<close>

definition SetDefaultTimerResolution :: "u32 option \<Rightarrow> int \<Rightarrow> clock \<Rightarrow> clock" where
  "SetDefaultTimerResolution caps timerResolution c =
    (if timerResolution = 0
     then if m_TimerResolution c \<noteq> 0 then (timeEndPeriod (m_TimerResolution c) c)\<lparr>m_TimerResolution := 0\<rparr> else c
     else let dwResolution = max (wPeriodMin caps) (word_of_int (quot_toward_zero timerResolution 10000))
          in if dwResolution \<noteq> m_TimerResolution c
             then timeBeginPeriod dwResolution ((timeEndPeriod (m_TimerResolution c) c)\<lparr>m_TimerResolution := dwResolution\<rparr>)
             else c)"

definition GetDefaultTimerResolution :: "bool \<Rightarrow> clock \<Rightarrow> hresult \<times> int option" where
  "GetDefaultTimerResolution pTimerResolution c =
    (if \<not> pTimerResolution then (E_POINTER, None) else (S_OK, Some (uint (m_TimerResolution c * 10000))))"

section \<open>Histories of calls\<close>

datatype clock_call =
    Ask_time u32 | Adjust int | Thread_wakes nat u32
  | Ask_once bool int int nat | Ask_periodic bool int int nat | Cancel_advise u64 | Set_resolution "u32 option" int

text \<open>The time a call returns, if it is a call of \<open>GetTime\<close>; then the times of a history, and the clock after it.\<close>

primrec clock_step :: "clock_call \<Rightarrow> clock \<Rightarrow> loop_stop + int option \<times> clock" where
  "clock_step (Ask_time now) c = (case GetTime True now c of (hr, t, c1) \<Rightarrow> Inr (t, c1))"
| "clock_step (Adjust d) c = (case SetTimeDelta d c of Inl e \<Rightarrow> Inl e | Inr c1 \<Rightarrow> Inr (None, c1))"
| "clock_step (Thread_wakes fuel now) c = (case AdviseThread_pass fuel now c of Inl e \<Rightarrow> Inl e | Inr (w, fired, c1) \<Rightarrow> Inr (None, c1))"
| "clock_step (Ask_once memory base st h) c =
    (case AdviseTime memory base st h True c of Inl e \<Rightarrow> Inl e | Inr (hr, cookie, c1) \<Rightarrow> Inr (None, c1))"
| "clock_step (Ask_periodic memory st per h) c =
    (case AdvisePeriodic memory st per h True c of Inl e \<Rightarrow> Inl e | Inr (hr, cookie, c1) \<Rightarrow> Inr (None, c1))"
| "clock_step (Cancel_advise cookie) c = (case Clock_Unadvise cookie c of Inl e \<Rightarrow> Inl e | Inr (hr, c1) \<Rightarrow> Inr (None, c1))"
| "clock_step (Set_resolution caps r) c = Inr (None, SetDefaultTimerResolution caps r c)"

primrec clock_calls :: "clock_call list \<Rightarrow> clock \<Rightarrow> loop_stop + int list \<times> clock" where
  "clock_calls [] c = Inr ([], c)"
| "clock_calls (k # ks) c =
    (case clock_step k c of
       Inl e \<Rightarrow> Inl e
     | Inr (t, c1) \<Rightarrow> (case clock_calls ks c1 of Inl e \<Rightarrow> Inl e | Inr (ts, c2) \<Rightarrow> Inr ((case t of None \<Rightarrow> ts | Some u \<Rightarrow> u # ts), c2)))"

lemma clock_calls_Cons:
  assumes "clock_calls (k # ks) c = Inr (ts, c')"
  obtains t c1 us where "clock_step k c = Inr (t, c1)" "clock_calls ks c1 = Inr (us, c')" "ts = (case t of None \<Rightarrow> us | Some u \<Rightarrow> u # us)"
  using assms by (auto split: sum.splits prod.splits)

section \<open>The parts that calls do not touch\<close>

lemma GetPrivateTime_frame [frame_simps]: "m_rtLastGotTime (snd (GetPrivateTime now c)) = m_rtLastGotTime c"
  "m_pSchedule (snd (GetPrivateTime now c)) = m_pSchedule c" "m_bAbort (snd (GetPrivateTime now c)) = m_bAbort c"
  by (simp_all add: GetPrivateTime_def Let_def)

lemma add_packet_last: "add_packet memory t1 t2 h per c = Inr (cookie, c1) \<Longrightarrow> m_rtLastGotTime c1 = m_rtLastGotTime c"
  by (auto simp: add_packet_def Let_def split: option.splits prod.splits)

lemma advise_calls_last:
  "AdviseTime memory base st h out c = Inr (hr, cookie, c1) \<Longrightarrow> m_rtLastGotTime c1 = m_rtLastGotTime c"
  "AdvisePeriodic memory st per h out c = Inr (hr, cookie, c1) \<Longrightarrow> m_rtLastGotTime c1 = m_rtLastGotTime c"
  "Clock_Unadvise k c = Inr (hr, c1) \<Longrightarrow> m_rtLastGotTime c1 = m_rtLastGotTime c"
  by (auto simp: AdviseTime_def AdvisePeriodic_def Clock_Unadvise_def Let_def add_packet_last
      split: option.splits prod.splits if_splits sum.splits)

lemma other_calls_last:
  "SetTimeDelta d c = Inr c1 \<Longrightarrow> m_rtLastGotTime c1 = m_rtLastGotTime c"
  "AdviseThread_pass fuel now c = Inr (w, fired, c1) \<Longrightarrow> m_rtLastGotTime c1 = m_rtLastGotTime c"
  "m_rtLastGotTime (SetDefaultTimerResolution caps r c) = m_rtLastGotTime c"
  by (auto simp: SetTimeDelta_def AdviseThread_pass_def GetPrivateTime_def SetDefaultTimerResolution_def timeBeginPeriod_def timeEndPeriod_def Let_def
      split: option.splits prod.splits if_splits sum.splits)

lemma GetTime_last:
  assumes "GetTime True now c = (hr, t, c1)"
  shows "t = Some (m_rtLastGotTime c1) \<and> m_rtLastGotTime c \<le> m_rtLastGotTime c1 \<and> (hr = S_OK \<longleftrightarrow> m_rtLastGotTime c < m_rtLastGotTime c1)"
  using assms by (auto simp: GetTime_def GetPrivateTime_def Let_def split: if_splits)

lemma clock_step_last: "clock_step k c = Inr (t, c1) \<Longrightarrow>
   (t = None \<and> m_rtLastGotTime c1 = m_rtLastGotTime c) \<or> (t = Some (m_rtLastGotTime c1) \<and> m_rtLastGotTime c \<le> m_rtLastGotTime c1)"
  by (cases k) (auto split: sum.splits prod.splits dest: GetTime_last simp: advise_calls_last other_calls_last)

section \<open>The private time\<close>

text \<open>The clock after readings at the given true times, in milliseconds; \<open>timeGetTime\<close> returns them modulo \<open>2 ^ 32\<close>.\<close>

primrec readings :: "nat list \<Rightarrow> clock \<Rightarrow> clock" where
  "readings [] c = c"
| "readings (T # Ts) c = readings Ts (snd (GetPrivateTime (of_nat T) c))"

primrec paced :: "nat \<Rightarrow> nat list \<Rightarrow> bool" where
  "paced T [] = True"
| "paced T (U # Us) = (T \<le> U \<and> U - T < 2 ^ 31 \<and> paced U Us)"

lemma paced_last: "paced T Ts \<Longrightarrow> T \<le> last (T # Ts)"
proof (induction Ts arbitrary: T)
  case (Cons U Us)
  then show ?case using order_trans [of T U "last (U # Us)"] by auto
qed simp

lemma sint_of_nat_small: "n < 2 ^ 31 \<Longrightarrow> sint (of_nat n :: u32) = int n"
  by (simp add: sint_uint unsigned_of_nat take_bit_nat_eq_self signed_take_bit_int_eq_self)

lemma readings_spec:
  "paced T Ts \<Longrightarrow> m_dwPrevSystemTime c = of_nat T \<Longrightarrow> - (2 ^ 63) \<le> m_rtPrivateTime c \<Longrightarrow>
   m_rtPrivateTime c + 10000 * (int (last (T # Ts)) - int T) \<le> MAX_TIME \<Longrightarrow>
   m_rtPrivateTime (readings Ts c) = m_rtPrivateTime c + 10000 * (int (last (T # Ts)) - int T)"
proof (induction Ts arbitrary: T c)
  case (Cons U Us)
  let ?c = "snd (GetPrivateTime (of_nat U) c)"
  have p: "T \<le> U" "U - T < 2 ^ 31" "paced U Us" "U \<le> last (U # Us)" using Cons(2) paced_last by auto
  have "(of_nat U :: u32) - of_nat T = of_nat (U - T)" using p(1) by (simp add: of_nat_diff)
  then have d: "sint ((of_nat U :: u32) - of_nat T) = int U - int T" using p(1) sint_of_nat_small [OF p(2)] by (simp only: of_nat_diff)
  have "m_rtPrivateTime c + 10000 * (int U - int T) \<le> MAX_TIME" using Cons(5) p(4) by simp
  then have c: "m_rtPrivateTime ?c = m_rtPrivateTime c + 10000 * (int U - int T)" "m_dwPrevSystemTime ?c = of_nat U"
    using wrap64_id [of "m_rtPrivateTime c + 10000 * (int U - int T)"] Cons(3,4) p(1) by (simp_all add: GetPrivateTime_def Let_def d)
  show ?case using Cons(1) [OF p(3) c(2)] Cons(4,5) p(1) by (simp add: c(1))
qed simp

lemma sint_sign32: "0 \<le> sint x \<longleftrightarrow> uint x < 2 ^ 31" for x :: u32
  using uint_sint32 [of x] sint_range(3,4) [of x] by (simp split: if_splits)

lemma due_cookie: "x \<in> set (due t p) \<Longrightarrow> m_dwAdviseCookie x = m_dwAdviseCookie p"
proof (induction t p rule: due.induct)
  case (1 t p)
  then show ?case by (subst (asm) (2) due.simps) (auto split: if_splits)
qed

lemma all_due_cookies: "x \<in># all_due t ps \<Longrightarrow> \<exists>p \<in> set ps. m_dwAdviseCookie x = m_dwAdviseCookie p"
  by (induction ps) (use due_cookie in auto)

lemma all_after_cookies: "x \<in># all_after t ps \<Longrightarrow> \<exists>p \<in> set ps. m_dwAdviseCookie x = m_dwAdviseCookie p"
  by (induction ps) (auto simp: after_def split: if_splits)

section \<open>A pass of the thread\<close>

lemma GetPrivateTime_pair: "GetPrivateTime now c = (m_rtPrivateTime (snd (GetPrivateTime now c)), snd (GetPrivateTime now c))"
  by (simp add: GetPrivateTime_def Let_def)

text \<open>The time the thread will see: the private time after its reading.\<close>

definition now_of :: "u32 \<Rightarrow> clock \<Rightarrow> int" where
  "now_of now c = fst (GetPrivateTime now c)"

text \<open>What a pass needs: it runs, the schedule is as it should be, and no time is near the end of time.\<close>

definition ready_to_pass :: "nat \<Rightarrow> u32 \<Rightarrow> clock \<Rightarrow> schedule \<Rightarrow> bool" where
  "ready_to_pass fuel now c s \<longleftrightarrow> \<not> m_bAbort c \<and> m_pSchedule c = Some s \<and> schedule_ok s \<and>
     0 \<le> now_of now c \<and> now_of now c + 10000 < MAX_TIME \<and> (\<forall>p \<in> set (packets s). calm (now_of now c + 10000) p \<and> m_rtEventTime p \<le> MAX_TIME) \<and>
     size (all_due (now_of now c + 10000) (packets s)) \<le> fuel"

lemma after_times: "calm t p \<Longrightarrow> m_rtEventTime p \<le> MAX_TIME \<Longrightarrow> x \<in># after t p \<Longrightarrow> m_rtEventTime x \<le> MAX_TIME"
proof -
  assume a: "calm t p" "m_rtEventTime p \<le> MAX_TIME" "x \<in># after t p"
  show ?thesis
  proof (cases "t < m_rtEventTime p")
    case False
    then have x: "m_rtEventTime x = m_rtEventTime p + ((t - m_rtEventTime p) div m_rtPeriod p + 1) * m_rtPeriod p" "0 < m_rtPeriod p" "t + m_rtPeriod p < MAX_TIME"
      using a by (auto simp: after_def calm_def split: if_splits)
    have "(t - m_rtEventTime p) div m_rtPeriod p * m_rtPeriod p \<le> t - m_rtEventTime p"
      using pos_mod_sign [OF x(2), of "t - m_rtEventTime p"] div_mult_mod_eq [of "t - m_rtEventTime p" "m_rtPeriod p"] by linarith
    then show ?thesis using x by (simp add: distrib_right)
  qed (use a in \<open>simp add: after_def\<close>)
qed

lemma all_after_times:
  "\<forall>p \<in> set ps. calm t p \<and> m_rtEventTime p \<le> MAX_TIME \<Longrightarrow> x \<in># all_after t ps \<Longrightarrow> m_rtEventTime x \<le> MAX_TIME"
  by (induction ps) (use after_times in fastforce)+

lemma wait_value:
  assumes "10000 < d" "d \<le> MAX_TIME"
  shows "uint (if UINT_MAX < quot_toward_zero d 10000 then word_of_int UINT_MAX else word_of_int (quot_toward_zero d 10000) :: u32)
     = min UINT_MAX (d div 10000)" "0 < min UINT_MAX (d div 10000)"
proof -
  have "1 \<le> d div 10000" using zdiv_mono1 [of 10000 d 10000] assms by simp
  then show "0 < min UINT_MAX (d div 10000)" by (simp add: UINT_MAX_def)
  show "uint (if UINT_MAX < quot_toward_zero d 10000 then word_of_int UINT_MAX else word_of_int (quot_toward_zero d 10000) :: u32)
     = min UINT_MAX (d div 10000)"
    using assms \<open>1 \<le> d div 10000\<close> by (auto simp: UINT_MAX_def uint_word_of_int mod_pos_pos_trivial min_def)
qed

lemma pass_spec:
  assumes r: "ready_to_pass fuel now c s" and t: "t = now_of now c + 10000"
  shows "\<exists>w fired c' s'. AdviseThread_pass fuel now c = Inr (Some w, fired, c') \<and> m_pSchedule c' = Some s' \<and>
     schedule_ok s' \<and> dispatched t s s' fired \<and> m_rtNextAdvise c' = GetNextAdviseTime s' \<and> t < m_rtNextAdvise c' \<and> m_rtNextAdvise c' \<le> MAX_TIME \<and>
     uint w = min UINT_MAX ((m_rtNextAdvise c' - now_of now c) div 10000) \<and> 0 < uint w"
proof -
  obtain c1 where g: "GetPrivateTime now (c\<lparr>event_set := False\<rparr>) = (now_of now c, c1)" "m_pSchedule c1 = Some s"
    using r by (simp add: GetPrivateTime_def now_of_def ready_to_pass_def Let_def)
  have n: "0 \<le> now_of now c" "t < MAX_TIME" "\<forall>p \<in> set (packets s). calm t p \<and> m_rtEventTime p \<le> MAX_TIME" "size (all_due t (packets s)) \<le> fuel"
    "schedule_ok s" "ordered (packets s)" using r t by (auto simp: ready_to_pass_def schedule_ok_def)
  obtain s' fired where a: "Advise fuel t s = Inr (GetNextAdviseTime s', s', fired)" "dispatched t s s' fired"
    using advise_loop_spec [OF n(6) _ n(4), of "[]"] n(3) by (auto simp: Advise_def)
  have ok: "schedule_ok s'" using advise_loop_ok [OF a(1) [unfolded Advise_def] n(5)] .
  have after: "\<forall>p \<in> set (packets s'). t < m_rtEventTime p \<and> m_rtEventTime p \<le> MAX_TIME"
    using a(2) all_after_times [OF n(3)] unfolding dispatched_def by (metis set_mset_mset)
  then have nx: "t < GetNextAdviseTime s'" "GetNextAdviseTime s' \<le> MAX_TIME"
    using n(2) by (auto simp: GetNextAdviseTime_def split: list.splits)
  define d where "d = GetNextAdviseTime s' - now_of now c"
  have d: "10000 < d" "d \<le> MAX_TIME" "wrap64 d = d" using nx n(1) t wrap64_id [of d] by (auto simp: d_def)
  have e: "wrap64 (10000 + now_of now c) = t" using n(1,2) t wrap64_id [of t] by (simp add: add.commute)
  define w where "w = (if UINT_MAX < quot_toward_zero d 10000 then word_of_int UINT_MAX else word_of_int (quot_toward_zero d 10000) :: u32)"
  have "AdviseThread_pass fuel now c = Inr (Some w, fired, c1\<lparr>m_rtNextAdvise := GetNextAdviseTime s', m_pSchedule := Some s'\<rparr>)"
    using r by (simp add: AdviseThread_pass_def ready_to_pass_def Let_def g a(1) e d(3) w_def d_def [symmetric])
  then show ?thesis using a(2) ok nx wait_value [OF d(1,2), folded w_def] by (auto simp: d_def)
qed

section \<open>Properties\<close>

text \<open>However the calls of the clients and the passes of the thread are interleaved, and however the private time is set
  forward and back in between, the times that \<open>GetTime\<close> returns never decrease, nor fall below the last one returned before.\<close>

theorem time_never_goes_back:
  assumes "clock_calls cs c = Inr (ts, c')"
  shows "sorted (m_rtLastGotTime c # ts) \<and> m_rtLastGotTime c' = last (m_rtLastGotTime c # ts)"
  using assms
proof (induction cs arbitrary: c ts)
  case (Cons k ks)
  from Cons(2) obtain t c1 us where r: "clock_step k c = Inr (t, c1)" "clock_calls ks c1 = Inr (us, c')" "ts = (case t of None \<Rightarrow> us | Some u \<Rightarrow> u # us)"
    by (rule clock_calls_Cons)
  show ?case using Cons(1) [OF r(2)] clock_step_last [OF r(1)] r(3) by (auto intro: order_trans)
qed simp

definition demo_clock :: clock where
  "demo_clock = \<lparr>m_rtPrivateTime = 0, m_dwPrevSystemTime = 0, m_rtLastGotTime = 0, m_rtNextAdvise = 0, m_TimerResolution = 1,
     m_bAbort = False, m_hThread = True, m_pSchedule = Some new_schedule, event_set = False, begun_periods = [1]\<rparr>"

lemma demo_clock_made: "new_clock demo_clock True None 0 True None = (None, demo_clock)"
  by (simp add: new_clock_def demo_clock_def timeBeginPeriod_def wPeriodMin_def Let_def)

theorem time_never_goes_back_witness:
  "\<exists>c'. clock_calls [Ask_time 5, Adjust (- 100000), Ask_time 6, Ask_time 50] demo_clock = Inr ([50000, 50000, 400000], c') \<and>
     m_rtLastGotTime c' = 400000"
proof -
  obtain c' where r: "clock_calls [Ask_time 5, Adjust (- 100000), Ask_time 6, Ask_time 50] demo_clock = Inr ([50000, 50000, 400000], c')"
    by (simp add: GetTime_def GetPrivateTime_def SetTimeDelta_def demo_clock_def wrap64_def Let_def)
  show ?thesis using time_never_goes_back [OF r] r by simp
qed

text \<open>The private time goes on by what has passed, in units of 100 ns, however often the system's 32-bit count of milliseconds
  starts again at 0, if no two readings are \<open>2 ^ 31\<close> milliseconds apart (about 25 days).\<close>

theorem private_time_counts_milliseconds:
  assumes "paced T Ts" and "m_dwPrevSystemTime c = of_nat T" and "- (2 ^ 63) \<le> m_rtPrivateTime c"
    and "m_rtPrivateTime c + 10000 * (int (last (T # Ts)) - int T) \<le> MAX_TIME"
  shows "m_rtPrivateTime (readings Ts c) = m_rtPrivateTime c + 10000 * (int (last (T # Ts)) - int T)"
  using assms by (rule readings_spec)

theorem private_time_counts_milliseconds_witness:
  "m_rtPrivateTime (readings [2000000000, 4000000000, 6000000000] demo_clock) = 60000000000000"
  using private_time_counts_milliseconds [of 0 "[2000000000, 4000000000, 6000000000]" demo_clock]
  by (simp add: demo_clock_def MAX_TIME_def)

text \<open>After a pause of \<open>2 ^ 31\<close> milliseconds or more between two readings the private time goes back instead of forward, and
  \<open>GetTime\<close> stands still; after a shorter pause it does not go back.\<close>

theorem long_pause_sets_the_clock_back:
  assumes "\<bar>m_rtPrivateTime c\<bar> \<le> 2 ^ 62"
  shows "(m_rtPrivateTime c \<le> fst (GetPrivateTime now c) \<longleftrightarrow> uint (now - m_dwPrevSystemTime c) < 2 ^ 31) \<and>
    (m_rtPrivateTime c \<le> m_rtLastGotTime c \<and> 2 ^ 31 \<le> uint (now - m_dwPrevSystemTime c) \<longrightarrow> fst (GetTime True now c) = S_FALSE)"
proof -
  have r: "fst (GetPrivateTime now c) = m_rtPrivateTime c + 10000 * sint (now - m_dwPrevSystemTime c)"
    using assms sint_range(3,4) [of "now - m_dwPrevSystemTime c"] wrap64_id [of "m_rtPrivateTime c + 10000 * sint (now - m_dwPrevSystemTime c)"]
    by (simp add: GetPrivateTime_def Let_def MAX_TIME_def)
  have g: "m_rtPrivateTime c \<le> fst (GetPrivateTime now c) \<longleftrightarrow> uint (now - m_dwPrevSystemTime c) < 2 ^ 31"
    using sint_sign32 [of "now - m_dwPrevSystemTime c"] by (simp add: r)
  then show ?thesis
    using GetPrivateTime_frame(1) [of now c] by (cases "GetPrivateTime now c") (auto simp: GetTime_def)
qed

theorem long_pause_sets_the_clock_back_witness: "fst (GetTime True 3000000000 demo_clock) = S_FALSE"
  using long_pause_sets_the_clock_back [of demo_clock 3000000000] by (simp add: demo_clock_def)

text \<open>A pass of the thread gives the notifications that are due within the next millisecond, and no others. Then it waits at
  least a millisecond, and until the millisecond before the first notification left, so that it neither spins nor comes
  late; but for a notification \<open>2 ^ 32 - 1\<close> milliseconds ahead or more the wait is \<open>INFINITE\<close>, which never ends by itself.\<close>

theorem thread_waits_for_the_next_notification:
  assumes "ready_to_pass fuel now c s"
  shows "\<exists>w fired c'. AdviseThread_pass fuel now c = Inr (Some w, fired, c') \<and> mset fired = all_due (now_of now c + 10000) (packets s) \<and>
     0 < uint w \<and> uint w = min (2 ^ 32 - 1) ((m_rtNextAdvise c' - now_of now c) div 10000) \<and>
     (m_rtNextAdvise c' = MAX_TIME \<or> (\<exists>s'. m_pSchedule c' = Some s' \<and> m_rtNextAdvise c' = m_rtEventTime (hd (packets s'))))"
proof -
  from pass_spec [OF assms refl] obtain w fired c' s' where p: "AdviseThread_pass fuel now c = Inr (Some w, fired, c')" "m_pSchedule c' = Some s'"
     "dispatched (now_of now c + 10000) s s' fired" "m_rtNextAdvise c' = GetNextAdviseTime s'"
     "uint w = min UINT_MAX ((m_rtNextAdvise c' - now_of now c) div 10000)" "0 < uint w" by blast
  have "m_rtNextAdvise c' = MAX_TIME \<or> m_rtNextAdvise c' = m_rtEventTime (hd (packets s'))"
    unfolding p(4) by (simp add: GetNextAdviseTime_def split: list.split)
  then show ?thesis using p by (auto simp: dispatched_def UINT_MAX_def)
qed

theorem thread_waits_for_the_next_notification_witness:
  "\<exists>w c'. AdviseThread_pass 0 7 demo_clock = Inr (Some w, [], c') \<and> uint w = 2 ^ 32 - 1 \<and> m_rtNextAdvise c' = MAX_TIME"
proof -
  have n: "now_of 7 demo_clock = 70000" by (simp add: now_of_def GetPrivateTime_def demo_clock_def wrap64_def Let_def)
  have "ready_to_pass 0 7 demo_clock new_schedule"
    unfolding ready_to_pass_def n using new_schedule_ok by (simp add: demo_clock_def MAX_TIME_def new_schedule_def)
  from thread_waits_for_the_next_notification [OF this] obtain w fired c' where p: "AdviseThread_pass 0 7 demo_clock = Inr (Some w, fired, c')"
     "mset fired = {#}" "uint w = min (2 ^ 32 - 1) ((m_rtNextAdvise c' - 70000) div 10000)"
    unfolding n by (auto simp: new_schedule_def)
  moreover have "m_rtNextAdvise c' = MAX_TIME"
    using p(1) by (simp add: AdviseThread_pass_def demo_clock_def GetPrivateTime_def Advise_def advise_loop.simps new_schedule_def Let_def)
      (auto simp: MAX_TIME_def)
  ultimately show ?thesis by (auto simp: MAX_TIME_def)
qed

section \<open>What becomes of a request\<close>

text \<open>
  The histories of a clock after a request was accepted: calls of any client and passes of the thread in any order,
  with the times up to which the passes gave notifications, and the notifications they gave. Excluded are the
  cancellation of this request, and that the cookies run out. A pass that leaves the request, since it is not
  due, and the wait after it are part of a history like any other.
\<close>

definition cookies_left :: "clock \<Rightarrow> bool" where
  "cookies_left c \<longleftrightarrow> (case m_pSchedule c of None \<Rightarrow> False | Some s \<Rightarrow> m_dwNextCookie s < - 1)"

fun leaves_alone :: "u64 \<Rightarrow> clock_call \<Rightarrow> bool" where
  "leaves_alone cookie (Cancel_advise k) = (k \<noteq> cookie)"
| "leaves_alone cookie (Thread_wakes fuel now) = False"
| "leaves_alone cookie _ = True"

inductive clock_history :: "u64 \<Rightarrow> clock \<Rightarrow> int list \<Rightarrow> packet list \<Rightarrow> clock \<Rightarrow> bool" for cookie c0 where
  start: "clock_history cookie c0 [] [] c0"
| call: "clock_history cookie c0 ts fs c \<Longrightarrow> leaves_alone cookie k \<Longrightarrow> cookies_left c \<Longrightarrow> clock_step k c = Inr (u, c1) \<Longrightarrow>
    clock_history cookie c0 ts fs c1"
| pass: "clock_history cookie c0 ts fs c \<Longrightarrow> ready_to_pass fuel now c s \<Longrightarrow>
    AdviseThread_pass fuel now c = Inr (w, fired, c1) \<Longrightarrow>
    clock_history cookie c0 (ts @ [now_of now c + 10000]) (fs @ fired) c1"

text \<open>A request that waits on the list, or has been notified once and is gone.\<close>

definition request_state :: "packet \<Rightarrow> bool \<Rightarrow> packet list \<Rightarrow> clock \<Rightarrow> bool" where
  "request_state p over fs c \<longleftrightarrow> (\<exists>s. m_pSchedule c = Some s \<and> schedule_ok s \<and> m_dwAdviseCookie p \<le> m_dwNextCookie s \<and>
     filter (\<lambda>q. m_dwAdviseCookie q = m_dwAdviseCookie p) fs = (if over then [p] else []) \<and>
     (if over then m_dwAdviseCookie p \<notin> m_dwAdviseCookie ` set (packets s) else p \<in> set (packets s)))"

text \<open>A schedule in which the packet of the request is, or is not, and no other one with its cookie comes in.\<close>

definition keeps_request :: "packet \<Rightarrow> schedule \<Rightarrow> schedule \<Rightarrow> bool" where
  "keeps_request p s s1 \<longleftrightarrow> schedule_ok s1 \<and> m_dwNextCookie s \<le> m_dwNextCookie s1 \<and>
     (p \<in> set (packets s) \<longrightarrow> p \<in> set (packets s1)) \<and>
     (\<forall>q \<in> set (packets s1). q \<in> set (packets s) \<or> m_dwNextCookie s < m_dwAdviseCookie q)"

lemma request_kept:
  assumes "request_state p over fs c" and "m_pSchedule c = Some s" and "m_pSchedule c1 = Some s1" and "keeps_request p s s1"
  shows "request_state p over fs c1"
proof -
  have r: "schedule_ok s" "m_dwAdviseCookie p \<le> m_dwNextCookie s"
    "filter (\<lambda>q. m_dwAdviseCookie q = m_dwAdviseCookie p) fs = (if over then [p] else [])"
    "if over then m_dwAdviseCookie p \<notin> m_dwAdviseCookie ` set (packets s) else p \<in> set (packets s)"
    using assms(1,2) by (auto simp: request_state_def)
  have "m_dwAdviseCookie p \<notin> m_dwAdviseCookie ` set (packets s1)" if over
  proof
    assume "m_dwAdviseCookie p \<in> m_dwAdviseCookie ` set (packets s1)"
    then obtain q where q: "q \<in> set (packets s1)" "m_dwAdviseCookie q = m_dwAdviseCookie p" by auto
    then have "q \<in> set (packets s) \<or> m_dwNextCookie s < m_dwAdviseCookie q" using assms(4) by (auto simp: keeps_request_def)
    then show False using r(2,4) q(2) that by (metis image_eqI leD)
  qed
  then show ?thesis using assms(3,4) r unfolding request_state_def keeps_request_def by (intro exI [of _ s1]) auto
qed

lemma keeps_refl: "schedule_ok s \<Longrightarrow> keeps_request p s s"
  by (simp add: keeps_request_def)

lemma add_keeps:
  assumes "schedule_ok s" "m_dwNextCookie s < - 1"
  shows "keeps_request p s (snd (snd (AddAdvisePacket memory t1 t2 h per s)))"
proof -
  let ?s = "snd (snd (AddAdvisePacket memory t1 t2 h per s))"
  have "m_dwNextCookie s < m_dwNextCookie s + 1" using next_cookie [OF assms(2)] by simp
  moreover have "set (packets ?s) \<subseteq> insert \<lparr>m_dwAdviseCookie = m_dwNextCookie s + 1, m_rtEventTime = t1, m_rtPeriod = t2,
      m_hNotify = h, m_bPeriodic = per\<rparr> (set (packets s))" "set (packets s) \<subseteq> set (packets ?s)"
    by (auto simp: AddAdvisePacket_def Let_def split_beta insert_packet_spec(3))
  ultimately show ?thesis
    using AddAdvisePacket_ok [OF assms, of memory t1 t2 h per] AddAdvisePacket_cookie [of memory t1 t2 h per s]
    unfolding keeps_request_def by fastforce
qed

lemma remove_cookie_keeps: "remove_cookie k ps = Some qs \<Longrightarrow> p \<in> set ps \<Longrightarrow> m_dwAdviseCookie p \<noteq> k \<Longrightarrow> p \<in> set qs"
  by (induction ps arbitrary: qs) (auto split: if_splits)

lemma unadvise_keeps:
  assumes "schedule_ok s" "m_dwAdviseCookie p \<noteq> k"
  shows "keeps_request p s (snd (Unadvise k s))"
proof (cases "remove_cookie k (packets s)")
  case None
  then show ?thesis using keeps_refl [OF assms(1)] by (simp add: Unadvise_def)
next
  case (Some qs)
  have "set qs \<subseteq> set (packets s)" using remove_cookie_ok [OF Some] assms(1) by (auto simp: schedule_ok_def)
  then show ?thesis
    using Unadvise_ok [OF assms(1), of k] Unadvise_cookie [of k s] remove_cookie_keeps [OF Some] assms(2) Some
    by (auto simp: keeps_request_def Unadvise_def)
qed

text \<open>What a call leaves of the schedule, and of the time the thread waits for.\<close>

lemma add_packet_schedule:
  "add_packet memory t1 t2 h per c = Inr (k, c1) \<Longrightarrow> m_pSchedule c = Some s \<Longrightarrow>
     m_pSchedule c1 = Some (snd (snd (AddAdvisePacket memory t1 t2 h per s))) \<and> m_rtNextAdvise c1 = m_rtNextAdvise c"
  by (auto simp: add_packet_def Let_def split: prod.splits)

lemma quiet_calls:
  "GetTime b now c = (hr, t, c1) \<Longrightarrow> m_pSchedule c1 = m_pSchedule c \<and> m_rtNextAdvise c1 = m_rtNextAdvise c"
  "SetTimeDelta d c = Inr c1 \<Longrightarrow> m_pSchedule c1 = m_pSchedule c \<and> m_rtNextAdvise c1 = m_rtNextAdvise c"
  "m_pSchedule (SetDefaultTimerResolution caps r c) = m_pSchedule c"
  "m_rtNextAdvise (SetDefaultTimerResolution caps r c) = m_rtNextAdvise c"
  by (auto simp: GetTime_def GetPrivateTime_def SetTimeDelta_def SetDefaultTimerResolution_def timeBeginPeriod_def timeEndPeriod_def Let_def
      split: if_splits option.splits)

lemma call_keeps:
  assumes "clock_step k c = Inr (u, c1)" and "m_pSchedule c = Some s" and "schedule_ok s" and "m_dwNextCookie s < - 1"
    and "leaves_alone (m_dwAdviseCookie p) k"
  shows "\<exists>s1. m_pSchedule c1 = Some s1 \<and> keeps_request p s s1 \<and> m_rtNextAdvise c1 = m_rtNextAdvise c"
proof (cases k)
  case (Ask_once memory base st h)
  then show ?thesis
    using assms add_packet_schedule [OF _ assms(2)] add_keeps [OF assms(3,4)] keeps_refl [OF assms(3)]
    by (auto simp: AdviseTime_def Let_def split: sum.splits prod.splits if_splits)
next
  case (Ask_periodic memory st per h)
  then show ?thesis
    using assms add_packet_schedule [OF _ assms(2)] add_keeps [OF assms(3,4)] keeps_refl [OF assms(3)]
    by (auto simp: AdvisePeriodic_def Let_def split: sum.splits prod.splits if_splits)
next
  case (Cancel_advise x)
  then have "m_dwAdviseCookie p \<noteq> x" using assms(5) by auto
  then show ?thesis
    using Cancel_advise assms(1,2) unadvise_keeps [OF assms(3), of p x]
    by (auto simp: Clock_Unadvise_def Let_def split: prod.splits)
qed (use assms quiet_calls keeps_refl [OF assms(3)] in \<open>auto split: sum.splits prod.splits\<close>)

lemma none_of_cookie:
  assumes "mset fired = all_due t ps" and "k \<notin> m_dwAdviseCookie ` set ps"
  shows "filter (\<lambda>q. m_dwAdviseCookie q = k) fired = []"
  using assms all_due_cookies [of _ t ps] by (fastforce simp: filter_empty_conv simp flip: set_mset_mset)

lemma left_of_cookie:
  assumes "mset qs = all_after t ps" and "k \<notin> m_dwAdviseCookie ` set ps"
  shows "k \<notin> m_dwAdviseCookie ` set qs"
  using assms all_after_cookies [of _ t ps] by (fastforce simp flip: set_mset_mset)

lemma next_of_pending: "ordered (packets s) \<Longrightarrow> p \<in> set (packets s) \<Longrightarrow> GetNextAdviseTime s \<le> m_rtEventTime p"
  by (auto simp: GetNextAdviseTime_def split: list.split)

text \<open>A dispatch takes a single request off the list if it is due, notifies it then and only then.\<close>

lemma dispatched_request:
  assumes d: "dispatched t s s1 fired" and s: "schedule_ok s" and p: "p \<in> set (packets s)" "\<not> m_bPeriodic p"
  shows "filter (\<lambda>q. m_dwAdviseCookie q = m_dwAdviseCookie p) fired = (if m_rtEventTime p \<le> t then [p] else [])
    \<and> (if m_rtEventTime p \<le> t then m_dwAdviseCookie p \<notin> m_dwAdviseCookie ` set (packets s1) else p \<in> set (packets s1))"
proof -
  obtain xs ys where ps: "packets s = xs @ p # ys" using p(1) by (auto simp: in_set_conv_decomp)
  then have m: "mset (packets s) = mset (p # xs @ ys)" by simp
  have others: "m_dwAdviseCookie p \<notin> m_dwAdviseCookie ` set (xs @ ys)" using s ps by (auto simp: schedule_ok_def)
  have all: "mset fired = mset (due t p) + all_due t (xs @ ys)" "mset (packets s1) = after t p + all_after t (xs @ ys)"
    using d all_perm [OF m, of t] by (simp_all add: dispatched_def)
  have "\<forall>q \<in># all_due t (xs @ ys). m_dwAdviseCookie q \<noteq> m_dwAdviseCookie p"
    using others all_due_cookies [of _ t "xs @ ys"] by (metis imageI)
  then have none: "filter_mset (\<lambda>q. m_dwAdviseCookie q = m_dwAdviseCookie p) (all_due t (xs @ ys)) = {#}"
    unfolding filter_mset_eq_conv by simp
  have rest: "\<forall>q \<in># all_after t (xs @ ys). m_dwAdviseCookie q \<noteq> m_dwAdviseCookie p"
    using others all_after_cookies [of _ t "xs @ ys"] by (metis imageI)
  show ?thesis
  proof (cases "m_rtEventTime p \<le> t")
    case True
    have "mset (filter (\<lambda>q. m_dwAdviseCookie q = m_dwAdviseCookie p) fired) = {#p#}"
      using all(1) none True p(2) by (simp add: due.simps [of t p])
    then have "filter (\<lambda>q. m_dwAdviseCookie q = m_dwAdviseCookie p) fired = [p]" by (simp only: mset_single_iff)
    moreover have "mset (packets s1) = all_after t (xs @ ys)" using all(2) True p(2) by (simp add: after_def)
    then have "\<forall>q \<in> set (packets s1). m_dwAdviseCookie q \<noteq> m_dwAdviseCookie p" using rest by (metis set_mset_mset)
    ultimately show ?thesis using True by auto
  next
    case False
    have "mset (filter (\<lambda>q. m_dwAdviseCookie q = m_dwAdviseCookie p) fired) = {#}"
      using all(1) none False by (simp add: due.simps [of t p])
    moreover have "p \<in># mset (packets s1)" unfolding all(2) using False by (simp add: after_def)
    ultimately show ?thesis using False by simp
  qed
qed

lemma pass_request:
  assumes r: "request_state p over fs c" and "\<not> m_bPeriodic p"
    and ready: "ready_to_pass fuel now c s" and pass: "AdviseThread_pass fuel now c = Inr (w, fired, c1)"
  shows "request_state p (over \<or> m_rtEventTime p \<le> now_of now c + 10000) (fs @ fired) c1
    \<and> (\<not> over \<and> now_of now c + 10000 < m_rtEventTime p \<longrightarrow> m_rtNextAdvise c1 \<le> m_rtEventTime p)"
proof -
  let ?t = "now_of now c + 10000"
  obtain s1 where c1: "m_pSchedule c1 = Some s1" "schedule_ok s1" "dispatched ?t s s1 fired" "m_rtNextAdvise c1 = GetNextAdviseTime s1"
    using pass_spec [OF ready refl] pass by auto
  have s: "m_pSchedule c = Some s" "schedule_ok s" using ready by (simp_all add: ready_to_pass_def)
  have st: "m_dwAdviseCookie p \<le> m_dwNextCookie s1"
    "filter (\<lambda>q. m_dwAdviseCookie q = m_dwAdviseCookie p) fs = (if over then [p] else [])"
    "if over then m_dwAdviseCookie p \<notin> m_dwAdviseCookie ` set (packets s) else p \<in> set (packets s)"
    using r s(1) c1(3) by (auto simp: request_state_def dispatched_def)
  show ?thesis
  proof (cases over)
    case True
    then have "filter (\<lambda>q. m_dwAdviseCookie q = m_dwAdviseCookie p) fired = []"
      "m_dwAdviseCookie p \<notin> m_dwAdviseCookie ` set (packets s1)"
      using st(3) c1(3) none_of_cookie left_of_cookie by (simp_all add: dispatched_def)
    then show ?thesis using True st c1 by (simp add: request_state_def)
  next
    case False
    then have p: "p \<in> set (packets s)" using st(3) by simp
    note d = dispatched_request [OF c1(3) s(2) p assms(2)]
    have "p \<in> set (packets s1) \<Longrightarrow> m_rtNextAdvise c1 \<le> m_rtEventTime p"
      using c1(2,4) next_of_pending by (simp add: schedule_ok_def)
    then show ?thesis using False st c1 d by (auto simp: request_state_def)
  qed
qed

lemma history_request:
  assumes "clock_history (m_dwAdviseCookie p) c0 ts fs c" and "request_state p False [] c0" and "\<not> m_bPeriodic p"
  shows "request_state p (\<exists>t \<in> set ts. m_rtEventTime p \<le> t) fs c
    \<and> (ts \<noteq> [] \<and> (\<forall>t \<in> set ts. t < m_rtEventTime p) \<longrightarrow> m_rtNextAdvise c \<le> m_rtEventTime p)"
  using assms(1)
proof (induction rule: clock_history.induct)
  case start
  then show ?case using assms(2) by simp
next
  case (call ts fs c k u c1)
  from call.IH obtain s where s: "m_pSchedule c = Some s" "schedule_ok s" by (auto simp: request_state_def)
  then have "m_dwNextCookie s < - 1" using call.hyps(3) by (simp add: cookies_left_def)
  from call_keeps [OF call.hyps(4) s this call.hyps(2)] obtain s1 where
    "m_pSchedule c1 = Some s1" "keeps_request p s s1" "m_rtNextAdvise c1 = m_rtNextAdvise c" by blast
  then show ?case using call.IH request_kept [OF _ s(1)] by auto
next
  case (pass ts fs c fuel now s w fired c1)
  have "(\<exists>t \<in> set (ts @ [now_of now c + 10000]). m_rtEventTime p \<le> t) \<longleftrightarrow>
      (\<exists>t \<in> set ts. m_rtEventTime p \<le> t) \<or> m_rtEventTime p \<le> now_of now c + 10000" by auto
  then show ?case
    using pass_request [OF conjunct1 [OF pass.IH] assms(3) pass.hyps(2,3)] by (auto simp: not_le)
qed


text \<open>A request for 50 ms, a pass at 3 ms that leaves it, a client that asks for the time, a pass at 49 ms, and one at 60.\<close>

lemma waiting_request_noted:
  defines "s \<equiv> snd (snd (AddAdvisePacket True 500000 0 9 False new_schedule))"
  shows "AdviseTime True 400000 100000 9 True demo_clock = Inr (S_OK, 1, demo_clock\<lparr>m_pSchedule := Some s, event_set := True\<rparr>)"
    and "packets s = [\<lparr>m_dwAdviseCookie = 1, m_rtEventTime = 500000, m_rtPeriod = 0, m_hNotify = 9, m_bPeriodic = False\<rparr>]"
    and "schedule_ok s"
proof -
  show "AdviseTime True 400000 100000 9 True demo_clock = Inr (S_OK, 1, demo_clock\<lparr>m_pSchedule := Some s, event_set := True\<rparr>)"
    by (simp add: s_def AdviseTime_def add_packet_def demo_clock_def wrap64_def MAX_TIME_def AddAdvisePacket_def new_schedule_def Let_def)
  show "packets s = [\<lparr>m_dwAdviseCookie = 1, m_rtEventTime = 500000, m_rtPeriod = 0, m_hNotify = 9, m_bPeriodic = False\<rparr>]"
    by (simp add: s_def AddAdvisePacket_def new_schedule_def Let_def)
  show "schedule_ok s" unfolding s_def by (rule AddAdvisePacket_ok [OF new_schedule_ok]) (simp add: new_schedule_def word_gt_0)
qed


section \<open>The timer's resolution\<close>

text \<open>The process holds one request for the timer's resolution, the one the clock remembers, or none.\<close>

definition holds_its_period :: "clock \<Rightarrow> bool" where
  "holds_its_period c \<longleftrightarrow> begun_periods c = (if m_TimerResolution c = 0 then [] else [m_TimerResolution c])"

lemma SetDefaultTimerResolution_holds:
  assumes "holds_its_period c" "wPeriodMin caps \<noteq> 0"
  shows "holds_its_period (SetDefaultTimerResolution caps r c)"
proof -
  have "max (wPeriodMin caps) x \<noteq> 0" for x using assms(2) by (simp add: max_def word_gt_0 [symmetric]) auto
  then show ?thesis using assms
    by (auto simp: holds_its_period_def SetDefaultTimerResolution_def timeBeginPeriod_def timeEndPeriod_def Let_def)
qed

lemma others_hold:
  "SetTimeDelta d c = Inr c1 \<Longrightarrow> holds_its_period c1 = holds_its_period c"
  "AdviseThread_pass fuel now c = Inr (w, fired, c1) \<Longrightarrow> holds_its_period c1 = holds_its_period c"
  "AdviseTime memory base st h out c = Inr (hr, cookie, c1) \<Longrightarrow> holds_its_period c1 = holds_its_period c"
  "AdvisePeriodic memory st per h out c = Inr (hr, cookie, c1) \<Longrightarrow> holds_its_period c1 = holds_its_period c"
  "Clock_Unadvise k c = Inr (hr, c1) \<Longrightarrow> holds_its_period c1 = holds_its_period c"
  "GetTime p now c = (hr', t, c1) \<Longrightarrow> holds_its_period c1 = holds_its_period c"
  by (auto simp: SetTimeDelta_def AdviseThread_pass_def GetPrivateTime_def GetTime_def AdviseTime_def AdvisePeriodic_def Clock_Unadvise_def add_packet_def
      holds_its_period_def Let_def split: option.splits prod.splits if_splits sum.splits)

definition proper_caps :: "clock_call \<Rightarrow> bool" where
  "proper_caps k = (case k of Set_resolution caps r \<Rightarrow> wPeriodMin caps \<noteq> 0 | _ \<Rightarrow> True)"

lemma clock_step_holds: "clock_step k c = Inr (t, c1) \<Longrightarrow> proper_caps k \<Longrightarrow> holds_its_period c \<Longrightarrow> holds_its_period c1"
  by (cases k) (auto split: sum.splits prod.splits simp: others_hold SetDefaultTimerResolution_holds proper_caps_def)

lemma clock_calls_hold: "clock_calls ks c = Inr (ts, c') \<Longrightarrow> list_all proper_caps ks \<Longrightarrow> holds_its_period c \<Longrightarrow> holds_its_period c'"
proof (induction ks arbitrary: c ts)
  case (Cons k ks)
  from Cons(2) obtain t c1 us where r: "clock_step k c = Inr (t, c1)" "clock_calls ks c1 = Inr (us, c')" by (rule clock_calls_Cons)
  show ?case using Cons(1) [OF r(2)] clock_step_holds [OF r(1)] Cons(3,4) by simp
qed simp

text \<open>Every request the clock has made to the system's timer is given back: after any calls on a clock its constructor has
  made without an error, and its destructor, none is held.\<close>

theorem timer_requests_are_given_back:
  assumes "new_clock raw memory caps now thread pShed = (None, c)" and "wPeriodMin caps \<noteq> 0"
    and "list_all proper_caps ks" and "clock_calls ks c = Inr (ts, c')"
  shows "begun_periods (delete_clock c') = []"
proof -
  have "holds_its_period c" using assms(1,2)
    by (auto simp: new_clock_def holds_its_period_def timeBeginPeriod_def Let_def split: if_splits)
  then have "holds_its_period c'" by (rule clock_calls_hold [OF assms(4,3)])
  then show ?thesis by (auto simp: holds_its_period_def delete_clock_def timeEndPeriod_def Let_def)
qed

theorem timer_requests_are_given_back_witness:
  "begun_periods (delete_clock (SetDefaultTimerResolution (Some 5) 0 (SetDefaultTimerResolution (Some 5) 200000 demo_clock))) = []"
  using timer_requests_are_given_back [OF demo_clock_made, of "[Set_resolution (Some 5) 200000, Set_resolution (Some 5) 0]"]
  by (simp add: wPeriodMin_def proper_caps_def)

end
