(* ===== verification/MediaFilter.thy ===== *)
theory MediaFilter
  imports BaseFilter Clock
begin

text \<open>
  Filters without pins (CBaseMediaFilter in baseclasses/amfilter.cpp), which keep a state, a clock and the start of the
  stream, and the stream time of a filter over the reference clock of the base classes.
\<close>

section \<open>The filter\<close>

record media_filter =
  mf_State :: filter_state
  mf_pClock :: "nat option"
  mf_tStart :: u64
  mf_clock_refs :: "nat \<Rightarrow> int"

definition new_media_filter :: "u64 \<Rightarrow> media_filter" where
  "new_media_filter junk = \<lparr>mf_State = State_Stopped, mf_pClock = None, mf_tStart = junk, mf_clock_refs = (\<lambda>_. 0)\<rparr>"

definition mf_clock_ref :: "nat option \<Rightarrow> int \<Rightarrow> media_filter \<Rightarrow> media_filter" where
  "mf_clock_ref c d f = (case c of None \<Rightarrow> f | Some n \<Rightarrow> f\<lparr>mf_clock_refs := (mf_clock_refs f)(n := mf_clock_refs f n + d)\<rparr>)"

definition delete_media_filter :: "media_filter \<Rightarrow> media_filter" where
  "delete_media_filter f = (mf_clock_ref (mf_pClock f) (- 1) f)\<lparr>mf_pClock := None\<rparr>"

definition Media_GetState :: "bool \<Rightarrow> media_filter \<Rightarrow> hresult \<times> filter_state option" where
  "Media_GetState ptr f = (if \<not> ptr then (E_POINTER, None) else (S_OK, Some (mf_State f)))"

definition Media_SetSyncSource :: "nat option \<Rightarrow> media_filter \<Rightarrow> hresult \<times> media_filter" where
  "Media_SetSyncSource pClock f = (S_OK, (mf_clock_ref (mf_pClock f) (- 1) (mf_clock_ref pClock 1 f))\<lparr>mf_pClock := pClock\<rparr>)"

text \<open>The reference that is added is the caller's.\<close>

definition Media_GetSyncSource :: "bool \<Rightarrow> media_filter \<Rightarrow> hresult \<times> nat option" where
  "Media_GetSyncSource ptr f = (if \<not> ptr then (E_POINTER, None) else (S_OK, mf_pClock f))"

definition Media_Stop :: "media_filter \<Rightarrow> hresult \<times> media_filter" where
  "Media_Stop f = (S_OK, f\<lparr>mf_State := State_Stopped\<rparr>)"

definition Media_Pause :: "media_filter \<Rightarrow> hresult \<times> media_filter" where
  "Media_Pause f = (S_OK, f\<lparr>mf_State := State_Paused\<rparr>)"

definition Media_Run :: "u64 \<Rightarrow> media_filter \<Rightarrow> hresult \<times> media_filter" where
  "Media_Run tStart f =
    (let f0 = f\<lparr>mf_tStart := tStart\<rparr>;
         (hr, f1) = (if mf_State f0 = State_Stopped then Media_Pause f0 else (S_OK, f0))
     in if failed hr then (hr, f1) else (S_OK, f1\<lparr>mf_State := State_Running\<rparr>))"

definition Media_StreamTime :: "(nat \<Rightarrow> hresult \<times> u64) \<Rightarrow> media_filter \<Rightarrow> hresult \<times> u64 option" where
  "Media_StreamTime answer f =
    (case mf_pClock f of
       None \<Rightarrow> (VFW_E_NO_CLOCK, None)
     | Some c \<Rightarrow> (case answer c of (hr, t) \<Rightarrow> if failed hr then (hr, Some t) else (S_OK, Some (t - mf_tStart f))))"

section \<open>A filter that has no pins\<close>

definition without_pins :: "'p base_filter \<Rightarrow> media_filter" where
  "without_pins f = \<lparr>mf_State = f_State f, mf_pClock = f_pClock f, mf_tStart = f_tStart f, mf_clock_refs = clock_refs f\<rparr>"

datatype media_request =
    Call_stop | Call_pause | Call_run u64 | Call_set_clock "nat option" | Call_state bool | Call_clock bool
  | Call_time "nat \<Rightarrow> hresult \<times> u64"

datatype filter_answer = Code hresult | State_answer hresult "filter_state option" | Clock_answer hresult "nat option" | Time_answer hresult "u64 option"

primrec media_call :: "media_request \<Rightarrow> media_filter \<Rightarrow> filter_answer \<times> media_filter" where
  "media_call Call_stop f = (case Media_Stop f of (hr, f1) \<Rightarrow> (Code hr, f1))"
| "media_call Call_pause f = (case Media_Pause f of (hr, f1) \<Rightarrow> (Code hr, f1))"
| "media_call (Call_run t) f = (case Media_Run t f of (hr, f1) \<Rightarrow> (Code hr, f1))"
| "media_call (Call_set_clock c) f = (case Media_SetSyncSource c f of (hr, f1) \<Rightarrow> (Code hr, f1))"
| "media_call (Call_state p) f = (case Media_GetState p f of (hr, x) \<Rightarrow> (State_answer hr x, f))"
| "media_call (Call_clock p) f = (case Media_GetSyncSource p f of (hr, x) \<Rightarrow> (Clock_answer hr x, f))"
| "media_call (Call_time a) f = (case Media_StreamTime a f of (hr, x) \<Rightarrow> (Time_answer hr x, f))"

primrec base_call :: "('p, 'e) pin_methods \<Rightarrow> media_request \<Rightarrow> 'p base_filter \<times> 'e \<Rightarrow> filter_answer \<times> 'p base_filter \<times> 'e" where
  "base_call M Call_stop s = (case Filter_Stop M (fst s) (snd s) of (hr, f1, e1) \<Rightarrow> (Code hr, f1, e1))"
| "base_call M Call_pause s = (case Filter_Pause M (fst s) (snd s) of (hr, f1, e1) \<Rightarrow> (Code hr, f1, e1))"
| "base_call M (Call_run t) s = (case Filter_Run M t (fst s) (snd s) of (hr, f1, e1) \<Rightarrow> (Code hr, f1, e1))"
| "base_call M (Call_set_clock c) s = (case SetSyncSource c (fst s) of (hr, f1) \<Rightarrow> (Code hr, f1, snd s))"
| "base_call M (Call_state p) s = (case Filter_GetState p (fst s) of (hr, x) \<Rightarrow> (State_answer hr x, s))"
| "base_call M (Call_clock p) s = (case GetSyncSource p (fst s) of (hr, x) \<Rightarrow> (Clock_answer hr x, s))"
| "base_call M (Call_time a) s = (case StreamTime a (fst s) of (hr, x) \<Rightarrow> (Time_answer hr x, s))"

fun answers :: "('c \<Rightarrow> 's \<Rightarrow> 'a \<times> 's) \<Rightarrow> 'c list \<Rightarrow> 's \<Rightarrow> 'a list \<times> 's" where
  "answers step [] s = ([], s)"
| "answers step (k # ks) s = (let (a, s1) = step k s; (as, s2) = answers step ks s1 in (a # as, s2))"

lemma base_call_without_pins:
  assumes "f_pins f = []"
  shows "\<exists>f1. base_call M k (f, e) = (fst (media_call k (without_pins f)), f1, e) \<and> without_pins f1 = snd (media_call k (without_pins f)) \<and> f_pins f1 = []"
  using assms
  by (cases k; cases "f_State f") (auto simp: Let_def without_pins_def Filter_Stop_def Media_Stop_def Filter_Pause_def Media_Pause_def Filter_Run_def Media_Run_def
      SetSyncSource_def Media_SetSyncSource_def clock_ref_def mf_clock_ref_def Filter_GetState_def Media_GetState_def GetSyncSource_def
      Media_GetSyncSource_def StreamTime_def Media_StreamTime_def split: option.splits prod.splits)

text \<open>A filter of the kind the repository uses that has no pins cannot be told from one of the simpler class: under any
  sequence of calls they give the same answers and end in the same state, and no pin is called.\<close>

theorem filter_without_pins_is_a_media_filter:
  assumes "f_pins f = []"
  shows "\<exists>f1. answers (base_call M) ks (f, e) = (fst (answers media_call ks (without_pins f)), f1, e) \<and>
      without_pins f1 = snd (answers media_call ks (without_pins f))"
  using assms
proof (induction ks arbitrary: f)
  case (Cons k ks)
  obtain f1 where f1: "base_call M k (f, e) = (fst (media_call k (without_pins f)), f1, e)" "without_pins f1 = snd (media_call k (without_pins f))" "f_pins f1 = []"
    using base_call_without_pins [OF Cons(2), of M k e] by blast
  obtain f2 where f2: "answers (base_call M) ks (f1, e) = (fst (answers media_call ks (without_pins f1)), f2, e)"
      "without_pins f2 = snd (answers media_call ks (without_pins f1))"
    using Cons(1) [OF f1(3)] by blast
  show ?case using f1(1,2) f2 by (auto simp: split_beta Let_def)
qed simp

theorem filter_without_pins_is_a_media_filter_witness:
  "\<forall>(M :: (unit, unit) pin_methods) e. fst (answers (base_call M) [Call_run 5, Call_state True, Call_stop, Call_time (\<lambda>_. (S_OK, 0))] (new_base_filter 0 [], e))
     = [Code S_OK, State_answer S_OK (Some State_Running), Code S_OK, Time_answer VFW_E_NO_CLOCK None]"
proof (intro allI)
  fix M :: "(unit, unit) pin_methods" and e
  show "fst (answers (base_call M) [Call_run 5, Call_state True, Call_stop, Call_time (\<lambda>_. (S_OK, 0))] (new_base_filter 0 [], e))
     = [Code S_OK, State_answer S_OK (Some State_Running), Code S_OK, Time_answer VFW_E_NO_CLOCK None]"
    using filter_without_pins_is_a_media_filter [of "new_base_filter 0 [] :: unit base_filter" M "[Call_run 5, Call_state True, Call_stop, Call_time (\<lambda>_. (S_OK, 0))]" e]
    by (auto simp: new_base_filter_def without_pins_def Media_Run_def Media_Pause_def Media_GetState_def Media_Stop_def Media_StreamTime_def Let_def)
qed

section \<open>The stream time over the reference clock\<close>

text \<open>What the filter's clock answers when it is a clock of the base classes: \<open>GetTime\<close> at a reading of the system's time.\<close>

definition clock_answer :: "u32 \<Rightarrow> clock \<Rightarrow> hresult \<times> u64" where
  "clock_answer now c = (case GetTime True now c of (hr, t, c1) \<Rightarrow> (hr, word_of_int (the t)))"

definition clock_after :: "u32 \<Rightarrow> clock \<Rightarrow> clock" where
  "clock_after now c = snd (snd (GetTime True now c))"

lemma clock_answer_last:
  "succeeded (fst (clock_answer now c))" "snd (clock_answer now c) = word_of_int (m_rtLastGotTime (clock_after now c))"
  "m_rtLastGotTime c \<le> m_rtLastGotTime (clock_after now c)"
  by (auto simp: clock_answer_def clock_after_def GetTime_def split_beta GetPrivateTime_frame split: if_splits)

lemma wrap64_less: "wrap64 k < 2 ^ 63"
  by (simp add: wrap64_def)

lemma last_in_range: "m_rtLastGotTime c < 2 ^ 63 \<Longrightarrow> m_rtLastGotTime (clock_after now c) < 2 ^ 63"
  using wrap64_less by (auto simp: clock_after_def GetTime_def GetPrivateTime_def Let_def)

lemma clock_calls_last:
  "clock_calls ks c = Inr (ts, c') \<Longrightarrow> m_rtLastGotTime c \<le> m_rtLastGotTime c' \<and> (m_rtLastGotTime c < 2 ^ 63 \<longrightarrow> m_rtLastGotTime c' < 2 ^ 63)"
proof (induction ks arbitrary: c ts)
  case (Cons k ks)
  from Cons(2) obtain t c1 us where r: "clock_step k c = Inr (t, c1)" "clock_calls ks c1 = Inr (us, c')" by (rule clock_calls_Cons)
  have "m_rtLastGotTime c < 2 ^ 63 \<longrightarrow> m_rtLastGotTime c1 < 2 ^ 63"
  proof (cases k)
    case (Ask_time now)
    then have "c1 = clock_after now c" using r(1) by (auto simp: clock_after_def split: prod.splits)
    then show ?thesis using last_in_range by blast
  qed (use r(1) in \<open>auto split: sum.splits prod.splits simp: advise_calls_last other_calls_last\<close>)
  then show ?case using Cons(1) [OF r(2)] clock_step_last [OF r(1)] by auto
qed simp

lemma time_difference: "0 \<le> t \<Longrightarrow> t < 2 ^ 63 \<Longrightarrow> 0 \<le> sint s \<Longrightarrow> sint (word_of_int t - s :: u64) = t - sint s"
proof -
  assume a: "0 \<le> t" "t < 2 ^ 63" "0 \<le> sint s"
  have "word_of_int t - s = word_of_int (t - sint s)" by simp
  moreover have "sint (word_of_int (t - sint s) :: u64) = t - sint s"
    using a sint_range(2) [of s] by (simp only: signed_of_int) (simp add: signed_take_bit_int_eq_self)
  ultimately show ?thesis by simp
qed

text \<open>A filter's stream time never decreases while it keeps its start time, whatever happens to the clock in between: clients may set
  the private time back, and the time stands still until that has caught up.\<close>

theorem stream_time_never_goes_back:
  assumes "f_pClock f = Some n" and "0 \<le> sint (f_tStart f)" and "0 \<le> m_rtLastGotTime c" and "m_rtLastGotTime c < 2 ^ 63"
    and "clock_calls ks (clock_after now c) = Inr (ts, c')"
  shows "\<exists>t t'. StreamTime (\<lambda>_. clock_answer now c) f = (S_OK, Some t) \<and> StreamTime (\<lambda>_. clock_answer now' c') f = (S_OK, Some t') \<and>
     sint t \<le> sint t' \<and> sint t + sint (f_tStart f) = m_rtLastGotTime (clock_after now c)"
proof -
  let ?l = "m_rtLastGotTime (clock_after now c)" and ?l' = "m_rtLastGotTime (clock_after now' c')"
  have l: "0 \<le> ?l" "?l < 2 ^ 63" using clock_answer_last(3) [of c now] assms(3) last_in_range [OF assms(4)] by auto
  have l': "?l \<le> ?l'" "?l' < 2 ^ 63"
    using clock_calls_last [OF assms(5)] clock_answer_last(3) [of c' now'] last_in_range [of c' now'] l(2) by auto
  have "StreamTime (\<lambda>_. clock_answer now c) f = (S_OK, Some (word_of_int ?l - f_tStart f))"
    "StreamTime (\<lambda>_. clock_answer now' c') f = (S_OK, Some (word_of_int ?l' - f_tStart f))"
    using clock_answer_last(1,2) assms(1) by (simp_all add: StreamTime_def split_beta)
  moreover have "sint (word_of_int ?l - f_tStart f) = ?l - sint (f_tStart f)" "sint (word_of_int ?l' - f_tStart f) = ?l' - sint (f_tStart f)"
    using time_difference l l' assms(2) by auto
  ultimately show ?thesis using l'(1) by auto
qed

theorem stream_time_never_goes_back_witness:
  "\<exists>t t' c'. StreamTime (\<lambda>_. clock_answer 70 demo_clock) ((new_base_filter 20000 [] :: unit base_filter)\<lparr>f_pClock := Some 1\<rparr>) = (S_OK, Some t) \<and>
     StreamTime (\<lambda>_. clock_answer 71 c') ((new_base_filter 20000 [] :: unit base_filter)\<lparr>f_pClock := Some 1\<rparr>) = (S_OK, Some t') \<and>
     sint t \<le> sint t' \<and> sint t + 20000 = 700000"
proof -
  let ?f = "(new_base_filter 20000 [] :: unit base_filter)\<lparr>f_pClock := Some 1\<rparr>"
  have l: "m_rtLastGotTime (clock_after 70 demo_clock) = 700000"
    by (simp add: clock_after_def GetTime_def GetPrivateTime_def demo_clock_def wrap64_def Let_def)
  have "\<exists>ts c'. clock_calls [Adjust (- 600000)] (clock_after 70 demo_clock) = Inr (ts, c')" by (simp add: SetTimeDelta_def Let_def)
  then obtain ts c' where r: "clock_calls [Adjust (- 600000)] (clock_after 70 demo_clock) = Inr (ts, c')" by blast
  have f: "f_pClock ?f = Some 1" "0 \<le> sint (f_tStart ?f)" "0 \<le> m_rtLastGotTime demo_clock" "m_rtLastGotTime demo_clock < 2 ^ 63"
    by (simp_all add: new_base_filter_def demo_clock_def)
  have "sint (f_tStart ?f) = 20000" by (simp add: new_base_filter_def)
  then show ?thesis using stream_time_never_goes_back [OF f r, of 71] unfolding l by metis
qed

end
