(* ===== verification/StreamControl.thy ===== *)
theory StreamControl
  imports BaseFilter Schedule
begin

text \<open>
  Starting and stopping one stream of a filter at given times (CBaseStreamControl in baseclasses/strmctl.cpp and
  strmctl.h): for each sample the pin asks whether it is to flow or to be discarded, and the application is notified
  when a start or a stop has happened.
\<close>

section \<open>State\<close>

datatype stream_state = STREAM_FLOWING | STREAM_DISCARDING

datatype notice = EC_STREAM_CONTROL_STOPPED u32 | EC_STREAM_CONTROL_STARTED u32

text \<open>\<open>MAX_TIME\<close> stands for no start or no stop; \<open>stream_event\<close> is the event a waiting thread is woken by, and
  \<open>notices\<close> are the events that have been sent to the sink.\<close>

record stream_control =
  m_StreamState :: stream_state
  m_StreamStateOnStop :: stream_state
  m_tStartTime :: int
  m_tStopTime :: int
  m_dwStartCookie :: u32
  m_dwStopCookie :: u32
  m_bIsFlushing :: bool
  m_bStopSendExtra :: bool
  m_bStopExtraSent :: bool
  m_pRefClock :: "nat option"
  m_pSink :: bool
  m_FilterState :: filter_state
  m_tRunStart :: int
  stream_event :: bool
  notices :: "notice list"

text \<open>The constructor leaves three members as they are in \<open>raw\<close> memory.\<close>

definition new_stream_control :: "stream_control \<Rightarrow> stream_control" where
  "new_stream_control raw =
     raw\<lparr>m_StreamState := STREAM_FLOWING, m_StreamStateOnStop := STREAM_FLOWING, m_tStartTime := MAX_TIME, m_tStopTime := MAX_TIME,
         stream_event := False, m_dwStartCookie := 0, m_dwStopCookie := 0, m_pRefClock := None, m_FilterState := State_Stopped,
         m_bIsFlushing := False, m_bStopSendExtra := False, notices := []\<rparr>"

section \<open>Starting and stopping\<close>

definition CancelStop :: "stream_control \<Rightarrow> stream_control" where
  "CancelStop c = c\<lparr>m_tStopTime := MAX_TIME, m_dwStopCookie := 0, m_StreamStateOnStop := STREAM_FLOWING\<rparr>"

definition CancelStart :: "stream_control \<Rightarrow> stream_control" where
  "CancelStart c = c\<lparr>m_tStartTime := MAX_TIME, m_dwStartCookie := 0\<rparr>"

definition ExecuteStop :: "stream_control \<Rightarrow> stream_control" where
  "ExecuteStop c =
    (let c1 = c\<lparr>m_StreamState := m_StreamStateOnStop c\<rparr>
     in CancelStop (if m_dwStopCookie c1 \<noteq> 0 \<and> m_pSink c1 then c1\<lparr>notices := notices c1 @ [EC_STREAM_CONTROL_STOPPED (m_dwStopCookie c1)]\<rparr> else c1))"

text \<open>This one does not look whether there is a sink: \<open>None\<close> is the call through the null pointer.\<close>

definition ExecuteStart :: "stream_control \<Rightarrow> stream_control option" where
  "ExecuteStart c =
    (let c1 = c\<lparr>m_StreamState := STREAM_FLOWING\<rparr>
     in if m_dwStartCookie c1 \<noteq> 0
        then if m_pSink c1 then Some (CancelStart (c1\<lparr>notices := notices c1 @ [EC_STREAM_CONTROL_STARTED (m_dwStartCookie c1)]\<rparr>)) else None
        else Some (CancelStart c1))"

definition StopAt :: "int option \<Rightarrow> bool \<Rightarrow> u32 \<Rightarrow> stream_control \<Rightarrow> hresult \<times> stream_control" where
  "StopAt ptStop bSendExtra dwCookie c0 =
    (let c = c0\<lparr>m_bStopSendExtra := False, m_bStopExtraSent := False\<rparr>
     in case ptStop of
          Some t \<Rightarrow>
            if t = MAX_TIME
            then (let c1 = CancelStop c
                  in (S_OK, if m_FilterState c1 = State_Stopped \<and> m_tStartTime c1 < MAX_TIME then c1\<lparr>m_StreamState := STREAM_DISCARDING\<rparr> else c1))
            else (let c1 = (if m_FilterState c = State_Stopped \<and> t < m_tStartTime c then c\<lparr>m_StreamState := STREAM_FLOWING\<rparr> else c)
                  in (S_OK, c1\<lparr>m_bStopSendExtra := bSendExtra, m_tStopTime := t, m_dwStopCookie := dwCookie, m_StreamStateOnStop := STREAM_DISCARDING,
                              stream_event := True\<rparr>))
        | None \<Rightarrow>
            (S_OK, c\<lparr>m_bStopSendExtra := False, m_tStopTime := MAX_TIME, m_dwStopCookie := 0, m_StreamState := STREAM_DISCARDING,
                     m_StreamStateOnStop := STREAM_FLOWING, stream_event := True\<rparr>))"

definition StartAt :: "int option \<Rightarrow> u32 \<Rightarrow> stream_control \<Rightarrow> hresult \<times> stream_control" where
  "StartAt ptStart dwCookie c =
    (case ptStart of
       Some t \<Rightarrow>
         if t = MAX_TIME
         then (let c1 = CancelStart c
               in (S_OK, if m_FilterState c1 = State_Stopped \<and> m_tStopTime c1 < MAX_TIME then c1\<lparr>m_StreamState := STREAM_FLOWING\<rparr> else c1))
         else (let c1 = (if m_FilterState c = State_Stopped \<and> t \<le> m_tStopTime c then c\<lparr>m_StreamState := STREAM_DISCARDING\<rparr> else c)
               in (S_OK, c1\<lparr>m_tStartTime := t, m_dwStartCookie := dwCookie, stream_event := True\<rparr>))
     | None \<Rightarrow> (S_OK, c\<lparr>m_tStartTime := MAX_TIME, m_dwStartCookie := 0, m_StreamState := STREAM_FLOWING, stream_event := True\<rparr>))"

record stream_info =
  tStart :: int
  tStop :: int
  dwStartCookie :: u32
  dwStopCookie :: u32
  START_DEFINED :: bool
  STOP_DEFINED :: bool
  DISCARDING :: bool
  STOP_SEND_EXTRA :: bool

definition GetInfo :: "bool \<Rightarrow> stream_control \<Rightarrow> hresult \<times> stream_info option" where
  "GetInfo pInfo c =
    (if \<not> pInfo then (E_POINTER, None)
     else (S_OK, Some \<lparr>tStart = m_tStartTime c, tStop = m_tStopTime c, dwStartCookie = m_dwStartCookie c, dwStopCookie = m_dwStopCookie c,
        START_DEFINED = (m_tStartTime c \<noteq> MAX_TIME), STOP_DEFINED = (m_tStopTime c \<noteq> MAX_TIME),
        DISCARDING = (m_StreamState c = STREAM_DISCARDING), STOP_SEND_EXTRA = m_bStopSendExtra c\<rparr>))"

section \<open>What is to happen to a sample\<close>

text \<open>A start and a stop in this order, or in the other.\<close>

definition start_then_stop :: "stream_control \<Rightarrow> stream_control option" where
  "start_then_stop c = map_option ExecuteStop (ExecuteStart c)"

definition stop_then_start :: "stream_control \<Rightarrow> stream_control option" where
  "stop_then_start c = ExecuteStart (ExecuteStop c)"

definition CheckSampleTimes :: "int \<Rightarrow> int \<Rightarrow> stream_control \<Rightarrow> (stream_state \<times> stream_control) option" where
  "CheckSampleTimes SampleStart SampleStop c =
    (let verdict = map_option (\<lambda>c. (m_StreamState c, c))
     in if SampleStart \<le> m_tStopTime c
        then if SampleStop \<le> m_tStartTime c then verdict (Some c)
             else verdict (ExecuteStart (if m_tStopTime c < m_tStartTime c then ExecuteStop c else c))
        else if SampleStop \<le> m_tStartTime c then verdict (Some (ExecuteStop c))
        else if m_tStartTime c \<le> m_tStopTime c then verdict (start_then_stop c)
        else verdict (stop_then_start c))"

text \<open>One round of the loop in \<open>CheckStreamState\<close>, up to the wait: a decision, or the milliseconds to wait. A sample has its
  times, if it has any; \<open>rtNow\<close> is what the clock says, if it is asked.\<close>

datatype check_result = Decided stream_state | Wait_for u32

definition INFINITE_WAIT :: u32 where "INFINITE_WAIT = - 1"

definition check_round :: "(int \<times> int) option \<Rightarrow> int \<Rightarrow> stream_control \<Rightarrow> (check_result \<times> stream_control) option" where
  "check_round sample rtNow c =
    (if m_bIsFlushing c \<or> m_FilterState c = State_Stopped then Some (Decided STREAM_DISCARDING, c)
     else case sample of
       None \<Rightarrow> Some (Decided (m_StreamState c), c)
     | Some (rtBufferStart, rtBufferStop) \<Rightarrow>
        (case CheckSampleTimes rtBufferStart rtBufferStop c of
           None \<Rightarrow> None
         | Some (state, c1) \<Rightarrow>
            if state = STREAM_FLOWING then Some (Decided state, c1)
            else if m_bStopSendExtra c1 \<and> \<not> m_bStopExtraSent c1 \<and> m_tStopTime c1 = MAX_TIME \<and> m_FilterState c1 \<noteq> State_Stopped
            then Some (Decided STREAM_FLOWING, c1\<lparr>m_bStopExtraSent := True\<rparr>)
            else if m_pRefClock c1 = None then Some (Decided state, c1)
            else if m_FilterState c1 = State_Paused then Some (Wait_for INFINITE_WAIT, c1)
            else let lWait = (word_of_int (quot_toward_zero (wrap64 (rtBufferStart - wrap64 (rtNow - m_tRunStart c1))) 10000) :: u32)
                 in if sint lWait < 10 then Some (Decided state, c1) else Some (Wait_for lWait, c1)))"

text \<open>The filter tells of its changes of state and of flushes.\<close>

definition NotifyFilterState :: "filter_state \<Rightarrow> int \<Rightarrow> stream_control \<Rightarrow> stream_control option" where
  "NotifyFilterState new_state start_time c =
    (if m_FilterState c = new_state then Some c
     else map_option (\<lambda>c. c\<lparr>stream_event := True\<rparr>)
      (case new_state of
         State_Stopped \<Rightarrow>
           map_option (\<lambda>c. c\<lparr>m_StreamState := STREAM_FLOWING, m_FilterState := State_Stopped\<rparr>)
             (if m_tStartTime c \<noteq> MAX_TIME \<and> m_tStopTime c = MAX_TIME then ExecuteStart c
              else if m_tStopTime c \<noteq> MAX_TIME \<and> m_tStartTime c = MAX_TIME then Some (ExecuteStop c)
              else if m_tStopTime c \<noteq> MAX_TIME \<and> m_tStartTime c \<noteq> MAX_TIME
              then (if m_tStartTime c \<le> m_tStopTime c then start_then_stop c else stop_then_start c)
              else Some c)
       | State_Running \<Rightarrow> Some (c\<lparr>m_tRunStart := start_time, m_FilterState := State_Running\<rparr>)
       | State_Paused \<Rightarrow> Some (c\<lparr>m_FilterState := State_Paused\<rparr>)))"

definition Flushing :: "bool \<Rightarrow> stream_control \<Rightarrow> stream_control" where
  "Flushing bInProgress c = c\<lparr>m_bIsFlushing := bInProgress, stream_event := True\<rparr>"

definition Control_SetSyncSource :: "nat option \<Rightarrow> stream_control \<Rightarrow> stream_control" where
  "Control_SetSyncSource pRefClock c = c\<lparr>m_pRefClock := pRefClock\<rparr>"

definition SetFilterGraph :: "bool \<Rightarrow> stream_control \<Rightarrow> stream_control" where
  "SetFilterGraph pSink c = c\<lparr>m_pSink := pSink\<rparr>"

section \<open>The nineteen cases\<close>

text \<open>The table in the source, by where the start and the stop lie: before the sample, inside it (at its start, but not at its
  end), or after it, where no start or stop counts as after.\<close>

datatype sample_place = Before | Inside | Behind

definition place_of :: "int \<Rightarrow> int \<Rightarrow> int \<Rightarrow> sample_place" where
  "place_of a b t = (if t < a then Before else if t < b then Inside else Behind)"

datatype control_action = Do_start | Do_stop

fun documented :: "sample_place \<Rightarrow> sample_place \<Rightarrow> bool \<Rightarrow> control_action list" where
  "documented Before Before start_first = (if start_first then [Do_start, Do_stop] else [Do_stop, Do_start])"
| "documented Before Inside start_first = [Do_start]"
| "documented Before Behind start_first = [Do_start]"
| "documented Inside Before start_first = [Do_stop, Do_start]"
| "documented Inside Inside start_first = (if start_first then [Do_start] else [Do_stop, Do_start])"
| "documented Inside Behind start_first = [Do_start]"
| "documented Behind Before start_first = [Do_stop]"
| "documented Behind Inside start_first = []"
| "documented Behind Behind start_first = []"

primrec perform :: "control_action list \<Rightarrow> stream_control \<Rightarrow> stream_control option" where
  "perform [] c = Some c"
| "perform (k # ks) c = Option.bind (case k of Do_start \<Rightarrow> ExecuteStart c | Do_stop \<Rightarrow> Some (ExecuteStop c)) (perform ks)"

lemma perform_last: "Option.bind x (perform []) = x" "Option.bind x (perform [Do_stop]) = map_option ExecuteStop x"
  by (cases x; simp)+

section \<open>When a stream flows\<close>

text \<open>The state just before a time: of the start and the stop that lie before it the later one counts, a stop at the time
  of the start as the later. A sample flows if the stream flows into it or starts inside it.\<close>

definition state_before :: "int \<Rightarrow> stream_state \<Rightarrow> int \<Rightarrow> int \<Rightarrow> stream_state" where
  "state_before t s start stop =
    (if stop < t \<and> (start < t \<longrightarrow> start \<le> stop) then STREAM_DISCARDING else if start < t then STREAM_FLOWING else s)"

definition sample_state :: "int \<Rightarrow> int \<Rightarrow> stream_state \<Rightarrow> int \<Rightarrow> int \<Rightarrow> stream_state" where
  "sample_state a b s start stop = (if a \<le> start \<and> start < b then STREAM_FLOWING else state_before a s start stop)"

definition control_ok :: "stream_control \<Rightarrow> bool" where
  "control_ok c \<longleftrightarrow> m_tStartTime c \<le> MAX_TIME \<and> m_tStopTime c \<le> MAX_TIME \<and>
     m_StreamStateOnStop c = (if m_tStopTime c = MAX_TIME then STREAM_FLOWING else STREAM_DISCARDING) \<and>
     (m_pSink c \<or> m_dwStartCookie c = 0)"

text \<open>The control after a sample, by what of the start and the stop has happened by then.\<close>

definition has_started :: "int \<Rightarrow> stream_control \<Rightarrow> bool" where "has_started b c \<longleftrightarrow> m_tStartTime c < b"

definition has_stopped :: "int \<Rightarrow> int \<Rightarrow> stream_control \<Rightarrow> bool" where
  "has_stopped a b c \<longleftrightarrow> m_tStopTime c < a \<or> (m_tStartTime c < b \<and> m_tStopTime c < m_tStartTime c)"

definition sent :: "int \<Rightarrow> int \<Rightarrow> stream_control \<Rightarrow> notice list" where
  "sent a b c =
    (let started = (if has_started b c \<and> m_dwStartCookie c \<noteq> 0 then [EC_STREAM_CONTROL_STARTED (m_dwStartCookie c)] else []);
         stopped = (if has_stopped a b c \<and> m_dwStopCookie c \<noteq> 0 \<and> m_pSink c then [EC_STREAM_CONTROL_STOPPED (m_dwStopCookie c)] else [])
     in if m_tStartTime c \<le> m_tStopTime c then started @ stopped else stopped @ started)"

definition settled :: "int \<Rightarrow> int \<Rightarrow> stream_control \<Rightarrow> stream_control" where
  "settled a b c =
     c\<lparr>m_StreamState := sample_state a b (m_StreamState c) (m_tStartTime c) (m_tStopTime c),
       m_StreamStateOnStop := (if has_stopped a b c then STREAM_FLOWING else m_StreamStateOnStop c),
       m_tStartTime := (if has_started b c then MAX_TIME else m_tStartTime c),
       m_dwStartCookie := (if has_started b c then 0 else m_dwStartCookie c),
       m_tStopTime := (if has_stopped a b c then MAX_TIME else m_tStopTime c),
       m_dwStopCookie := (if has_stopped a b c then 0 else m_dwStopCookie c),
       notices := notices c @ sent a b c\<rparr>"

lemmas control_defs = CheckSampleTimes_def start_then_stop_def stop_then_start_def ExecuteStart_def ExecuteStop_def CancelStart_def CancelStop_def Let_def

lemma CheckSampleTimes_settles:
  assumes "control_ok c" "a \<le> b" "b \<le> MAX_TIME"
  shows "CheckSampleTimes a b c = Some (sample_state a b (m_StreamState c) (m_tStartTime c) (m_tStopTime c), settled a b c)"
  using assms
  by (auto simp: control_defs control_ok_def settled_def sample_state_def state_before_def has_started_def has_stopped_def sent_def)

lemma settled_ok: "control_ok c \<Longrightarrow> control_ok (settled a b c)"
  by (auto simp: control_ok_def settled_def)

lemma sample_state_settled:
  assumes "control_ok c" "a \<le> b" "a \<le> a'" "b \<le> b'" "a' \<le> b'" "b' \<le> MAX_TIME"
  shows "sample_state a' b' (m_StreamState (settled a b c)) (m_tStartTime (settled a b c)) (m_tStopTime (settled a b c))
    = sample_state a' b' (m_StreamState c) (m_tStartTime c) (m_tStopTime c)"
  using assms by (auto simp: settled_def sample_state_def state_before_def has_started_def has_stopped_def control_ok_def)

lemma settled_settled:
  assumes "control_ok c" "a \<le> b" "a \<le> a'" "b \<le> b'" "a' \<le> b'" "b' \<le> MAX_TIME"
  shows "settled a' b' (settled a b c) = settled a' b' c"
proof -
  have 1: "has_started b' (settled a b c) \<longleftrightarrow> \<not> has_started b c \<and> has_started b' c"
    using assms by (auto simp: settled_def has_started_def)
  have 2: "has_stopped a' b' (settled a b c) \<longleftrightarrow> \<not> has_stopped a b c \<and> has_stopped a' b' c"
    using assms by (auto simp: settled_def has_started_def has_stopped_def control_ok_def)
  have 3: "has_started b c \<longrightarrow> has_started b' c" "has_stopped a b c \<longrightarrow> has_stopped a' b' c"
    using assms by (auto simp: has_started_def has_stopped_def)
  have 4: "sent a b c @ sent a' b' (settled a b c) = sent a' b' c"
    using assms 1 2 3 unfolding sent_def Let_def
    by (auto simp: settled_def has_started_def has_stopped_def control_ok_def)
  show ?thesis using sample_state_settled [OF assms] 1 2 3 4 unfolding settled_def by auto
qed

primrec check_samples :: "(int \<times> int) list \<Rightarrow> stream_control \<Rightarrow> (stream_state list \<times> stream_control) option" where
  "check_samples [] c = Some ([], c)"
| "check_samples (s # ss) c =
    (case CheckSampleTimes (fst s) (snd s) c of
       None \<Rightarrow> None
     | Some (v, c1) \<Rightarrow> map_option (\<lambda>(vs, c2). (v # vs, c2)) (check_samples ss c1))"

text \<open>Samples follow each other: neither their starts nor their ends go back.\<close>

fun in_sequence :: "(int \<times> int) list \<Rightarrow> bool" where
  "in_sequence [] = True"
| "in_sequence [s] = (fst s \<le> snd s \<and> snd s \<le> MAX_TIME)"
| "in_sequence (s # s' # ss) = (fst s \<le> snd s \<and> fst s \<le> fst s' \<and> snd s \<le> snd s' \<and> in_sequence (s' # ss))"

lemma in_sequence_hd: "in_sequence (s # ss) \<Longrightarrow> fst s \<le> snd s \<and> snd s \<le> MAX_TIME \<and>
   (\<forall>s' \<in> set ss. fst s \<le> fst s' \<and> snd s \<le> snd s' \<and> fst s' \<le> snd s' \<and> snd s' \<le> MAX_TIME) \<and> in_sequence ss"
proof (induction ss arbitrary: s)
  case (Cons s1 ss)
  then have i: "fst s \<le> snd s" "fst s \<le> fst s1" "snd s \<le> snd s1" "in_sequence (s1 # ss)" by auto
  from Cons(1) [OF i(4)] i show ?case by force
qed simp

lemma check_samples_spec:
  "control_ok c \<Longrightarrow> in_sequence ss \<Longrightarrow> ss \<noteq> [] \<Longrightarrow>
   check_samples ss c = Some (map (\<lambda>(a, b). sample_state a b (m_StreamState c) (m_tStartTime c) (m_tStopTime c)) ss, settled (fst (last ss)) (snd (last ss)) c)"
proof (induction ss arbitrary: c)
  case (Cons s ss)
  note q = in_sequence_hd [OF Cons(3)]
  note 1 = CheckSampleTimes_settles [OF Cons(2), of "fst s" "snd s"]
  show ?case
  proof (cases "ss = []")
    case False
    let ?c = "settled (fst s) (snd s) c"
    note IH = Cons(1) [OF settled_ok [OF Cons(2)] _ False, of "fst s" "snd s"]
    have "settled (fst (last ss)) (snd (last ss)) ?c = settled (fst (last ss)) (snd (last ss)) c"
      using settled_settled [OF Cons(2)] q False by (metis last_in_set)
    moreover have "map (\<lambda>(a, b). sample_state a b (m_StreamState ?c) (m_tStartTime ?c) (m_tStopTime ?c)) ss
        = map (\<lambda>(a, b). sample_state a b (m_StreamState c) (m_tStartTime c) (m_tStopTime c)) ss"
      using sample_state_settled [OF Cons(2)] q by (intro map_cong) auto
    ultimately show ?thesis using IH 1 q False by (simp add: split_beta)
  qed (use 1 q in \<open>simp add: split_beta\<close>)
qed simp

section \<open>Properties\<close>

text \<open>\<open>CheckSampleTimes\<close>, whose author does not remember how he came upon it, does for every position of the start and the stop what
  the table of nineteen cases above it demands, in that order, and returns the state it arrives at.\<close>

theorem nineteen_cases_as_documented:
  assumes "a \<le> b" and "b \<le> MAX_TIME" and "m_tStartTime c \<le> MAX_TIME" and "m_tStopTime c \<le> MAX_TIME"
  shows "CheckSampleTimes a b c =
    map_option (\<lambda>c'. (m_StreamState c', c'))
      (perform (documented (place_of a b (m_tStartTime c)) (place_of a b (m_tStopTime c)) (m_tStartTime c \<le> m_tStopTime c)) c)"
  using assms
  by (auto simp: CheckSampleTimes_def place_of_def start_then_stop_def stop_then_start_def Let_def perform_last)

text \<open>C36: The verdicts on a sequence of samples are those of the start and the stop the application has asked for, from the state before:
  a sample flows exactly if the stream flows just before it, or starts inside it. Each of the two is notified once, if it
  has a cookie and has happened by the last sample, in the order of their times; nothing is notified twice or early.\<close>

theorem samples_flow_when_asked:
  assumes "control_ok c" and "in_sequence (ss @ [(a, b)])"
  shows "\<exists>c'. check_samples (ss @ [(a, b)]) c
       = Some (map (\<lambda>(a, b). sample_state a b (m_StreamState c) (m_tStartTime c) (m_tStopTime c)) (ss @ [(a, b)]), c') \<and>
     notices c' = notices c @ sent a b c \<and> control_ok c' \<and> m_StreamState c' = sample_state a b (m_StreamState c) (m_tStartTime c) (m_tStopTime c)"
  using check_samples_spec [OF assms(1,2)] settled_ok [OF assms(1), of a b] by (auto simp: settled_def)

definition demo_control :: stream_control where
  "demo_control = \<lparr>m_StreamState = STREAM_DISCARDING, m_StreamStateOnStop = STREAM_DISCARDING, m_tStartTime = 25, m_tStopTime = 47, m_dwStartCookie = 1,
     m_dwStopCookie = 2, m_bIsFlushing = False, m_bStopSendExtra = False, m_bStopExtraSent = False, m_pRefClock = Some 1, m_pSink = True,
     m_FilterState = State_Running, m_tRunStart = 0, stream_event = True, notices = []\<rparr>"

theorem samples_flow_when_asked_witness:
  "\<exists>c'. check_samples [(0, 10), (10, 20), (20, 30), (30, 40), (40, 50), (50, 60)] demo_control
     = Some ([STREAM_DISCARDING, STREAM_DISCARDING, STREAM_FLOWING, STREAM_FLOWING, STREAM_FLOWING, STREAM_DISCARDING], c') \<and>
     notices c' = [EC_STREAM_CONTROL_STARTED 1, EC_STREAM_CONTROL_STOPPED 2]"
proof -
  have ok: "control_ok demo_control" by (simp add: control_ok_def demo_control_def MAX_TIME_def)
  have "in_sequence ([(0, 10), (10, 20), (20, 30), (30, 40), (40, 50)] @ [(50, 60)])" by (simp add: MAX_TIME_def)
  from samples_flow_when_asked [OF ok this] show ?thesis
    by (auto simp del: check_samples.simps simp: demo_control_def sample_state_def state_before_def sent_def has_started_def has_stopped_def)
qed

theorem nineteen_cases_as_documented_witness:
  "CheckSampleTimes 20 30 demo_control = map_option (\<lambda>c'. (m_StreamState c', c')) (perform [Do_start] demo_control)"
  using nineteen_cases_as_documented [of 20 30 demo_control] by (simp add: demo_control_def MAX_TIME_def place_of_def)

section \<open>Waiting\<close>

text \<open>The calls that others make while a streaming thread is in \<open>CheckStreamState\<close>.\<close>

datatype control_call =
    Call_stop_at "int option" bool u32 | Call_start_at "int option" u32 | Call_filter_state filter_state int | Call_flushing bool

primrec do_control_call :: "control_call \<Rightarrow> stream_control \<Rightarrow> stream_control option" where
  "do_control_call (Call_stop_at t x k) c = Some (snd (StopAt t x k c))"
| "do_control_call (Call_start_at t k) c = Some (snd (StartAt t k c))"
| "do_control_call (Call_filter_state s t) c = NotifyFilterState s t c"
| "do_control_call (Call_flushing b) c = Some (Flushing b c)"

primrec control_calls :: "control_call list \<Rightarrow> stream_control \<Rightarrow> stream_control option" where
  "control_calls [] c = Some c"
| "control_calls (k # ks) c = Option.bind (do_control_call k c) (control_calls ks)"

text \<open>The loop: for each round the clock's time, the calls during the wait, and how the wait ends. The event resets when it wakes the
  thread. The inner \<open>None\<close> is a thread that is still in the loop when the rounds given have been used up.\<close>

primrec CheckStreamState ::
  "(int \<times> int) option \<Rightarrow> (int \<times> control_call list \<times> wait_result) list \<Rightarrow> stream_control \<Rightarrow> (stream_state option \<times> stream_control) option" where
  "CheckStreamState sample [] c = Some (None, c)"
| "CheckStreamState sample (r # rs) c =
    (case check_round sample (fst r) c of
       None \<Rightarrow> None
     | Some (Decided v, c1) \<Rightarrow> Some (Some v, c1)
     | Some (Wait_for t, c1) \<Rightarrow>
        (case control_calls (fst (snd r)) c1 of
           None \<Rightarrow> None
         | Some c2 \<Rightarrow>
            if snd (snd r) = WAIT_TIMEOUT then Some (Some STREAM_DISCARDING, c2)
            else CheckStreamState sample rs (c2\<lparr>stream_event := False\<rparr>)))"

lemma CheckSampleTimes_keeps: "CheckSampleTimes a b c = Some (v, c1) \<Longrightarrow>
   m_bIsFlushing c1 = m_bIsFlushing c \<and> m_FilterState c1 = m_FilterState c \<and> m_tRunStart c1 = m_tRunStart c \<and> m_pRefClock c1 = m_pRefClock c"
  by (auto simp: control_defs split: if_splits)

text \<open>A streaming thread never waits for ever past the end of streaming: stopping the filter and flushing set the event, and at its next
  look the thread discards the sample, whatever is pending, and leaves.\<close>

theorem stop_and_flush_release_the_thread:
  assumes "do_control_call k c = Some c'" and "k = Call_flushing True \<or> (\<exists>t. k = Call_filter_state State_Stopped t \<and> m_FilterState c \<noteq> State_Stopped)"
  shows "stream_event c' \<and> CheckStreamState sample ((rtNow, ks, w) # rs) c' = Some (Some STREAM_DISCARDING, c')"
  using assms by (auto simp: Flushing_def NotifyFilterState_def check_round_def)

theorem stop_and_flush_release_the_thread_witness:
  "\<exists>c'. do_control_call (Call_filter_state State_Stopped 0) demo_control = Some c' \<and> CheckStreamState None [(0, [], WAIT_FAILED)] c' = Some (Some STREAM_DISCARDING, c')"
proof -
  obtain c' where c: "do_control_call (Call_filter_state State_Stopped 0) demo_control = Some c'"
    by (simp add: NotifyFilterState_def demo_control_def MAX_TIME_def start_then_stop_def ExecuteStart_def Let_def)
  have "m_FilterState demo_control \<noteq> State_Stopped" by (simp add: demo_control_def)
  then show ?thesis using stop_and_flush_release_the_thread [OF c, of None 0 "[]" WAIT_FAILED "[]"] c by auto
qed

text \<open>A sample that is discarded in time is not held past its start: while the filter runs, the wait ends before the stream time at
  which the sample starts, and there is none if that is less than 10 ms ahead, or has passed.\<close>

theorem discarded_samples_are_not_held_back:
  assumes "check_round (Some (a, b)) rtNow c = Some (Wait_for t, c1)" and "m_FilterState c = State_Running"
    and "\<bar>a - (rtNow - m_tRunStart c)\<bar> < 10000 * 2 ^ 31" and "\<bar>rtNow - m_tRunStart c\<bar> < 2 ^ 63"
  shows "10 \<le> sint t \<and> rtNow - m_tRunStart c + 10000 * sint t \<le> a \<and> a < rtNow - m_tRunStart c + 10000 * (sint t + 1)"
proof -
  let ?d = "a - (rtNow - m_tRunStart c)"
  obtain v c2 where v: "CheckSampleTimes a b c = Some (v, c2)" using assms(1) by (auto simp: check_round_def split: if_splits option.splits)
  note k = CheckSampleTimes_keeps [OF v]
  have w: "wrap64 (rtNow - m_tRunStart c) = rtNow - m_tRunStart c" "wrap64 ?d = ?d"
    using assms(3,4) wrap64_id by (auto simp: MAX_TIME_def abs_less_iff)
  have t: "t = word_of_int (quot_toward_zero ?d 10000)" "10 \<le> sint t"
    using assms(1,2) v k w by (auto simp: check_round_def Let_def split: if_splits)
  have q: "- (2 ^ 31) \<le> quot_toward_zero ?d 10000 \<and> quot_toward_zero ?d 10000 < 2 ^ 31"
    using assms(3) by (auto simp: quot_toward_zero_def abs_if split: if_splits)
  then have s: "sint t = quot_toward_zero ?d 10000" unfolding t(1) by (simp add: signed_of_int signed_take_bit_int_eq_self)
  have "0 \<le> ?d" using t(2) s by (auto simp: quot_toward_zero_def abs_if split: if_splits)
  then have "sint t = ?d div 10000" using s by simp
  then show ?thesis using t(2) by auto
qed

theorem discarded_samples_are_not_held_back_witness:
  "check_round (Some (1000000, 1100000)) 300000 (demo_control\<lparr>m_tStartTime := MAX_TIME, m_tStopTime := MAX_TIME\<rparr>)
     = Some (Wait_for 70, demo_control\<lparr>m_tStartTime := MAX_TIME, m_tStopTime := MAX_TIME\<rparr>) \<and> 10 \<le> sint (70 :: u32) \<and> 300000 + 10000 * sint (70 :: u32) \<le> (1000000 :: int)"
proof -
  let ?c = "demo_control\<lparr>m_tStartTime := MAX_TIME, m_tStopTime := MAX_TIME\<rparr>"
  have r: "check_round (Some (1000000, 1100000)) 300000 ?c = Some (Wait_for 70, ?c)"
    by (simp add: check_round_def control_defs demo_control_def MAX_TIME_def wrap64_def)
  have "m_FilterState ?c = State_Running" "m_tRunStart ?c = 0" by (simp_all add: demo_control_def)
  then show ?thesis using discarded_samples_are_not_held_back [OF r] r by simp
qed

text \<open>A start that is to be notified when no sink has been set, with the first sample that ends after it, calls through a null pointer;
  a stop is careful about that.\<close>

theorem start_without_a_sink_crashes:
  assumes "\<not> m_pSink c" and "m_dwStartCookie c \<noteq> 0" and "m_tStartTime c < b" and "a \<le> b"
  shows "CheckSampleTimes a b c = None"
  using assms by (auto simp: control_defs)

theorem start_without_a_sink_crashes_witness: "CheckSampleTimes 20 30 (SetFilterGraph False demo_control) = None"
  using start_without_a_sink_crashes [of "SetFilterGraph False demo_control" 30 20] by (simp add: SetFilterGraph_def demo_control_def)

end
