(* ===== verification/SelfRegistration.thy ===== *)
theory SelfRegistration
  imports Registration
begin

text \<open>
  The older way to register the servers of a DLL (AMovieDllRegisterServer and AMovieDllUnregisterServer in
  baseclasses/dllsetup.cpp): every server is registered, an object of it is made, and the object is asked to register
  itself through IAMovieSetup.
\<close>

section \<open>The objects\<close>

datatype object_call = Create_object clsid | Object_Unregister clsid | Object_Register clsid | Object_Release clsid

type_synonym object_answers = "object_call list \<Rightarrow> object_call \<Rightarrow> hresult"

definition ask_object :: "object_answers \<Rightarrow> object_call \<Rightarrow> object_call list \<Rightarrow> hresult \<times> object_call list" where
  "ask_object ans k log = (ans log k, log @ [k])"

text \<open>An object that has no IAMovieSetup, or that wants an owner, is not asked.\<close>

definition no_setup :: "hresult \<Rightarrow> hresult" where
  "no_setup hr = (if hr = E_NOINTERFACE \<or> hr = VFW_E_NEED_OWNER then S_OK else hr)"

definition register_object :: "object_answers \<Rightarrow> clsid \<Rightarrow> object_call list \<Rightarrow> hresult \<times> object_call list" where
  "register_object ans c log =
    (let (hr, l1) = ask_object ans (Create_object c) log
     in if succeeded hr
        then (let (hr1, l2) = ask_object ans (Object_Unregister c) l1;
                  (hr2, l3) = (if succeeded hr1 then ask_object ans (Object_Register c) l2 else (hr1, l2))
              in (hr2, l3 @ [Object_Release c]))
        else (no_setup hr, l1))"

definition unregister_object :: "object_answers \<Rightarrow> clsid \<Rightarrow> object_call list \<Rightarrow> hresult \<times> object_call list" where
  "unregister_object ans c log =
    (let (hr, l1) = ask_object ans (Create_object c) log
     in if succeeded hr then (let (hr1, l2) = ask_object ans (Object_Unregister c) l1 in (hr1, l2 @ [Object_Release c]))
        else (no_setup hr, l1))"

section \<open>The servers\<close>

text \<open>\<open>makes\<close> is whether a template has a function that makes an object.\<close>

primrec register_all ::
  "(clsid \<Rightarrow> string) \<Rightarrow> (clsid \<Rightarrow> server_answers) \<Rightarrow> (factory_template \<Rightarrow> bool) \<Rightarrow> object_answers \<Rightarrow> string \<Rightarrow> factory_template list
     \<Rightarrow> hresult \<Rightarrow> registry \<Rightarrow> object_call list \<Rightarrow> hresult \<times> registry \<times> object_call list" where
  "register_all gt sv makes ans file [] hr r log = (hr, r, log)"
| "register_all gt sv makes ans file (t # ts) hr r log =
    (let (hr1, r1) = AMovieSetupRegisterServer gt (sv (t_ClsID t)) (t_ClsID t) (t_Name t) file ''Both'' ''InprocServer32'' r;
         (hr2, l1) = (if succeeded hr1 \<and> makes t then register_object ans (t_ClsID t) log else (hr1, log))
     in if failed hr2 then (hr2, r1, l1) else register_all gt sv makes ans file ts hr2 r1 l1)"

definition AMovieDllRegisterServer ::
  "setup_world \<Rightarrow> (factory_template \<Rightarrow> bool) \<Rightarrow> object_answers \<Rightarrow> factory_template list \<Rightarrow> registry \<Rightarrow> object_call list
     \<Rightarrow> hresult \<times> registry \<times> object_call list" where
  "AMovieDllRegisterServer W makes ans g_Templates r log =
    (case where_from W of
       Inl e \<Rightarrow> (AmHresultFromWin32 e, r, log)
     | Inr achFileName \<Rightarrow> register_all (guid_text W) (server_ans W) makes ans (temp_text achFileName) g_Templates S_OK r log)"

text \<open>In the reverse order of the table; the loop goes on with the templates given, the last one first.\<close>

primrec unregister_all ::
  "nat \<Rightarrow> setup_world \<Rightarrow> (factory_template \<Rightarrow> bool) \<Rightarrow> object_answers \<Rightarrow> factory_template list \<Rightarrow> hresult \<Rightarrow> registry \<Rightarrow> object_call list
     \<Rightarrow> (hresult \<times> registry \<times> object_call list) option" where
  "unregister_all fuel W makes ans [] hr r log = Some (hr, r, log)"
| "unregister_all fuel W makes ans (t # ts) hr r log =
    (let (hr1, l1) = (if makes t then unregister_object ans (t_ClsID t) log else (hr, log))
     in if failed hr1 then Some (hr1, r, l1)
        else do {
          (hr2, r1) \<leftarrow> AMovieSetupUnregisterServer fuel (may_open W) (may_delete W) (guid_text W) (t_ClsID t) r;
          if failed hr2 then Some (hr2, r1, l1) else unregister_all fuel W makes ans ts hr2 r1 l1 })"

definition AMovieDllUnregisterServer ::
  "nat \<Rightarrow> setup_world \<Rightarrow> (factory_template \<Rightarrow> bool) \<Rightarrow> object_answers \<Rightarrow> factory_template list \<Rightarrow> registry \<Rightarrow> object_call list
     \<Rightarrow> (hresult \<times> registry \<times> object_call list) option" where
  "AMovieDllUnregisterServer fuel W makes ans g_Templates r log = unregister_all fuel W makes ans (rev g_Templates) S_OK r log"

section \<open>Both ways\<close>

lemma register_object_succeeds: "(\<And>l k. succeeded (ans l k)) \<Longrightarrow> succeeded (fst (register_object ans c log))"
  by (simp add: register_object_def ask_object_def Let_def)

lemma register_all_registry:
  assumes "\<And>l k. succeeded (ans l k)"
  shows "fst (snd (register_all gt sv makes ans file ts hr r log)) = snd (register_servers gt sv file ts hr' r) \<and>
    (succeeded hr \<and> succeeded hr' \<longrightarrow>
      succeeded (fst (register_all gt sv makes ans file ts hr r log)) = succeeded (fst (register_servers gt sv file ts hr' r)))"
proof (induction ts arbitrary: hr hr' r log)
  case (Cons t ts)
  obtain h1 r1 where s: "AMovieSetupRegisterServer gt (sv (t_ClsID t)) (t_ClsID t) (t_Name t) file ''Both'' ''InprocServer32'' r = (h1, r1)"
    by fastforce
  obtain h2 l2 where o: "register_object ans (t_ClsID t) log = (h2, l2)" by fastforce
  have "succeeded h2" using register_object_succeeds [of ans "t_ClsID t" log] assms o by simp
  then show ?case using Cons by (auto simp: s o Let_def)
qed simp

text \<open>Where every object and the filter mapper do what they are asked, the older way and the one the two DLLs use leave the same
  registry behind, whatever the registry answers, and succeed on the same servers.\<close>

theorem both_ways_register_the_same_servers:
  assumes "where_from W = Inr file" and "\<And>l k. succeeded (ans l k)"
    and "AMovieDllRegisterServer2 fuel W ts True r log2 = Some (hr2, r2, l2)"
  shows "fst (snd (AMovieDllRegisterServer W makes ans ts r log)) = r2"
proof -
  have "r2 = snd (register_servers (guid_text W) (server_ans W) (temp_text file) ts S_OK r)"
    using assms(1,3) by (auto simp: AMovieDllRegisterServer2_def Let_def split_beta split: if_splits)
  then show ?thesis
    using register_all_registry [of ans "guid_text W" "server_ans W" makes "temp_text file" ts S_OK r log S_OK] assms(1,2)
    by (simp add: AMovieDllRegisterServer_def)
qed

theorem both_ways_register_the_same_servers_witness:
  "fst (snd (AMovieDllRegisterServer demo_setup (\<lambda>_. True) (\<lambda>_ _. S_OK) virtual_templates [([''CLSID''], Map.empty)] [])) = demo_registered"
proof -
  obtain l where r: "AMovieDllRegisterServer2 0 demo_setup virtual_templates True [([''CLSID''], Map.empty)] [] = Some (S_OK, demo_registered, l)"
    by (simp add: AMovieDllRegisterServer2_def virtual_templates_def demo_setup_def temp_text_def
      MAX_PATH_def demo_registration register_filters_def ask_setup_def AMovieSetupRegisterFilter2_def HRESULT_FROM_WIN32_def not_registered_def)
  have f: "where_from demo_setup = Inr ''camera.dll''" by (simp add: demo_setup_def)
  show ?thesis by (rule both_ways_register_the_same_servers [OF f _ r]) simp
qed

end
