(* ===== verification/OutputQueue.thy ===== *)
theory OutputQueue
  imports Prelude "HOL-Library.Multiset" "HOL-Library.Sublist"
begin

text \<open>
  The queue an output pin may put between itself and the pin it feeds (COutputQueue in baseclasses/outputq.cpp and
  outputq.h): samples are batched and either sent on by the caller or queued for a thread, together with the end of
  the stream, new segments and commands to the thread; flushing discards what is queued. The thread and its clients are
  interleaved by a step relation, one step for each stretch of code under the lock and for each call downstream.
\<close>

section \<open>State\<close>

text \<open>An entry of the list is a sample, one of the special pointers, or the packet that follows NEW\_SEGMENT.\<close>

datatype entry = Sample nat | SEND_PACKET | EOS_PACKET | RESET_PACKET | NEW_SEGMENT | Packet nat

datatype down_call = D_ReceiveMultiple "nat list" | D_EndOfStream | D_NewSegment nat | D_BeginFlush | D_EndFlush

text \<open>The list of batched samples stands for \<open>m_ppSamples\<close> and \<open>m_nBatched\<close>; \<open>sem\<close> is the count of \<open>m_hSem\<close>. The calls
  downstream and the samples released are recorded in order.\<close>

record out_queue =
  m_List :: "entry list"
  m_ppSamples :: "nat list"
  m_lBatchSize :: nat
  m_bBatchExact :: bool
  m_hr :: hresult
  m_lWaiting :: nat
  sem :: nat
  m_bFlushing :: bool
  m_bFlushed :: bool
  m_bFlushingOpt :: bool
  m_bTerminate :: bool
  m_evFlushComplete :: bool
  m_hEventPop :: "bool option"
  down :: "down_call list"
  released :: "nat list"

definition new_out_queue :: "nat \<Rightarrow> bool \<Rightarrow> bool \<Rightarrow> out_queue" where
  "new_out_queue lBatchSize bBatchExact bFlushingOpt =
     \<lparr>m_List = [], m_ppSamples = [], m_lBatchSize = lBatchSize, m_bBatchExact = (bBatchExact \<and> 1 < lBatchSize), m_hr = S_OK, m_lWaiting = 0,
      sem = 0, m_bFlushing = False, m_bFlushed = True, m_bFlushingOpt = bFlushingOpt, m_bTerminate = False, m_evFlushComplete = False,
      m_hEventPop = None, down = [], released = []\<rparr>"

text \<open>The constructor with the answers it gets: whether there is to be a thread, if nothing fails, and the code in \<open>*phr\<close>.\<close>

record queue_answers =
  qa_phr :: hresult
  qa_query :: hresult
  qa_can_block :: hresult
  qa_samples :: bool
  qa_sem :: "hresult option"
  qa_list :: bool
  qa_thread :: "hresult option"

definition construct_queue :: "queue_answers \<Rightarrow> bool \<Rightarrow> bool \<Rightarrow> hresult \<times> bool" where
  "construct_queue a bAuto bQueue =
    (if failed (qa_phr a) then (qa_phr a, False)
     else if failed (qa_query a) then (qa_query a, False)
     else let queue = (if bAuto \<and> succeeded (qa_can_block a) then qa_can_block a = S_OK else bQueue)
          in if \<not> qa_samples a then (E_OUTOFMEMORY, False)
             else if \<not> queue then (qa_query a, False)
             else case qa_sem a of
               Some e \<Rightarrow> (e, False)
             | None \<Rightarrow> if \<not> qa_list a then (E_OUTOFMEMORY, False)
                 else case qa_thread a of Some e \<Rightarrow> (e, True) | None \<Rightarrow> (qa_query a, True))"

definition SetPopEvent :: "bool option \<Rightarrow> out_queue \<Rightarrow> out_queue" where
  "SetPopEvent hEvent q = q\<lparr>m_hEventPop := hEvent\<rparr>"

definition popped :: "out_queue \<Rightarrow> out_queue" where
  "popped q = q\<lparr>m_hEventPop := map_option (\<lambda>_. True) (m_hEventPop q)\<rparr>"

text \<open>\<open>room\<close> is whether there is memory for a node. A packet that finds none is released as if it were a sample.\<close>

definition QueueSample :: "bool \<Rightarrow> entry \<Rightarrow> out_queue \<Rightarrow> out_queue option" where
  "QueueSample room e q =
    (if room then Some (q\<lparr>m_List := m_List q @ [e]\<rparr>)
     else case e of Sample s \<Rightarrow> Some (q\<lparr>released := released q @ [s]\<rparr>) | Packet p \<Rightarrow> None | _ \<Rightarrow> Some q)"

definition NotifyThread :: "out_queue \<Rightarrow> out_queue" where
  "NotifyThread q = (if m_lWaiting q \<noteq> 0 then q\<lparr>sem := sem q + m_lWaiting q, m_lWaiting := 0\<rparr> else q)"

text \<open>The samples among the entries of a list; a packet is freed with the pointer before it.\<close>

fun samples_of :: "entry list \<Rightarrow> nat list" where
  "samples_of [] = []"
| "samples_of (Sample s # es) = s # samples_of es"
| "samples_of (_ # es) = samples_of es"

text \<open>\<open>None\<close> is a null pointer or a sample taken for a packet, or a packet taken for a sample.\<close>

fun free_list :: "entry list \<Rightarrow> nat list option" where
  "free_list [] = Some []"
| "free_list (Sample s # es) = map_option ((#) s) (free_list es)"
| "free_list (NEW_SEGMENT # Packet p # es) = free_list es"
| "free_list (NEW_SEGMENT # es) = None"
| "free_list (Packet p # es) = None"
| "free_list (e # es) = free_list es"

definition FreeSamples :: "bool \<Rightarrow> out_queue \<Rightarrow> out_queue option" where
  "FreeSamples queued q =
    (case (if queued then free_list (m_List q) else Some []) of
       None \<Rightarrow> None
     | Some ss \<Rightarrow>
        Some ((if queued then popped q else q)\<lparr>m_List := if queued then [] else m_List q, released := released q @ ss @ m_ppSamples q, m_ppSamples := []\<rparr>))"

definition IsIdle :: "bool \<Rightarrow> out_queue \<Rightarrow> bool" where
  "IsIdle queued q \<longleftrightarrow> \<not> ((queued \<and> m_lWaiting q = 0) \<or> m_ppSamples q \<noteq> [])"

section \<open>Without a thread\<close>

text \<open>\<open>recv\<close> is what the other pin answers: a code and how many samples it has processed.\<close>

definition send_batch :: "(nat list \<Rightarrow> hresult \<times> int) \<Rightarrow> out_queue \<Rightarrow> int \<times> out_queue" where
  "send_batch recv q =
    (let b = m_ppSamples q;
         (nDone, q1) = (if m_hr q = S_OK then (snd (recv b), q\<lparr>m_hr := fst (recv b), down := down q @ [D_ReceiveMultiple b]\<rparr>) else (0, q))
     in (int (length b) - nDone, q1\<lparr>released := released q1 @ b, m_ppSamples := []\<rparr>))"

fun direct_loop :: "(nat list \<Rightarrow> hresult \<times> int) \<Rightarrow> nat list \<Rightarrow> int \<Rightarrow> out_queue \<Rightarrow> int \<times> out_queue" where
  "direct_loop recv [] lost q = (lost, q)"
| "direct_loop recv (s # ss) lost q =
    (let q1 = q\<lparr>m_ppSamples := m_ppSamples q @ [s]\<rparr>
     in if length (m_ppSamples q1) = m_lBatchSize q1
        then (case send_batch recv q1 of (l, q2) \<Rightarrow> direct_loop recv ss (lost + l) q2)
        else direct_loop recv ss lost q1)"

text \<open>The result, the number of samples processed, and the queue. With no samples only \<open>SendAnyway\<close> makes it send.\<close>

definition Direct_ReceiveMultiple :: "(nat list \<Rightarrow> hresult \<times> int) \<Rightarrow> bool \<Rightarrow> nat list \<Rightarrow> out_queue \<Rightarrow> hresult \<times> int \<times> out_queue" where
  "Direct_ReceiveMultiple recv m_bSendAnyway ppSamples q =
    (if m_hr q \<noteq> S_OK then (m_hr q, 0, q\<lparr>released := released q @ ppSamples\<rparr>)
     else let q0 = q\<lparr>m_bFlushed := False\<rparr>;
              (lost, q1) = (if ppSamples = [] then (if m_ppSamples q0 \<noteq> [] \<and> m_bSendAnyway then send_batch recv q0 else (0, q0))
                            else direct_loop recv ppSamples 0 q0)
          in (m_hr q1, max 0 (int (length ppSamples) - lost), q1))"

definition Direct_SendAnyway :: "(nat list \<Rightarrow> hresult \<times> int) \<Rightarrow> out_queue \<Rightarrow> out_queue" where
  "Direct_SendAnyway recv q = snd (snd (Direct_ReceiveMultiple recv True [] q))"

definition Direct_EOS :: "(nat list \<Rightarrow> hresult \<times> int) \<Rightarrow> out_queue \<Rightarrow> out_queue" where
  "Direct_EOS recv q =
    (let q1 = (if m_bBatchExact q then Direct_SendAnyway recv q else q)
     in if m_hr q1 = S_OK then q1\<lparr>m_bFlushed := False, down := down q1 @ [D_EndOfStream]\<rparr> else q1)"

definition Direct_NewSegment :: "(nat list \<Rightarrow> hresult \<times> int) \<Rightarrow> nat \<Rightarrow> out_queue \<Rightarrow> out_queue" where
  "Direct_NewSegment recv seg q =
    (if m_hr q = S_OK
     then let q1 = (if m_bBatchExact q then Direct_SendAnyway recv q else q) in q1\<lparr>down := down q1 @ [D_NewSegment seg]\<rparr>
     else q)"

definition Direct_BeginFlush :: "out_queue \<Rightarrow> out_queue" where
  "Direct_BeginFlush q = q\<lparr>down := down q @ [D_BeginFlush], m_bFlushing := True, m_hr := if m_hr q = S_OK then S_FALSE else m_hr q\<rparr>"

definition Direct_EndFlush :: "out_queue \<Rightarrow> out_queue" where
  "Direct_EndFlush q =
     q\<lparr>released := released q @ m_ppSamples q, m_ppSamples := [], m_bFlushing := False, m_bFlushed := True, down := down q @ [D_EndFlush], m_hr := S_OK\<rparr>"

definition Direct_Reset :: "out_queue \<Rightarrow> out_queue" where "Direct_Reset q = q\<lparr>m_hr := S_OK\<rparr>"

section \<open>The clients of the thread\<close>

fun queue_all :: "(nat \<times> bool) list \<Rightarrow> out_queue \<Rightarrow> out_queue option" where
  "queue_all [] q = Some q"
| "queue_all ((s, room) # ss) q = Option.bind (QueueSample room (Sample s) q) (queue_all ss)"

text \<open>Each sample comes with whether there is memory for its node.\<close>

definition Queued_ReceiveMultiple :: "(nat \<times> bool) list \<Rightarrow> out_queue \<Rightarrow> (hresult \<times> nat \<times> out_queue) option" where
  "Queued_ReceiveMultiple ss q =
    (if m_hr q \<noteq> S_OK then Some (m_hr q, 0, q\<lparr>released := released q @ map fst ss\<rparr>)
     else map_option (\<lambda>q1. (S_OK, length ss,
            if \<not> m_bBatchExact q1 \<or> m_lBatchSize q1 \<le> length (m_ppSamples q1) + length (m_List q1) then NotifyThread q1 else q1))
          (queue_all ss (q\<lparr>m_bFlushed := False\<rparr>)))"

definition Queued_SendAnyway :: "bool \<Rightarrow> out_queue \<Rightarrow> out_queue option" where
  "Queued_SendAnyway room q = map_option NotifyThread (QueueSample room SEND_PACKET q)"

definition Queued_EOS :: "bool \<Rightarrow> out_queue \<Rightarrow> out_queue option" where
  "Queued_EOS room q =
    (if m_hr q = S_OK then map_option NotifyThread (QueueSample room EOS_PACKET (q\<lparr>m_bFlushed := False\<rparr>)) else Some q)"

text \<open>\<open>hr\<close> is what \<open>m_hr\<close> was when it was read, before the lock is taken; \<open>packet\<close> is whether there is memory for the packet
  itself.\<close>

definition Queued_NewSegment :: "hresult \<Rightarrow> bool \<Rightarrow> bool \<Rightarrow> bool \<Rightarrow> nat \<Rightarrow> out_queue \<Rightarrow> out_queue option" where
  "Queued_NewSegment hr packet room1 room2 seg q =
    (if hr = S_OK \<and> packet
     then map_option NotifyThread (Option.bind (QueueSample room1 NEW_SEGMENT q) (QueueSample room2 (Packet seg)))
     else Some q)"

text \<open>The part of \<open>BeginFlush\<close> under the lock, and whether it is passed downstream.\<close>

definition Queued_BeginFlush :: "out_queue \<Rightarrow> bool \<times> out_queue" where
  "Queued_BeginFlush q =
    (let q1 = q\<lparr>m_bFlushing := True, m_hr := if m_hr q = S_OK then S_FALSE else m_hr q\<rparr>
     in if m_bFlushed q1 \<and> m_bFlushingOpt q1 then (False, q1)
        else (True, NotifyThread (q1\<lparr>m_evFlushComplete := False\<rparr>)))"

text \<open>\<open>EndFlush\<close> returns at once if the flush was not passed on; otherwise it waits for the event, and goes on.\<close>

definition Queued_EndFlush_at_once :: "out_queue \<Rightarrow> out_queue option" where
  "Queued_EndFlush_at_once q = (if m_bFlushingOpt q \<and> m_bFlushed q then Some (q\<lparr>m_bFlushing := False, m_hr := S_OK\<rparr>) else None)"

definition Queued_EndFlush_waited :: "out_queue \<Rightarrow> out_queue" where
  "Queued_EndFlush_waited q = q\<lparr>m_evFlushComplete := False, m_bFlushing := False, m_bFlushed := True\<rparr>"

definition Queued_EndFlush_done :: "out_queue \<Rightarrow> out_queue" where
  "Queued_EndFlush_done q = q\<lparr>down := down q @ [D_EndFlush], m_hr := S_OK\<rparr>"

text \<open>The part of \<open>Reset\<close> under the lock, after which it waits for the event.\<close>

definition Queued_Reset :: "bool \<Rightarrow> out_queue \<Rightarrow> out_queue option" where
  "Queued_Reset room q = map_option NotifyThread (QueueSample room RESET_PACKET q)"

definition Queued_Reset_waited :: "out_queue \<Rightarrow> out_queue" where
  "Queued_Reset_waited q = q\<lparr>m_evFlushComplete := False\<rparr>"

text \<open>What the destructor tells the thread.\<close>

definition tell_to_end :: "out_queue \<Rightarrow> out_queue" where
  "tell_to_end q = NotifyThread (q\<lparr>m_bTerminate := True, m_hr := S_FALSE\<rparr>)"

section \<open>The thread\<close>

datatype special = No_special | Send | Eos | Reset_done | Segment nat

text \<open>The inner loop of \<open>ThreadProc\<close>: it takes entries off the list until a batch is to be sent or there is nothing to do.\<close>

fun gather :: "bool \<Rightarrow> nat \<Rightarrow> nat list \<Rightarrow> entry list \<Rightarrow> (special option \<times> nat list \<times> entry list) option" where
  "gather exact n b [] = Some (if exact \<or> b = [] then None else Some No_special, b, [])"
| "gather exact n b (Sample s # es) =
    (if length (b @ [s]) = n then Some (Some No_special, b @ [s], es) else gather exact n (b @ [s]) es)"
| "gather exact n b (SEND_PACKET # es) = (if b = [] then gather exact n b es else Some (Some Send, b, es))"
| "gather exact n b (EOS_PACKET # es) = Some (Some Eos, b, es)"
| "gather exact n b (RESET_PACKET # es) = Some (Some Reset_done, b, es)"
| "gather exact n b (NEW_SEGMENT # Packet p # es) = Some (Some (Segment p), b, es)"
| "gather exact n b (NEW_SEGMENT # es) = None"
| "gather exact n b (Packet p # es) = None"

datatype worker = Loop | Sleeping | Sending "nat list" special | Sent "nat list" special "hresult option" | Finishing special | Ended

text \<open>One passage through the part under the lock.\<close>

definition collect :: "out_queue \<Rightarrow> (worker \<times> out_queue) option" where
  "collect q =
    (if m_bTerminate q then map_option (\<lambda>q1. (Ended, q1)) (FreeSamples True q)
     else case (if m_bFlushing q then map_option (\<lambda>q1. q1\<lparr>m_evFlushComplete := True\<rparr>) (FreeSamples True q) else Some q) of
       None \<Rightarrow> None
     | Some q1 \<Rightarrow>
        (case gather (m_bBatchExact q1) (m_lBatchSize q1) (m_ppSamples q1) (m_List q1) of
           None \<Rightarrow> None
         | Some (None, b, es) \<Rightarrow> Some (Sleeping, (popped q1)\<lparr>m_ppSamples := b, m_List := es, m_lWaiting := m_lWaiting q1 + 1\<rparr>)
         | Some (Some sp, b, es) \<Rightarrow> Some (Sending b sp, (popped q1)\<lparr>m_ppSamples := [], m_List := es\<rparr>)))"

text \<open>The call downstream, which is made only while there is no error; its result comes back later.\<close>

definition send_down :: "hresult \<Rightarrow> nat list \<Rightarrow> special \<Rightarrow> out_queue \<Rightarrow> worker \<times> out_queue" where
  "send_down hr b sp q =
    (if b \<noteq> [] \<and> m_hr q = S_OK then (Sent b sp (Some hr), q\<lparr>down := down q @ [D_ReceiveMultiple b]\<rparr>) else (Sent b sp None, q))"

definition after_send :: "nat list \<Rightarrow> hresult option \<Rightarrow> out_queue \<Rightarrow> out_queue" where
  "after_send b r q = q\<lparr>m_hr := (case r of Some hr \<Rightarrow> if m_hr q = S_OK then hr else m_hr q | None \<Rightarrow> m_hr q), released := released q @ rev b\<rparr>"

definition finish :: "special \<Rightarrow> out_queue \<Rightarrow> out_queue" where
  "finish sp q =
    (case sp of
       Eos \<Rightarrow> if m_hr q = S_OK then q\<lparr>down := down q @ [D_EndOfStream]\<rparr> else q
     | Reset_done \<Rightarrow> q\<lparr>m_hr := S_OK, m_evFlushComplete := True\<rparr>
     | Segment p \<Rightarrow> q\<lparr>down := down q @ [D_NewSegment p]\<rparr>
     | _ \<Rightarrow> q)"

section \<open>The thread and its clients\<close>

text \<open>
  \<open>handed\<close> is everything the clients have handed over in order, samples, ends of the stream and segments; \<open>flush_down\<close> is a flush
  that has still to be passed on, \<open>ending\<close> one whose end has, and \<open>resetting\<close> a call of \<open>Reset\<close> that waits. As the code demands of its
  clients, nothing is handed over while the queue is flushed. In a step with \<open>full\<close> there is memory for every node, no flush
  begins while a call of \<open>Reset\<close> waits, and \<open>m_hr\<close> is not reset between its reading and the lock in \<open>NewSegment\<close>.
\<close>

record q_system =
  que :: out_queue
  worker :: worker
  flush_down :: bool
  ending :: bool
  resetting :: bool
  handed :: "entry list"
  crashed :: bool

abbreviation open_for_data :: "q_system \<Rightarrow> bool" where
  "open_for_data s \<equiv> \<not> m_bFlushing (que s) \<and> \<not> ending s \<and> \<not> m_bTerminate (que s) \<and> \<not> resetting s"

definition put :: "q_system \<Rightarrow> entry list \<Rightarrow> out_queue option \<Rightarrow> q_system" where
  "put s es r = (case r of None \<Rightarrow> s\<lparr>crashed := True\<rparr> | Some q' \<Rightarrow> s\<lparr>que := q', handed := handed s @ es\<rparr>)"

inductive q_step :: "bool \<Rightarrow> q_system \<Rightarrow> q_system \<Rightarrow> bool" for full :: bool where
  c_receive: "open_for_data s \<Longrightarrow> (full \<longrightarrow> list_all snd ss) \<Longrightarrow>
    q_step full s (put s (map (\<lambda>x. Sample (fst x)) ss) (map_option (\<lambda>(hr, n, q'). q') (Queued_ReceiveMultiple ss (que s))))"
| c_eos: "open_for_data s \<Longrightarrow> (full \<longrightarrow> room) \<Longrightarrow> q_step full s (put s [EOS_PACKET] (Queued_EOS room (que s)))"
| c_segment: "open_for_data s \<Longrightarrow> (full \<longrightarrow> packet \<and> room1 \<and> room2 \<and> (m_hr (que s) = S_OK \<longrightarrow> hr = S_OK)) \<Longrightarrow>
    q_step full s (put s [Packet seg] (Queued_NewSegment hr packet room1 room2 seg (que s)))"
| c_send: "open_for_data s \<Longrightarrow> (full \<longrightarrow> room) \<Longrightarrow> q_step full s (put s [] (Queued_SendAnyway room (que s)))"
| c_reset: "open_for_data s \<Longrightarrow> (full \<longrightarrow> room) \<Longrightarrow> q_step full s (put (s\<lparr>resetting := True\<rparr>) [] (Queued_Reset room (que s)))"
| c_reset_waited: "resetting s \<Longrightarrow> m_evFlushComplete (que s) \<Longrightarrow> q_step full s (s\<lparr>que := Queued_Reset_waited (que s), resetting := False\<rparr>)"
| c_begin_flush: "\<not> m_bFlushing (que s) \<Longrightarrow> \<not> ending s \<Longrightarrow> \<not> m_bTerminate (que s) \<Longrightarrow> (full \<longrightarrow> \<not> resetting s) \<Longrightarrow>
    Queued_BeginFlush (que s) = (passed, q') \<Longrightarrow> q_step full s (s\<lparr>que := q', flush_down := passed\<rparr>)"
| c_flush_down: "flush_down s \<Longrightarrow> q_step full s (s\<lparr>que := (que s)\<lparr>down := down (que s) @ [D_BeginFlush]\<rparr>, flush_down := False\<rparr>)"
| c_end_at_once: "m_bFlushing (que s) \<Longrightarrow> \<not> m_bTerminate (que s) \<Longrightarrow> \<not> flush_down s \<Longrightarrow> Queued_EndFlush_at_once (que s) = Some q' \<Longrightarrow> q_step full s (s\<lparr>que := q'\<rparr>)"
| c_end_waited: "m_bFlushing (que s) \<Longrightarrow> \<not> m_bTerminate (que s) \<Longrightarrow> \<not> flush_down s \<Longrightarrow> Queued_EndFlush_at_once (que s) = None \<Longrightarrow>
    m_evFlushComplete (que s) \<Longrightarrow>
    q_step full s (s\<lparr>que := Queued_EndFlush_waited (que s), ending := True\<rparr>)"
| c_end_done: "ending s \<Longrightarrow> q_step full s (s\<lparr>que := Queued_EndFlush_done (que s), ending := False\<rparr>)"
| c_destroy: "\<not> m_bTerminate (que s) \<Longrightarrow> \<not> flush_down s \<Longrightarrow> \<not> ending s \<Longrightarrow> \<not> resetting s \<Longrightarrow> q_step full s (s\<lparr>que := tell_to_end (que s)\<rparr>)"
| w_collect: "worker s = Loop \<Longrightarrow> q_step full s (case collect (que s) of None \<Rightarrow> s\<lparr>crashed := True\<rparr> | Some (w, q') \<Rightarrow> s\<lparr>que := q', worker := w\<rparr>)"
| w_wake: "worker s = Sleeping \<Longrightarrow> sem (que s) \<noteq> 0 \<Longrightarrow> q_step full s (s\<lparr>que := (que s)\<lparr>sem := sem (que s) - 1\<rparr>, worker := Loop\<rparr>)"
| w_send: "worker s = Sending b sp \<Longrightarrow> send_down hr b sp (que s) = (w, q') \<Longrightarrow> q_step full s (s\<lparr>que := q', worker := w\<rparr>)"
| w_sent: "worker s = Sent b sp r \<Longrightarrow> q_step full s (s\<lparr>que := after_send b r (que s), worker := Finishing sp\<rparr>)"
| w_finish: "worker s = Finishing sp \<Longrightarrow> q_step full s (s\<lparr>que := finish sp (que s), worker := Loop\<rparr>)"

definition start_state :: "nat \<Rightarrow> bool \<Rightarrow> bool \<Rightarrow> q_system" where
  "start_state n exact opt =
     \<lparr>que = new_out_queue n exact opt, worker = Loop, flush_down = False, ending = False, resetting = False, handed = [], crashed = False\<rparr>"

inductive q_reachable :: "bool \<Rightarrow> q_system \<Rightarrow> bool" for full :: bool where
  start: "0 < n \<Longrightarrow> q_reachable full (start_state n exact opt)"
| step: "q_reachable full s \<Longrightarrow> \<not> crashed s \<Longrightarrow> q_step full s s' \<Longrightarrow> q_reachable full s'"

section \<open>Order and ownership\<close>

text \<open>What the entries of a list stand for downstream.\<close>

fun items :: "entry list \<Rightarrow> entry list" where
  "items [] = []"
| "items (e # es) = (case e of SEND_PACKET \<Rightarrow> items es | RESET_PACKET \<Rightarrow> items es | NEW_SEGMENT \<Rightarrow> items es | _ \<Rightarrow> e # items es)"

definition special_items :: "special \<Rightarrow> entry list" where
  "special_items sp = (case sp of Eos \<Rightarrow> [EOS_PACKET] | Segment p \<Rightarrow> [Packet p] | _ \<Rightarrow> [])"

definition unsent :: "worker \<Rightarrow> entry list" where
  "unsent w = (case w of Sending b sp \<Rightarrow> map Sample b @ special_items sp | Sent b sp r \<Rightarrow> special_items sp | Finishing sp \<Rightarrow> special_items sp | _ \<Rightarrow> [])"

definition being_sent :: "worker \<Rightarrow> nat list" where
  "being_sent w = (case w of Sending b sp \<Rightarrow> b | Sent b sp r \<Rightarrow> b | _ \<Rightarrow> [])"

definition down_items :: "down_call \<Rightarrow> entry list" where
  "down_items k = (case k of D_ReceiveMultiple b \<Rightarrow> map Sample b | D_EndOfStream \<Rightarrow> [EOS_PACKET] | D_NewSegment p \<Rightarrow> [Packet p] | _ \<Rightarrow> [])"

definition delivered :: "out_queue \<Rightarrow> entry list" where "delivered q = concat (map down_items (down q))"

definition waiting_items :: "out_queue \<Rightarrow> entry list" where "waiting_items q = map Sample (m_ppSamples q) @ items (m_List q)"

definition waiting_samples :: "out_queue \<Rightarrow> nat multiset" where "waiting_samples q = mset (m_ppSamples q) + mset (samples_of (m_List q))"

text \<open>What is delivered and what is still to come is, in this order, part of what was handed over; and every sample is released
  or still being_sent.\<close>

definition in_order :: "q_system \<Rightarrow> bool" where
  "in_order s \<longleftrightarrow> subseq (delivered (que s) @ unsent (worker s) @ waiting_items (que s)) (handed s)"

definition nothing_lost :: "q_system \<Rightarrow> bool" where
  "nothing_lost s \<longleftrightarrow> mset (samples_of (handed s)) = mset (released (que s)) + waiting_samples (que s) + mset (being_sent (worker s))"

lemma items_append [simp]: "items (es @ fs) = items es @ items fs"
  by (induction es) (auto split: entry.split)

lemma samples_of_append [simp]: "samples_of (es @ fs) = samples_of es @ samples_of fs"
  by (induction es rule: samples_of.induct) auto

lemma samples_of_map [simp]: "samples_of (map (\<lambda>x. Sample (f x)) xs) = map f xs" "items (map (\<lambda>x. Sample (f x)) xs) = map (\<lambda>x. Sample (f x)) xs"
  by (induction xs) auto

lemma gather_items: "gather ex n b es = Some (r, b', es') \<Longrightarrow>
   map Sample b @ items es = map Sample b' @ (case r of None \<Rightarrow> [] | Some sp \<Rightarrow> special_items sp) @ items es' \<and>
   b @ samples_of es = b' @ samples_of es'"
  by (induction ex n b es rule: gather.induct) (auto simp: special_items_def split: if_splits)

lemma gather_wait: "gather ex n b es = Some (None, b', es') \<Longrightarrow> es' = [] \<and> (ex \<or> b' = []) \<and> (length b < n \<longrightarrow> length b' < n)"
  by (induction ex n b es rule: gather.induct) (auto split: if_splits)

lemma free_list_samples: "free_list es = Some ss \<Longrightarrow> ss = samples_of es"
  by (induction es arbitrary: ss rule: free_list.induct) auto

lemma queue_all_eq:
  "queue_all ss q = Some (q\<lparr>m_List := m_List q @ map (\<lambda>x. Sample (fst x)) (filter snd ss),
     released := released q @ map fst (filter (Not \<circ> snd) ss)\<rparr>)"
  by (induction ss q rule: queue_all.induct) (auto simp: QueueSample_def)

lemma subseq_grow: "subseq (d @ u @ w) h \<Longrightarrow> subseq w' es \<Longrightarrow> subseq (d @ u @ w @ w') (h @ es)"
  using list_emb_append_mono [of "(=)" "d @ u @ w" h w' es] by simp

lemma subseq_less: "subseq (d @ u @ w) h \<Longrightarrow> subseq d' d \<Longrightarrow> subseq u' u \<Longrightarrow> subseq w' w \<Longrightarrow> subseq (d' @ u' @ w') h"
  by (meson list_emb_append_mono subseq_order.trans)

text \<open>What an operation of a client may do: add entries that stand for part of \<open>es\<close>, with every sample added or released.\<close>

definition adds :: "out_queue \<Rightarrow> out_queue \<Rightarrow> entry list \<Rightarrow> bool" where
  "adds q q' es \<longleftrightarrow> down q' = down q \<and> m_ppSamples q' = m_ppSamples q \<and>
     (\<exists>l. m_List q' = m_List q @ l \<and> subseq (items l) es \<and> mset (released q') + mset (samples_of l) = mset (released q) + mset (samples_of es))"

lemma adds_nothing [simp]: "adds q (q\<lparr>m_bFlushed := f\<rparr>) []"
  by (simp add: adds_def)

lemma adds_NotifyThread [simp]: "adds q (NotifyThread q') es \<longleftrightarrow> adds q q' es"
  by (simp add: adds_def NotifyThread_def)

lemma subseq_Samples: "subseq (map (\<lambda>x. Sample (fst x)) (filter P ss)) (map (\<lambda>x. Sample (fst x)) ss)"
  by (simp add: subseq_map)

lemma mset_parts: "mset (map f (filter (Not \<circ> P) xs)) + mset (map f (filter P xs)) = mset (map f xs)"
  by (induction xs) auto

lemma Queued_Receive_adds:
  "Queued_ReceiveMultiple ss q = Some (hr, n, q') \<Longrightarrow> adds q q' (map (\<lambda>x. Sample (fst x)) ss)"
  using mset_parts [of fst snd ss]
  by (auto simp: Queued_ReceiveMultiple_def queue_all_eq adds_def NotifyThread_def subseq_Samples split: if_splits)

lemma Queued_adds:
  "Queued_EOS room q = Some q' \<Longrightarrow> adds q q' [EOS_PACKET]"
  "Queued_NewSegment hr packet room room2 seg q = Some q' \<Longrightarrow> adds q q' [Packet seg]"
  "Queued_SendAnyway room q = Some q' \<Longrightarrow> adds q q' []"
  "Queued_Reset room q = Some q' \<Longrightarrow> adds q q' []"
  by (auto simp: Queued_EOS_def Queued_NewSegment_def Queued_SendAnyway_def Queued_Reset_def QueueSample_def adds_def NotifyThread_def
      split: if_splits)

lemma put_in_order:
  assumes "in_order s" "nothing_lost s" and "\<And>q'. r = Some q' \<Longrightarrow> adds (que s) q' es"
  shows "in_order (put s es r)" "nothing_lost (put s es r)"
proof -
  show "in_order (put s es r)"
  proof (cases r)
    case None then show ?thesis using assms(1) by (simp add: put_def in_order_def)
  next
    case (Some q')
    then obtain l where "down q' = down (que s)" "m_ppSamples q' = m_ppSamples (que s)" "m_List q' = m_List (que s) @ l" "subseq (items l) es"
      using assms(3) by (auto simp: adds_def)
    then show ?thesis using assms(1) subseq_grow [of "delivered (que s)" "unsent (worker s)" "waiting_items (que s)" "handed s" "items l" es] Some
      by (simp add: put_def in_order_def waiting_items_def delivered_def)
  qed
  show "nothing_lost (put s es r)"
    using assms by (cases r) (auto simp: put_def nothing_lost_def adds_def waiting_samples_def add_ac)
qed

text \<open>What a step of the thread may do: lose entries but not their order, and no sample at all.\<close>

definition moves :: "worker \<Rightarrow> out_queue \<Rightarrow> worker \<Rightarrow> out_queue \<Rightarrow> bool" where
  "moves w q w' q' \<longleftrightarrow>
     subseq (delivered q' @ unsent w' @ waiting_items q') (delivered q @ unsent w @ waiting_items q) \<and>
     mset (released q') + waiting_samples q' + mset (being_sent w') = mset (released q) + waiting_samples q + mset (being_sent w)"

lemma moves_in_order:
  assumes "in_order s" "nothing_lost s" "moves (worker s) (que s) w' q'"
  shows "in_order (s\<lparr>que := q', worker := w'\<rparr>)" "nothing_lost (s\<lparr>que := q', worker := w'\<rparr>)"
  using assms by (auto simp: in_order_def nothing_lost_def moves_def intro: subseq_order.trans)

lemma FreeSamples_moves: "FreeSamples True q = Some q' \<Longrightarrow> w \<in> {Loop, Ended} \<Longrightarrow> moves Loop q w q' \<and> m_List q' = [] \<and> m_ppSamples q' = []"
  by (auto simp: FreeSamples_def moves_def popped_def delivered_def unsent_def being_sent_def waiting_items_def waiting_samples_def
      dest!: free_list_samples split: option.splits)

lemma gather_moves:
  assumes "gather ex n (m_ppSamples q) (m_List q) = Some (r, b, es)" "delivered q' = delivered q" "released q' = released q" "m_List q' = es"
    and "case r of None \<Rightarrow> w = Sleeping \<and> m_ppSamples q' = b | Some sp \<Rightarrow> w = Sending b sp \<and> m_ppSamples q' = []"
  shows "moves Loop q w q'"
proof -
  note g = gather_items [OF assms(1)]
  have "mset (m_ppSamples q) + mset (samples_of (m_List q)) = mset b + mset (samples_of es)"
    using g by (metis mset_append)
  then show ?thesis
    using assms(2-) g by (auto simp: moves_def unsent_def being_sent_def waiting_items_def waiting_samples_def split: option.splits)
qed

lemma moves_trans: "moves w q w1 q1 \<Longrightarrow> moves w1 q1 w' q' \<Longrightarrow> moves w q w' q'"
  by (auto simp: moves_def intro: subseq_order.trans)

lemma collect_flushed:
  assumes "\<not> m_bTerminate q" "(if m_bFlushing q then map_option (\<lambda>q1. q1\<lparr>m_evFlushComplete := True\<rparr>) (FreeSamples True q) else Some q) = Some q1"
  shows "moves Loop q Loop q1"
  using assms(2) FreeSamples_moves [of q _ Loop]
  by (auto simp: moves_def delivered_def waiting_items_def waiting_samples_def split: if_splits)

lemma collect_moves:
  assumes "collect q = Some (w, q')"
  shows "moves Loop q w q'"
proof (cases "m_bTerminate q")
  case True
  then obtain q1 where q1: "FreeSamples True q = Some q1" and w: "w = Ended" "q' = q1" using assms by (auto simp: collect_def)
  have "moves Loop q Loop q1" using FreeSamples_moves [OF q1] by simp
  then show ?thesis by (simp add: moves_def unsent_def being_sent_def w)
next
  case False
  then obtain q1 where q1: "(if m_bFlushing q then map_option (\<lambda>q1. q1\<lparr>m_evFlushComplete := True\<rparr>) (FreeSamples True q) else Some q) = Some q1"
    using assms by (auto simp: collect_def split: option.splits)
  then obtain r b es where g: "gather (m_bBatchExact q1) (m_lBatchSize q1) (m_ppSamples q1) (m_List q1) = Some (r, b, es)"
    using assms False by (auto simp: collect_def split: option.splits)
  have "moves Loop q1 w q'"
    by (rule gather_moves [OF g]) (use assms False q1 g in \<open>auto simp: collect_def popped_def delivered_def split: option.splits\<close>)
  with collect_flushed [OF False q1] show ?thesis by (rule moves_trans)
qed

lemma subseq_skip [simp]: "subseq (a @ c) (a @ b @ c)" "subseq (a @ c) (a @ e # c)" "subseq (a @ e # c) (a @ b @ e # c)"
  by (simp_all add: subseq_append' list_emb_append2 list_emb_Cons)

lemma sending_moves:
  "send_down hr b sp q = (w, q') \<Longrightarrow> moves (Sending b sp) q w q'"
  "moves (Sent b sp r) q (Finishing sp) (after_send b r q)"
  "moves (Finishing sp) q Loop (finish sp q)"
  by (auto simp: send_down_def after_send_def finish_def moves_def delivered_def down_items_def unsent_def being_sent_def waiting_items_def
      waiting_samples_def special_items_def add_ac split: if_splits special.splits)

lemma moves_quiet: "delivered q' = delivered q \<Longrightarrow> m_ppSamples q' = m_ppSamples q \<Longrightarrow> m_List q' = m_List q \<Longrightarrow> released q' = released q \<Longrightarrow>
   unsent w' = unsent w \<Longrightarrow> being_sent w' = being_sent w \<Longrightarrow> moves w q w' q'"
  by (simp add: moves_def waiting_items_def waiting_samples_def)

lemma Receive_put_in_order:
  assumes "in_order s" "nothing_lost s"
  shows "in_order (put s (map (\<lambda>x. Sample (fst x)) ss) (map_option (\<lambda>(hr, n, q'). q') (Queued_ReceiveMultiple ss (que s))))"
    "nothing_lost (put s (map (\<lambda>x. Sample (fst x)) ss) (map_option (\<lambda>(hr, n, q'). q') (Queued_ReceiveMultiple ss (que s))))"
  by (rule put_in_order [OF assms]; clarsimp; rule Queued_Receive_adds; assumption)+

lemma in_order_frame:
  "in_order s \<Longrightarrow> nothing_lost s \<Longrightarrow> moves (worker s) (que s) (worker s) q' \<Longrightarrow>
     in_order (s\<lparr>que := q', flush_down := f\<rparr>) \<and> nothing_lost (s\<lparr>que := q', flush_down := f\<rparr>) \<and>
     in_order (s\<lparr>que := q', ending := e\<rparr>) \<and> nothing_lost (s\<lparr>que := q', ending := e\<rparr>) \<and>
     in_order (s\<lparr>que := q', resetting := e\<rparr>) \<and> nothing_lost (s\<lparr>que := q', resetting := e\<rparr>) \<and>
     in_order (s\<lparr>que := q'\<rparr>) \<and> nothing_lost (s\<lparr>que := q'\<rparr>)"
  using moves_in_order [of s "worker s" q'] by (simp add: in_order_def nothing_lost_def)

lemma q_step_in_order: "q_step full s s' \<Longrightarrow> in_order s \<Longrightarrow> nothing_lost s \<Longrightarrow> in_order s' \<and> nothing_lost s'"
proof (induction rule: q_step.induct)
  case (c_receive s ss) then show ?case using Receive_put_in_order by blast
next
  case (c_eos s room) then show ?case using put_in_order Queued_adds(1) by blast
next
  case (c_segment s packet room1 room2 hr seg)
  have "adds (que s) q' [Packet seg]" if "Queued_NewSegment hr packet room1 room2 seg (que s) = Some q'" for q'
    using that by (auto simp: Queued_NewSegment_def QueueSample_def adds_def NotifyThread_def split: if_splits)
  with c_segment put_in_order show ?case by blast
next
  case (c_send s room) then show ?case using put_in_order Queued_adds(3) by blast
next
  case (c_reset s room)
  then have "in_order (s\<lparr>resetting := True\<rparr>)" "nothing_lost (s\<lparr>resetting := True\<rparr>)" by (simp_all add: in_order_def nothing_lost_def)
  moreover have "\<And>q'. Queued_Reset room (que s) = Some q' \<Longrightarrow> adds (que (s\<lparr>resetting := True\<rparr>)) q' []" using Queued_adds(4) by simp
  ultimately show ?case using put_in_order by blast
next
  case (c_reset_waited s) then show ?case using in_order_frame [OF _ _ moves_quiet] by (simp add: Queued_Reset_waited_def delivered_def)
next
  case (c_begin_flush s passed q')
  then have "moves (worker s) (que s) (worker s) q'"
    by (intro moves_quiet) (auto simp: Queued_BeginFlush_def NotifyThread_def delivered_def Let_def split: if_splits)
  with c_begin_flush in_order_frame show ?case by blast
next
  case (c_flush_down s) then show ?case using in_order_frame [OF _ _ moves_quiet] by (simp add: delivered_def down_items_def)
next
  case (c_end_at_once s q')
  then have "moves (worker s) (que s) (worker s) q'"
    by (intro moves_quiet) (auto simp: Queued_EndFlush_at_once_def delivered_def split: if_splits)
  with c_end_at_once in_order_frame show ?case by blast
next
  case (c_end_waited s) then show ?case using in_order_frame [OF _ _ moves_quiet] by (simp add: Queued_EndFlush_waited_def delivered_def)
next
  case (c_end_done s) then show ?case using in_order_frame [OF _ _ moves_quiet] by (simp add: Queued_EndFlush_done_def delivered_def down_items_def)
next
  case (c_destroy s) then show ?case using in_order_frame [OF _ _ moves_quiet] by (simp add: tell_to_end_def NotifyThread_def delivered_def)
next
  case (w_collect s)
  show ?case
  proof (cases "collect (que s)")
    case None with w_collect show ?thesis by (simp add: in_order_def nothing_lost_def)
  next
    case (Some x)
    then obtain w q' where x: "collect (que s) = Some (w, q')" by (cases x) simp
    from collect_moves [OF x] have "moves (worker s) (que s) w q'" using w_collect by simp
    with w_collect moves_in_order show ?thesis unfolding x by simp
  qed
next
  case (w_wake s)
  then show ?case using moves_in_order [OF _ _ moves_quiet] by (simp add: delivered_def unsent_def being_sent_def)
next
  case (w_send s b sp hr w q') then show ?case using sending_moves(1) moves_in_order by metis
next
  case (w_sent s b sp r) then show ?case using sending_moves(2) moves_in_order by metis
next
  case (w_finish s sp) then show ?case using sending_moves(3) moves_in_order by metis
qed

lemma q_reachable_in_order: "q_reachable full s \<Longrightarrow> in_order s \<and> nothing_lost s"
proof (induction rule: q_reachable.induct)
  case (start n exact opt)
  then show ?case
    by (simp add: in_order_def nothing_lost_def start_state_def new_out_queue_def delivered_def unsent_def being_sent_def waiting_items_def waiting_samples_def)
next
  case (step s s') then show ?case using q_step_in_order by blast
qed

section \<open>The thread never sleeps over something to do\<close>

lemma free_list_append: "free_list es = Some a \<Longrightarrow> free_list (es @ fs) = map_option ((@) a) (free_list fs)"
  by (cases "free_list fs"; induction es arbitrary: a rule: free_list.induct) auto

lemma gather_defined:
  "free_list es \<noteq> None \<Longrightarrow> \<exists>r b' es'. gather ex n b es = Some (r, b', es') \<and> free_list es' \<noteq> None \<and>
     (RESET_PACKET \<in> set es \<longrightarrow> RESET_PACKET \<in> set es' \<or> r = Some Reset_done)"
  by (induction ex n b es rule: gather.induct) (auto split: if_splits)

text \<open>Nothing is left to do for a sleeping thread that nobody has roused.\<close>

definition nothing_to_do :: "out_queue \<Rightarrow> bool" where
  "nothing_to_do q \<longleftrightarrow> \<not> m_bTerminate q \<and> (m_bFlushing q \<longrightarrow> (m_bFlushed q \<and> m_bFlushingOpt q) \<or> m_evFlushComplete q) \<and>
     (if m_bBatchExact q then list_all (\<lambda>e. \<exists>x. e = Sample x) (m_List q) \<and> length (m_ppSamples q) + length (m_List q) < m_lBatchSize q
      else m_List q = [] \<and> m_ppSamples q = [])"

definition roused :: "q_system \<Rightarrow> bool" where
  "roused s \<longleftrightarrow> 
     (if worker s = Sleeping then (sem (que s) = 0 \<and> m_lWaiting (que s) = 1 \<and> nothing_to_do (que s)) \<or> (sem (que s) = 1 \<and> m_lWaiting (que s) = 0)
      else sem (que s) = 0 \<and> m_lWaiting (que s) = 0)"

definition doing :: "worker \<Rightarrow> special" where
  "doing w = (case w of Sending b sp \<Rightarrow> sp | Sent b sp r \<Rightarrow> sp | Finishing sp \<Rightarrow> sp | _ \<Rightarrow> No_special)"

definition reset_under_way :: "q_system \<Rightarrow> bool" where
  "reset_under_way s \<longleftrightarrow> \<not> m_bFlushing (que s) \<and> \<not> m_bTerminate (que s) \<and>
     (RESET_PACKET \<in> set (m_List (que s)) \<or> doing (worker s) = Reset_done \<or> m_evFlushComplete (que s))"

definition q_ok :: "q_system \<Rightarrow> bool" where
  "q_ok s \<longleftrightarrow> \<not> crashed s \<and> free_list (m_List (que s)) \<noteq> None \<and> length (m_ppSamples (que s)) < m_lBatchSize (que s) \<and>
     roused s \<and> (resetting s \<longrightarrow> reset_under_way s)"

text \<open>What an operation of a client may do to the signals.\<close>

definition rouses :: "out_queue \<Rightarrow> out_queue \<Rightarrow> bool" where
  "rouses q q' \<longleftrightarrow> (sem q' = sem q + m_lWaiting q \<and> m_lWaiting q' = 0) \<or>
     (sem q' = sem q \<and> m_lWaiting q' = m_lWaiting q \<and> (nothing_to_do q \<longrightarrow> nothing_to_do q'))"

lemma rouses_roused: "roused s \<Longrightarrow> rouses (que s) q' \<Longrightarrow> que s' = q' \<Longrightarrow> worker s' = worker s \<Longrightarrow> roused s'"
  by (auto simp: roused_def rouses_def split: if_splits)

lemma NotifyThread_rouses [simp]: "sem q' = sem q \<Longrightarrow> m_lWaiting q' = m_lWaiting q \<Longrightarrow> rouses q (NotifyThread q')"
  by (simp add: rouses_def NotifyThread_def)

lemma rouses_same [simp]: "rouses q q"
  by (simp add: rouses_def)

lemma NotifyThread_keeps [simp]:
  "m_List (NotifyThread q) = m_List q" "m_ppSamples (NotifyThread q) = m_ppSamples q" "m_lBatchSize (NotifyThread q) = m_lBatchSize q"
  "m_bFlushing (NotifyThread q) = m_bFlushing q" "m_bTerminate (NotifyThread q) = m_bTerminate q"
  "m_evFlushComplete (NotifyThread q) = m_evFlushComplete q" "m_hr (NotifyThread q) = m_hr q"
  by (simp_all add: NotifyThread_def)

text \<open>The lists an operation may append while there is memory.\<close>

definition extends :: "out_queue \<Rightarrow> out_queue \<Rightarrow> bool" where
  "extends q q' \<longleftrightarrow> (\<exists>l. m_List q' = m_List q @ l \<and> free_list l \<noteq> None) \<and> m_ppSamples q' = m_ppSamples q \<and> m_lBatchSize q' = m_lBatchSize q \<and>
     m_bFlushing q' = m_bFlushing q \<and> m_bTerminate q' = m_bTerminate q \<and> m_evFlushComplete q' = m_evFlushComplete q \<and> rouses q q'"

lemma free_list_Samples [simp]: "free_list (map (\<lambda>x. Sample (f x)) xs) = Some (map f xs)"
  by (induction xs) auto

lemma Receive_extends:
  assumes "list_all snd ss" "\<not> m_bFlushing q" shows "\<exists>hr n q'. Queued_ReceiveMultiple ss q = Some (hr, n, q') \<and> extends q q'"
proof (cases "m_hr q = S_OK")
  case False then show ?thesis by (simp add: Queued_ReceiveMultiple_def extends_def rouses_def nothing_to_do_def)
next
  case True
  have f: "filter snd ss = ss" using assms(1) by (simp add: list_all_iff)
  show ?thesis using True assms(2)
    by (auto simp: Queued_ReceiveMultiple_def queue_all_eq f extends_def rouses_def nothing_to_do_def list_all_iff NotifyThread_def)
qed

lemma Queued_extends:
  "\<exists>q'. Queued_EOS True q = Some q' \<and> extends q q'"
  "packet = True \<Longrightarrow> \<exists>q'. Queued_NewSegment hr packet True True seg q = Some q' \<and> extends q q'"
  "\<exists>q'. Queued_SendAnyway True q = Some q' \<and> extends q q'"
  "\<exists>q'. Queued_Reset True q = Some q' \<and> extends q q' \<and> RESET_PACKET \<in> set (m_List q')"
  by (auto simp: Queued_EOS_def Queued_NewSegment_def Queued_SendAnyway_def Queued_Reset_def QueueSample_def extends_def)

lemma put_ok:
  assumes "q_ok s" "extends (que s) q'" "\<not> resetting s"
  shows "q_ok (put s es (Some q'))"
  using assms rouses_roused [of s q' "put s es (Some q')"]
  by (auto simp: q_ok_def extends_def put_def free_list_append)

lemma collect_ok:
  assumes "q_ok s" "worker s = Loop"
  shows "\<exists>w q'. collect (que s) = Some (w, q') \<and> q_ok (s\<lparr>que := q', worker := w\<rparr>)"
proof -
  define q where "q = que s"
  have ok: "free_list (m_List q) \<noteq> None" "length (m_ppSamples q) < m_lBatchSize q" "sem q = 0" "m_lWaiting q = 0" "\<not> crashed s"
    "resetting s \<Longrightarrow> \<not> m_bFlushing q \<and> \<not> m_bTerminate q \<and> (RESET_PACKET \<in> set (m_List q) \<or> m_evFlushComplete q)"
    using assms by (auto simp: q_def q_ok_def roused_def reset_under_way_def doing_def)
  show ?thesis
  proof (cases "m_bTerminate q")
    case True
    then show ?thesis using ok assms
      by (auto simp: q_def [symmetric] collect_def FreeSamples_def popped_def q_ok_def roused_def)
  next
    case False
    define q1 where "q1 = (if m_bFlushing q then (popped q)\<lparr>m_List := [], released := released q @ samples_of (m_List q) @ m_ppSamples q,
       m_ppSamples := [], m_evFlushComplete := True\<rparr> else q)"
    have q1: "(if m_bFlushing q then map_option (\<lambda>q1. q1\<lparr>m_evFlushComplete := True\<rparr>) (FreeSamples True q) else Some q) = Some q1"
      using ok(1) by (auto simp: q1_def FreeSamples_def popped_def dest: free_list_samples)
    have q1': "free_list (m_List q1) \<noteq> None" "length (m_ppSamples q1) < m_lBatchSize q1" "sem q1 = 0" "m_lWaiting q1 = 0"
      "m_bFlushing q1 \<Longrightarrow> m_evFlushComplete q1" "m_bTerminate q1 = m_bTerminate q" "m_bFlushing q1 = m_bFlushing q"
      "resetting s \<Longrightarrow> RESET_PACKET \<in> set (m_List q1) \<or> m_evFlushComplete q1"
      using ok by (auto simp: q1_def popped_def)
    from gather_defined [OF q1'(1)] obtain r b es where g: "gather (m_bBatchExact q1) (m_lBatchSize q1) (m_ppSamples q1) (m_List q1) = Some (r, b, es)"
      "free_list es \<noteq> None" "RESET_PACKET \<in> set (m_List q1) \<longrightarrow> RESET_PACKET \<in> set es \<or> r = Some Reset_done" by blast
    show ?thesis
    proof (cases r)
      case None
      with gather_wait g(1) q1'(2) have "es = []" "m_bBatchExact q1 \<or> b = []" "length b < m_lBatchSize q1" by blast+
      then show ?thesis using False q1 q1' g ok None assms
        by (auto simp: q_def [symmetric] collect_def popped_def q_ok_def roused_def nothing_to_do_def reset_under_way_def)
    next
      case (Some sp)
      then show ?thesis using False q1 q1' g ok assms
        by (auto simp: q_def [symmetric] collect_def popped_def q_ok_def roused_def reset_under_way_def doing_def)
    qed
  qed
qed

lemma BeginFlush_rouses:
  assumes "Queued_BeginFlush q = (passed, q')"
  shows "rouses q q'" "m_List q' = m_List q" "m_ppSamples q' = m_ppSamples q" "m_lBatchSize q' = m_lBatchSize q"
proof -
  define q1 where "q1 = q\<lparr>m_bFlushing := True, m_hr := if m_hr q = S_OK then S_FALSE else m_hr q\<rparr>"
  have q': "q' = (if m_bFlushed q \<and> m_bFlushingOpt q then q1 else NotifyThread (q1\<lparr>m_evFlushComplete := False\<rparr>))"
    using assms unfolding Queued_BeginFlush_def Let_def q1_def by (auto split: if_splits)
  have "m_bFlushed q \<and> m_bFlushingOpt q \<Longrightarrow> nothing_to_do q \<Longrightarrow> nothing_to_do q1" by (simp add: q1_def nothing_to_do_def)
  then show "rouses q q'" by (auto simp: q' q1_def rouses_def NotifyThread_def)
  show "m_List q' = m_List q" "m_ppSamples q' = m_ppSamples q" "m_lBatchSize q' = m_lBatchSize q" by (simp_all add: q' q1_def)
qed

lemma q_step_ok: "q_step True s s' \<Longrightarrow> q_ok s \<Longrightarrow> q_ok s'"
proof (induction rule: q_step.induct)
  case (c_receive s ss)
  then have "list_all snd ss" "\<not> m_bFlushing (que s)" by simp_all
  from Receive_extends [OF this] obtain hr n q' where "Queued_ReceiveMultiple ss (que s) = Some (hr, n, q')" "extends (que s) q'" by blast
  with c_receive put_ok show ?case by simp
next
  case (c_eos s room)
  then have "room" by simp
  with Queued_extends(1) [of "que s"] c_eos put_ok show ?case by auto
next
  case (c_segment s packet room1 room2 hr seg)
  then have "packet" "room1" "room2" by simp_all
  with Queued_extends(2) [of packet hr seg "que s"] c_segment put_ok show ?case by auto
next
  case (c_send s room)
  then have "room" by simp
  with Queued_extends(3) [of "que s"] c_send put_ok show ?case by auto
next
  case (c_reset s room)
  then have room: "room" by simp
  from Queued_extends(4) [of "que s"] obtain q' where q': "Queued_Reset True (que s) = Some q'" "extends (que s) q'" "RESET_PACKET \<in> set (m_List q')"
    by blast
  then have "q_ok (put s [] (Some q'))" using c_reset put_ok by simp
  then show ?case using q' room c_reset by (auto simp: q_ok_def put_def roused_def reset_under_way_def extends_def)
next
  case (c_reset_waited s)
  then show ?case by (auto simp: q_ok_def Queued_Reset_waited_def roused_def nothing_to_do_def reset_under_way_def split: if_splits)
next
  case (c_begin_flush s passed q')
  note b = BeginFlush_rouses [OF c_begin_flush.hyps(5)]
  then have "roused (s\<lparr>que := q', flush_down := passed\<rparr>)"
    using c_begin_flush.prems by (auto simp: q_ok_def intro: rouses_roused)
  then show ?case using b c_begin_flush.prems c_begin_flush.hyps(4) by (simp add: q_ok_def)
next
  case (c_flush_down s)
  then show ?case by (auto simp: q_ok_def roused_def nothing_to_do_def reset_under_way_def split: if_splits)
next
  case (c_end_at_once s q')
  then show ?case by (auto simp: q_ok_def Queued_EndFlush_at_once_def roused_def nothing_to_do_def reset_under_way_def split: if_splits)
next
  case (c_end_waited s)
  then show ?case by (auto simp: q_ok_def Queued_EndFlush_waited_def roused_def nothing_to_do_def reset_under_way_def split: if_splits)
next
  case (c_end_done s)
  then show ?case by (auto simp: q_ok_def Queued_EndFlush_done_def roused_def nothing_to_do_def reset_under_way_def split: if_splits)
next
  case (c_destroy s)
  then show ?case using rouses_roused [of s "tell_to_end (que s)" "s\<lparr>que := tell_to_end (que s)\<rparr>"]
    by (auto simp: q_ok_def tell_to_end_def)
next
  case (w_collect s)
  from collect_ok [OF w_collect.prems w_collect.hyps] obtain w q' where "collect (que s) = Some (w, q')" "q_ok (s\<lparr>que := q', worker := w\<rparr>)"
    by blast
  then show ?case by simp
next
  case (w_wake s)
  then show ?case by (auto simp: q_ok_def roused_def reset_under_way_def doing_def split: if_splits)
next
  case (w_send s b sp hr w q')
  then show ?case by (auto simp: q_ok_def send_down_def roused_def reset_under_way_def doing_def split: if_splits)
next
  case (w_sent s b sp r)
  then show ?case by (auto simp: q_ok_def after_send_def roused_def reset_under_way_def doing_def)
next
  case (w_finish s sp)
  then show ?case by (auto simp: q_ok_def finish_def roused_def reset_under_way_def doing_def split: special.splits)
qed

lemma q_reachable_ok: "q_reachable True s \<Longrightarrow> q_ok s"
proof (induction rule: q_reachable.induct)
  case (start n exact opt)
  then show ?case by (simp add: q_ok_def start_state_def new_out_queue_def roused_def)
next
  case (step s s') then show ?case using q_step_ok by blast
qed

section \<open>What is delivered when nothing goes wrong\<close>

text \<open>Runs with memory for every node, without a flush, in which the other pin takes what it gets.\<close>

inductive q_undisturbed :: "q_system \<Rightarrow> bool" where
  start: "0 < n \<Longrightarrow> q_undisturbed (start_state n exact opt)"
| step: "q_undisturbed s \<Longrightarrow> q_step True s s' \<Longrightarrow> \<not> m_bFlushing (que s') \<Longrightarrow> \<not> m_bTerminate (que s') \<Longrightarrow>
    (\<forall>b sp hr. worker s' = Sent b sp (Some hr) \<longrightarrow> hr = S_OK) \<Longrightarrow> q_undisturbed s'"

definition all_there :: "q_system \<Rightarrow> bool" where
  "all_there s \<longleftrightarrow> m_hr (que s) = S_OK \<and> \<not> m_bFlushing (que s) \<and> \<not> m_bTerminate (que s) \<and> \<not> crashed s \<and> worker s \<noteq> Ended \<and>
     (\<forall>b sp hr. worker s = Sent b sp (Some hr) \<longrightarrow> hr = S_OK) \<and> delivered (que s) @ unsent (worker s) @ waiting_items (que s) = handed s"

lemma all_thereD: "all_there s \<Longrightarrow> m_hr (que s) = S_OK \<and> \<not> m_bFlushing (que s) \<and> \<not> m_bTerminate (que s)"
  by (simp add: all_there_def)

lemma put_all_there:
  "all_there s \<Longrightarrow> m_hr q' = S_OK \<Longrightarrow> \<not> m_bFlushing q' \<Longrightarrow> \<not> m_bTerminate q' \<Longrightarrow> down q' = down (que s) \<Longrightarrow> m_ppSamples q' = m_ppSamples (que s) \<Longrightarrow>
   m_List q' = m_List (que s) @ l \<Longrightarrow> items l = es \<Longrightarrow> all_there (put s es (Some q'))"
  by (auto simp: all_there_def put_def delivered_def waiting_items_def)

lemma NotifyThread_down [simp]: "down (NotifyThread q) = down q"
  by (simp add: NotifyThread_def)

lemma collect_all_there:
  assumes "all_there s" "worker s = Loop" "collect (que s) = Some (w, q')"
  shows "all_there (s\<lparr>que := q', worker := w\<rparr>)"
proof -
  obtain r b es where g: "gather (m_bBatchExact (que s)) (m_lBatchSize (que s)) (m_ppSamples (que s)) (m_List (que s)) = Some (r, b, es)"
    using assms by (auto simp: collect_def all_there_def split: option.splits)
  then show ?thesis using assms gather_items [OF g]
    by (auto simp: collect_def all_there_def popped_def delivered_def unsent_def waiting_items_def split: option.splits)
qed

lemma q_step_all_there:
  "q_step True s s' \<Longrightarrow> all_there s \<Longrightarrow> q_ok s \<Longrightarrow> \<not> m_bFlushing (que s') \<Longrightarrow> \<not> m_bTerminate (que s') \<Longrightarrow>
   (\<forall>b sp hr. worker s' = Sent b sp (Some hr) \<longrightarrow> hr = S_OK) \<Longrightarrow> all_there s'"
proof (induction rule: q_step.induct)
  case (c_receive s ss)
  have f: "filter snd ss = ss" using c_receive.hyps by (simp add: list_all_iff)
  note ok = all_thereD [OF c_receive.prems(1)]
  define q1 where "q1 = (que s)\<lparr>m_bFlushed := False, m_List := m_List (que s) @ map (\<lambda>x. Sample (fst x)) ss,
    released := released (que s) @ map fst (filter (Not \<circ> snd) ss)\<rparr>"
  have "Queued_ReceiveMultiple ss (que s) = Some (S_OK, length ss, q1) \<or> Queued_ReceiveMultiple ss (que s) = Some (S_OK, length ss, NotifyThread q1)"
    using ok by (auto simp: Queued_ReceiveMultiple_def queue_all_eq f q1_def)
  then show ?case
    using ok put_all_there [OF c_receive.prems(1), where l = "map (\<lambda>x. Sample (fst x)) ss"] by (auto simp: q1_def)
next
  case (c_eos s room)
  note ok = all_thereD [OF c_eos.prems(1)]
  have "Queued_EOS room (que s) = Some (NotifyThread ((que s)\<lparr>m_bFlushed := False, m_List := m_List (que s) @ [EOS_PACKET]\<rparr>))"
    using c_eos.hyps ok by (simp add: Queued_EOS_def QueueSample_def)
  then show ?case using ok put_all_there [OF c_eos.prems(1), where l = "[EOS_PACKET]"] by simp
next
  case (c_segment s packet room1 room2 hr seg)
  note ok = all_thereD [OF c_segment.prems(1)]
  have "Queued_NewSegment hr packet room1 room2 seg (que s) = Some (NotifyThread ((que s)\<lparr>m_List := m_List (que s) @ [NEW_SEGMENT, Packet seg]\<rparr>))"
    using c_segment.hyps ok by (simp add: Queued_NewSegment_def QueueSample_def)
  then show ?case using ok put_all_there [OF c_segment.prems(1), where l = "[NEW_SEGMENT, Packet seg]"] by simp
next
  case (c_send s room)
  note ok = all_thereD [OF c_send.prems(1)]
  have "Queued_SendAnyway room (que s) = Some (NotifyThread ((que s)\<lparr>m_List := m_List (que s) @ [SEND_PACKET]\<rparr>))"
    using c_send.hyps ok by (simp add: Queued_SendAnyway_def QueueSample_def)
  then show ?case using ok put_all_there [OF c_send.prems(1), where l = "[SEND_PACKET]"] by simp
next
  case (c_reset s room)
  note ok = all_thereD [OF c_reset.prems(1)]
  have "Queued_Reset room (que s) = Some (NotifyThread ((que s)\<lparr>m_List := m_List (que s) @ [RESET_PACKET]\<rparr>))"
    using c_reset.hyps ok by (simp add: Queued_Reset_def QueueSample_def)
  moreover have "all_there (s\<lparr>resetting := True\<rparr>)" using c_reset.prems(1) by (simp add: all_there_def)
  ultimately show ?case using ok put_all_there [of "s\<lparr>resetting := True\<rparr>", where l = "[RESET_PACKET]"] by simp
next
  case (w_collect s)
  from collect_ok [OF w_collect.prems(2) w_collect.hyps] obtain w q' where c: "collect (que s) = Some (w, q')" by blast
  from collect_all_there [OF w_collect.prems(1) w_collect.hyps this] show ?case unfolding c by simp
next
  case (w_send s b sp hr w q')
  then show ?case
    by (auto simp: send_down_def all_there_def delivered_def down_items_def unsent_def waiting_items_def split: if_splits)
next
  case (w_sent s b sp r)
  then show ?case by (auto simp: after_send_def all_there_def delivered_def unsent_def waiting_items_def split: option.splits)
next
  case (w_finish s sp)
  then show ?case
    by (auto simp: finish_def all_there_def delivered_def down_items_def special_items_def unsent_def waiting_items_def split: special.splits)
qed (auto simp: all_there_def delivered_def down_items_def unsent_def waiting_items_def Queued_Reset_waited_def Queued_BeginFlush_def Let_def
  Queued_EndFlush_done_def tell_to_end_def split: if_splits)

lemma q_undisturbed_all_there: "q_undisturbed s \<Longrightarrow> q_reachable True s \<and> all_there s"
proof (induction rule: q_undisturbed.induct)
  case (start n exact opt)
  then show ?case
    by (auto intro!: q_reachable.start) (auto simp: all_there_def start_state_def new_out_queue_def delivered_def unsent_def waiting_items_def)
next
  case (step s s')
  then show ?case using q_step_all_there q_reachable_ok q_reachable.step by (auto simp: q_ok_def)
qed

section \<open>The thread on its own\<close>

text \<open>The step of the thread as a function; \<open>hr\<close> is what the other pin would return.\<close>

definition work :: "hresult \<Rightarrow> q_system \<Rightarrow> q_system" where
  "work hr s =
    (case worker s of
       Loop \<Rightarrow> (case collect (que s) of None \<Rightarrow> s\<lparr>crashed := True\<rparr> | Some (w, q') \<Rightarrow> s\<lparr>que := q', worker := w\<rparr>)
     | Sleeping \<Rightarrow> s\<lparr>que := (que s)\<lparr>sem := sem (que s) - 1\<rparr>, worker := Loop\<rparr>
     | Sending b sp \<Rightarrow> s\<lparr>que := snd (send_down hr b sp (que s)), worker := fst (send_down hr b sp (que s))\<rparr>
     | Sent b sp r \<Rightarrow> s\<lparr>que := after_send b r (que s), worker := Finishing sp\<rparr>
     | Finishing sp \<Rightarrow> s\<lparr>que := finish sp (que s), worker := Loop\<rparr>
     | Ended \<Rightarrow> s)"

definition thread_rests :: "q_system \<Rightarrow> bool" where
  "thread_rests s \<longleftrightarrow> worker s = Ended \<or> (worker s = Sleeping \<and> sem (que s) = 0)"

lemma work_step: "\<not> thread_rests s \<Longrightarrow> q_step full s (work hr s)"
  using q_step.w_send [of s _ _ hr] q_step.w_collect [of s] q_step.w_wake [of s] q_step.w_sent [of s] q_step.w_finish [of s]
  by (cases "worker s") (simp_all add: thread_rests_def work_def)

definition backlog :: "q_system \<Rightarrow> nat" where
  "backlog s = 4 * (length (m_List (que s)) + length (m_ppSamples (que s))) +
     (case worker s of Loop \<Rightarrow> 1 | Sleeping \<Rightarrow> (if sem (que s) = 0 then 0 else 2) | Sending b sp \<Rightarrow> 4 | Sent b sp r \<Rightarrow> 3 | Finishing sp \<Rightarrow> 2 | Ended \<Rightarrow> 0)"

lemma gather_shrinks:
  "gather ex n b es = Some (Some sp, b', es') \<Longrightarrow> length es' < length es + length b"
  "gather ex n b es = Some (None, b', es') \<Longrightarrow> length es' + length b' \<le> length es + length b"
  by (induction ex n b es rule: gather.induct) (auto split: if_splits)

lemma collect_shrinks:
  assumes "collect q = Some (w, q')" "sem q = 0"
  shows "backlog (s\<lparr>que := q', worker := w\<rparr>) < 4 * (length (m_List q) + length (m_ppSamples q)) + 1"
proof (cases "m_bTerminate q")
  case True with assms show ?thesis by (auto simp: collect_def FreeSamples_def popped_def backlog_def split: option.splits)
next
  case False
  then obtain q1 where q1: "(if m_bFlushing q then map_option (\<lambda>q1. q1\<lparr>m_evFlushComplete := True\<rparr>) (FreeSamples True q) else Some q) = Some q1"
    using assms by (auto simp: collect_def split: option.splits)
  then obtain r b es where g: "gather (m_bBatchExact q1) (m_lBatchSize q1) (m_ppSamples q1) (m_List q1) = Some (r, b, es)"
    using assms False by (auto simp: collect_def split: option.splits)
  have le: "length (m_List q1) + length (m_ppSamples q1) \<le> length (m_List q) + length (m_ppSamples q)" "sem q1 = sem q"
    using q1 by (auto simp: FreeSamples_def popped_def split: if_splits option.splits)
  show ?thesis
  proof (cases r)
    case None
    with assms False q1 g have "w = Sleeping" "m_List q' = es" "m_ppSamples q' = b" "sem q' = 0" using le(2) by (auto simp: collect_def popped_def)
    moreover have "length es + length b \<le> length (m_List q1) + length (m_ppSamples q1)" using g gather_shrinks(2) None by metis
    ultimately show ?thesis using le(1) by (simp add: backlog_def)
  next
    case (Some sp)
    with assms False q1 g have "w = Sending b sp" "m_List q' = es" "m_ppSamples q' = []" by (auto simp: collect_def popped_def)
    moreover have "length es < length (m_List q1) + length (m_ppSamples q1)" using g gather_shrinks(1) Some by metis
    ultimately show ?thesis using le(1) by (simp add: backlog_def)
  qed
qed

lemma work_progress:
  assumes "q_ok s" "\<not> thread_rests s" shows "backlog (work hr s) < backlog s"
proof (cases "worker s")
  case Loop
  then obtain w q' where c: "collect (que s) = Some (w, q')" using collect_ok [OF assms(1)] by blast
  have "sem (que s) = 0" using assms(1) Loop by (simp add: q_ok_def roused_def)
  from collect_shrinks [OF c this, of s] show ?thesis by (simp add: work_def Loop c) (simp add: backlog_def Loop)
next
  case (Sending b sp)
  then show ?thesis by (simp add: work_def backlog_def send_down_def)
qed (use assms in \<open>auto simp: thread_rests_def work_def backlog_def after_send_def finish_def split: special.splits\<close>)

lemma work_ok: "q_ok s \<Longrightarrow> \<not> thread_rests s \<Longrightarrow> q_ok (work hr s)"
  using work_step q_step_ok by blast

lemma thread_comes_to_rest: "q_ok s \<Longrightarrow> \<exists>k. thread_rests ((work hr ^^ k) s)"
proof (induction "backlog s" arbitrary: s rule: less_induct)
  case less
  show ?case
  proof (cases "thread_rests s")
    case True then have "thread_rests ((work hr ^^ 0) s)" by simp
    then show ?thesis by blast
  next
    case False
    with less obtain k where "thread_rests ((work hr ^^ k) (work hr s))" using work_progress work_ok by blast
    then have "thread_rests ((work hr ^^ Suc k) s)" by (simp add: funpow_swap1)
    then show ?thesis by blast
  qed
qed

lemma collect_frame: "collect q = Some (w, q') \<Longrightarrow> m_bFlushing q' = m_bFlushing q \<and> m_bTerminate q' = m_bTerminate q \<and> m_bBatchExact q' = m_bBatchExact q \<and>
   (\<forall>b sp r. w \<noteq> Sent b sp r)"
  by (auto simp: collect_def FreeSamples_def popped_def split: if_splits option.splits)

lemma work_undisturbed:
  assumes "q_undisturbed s" "\<not> thread_rests s"
  shows "q_undisturbed (work S_OK s)" "handed (work S_OK s) = handed s" "m_bBatchExact (que (work S_OK s)) = m_bBatchExact (que s)"
proof -
  have ok: "q_ok s" "all_there s" using q_undisturbed_all_there [OF assms(1)] q_reachable_ok by blast+
  have fr: "m_bFlushing (que (work S_OK s)) = m_bFlushing (que s) \<and> m_bTerminate (que (work S_OK s)) = m_bTerminate (que s) \<and>
    handed (work S_OK s) = handed s \<and> m_bBatchExact (que (work S_OK s)) = m_bBatchExact (que s) \<and>
    (\<forall>b sp hr. worker (work S_OK s) = Sent b sp (Some hr) \<longrightarrow> hr = S_OK)"
  proof (cases "worker s")
    case Loop
    then obtain w q' where c: "collect (que s) = Some (w, q')" using collect_ok [OF ok(1)] by blast
    from collect_frame [OF c] show ?thesis by (simp add: work_def Loop c)
  qed (use assms(2) in \<open>auto simp: thread_rests_def work_def send_down_def after_send_def finish_def split: special.splits\<close>)
  then show "q_undisturbed (work S_OK s)" using q_undisturbed.step [OF assms(1) work_step [OF assms(2)]] all_thereD [OF ok(2)] by simp
  show "handed (work S_OK s) = handed s" "m_bBatchExact (que (work S_OK s)) = m_bBatchExact (que s)" using fr by simp_all
qed

text \<open>What may stay behind at rest: nothing, or samples that do not fill an exact batch.\<close>

definition part_of_a_batch :: "out_queue \<Rightarrow> entry list \<Rightarrow> bool" where
  "part_of_a_batch q es \<longleftrightarrow> (if m_bBatchExact q then list_all (\<lambda>e. \<exists>x. e = Sample x) es \<and> length es < m_lBatchSize q else es = [])"

lemma items_samples: "list_all (\<lambda>e. \<exists>x. e = Sample x) es \<Longrightarrow> items es = es"
  by (induction es) auto

lemma rest_delivers: "q_undisturbed s \<Longrightarrow> thread_rests s \<Longrightarrow>
   delivered (que s) @ waiting_items (que s) = handed s \<and> part_of_a_batch (que s) (waiting_items (que s))"
  using q_undisturbed_all_there [of s] q_reachable_ok [of s]
  by (auto simp: thread_rests_def all_there_def q_ok_def roused_def nothing_to_do_def unsent_def waiting_items_def
      part_of_a_batch_def items_samples list_all_iff)

lemma undisturbed_comes_to_rest:
  "q_undisturbed s \<Longrightarrow> \<exists>k. q_undisturbed ((work S_OK ^^ k) s) \<and> thread_rests ((work S_OK ^^ k) s) \<and> handed ((work S_OK ^^ k) s) = handed s \<and>
     m_bBatchExact (que ((work S_OK ^^ k) s)) = m_bBatchExact (que s)"
proof (induction "backlog s" arbitrary: s rule: less_induct)
  case less
  show ?case
  proof (cases "thread_rests s")
    case True with less.prems show ?thesis by (intro exI [of _ 0]) simp
  next
    case False
    have "q_ok s" using less.prems q_undisturbed_all_there q_reachable_ok by blast
    with less work_progress False work_undisturbed [OF less.prems False] obtain k where
      "q_undisturbed ((work S_OK ^^ k) (work S_OK s)) \<and> thread_rests ((work S_OK ^^ k) (work S_OK s)) \<and> handed ((work S_OK ^^ k) (work S_OK s)) = handed s \<and>
       m_bBatchExact (que ((work S_OK ^^ k) (work S_OK s))) = m_bBatchExact (que s)" by metis
    then show ?thesis by (intro exI [of _ "Suc k"]) (simp add: funpow_swap1)
  qed
qed

section \<open>Example runs\<close>

definition demo_asleep :: q_system where "demo_asleep = work S_OK (start_state 1 False False)"

definition demo_given :: q_system where
  "demo_given = put demo_asleep [Sample 7] (map_option (\<lambda>(hr, n, q'). q') (Queued_ReceiveMultiple [(7, True)] (que demo_asleep)))"

definition demo_sent :: q_system where "demo_sent = work S_OK (work S_OK (work S_OK (work S_OK demo_given)))"

definition demo_reset :: q_system where
  "demo_reset = put (demo_asleep\<lparr>resetting := True\<rparr>) [] (Queued_Reset True (que demo_asleep))"

definition demo_flush :: q_system where
  "demo_flush = (let s = demo_reset\<lparr>que := snd (Queued_BeginFlush (que demo_reset)), flush_down := True\<rparr>
    in work S_OK (work S_OK (s\<lparr>que := (que s)\<lparr>down := down (que s) @ [D_BeginFlush]\<rparr>, flush_down := False\<rparr>)))"

definition demo_hang :: q_system where
  "demo_hang = (let s = demo_flush\<lparr>que := Queued_EndFlush_waited (que demo_flush), ending := True\<rparr>
    in s\<lparr>que := Queued_EndFlush_done (que s), ending := False\<rparr>)"

lemmas demo_eval = demo_asleep_def demo_given_def demo_sent_def demo_reset_def demo_flush_def demo_hang_def start_state_def new_out_queue_def
  work_def collect_def popped_def put_def Queued_ReceiveMultiple_def QueueSample_def NotifyThread_def Queued_Reset_def Queued_BeginFlush_def
  FreeSamples_def Queued_EndFlush_waited_def Queued_EndFlush_done_def send_down_def after_send_def thread_rests_def

lemma demo_undisturbed: "q_undisturbed demo_sent" 
proof -
  have w: "q_undisturbed s \<Longrightarrow> \<not> thread_rests s \<Longrightarrow> q_undisturbed (work S_OK s)" for s by (rule work_undisturbed(1))
  have "q_undisturbed demo_asleep" unfolding demo_asleep_def by (rule w, rule q_undisturbed.start) (simp_all add: demo_eval)
  moreover have "q_step True demo_asleep demo_given"
    unfolding demo_given_def using q_step.c_receive [of demo_asleep True "[(7, True)]"] by (simp add: demo_eval)
  ultimately have "q_undisturbed demo_given" by (rule q_undisturbed.step) (simp_all add: demo_eval)
  then show ?thesis unfolding demo_sent_def by (intro w) (simp_all add: demo_eval)
qed

lemma demo_sent_delivers: "delivered (que demo_sent) = [Sample 7]" "handed demo_sent = [Sample 7]" "\<not> m_bBatchExact (que demo_sent)"
  by (simp_all add: demo_eval delivered_def down_items_def)

lemma demo_hang_reachable: "q_reachable False demo_hang"
proof -
  have w: "q_reachable False s \<Longrightarrow> \<not> crashed s \<Longrightarrow> \<not> thread_rests s \<Longrightarrow> q_reachable False (work S_OK s)" for s
    using q_reachable.step work_step by blast
  have "q_reachable False demo_asleep" unfolding demo_asleep_def by (rule w, rule q_reachable.start) (simp_all add: demo_eval)
  moreover have "q_step False demo_asleep demo_reset"
    unfolding demo_reset_def by (rule q_step.c_reset) (simp_all add: demo_eval)
  ultimately have 1: "q_reachable False demo_reset" using q_reachable.step by (simp add: demo_eval)
  define s1 where "s1 = demo_reset\<lparr>que := snd (Queued_BeginFlush (que demo_reset)), flush_down := True\<rparr>"
  have "q_step False demo_reset s1"
    unfolding s1_def by (rule q_step.c_begin_flush) (simp_all add: demo_eval)
  with 1 have 2: "q_reachable False s1" using q_reachable.step by (simp add: demo_eval)
  define s2 where "s2 = s1\<lparr>que := (que s1)\<lparr>down := down (que s1) @ [D_BeginFlush]\<rparr>, flush_down := False\<rparr>"
  have "q_step False s1 s2" unfolding s2_def by (rule q_step.c_flush_down) (simp add: s1_def)
  with 2 have "q_reachable False s2" using q_reachable.step by (simp add: s1_def demo_eval)
  then have "q_reachable False (work S_OK (work S_OK s2))"
    by (intro w) (simp_all add: s2_def s1_def demo_eval)
  then have 3: "q_reachable False demo_flush" by (simp add: demo_flush_def s2_def s1_def Let_def)
  define s3 where "s3 = demo_flush\<lparr>que := Queued_EndFlush_waited (que demo_flush), ending := True\<rparr>"
  have "q_step False demo_flush s3"
    unfolding s3_def by (rule q_step.c_end_waited) (simp_all add: demo_eval Queued_EndFlush_at_once_def)
  with 3 have 4: "q_reachable False s3" using q_reachable.step by (simp add: demo_eval)
  have "q_step False s3 (s3\<lparr>que := Queued_EndFlush_done (que s3), ending := False\<rparr>)" by (rule q_step.c_end_done) (simp add: s3_def)
  moreover have "\<not> crashed s3" by (simp add: s3_def demo_eval)
  ultimately show ?thesis using q_reachable.step [OF 4] by (simp add: demo_hang_def s3_def Let_def)
qed

section \<open>Properties\<close>

text \<open>C37: What the queue sends on and what it still holds is, in this order, part of what its clients handed over, and every sample
  that was handed over has been released once or is still being_sent: with any clients, flushes, errors and failures of memory.\<close>

theorem queue_keeps_order_and_samples:
  assumes "q_reachable full s"
  shows "subseq (delivered (que s) @ unsent (worker s) @ waiting_items (que s)) (handed s)
    \<and> mset (samples_of (handed s)) = mset (released (que s)) + waiting_samples (que s) + mset (being_sent (worker s))"
  using q_reachable_in_order [OF assms] by (simp_all add: in_order_def nothing_lost_def)

theorem queue_keeps_order_and_samples_witness:
  "subseq [Sample 7] (handed demo_sent) \<and> {#7#} = mset (released (que demo_sent)) + waiting_samples (que demo_sent)"
proof -
  have "q_reachable True demo_sent" using q_undisturbed_all_there [OF demo_undisturbed] by simp
  note t = queue_keeps_order_and_samples [OF this]
  have "unsent (worker demo_sent) = []" "waiting_items (que demo_sent) = []" "being_sent (worker demo_sent) = []"
    by (simp_all add: demo_eval unsent_def waiting_items_def being_sent_def special_items_def)
  then show ?thesis using t demo_sent_delivers by (auto simp: demo_eval being_sent_def)
qed

text \<open>C38: As long as there is memory for every node, nobody flushes or ends the thread and the other pin takes what it
  gets, the thread of a queue comes to rest, and has then sent on, in order, everything that was handed over: all of it if
  the queue need not keep to exact batches, and otherwise all but samples at the end that do not fill a batch.\<close>

theorem everything_is_delivered_in_the_end:
  assumes "q_undisturbed s"
  shows "\<exists>k rest. thread_rests ((work S_OK ^^ k) s) \<and> delivered (que ((work S_OK ^^ k) s)) @ rest = handed s
    \<and> (if m_bBatchExact (que s)
       then list_all (\<lambda>e. \<exists>x. e = Sample x) rest \<and> length rest < m_lBatchSize (que ((work S_OK ^^ k) s)) else rest = [])"
proof -
  obtain k where k: "q_undisturbed ((work S_OK ^^ k) s)" "thread_rests ((work S_OK ^^ k) s)" "handed ((work S_OK ^^ k) s) = handed s"
    "m_bBatchExact (que ((work S_OK ^^ k) s)) = m_bBatchExact (que s)"
    using undisturbed_comes_to_rest [OF assms] by auto
  from rest_delivers [OF k(1,2)] k show ?thesis
    by (intro exI [of _ k] exI [of _ "waiting_items (que ((work S_OK ^^ k) s))"]) (simp add: part_of_a_batch_def)
qed

theorem everything_is_delivered_in_the_end_witness:
  "\<exists>k. thread_rests ((work S_OK ^^ k) demo_sent) \<and> delivered (que ((work S_OK ^^ k) demo_sent)) = [Sample 7]"
  using everything_is_delivered_in_the_end [OF demo_undisturbed] by (auto simp: demo_sent_delivers)

text \<open>C39: With memory for every node, no flush that begins while \<open>Reset\<close> waits, and no \<open>EndFlush\<close> that sets \<open>m_hr\<close> right
  between \<open>NewSegment\<close>'s look at it and its lock (\<open>q_reachable True\<close>), the thread never meets a broken list and never sleeps with
  something left to do: while it waits and is not roused there is at most part of an exact batch, and no flush and no reset waits for it.\<close>

theorem queue_thread_sleeps_over_nothing:
  assumes "q_reachable True s"
  shows "\<not> crashed s \<and> (worker s = Sleeping \<and> sem (que s) = 0 \<longrightarrow> nothing_to_do (que s) \<and> (resetting s \<longrightarrow> m_evFlushComplete (que s)))"
proof (intro conjI impI)
  have ok: "q_ok s" using assms by (rule q_reachable_ok)
  then show "\<not> crashed s" by (simp add: q_ok_def)
  assume "worker s = Sleeping \<and> sem (que s) = 0"
  then have w: "worker s = Sleeping" "sem (que s) = 0" by simp_all
  with ok have q: "nothing_to_do (que s)" by (simp add: q_ok_def roused_def)
  then have "RESET_PACKET \<notin> set (m_List (que s))" by (auto simp: nothing_to_do_def list_all_iff split: if_splits)
  with ok w q show "nothing_to_do (que s)" "resetting s \<Longrightarrow> m_evFlushComplete (que s)" by (simp_all add: q_ok_def reset_under_way_def doing_def)
qed

theorem queue_thread_sleeps_over_nothing_witness:
  "nothing_to_do (que demo_asleep) \<and> worker demo_asleep = Sleeping"
proof -
  have "q_reachable True demo_asleep"
    unfolding demo_asleep_def by (rule q_reachable.step [OF q_reachable.start _ work_step]) (simp_all add: demo_eval)
  from queue_thread_sleeps_over_nothing [OF this] show ?thesis by (simp add: demo_eval)
qed

text \<open>C40: A flush that begins while \<open>Reset\<close> waits throws the reset packet away, and the event, which is set once, releases only one of the
  two calls: when the flush takes it, \<open>Reset\<close> waits for ever, with nothing queued, the thread asleep and the flush over.\<close>

theorem flush_while_reset_waits:
  "\<exists>s. q_reachable False s \<and> \<not> crashed s \<and> resetting s \<and> thread_rests s \<and> \<not> m_evFlushComplete (que s) \<and> m_List (que s) = []
     \<and> \<not> m_bFlushing (que s) \<and> \<not> ending s \<and> down (que s) = [D_BeginFlush, D_EndFlush]"
  using demo_hang_reachable by (intro exI [of _ demo_hang]) (simp add: demo_eval)

text \<open>Without a thread and without exact batches a sample that does not fill its batch stays in the queue while the end of the stream
  is sent on: the other pin gets the end before the sample.\<close>

theorem end_of_stream_overtakes_samples:
  assumes "1 < n" and "q = snd (snd (Direct_ReceiveMultiple recv False [x] (new_out_queue n False opt)))"
  shows "down (Direct_EOS recv q) = [D_EndOfStream] \<and> m_ppSamples (Direct_EOS recv q) = [x] \<and> released (Direct_EOS recv q) = []"
  using assms by (simp_all add: Direct_ReceiveMultiple_def Direct_EOS_def new_out_queue_def)

theorem end_of_stream_overtakes_samples_witness:
  "down (Direct_EOS (\<lambda>b. (S_OK, 1)) (snd (snd (Direct_ReceiveMultiple (\<lambda>b. (S_OK, 1)) False [7] (new_out_queue 2 False False))))) = [D_EndOfStream]"
  using end_of_stream_overtakes_samples [of 2 _ "\<lambda>b. (S_OK, 1)" 7 False] by simp

end
