(* ===== verification/Spec2Isabelle.thy ===== *)
theory Spec2Isabelle
  imports SharedChannel CaptureService MediaSource DeviceSource VirtualPin SourceStream SourceFilter BaseList Enumerators Streaming SourcePin Registration AudioType ListAppend
    MulDiv DynamicPin MediaFilter StreamControl SelfRegistration OutputQueue
begin

text \<open>
  A verification library for the PS3 Eye camera drivers for Windows. The repository has two
  programs around one camera driver: a DirectShow source filter that owns the camera
  (src/DirectShowFilter), and a capture service that owns the camera and shares its frames with
  any number of client processes through a section of shared memory
  (src/MediaFoundationSource), where a Media Foundation source and a virtual DirectShow camera
  read them.

  How the parts interact. PS3EyeCaptureService::CaptureLoop waits for clients, starts the camera
  on demand, and hands each frame to PS3EyeSharedMemoryServer::WriteFrame, which copies it into
  the section under a mutex and raises an event. PS3EyeSharedMemoryClient::ReadFrame copies it
  out. PS3EyeMediaSource runs a capture thread that reads frames and queues them as samples on
  its PS3EyeMediaStream; PS3EyeActivate and PS3EyeClassFactory create the source for the
  platform. PS3EyeVirtualPin::FillBuffer reads frames for DirectShow. PS3EyePushPin::FillBuffer
  gets frames from the camera itself. Both pins derive from CSourceStream (baseclasses/source.cpp),
  whose worker thread (CAMThread in wxutil.cpp) takes commands from the filter, and both describe
  their formats with AM_MEDIA_TYPE blocks (mtype.cpp); their filters derive from CSource.

  Theories, in dependency order, and the code they model:
    - Prelude: HRESULT values, wait results, truncating division, and the two interfaces the
      components share as locales: \<open>fault_free\<close> (runs of operations on raw memory neither fault
      nor leave an invariant) and \<open>implements\<close> (results and states follow a specification);
    - Bytes: memory as a function of addresses, copies, and records of fixed-width fields laid
      out in it (a locale, interpreted for the section's header and for VIDEOINFOHEADER);
    - SharedMemory: PS3EyeSharedMemory.cpp/.h, all operations of server and client;
    - SharedChannel: one server and any number of clients interleaved, as a step relation;
    - CaptureService: PS3EyeCaptureService.cpp, the loop, the service and the command line;
    - ComObject, MediaSource, DeviceSource: reference counts, PS3EyeMediaSource.cpp/.h and
      PS3EyeDeviceSource.cpp;
    - MediaType, VideoFormat: mtype.cpp on a heap of blocks, amvideo.cpp, checkbmi.h;
    - PushPin, VirtualPin: PS3EyePushPin.cpp, PS3EyeVirtualFilter.cpp;
    - SourceStream, SourceFilter: source.cpp with CAMThread of wxutil.cpp, and the pins of CSource;
    - BaseList, ListAppend: wxlist.cpp, CBaseList on a heap of linked nodes, and its operations
      that add a whole list;
    - MediaSample, Allocator: CMediaSample, CBaseAllocator and CMemAllocator of amfilter.cpp, the
      samples that carry the frames and the block of memory they are cut from;
    - Actions: the state and error monad in which two pins talk to each other;
    - PinConnect, InputPin: how an output and an input pin of amfilter.cpp (CBasePin,
      CBaseOutputPin, CBaseInputPin) connect, agree on an allocator and part;
    - Enumerators: CEnumPins and CEnumMediaTypes; Streaming: delivering, receiving and flushing;
    - BaseFilter: CBaseFilter with its pins as it stops, pauses and runs, and the rest of a pin;
    - SourcePin: a camera's pin as its filter sees it, CSourceStream's Active and Inactive composed
      of the output pin's and the worker thread's, and the filter's contract with such pins;
    - ComServer: the filters as COM servers, from combase.cpp and dllentry.cpp, with their
      construction in PS3EyeSource.cpp and PS3EyeVirtualFilter.cpp;
    - Registration: dllsetup.cpp and setup.cpp over a model of the registry, and the registration
      functions of the other two servers; SelfRegistration: the older way, through IAMovieSetup;
    - AudioType: the one function of mtype.cpp that makes an audio type;
    - MulDiv: arithutil.cpp, multiplication and division of times through 128 bits;
    - Schedule, Clock: schedule.cpp and refclock.cpp, the notifications a clock owes its clients, in
      order, and the clock with its thread;
    - MediaFilter: CBaseMediaFilter, a filter without pins, and the stream time over the clock;
    - DynamicPin: CDynamicOutputPin, an output pin that can be blocked while threads use it;
    - StreamControl: strmctl.cpp, which decides what happens to each sample of a stream;
    - OutputQueue: outputq.cpp, the queue of samples between a pin and the thread that sends them.

  How state corresponds. A C++ object is a record with the class's member names, a method is a
  function that takes the object (and the memory or heap it works on) and returns it updated
  with the result; what the method asks of the operating system, of COM or of the camera is an
  argument, so a theorem that does not restrict the argument holds for every answer. Sections,
  format blocks and list nodes are addresses of an explicit heap; a read or write outside a live
  block is the value None, so absence of faults is something to prove. Integers whose width
  matters are words. Calls whose order matters are recorded in a list.

  What the lemmas show. SharedMemory: accesses stay in the section, a frame written is read back.
  SharedChannel: the client count in the header is the number of connected
  clients in every interleaving without a restart, and what goes wrong with one; within one
  connection a client is handed no frame twice, and the newest each time. CaptureService: every
  run keeps to the driver's protocol (a camera is started only when its setup succeeded, asked
  before every frame, and given up at the end), an idle camera stops after 31 frames, the time
  stamp's range.
  MediaSource and DeviceSource: states, thread, stream and connection agree in every reachable
  state, samples only while started, nothing is left after a failed creation. MediaType: no
  operation sequence faults or leaks. VideoFormat: accepted headers cannot overflow. PushPin and
  VirtualPin: what is offered is accepted and fits its buffers. SourceStream: every
  interleaving of a client with the worker is a history of an abstract service that decides each
  command once, by the phase it is in, and returns that decision. SourceFilter
  and BaseList: the array and the linked list implement HOL lists under all operations.
  MediaSample: a sample never leaks its media type, times come back as set. Allocator: with any
  number of threads no waiter is forgotten, buffers never overlap, and the allocator lives as
  long as its buffers. PinConnect and InputPin: connecting is all or nothing, and disconnecting
  undoes it. Streaming: a refused type is reported once until a flush. Enumerators: every pin is
  listed once. BaseFilter and SourcePin: no call into a camera's pin waits for ever, the
  pins of an active filter have their buffers and their threads unless the filter downstream takes the
  buffers away, and those of a stopped one have neither. ComServer: the object
  count tells when a DLL may be unloaded, and a destructor runs once. Registration: the removal of
  a key ends and is complete, unless a key is protected, and what an unregistration leaves in the
  registry and in the filter mapper, whose documented effect on its lists is modelled over the calls
  and their answers. Clock: the time never goes back, and an accepted request that is not cancelled is notified exactly
  once, by the first pass of the thread that is late enough, whatever calls and passes come between.
  ListAppend: lists are added in order. This
  theory: a frame goes unchanged from the service to a Media Foundation client.

  Fuel. Loops over a data structure recurse on it. Loops that follow pointers take as fuel the
  count the object keeps (CBaseList) and the theorems show that it suffices; a loop that adds a
  list returns with one round for each of its objects. The poll of the
  virtual pin is bounded by the code itself (ten attempts); the destructor's loop over pins takes
  the number of pins. In the handshake a call to the worker is given the answers of the steps the
  worker takes, and five are shown to be enough. The capture loop is a fold over the
  inputs of its passes, since it runs until the service is stopped. The allocator's semaphore
  counts to 0x7FFFFFFF; fewer waits and time-outs than that are let happen in its step relation.
  The clock's schedule takes one unit for each notification that is due, and the thread of an output
  queue comes to rest by a measure. Twice the number of keys and two is enough for EliminateSubKey, if no key is protected; an
  object whose destructor refers to itself needs two runs of Release.

  Not modelled: the camera driver and libusb (empty submodules), whose documented behaviour is an
  argument, as is what the registry, COM and the filter mapper answer; the test clients; the base
  classes the two filters do not use and no modelled class needs (windows, drawing, transforms, pull
  pins, streams, position control); the entry function of the DLLs and debug output.
\<close>

section \<open>From the camera to the Media Foundation client\<close>

text \<open>
  The capture service writes a frame into the section, a started media source whose capture
  thread passes next delivers it. \<open>frame_ready\<close> collects the documented answers of the
  operating system and of Media Foundation under which every call succeeds.
\<close>

definition frame_ready :: "capture_answers \<Rightarrow> bool" where
  "frame_ready a \<longleftrightarrow> k_event a = WAIT_OBJECT_0 \<and> k_mutex a = WAIT_OBJECT_0 \<and>
     succeeded (k_sample a) \<and> succeeded (k_buffer a) \<and> succeeded (k_lock a) \<and> succeeded (k_add a)"

text \<open>C1: a full frame written by the capture service reaches the client of the media source
  unchanged: the next pass of the capture thread of a started source queues exactly one sample,
  whose bytes are the bytes the server was given.\<close>

theorem frame_reaches_the_client:
  assumes "source_reachable r" and "m_state (src r) = Started"
    and "header_ok m" and "hdr m H_serverPID \<noteq> 0"
    and "Server_WriteFrame w (Some img) (of_nat (frameSize (src r))) t s0 m = (True, s0', m', calls)"
    and "IsConnected (m_sharedMemClient (src r))" and "m_newFrameEvent (m_sharedMemClient (src r))"
    and "m_lastFrameNumber (m_sharedMemClient (src r)) \<noteq> m_frameNumber s0'"
    and "frame_ready a"
  shows "\<exists>l s smp. capture_iteration a (loc r) (src r) m' = (l, s, m', [MEMediaSample smp])
     \<and> s_length smp = frameSize (src r) \<and> s_time smp = timestamp (loc r)
     \<and> (\<forall>i < frameSize (src r). the (s_data smp) i = img i)
     \<and> m_lastFrameNumber (m_sharedMemClient s) = m_frameNumber s0'"
proof -
  have "source_inv (src r)" using assms(1) by (rule source_reachable_inv)
  then obtain x where x: "stream_object (src r) = Some x" "m_stream (src r)" "m_isActive x" "\<not> m_isShutdown x"
    using assms(2) by (auto simp: source_inv_def split: option.splits if_splits)
  have size: "unat (of_nat (frameSize (src r)) :: u32) = frameSize (src r)"
    by (simp add: frameSize_def)
  have "m_sharedMemory (m_sharedMemClient (src r))" using assms(6) by (simp add: IsConnected_def)
  note rd = write_then_read [OF assms(3,5,4) this assms(8), of "frameBuffer (loc r)" "of_nat (frameSize (src r))"]
  show ?thesis
    using capture_delivers [of a "loc r" "src r" m', OF _ _ assms(6,7) _ _ _ _ _ x] rd assms(9)
    by (simp add: frame_ready_def size memcpy_def)
qed

theorem frame_reaches_the_client_witness:
  "\<exists>m' l s smp. capture_iteration answered \<lparr>frameBuffer = (\<lambda>_. 0), timestamp = 0\<rparr> demo_source m'
       = (l, s, m', [MEMediaSample smp])
     \<and> (\<forall>i < 640 * 480 * 3. the (s_data smp) i = of_nat i) \<and> m_lastFrameNumber (m_sharedMemClient s) = 1"
proof -
  let ?r = "\<lparr>src = demo_source, loc = \<lparr>frameBuffer = (\<lambda>_. 0), timestamp = 0\<rparr>, shmem = demo_section\<rparr>"
  have size: "frameSize demo_source = 640 * 480 * 3"
    by (simp add: frameSize_def demo_source_def idle_source_def new_source_def ps3eye_consts)
  have c: "m_sharedMemClient demo_source = demo_client" "m_state demo_source = Started"
    by (simp_all add: demo_source_def idle_source_def)
  obtain m' where w: "Server_WriteFrame WAIT_OBJECT_0 (Some of_nat) (of_nat (frameSize demo_source)) 0
      demo_server demo_section = (True, demo_server\<lparr>m_frameNumber := 1\<rparr>, m',
        [Waited Mutex WAIT_OBJECT_0, Signalled NewFrameEvent, Released Mutex])"
    by (simp add: Server_WriteFrame_def demo_server_def Let_def ps3eye_consts size)
  show ?thesis
    using frame_reaches_the_client [of ?r demo_section WAIT_OBJECT_0 of_nat 0 demo_server
        "demo_server\<lparr>m_frameNumber := 1\<rparr>" m' _ answered, OF demo_started]
      demo_section_ok w
    by (fastforce simp: c size frame_ready_def answered_def demo_client_def IsConnected_def)
qed

end
